(* ===== verification/Prelude.thy ===== *)
theory Prelude
  imports Main "HOL-Library.Word"
begin

text \<open>
  What every component of the development shares: the names of the basic Go types, the result
  type of a fallible operation, the named collections the component theories extend, and the
  generic facts about lists and finite maps that their proofs use.

  Conventions. A Go \<open>string\<close> or \<open>[]byte\<close> is a \<open>string\<close> (a list of 8-bit characters), so
  \<open>length\<close> is Go's \<open>len\<close>. A \<open>time.Time\<close> is a number of nanoseconds since Go's zero time, so
  \<open>time.Time{}\<close> is \<open>0\<close>, \<open>Before\<close> is \<open><\<close>, \<open>After\<close> is \<open>>\<close> and \<open>Add\<close> is \<open>+\<close>. A Go map is a map
  \<open>'k \<rightharpoonup> 'v\<close> where the code never ranges over it, and a list of its entries in the order the
  runtime happens to range over them where the code does. An \<open>error\<close> return is the left
  summand of a sum.
\<close>

type_synonym bytes = string
type_synonym gotime = int
type_synonym duration = int
type_synonym i64 = "64 word"

abbreviation (input) zero_time :: gotime where
  "zero_time \<equiv> 0"

named_theorems model_defs \<open>definitions that evaluate the model on closed inputs\<close>
named_theorems frame_simps \<open>what an operation leaves alone\<close>

section \<open>Lists\<close>

lemma sum_list_filter_split:
  "sum_list (map f (filter P xs)) + sum_list (map f (filter (\<lambda>x. \<not> P x) xs))
     = (sum_list (map f xs) :: nat)"
  by (induction xs) auto

lemma count_list_filter_length: "count_list xs x = length (filter (\<lambda>y. y = x) xs)"
  by (induction xs) auto

lemma filter_concat_map: "filter P (concat (map f xs)) = concat (map (\<lambda>x. filter P (f x)) xs)"
  by (induction xs) auto

lemma concat_filter_nonempty: "concat (filter (\<lambda>x. x \<noteq> []) xs) = concat xs"
  by (induction xs) auto

lemma concat_map_filter_empty:
  "(\<And>x. x \<in> set xs \<Longrightarrow> \<not> P x \<Longrightarrow> f x = []) \<Longrightarrow>
     concat (map f (filter P xs)) = concat (map f xs)"
  by (induction xs) auto

lemma length_filter_split:
  "length (filter P xs) + length (filter (\<lambda>x. \<not> P x) xs) = length xs"
  by (induction xs) auto

lemma map_of_filter_key:
  "map_of (filter (\<lambda>kv. Q (fst kv)) xs) k = (if Q k then map_of xs k else None)"
  by (induction xs) auto

text \<open>Where an element of a concatenation stands.\<close>

lemma append_Cons_split:
  assumes "xs @ x # ys = us @ vs"
  obtains (left) us' where "us = xs @ x # us'" "ys = us' @ vs"
    | (right) xs' where "xs = us @ xs'" "vs = xs' @ x # ys"
  using assms by (auto simp: append_eq_append_conv2 Cons_eq_append_conv append_eq_Cons_conv)

section \<open>Strings\<close>

text \<open>\<open>strings.HasPrefix\<close> and \<open>strings.Contains\<close>.\<close>

definition has_prefix :: "bytes \<Rightarrow> bytes \<Rightarrow> bool" where
  "has_prefix s p = (take (length p) s = p)"

fun str_contains :: "bytes \<Rightarrow> bytes \<Rightarrow> bool" where
  "str_contains [] p = (p = [])"
| "str_contains (c # s) p = (has_prefix (c # s) p \<or> str_contains s p)"

lemma str_contains_iff: "str_contains s p \<longleftrightarrow> (\<exists>us vs. s = us @ p @ vs)"
proof (induction s)
  case (Cons c s)
  have "has_prefix (c # s) p \<longleftrightarrow> (\<exists>vs. c # s = p @ vs)"
    unfolding has_prefix_def by (metis append_eq_conv_conj append_take_drop_id)
  then show ?case using Cons by (auto simp: Cons_eq_append_conv) 
qed auto

section \<open>Decimal text\<close>

text \<open>\<open>%d\<close> of a number: the digits of \<open>strconv.Itoa\<close>.\<close>

definition digit_char :: "nat \<Rightarrow> char" where
  "digit_char d = char_of (48 + d)"

fun dec_nat :: "nat \<Rightarrow> string" where
  "dec_nat n = (if n < 10 then [digit_char n] else dec_nat (n div 10) @ [digit_char (n mod 10)])"

declare dec_nat.simps [simp del]

definition dec_int :: "int \<Rightarrow> string" where
  "dec_int i = (if i < 0 then ''-'' @ dec_nat (nat (- i)) else dec_nat (nat i))"

definition undigit :: "char \<Rightarrow> nat" where
  "undigit c = of_char c - 48"

text \<open>The value of a run of digits, most significant first.\<close>

definition dec_value :: "string \<Rightarrow> nat" where
  "dec_value s = foldl (\<lambda>a c. 10 * a + undigit c) 0 s"

lemma undigit_digit [simp]: "d < 10 \<Longrightarrow> undigit (digit_char d) = d"
  by (simp add: undigit_def digit_char_def)

lemma dec_value_dec_nat [simp]: "dec_value (dec_nat n) = n"
proof (induction n rule: dec_nat.induct)
  case (1 n)
  show ?case
  proof (cases "n < 10")
    case True
    then show ?thesis by (simp add: dec_nat.simps dec_value_def)
  next
    case False
    with 1 have "dec_value (dec_nat (n div 10)) = n div 10" by simp
    with False show ?thesis
      by (subst dec_nat.simps) (simp add: dec_value_def)
  qed
qed

lemma dec_nat_inject [simp]: "dec_nat m = dec_nat n \<longleftrightarrow> m = n"
  by (metis dec_value_dec_nat)

section \<open>Finite maps\<close>

lemma sum_map_upd:
  assumes "finite (dom m)"
  shows "(\<Sum>k\<in>dom (m(x \<mapsto> v)). f (the ((m(x \<mapsto> v)) k)))
     = f v + (\<Sum>k\<in>dom m - {x}. f (the (m k)))"
proof -
  have "(\<Sum>k\<in>dom (m(x \<mapsto> v)). f (the ((m(x \<mapsto> v)) k)))
      = f v + (\<Sum>k\<in>dom m - {x}. f (the ((m(x \<mapsto> v)) k)))"
    using assms by (simp add: sum.insert_remove)
  also have "(\<Sum>k\<in>dom m - {x}. f (the ((m(x \<mapsto> v)) k))) = (\<Sum>k\<in>dom m - {x}. f (the (m k)))"
    by (rule sum.cong) auto
  finally show ?thesis .
qed

lemma sum_dom_remove:
  assumes "finite (dom m)" and "m x = Some v"
  shows "(\<Sum>k\<in>dom m. f (the (m k))) = f v + (\<Sum>k\<in>dom m - {x}. f (the (m k)))"
proof -
  have "x \<in> dom m" using assms(2) by auto
  with assms show ?thesis by (simp add: sum.remove)
qed

end
