(* ===== verification/Counter.thy ===== *)
theory Counter
  imports Prelude
begin

text \<open>
  The telemetry counter of \<open>pkg/counter/counter.go\<close>: counts of telemetry keyed by the JSON
  text of the resource and of the attributes. \<open>json.Marshal\<close> on a \<open>map[string]any\<close> may fail
  (a NaN, a channel); it is the parameter \<open>marshal\<close> of the model, an arbitrary function that
  yields the text or \<open>None\<close>. The dimension maps have the arbitrary type \<open>'d\<close>. The counters
  are held by pointers nobody else writes through, so they are values here.
\<close>

section \<open>State and operations\<close>

record 'd AttributeCounter =
  ac_values :: 'd
  ac_count :: int

record 'd ResourceCounter =
  rc_values :: 'd
  rc_attributes :: "string \<rightharpoonup> 'd AttributeCounter"

record 'd TelemetryCounter =
  tc_resources :: "string \<rightharpoonup> 'd ResourceCounter"

definition getDimensionKey :: "('d \<Rightarrow> string option) \<Rightarrow> 'd \<Rightarrow> string" where
  "getDimensionKey marshal d = (case marshal d of None \<Rightarrow> '''' | Some s \<Rightarrow> s)"

definition NewAttributeCounter :: "'d \<Rightarrow> 'd AttributeCounter" where
  "NewAttributeCounter vals = \<lparr>ac_values = vals, ac_count = 0\<rparr>"

definition AttributeCounter_Add :: "'d AttributeCounter \<Rightarrow> 'd AttributeCounter" where
  "AttributeCounter_Add a = a\<lparr>ac_count := ac_count a + 1\<rparr>"

definition NewResourceCounter :: "'d \<Rightarrow> 'd ResourceCounter" where
  "NewResourceCounter vals = \<lparr>rc_values = vals, rc_attributes = Map.empty\<rparr>"

definition ResourceCounter_Add ::
  "('d \<Rightarrow> string option) \<Rightarrow> 'd \<Rightarrow> 'd ResourceCounter \<Rightarrow> 'd ResourceCounter" where
  "ResourceCounter_Add marshal attributes r =
     (let key = getDimensionKey marshal attributes;
          a = (case rc_attributes r key of
                 None \<Rightarrow> NewAttributeCounter attributes
               | Some a \<Rightarrow> a)
      in r\<lparr>rc_attributes := (rc_attributes r)(key \<mapsto> AttributeCounter_Add a)\<rparr>)"

definition NewTelemetryCounter :: "'d TelemetryCounter" where
  "NewTelemetryCounter = \<lparr>tc_resources = Map.empty\<rparr>"

definition TelemetryCounter_Add ::
  "('d \<Rightarrow> string option) \<Rightarrow> 'd \<Rightarrow> 'd \<Rightarrow> 'd TelemetryCounter \<Rightarrow> 'd TelemetryCounter" where
  "TelemetryCounter_Add marshal resource attributes t =
     (let key = getDimensionKey marshal resource;
          r = (case tc_resources t key of
                 None \<Rightarrow> NewResourceCounter resource
               | Some r \<Rightarrow> r)
      in t\<lparr>tc_resources :=
             (tc_resources t)(key \<mapsto> ResourceCounter_Add marshal attributes r)\<rparr>)"

definition TelemetryCounter_Reset :: "'d TelemetryCounter \<Rightarrow> 'd TelemetryCounter" where
  "TelemetryCounter_Reset t = t\<lparr>tc_resources := Map.empty\<rparr>"

definition TelemetryCounter_Resources ::
  "'d TelemetryCounter \<Rightarrow> (string \<rightharpoonup> 'd ResourceCounter)" where
  "TelemetryCounter_Resources t = tc_resources t"

definition ResourceCounter_Attributes ::
  "'d ResourceCounter \<Rightarrow> (string \<rightharpoonup> 'd AttributeCounter)" where
  "ResourceCounter_Attributes r = rc_attributes r"

definition ResourceCounter_Values :: "'d ResourceCounter \<Rightarrow> 'd" where
  "ResourceCounter_Values r = rc_values r"

definition AttributeCounter_Count :: "'d AttributeCounter \<Rightarrow> int" where
  "AttributeCounter_Count a = ac_count a"

definition AttributeCounter_Values :: "'d AttributeCounter \<Rightarrow> 'd" where
  "AttributeCounter_Values a = ac_values a"

lemmas counter_defs [model_defs] =
  getDimensionKey_def NewAttributeCounter_def AttributeCounter_Add_def NewResourceCounter_def
  ResourceCounter_Add_def NewTelemetryCounter_def TelemetryCounter_Add_def
  TelemetryCounter_Reset_def TelemetryCounter_Resources_def ResourceCounter_Attributes_def
  ResourceCounter_Values_def AttributeCounter_Count_def AttributeCounter_Values_def

section \<open>What a sequence of additions leaves in the counter\<close>

text \<open>The additions of a list of (resource, attributes) pairs, in order.\<close>

fun add_all :: "('d \<Rightarrow> string option) \<Rightarrow> ('d \<times> 'd) list \<Rightarrow> 'd TelemetryCounter \<Rightarrow> 'd TelemetryCounter" where
  "add_all marshal [] t = t"
| "add_all marshal ((r, a) # xs) t = add_all marshal xs (TelemetryCounter_Add marshal r a t)"

text \<open>The count stored under a resource key and an attribute key, 0 when there is none.\<close>

definition count_at :: "'d TelemetryCounter \<Rightarrow> string \<Rightarrow> string \<Rightarrow> int" where
  "count_at t rk ak =
     (case tc_resources t rk of
        None \<Rightarrow> 0
      | Some r \<Rightarrow> (case rc_attributes r ak of None \<Rightarrow> 0 | Some a \<Rightarrow> ac_count a))"

lemma count_at_new [simp]: "count_at NewTelemetryCounter rk ak = 0"
  by (simp add: count_at_def NewTelemetryCounter_def)

lemma count_at_Add:
  "count_at (TelemetryCounter_Add marshal r a t) rk ak =
     count_at t rk ak
       + (if rk = getDimensionKey marshal r \<and> ak = getDimensionKey marshal a then 1 else 0)"
  by (auto simp: count_at_def TelemetryCounter_Add_def ResourceCounter_Add_def
        NewResourceCounter_def NewAttributeCounter_def AttributeCounter_Add_def Let_def
      split: option.splits)

lemma count_at_add_all:
  "count_at (add_all marshal xs t) rk ak =
     count_at t rk ak
       + int (length (filter (\<lambda>(r, a). getDimensionKey marshal r = rk
                                     \<and> getDimensionKey marshal a = ak) xs))"
  by (induction marshal xs t rule: add_all.induct) (auto simp: count_at_Add)

section \<open>The whole count\<close>

definition rc_total :: "'d ResourceCounter \<Rightarrow> int" where
  "rc_total r = (\<Sum>k\<in>dom (rc_attributes r). ac_count (the (rc_attributes r k)))"

definition tc_total :: "'d TelemetryCounter \<Rightarrow> int" where
  "tc_total t = (\<Sum>k\<in>dom (tc_resources t). rc_total (the (tc_resources t k)))"

definition counter_finite :: "'d TelemetryCounter \<Rightarrow> bool" where
  "counter_finite t \<longleftrightarrow> finite (dom (tc_resources t))
     \<and> (\<forall>k r. tc_resources t k = Some r \<longrightarrow> finite (dom (rc_attributes r)))"

lemma counter_finite_new: "counter_finite NewTelemetryCounter"
  by (simp add: counter_finite_def NewTelemetryCounter_def)

lemma counter_finite_Add:
  "counter_finite t \<Longrightarrow> counter_finite (TelemetryCounter_Add marshal r a t)"
  by (auto simp: counter_finite_def TelemetryCounter_Add_def ResourceCounter_Add_def
        NewResourceCounter_def Let_def split: option.splits)

lemma rc_total_Add:
  assumes "finite (dom (rc_attributes r))"
  shows "rc_total (ResourceCounter_Add marshal a r) = rc_total r + 1"
proof (cases "rc_attributes r (getDimensionKey marshal a)")
  case None
  then have "dom (rc_attributes r) - {getDimensionKey marshal a} = dom (rc_attributes r)"
    by auto
  with None assms show ?thesis
    by (simp add: rc_total_def ResourceCounter_Add_def Let_def sum_map_upd
        NewAttributeCounter_def AttributeCounter_Add_def del: dom_fun_upd fun_upd_apply)
next
  case (Some c)
  with assms show ?thesis
    by (simp add: rc_total_def ResourceCounter_Add_def Let_def sum_map_upd
        sum_dom_remove [OF assms Some] AttributeCounter_Add_def del: dom_fun_upd fun_upd_apply)
qed

lemma tc_total_Add:
  assumes "counter_finite t"
  shows "tc_total (TelemetryCounter_Add marshal r a t) = tc_total t + 1"
proof (cases "tc_resources t (getDimensionKey marshal r)")
  case None
  then have "dom (tc_resources t) - {getDimensionKey marshal r} = dom (tc_resources t)"
    by auto
  moreover have "rc_total (ResourceCounter_Add marshal a (NewResourceCounter r)) = 1"
    using rc_total_Add [of "NewResourceCounter r" marshal a]
    by (simp add: NewResourceCounter_def rc_total_def)
  ultimately show ?thesis using None assms
    by (simp add: tc_total_def TelemetryCounter_Add_def Let_def sum_map_upd counter_finite_def
        del: dom_fun_upd fun_upd_apply)
next
  case (Some c)
  from assms have fin: "finite (dom (tc_resources t))" and "finite (dom (rc_attributes c))"
    using Some by (auto simp: counter_finite_def)
  then have "rc_total (ResourceCounter_Add marshal a c) = rc_total c + 1"
    by (simp add: rc_total_Add)
  with Some fin show ?thesis
    by (simp add: tc_total_def TelemetryCounter_Add_def Let_def sum_map_upd
        sum_dom_remove [OF fin Some] del: dom_fun_upd fun_upd_apply)
qed

lemma tc_total_add_all:
  "counter_finite t \<Longrightarrow> tc_total (add_all marshal xs t) = tc_total t + int (length xs)"
  by (induction marshal xs t rule: add_all.induct)
     (auto simp: tc_total_Add counter_finite_Add)

text \<open>
  C40. After any sequence of additions to a fresh or reset counter, the count stored under a
  pair of keys is the number of additions whose resource and attributes have these keys, and
  no other entry is counted: the counter is exact per key, and the counts it holds add up to
  the number of additions. The key is the JSON text of a dimension; every dimension that does
  not marshal has the empty key and is counted with the others that do not.
\<close>

theorem counter_exact:
  fixes t :: "'d TelemetryCounter"
  shows "count_at (add_all marshal xs (TelemetryCounter_Reset t)) rk ak
           = int (length (filter (\<lambda>(r, a). getDimensionKey marshal r = rk
                                         \<and> getDimensionKey marshal a = ak) xs))
     \<and> tc_total (add_all marshal xs (TelemetryCounter_Reset t)) = int (length xs)"
proof -
  let ?t = "TelemetryCounter_Reset t"
  have "count_at ?t rk ak = 0" and "tc_total ?t = 0" and "counter_finite ?t"
    by (simp_all add: count_at_def tc_total_def counter_finite_def TelemetryCounter_Reset_def)
  then show ?thesis by (simp add: count_at_add_all tc_total_add_all)
qed

end
