(* ===== verification/Registry.thy ===== *)
theory Registry
  imports Prelude
begin

text \<open>
  The connection registry of the OpAMP gateway,
  \<open>extension/opampgateway/internal/gateway/connections.go\<close>: a mutex-protected map from a
  connection (or agent) id to a connection. The contract its clients rely on is the locale
  \<open>conn_registry\<close>; \<open>reg\<close> interprets it on the model of the code.
\<close>

type_synonym conn_id = string
type_synonym 'v connections = "conn_id \<rightharpoonup> 'v"

definition newConnections :: "'v connections" where
  "newConnections = Map.empty"

definition connections_get :: "'v connections \<Rightarrow> conn_id \<Rightarrow> 'v option" where
  "connections_get c i = c i"

definition connections_set :: "conn_id \<Rightarrow> 'v \<Rightarrow> 'v connections \<Rightarrow> 'v connections" where
  "connections_set i v c = c(i \<mapsto> v)"

definition connections_remove :: "conn_id \<Rightarrow> 'v connections \<Rightarrow> 'v connections" where
  "connections_remove i c = c(i := None)"

definition connections_removeByValue :: "'v \<Rightarrow> 'v connections \<Rightarrow> 'v connections" where
  "connections_removeByValue v c = (\<lambda>i. if c i = Some v then None else c i)"

definition connections_size :: "'v connections \<Rightarrow> nat" where
  "connections_size c = card (dom c)"

lemmas connections_defs [model_defs] =
  newConnections_def connections_get_def connections_set_def connections_remove_def
  connections_removeByValue_def connections_size_def

locale conn_registry =
  fixes empty :: 'r
    and get :: "'r \<Rightarrow> conn_id \<Rightarrow> 'v option"
    and set :: "conn_id \<Rightarrow> 'v \<Rightarrow> 'r \<Rightarrow> 'r"
    and remove :: "conn_id \<Rightarrow> 'r \<Rightarrow> 'r"
    and removeByValue :: "'v \<Rightarrow> 'r \<Rightarrow> 'r"
  assumes get_empty: "get empty i = None"
    and get_set: "get (set i v r) j = (if j = i then Some v else get r j)"
    and get_remove: "get (remove i r) j = (if j = i then None else get r j)"
    and get_removeByValue: "get (removeByValue v r) j = (if get r j = Some v then None else get r j)"
begin

lemma get_set_same: "get (set i v r) i = Some v"
  by (simp add: get_set)

lemma removeByValue_clears: "get (removeByValue v r) j \<noteq> Some v"
  by (simp add: get_removeByValue)

lemma removeByValue_keeps: "get r j = Some w \<Longrightarrow> w \<noteq> v \<Longrightarrow> get (removeByValue v r) j = Some w"
  by (simp add: get_removeByValue)

lemma removed_stays_removed:
  "get (removeByValue v (remove i r)) j = Some w \<Longrightarrow> j \<noteq> i \<and> w \<noteq> v \<and> get r j = Some w"
  by (auto simp: get_removeByValue get_remove split: if_splits)

end

interpretation reg: conn_registry newConnections connections_get connections_set
  connections_remove connections_removeByValue
  by unfold_locales (simp_all add: connections_defs)

lemmas registry_simps [simp] =
  reg.get_empty reg.get_set reg.get_remove reg.get_removeByValue

end
