(* ===== verification/Gateway.thy ===== *)
theory Gateway
  imports Registry
begin

text \<open>
  The OpAMP gateway of \<open>extension/opampgateway/internal/gateway\<close>: the pool of upstream
  connections and the choice of the least loaded one, the assignment of downstream (agent)
  connections to upstream connections, the acceptance of a downstream connection after
  authentication, and the routing of messages both ways.

  An upstream connection is a heap object shared by the pool, by the registry of upstream
  connections and by the downstream connections that use it; it is named by its id
  (\<open>upstream-0\<close>, \<open>upstream-1\<close>, ...) and lives in the store \<open>gw_ups\<close>. A downstream connection is
  named by its id too and its mutable fields live in \<open>gw_downs\<close>. Every operation runs under
  the mutex of the structure it touches, so an execution is a sequence of these operations in
  some order. Ranging over a Go map takes the order as an argument.

  Third-party code is a parameter: the protobuf codec (\<open>marshal\<close>, \<open>unmarshal\<close>), the UUID
  printer and the JSON decoder of the authentication result. The sending of frames is the
  list of messages handed to a connection's writer.
\<close>

section \<open>State\<close>

record 'c upstreamConnection =
  uc_count :: "32 word"
  uc_connected :: bool
  uc_caps :: "'c option"

record downstreamConnection =
  dc_upstream :: conn_id
  dc_cancelled :: bool
  dc_sentCaps :: bool

record message =
  msg_number :: int
  msg_data :: bytes

record OpampGatewayConnectResult =
  cr_requestUID :: string
  cr_accept :: bool
  cr_status :: int
  cr_headers :: "(string \<times> string) list"

datatype authResponse = AuthErr | AuthResult OpampGatewayConnectResult

record 'c gateway =
  gw_ups :: "conn_id \<Rightarrow> 'c upstreamConnection"
  gw_pool :: "conn_id set"
  gw_connections :: "conn_id connections"
  gw_assign :: "conn_id \<rightharpoonup> conn_id"
  gw_agents :: "conn_id connections"
  gw_registered :: "conn_id connections"
  gw_downs :: "conn_id \<Rightarrow> downstreamConnection"
  gw_pending :: "string \<rightharpoonup> authResponse list"
  gw_requests :: "32 word"
  gw_sentUp :: "(conn_id \<times> message) list"
  gw_sentDown :: "(conn_id \<times> message) list"

definition newUpstreamConnection :: "'c upstreamConnection" where
  "newUpstreamConnection = \<lparr>uc_count = 0, uc_connected = False, uc_caps = None\<rparr>"

definition newDownstreamConnection :: "conn_id \<Rightarrow> downstreamConnection" where
  "newDownstreamConnection u = \<lparr>dc_upstream = u, dc_cancelled = False, dc_sentCaps = False\<rparr>"

section \<open>Upstream connection objects\<close>

definition downstreamCount :: "'c upstreamConnection \<Rightarrow> int" where
  "downstreamCount c = sint (uc_count c)"

definition incrementDownstreamCount :: "conn_id \<Rightarrow> 'c gateway \<Rightarrow> 'c gateway" where
  "incrementDownstreamCount u s =
     s\<lparr>gw_ups := (gw_ups s)(u := (gw_ups s u)\<lparr>uc_count := uc_count (gw_ups s u) + 1\<rparr>)\<rparr>"

definition decrementDownstreamCount :: "conn_id \<Rightarrow> 'c gateway \<Rightarrow> 'c gateway" where
  "decrementDownstreamCount u s =
     s\<lparr>gw_ups := (gw_ups s)(u := (gw_ups s u)\<lparr>uc_count := uc_count (gw_ups s u) - 1\<rparr>)\<rparr>"

definition setConnected :: "conn_id \<Rightarrow> bool \<Rightarrow> 'c gateway \<Rightarrow> 'c gateway" where
  "setConnected u b s =
     s\<lparr>gw_ups := (gw_ups s)(u := (gw_ups s u)\<lparr>uc_connected := b\<rparr>)\<rparr>"

definition setCustomCapabilities :: "conn_id \<Rightarrow> 'c \<Rightarrow> 'c gateway \<Rightarrow> 'c gateway" where
  "setCustomCapabilities u caps s =
     s\<lparr>gw_ups := (gw_ups s)(u := (gw_ups s u)\<lparr>uc_caps := Some caps\<rparr>)\<rparr>"

section \<open>The pool\<close>

definition pool_add :: "conn_id \<Rightarrow> 'c gateway \<Rightarrow> 'c gateway" where
  "pool_add u s = (if u \<in> gw_pool s then s else s\<lparr>gw_pool := insert u (gw_pool s)\<rparr>)"

definition pool_remove :: "conn_id \<Rightarrow> 'c gateway \<Rightarrow> 'c gateway" where
  "pool_remove u s = s\<lparr>gw_pool := gw_pool s - {u}\<rparr>"

definition pool_size :: "'c gateway \<Rightarrow> nat" where
  "pool_size s = card (gw_pool s)"

definition MaxInt32 :: int where
  "MaxInt32 = 2147483647"

text \<open>The loop of \<open>next\<close>: the smallest count seen so far and the connection that has it.\<close>

fun next_loop ::
  "(conn_id \<Rightarrow> 'c upstreamConnection) \<Rightarrow> conn_id list \<Rightarrow> int \<Rightarrow> conn_id option \<Rightarrow> conn_id option" where
  "next_loop ups [] minCount minConn = minConn"
| "next_loop ups (c # cs) minCount minConn =
     (if \<not> uc_connected (ups c) then next_loop ups cs minCount minConn
      else let count = downstreamCount (ups c)
           in if count < minCount then next_loop ups cs count (Some c)
              else next_loop ups cs minCount minConn)"

definition pool_next :: "conn_id list \<Rightarrow> 'c gateway \<Rightarrow> conn_id option" where
  "pool_next order s = next_loop (gw_ups s) order MaxInt32 None"

section \<open>Assignments\<close>

definition assignedUpstreamConnection ::
  "conn_id list \<Rightarrow> conn_id \<Rightarrow> 'c gateway \<Rightarrow> conn_id option \<times> 'c gateway" where
  "assignedUpstreamConnection order d s =
     (case Option.bind (gw_assign s d) (connections_get (gw_connections s)) of
        Some u \<Rightarrow> (Some u, s)
      | None \<Rightarrow>
          (case pool_next order s of
             None \<Rightarrow> (None, s)
           | Some u \<Rightarrow>
               (Some u, incrementDownstreamCount u (s\<lparr>gw_assign := (gw_assign s)(d \<mapsto> u)\<rparr>))))"

definition removeDownstreamConnectionIDs ::
  "conn_id list \<Rightarrow> conn_id \<Rightarrow> 'c gateway \<Rightarrow> conn_id list \<times> 'c gateway" where
  "removeDownstreamConnectionIDs order u s =
     (filter (\<lambda>d. gw_assign s d = Some u) order,
      s\<lparr>gw_assign := (\<lambda>d. if gw_assign s d = Some u then None else gw_assign s d)\<rparr>)"

definition unassignDownstreamConnection :: "conn_id \<Rightarrow> 'c gateway \<Rightarrow> 'c gateway" where
  "unassignDownstreamConnection d s =
     (let s1 = (case gw_assign s d of
                  None \<Rightarrow> s
                | Some u \<Rightarrow> (case connections_get (gw_connections s) u of
                               None \<Rightarrow> s
                             | Some c \<Rightarrow> decrementDownstreamCount c s))
      in s1\<lparr>gw_assign := (gw_assign s1)(d := None)\<rparr>)"

section \<open>The client\<close>

definition upstream_id :: "nat \<Rightarrow> conn_id" where
  "upstream_id i = ''upstream-'' @ dec_nat i"

definition client_addConnection :: "conn_id \<Rightarrow> 'c gateway \<Rightarrow> 'c gateway" where
  "client_addConnection u s =
     (let s1 = pool_add u (s\<lparr>gw_ups := (gw_ups s)(u := newUpstreamConnection)\<rparr>)
      in s1\<lparr>gw_connections := connections_set u u (gw_connections s1)\<rparr>)"

definition client_start :: "nat \<Rightarrow> 'c gateway \<Rightarrow> 'c gateway" where
  "client_start connectionCount s =
     fold (\<lambda>i. client_addConnection (upstream_id i)) [0..<connectionCount]
       (s\<lparr>gw_pool := {}, gw_connections := newConnections, gw_assign := Map.empty\<rparr>)"

definition client_shutdownConnection :: "conn_id \<Rightarrow> 'c gateway \<Rightarrow> 'c gateway" where
  "client_shutdownConnection u s =
     pool_remove u (s\<lparr>gw_connections := connections_remove u (gw_connections s)\<rparr>)"

datatype assign_error = ErrNoUpstreamConnectionsAvailable

definition AssignUpstreamConnection ::
  "conn_id list \<Rightarrow> conn_id \<Rightarrow> 'c gateway \<Rightarrow> (assign_error + conn_id) \<times> 'c gateway" where
  "AssignUpstreamConnection order d s =
     (case assignedUpstreamConnection order d s of
        (None, s1) \<Rightarrow> (Inl ErrNoUpstreamConnectionsAvailable, s1)
      | (Some u, s1) \<Rightarrow> (Inr u, s1))"

definition UnassignUpstreamConnection :: "conn_id \<Rightarrow> 'c gateway \<Rightarrow> 'c gateway" where
  "UnassignUpstreamConnection d s = unassignDownstreamConnection d s"

section \<open>The server: authentication and acceptance\<close>

definition addRequest :: "string \<Rightarrow> 'c gateway \<Rightarrow> 'c gateway" where
  "addRequest uid s = s\<lparr>gw_pending := (gw_pending s)(uid \<mapsto> [])\<rparr>"

definition getRequest :: "string \<Rightarrow> 'c gateway \<Rightarrow> authResponse list option" where
  "getRequest uid s = gw_pending s uid"

definition removeRequest :: "string \<Rightarrow> 'c gateway \<Rightarrow> 'c gateway" where
  "removeRequest uid s = s\<lparr>gw_pending := (gw_pending s)(uid := None)\<rparr>"

text \<open>
  How the authentication of a connection goes on after the request was registered: the encoding
  or the sending of the message fails, the wait times out, or it ends with the first response in
  the channel.
\<close>

datatype auth_event =
    MarshalFailed | EncodeFailed | SendFailed | TimedOut | Responded

definition rejected :: "int \<Rightarrow> (string \<times> string) list \<Rightarrow> OpampGatewayConnectResult" where
  "rejected status hs =
     \<lparr>cr_requestUID = '''', cr_accept = False, cr_status = status, cr_headers = hs\<rparr>"

definition timed_out :: "bool \<times> OpampGatewayConnectResult" where
  "timed_out = (False, rejected 504 [(''Retry-After'', ''30'')])"

definition auth_outcome :: "auth_event \<Rightarrow> authResponse list option \<Rightarrow> bool \<times> OpampGatewayConnectResult" where
  "auth_outcome ev chan =
     (case ev of
        MarshalFailed \<Rightarrow> (False, rejected 500 [])
      | EncodeFailed \<Rightarrow> (False, rejected 500 [])
      | SendFailed \<Rightarrow> (False, rejected 500 [])
      | TimedOut \<Rightarrow> timed_out
      | Responded \<Rightarrow>
          (case chan of
             Some (AuthErr # _) \<Rightarrow> (False, rejected 500 [])
           | Some (AuthResult r # _) \<Rightarrow> (cr_accept r, r)
           | _ \<Rightarrow> timed_out))"

text \<open>
  While the goroutine of the request waits for the response the rest of the gateway runs on;
  \<open>meanwhile\<close> is what the others do to the state.
\<close>

definition acceptOpAMPConnection ::
  "string \<Rightarrow> ('c gateway \<Rightarrow> 'c gateway) \<Rightarrow> auth_event \<Rightarrow> 'c gateway
     \<Rightarrow> (bool \<times> OpampGatewayConnectResult) \<times> 'c gateway" where
  "acceptOpAMPConnection uid meanwhile ev s =
     (let s1 = meanwhile (addRequest uid s)
      in (auth_outcome ev (getRequest uid s1), removeRequest uid s1))"

datatype http_reply =
    HttpStatus int "(string \<times> string) list"
  | UpgradeFailed
  | Upgraded

definition addDownstreamConnection ::
  "conn_id \<Rightarrow> downstreamConnection \<Rightarrow> 'c gateway \<Rightarrow> 'c gateway" where
  "addDownstreamConnection d c s =
     s\<lparr>gw_registered := connections_set d d (gw_registered s),
       gw_downs := (gw_downs s)(d := c)\<rparr>"

definition downstream_id :: "32 word \<Rightarrow> string \<Rightarrow> conn_id" where
  "downstream_id n addr = ''downstream-'' @ dec_nat (unat n) @ ''-'' @ addr"

text \<open>
  The handler blocks twice, in the authentication and in the upgrade, and the others run on
  meanwhile (\<open>authenticating\<close>, \<open>upgrading\<close>).
\<close>

definition handleRequest ::
  "conn_id list \<Rightarrow> string \<Rightarrow> string \<Rightarrow> ('c gateway \<Rightarrow> 'c gateway) \<Rightarrow> auth_event
     \<Rightarrow> ('c gateway \<Rightarrow> 'c gateway) \<Rightarrow> bool \<Rightarrow> 'c gateway \<Rightarrow> http_reply \<times> 'c gateway" where
  "handleRequest order remoteAddr uid authenticating ev upgrading upgradeOk s0 =
     (let s = s0\<lparr>gw_requests := gw_requests s0 + 1\<rparr>;
          d = downstream_id (gw_requests s) remoteAddr
      in case AssignUpstreamConnection order d s of
           (Inl ErrNoUpstreamConnectionsAvailable, s1) \<Rightarrow>
             (HttpStatus 503 [(''Retry-After'', ''30'')], s1)
         | (Inr u, s1) \<Rightarrow>
             (case acceptOpAMPConnection uid authenticating ev s1 of
                ((accepted, result), s2) \<Rightarrow>
                  if \<not> accepted then
                    (HttpStatus (if cr_status result = 0 then 401 else cr_status result)
                       (cr_headers result),
                     UnassignUpstreamConnection d s2)
                  else
                    (let s3 = upgrading s2
                     in if \<not> upgradeOk then
                          (UpgradeFailed, UnassignUpstreamConnection d s3)
                        else
                          (Upgraded, addDownstreamConnection d (newDownstreamConnection u) s3))))"

lemmas upstream_defs [model_defs] =
  newUpstreamConnection_def newDownstreamConnection_def downstreamCount_def
  incrementDownstreamCount_def decrementDownstreamCount_def setConnected_def
  setCustomCapabilities_def pool_add_def pool_remove_def pool_size_def MaxInt32_def pool_next_def

lemmas assignment_defs [model_defs] =
  assignedUpstreamConnection_def removeDownstreamConnectionIDs_def
  unassignDownstreamConnection_def AssignUpstreamConnection_def UnassignUpstreamConnection_def
  client_addConnection_def client_shutdownConnection_def

lemmas server_defs [model_defs] =
  addRequest_def getRequest_def removeRequest_def rejected_def timed_out_def auth_outcome_def
  acceptOpAMPConnection_def
  addDownstreamConnection_def handleRequest_def

section \<open>The choice of an upstream connection\<close>

lemma next_loop_cases:
  "(case next_loop ups cs m best of
      None \<Rightarrow> best = None \<and> (\<forall>x\<in>set cs. uc_connected (ups x) \<longrightarrow> m \<le> downstreamCount (ups x))
    | Some c \<Rightarrow>
        (best = Some c \<and> (\<forall>x\<in>set cs. uc_connected (ups x) \<longrightarrow> m \<le> downstreamCount (ups x)))
      \<or> (c \<in> set cs \<and> uc_connected (ups c) \<and> downstreamCount (ups c) < m
          \<and> (\<forall>x\<in>set cs. uc_connected (ups x) \<longrightarrow> downstreamCount (ups c) \<le> downstreamCount (ups x))))"
proof (induction ups cs m best rule: next_loop.induct)
  case (1 ups m best)
  then show ?case by (cases best) auto
next
  case (2 ups c cs m best)
  consider "\<not> uc_connected (ups c)" | "uc_connected (ups c)" "downstreamCount (ups c) < m"
    | "uc_connected (ups c)" "\<not> downstreamCount (ups c) < m" by blast
  then show ?case
  proof cases
    case 1
    with "2.IH"(1) show ?thesis by (cases "next_loop ups cs m best") auto
  next
    case 2
    with "2.IH"(2) show ?thesis
      by (cases "next_loop ups cs (downstreamCount (ups c)) (Some c)") fastforce+
  next
    case 3
    with "2.IH"(3) show ?thesis by (cases "next_loop ups cs m best") auto
  qed
qed

lemma pool_next_Some:
  assumes "pool_next order s = Some u"
  shows "u \<in> set order" and "uc_connected (gw_ups s u)"
    and "downstreamCount (gw_ups s u) < MaxInt32"
    and "\<And>v. v \<in> set order \<Longrightarrow> uc_connected (gw_ups s v) \<Longrightarrow>
           downstreamCount (gw_ups s u) \<le> downstreamCount (gw_ups s v)"
  using next_loop_cases [where ups = "gw_ups s" and cs = order and m = MaxInt32 and best = None] assms
  by (auto simp: pool_next_def)

lemma pool_next_None:
  "pool_next order s = None \<longleftrightarrow>
     (\<forall>v\<in>set order. uc_connected (gw_ups s v) \<longrightarrow> MaxInt32 \<le> downstreamCount (gw_ups s v))"
proof
  assume "pool_next order s = None"
  then show "\<forall>v\<in>set order. uc_connected (gw_ups s v) \<longrightarrow> MaxInt32 \<le> downstreamCount (gw_ups s v)"
    using next_loop_cases [where ups = "gw_ups s" and cs = order and m = MaxInt32 and best = None] by (simp add: pool_next_def)
next
  assume *: "\<forall>v\<in>set order. uc_connected (gw_ups s v) \<longrightarrow> MaxInt32 \<le> downstreamCount (gw_ups s v)"
  show "pool_next order s = None"
  proof (cases "pool_next order s")
    case (Some u)
    with * pool_next_Some [OF Some] show ?thesis by fastforce
  qed
qed

section \<open>What the operations leave alone\<close>

lemma record_count_id [simp]: "c\<lparr>uc_count := uc_count c\<rparr> = c"
  by (cases c) simp

text \<open>
  The registry of upstream connections and the pool agree: the registry maps every id of the
  pool to that connection. \<open>client_addConnection\<close> and \<open>client_shutdownConnection\<close> keep it.
\<close>

definition pool_registered :: "'c gateway \<Rightarrow> bool" where
  "pool_registered s \<longleftrightarrow> (\<forall>u. (u \<in> gw_pool s \<longrightarrow> gw_connections s u = Some u)
     \<and> (\<forall>v. gw_connections s u = Some v \<longrightarrow> v = u))"

lemma pool_registered_add: "pool_registered s \<Longrightarrow> pool_registered (client_addConnection u s)"
  by (auto simp: pool_registered_def client_addConnection_def pool_add_def connections_set_def Let_def)

lemma pool_registered_shutdown:
  "pool_registered s \<Longrightarrow> pool_registered (client_shutdownConnection u s)"
  by (auto simp: pool_registered_def client_shutdownConnection_def pool_remove_def
      connections_remove_def)

lemma pool_registered_start: "pool_registered (client_start n s)"
proof -
  have "pool_registered (fold (\<lambda>i. client_addConnection (upstream_id i)) xs t)"
    if "pool_registered t" for xs t
    using that by (induction xs arbitrary: t) (auto intro: pool_registered_add)
  moreover have "pool_registered (s\<lparr>gw_pool := {}, gw_connections := newConnections, gw_assign := Map.empty\<rparr>)"
    by (simp add: pool_registered_def newConnections_def)
  ultimately show ?thesis by (simp only: client_start_def)
qed

lemma assignedUpstream_new:
  assumes "gw_assign s d = None"
  shows "assignedUpstreamConnection order d s =
    (case pool_next order s of
       None \<Rightarrow> (None, s)
     | Some u \<Rightarrow> (Some u, incrementDownstreamCount u (s\<lparr>gw_assign := (gw_assign s)(d \<mapsto> u)\<rparr>)))"
  using assms by (simp add: assignedUpstreamConnection_def)

definition gateway_new :: "'c gateway" where
  "gateway_new = \<lparr>gw_ups = (\<lambda>_. newUpstreamConnection), gw_pool = {}, gw_connections = newConnections,
     gw_assign = Map.empty, gw_agents = newConnections, gw_registered = newConnections,
     gw_downs = (\<lambda>_. newDownstreamConnection []), gw_pending = Map.empty, gw_requests = 0,
     gw_sentUp = [], gw_sentDown = []\<rparr>"

text \<open>A gateway with two connected upstream connections, for the closed instances below.\<close>

definition demo_gateway :: "unit gateway" where
  "demo_gateway = setConnected ''upstream-1'' True (setConnected ''upstream-0'' True (client_start 2 gateway_new))"

lemma upstream_id_01 [simp]: "upstream_id 0 = ''upstream-0''" "upstream_id (Suc 0) = ''upstream-1''"
  by (simp_all add: upstream_id_def dec_nat.simps digit_char_def char_of_def bit_Suc_0_iff)

lemma demo_gateway_fields:
  "gw_pool demo_gateway = {''upstream-0'', ''upstream-1''}"
  "gw_assign demo_gateway = Map.empty"
  "gw_pending demo_gateway = Map.empty"
  "gw_requests demo_gateway = 0"
  "gw_ups demo_gateway ''upstream-0'' = \<lparr>uc_count = 0, uc_connected = True, uc_caps = None\<rparr>"
  "gw_ups demo_gateway ''upstream-1'' = \<lparr>uc_count = 0, uc_connected = True, uc_caps = None\<rparr>"
  by (auto simp: demo_gateway_def client_start_def client_addConnection_def upstream_defs
      connections_defs gateway_new_def Let_def numeral_2_eq_2)

lemma demo_gateway_registered: "pool_registered demo_gateway"
proof -
  have "pool_registered (setConnected u b s) = pool_registered s" for u b and s :: "unit gateway"
    by (simp add: pool_registered_def setConnected_def)
  then show ?thesis by (simp add: demo_gateway_def pool_registered_start)
qed

text \<open>
  The pool hands out a connected upstream connection with the smallest number of
  downstream connections, whatever the order in which the runtime ranges over the pool, and
  hands out none exactly when every connected connection is at the cap of the search.
\<close>

theorem pool_next_least_loaded:
  assumes "set order = gw_pool s"
  shows "(\<forall>u. pool_next order s = Some u \<longrightarrow>
            u \<in> gw_pool s \<and> uc_connected (gw_ups s u)
          \<and> (\<forall>v\<in>gw_pool s. uc_connected (gw_ups s v) \<longrightarrow>
               downstreamCount (gw_ups s u) \<le> downstreamCount (gw_ups s v)))
       \<and> (pool_next order s = None \<longleftrightarrow>
            (\<forall>v\<in>gw_pool s. uc_connected (gw_ups s v) \<longrightarrow> MaxInt32 \<le> downstreamCount (gw_ups s v)))"
  using pool_next_Some [of order s] pool_next_None [of order s] assms by blast

theorem pool_next_least_loaded_witness:
  "pool_next [''upstream-1'', ''upstream-0''] demo_gateway \<noteq> None"
  using pool_next_least_loaded [of "[''upstream-1'', ''upstream-0'']" demo_gateway]
  by (auto simp: demo_gateway_fields downstreamCount_def MaxInt32_def)

end
