(* ===== verification/WsCodec.thy ===== *)
theory WsCodec
  imports Prelude
begin

unbundle bit_operations_syntax

text \<open>
  The framing of OpAMP messages on a WebSocket and the parsing of agent ids
  (\<open>extension/opampgateway/internal/gateway/common.go\<close>). The protobuf codec and the UUID
  printer are third-party code and are the parameters \<open>marshal\<close>, \<open>unmarshal\<close> and \<open>uuid\<close>;
  \<open>encoding/binary\<close> is written out.
\<close>

section \<open>Unsigned varints of encoding/binary\<close>

fun uvarint_loop :: "bytes \<Rightarrow> nat \<Rightarrow> 64 word \<Rightarrow> nat \<Rightarrow> 64 word \<times> int" where
  "uvarint_loop [] i x s = (0, 0)"
| "uvarint_loop (b # bs) i x s =
     (let v = of_char b :: nat
      in if i = 10 then (0, - (int i + 1))
         else if v < 128 then
           (if i = 9 \<and> v > 1 then (0, - (int i + 1))
            else (x OR push_bit s (word_of_nat v), int i + 1))
         else uvarint_loop bs (Suc i) (x OR push_bit s (word_of_nat v AND 127)) (s + 7))"

definition Uvarint :: "bytes \<Rightarrow> 64 word \<times> int" where
  "Uvarint bs = uvarint_loop bs 0 0 0"

fun put_uvarint :: "nat \<Rightarrow> bytes" where
  "put_uvarint x =
     (if x < 128 then [char_of x] else char_of (x mod 128 + 128) # put_uvarint (x div 128))"

declare put_uvarint.simps [simp del]

definition PutUvarint :: "64 word \<Rightarrow> bytes" where
  "PutUvarint x = put_uvarint (unat x)"

section \<open>Framing\<close>

definition wsMsgHeader :: "64 word" where
  "wsMsgHeader = 0"

definition MaxInt :: int where
  "MaxInt = 9223372036854775807"

datatype ws_error =
    UnexpectedNonZeroHeader | ProtoUnmarshal | ProtoMarshal | MessageTooLarge

definition decodeWSMessage :: "(bytes \<Rightarrow> 'm option) \<Rightarrow> bytes \<Rightarrow> ws_error + 'm" where
  "decodeWSMessage unmarshal bs =
     (let body = (if 0 < length bs \<and> of_char (bs ! 0) = (0 :: nat)
                  then (case Uvarint bs of (header, n) \<Rightarrow>
                          if header \<noteq> wsMsgHeader then Inl UnexpectedNonZeroHeader
                          else Inr (drop (nat n) bs))
                  else Inr bs)
      in case body of
           Inl e \<Rightarrow> Inl e
         | Inr b \<Rightarrow> (case unmarshal b of None \<Rightarrow> Inl ProtoUnmarshal | Some m \<Rightarrow> Inr m))"

definition encodeWSMessage :: "('m \<Rightarrow> bytes option) \<Rightarrow> 'm \<Rightarrow> ws_error + bytes" where
  "encodeWSMessage marshal m =
     (case marshal m of
        None \<Rightarrow> Inl ProtoMarshal
      | Some data \<Rightarrow>
          (let header = PutUvarint wsMsgHeader; n = int (length header)
           in if int (length data) > MaxInt - n then Inl MessageTooLarge
              else Inr (header @ data)))"

datatype agent_id_error = BadLength nat

definition parseAgentID :: "(bytes \<Rightarrow> string) \<Rightarrow> bytes \<Rightarrow> agent_id_error + string" where
  "parseAgentID uuid raw =
     (if length raw = 26 then Inr raw
      else if length raw = 16 then Inr (uuid raw)
      else Inl (BadLength (length raw)))"

lemmas ws_defs [model_defs] =
  decodeWSMessage_def encodeWSMessage_def parseAgentID_def Uvarint_def PutUvarint_def
  wsMsgHeader_def MaxInt_def

lemma put_uvarint_0 [simp]: "PutUvarint wsMsgHeader = [CHR 0x00]"
  by (simp add: PutUvarint_def wsMsgHeader_def put_uvarint.simps char_of_def)

lemma Uvarint_zero_byte [simp]: "of_char b = (0 :: nat) \<Longrightarrow> Uvarint (b # bs) = (0, 1)"
  by (simp add: Uvarint_def)

lemma encode_frame:
  "encodeWSMessage marshal m = Inr fr \<Longrightarrow> \<exists>data. marshal m = Some data \<and> fr = CHR 0x00 # data"
  by (auto simp: encodeWSMessage_def Let_def split: option.splits if_splits)

text \<open>A frame with the zero header decodes as its payload, whatever follows the header.\<close>

lemma decode_headed [simp]:
  "decodeWSMessage unmarshal (CHR 0x00 # data) =
     (case unmarshal data of None \<Rightarrow> Inl ProtoUnmarshal | Some m \<Rightarrow> Inr m)"
  by (simp add: decodeWSMessage_def wsMsgHeader_def)

text \<open>
  Round trip of the WebSocket framing: a message that was encoded decodes to itself,
  given that the protobuf codec round-trips that message. A peer that omits the header (the
  legacy format, whose first byte is not zero) is decoded as well.
\<close>

theorem ws_roundtrip:
  assumes "encodeWSMessage marshal m = Inr fr"
    and "\<And>data. marshal m = Some data \<Longrightarrow> unmarshal data = Some m"
  shows "decodeWSMessage unmarshal fr = Inr m
    \<and> (\<forall>b bs. marshal m = Some (b # bs) \<longrightarrow> of_char b \<noteq> (0 :: nat) \<longrightarrow>
         decodeWSMessage unmarshal (b # bs) = Inr m)"
proof
  from encode_frame [OF assms(1)] obtain data
    where data: "marshal m = Some data" and fr: "fr = CHR 0x00 # data" by blast
  from assms(2) [OF data] show "decodeWSMessage unmarshal fr = Inr m"
    by (simp add: fr)
next
  show "\<forall>b bs. marshal m = Some (b # bs) \<longrightarrow> of_char b \<noteq> (0 :: nat) \<longrightarrow>
      decodeWSMessage unmarshal (b # bs) = Inr m"
    using assms(2) by (auto simp: decodeWSMessage_def)
qed

theorem ws_roundtrip_witness:
  "decodeWSMessage (\<lambda>d. Some d) (CHR 0x00 # ''ping'') = Inr ''ping''"
proof -
  have "encodeWSMessage (\<lambda>m. Some m) ''ping'' = Inr (CHR 0x00 # ''ping'')"
    by (simp add: encodeWSMessage_def MaxInt_def)
  from ws_roundtrip [OF this, of "\<lambda>d. Some d"] show ?thesis by simp
qed

end
