(* ===== verification/GatewayRouting.thy ===== *)
theory GatewayRouting
  imports Gateway WsCodec
begin

text \<open>
  The callbacks of the OpAMP gateway (\<open>gateway.go\<close>, and the parts of \<open>server.go\<close> they
  call): messages from an agent go to the upstream connection assigned to its connection,
  messages from the server go to the connection registered for the agent, and the custom
  capabilities the server sends once per upstream connection are injected into the first
  message forwarded to each agent. Then the transitions of the gateway as a step relation.
\<close>

section \<open>Messages\<close>

definition BinaryMessage :: int where
  "BinaryMessage = 2"

record customMessage =
  cm_capability :: string
  cm_type :: string
  cm_data :: bytes

record ('c, 'r) serverToAgent =
  sa_uid :: bytes
  sa_caps :: "'c option"
  sa_custom :: "customMessage option"
  sa_rest :: 'r

record 'r agentToServer =
  as_uid :: bytes
  as_rest :: 'r

datatype gateway_error =
    UnexpectedMessageType int | CannotDecode ws_error | CannotParseAgent agent_id_error
  | SendUpstream | SendDownstream string conn_id

definition OpampGatewayCapability :: string where
  "OpampGatewayCapability = ''com.bindplane.opamp-gateway''"

definition OpampGatewayConnectResultType :: string where
  "OpampGatewayConnectResultType = ''connectResult''"

section \<open>The server's tables\<close>

definition getAgentConnection :: "string \<Rightarrow> 'c gateway \<Rightarrow> conn_id option" where
  "getAgentConnection agentID s = connections_get (gw_agents s) agentID"

definition setAgentConnection :: "string \<Rightarrow> conn_id \<Rightarrow> 'c gateway \<Rightarrow> 'c gateway" where
  "setAgentConnection agentID d s = s\<lparr>gw_agents := connections_set agentID d (gw_agents s)\<rparr>"

text \<open>The removal takes the lock of each table on its own, so others can run between the two.\<close>

definition unregisterDownstream :: "conn_id \<Rightarrow> 'c gateway \<Rightarrow> 'c gateway" where
  "unregisterDownstream d s = s\<lparr>gw_registered := connections_remove d (gw_registered s)\<rparr>"

definition forgetDownstream :: "conn_id \<Rightarrow> 'c gateway \<Rightarrow> 'c gateway" where
  "forgetDownstream d s = s\<lparr>gw_agents := connections_removeByValue d (gw_agents s)\<rparr>"

definition removeDownstreamConnection :: "conn_id \<Rightarrow> 'c gateway \<Rightarrow> 'c gateway" where
  "removeDownstreamConnection d s = forgetDownstream d (unregisterDownstream d s)"

definition downstream_close :: "conn_id \<Rightarrow> 'c gateway \<Rightarrow> 'c gateway" where
  "downstream_close d s =
     s\<lparr>gw_downs := (gw_downs s)(d := (gw_downs s d)\<lparr>dc_cancelled := True\<rparr>)\<rparr>"

fun closeDownstreamConnections :: "conn_id list \<Rightarrow> 'c gateway \<Rightarrow> 'c gateway" where
  "closeDownstreamConnections [] s = s"
| "closeDownstreamConnections (d # ds) s =
     closeDownstreamConnections ds
       (case connections_get (gw_registered s) d of
          None \<Rightarrow> s
        | Some c \<Rightarrow> downstream_close c s)"

definition handleAuthResponse ::
  "(bytes \<Rightarrow> OpampGatewayConnectResult option) \<Rightarrow> customMessage option \<Rightarrow> 'c gateway
     \<Rightarrow> bool \<times> 'c gateway" where
  "handleAuthResponse unjson cm s =
     (case cm of
        None \<Rightarrow> (False, s)
      | Some m \<Rightarrow>
          if cm_capability m \<noteq> OpampGatewayCapability \<or> cm_type m \<noteq> OpampGatewayConnectResultType
          then (False, s)
          else (case unjson (cm_data m) of
                  None \<Rightarrow> (False, s)
                | Some result \<Rightarrow>
                    if cr_requestUID result = '''' then (False, s)
                    else (case getRequest (cr_requestUID result) s of
                            None \<Rightarrow> (False, s)
                          | Some chan \<Rightarrow>
                              (True, s\<lparr>gw_pending :=
                                (gw_pending s)(cr_requestUID result \<mapsto> chan @ [AuthResult result])\<rparr>))))"

section \<open>The callbacks\<close>

definition HandleDownstreamMessage ::
  "(bytes \<Rightarrow> 'r agentToServer option) \<Rightarrow> (bytes \<Rightarrow> string) \<Rightarrow> bool \<Rightarrow> conn_id \<Rightarrow> int \<Rightarrow> message
     \<Rightarrow> 'c gateway \<Rightarrow> (gateway_error + unit) \<times> 'c gateway" where
  "HandleDownstreamMessage unmarshal uuid sendOk d messageType msg s =
     (if messageType \<noteq> BinaryMessage then (Inl (UnexpectedMessageType messageType), s)
      else case decodeWSMessage unmarshal (msg_data msg) of
        Inl e \<Rightarrow> (Inl (CannotDecode e), s)
      | Inr m \<Rightarrow>
          (case parseAgentID uuid (as_uid m) of
             Inl e \<Rightarrow> (Inl (CannotParseAgent e), s)
           | Inr agentID \<Rightarrow>
               (let s1 = setAgentConnection agentID d s;
                    u = dc_upstream (gw_downs s1 d)
                in if \<not> sendOk then (Inl SendUpstream, s1)
                   else (Inr (), s1\<lparr>gw_sentUp := gw_sentUp s1 @ [(u, msg)]\<rparr>))))"

definition HandleDownstreamClose :: "conn_id \<Rightarrow> 'c gateway \<Rightarrow> 'c gateway" where
  "HandleDownstreamClose d s = removeDownstreamConnection d (UnassignUpstreamConnection d s)"

definition markSentCaps :: "conn_id \<Rightarrow> 'c gateway \<Rightarrow> 'c gateway" where
  "markSentCaps d s = s\<lparr>gw_downs := (gw_downs s)(d := (gw_downs s d)\<lparr>dc_sentCaps := True\<rparr>)\<rparr>"

definition injectCapabilities ::
  "(('c, 'r) serverToAgent \<Rightarrow> bytes option) \<Rightarrow> conn_id \<Rightarrow> conn_id \<Rightarrow> ('c, 'r) serverToAgent
     \<Rightarrow> message \<Rightarrow> 'c gateway \<Rightarrow> message \<times> 'c gateway" where
  "injectCapabilities marshal u d m msg s =
     (if sa_caps m \<noteq> None then (msg, markSentCaps d s)
      else if dc_sentCaps (gw_downs s d) then (msg, s)
      else case uc_caps (gw_ups s u) of
             None \<Rightarrow> (msg, s)
           | Some caps \<Rightarrow>
               (case encodeWSMessage marshal (m\<lparr>sa_caps := Some caps\<rparr>) of
                  Inl e \<Rightarrow> (msg, s)
                | Inr updated \<Rightarrow>
                    (\<lparr>msg_number = msg_number msg, msg_data = updated\<rparr>, markSentCaps d s)))"

definition HandleUpstreamMessage ::
  "(bytes \<Rightarrow> ('c, 'r) serverToAgent option) \<Rightarrow> (('c, 'r) serverToAgent \<Rightarrow> bytes option)
     \<Rightarrow> (bytes \<Rightarrow> string) \<Rightarrow> (bytes \<Rightarrow> OpampGatewayConnectResult option) \<Rightarrow> bool
     \<Rightarrow> conn_id \<Rightarrow> int \<Rightarrow> message \<Rightarrow> 'c gateway \<Rightarrow> (gateway_error + unit) \<times> 'c gateway" where
  "HandleUpstreamMessage unmarshal marshal uuid unjson sendOk u messageType msg s =
     (if messageType \<noteq> BinaryMessage then (Inl (UnexpectedMessageType messageType), s)
      else case decodeWSMessage unmarshal (msg_data msg) of
        Inl e \<Rightarrow> (Inl (CannotDecode e), s)
      | Inr m \<Rightarrow>
          (let s1 = (case sa_caps m of None \<Rightarrow> s | Some caps \<Rightarrow> setCustomCapabilities u caps s)
           in case handleAuthResponse unjson (sa_custom m) s1 of
                (handled, s2) \<Rightarrow>
                  if handled then (Inr (), s2)
                  else (case parseAgentID uuid (sa_uid m) of
                          Inl e \<Rightarrow> (Inl (CannotParseAgent e), s2)
                        | Inr agentID \<Rightarrow>
                            (case getAgentConnection agentID s2 of
                               None \<Rightarrow> (Inr (), s2)
                             | Some d \<Rightarrow>
                                 (case injectCapabilities marshal u d m msg s2 of
                                    (out, s3) \<Rightarrow>
                                      if \<not> sendOk then (Inl (SendDownstream agentID d), s3)
                                      else (Inr (), s3\<lparr>gw_sentDown := gw_sentDown s3 @ [(d, out)]\<rparr>))))))"

text \<open>The callback the client is given: every error of a message is logged and swallowed.\<close>

definition upstream_OnMessage ::
  "(bytes \<Rightarrow> ('c, 'r) serverToAgent option) \<Rightarrow> (('c, 'r) serverToAgent \<Rightarrow> bytes option)
     \<Rightarrow> (bytes \<Rightarrow> string) \<Rightarrow> (bytes \<Rightarrow> OpampGatewayConnectResult option) \<Rightarrow> bool
     \<Rightarrow> conn_id \<Rightarrow> int \<Rightarrow> message \<Rightarrow> 'c gateway \<Rightarrow> (gateway_error + unit) \<times> 'c gateway" where
  "upstream_OnMessage unmarshal marshal uuid unjson sendOk u messageType msg s =
     (Inr (), snd (HandleUpstreamMessage unmarshal marshal uuid unjson sendOk u messageType msg s))"

definition HandleUpstreamClose :: "conn_id list \<Rightarrow> conn_id \<Rightarrow> 'c gateway \<Rightarrow> 'c gateway" where
  "HandleUpstreamClose order u s =
     (case removeDownstreamConnectionIDs order u s of
        (ids, s1) \<Rightarrow> closeDownstreamConnections ids s1)"

lemmas routing_defs [model_defs] =
  BinaryMessage_def OpampGatewayCapability_def OpampGatewayConnectResultType_def
  getAgentConnection_def setAgentConnection_def unregisterDownstream_def forgetDownstream_def
  removeDownstreamConnection_def
  downstream_close_def handleAuthResponse_def HandleDownstreamMessage_def
  HandleDownstreamClose_def markSentCaps_def injectCapabilities_def HandleUpstreamMessage_def
  upstream_OnMessage_def HandleUpstreamClose_def

end
