(* ===== verification/GatewaySteps.thy ===== *)
theory GatewaySteps
  imports GatewayRouting
begin

text \<open>
  The executions of the OpAMP gateway: each locked operation of \<open>Gateway\<close> and
  \<open>GatewayRouting\<close> is one step, and the steps of the many request handlers, readers and
  reconnecting upstream connections interleave in any order. What takes several locks is
  several steps: a request, the closing of a downstream connection, and the loss of an upstream
  one. A message is one step. The invariants: the load count of an upstream connection is the
  number of downstream connections assigned to it as long as no upstream connection was lost,
  and an agent is only ever routed to a connection that was accepted and whose closing has not
  come to its end. Then the outcome of a request, whatever the others do while it waits.
\<close>

section \<open>Steps\<close>

datatype gw_event =
    EvNumber | EvAssign conn_id | EvAddRequest string | EvRemoveRequest string
  | EvReject conn_id | EvAccept conn_id conn_id | EvConnected conn_id bool
  | EvShutdown conn_id | EvUpClose conn_id | EvCancel conn_id
  | EvDownUnassign conn_id | EvDownUnregister conn_id | EvDownForget conn_id
  | EvDownMessage conn_id | EvUpMessage conn_id

inductive gw_step :: "('c :: type) gateway \<Rightarrow> gw_event \<Rightarrow> 'c gateway \<Rightarrow> bool" where
  number: "gw_step s EvNumber (s\<lparr>gw_requests := gw_requests s + 1\<rparr>)"
| assign: "set order = gw_pool s \<Longrightarrow> AssignUpstreamConnection order d s = (r, s') \<Longrightarrow>
     gw_step s (EvAssign d) s'"
| add_request: "gw_step s (EvAddRequest uid) (addRequest uid s)"
| remove_request: "gw_step s (EvRemoveRequest uid) (removeRequest uid s)"
| reject: "gw_registered s d = None \<Longrightarrow> gw_step s (EvReject d) (UnassignUpstreamConnection d s)"
| accept: "gw_step s (EvAccept d u) (addDownstreamConnection d (newDownstreamConnection u) s)"
| connected: "gw_connections s u = Some u \<Longrightarrow> gw_step s (EvConnected u b) (setConnected u b s)"
| shutdown: "\<not> uc_connected (gw_ups s u) \<Longrightarrow>
     gw_step s (EvShutdown u) (client_shutdownConnection u s)"
| up_close: "set order = dom (gw_assign s) \<Longrightarrow>
     gw_step s (EvUpClose u) (snd (removeDownstreamConnectionIDs order u s))"
| cancel: "gw_step s (EvCancel d) (closeDownstreamConnections [d] s)"
| down_unassign: "gw_registered s d = Some d \<Longrightarrow>
     gw_step s (EvDownUnassign d) (UnassignUpstreamConnection d s)"
| down_unregister: "gw_step s (EvDownUnregister d) (unregisterDownstream d s)"
| down_forget: "gw_step s (EvDownForget d) (forgetDownstream d s)"
| down_message: "gw_registered s d = Some d \<Longrightarrow>
     gw_step s (EvDownMessage d)
       (snd (HandleDownstreamMessage (um :: bytes \<Rightarrow> unit agentToServer option) uuid sendOk d mtype msg s))"
| up_message: "gw_connections s u = Some u \<Longrightarrow>
     gw_step s (EvUpMessage u)
       (snd (upstream_OnMessage (um' :: bytes \<Rightarrow> ('c, unit) serverToAgent option) m' uuid unjson
               sendOk u mtype msg s))"

inductive gw_run :: "('c :: type) gateway \<Rightarrow> gw_event list \<Rightarrow> 'c gateway \<Rightarrow> bool" where
  run_nil: "gw_run s [] s"
| run_snoc: "gw_run s evs t \<Longrightarrow> gw_step t e t' \<Longrightarrow> gw_run s (evs @ [e]) t'"

inductive_cases gw_run_snocE: "gw_run s (evs @ [e]) t"

inductive_simps gw_run_nil_iff [simp]: "gw_run s [] t"

lemma gw_run_one: "gw_step s e t \<Longrightarrow> gw_run s [e] t"
  using run_snoc [OF run_nil] by fastforce

lemma gw_run_append:
  assumes "gw_run s evs t" and "gw_run t evs' t'"
  shows "gw_run s (evs @ evs') t'"
  using assms(2,1)
proof (induction rule: gw_run.induct)
  case (run_snoc t evs' u e v)
  from gw_run.run_snoc [OF run_snoc.IH [OF run_snoc.prems] run_snoc.hyps(2)] show ?case by simp
qed simp

text \<open>The handlers of a closed connection are these steps one after the other, when no others run between.\<close>

lemma closeDownstreamConnections_append:
  "closeDownstreamConnections (xs @ ys) s = closeDownstreamConnections ys (closeDownstreamConnections xs s)"
  by (induction xs s rule: closeDownstreamConnections.induct) simp_all

lemma HandleUpstreamClose_runs:
  assumes "set order = dom (gw_assign s)"
  shows "gw_run s (EvUpClose u # map EvCancel (filter (\<lambda>d. gw_assign s d = Some u) order)) (HandleUpstreamClose order u s)"
proof -
  have cancels: "gw_run t (map EvCancel ds) (closeDownstreamConnections ds t)" for ds and t :: "'c gateway"
  proof (induction ds rule: rev_induct)
    case (snoc d ds)
    with run_snoc [OF snoc cancel] show ?case by (simp only: map_append list.map closeDownstreamConnections_append)
  qed simp
  from gw_run_append [OF gw_run_one [OF up_close [OF assms]] cancels] show ?thesis
    by (simp add: HandleUpstreamClose_def removeDownstreamConnectionIDs_def)
qed

lemma HandleDownstreamClose_runs:
  assumes "gw_registered s d = Some d"
  shows "gw_run s [EvDownUnassign d, EvDownUnregister d, EvDownForget d] (HandleDownstreamClose d s)"
  using run_snoc [OF run_snoc [OF gw_run_one [OF down_unassign [OF assms]] down_unregister] down_forget]
  by (simp add: HandleDownstreamClose_def removeDownstreamConnection_def)

text \<open>
  The gateway right after \<open>Start\<close>: the client holds \<open>n\<close> fresh connections and the server's
  tables are empty.
\<close>

definition gateway_started :: "nat \<Rightarrow> ('c :: type) gateway" where
  "gateway_started n = client_start n gateway_new"

section \<open>What the message handlers leave alone\<close>

lemma handleAuthResponse_frame [frame_simps]:
  "handleAuthResponse unjson cm s = (h, s') \<Longrightarrow>
     gw_ups s' = gw_ups s \<and> gw_assign s' = gw_assign s \<and> gw_connections s' = gw_connections s
   \<and> gw_pool s' = gw_pool s \<and> gw_agents s' = gw_agents s \<and> gw_registered s' = gw_registered s
   \<and> gw_downs s' = gw_downs s \<and> gw_sentDown s' = gw_sentDown s"
  by (auto simp: handleAuthResponse_def split: option.splits if_splits)

lemma injectCapabilities_frame [frame_simps]:
  "injectCapabilities marshal u d m msg s = (out, s') \<Longrightarrow>
     gw_ups s' = gw_ups s \<and> gw_assign s' = gw_assign s \<and> gw_connections s' = gw_connections s
   \<and> gw_pool s' = gw_pool s \<and> gw_agents s' = gw_agents s \<and> gw_registered s' = gw_registered s
   \<and> gw_sentDown s' = gw_sentDown s"
  by (auto simp: injectCapabilities_def markSentCaps_def split: option.splits if_splits sum.splits)

lemma setCustomCapabilities_frame [simp]:
  "gw_assign (setCustomCapabilities u c s) = gw_assign s"
  "gw_connections (setCustomCapabilities u c s) = gw_connections s"
  "gw_pool (setCustomCapabilities u c s) = gw_pool s"
  "gw_agents (setCustomCapabilities u c s) = gw_agents s"
  "gw_registered (setCustomCapabilities u c s) = gw_registered s"
  "gw_downs (setCustomCapabilities u c s) = gw_downs s"
  "gw_sentDown (setCustomCapabilities u c s) = gw_sentDown s"
  "uc_count (gw_ups (setCustomCapabilities u c s) v) = uc_count (gw_ups s v)"
  "uc_connected (gw_ups (setCustomCapabilities u c s) v) = uc_connected (gw_ups s v)"
  by (simp_all add: setCustomCapabilities_def)

lemma HandleUpstreamMessage_frame:
  assumes "HandleUpstreamMessage um m uuid unjson sendOk u mtype msg s = (r, s')"
  shows "gw_assign s' = gw_assign s \<and> gw_connections s' = gw_connections s \<and> gw_pool s' = gw_pool s
   \<and> gw_agents s' = gw_agents s \<and> gw_registered s' = gw_registered s
   \<and> (\<forall>v. uc_count (gw_ups s' v) = uc_count (gw_ups s v))"
proof (cases "mtype = BinaryMessage")
  case False
  with assms show ?thesis by (auto simp: HandleUpstreamMessage_def)
next
  case bin: True
  show ?thesis
  proof (cases "decodeWSMessage um (msg_data msg)")
    case (Inl e)
    with bin assms show ?thesis by (auto simp: HandleUpstreamMessage_def)
  next
    case (Inr sm)
    define s1 where "s1 = (case sa_caps sm of None \<Rightarrow> s | Some caps \<Rightarrow> setCustomCapabilities u caps s)"
    have s1: "gw_assign s1 = gw_assign s" "gw_connections s1 = gw_connections s" "gw_pool s1 = gw_pool s"
        "gw_agents s1 = gw_agents s" "gw_registered s1 = gw_registered s"
        "\<And>v. uc_count (gw_ups s1 v) = uc_count (gw_ups s v)"
      by (simp_all add: s1_def split: option.splits)
    obtain h s2 where auth: "handleAuthResponse unjson (sa_custom sm) s1 = (h, s2)" by fastforce
    note s2 = handleAuthResponse_frame [OF auth]
    show ?thesis
    proof (cases "parseAgentID uuid (sa_uid sm)")
      case (Inl e)
      with bin Inr assms auth s1 s2 show ?thesis
        by (auto simp: HandleUpstreamMessage_def s1_def [symmetric] split: if_splits)
    next
      case (Inr a)
      show ?thesis
      proof (cases "getAgentConnection a s2")
        case None
        with bin Inr \<open>decodeWSMessage _ _ = _\<close> assms auth s1 s2 show ?thesis
          by (auto simp: HandleUpstreamMessage_def s1_def [symmetric] split: if_splits)
      next
        case (Some d)
        obtain out s3 where inj: "injectCapabilities m u d sm msg s2 = (out, s3)" by fastforce
        from bin Inr Some \<open>decodeWSMessage _ _ = _\<close> assms auth s1 s2 inj
          injectCapabilities_frame [OF inj] show ?thesis
          by (auto simp: HandleUpstreamMessage_def s1_def [symmetric] split: if_splits)
      qed
    qed
  qed
qed

lemma HandleDownstreamMessage_frame:
  assumes "HandleDownstreamMessage um uuid sendOk d mtype msg s = (r, s')"
  shows "gw_assign s' = gw_assign s \<and> gw_connections s' = gw_connections s \<and> gw_pool s' = gw_pool s
   \<and> gw_registered s' = gw_registered s \<and> gw_ups s' = gw_ups s
   \<and> (gw_agents s' = gw_agents s \<or> (\<exists>a. gw_agents s' = (gw_agents s)(a \<mapsto> d)))"
  using assms
  by (auto simp: HandleDownstreamMessage_def setAgentConnection_def connections_set_def Let_def
      split: if_splits sum.splits)

lemma closeDownstreamConnections_frame [simp]:
  "gw_ups (closeDownstreamConnections ds s) = gw_ups s"
  "gw_assign (closeDownstreamConnections ds s) = gw_assign s"
  "gw_connections (closeDownstreamConnections ds s) = gw_connections s"
  "gw_pool (closeDownstreamConnections ds s) = gw_pool s"
  "gw_agents (closeDownstreamConnections ds s) = gw_agents s"
  "gw_registered (closeDownstreamConnections ds s) = gw_registered s"
  by (induction ds s rule: closeDownstreamConnections.induct)
     (simp_all add: downstream_close_def split: option.splits)

lemma closeDownstreamConnections_cancels:
  "dc_cancelled (gw_downs (closeDownstreamConnections ds s) c) \<longleftrightarrow>
     dc_cancelled (gw_downs s c) \<or> (\<exists>d\<in>set ds. gw_registered s d = Some c)"
proof (induction ds s rule: closeDownstreamConnections.induct)
  case (2 d ds s)
  then show ?case
    by (cases "gw_registered s d") (auto simp: downstream_close_def connections_get_def)
qed simp

section \<open>The load counts\<close>

definition assigned_to :: "'c gateway \<Rightarrow> conn_id \<Rightarrow> conn_id set" where
  "assigned_to s u = {d. gw_assign s d = Some u}"

definition counts_exact :: "'c gateway \<Rightarrow> bool" where
  "counts_exact s \<longleftrightarrow> pool_registered s \<and> finite (dom (gw_assign s))
     \<and> (\<forall>u. gw_connections s u = Some u \<longrightarrow>
          uc_count (gw_ups s u) = word_of_nat (card (assigned_to s u)))"

lemma finite_assigned: "finite (dom (gw_assign s)) \<Longrightarrow> finite (assigned_to s u)"
  by (rule finite_subset [of _ "dom (gw_assign s)"]) (auto simp: assigned_to_def)

lemma assigned_add:
  assumes "finite (dom (gw_assign s))" and "gw_assign s' = (gw_assign s)(d \<mapsto> u)" "gw_assign s d \<noteq> Some u"
  shows "card (assigned_to s' u) = Suc (card (assigned_to s u))"
    and "v \<noteq> u \<Longrightarrow> gw_assign s d \<noteq> Some v \<Longrightarrow> assigned_to s' v = assigned_to s v"
proof -
  have "assigned_to s' u = insert d (assigned_to s u)" and "d \<notin> assigned_to s u"
    using assms by (auto simp: assigned_to_def)
  with finite_assigned [OF assms(1), of u] show "card (assigned_to s' u) = Suc (card (assigned_to s u))"
    by simp
qed (use assms in \<open>auto simp: assigned_to_def\<close>)

lemma assigned_remove:
  assumes "finite (dom (gw_assign s))" and "gw_assign s d = Some u" and "gw_assign s' = (gw_assign s)(d := None)"
  shows "card (assigned_to s u) = Suc (card (assigned_to s' u))"
    and "v \<noteq> u \<Longrightarrow> assigned_to s' v = assigned_to s v"
proof -
  have "assigned_to s u = insert d (assigned_to s' u)" and "d \<notin> assigned_to s' u"
    using assms by (auto simp: assigned_to_def)
  moreover have "finite (assigned_to s' u)"
    using assms by (intro finite_assigned) auto
  ultimately show "card (assigned_to s u) = Suc (card (assigned_to s' u))" by simp
qed (use assms in \<open>auto simp: assigned_to_def\<close>)

lemma counts_exact_assign:
  assumes "counts_exact s" and "set order = gw_pool s"
    and "assignedUpstreamConnection order d s = (r, s')"
  shows "counts_exact s'"
proof (cases "Option.bind (gw_assign s d) (connections_get (gw_connections s))")
  case (Some u)
  with assms show ?thesis by (simp add: assignedUpstreamConnection_def)
next
  case None
  show ?thesis
  proof (cases "pool_next order s")
    case (Some u)
    let ?t = "incrementDownstreamCount u (s\<lparr>gw_assign := (gw_assign s)(d \<mapsto> u)\<rparr>)"
    from None Some assms(3) have s': "s' = ?t" by (auto simp: assignedUpstreamConnection_def)
    from assms(1) have reg: "pool_registered s" and fin: "finite (dom (gw_assign s))"
      and cnt: "\<And>v. gw_connections s v = Some v \<Longrightarrow>
            uc_count (gw_ups s v) = word_of_nat (card (assigned_to s v))"
      by (auto simp: counts_exact_def)
    from pool_next_Some(1) [OF Some] assms(2) reg have u: "gw_connections s u = Some u"
      by (simp add: pool_registered_def)
    from None have old: "\<And>v. gw_assign s d = Some v \<Longrightarrow> gw_connections s v = None"
      by (simp add: connections_get_def split: option.splits)
    have ga: "gw_assign ?t = (gw_assign s)(d \<mapsto> u)" by (simp add: incrementDownstreamCount_def)
    have "uc_count (gw_ups ?t v) = word_of_nat (card (assigned_to ?t v))"
      if v: "gw_connections s v = Some v" for v
    proof (cases "v = u")
      case True
      have "gw_assign s d \<noteq> Some u" using old u by auto
      from assigned_add(1) [OF fin ga this] cnt [OF u] True show ?thesis
        by (simp add: incrementDownstreamCount_def algebra_simps)
    next
      case False
      have "gw_assign s d \<noteq> Some v" "gw_assign s d \<noteq> Some u" using old v u by auto
      from assigned_add(2) [OF fin ga this(2) False this(1)] cnt [OF v] False show ?thesis
        by (simp add: incrementDownstreamCount_def)
    qed
    with reg fin show ?thesis
      by (auto simp: counts_exact_def s' pool_registered_def incrementDownstreamCount_def)
  qed (use None assms in \<open>auto simp: assignedUpstreamConnection_def\<close>)
qed

lemma counts_exact_unassign:
  assumes "counts_exact s"
  shows "counts_exact (unassignDownstreamConnection d s)"
proof (cases "gw_assign s d")
  case None
  then have "(gw_assign s)(d := None) = gw_assign s" by auto
  with None assms show ?thesis by (simp add: unassignDownstreamConnection_def)
next
  case (Some u)
  let ?t = "unassignDownstreamConnection d s"
  from assms have reg: "pool_registered s" and fin: "finite (dom (gw_assign s))"
    and cnt: "\<And>v. gw_connections s v = Some v \<Longrightarrow>
          uc_count (gw_ups s v) = word_of_nat (card (assigned_to s v))"
    by (auto simp: counts_exact_def)
  have ga: "gw_assign ?t = (gw_assign s)(d := None)"
    by (simp add: unassignDownstreamConnection_def decrementDownstreamCount_def Let_def split: option.splits)
  have "uc_count (gw_ups ?t v) = word_of_nat (card (assigned_to ?t v))"
    if v: "gw_connections s v = Some v" for v
  proof (cases "v = u")
    case True
    with Some v cnt [OF v] assigned_remove(1) [OF fin Some ga] show ?thesis
      by (simp add: unassignDownstreamConnection_def decrementDownstreamCount_def Let_def
          connections_get_def algebra_simps)
  next
    case False
    have "gw_connections s u = Some c \<Longrightarrow> c = u" for c
      using reg by (auto simp: pool_registered_def)
    with Some v False cnt [OF v] assigned_remove(2) [OF fin Some ga False] show ?thesis
      by (auto simp: unassignDownstreamConnection_def decrementDownstreamCount_def Let_def
          connections_get_def split: option.splits)
  qed
  moreover have "gw_pool ?t = gw_pool s" "gw_connections ?t = gw_connections s"
    by (simp_all add: unassignDownstreamConnection_def decrementDownstreamCount_def Let_def
        split: option.splits)
  ultimately show ?thesis using reg fin ga
    by (simp add: counts_exact_def pool_registered_def)
qed

lemma counts_exact_cong:
  assumes "counts_exact s" and "gw_assign s' = gw_assign s" and "gw_pool s' = gw_pool s"
    and "gw_connections s' = gw_connections s"
    and "\<forall>v. uc_count (gw_ups s' v) = uc_count (gw_ups s v)"
  shows "counts_exact s'"
  using assms by (simp add: counts_exact_def pool_registered_def assigned_to_def)

lemma counts_exact_step:
  assumes "gw_step s e s'" and "counts_exact s" and "\<And>u. e \<noteq> EvUpClose u"
  shows "counts_exact s'"
  using assms
proof (induction rule: gw_step.induct)
  case (number s)
  then show ?case by (rule_tac counts_exact_cong [of s]) simp_all
next
  case (add_request s uid)
  then show ?case by (rule_tac counts_exact_cong [of s]) (simp_all add: addRequest_def)
next
  case (remove_request s uid)
  then show ?case by (rule_tac counts_exact_cong [of s]) (simp_all add: removeRequest_def)
next
  case (assign order s d r s')
  obtain r' where "assignedUpstreamConnection order d s = (r', s')"
    using assign(2) by (auto simp: AssignUpstreamConnection_def split: prod.splits option.splits)
  with assign show ?case by (blast intro: counts_exact_assign)
next
  case (reject s d)
  then show ?case by (simp add: UnassignUpstreamConnection_def counts_exact_unassign)
next
  case (accept s d u)
  then show ?case by (rule_tac counts_exact_cong) (auto simp: addDownstreamConnection_def)
next
  case (connected s u b)
  then show ?case by (rule_tac counts_exact_cong [of s]) (auto simp: setConnected_def)
next
  case (shutdown s u)
  then show ?case
    by (auto simp: counts_exact_def client_shutdownConnection_def pool_remove_def assigned_to_def
        pool_registered_def connections_remove_def)
next
  case (up_close order s u)
  then show ?case by metis
next
  case (cancel s d)
  then show ?case by (rule_tac counts_exact_cong [of s]) (simp_all del: closeDownstreamConnections.simps)
next
  case (down_unassign s d)
  then show ?case by (simp add: UnassignUpstreamConnection_def counts_exact_unassign)
next
  case (down_unregister s d)
  then show ?case by (rule_tac counts_exact_cong [of s]) (simp_all add: unregisterDownstream_def)
next
  case (down_forget s d)
  then show ?case by (rule_tac counts_exact_cong [of s]) (simp_all add: forgetDownstream_def)
next
  case (down_message s d um uuid sendOk mtype msg)
  with HandleDownstreamMessage_frame [of um uuid sendOk d mtype msg s] show ?case
    by (metis counts_exact_cong prod.collapse)
next
  case (up_message s u um m uuid unjson sendOk mtype msg)
  with HandleUpstreamMessage_frame [of um m uuid unjson sendOk u mtype msg s] show ?case
    unfolding upstream_OnMessage_def by (metis counts_exact_cong prod.collapse snd_conv)
qed

lemma counts_exact_run:
  "gw_run s evs t \<Longrightarrow> counts_exact s \<Longrightarrow> (\<And>u. EvUpClose u \<notin> set evs) \<Longrightarrow> counts_exact t"
proof (induction rule: gw_run.induct)
  case (run_snoc s evs t e t')
  then have "counts_exact t" and "\<And>u. e \<noteq> EvUpClose u" by auto
  with run_snoc(2) show ?case by (rule counts_exact_step)
qed simp

lemma counts_exact_started: "counts_exact (gateway_started n :: ('c :: type) gateway)"
proof -
  let ?P = "\<lambda>t :: 'c gateway. gw_assign t = Map.empty \<and> (\<forall>v. uc_count (gw_ups t v) = 0)"
  have "?P (fold (\<lambda>i. client_addConnection (upstream_id i)) xs t)" if "?P t" for xs and t :: "'c gateway"
    using that
    by (induction xs arbitrary: t)
       (auto simp: client_addConnection_def pool_add_def newUpstreamConnection_def Let_def)
  then have "?P (gateway_started n)"
    by (simp add: gateway_started_def client_start_def gateway_new_def newUpstreamConnection_def)
  moreover have "pool_registered (gateway_started n :: 'c gateway)"
    by (simp add: gateway_started_def pool_registered_start)
  ultimately show ?thesis by (simp add: counts_exact_def assigned_to_def)
qed

section \<open>Registered connections have their own id\<close>

definition registered_own :: "'c gateway \<Rightarrow> bool" where
  "registered_own s \<longleftrightarrow> (\<forall>d c. gw_registered s d = Some c \<longrightarrow> c = d)"

lemma assign_frame:
  "AssignUpstreamConnection order d s = (r, s') \<Longrightarrow>
     gw_agents s' = gw_agents s \<and> gw_registered s' = gw_registered s \<and> gw_pending s' = gw_pending s
   \<and> (\<forall>x. x \<noteq> d \<longrightarrow> gw_assign s' x = gw_assign s x)"
  by (auto simp: AssignUpstreamConnection_def assignedUpstreamConnection_def
      incrementDownstreamCount_def split: option.splits prod.splits)

lemma unassign_frame [simp]:
  "gw_agents (UnassignUpstreamConnection d s) = gw_agents s"
  "gw_registered (UnassignUpstreamConnection d s) = gw_registered s"
  "gw_pending (UnassignUpstreamConnection d s) = gw_pending s"
  "gw_downs (UnassignUpstreamConnection d s) = gw_downs s"
  "gw_assign (UnassignUpstreamConnection d s) = (gw_assign s)(d := None)"
  by (simp_all add: UnassignUpstreamConnection_def unassignDownstreamConnection_def
      decrementDownstreamCount_def Let_def split: option.splits)

lemma down_message_tables:
  "gw_registered (snd (HandleDownstreamMessage um uuid sendOk d mtype msg s)) = gw_registered s"
  "gw_assign (snd (HandleDownstreamMessage um uuid sendOk d mtype msg s)) = gw_assign s"
  "gw_pending (snd (HandleDownstreamMessage um uuid sendOk d mtype msg s)) = gw_pending s"
  by (auto simp: HandleDownstreamMessage_def setAgentConnection_def Let_def split: if_splits sum.splits)

lemma up_message_tables:
  "gw_registered (snd (upstream_OnMessage um m uuid unjson sendOk u mtype msg s)) = gw_registered s"
  "gw_agents (snd (upstream_OnMessage um m uuid unjson sendOk u mtype msg s)) = gw_agents s"
  "gw_assign (snd (upstream_OnMessage um m uuid unjson sendOk u mtype msg s)) = gw_assign s"
  using HandleUpstreamMessage_frame [of um m uuid unjson sendOk u mtype msg s, OF prod.collapse [symmetric]]
  by (simp_all add: upstream_OnMessage_def)

text \<open>What a step does to the tables of the server: the part that the invariants below look at.\<close>

lemma gw_step_registered:
  assumes "gw_step s e s'"
  shows "gw_registered s' = (case e of EvAccept d u \<Rightarrow> (gw_registered s)(d \<mapsto> d)
           | EvDownUnregister d \<Rightarrow> (gw_registered s)(d := None) | _ \<Rightarrow> gw_registered s)"
  using assms
proof (induction rule: gw_step.induct)
  case (assign order s d r s')
  with assign_frame [OF assign(2)] show ?case by simp
next
  case (down_message s d um uuid sendOk mtype msg)
  show ?case by (simp add: down_message_tables)
next
  case (up_message s u um m uuid unjson sendOk mtype msg)
  show ?case by (simp add: up_message_tables)
qed (simp_all add: addRequest_def removeRequest_def addDownstreamConnection_def connections_set_def setConnected_def
    client_shutdownConnection_def pool_remove_def removeDownstreamConnectionIDs_def
    unregisterDownstream_def connections_remove_def forgetDownstream_def del: closeDownstreamConnections.simps)

lemma gw_step_agents:
  assumes "gw_step s e s'"
  shows "(\<exists>a. gw_agents s' a = Some d) \<Longrightarrow>
      (\<exists>a. gw_agents s a = Some d) \<and> e \<noteq> EvDownForget d \<or> e = EvDownMessage d"
  using assms
proof (induction rule: gw_step.induct)
  case (assign order s d' r s')
  with assign_frame [OF assign(2)] show ?case by simp
next
  case (down_message s d' um uuid sendOk mtype msg)
  with HandleDownstreamMessage_frame [of um uuid sendOk d' mtype msg s] show ?case
    by (cases "HandleDownstreamMessage um uuid sendOk d' mtype msg s") (auto split: if_splits)
next
  case (up_message s u um m uuid unjson sendOk mtype msg)
  then show ?case by (simp add: up_message_tables)
next
  case (down_forget s d')
  then show ?case by (auto simp: forgetDownstream_def connections_removeByValue_def split: if_splits)
qed (simp_all add: addRequest_def removeRequest_def addDownstreamConnection_def setConnected_def
    client_shutdownConnection_def pool_remove_def removeDownstreamConnectionIDs_def
    unregisterDownstream_def del: closeDownstreamConnections.simps)

lemma registered_own_run: "gw_run s evs t \<Longrightarrow> registered_own s \<Longrightarrow> registered_own t"
proof (induction rule: gw_run.induct)
  case (run_snoc s evs t e t')
  with gw_step_registered [OF run_snoc.hyps(2)] show ?case
    by (auto simp: registered_own_def split: gw_event.splits if_splits)
qed simp

lemma gateway_started_tables:
  "gw_agents (gateway_started n :: ('c :: type) gateway) = Map.empty"
  "gw_registered (gateway_started n :: 'c gateway) = Map.empty"
proof -
  let ?P = "\<lambda>t :: 'c gateway. gw_agents t = Map.empty \<and> gw_registered t = Map.empty"
  have "?P (fold (\<lambda>i. client_addConnection (upstream_id i)) xs t)" if "?P t" for xs and t :: "'c gateway"
    using that
    by (induction xs arbitrary: t) (auto simp: client_addConnection_def pool_add_def Let_def)
  then have "?P (gateway_started n)"
    by (simp add: gateway_started_def client_start_def gateway_new_def newConnections_def)
  then show "gw_agents (gateway_started n :: 'c gateway) = Map.empty"
    "gw_registered (gateway_started n :: 'c gateway) = Map.empty" by simp_all
qed

lemma registered_own_started: "registered_own (gateway_started n :: ('c :: type) gateway)"
  by (simp add: registered_own_def gateway_started_tables)

section \<open>The life of a downstream connection\<close>

text \<open>
  The goroutines of one connection go through the steps of \<open>handleRequest\<close>, then the reader handles
  messages, and \<open>OnClose\<close> runs once after the reader has finished: an automaton over the events of
  that connection. Its id is new with every request, since the number of the request is part of it.
\<close>

datatype conn_phase = Fresh | Waiting | Refused | Open | Unassigned | Unregistered | Closed

definition own_phase :: "conn_id \<Rightarrow> gw_event \<Rightarrow> conn_phase \<Rightarrow> conn_phase option" where
  "own_phase d e p =
     (if e = EvAssign d then (if p = Fresh then Some Waiting else None)
      else if e = EvReject d then (if p = Waiting then Some Refused else None)
      else if (\<exists>u. e = EvAccept d u) then (if p = Waiting then Some Open else None)
      else if e = EvDownMessage d then (if p = Open then Some Open else None)
      else if e = EvDownUnassign d then (if p = Open then Some Unassigned else None)
      else if e = EvDownUnregister d then (if p = Unassigned then Some Unregistered else None)
      else if e = EvDownForget d then (if p = Unregistered then Some Closed else None)
      else Some p)"

definition phase_of :: "conn_id \<Rightarrow> gw_event list \<Rightarrow> conn_phase option" where
  "phase_of d evs = foldl (\<lambda>p e. Option.bind p (own_phase d e)) (Some Fresh) evs"

lemma phase_of_snoc: "phase_of d (evs @ [e]) = Option.bind (phase_of d evs) (own_phase d e)"
  by (simp add: phase_of_def)

lemma phase_invariant:
  fixes s :: "('c :: type) gateway"
  assumes "gw_run (gateway_started n) evs s"
  shows "phase_of d evs = Some p \<Longrightarrow>
     (gw_registered s d = (if p \<in> {Open, Unassigned} then Some d else None))
   \<and> ((\<exists>a. gw_agents s a = Some d) \<longrightarrow> p \<in> {Open, Unassigned, Unregistered})"
  using assms
proof (induction "gateway_started n :: 'c gateway" evs s arbitrary: p rule: gw_run.induct)
  case run_nil
  then show ?case by (simp add: phase_of_def gateway_started_tables)
next
  case (run_snoc evs t e t')
  from run_snoc.prems obtain q where q: "phase_of d evs = Some q" "own_phase d e q = Some p"
    by (auto simp: phase_of_snoc bind_eq_Some_conv)
  note IH = run_snoc.hyps(2) [OF q(1)]
  have reg: "gw_registered t' d = (if p \<in> {Open, Unassigned} then Some d else None)"
    using IH q(2) gw_step_registered [OF run_snoc.hyps(3)]
    by (cases e) (auto simp: own_phase_def split: if_splits)
  moreover have "p \<in> {Open, Unassigned, Unregistered}" if "\<exists>a. gw_agents t' a = Some d"
    using IH q(2) gw_step_agents [OF run_snoc.hyps(3) that]
    by (cases e) (auto simp: own_phase_def split: if_splits)
  ultimately show ?case by blast
qed

section \<open>The outcome of a request\<close>

text \<open>The steps of the goroutine that serves the request of connection \<open>d\<close>, and of the connection itself.\<close>

definition own_step :: "conn_id \<Rightarrow> string \<Rightarrow> gw_event \<Rightarrow> bool" where
  "own_step d uid e =
     (e \<in> {EvAssign d, EvReject d, EvDownMessage d, EvDownUnassign d, EvDownUnregister d, EvDownForget d,
        EvAddRequest uid, EvRemoveRequest uid} \<or> (\<exists>u. e = EvAccept d u))"

text \<open>
  What the others do to a state, as a function of it: some run of steps, none of them a step of
  this connection or of its authentication request.
\<close>

definition others ::
  "conn_id \<Rightarrow> string \<Rightarrow> (('c :: type) gateway \<Rightarrow> gw_event list) \<Rightarrow> ('c gateway \<Rightarrow> 'c gateway) \<Rightarrow> bool" where
  "others d uid evs f = (\<forall>t. gw_run t (evs t) (f t) \<and> list_all (\<lambda>e. \<not> own_step d uid e) (evs t))"

lemma injectCapabilities_pending:
  "injectCapabilities marshal u d m msg s = (out, s') \<Longrightarrow> gw_pending s' = gw_pending s"
  by (auto simp: injectCapabilities_def markSentCaps_def split: option.splits if_splits sum.splits)

lemma handleAuthResponse_pending:
  "handleAuthResponse unjson cm s = (h, s') \<Longrightarrow> gw_pending s uid = None \<Longrightarrow> gw_pending s' uid = None"
  by (auto simp: handleAuthResponse_def getRequest_def split: option.splits if_splits)

lemma up_message_pending:
  assumes "gw_pending s uid = None"
  shows "gw_pending (snd (upstream_OnMessage um m uuid unjson sendOk u mtype msg s)) uid = None"
  using assms
  by (auto simp: upstream_OnMessage_def HandleUpstreamMessage_def setCustomCapabilities_def Let_def
      split: sum.splits option.splits prod.splits if_splits
      dest!: handleAuthResponse_pending [where uid = uid] injectCapabilities_pending)

lemma gw_step_others:
  assumes "gw_step s e s'" and "\<not> own_step d uid e"
  shows "(gw_assign s' d = (case gw_assign s d of None \<Rightarrow> None
            | Some u \<Rightarrow> if e = EvUpClose u then None else Some u))
    \<and> (gw_pending s uid = None \<longrightarrow> gw_pending s' uid = None)"
  using assms
proof (induction rule: gw_step.induct)
  case (assign order s d' r s')
  with assign_frame [OF assign(2)] show ?case by (auto simp: own_step_def split: option.splits)
next
  case (up_message s u um m uuid unjson sendOk mtype msg)
  show ?case by (auto simp: up_message_tables up_message_pending split: option.splits)
next
  case (down_message s d' um uuid sendOk mtype msg)
  show ?case by (auto simp: down_message_tables split: option.splits)
next
  case (cancel s d')
  show ?case by (auto simp: downstream_close_def split: option.splits)
qed (auto simp: own_step_def addRequest_def removeRequest_def addDownstreamConnection_def setConnected_def
    client_shutdownConnection_def pool_remove_def removeDownstreamConnectionIDs_def
    unregisterDownstream_def forgetDownstream_def split: option.splits)

lemma others_run:
  assumes "gw_run s evs s'" and "list_all (\<lambda>e. \<not> own_step d uid e) evs"
  shows "gw_registered s' d = gw_registered s d
    \<and> ((\<exists>a. gw_agents s' a = Some d) \<longrightarrow> (\<exists>a. gw_agents s a = Some d))
    \<and> (gw_assign s' d = (case gw_assign s d of None \<Rightarrow> None
         | Some u \<Rightarrow> if EvUpClose u \<in> set evs then None else Some u))
    \<and> (gw_pending s uid = None \<longrightarrow> gw_pending s' uid = None)"
  using assms
proof (induction rule: gw_run.induct)
  case (run_snoc s evs t e t')
  then have own: "\<not> own_step d uid e" and IH: "list_all (\<lambda>e. \<not> own_step d uid e) evs" by auto
  have "gw_registered t' d = gw_registered t d"
    using gw_step_registered [OF run_snoc.hyps(2)] own by (auto simp: own_step_def split: gw_event.splits)
  moreover have "(\<exists>a. gw_agents t' a = Some d) \<longrightarrow> (\<exists>a. gw_agents t a = Some d)"
    using gw_step_agents [OF run_snoc.hyps(2)] own by (auto simp: own_step_def)
  ultimately show ?case
    using gw_step_others [OF run_snoc.hyps(2) own] run_snoc.IH [OF IH]
    by (auto split: option.splits if_splits)
qed (simp split: option.splits)

section \<open>Properties\<close>

text \<open>A run of the gateway with one agent connection, for the closed instances below.\<close>

lemma demo_step_connected:
  "gw_run (gateway_started 1 :: unit gateway) [EvConnected ''upstream-0'' True]
     (setConnected ''upstream-0'' True (gateway_started 1))"
proof -
  have "gw_connections (gateway_started 1 :: unit gateway) ''upstream-0'' = Some ''upstream-0''"
    by (simp add: gateway_started_def client_start_def client_addConnection_def pool_add_def
        connections_defs Let_def)
  from run_snoc [OF run_nil connected [OF this]] show ?thesis by simp
qed

lemma demo_step_assigned:
  "\<exists>s. gw_run (gateway_started 1 :: unit gateway)
          [EvConnected ''upstream-0'' True, EvAssign ''d''] s
     \<and> gw_connections s ''upstream-0'' = Some ''upstream-0''
     \<and> gw_assign s = [''d'' \<mapsto> ''upstream-0'']"
proof -
  let ?s = "setConnected ''upstream-0'' True (gateway_started 1 :: unit gateway)"
  have fields: "gw_pool ?s = {''upstream-0''}" "gw_assign ?s = Map.empty"
      "gw_connections ?s ''upstream-0'' = Some ''upstream-0''"
      "gw_ups ?s ''upstream-0'' = \<lparr>uc_count = 0, uc_connected = True, uc_caps = None\<rparr>"
    by (simp_all add: gateway_started_def client_start_def client_addConnection_def pool_add_def
        connections_defs upstream_defs gateway_new_def Let_def)
  let ?t = "incrementDownstreamCount ''upstream-0'' (?s\<lparr>gw_assign := [''d'' \<mapsto> ''upstream-0'']\<rparr>)"
  have "AssignUpstreamConnection [''upstream-0''] ''d'' ?s = (Inr ''upstream-0'', ?t)"
    by (simp add: AssignUpstreamConnection_def assignedUpstreamConnection_def pool_next_def fields
        downstreamCount_def MaxInt32_def del: One_nat_def)
  then have "gw_step ?s (EvAssign ''d'') ?t"
    by (rule gw_step.assign [rotated]) (simp add: fields del: One_nat_def)
  from run_snoc [OF demo_step_connected this] fields show ?thesis
    by (intro exI [of _ ?t]) (simp add: incrementDownstreamCount_def del: One_nat_def)
qed

text \<open>
  C19. In every execution in which no upstream connection was lost, the load count of every
  upstream connection in the registry is the number of downstream connections assigned to it
  (in the 32-bit arithmetic of the counter), so that the choice of the least loaded
  connection compares true loads.
\<close>

theorem load_counts_exact:
  assumes "gw_run (gateway_started n) evs s" and "\<And>v. EvUpClose v \<notin> set evs"
    and "gw_connections s u = Some u"
  shows "uc_count (gw_ups s u) = word_of_nat (card {d. gw_assign s d = Some u})"
  using counts_exact_run [OF assms(1) counts_exact_started assms(2)] assms(3)
  by (simp add: counts_exact_def assigned_to_def)

theorem load_counts_exact_witness:
  "\<exists>s :: unit gateway. gw_assign s = [''d'' \<mapsto> ''upstream-0''] \<and> uc_count (gw_ups s ''upstream-0'') = 1"
proof -
  from demo_step_assigned obtain s :: "unit gateway" where
    run: "gw_run (gateway_started 1) [EvConnected ''upstream-0'' True, EvAssign ''d''] s"
    and s: "gw_connections s ''upstream-0'' = Some ''upstream-0''" "gw_assign s = [''d'' \<mapsto> ''upstream-0'']"
    by blast
  have "{d. gw_assign s d = Some ''upstream-0''} = {''d''}" using s(2) by auto
  with load_counts_exact [OF run _ s(1)] s(2) show ?thesis by (intro exI [of _ s]) simp
qed

text \<open>
  When an upstream connection is lost, every downstream connection assigned to it loses
  its assignment and every registered one of them is told to close; but the load count of
  the upstream connection, which reconnects as the same object, keeps counting them: the
  loads of all connections are what they were before. After a reconnect the connection
  therefore looks loaded with connections it does not have, and the pool avoids it.
\<close>

theorem upstream_close_keeps_stale_load:
  assumes "gw_run (gateway_started n) evs s" and "set order = dom (gw_assign s)"
  shows "{d. gw_assign (HandleUpstreamClose order u s) d = Some u} = {}
    \<and> (\<forall>d. gw_assign s d = Some u \<longrightarrow> gw_registered s d \<noteq> None \<longrightarrow>
          dc_cancelled (gw_downs (HandleUpstreamClose order u s) d))
    \<and> gw_ups (HandleUpstreamClose order u s) = gw_ups s"
proof -
  let ?ids = "filter (\<lambda>d. gw_assign s d = Some u) order"
  let ?s1 = "s\<lparr>gw_assign := (\<lambda>d. if gw_assign s d = Some u then None else gw_assign s d)\<rparr>"
  have eq: "HandleUpstreamClose order u s = closeDownstreamConnections ?ids ?s1"
    by (simp add: HandleUpstreamClose_def removeDownstreamConnectionIDs_def)
  have live: "registered_own s" using registered_own_run [OF assms(1) registered_own_started] .
  have "dc_cancelled (gw_downs (closeDownstreamConnections ?ids ?s1) d)"
    if "gw_assign s d = Some u" "gw_registered s d \<noteq> None" for d
  proof -
    from that(2) live have "gw_registered ?s1 d = Some d" by (auto simp: registered_own_def)
    moreover have "d \<in> set ?ids" using that(1) assms(2) by auto
    ultimately show ?thesis unfolding closeDownstreamConnections_cancels by blast
  qed
  then show ?thesis by (simp add: eq)
qed

theorem upstream_close_keeps_stale_load_witness:
  "\<exists>s :: unit gateway. uc_count (gw_ups s ''upstream-0'') = 1 \<and> {d. gw_assign s d = Some ''upstream-0''} = {}"
proof -
  from demo_step_assigned obtain s :: "unit gateway" where
    run: "gw_run (gateway_started 1) [EvConnected ''upstream-0'' True, EvAssign ''d''] s"
    and s: "gw_connections s ''upstream-0'' = Some ''upstream-0''" "gw_assign s = [''d'' \<mapsto> ''upstream-0'']"
    by blast
  have "counts_exact s" by (rule counts_exact_run [OF run counts_exact_started]) simp
  then have "uc_count (gw_ups s ''upstream-0'') = word_of_nat (card {d. gw_assign s d = Some ''upstream-0''})"
    using s(1) by (simp add: counts_exact_def assigned_to_def)
  moreover have "{d. gw_assign s d = Some ''upstream-0''} = {''d''}" using s(2) by auto
  ultimately have "uc_count (gw_ups s ''upstream-0'') = 1" by simp
  moreover have "set [''d''] = dom (gw_assign s)" using s(2) by simp
  ultimately show ?thesis using upstream_close_keeps_stale_load [OF run, of "[''d'']" "''upstream-0''"] by metis
qed

text \<open>
  C31. In every interleaving of the locked steps, for a connection whose goroutines follow their
  program (its closing is the three steps unassign, unregister, forget, after its last message): it is
  registered from its acceptance until the second step of its closing, a message of the server is routed
  to it only between its acceptance and the third, and never again once its closing has come to its end.
  (Between the second and the third step it is still routed to, and so is one that was cancelled, until
  its close handler runs.)
\<close>

theorem agents_routed_to_open:
  assumes "gw_run (gateway_started n) evs s" and "phase_of d evs = Some p"
  shows "(gw_registered s d = Some d \<longleftrightarrow> p \<in> {Open, Unassigned})
    \<and> (getAgentConnection a s = Some d \<longrightarrow> p \<in> {Open, Unassigned, Unregistered})"
  using phase_invariant [OF assms] by (auto simp: getAgentConnection_def connections_get_def split: if_splits)

theorem agents_routed_to_open_witness:
  "\<exists>s :: unit gateway. gw_run (gateway_started 1) [EvConnected ''upstream-0'' True, EvAssign ''d''] s
     \<and> gw_registered s ''d'' \<noteq> Some ''d'' \<and> getAgentConnection ''a'' s \<noteq> Some ''d''"
proof -
  from demo_step_assigned obtain s :: "unit gateway" where
    run: "gw_run (gateway_started 1) [EvConnected ''upstream-0'' True, EvAssign ''d''] s" by blast
  have "phase_of ''d'' [EvConnected ''upstream-0'' True, EvAssign ''d''] = Some Waiting"
    by (simp add: phase_of_def own_phase_def)
  from agents_routed_to_open [OF run this, of "''a''"] run show ?thesis by auto
qed

lemma handleRequest_assigned:
  assumes "d = downstream_id (gw_requests s + 1) addr"
    and "AssignUpstreamConnection order d (s\<lparr>gw_requests := gw_requests s + 1\<rparr>) = (Inr u, s1)"
    and "auth_outcome ev (getRequest uid (authenticating (addRequest uid s1))) = (acc, res)"
    and "s2 = removeRequest uid (authenticating (addRequest uid s1))"
  shows "handleRequest order addr uid authenticating ev upgrading upgradeOk s =
       (if \<not> acc then (HttpStatus (if cr_status res = 0 then 401 else cr_status res) (cr_headers res),
                       UnassignUpstreamConnection d s2)
        else if \<not> upgradeOk then (UpgradeFailed, UnassignUpstreamConnection d (upgrading s2))
        else (Upgraded, addDownstreamConnection d (newDownstreamConnection u) (upgrading s2)))"
  using assms(2-) unfolding assms(1)
  by (simp add: handleRequest_def acceptOpAMPConnection_def Let_def)

lemma handleRequest_run:
  fixes s :: "('c :: type) gateway"
  assumes "set order = gw_pool s" and "d = downstream_id (gw_requests s + 1) addr"
    and "gw_registered s d = None"
    and "others d uid evs1 authenticating" and "others d uid evs2 upgrading"
  shows "\<exists>evs. gw_run s evs (snd (handleRequest order addr uid authenticating ev upgrading upgradeOk s))
    \<and> (\<forall>v. EvUpClose v \<in> set evs \<longrightarrow> (\<exists>t. EvUpClose v \<in> set (evs1 t) \<union> set (evs2 t)))"
proof -
  let ?s0 = "s\<lparr>gw_requests := gw_requests s + 1\<rparr>"
  obtain a s1 where a: "AssignUpstreamConnection order d ?s0 = (a, s1)" by fastforce
  have "gw_run s [EvNumber] ?s0" by (rule gw_run_one [OF number])
  moreover have "gw_step ?s0 (EvAssign d) s1" by (rule gw_step.assign [OF _ a]) (simp add: assms(1))
  ultimately have r1: "gw_run s [EvNumber, EvAssign d] s1" using run_snoc by fastforce
  show ?thesis
  proof (cases a)
    case (Inl e)
    then have "snd (handleRequest order addr uid authenticating ev upgrading upgradeOk s) = s1"
      using a assms(2) by (cases e) (simp add: handleRequest_def Let_def)
    with r1 show ?thesis by (intro exI [of _ "[EvNumber, EvAssign d]"]) simp
  next
    case (Inr u)
    let ?t = "addRequest uid s1"
    let ?t1 = "authenticating ?t"
    let ?s2 = "removeRequest uid ?t1"
    have r2: "gw_run s ([EvNumber, EvAssign d] @ [EvAddRequest uid] @ evs1 ?t @ [EvRemoveRequest uid]) ?s2"
      using gw_run_append [OF r1 gw_run_append [OF gw_run_one [OF add_request] gw_run_append [OF _ gw_run_one [OF remove_request]]]]
        assms(4) by (simp add: others_def)
    have r3: "gw_run ?s2 (evs2 ?s2) (upgrading ?s2)" using assms(5) by (simp add: others_def)
    have none: "gw_registered s1 d = None" using assign_frame [OF a] assms(3) by simp
    then have none2: "gw_registered ?s2 d = None"
      using others_run [of ?t "evs1 ?t" ?t1 d uid] assms(4)
      by (simp add: others_def addRequest_def removeRequest_def)
    then have none3: "gw_registered (upgrading ?s2) d = None"
      using others_run [OF r3, of d uid] assms(5) by (simp add: others_def)
    let ?pre = "[EvNumber, EvAssign d] @ [EvAddRequest uid] @ evs1 ?t @ [EvRemoveRequest uid]"
    consider "snd (handleRequest order addr uid authenticating ev upgrading upgradeOk s) = UnassignUpstreamConnection d ?s2"
      | "snd (handleRequest order addr uid authenticating ev upgrading upgradeOk s) = UnassignUpstreamConnection d (upgrading ?s2)"
      | "snd (handleRequest order addr uid authenticating ev upgrading upgradeOk s)
           = addDownstreamConnection d (newDownstreamConnection u) (upgrading ?s2)"
      using handleRequest_assigned [where ev = ev and uid = uid and authenticating = authenticating
          and upgrading = upgrading and upgradeOk = upgradeOk and ?s2.0 = ?s2,
          OF assms(2) a [unfolded Inr] surjective_pairing refl]
      by (cases "fst (auth_outcome ev (getRequest uid ?t1))"; cases upgradeOk) simp_all
    then show ?thesis
    proof cases
      case 1
      with gw_run_append [OF r2 gw_run_one [OF reject [OF none2]]] show ?thesis
        by (intro exI [of _ "?pre @ [EvReject d]"]) auto
    next
      case 2
      with gw_run_append [OF r2 gw_run_append [OF r3 gw_run_one [OF reject [OF none3]]]] show ?thesis
        by (intro exI [of _ "?pre @ evs2 ?s2 @ [EvReject d]"]) auto
    next
      case 3
      with gw_run_append [OF r2 gw_run_append [OF r3 gw_run_one [OF accept]]] show ?thesis
        by (intro exI [of _ "?pre @ evs2 ?s2 @ [EvAccept d u]"]) auto
    qed
  qed
qed

text \<open>
  C32. The outcome of a connection request, whatever the rest of the gateway does while the request
  waits for its authentication and for the upgrade (any steps but those of this connection and of its
  authentication request), for a connection that is new. Without an upstream connection the answer is
  503 and nothing but the number of requests changes. A request that does not end in an upgraded
  connection leaves the connection unassigned, unregistered and without agents. One that does was
  accepted by the server's response to this request, and its connection is registered with the
  connected upstream connection that the pool chose; it is assigned to it, unless that was lost in the
  meantime, when it is assigned to none. The authentication request does not stay pending. And as long
  as no upstream connection is lost the load counts stay exact.
\<close>

theorem handleRequest_outcome:
  fixes s :: "('c :: type) gateway"
  assumes order: "set order = gw_pool s" and d: "d = downstream_id (gw_requests s + 1) addr"
    and new: "gw_assign s d = None" "gw_registered s d = None" "\<forall>a. gw_agents s a \<noteq> Some d" "gw_pending s uid = None"
    and o1: "others d uid evs1 authenticating" and o2: "others d uid evs2 upgrading"
    and run: "handleRequest order addr uid authenticating ev upgrading upgradeOk s = (reply, s')"
  shows "gw_pending s' uid = None
    \<and> (pool_next order s = None \<longrightarrow> reply = HttpStatus 503 [(''Retry-After'', ''30'')]
         \<and> s' = s\<lparr>gw_requests := gw_requests s + 1\<rparr>)
    \<and> (reply \<noteq> Upgraded \<longrightarrow> gw_assign s' d = None \<and> gw_registered s' d = None \<and> (\<forall>a. gw_agents s' a \<noteq> Some d))
    \<and> (reply = Upgraded \<longrightarrow> (\<exists>u r rest. pool_next order s = Some u \<and> uc_connected (gw_ups s u) \<and> cr_accept r
         \<and> gw_pending (authenticating (addRequest uid (snd (AssignUpstreamConnection order d
               (s\<lparr>gw_requests := gw_requests s + 1\<rparr>))))) uid = Some (AuthResult r # rest)
         \<and> gw_registered s' d = Some d \<and> gw_downs s' d = newDownstreamConnection u
         \<and> (gw_assign s' d = Some u \<or> gw_assign s' d = None \<and> (\<exists>t. EvUpClose u \<in> set (evs1 t) \<union> set (evs2 t)))))
    \<and> (counts_exact s \<and> (\<forall>t v. EvUpClose v \<notin> set (evs1 t) \<union> set (evs2 t)) \<longrightarrow> counts_exact s')"
proof -
  let ?s0 = "s\<lparr>gw_requests := gw_requests s + 1\<rparr>"
  have next0: "pool_next order ?s0 = pool_next order s" by (simp add: pool_next_def)
  have exact: "counts_exact s'"
    if "counts_exact s" "\<forall>t v. EvUpClose v \<notin> set (evs1 t) \<union> set (evs2 t)"
    using handleRequest_run [OF order d new(2) o1 o2, of ev upgradeOk] run that counts_exact_run by (metis snd_conv)
  show ?thesis
  proof (cases "pool_next order s")
    case None
    then have "(reply, s') = (HttpStatus 503 [(''Retry-After'', ''30'')], ?s0)"
      using run new(1) next0
      by (simp add: d [symmetric] handleRequest_def AssignUpstreamConnection_def assignedUpstream_new Let_def)
    then show ?thesis using None new exact by simp
  next
    case (Some u)
    let ?s1 = "incrementDownstreamCount u (?s0\<lparr>gw_assign := (gw_assign s)(d \<mapsto> u)\<rparr>)"
    let ?t = "authenticating (addRequest uid ?s1)"
    let ?s2 = "removeRequest uid ?t"
    let ?s3 = "upgrading ?s2"
    have assign: "AssignUpstreamConnection order d ?s0 = (Inr u, ?s1)"
      using Some new(1) next0 by (simp add: AssignUpstreamConnection_def assignedUpstream_new)
    obtain acc res where out: "auth_outcome ev (getRequest uid ?t) = (acc, res)" by fastforce
    have reply: "(reply, s') =
       (if \<not> acc then (HttpStatus (if cr_status res = 0 then 401 else cr_status res) (cr_headers res),
                       UnassignUpstreamConnection d ?s2)
        else if \<not> upgradeOk then (UpgradeFailed, UnassignUpstreamConnection d ?s3)
        else (Upgraded, addDownstreamConnection d (newDownstreamConnection u) ?s3))"
      using handleRequest_assigned [where authenticating = authenticating and uid = uid
          and upgrading = upgrading and upgradeOk = upgradeOk and ?s2.0 = ?s2, OF d assign out refl] run by simp
    have s1: "gw_registered (addRequest uid ?s1) d = None" "\<forall>a. gw_agents (addRequest uid ?s1) a \<noteq> Some d"
      "gw_assign (addRequest uid ?s1) d = Some u"
      using new by (simp_all add: addRequest_def incrementDownstreamCount_def)
    have t: "gw_registered ?t d = None" "\<forall>a. gw_agents ?t a \<noteq> Some d"
      "gw_assign ?t d = Some u \<or> gw_assign ?t d = None \<and> EvUpClose u \<in> set (evs1 (addRequest uid ?s1))"
      using others_run [of "addRequest uid ?s1" "evs1 (addRequest uid ?s1)" ?t d uid] o1 s1 by (auto simp: others_def)
    then have s2: "gw_registered ?s2 d = None" "\<forall>a. gw_agents ?s2 a \<noteq> Some d" "gw_pending ?s2 uid = None"
      "gw_assign ?s2 d = Some u \<or> gw_assign ?s2 d = None \<and> EvUpClose u \<in> set (evs1 (addRequest uid ?s1))"
      by (simp_all add: removeRequest_def)
    have s3: "gw_registered ?s3 d = None" "\<forall>a. gw_agents ?s3 a \<noteq> Some d" "gw_pending ?s3 uid = None"
      "gw_assign ?s3 d = Some u \<or> gw_assign ?s3 d = None
         \<and> EvUpClose u \<in> set (evs1 (addRequest uid ?s1)) \<union> set (evs2 ?s2)"
      using others_run [of ?s2 "evs2 ?s2" ?s3 d uid] o2 s2 by (auto simp: others_def split: option.splits if_splits)
    have accepted: "\<exists>r rest. gw_pending ?t uid = Some (AuthResult r # rest) \<and> cr_accept r" if acc
      using out that
      by (auto simp: auth_outcome_def getRequest_def timed_out_def
          split: auth_event.splits option.splits list.splits authResponse.splits)
    show ?thesis
    proof (cases "acc \<and> upgradeOk")
      case True
      then have final: "reply = Upgraded" "s' = addDownstreamConnection d (newDownstreamConnection u) ?s3"
        using reply by simp_all
      obtain r rest where "gw_pending ?t uid = Some (AuthResult r # rest)" "cr_accept r" using accepted True by blast
      moreover have "gw_pending s' uid = None" "gw_registered s' d = Some d" "gw_downs s' d = newDownstreamConnection u"
        "gw_assign s' d = gw_assign ?s3 d"
        using s3 by (simp_all add: final(2) addDownstreamConnection_def connections_set_def)
      ultimately show ?thesis using final(1) Some pool_next_Some(2) [OF Some] s3(4) exact assign by auto
    next
      case False
      then have "reply \<noteq> Upgraded \<and> (s' = UnassignUpstreamConnection d ?s2 \<or> s' = UnassignUpstreamConnection d ?s3)"
        using reply by (auto split: if_splits)
      then show ?thesis using s2 s3 exact Some by auto
    qed
  qed
qed

text \<open>The response to the request arrives while it waits.\<close>

definition demo_response :: "unit gateway \<Rightarrow> unit gateway" where
  "demo_response t =
     (if gw_connections t ''upstream-0'' = Some ''upstream-0''
      then snd (upstream_OnMessage
        (\<lambda>_. Some \<lparr>sa_uid = [], sa_caps = None, sa_custom = Some \<lparr>cm_capability = OpampGatewayCapability,
           cm_type = OpampGatewayConnectResultType, cm_data = []\<rparr>, sa_rest = ()\<rparr>)
        (\<lambda>_. None) (\<lambda>_. [])
        (\<lambda>_. Some \<lparr>cr_requestUID = ''uid'', cr_accept = True, cr_status = 0, cr_headers = []\<rparr>)
        True ''upstream-0'' BinaryMessage \<lparr>msg_number = 1, msg_data = [CHR 0x00]\<rparr> t)
      else t)"

theorem handleRequest_outcome_witness:
  "\<exists>s'. handleRequest [''upstream-0'', ''upstream-1''] ''a'' ''uid'' demo_response Responded (\<lambda>t. t) True demo_gateway
      = (Upgraded, s') \<and> gw_registered s' (downstream_id 1 ''a'') = Some (downstream_id 1 ''a'')"
proof -
  let ?d = "downstream_id 1 ''a''" and ?order = "[''upstream-0'', ''upstream-1'']"
  obtain reply s' where run: "handleRequest ?order ''a'' ''uid'' demo_response Responded (\<lambda>t. t) True demo_gateway = (reply, s')"
    by fastforce
  have order: "set ?order = gw_pool demo_gateway" by (simp add: demo_gateway_fields)
  have tables: "gw_registered demo_gateway = Map.empty" "gw_agents demo_gateway = Map.empty"
      "gw_connections demo_gateway ''upstream-0'' = Some ''upstream-0''"
    by (auto simp: demo_gateway_def client_start_def client_addConnection_def upstream_defs
        connections_defs gateway_new_def Let_def numeral_2_eq_2)
  have o1: "others ?d ''uid'' (\<lambda>t. if gw_connections t ''upstream-0'' = Some ''upstream-0''
      then [EvUpMessage ''upstream-0''] else []) demo_response"
    unfolding others_def demo_response_def
    by (auto simp: own_step_def intro!: gw_run_one gw_step.up_message)
  have o2: "others ?d ''uid'' (\<lambda>t. []) (\<lambda>t. t)" by (simp add: others_def)
  have "pool_next ?order demo_gateway = Some ''upstream-0''"
    by (simp add: pool_next_def demo_gateway_fields downstreamCount_def MaxInt32_def)
  then have "reply = Upgraded"
    using run tables
    by (simp add: handleRequest_def AssignUpstreamConnection_def assignedUpstream_new demo_gateway_fields
        acceptOpAMPConnection_def demo_response_def upstream_OnMessage_def HandleUpstreamMessage_def
        handleAuthResponse_def addRequest_def getRequest_def removeRequest_def auth_outcome_def
        decodeWSMessage_def incrementDownstreamCount_def pool_next_def BinaryMessage_def Let_def
        wsMsgHeader_def downstreamCount_def MaxInt32_def
        split: prod.splits if_splits)
  with handleRequest_outcome [OF order _ _ _ _ _ o1 o2 run] run show ?thesis
    by (auto simp: demo_gateway_fields tables)
qed

text \<open>
  The capabilities the server announced on an upstream connection reach every agent:
  a message forwarded to an agent that has not been given them, on an upstream connection
  that has them cached, is re-encoded with exactly these capabilities and its other content
  unchanged (given that the protobuf codec round-trips it), the agent is marked, and from
  then on messages are forwarded as they came.
\<close>

theorem capabilities_injected_once:
  assumes "sa_caps m = None" and "\<not> dc_sentCaps (gw_downs s d)" and "uc_caps (gw_ups s u) = Some caps"
    and "injectCapabilities marshal u d m msg s = (out, s')"
    and "encodeWSMessage marshal (m\<lparr>sa_caps := Some caps\<rparr>) = Inr frame"
    and "\<And>x data. marshal x = Some data \<Longrightarrow> unmarshal data = Some x"
  shows "decodeWSMessage unmarshal (msg_data out) = Inr (m\<lparr>sa_caps := Some caps\<rparr>)
    \<and> msg_number out = msg_number msg
    \<and> (\<forall>m' msg'. sa_caps m' = None \<longrightarrow> injectCapabilities marshal u d m' msg' s' = (msg', s'))"
proof -
  from assms(1-5) have out: "out = \<lparr>msg_number = msg_number msg, msg_data = frame\<rparr>"
    and s': "s' = markSentCaps d s"
    by (auto simp: injectCapabilities_def)
  from encode_frame [OF assms(5)] obtain data where
    "marshal (m\<lparr>sa_caps := Some caps\<rparr>) = Some data" "frame = CHR 0x00 # data" by blast
  with assms(6) have "decodeWSMessage unmarshal frame = Inr (m\<lparr>sa_caps := Some caps\<rparr>)" by simp
  with out s' show ?thesis by (simp add: injectCapabilities_def markSentCaps_def)
qed

text \<open>A codec for the instance below: messages with no body, and one byte for the capabilities.\<close>

definition demo_marshal :: "(bool, unit) serverToAgent \<Rightarrow> bytes option" where
  "demo_marshal m = (if sa_custom m \<noteq> None then None
     else Some ((case sa_caps m of None \<Rightarrow> CHR ''n'' | Some b \<Rightarrow> if b then CHR ''t'' else CHR ''f'') # sa_uid m))"

definition demo_unmarshal :: "bytes \<Rightarrow> (bool, unit) serverToAgent option" where
  "demo_unmarshal bs = (case bs of [] \<Rightarrow> None
     | c # r \<Rightarrow> Some \<lparr>sa_uid = r, sa_caps = (if c = CHR ''n'' then None else Some (c = CHR ''t'')),
                      sa_custom = None, sa_rest = ()\<rparr>)"

lemma demo_codec: "demo_marshal x = Some data \<Longrightarrow> demo_unmarshal data = Some x"
  by (cases x) (auto simp: demo_marshal_def demo_unmarshal_def split: if_splits option.splits)

theorem capabilities_injected_once_witness:
  "decodeWSMessage demo_unmarshal (CHR 0x00 # CHR ''t'' # ''agent'')
     = Inr \<lparr>sa_uid = ''agent'', sa_caps = Some True, sa_custom = None, sa_rest = ()\<rparr>"
proof -
  let ?m = "\<lparr>sa_uid = ''agent'', sa_caps = None, sa_custom = None, sa_rest = ()\<rparr> :: (bool, unit) serverToAgent"
  let ?s = "setCustomCapabilities ''u'' True gateway_new"
  let ?msg = "\<lparr>msg_number = 7, msg_data = [CHR 0x00]\<rparr>"
  have e: "encodeWSMessage demo_marshal (?m\<lparr>sa_caps := Some True\<rparr>) = Inr (CHR 0x00 # CHR ''t'' # ''agent'')"
    by (simp add: encodeWSMessage_def demo_marshal_def MaxInt_def)
  have i: "injectCapabilities demo_marshal ''u'' ''d'' ?m ?msg ?s
      = (\<lparr>msg_number = 7, msg_data = CHR 0x00 # CHR ''t'' # ''agent''\<rparr>, markSentCaps ''d'' ?s)"
    using e by (simp add: injectCapabilities_def setCustomCapabilities_def gateway_new_def
        newDownstreamConnection_def)
  have p: "sa_caps ?m = None" "\<not> dc_sentCaps (gw_downs ?s ''d'')" "uc_caps (gw_ups ?s ''u'') = Some True"
    by (simp_all add: setCustomCapabilities_def gateway_new_def newDownstreamConnection_def)
  from capabilities_injected_once [where unmarshal = demo_unmarshal, OF p i e demo_codec]
  have "decodeWSMessage demo_unmarshal (CHR 0x00 # CHR ''t'' # ''agent'') = Inr (?m\<lparr>sa_caps := Some True\<rparr>)"
    by (simp only: message.simps)
  then show ?thesis by simp
qed

end
