(* ===== verification/BlobErrors.thy ===== *)
theory BlobErrors
  imports Prelude
begin

text \<open>
  The errors of the blob streaming package \<open>internal/blobstream\<close> and the decisions that rest on
  them: whether a failed object is retried (a broken stream), acknowledged with what was read
  (a truncated object) or sent to the dead-letter queue (content that can never be read).

  A Go error is a value of \<open>go_error\<close>; a wrapping error holds what its \<open>Unwrap\<close> returns.
  \<open>errors.Is\<close> and \<open>errors.As\<close> search the chain of wrapped errors.
\<close>

section \<open>Errors and their chains\<close>

datatype go_error =
    ErrEOF
  | ErrUnexpectedEOF
  | ErrBufferFull
  | ErrCanceled
  | ErrDeadlineExceeded
  | ErrNotArrayOrKnownObject
  | ErrNestingDepthExceeded
  | ErrUnsupportedContent string
  | ErrArchiveLimitExceeded string
  | ErrDecompressLimitExceeded int
  | ErrOther string
  | ErrStreamRead go_error
  | ErrTruncatedObject go_error
  | ErrCorruptContainer string go_error
  | ErrCorruptArchive string go_error
  | ErrWrapped string go_error

fun unwrap :: "go_error \<Rightarrow> go_error option" where
  "unwrap (ErrStreamRead e) = Some e"
| "unwrap (ErrTruncatedObject e) = Some e"
| "unwrap (ErrCorruptContainer f e) = Some e"
| "unwrap (ErrCorruptArchive t e) = Some e"
| "unwrap (ErrWrapped m e) = Some e"
| "unwrap _ = None"

fun chain :: "go_error \<Rightarrow> go_error list" where
  "chain (ErrStreamRead e) = ErrStreamRead e # chain e"
| "chain (ErrTruncatedObject e) = ErrTruncatedObject e # chain e"
| "chain (ErrCorruptContainer f e) = ErrCorruptContainer f e # chain e"
| "chain (ErrCorruptArchive t e) = ErrCorruptArchive t e # chain e"
| "chain (ErrWrapped m e) = ErrWrapped m e # chain e"
| "chain e = [e]"

definition errors_Is :: "go_error \<Rightarrow> go_error \<Rightarrow> bool" where
  "errors_Is e target = (target \<in> set (chain e))"

definition errors_As :: "(go_error \<Rightarrow> bool) \<Rightarrow> go_error \<Rightarrow> go_error option" where
  "errors_As P e = find P (chain e)"

text \<open>The chain of an error is the error and the chain of what it wraps.\<close>

lemma chain_unwrap: "chain e = e # (case unwrap e of None \<Rightarrow> [] | Some e' \<Rightarrow> chain e')"
  by (cases e) auto

lemma errors_As_None: "errors_As P e = None \<longleftrightarrow> (\<forall>x\<in>set (chain e). \<not> P x)"
  by (auto simp: errors_As_def find_None_iff)

fun is_stream_read :: "go_error \<Rightarrow> bool" where
  "is_stream_read (ErrStreamRead e) = True" | "is_stream_read _ = False"

fun is_truncated :: "go_error \<Rightarrow> bool" where
  "is_truncated (ErrTruncatedObject e) = True" | "is_truncated _ = False"

fun is_corrupt_container :: "go_error \<Rightarrow> bool" where
  "is_corrupt_container (ErrCorruptContainer f e) = True" | "is_corrupt_container _ = False"

fun is_corrupt_archive :: "go_error \<Rightarrow> bool" where
  "is_corrupt_archive (ErrCorruptArchive t e) = True" | "is_corrupt_archive _ = False"

fun is_unsupported :: "go_error \<Rightarrow> bool" where
  "is_unsupported (ErrUnsupportedContent m) = True" | "is_unsupported _ = False"

fun is_archive_limit :: "go_error \<Rightarrow> bool" where
  "is_archive_limit (ErrArchiveLimitExceeded m) = True" | "is_archive_limit _ = False"

fun is_decompress_limit :: "go_error \<Rightarrow> bool" where
  "is_decompress_limit (ErrDecompressLimitExceeded n) = True" | "is_decompress_limit _ = False"

section \<open>The predicates of the package\<close>

definition IsStreamRead :: "go_error \<Rightarrow> bool" where
  "IsStreamRead e = (errors_As is_stream_read e \<noteq> None)"

definition IsTruncatedObject :: "go_error \<Rightarrow> bool" where
  "IsTruncatedObject e = (errors_As is_truncated e \<noteq> None)"

definition IsCancellation :: "go_error \<Rightarrow> bool" where
  "IsCancellation e = (errors_Is e ErrCanceled \<or> errors_Is e ErrDeadlineExceeded)"

definition isUnusableContent :: "go_error option \<Rightarrow> bool" where
  "isUnusableContent err =
     (case err of
        None \<Rightarrow> False
      | Some e \<Rightarrow>
          if errors_Is e ErrNotArrayOrKnownObject \<or> IsTruncatedObject e then True
          else if errors_As is_unsupported e \<noteq> None then True
          else if errors_As is_corrupt_archive e \<noteq> None then True
          else if errors_As is_corrupt_container e \<noteq> None then True
          else errors_As is_decompress_limit e \<noteq> None)"

definition IsUnsupportedContent :: "go_error option \<Rightarrow> bool" where
  "IsUnsupportedContent err =
     (if isUnusableContent err then True
      else case err of None \<Rightarrow> False | Some e \<Rightarrow> errors_As is_archive_limit e \<noteq> None)"

section \<open>Classifying a failed read\<close>

text \<open>
  What a reader knows of the raw source: the last error it reported, whether it ended, how
  many bytes it delivered, and the size the object should have (0 when unknown).
\<close>

record raw_status =
  raw_readErr :: "go_error option"
  raw_atEOF :: bool
  raw_offset :: int
  raw_expectedSize :: int

definition RawTruncated :: "raw_status \<Rightarrow> bool" where
  "RawTruncated r = (raw_expectedSize r > 0 \<and> raw_atEOF r \<and> raw_offset r < raw_expectedSize r)"

definition classifyReadFailure :: "raw_status \<Rightarrow> go_error \<Rightarrow> go_error" where
  "classifyReadFailure r err =
     (case raw_readErr r of
        Some e \<Rightarrow> ErrStreamRead e
      | None \<Rightarrow>
          if RawTruncated r then ErrStreamRead err
          else if errors_Is err ErrUnexpectedEOF then ErrTruncatedObject err
          else ErrCorruptContainer ''stream'' err)"

lemmas blob_error_defs [model_defs] =
  errors_Is_def errors_As_def IsStreamRead_def IsTruncatedObject_def IsCancellation_def
  isUnusableContent_def IsUnsupportedContent_def RawTruncated_def classifyReadFailure_def

text \<open>An error that carries none of the package's verdicts anywhere in its chain.\<close>

definition unclassified :: "go_error \<Rightarrow> bool" where
  "unclassified e = (\<forall>x\<in>set (chain e). \<not> is_stream_read x \<and> \<not> is_truncated x
     \<and> \<not> is_corrupt_container x \<and> \<not> is_corrupt_archive x \<and> \<not> is_unsupported x
     \<and> \<not> is_archive_limit x \<and> \<not> is_decompress_limit x \<and> x \<noteq> ErrNotArrayOrKnownObject)"

lemma unclassified_predicates:
  assumes "unclassified e"
  shows "\<not> IsStreamRead e" "\<not> isUnusableContent (Some e)" "\<not> IsUnsupportedContent (Some e)"
    "\<not> IsTruncatedObject e"
  using assms
  by (auto simp: unclassified_def IsStreamRead_def isUnusableContent_def IsUnsupportedContent_def
      IsTruncatedObject_def errors_As_None errors_Is_def)

text \<open>
  Every failed read is classified, and into one class only: when the source broke or fell
  short of the object's size the result is a stream error, which is retried and never
  dead-lettered; when the source delivered everything the result is content that no retry
  can read (a truncated object or a corrupt container), and never a stream error. The source
  error and the decoder's error are ones that carry no verdict of the package yet.
\<close>

theorem classifyReadFailure_exclusive:
  assumes "unclassified err" and "\<And>e. raw_readErr r = Some e \<Longrightarrow> unclassified e"
  shows "(raw_readErr r \<noteq> None \<or> RawTruncated r \<longrightarrow>
            IsStreamRead (classifyReadFailure r err) \<and> \<not> IsUnsupportedContent (Some (classifyReadFailure r err)))
       \<and> (raw_readErr r = None \<and> \<not> RawTruncated r \<longrightarrow>
            \<not> IsStreamRead (classifyReadFailure r err) \<and> IsUnsupportedContent (Some (classifyReadFailure r err))
          \<and> (IsTruncatedObject (classifyReadFailure r err) \<longleftrightarrow> errors_Is err ErrUnexpectedEOF))"
proof -
  have stream: "IsStreamRead (ErrStreamRead e) \<and> \<not> IsUnsupportedContent (Some (ErrStreamRead e))"
    if "unclassified e" for e
    using that
    by (auto simp: unclassified_def IsStreamRead_def isUnusableContent_def IsUnsupportedContent_def
        IsTruncatedObject_def errors_As_None errors_Is_def) 
  have content: "\<not> IsStreamRead (ErrTruncatedObject err) \<and> IsUnsupportedContent (Some (ErrTruncatedObject err))
      \<and> IsTruncatedObject (ErrTruncatedObject err)
      \<and> \<not> IsStreamRead (ErrCorruptContainer f err) \<and> IsUnsupportedContent (Some (ErrCorruptContainer f err))
      \<and> \<not> IsTruncatedObject (ErrCorruptContainer f err)" for f
    using assms(1)
    by (auto simp: unclassified_def IsStreamRead_def isUnusableContent_def IsUnsupportedContent_def
        IsTruncatedObject_def errors_As_None errors_Is_def)
  show ?thesis
    using stream [OF assms(1)] stream assms(2) content
    by (auto simp: classifyReadFailure_def split: option.splits)
qed

theorem classifyReadFailure_exclusive_witness:
  "IsStreamRead (classifyReadFailure
     \<lparr>raw_readErr = Some (ErrOther ''reset''), raw_atEOF = False, raw_offset = 3, raw_expectedSize = 9\<rparr> ErrUnexpectedEOF)"
  using classifyReadFailure_exclusive [of ErrUnexpectedEOF
      "\<lparr>raw_readErr = Some (ErrOther ''reset''), raw_atEOF = False, raw_offset = 3, raw_expectedSize = 9\<rparr>"]
  by (simp add: unclassified_def)

text \<open>
  A verdict already reached below is not lost by classification: a tripped archive limit
  stays visible to \<open>errors.As\<close> whichever class the failure falls into, provided it was the
  source's own error when the source reported one, so the caller still fails the object.
\<close>

theorem classify_keeps_archive_limit:
  assumes "errors_As is_archive_limit err = Some lim"
    and "\<And>e. raw_readErr r = Some e \<Longrightarrow> e = err"
  shows "errors_As is_archive_limit (classifyReadFailure r err) = Some lim
    \<and> IsUnsupportedContent (Some (classifyReadFailure r err))"
proof -
  have "errors_As is_archive_limit (classifyReadFailure r err) = Some lim"
    using assms by (auto simp: classifyReadFailure_def errors_As_def split: option.splits)
  then show ?thesis by (simp add: IsUnsupportedContent_def)
qed

theorem classify_keeps_archive_limit_witness:
  "IsUnsupportedContent (Some (classifyReadFailure
     \<lparr>raw_readErr = None, raw_atEOF = True, raw_offset = 9, raw_expectedSize = 9\<rparr> (ErrArchiveLimitExceeded ''total'')))"
  using classify_keeps_archive_limit [of "ErrArchiveLimitExceeded ''total''" "ErrArchiveLimitExceeded ''total''"
     "\<lparr>raw_readErr = None, raw_atEOF = True, raw_offset = 9, raw_expectedSize = 9\<rparr>"]
  by (simp add: errors_As_def)

section \<open>Failures while the readers are built\<close>

text \<open>
  \<open>LogStream.BufferedReader\<close> when \<open>decompress\<close> fails: a broken or short download is retried,
  and the corrupt-container wrapper that \<open>decompress\<close> put on is removed first.
\<close>

definition LogStream_BufferedReader_error :: "raw_status \<Rightarrow> go_error \<Rightarrow> go_error" where
  "LogStream_BufferedReader_error r err =
     (if raw_readErr r \<noteq> None \<or> raw_expectedSize r > 0 \<and> raw_atEOF r \<and> raw_offset r < raw_expectedSize r
      then ErrStreamRead (case errors_As is_corrupt_container err of
                            Some (ErrCorruptContainer f inner) \<Rightarrow> inner
                          | _ \<Rightarrow> err)
      else err)"

text \<open>\<open>archiveProducer.Records\<close> when the backend does not open.\<close>

definition archive_open_error :: "raw_status option \<Rightarrow> string \<Rightarrow> go_error \<Rightarrow> go_error" where
  "archive_open_error reader format err =
     (case reader of
        Some r \<Rightarrow>
          if raw_readErr r \<noteq> None \<or> RawTruncated r then
            ErrStreamRead (case errors_As is_corrupt_archive err of
                             Some (ErrCorruptArchive t inner) \<Rightarrow> inner
                           | _ \<Rightarrow> err)
          else if IsUnsupportedContent (Some err) then ErrWrapped ''open archive'' err
          else if raw_atEOF r then ErrCorruptArchive format err
          else ErrWrapped ''open archive'' err
      | None \<Rightarrow> ErrWrapped ''open archive'' err)"

text \<open>\<open>archiveProducer.Records\<close> when \<open>Next\<close> fails with an error other than the end.\<close>

definition archive_next_error :: "raw_status option \<Rightarrow> string \<Rightarrow> go_error \<Rightarrow> go_error" where
  "archive_next_error reader format err =
     (case reader of
        None \<Rightarrow> ErrCorruptArchive format err
      | Some r \<Rightarrow>
          if raw_readErr r \<noteq> None \<or> RawTruncated r then ErrStreamRead err
          else if raw_atEOF r then ErrTruncatedObject err
          else ErrCorruptArchive format err)"

text \<open>
  C18. A download that broke or ended short while an object was being opened is retried and is
  not dead-lettered, even though the decoder had already called the bytes corrupt: the
  wrapper is removed, for a compressed object and for an archive alike.
\<close>

theorem short_open_is_retried:
  assumes "raw_readErr r \<noteq> None \<or> RawTruncated r" and "unclassified err"
  shows "IsStreamRead (LogStream_BufferedReader_error r (ErrCorruptContainer f err))
      \<and> \<not> IsUnsupportedContent (Some (LogStream_BufferedReader_error r (ErrCorruptContainer f err)))
      \<and> IsStreamRead (archive_open_error (Some r) fm (ErrCorruptArchive f err))
      \<and> \<not> IsUnsupportedContent (Some (archive_open_error (Some r) fm (ErrCorruptArchive f err)))"
proof -
  have "LogStream_BufferedReader_error r (ErrCorruptContainer f err) = ErrStreamRead err"
    and "archive_open_error (Some r) fm (ErrCorruptArchive f err) = ErrStreamRead err"
    using assms(1)
    by (auto simp: LogStream_BufferedReader_error_def archive_open_error_def RawTruncated_def errors_As_def)
  with assms(2) show ?thesis
    by (auto simp: unclassified_def IsStreamRead_def isUnusableContent_def IsUnsupportedContent_def
        IsTruncatedObject_def errors_As_None errors_Is_def)
qed

theorem short_open_is_retried_witness:
  "IsStreamRead (LogStream_BufferedReader_error
      \<lparr>raw_readErr = None, raw_atEOF = True, raw_offset = 3, raw_expectedSize = 9\<rparr>
      (ErrCorruptContainer ''gzip'' ErrUnexpectedEOF))"
  using short_open_is_retried [of "\<lparr>raw_readErr = None, raw_atEOF = True, raw_offset = 3, raw_expectedSize = 9\<rparr>"
      ErrUnexpectedEOF "''gzip''" "''zip''"]
  by (simp add: RawTruncated_def unclassified_def)

end
