(* ===== verification/BlobReaders.thy ===== *)
theory BlobReaders
  imports BlobErrors
begin

text \<open>
  The reader wrappers of \<open>internal/blobstream\<close>: the counting reader, which knows how much of an
  object arrived, and the three readers that bound how much may be read (an archive entry and
  a whole archive, a decompressed object, a single record). A wrapped reader is any function
  \<open>rd\<close> from a requested length and a state to the bytes read, an error and the next state.
  What the three bounding readers promise is the locale \<open>bounded_reader\<close>.
\<close>

type_synonym 's reader = "nat \<Rightarrow> 's \<Rightarrow> (bytes \<times> go_error option) \<times> 's"

section \<open>The readers\<close>

record 's countingReader =
  cn_reader :: 's
  cn_offset :: int
  cn_readErr :: "go_error option"
  cn_atEOF :: bool

definition countingReader_Read :: "'s reader \<Rightarrow> 's countingReader reader" where
  "countingReader_Read rd p r =
     (case rd p (cn_reader r) of
        ((bs, err), s) \<Rightarrow>
          (let r1 = r\<lparr>cn_reader := s, cn_offset := cn_offset r + int (length bs)\<rparr>
           in ((bs, err),
               case err of
                 None \<Rightarrow> r1\<lparr>cn_readErr := None\<rparr>
               | Some e \<Rightarrow> if errors_Is e ErrEOF then r1\<lparr>cn_atEOF := True\<rparr>
                           else r1\<lparr>cn_readErr := Some e\<rparr>)))"

definition newCountingReader :: "'s \<Rightarrow> 's countingReader" where
  "newCountingReader s = \<lparr>cn_reader = s, cn_offset = 0, cn_readErr = None, cn_atEOF = False\<rparr>"

definition counting_status :: "int \<Rightarrow> 's countingReader \<Rightarrow> raw_status" where
  "counting_status expectedSize r =
     \<lparr>raw_readErr = cn_readErr r, raw_atEOF = cn_atEOF r, raw_offset = cn_offset r,
      raw_expectedSize = expectedSize\<rparr>"

text \<open>
  The capping reader of an archive entry. The counter of the whole archive is shared by the
  entries; the reader of an entry holds its current value while the entry is read.
\<close>

record 's cappingReader =
  cp_r :: 's
  cp_entryRead :: int
  cp_entryLimit :: int
  cp_total :: int
  cp_totalLimit :: int
  cp_tripped :: "go_error option"

definition cappingReader_Read :: "'s reader \<Rightarrow> 's cappingReader reader" where
  "cappingReader_Read rd p c =
     (case cp_tripped c of
        Some e \<Rightarrow> (([], Some e), c)
      | None \<Rightarrow>
          (case rd p (cp_r c) of
             ((bs, err), s) \<Rightarrow>
               (let c1 = c\<lparr>cp_r := s, cp_entryRead := cp_entryRead c + int (length bs),
                           cp_total := cp_total c + int (length bs)\<rparr>
                in if cp_entryLimit c1 > 0 \<and> cp_entryRead c1 > cp_entryLimit c1 then
                     (let e = ErrArchiveLimitExceeded ''per-entry uncompressed size exceeded''
                      in (([], Some e), c1\<lparr>cp_tripped := Some e\<rparr>))
                   else if cp_totalLimit c1 > 0 \<and> cp_total c1 > cp_totalLimit c1 then
                     (let e = ErrArchiveLimitExceeded ''total uncompressed size exceeded''
                      in (([], Some e), c1\<lparr>cp_tripped := Some e\<rparr>))
                   else ((bs, err), c1))))"

record 's decompressLimitReader =
  dl_r :: 's
  dl_limit :: int
  dl_read :: int
  dl_tripped :: "go_error option"

definition decompressLimitReader_Read :: "'s reader \<Rightarrow> 's decompressLimitReader reader" where
  "decompressLimitReader_Read rd p d =
     (case dl_tripped d of
        Some e \<Rightarrow> (([], Some e), d)
      | None \<Rightarrow>
          (case rd p (dl_r d) of
             ((bs, err), s) \<Rightarrow>
               (let d1 = d\<lparr>dl_r := s, dl_read := dl_read d + int (length bs)\<rparr>
                in if dl_limit d1 \<ge> 0 \<and> dl_read d1 > dl_limit d1 then
                     (let e = ErrDecompressLimitExceeded (dl_limit d1)
                      in (([], Some e), d1\<lparr>dl_tripped := Some e\<rparr>))
                   else ((bs, err), d1))))"

record 's cappedRecordReader =
  rr_r :: 's
  rr_limit :: int
  rr_n :: int
  rr_armed :: bool

definition errRecordTooLarge :: go_error where
  "errRecordTooLarge = ErrOther ''record exceeds max_log_size''"

definition cappedRecordReader_Read :: "'s reader \<Rightarrow> 's cappedRecordReader reader" where
  "cappedRecordReader_Read rd p c =
     (if rr_armed c \<and> rr_limit c > 0 \<and> rr_n c \<ge> rr_limit c then (([], Some errRecordTooLarge), c)
      else
        (let p' = (if rr_armed c \<and> rr_limit c > 0 \<and> int p > rr_limit c - rr_n c
                   then nat (rr_limit c - rr_n c) else p)
         in case rd p' (rr_r c) of
              ((bs, err), s) \<Rightarrow>
                (let c1 = c\<lparr>rr_r := s\<rparr>
                 in ((bs, err), if rr_armed c1 then c1\<lparr>rr_n := rr_n c1 + int (length bs)\<rparr> else c1))))"

definition cappedRecordReader_arm :: "int \<Rightarrow> 's cappedRecordReader \<Rightarrow> 's cappedRecordReader" where
  "cappedRecordReader_arm limit c = c\<lparr>rr_armed := True, rr_n := 0, rr_limit := limit\<rparr>"

definition cappedRecordReader_disarm :: "'s cappedRecordReader \<Rightarrow> 's cappedRecordReader" where
  "cappedRecordReader_disarm c = c\<lparr>rr_armed := False\<rparr>"

definition maxRecordBytesHardLimit :: int where
  "maxRecordBytesHardLimit = 128 * 2 ^ 20"

definition recordSizeLimit :: "int option \<Rightarrow> int" where
  "recordSizeLimit maxRecordBytes =
     (case maxRecordBytes of
        Some v \<Rightarrow> if v > 0 then v else maxRecordBytesHardLimit
      | None \<Rightarrow> maxRecordBytesHardLimit)"

lemmas reader_defs [model_defs] =
  countingReader_Read_def newCountingReader_def counting_status_def cappingReader_Read_def
  decompressLimitReader_Read_def errRecordTooLarge_def cappedRecordReader_Read_def
  cappedRecordReader_arm_def cappedRecordReader_disarm_def recordSizeLimit_def

section \<open>Sequences of reads\<close>

text \<open>The reads of the given sizes, one after another, and all the bytes they delivered.\<close>

fun reads :: "'s reader \<Rightarrow> nat list \<Rightarrow> 's \<Rightarrow> bytes \<times> 's" where
  "reads rd [] s = ([], s)"
| "reads rd (p # ps) s =
     (case rd p s of
        ((bs, err), s1) \<Rightarrow> (case reads rd ps s1 of (rest, s2) \<Rightarrow> (bs @ rest, s2)))"

text \<open>The contract of \<open>io.Reader\<close>: a read delivers no more than was asked for.\<close>

definition honest :: "'s reader \<Rightarrow> bool" where
  "honest rd \<longleftrightarrow> (\<forall>p s. length (fst (fst (rd p s))) \<le> p)"

locale bounded_reader =
  fixes read :: "'s reader"
    and spent :: "'s \<Rightarrow> int"
    and limit :: "'s \<Rightarrow> int"
    and invar :: "'s \<Rightarrow> bool"
  assumes read_step: "invar s \<Longrightarrow> read p s = ((bs, err), s') \<Longrightarrow>
    invar s' \<and> limit s' = limit s \<and> spent s + int (length bs) \<le> spent s'
    \<and> (bs \<noteq> [] \<longrightarrow> spent s' \<le> limit s)"
begin

text \<open>Whatever the sizes asked for, the bytes delivered stay within the limit.\<close>

lemma delivered:
  "invar s \<Longrightarrow> reads read ps s = (bs, s') \<Longrightarrow>
     invar s' \<and> limit s' = limit s \<and> spent s + int (length bs) \<le> spent s'
     \<and> (bs \<noteq> [] \<longrightarrow> spent s + int (length bs) \<le> limit s)"
proof (induction ps arbitrary: s bs)
  case Nil
  then show ?case by simp
next
  case (Cons p ps)
  obtain b err s1 where r: "read p s = ((b, err), s1)" by (metis prod.collapse)
  obtain rest where rest: "reads read ps s1 = (rest, s')" and bs: "bs = b @ rest"
    using Cons.prems(2) r by (auto split: prod.splits)
  note st = read_step [OF Cons.prems(1) r]
  with Cons.IH [OF _ rest] have "invar s'" "limit s' = limit s"
      "spent s1 + int (length rest) \<le> spent s'"
      "rest \<noteq> [] \<longrightarrow> spent s1 + int (length rest) \<le> limit s" by auto
  with st bs show ?case by (cases "rest = []") auto
qed

lemma delivered_bound:
  assumes "invar s" and "spent s \<le> limit s" and "reads read ps s = (bs, s')"
  shows "int (length bs) \<le> limit s - spent s"
  using delivered [OF assms(1,3)] assms(2) by (cases "bs = []") auto

end

interpretation entry_cap: bounded_reader "cappingReader_Read rd" cp_entryRead cp_entryLimit
  "\<lambda>c. cp_entryLimit c > 0" for rd :: "'s reader"
  by unfold_locales
     (auto simp: cappingReader_Read_def Let_def split: option.splits prod.splits if_splits)

interpretation total_cap: bounded_reader "cappingReader_Read rd" cp_total cp_totalLimit
  "\<lambda>c. cp_totalLimit c > 0" for rd :: "'s reader"
  by unfold_locales
     (auto simp: cappingReader_Read_def Let_def split: option.splits prod.splits if_splits)

interpretation decompress_cap: bounded_reader "decompressLimitReader_Read rd" dl_read dl_limit
  "\<lambda>d. dl_limit d \<ge> 0" for rd :: "'s reader"
  by unfold_locales
     (auto simp: decompressLimitReader_Read_def Let_def split: option.splits prod.splits if_splits)

lemma honest_len: "honest rd \<Longrightarrow> rd p s = ((bs, err), s') \<Longrightarrow> length bs \<le> p"
  by (metis honest_def fst_conv)

interpretation record_cap: bounded_reader "cappedRecordReader_Read rd" rr_n rr_limit
  "\<lambda>c. honest rd \<and> rr_armed c \<and> rr_limit c > 0" for rd :: "'s reader"
  by unfold_locales
     (auto simp: cappedRecordReader_Read_def Let_def split: prod.splits if_splits dest!: honest_len)

text \<open>
  C38. No sequence of reads gets more bytes out of an archive entry than the per-entry limit,
  or out of the entries of an archive together than the total limit, or out of a decompressed
  object than the decompression limit, whatever the wrapped reader delivers and however the
  reads are sized; and once a limit has tripped every later read fails with the same error
  and delivers nothing.
\<close>

theorem bomb_limits_hold:
  fixes rd :: "'s reader"
  shows "(cp_entryLimit c > 0 \<and> cp_entryRead c \<le> cp_entryLimit c \<longrightarrow>
            int (length (fst (reads (cappingReader_Read rd) ps c))) \<le> cp_entryLimit c - cp_entryRead c)
       \<and> (cp_totalLimit c > 0 \<and> cp_total c \<le> cp_totalLimit c \<longrightarrow>
            int (length (fst (reads (cappingReader_Read rd) ps c))) \<le> cp_totalLimit c - cp_total c)
       \<and> (dl_limit d \<ge> 0 \<and> dl_read d \<le> dl_limit d \<longrightarrow>
            int (length (fst (reads (decompressLimitReader_Read rd) ps d))) \<le> dl_limit d - dl_read d)
       \<and> (cp_tripped c = Some e \<longrightarrow> cappingReader_Read rd p c = (([], Some e), c))
       \<and> (dl_tripped d = Some e \<longrightarrow> decompressLimitReader_Read rd p d = (([], Some e), d))"
  using entry_cap.delivered_bound [of c rd ps] total_cap.delivered_bound [of c rd ps]
    decompress_cap.delivered_bound [of d rd ps]
  by (cases "reads (cappingReader_Read rd) ps c"; cases "reads (decompressLimitReader_Read rd) ps d")
     (simp add: cappingReader_Read_def decompressLimitReader_Read_def)

text \<open>A reader of a byte list, which delivers what is asked for and then ends.\<close>

definition list_read :: "bytes reader" where
  "list_read p bs = (if bs = [] then (([], Some ErrEOF), []) else ((take p bs, None), drop p bs))"

lemma honest_list_read: "honest list_read"
  by (simp add: honest_def list_read_def)

theorem bomb_limits_hold_witness:
  "int (length (fst (reads (decompressLimitReader_Read list_read) [2, 2, 2]
      \<lparr>dl_r = ''abcdef'', dl_limit = 3, dl_read = 0, dl_tripped = None\<rparr>))) \<le> 3"
  using bomb_limits_hold [where rd = list_read and ps = "[2, 2, 2]"
      and d = "\<lparr>dl_r = ''abcdef'', dl_limit = 3, dl_read = 0, dl_tripped = None\<rparr>"
      and c = "\<lparr>cp_r = [], cp_entryRead = 0, cp_entryLimit = 1, cp_total = 0, cp_totalLimit = 1, cp_tripped = None\<rparr>"
      and e = ErrEOF and p = 0]
  by simp

text \<open>
  While a decode or a skip is armed with a limit, no sequence of reads hands the JSON
  decoder more than that many bytes, so a single huge value is never buffered whole. The
  limit is always positive: the configured maximum when there is one, the hard limit
  otherwise.
\<close>

theorem record_cap_holds:
  assumes "honest rd"
  shows "int (length (fst (reads (cappedRecordReader_Read rd) ps
            (cappedRecordReader_arm (recordSizeLimit m) c)))) \<le> recordSizeLimit m
       \<and> 0 < recordSizeLimit m"
proof -
  have pos: "0 < recordSizeLimit m"
    by (simp add: recordSizeLimit_def maxRecordBytesHardLimit_def split: option.splits)
  obtain bs s' where r: "reads (cappedRecordReader_Read rd) ps
      (cappedRecordReader_arm (recordSizeLimit m) c) = (bs, s')" by fastforce
  have inv: "honest rd \<and> rr_armed (cappedRecordReader_arm (recordSizeLimit m) c)
      \<and> rr_limit (cappedRecordReader_arm (recordSizeLimit m) c) > 0"
    and n0: "rr_n (cappedRecordReader_arm (recordSizeLimit m) c) = 0"
    and lim: "rr_limit (cappedRecordReader_arm (recordSizeLimit m) c) = recordSizeLimit m"
    using assms pos by (simp_all add: cappedRecordReader_arm_def)
  from record_cap.delivered_bound [OF inv _ r] pos show ?thesis
    by (simp add: r n0 lim)
qed

theorem record_cap_holds_witness:
  "int (length (fst (reads (cappedRecordReader_Read list_read) [4, 4, 4]
      (cappedRecordReader_arm (recordSizeLimit (Some 5)) \<lparr>rr_r = ''abcdefgh'', rr_limit = 0, rr_n = 0, rr_armed = False\<rparr>)))) \<le> 5"
  using record_cap_holds [OF honest_list_read, of "[4, 4, 4]" "Some 5"
      "\<lparr>rr_r = ''abcdefgh'', rr_limit = 0, rr_n = 0, rr_armed = False\<rparr>"]
  by (simp add: recordSizeLimit_def)

section \<open>Counting\<close>

lemma counting_reads:
  "reads (countingReader_Read rd) ps r = (bs, r') \<Longrightarrow> cn_offset r' = cn_offset r + int (length bs)"
proof (induction ps arbitrary: r bs)
  case (Cons p ps)
  obtain b err s where r: "rd p (cn_reader r) = ((b, err), s)" by (metis prod.collapse)
  obtain r1 where r1: "countingReader_Read rd p r = ((b, err), r1)"
      and off: "cn_offset r1 = cn_offset r + int (length b)"
    by (cases err) (auto simp: countingReader_Read_def r Let_def)
  obtain rest where "reads (countingReader_Read rd) ps r1 = (rest, r')" and "bs = b @ rest"
    using Cons.prems r1 by (auto split: prod.splits)
  with Cons.IH off show ?case by fastforce
qed simp

text \<open>
  The raw source is reported truncated exactly when the size of the object is known, its
  end was seen, and the reads delivered fewer bytes than the size, whatever their sizes were;
  the offset is the number of bytes delivered.
\<close>

theorem truncation_is_exact:
  assumes "reads (countingReader_Read rd) ps (newCountingReader s) = (bs, r)"
  shows "cn_offset r = int (length bs)
    \<and> (RawTruncated (counting_status sz r) \<longleftrightarrow>
         0 < sz \<and> cn_atEOF r \<and> int (length bs) < sz)"
  using counting_reads [OF assms] by (simp add: newCountingReader_def RawTruncated_def counting_status_def)

theorem truncation_is_exact_witness:
  "RawTruncated (counting_status 9 (snd (reads (countingReader_Read list_read) [4, 4] (newCountingReader ''abc''))))"
proof -
  have "reads (countingReader_Read list_read) [4, 4] (newCountingReader ''abc'')
      = (''abc'', \<lparr>cn_reader = [], cn_offset = 3, cn_readErr = None, cn_atEOF = True\<rparr>)"
    by (simp add: countingReader_Read_def newCountingReader_def list_read_def errors_Is_def Let_def)
  from truncation_is_exact [OF this, of 9] this show ?thesis by simp
qed

end
