(* ===== verification/LineParser.thy ===== *)
theory LineParser
  imports BlobReaders
begin

text \<open>
  The line parser of \<open>internal/blobstream/line_parser.go\<close> over a buffered reader: \<open>readLine\<close>,
  which splits a record longer than \<open>max_log_size\<close>, and \<open>Parse\<close>, which skips to a resume offset
  and yields every non-empty line with the offset behind it.

  The buffered reader is given by the bytes that are left, the error its source reports behind
  them and whether that error comes together with the last bytes or in a read of its own: these
  are all that \<open>bufio.Reader\<close> lets the parser see. \<open>line_events\<close> is the parser as a function of
  the bytes; the loop of the code is proved equal to it, and the properties are proved of it.
  Parsers that can be resumed at the offset of any record are the locale \<open>resumable\<close>.
\<close>

section \<open>The buffered reader\<close>

abbreviation (input) LF :: char where "LF \<equiv> CHR 0x0A"
abbreviation (input) CR :: char where "CR \<equiv> CHR 0x0D"

record bufferedReader =
  br_rest :: bytes
  br_offset :: int
  br_bufSize :: int
  br_end :: go_error
  br_endWithLast :: bool
  br_lastByte :: "char option"

definition NewBufferedReader :: "bytes \<Rightarrow> go_error \<Rightarrow> bool \<Rightarrow> int \<Rightarrow> bufferedReader" where
  "NewBufferedReader s e wl bufferSize =
     \<lparr>br_rest = s, br_offset = 0, br_bufSize = bufferSize, br_end = e, br_endWithLast = wl,
      br_lastByte = None\<rparr>"

text \<open>The length of the buffer, which \<open>bufio.NewReaderSize\<close> makes at least 16.\<close>

definition buf_len :: "int \<Rightarrow> nat" where
  "buf_len bufSize = nat (max 16 bufSize)"

lemma buf_len_ge: "16 \<le> buf_len b"
  by (simp add: buf_len_def)

definition br_advance :: "nat \<Rightarrow> bufferedReader \<Rightarrow> bufferedReader" where
  "br_advance n r =
     r\<lparr>br_rest := drop n (br_rest r), br_offset := br_offset r + int n,
       br_lastByte := (if n = 0 \<or> br_rest r = [] then br_lastByte r else Some (last (take n (br_rest r))))\<rparr>"

definition bufferedReader_ReadSlice ::
    "char \<Rightarrow> bufferedReader \<Rightarrow> (bytes \<times> go_error option) \<times> bufferedReader" where
  "bufferedReader_ReadSlice delim r =
     (let w = take (buf_len (br_bufSize r)) (br_rest r);
          n = length (takeWhile (\<lambda>c. c \<noteq> delim) w)
      in if n < length w then ((take (Suc n) (br_rest r), None), br_advance (Suc n) r)
         else if length (br_rest r) < buf_len (br_bufSize r)
               \<or> br_endWithLast r \<and> length (br_rest r) = buf_len (br_bufSize r)
         then ((br_rest r, Some (br_end r)), br_advance (length (br_rest r)) r)
         else ((w, Some ErrBufferFull), br_advance (buf_len (br_bufSize r)) r))"

definition bufferedReader_UnreadByte :: "bufferedReader \<Rightarrow> go_error option \<times> bufferedReader" where
  "bufferedReader_UnreadByte r =
     (case br_lastByte r of
        None \<Rightarrow> (Some (ErrOther ''bufio: invalid use of UnreadByte''), r)
      | Some c \<Rightarrow> (None, r\<lparr>br_rest := c # br_rest r, br_offset := br_offset r - 1, br_lastByte := None\<rparr>))"

definition bufferedReader_Offset :: "bufferedReader \<Rightarrow> int" where
  "bufferedReader_Offset r = br_offset r"

text \<open>\<open>io.CopyN(io.Discard, r, n)\<close>.\<close>

definition discardN :: "int \<Rightarrow> bufferedReader \<Rightarrow> go_error option \<times> bufferedReader" where
  "discardN n r =
     (if n \<le> int (length (br_rest r)) then (None, br_advance (nat n) r)
      else (Some (br_end r), br_advance (length (br_rest r)) r))"

section \<open>The parser\<close>

definition trimLineEnding :: "bytes \<Rightarrow> bytes" where
  "trimLineEnding line =
     (if length line > 0 \<and> line ! (length line - 1) = LF then
        (let d = (if length line > 1 \<and> line ! (length line - 2) = CR then 2 else 1)
         in take (length line - d) line)
      else line)"

definition readLine :: "bufferedReader \<Rightarrow> (bytes \<times> bool \<times> go_error option) \<times> bufferedReader" where
  "readLine r =
     (case bufferedReader_ReadSlice LF r of
        ((line, err), r1) \<Rightarrow>
          (case err of
             None \<Rightarrow> ((trimLineEnding line, False, None), r1)
           | Some e \<Rightarrow>
               if errors_Is e ErrBufferFull then
                 (if length line > 0 \<and> line ! (length line - 1) = CR then
                    (case bufferedReader_UnreadByte r1 of
                       (Some ue, r2) \<Rightarrow> (([], False, Some ue), r2)
                     | (None, r2) \<Rightarrow> ((take (length line - 1) line, True, None), r2))
                  else ((line, True, None), r1))
               else if errors_Is e ErrEOF \<and> length line > 0 then
                 ((if line ! (length line - 1) = CR then take (length line - 1) line else line,
                   False, Some e), r1)
               else (([], False, Some e), r1)))"

text \<open>
  The sequence \<open>Parse\<close> returns, with \<open>Offset()\<close> as the consumer sees it when an item is yielded,
  and the offset once the sequence has ended. A consumer that stops takes a prefix. The value
  \<open>None\<close> is a loop that never ends.
\<close>

type_synonym parse_item = "(go_error + bytes) \<times> int"

partial_function (option) parse_loop ::
    "raw_status \<Rightarrow> int \<Rightarrow> bufferedReader \<Rightarrow> (parse_item list \<times> int) option" where
  "parse_loop raw off r =
     (case readLine r of
        ((lineBytes, pfx, err), r1) \<Rightarrow>
          (case err of
             Some e \<Rightarrow>
               if errors_Is e ErrEOF then
                 (if raw_readErr raw \<noteq> None \<or> RawTruncated raw
                  then Some ([(Inl (classifyReadFailure raw ErrUnexpectedEOF), off)], off)
                  else if length lineBytes > 0
                  then Some ([(Inr lineBytes, bufferedReader_Offset r1)], bufferedReader_Offset r1)
                  else Some ([], off))
               else Some ([(Inl (classifyReadFailure raw e), off)], off)
           | None \<Rightarrow>
               Option.bind (parse_loop raw (bufferedReader_Offset r1) r1)
                 (\<lambda>(items, fin).
                    Some ((if length lineBytes > 0 then [(Inr lineBytes, bufferedReader_Offset r1)] else [])
                            @ items, fin))))"

definition lineParser_Parse ::
    "raw_status \<Rightarrow> bufferedReader \<Rightarrow> int \<Rightarrow> (go_error + parse_item list \<times> int) option" where
  "lineParser_Parse raw r startOffset =
     (case discardN startOffset r of
        (Some e, r1) \<Rightarrow>
          Some (Inl (classifyReadFailure raw (if errors_Is e ErrEOF then ErrUnexpectedEOF else e)))
      | (None, r1) \<Rightarrow> map_option Inr (parse_loop raw (bufferedReader_Offset r1) r1))"

lemmas line_parser_defs [model_defs] =
  NewBufferedReader_def buf_len_def br_advance_def bufferedReader_ReadSlice_def
  bufferedReader_UnreadByte_def bufferedReader_Offset_def discardN_def trimLineEnding_def
  readLine_def lineParser_Parse_def

section \<open>The parser as a function of the bytes\<close>

definition strip_cr :: "bytes \<Rightarrow> bytes" where
  "strip_cr u = (if u \<noteq> [] \<and> last u = CR then butlast u else u)"

text \<open>The next record and the bytes it takes up, or \<open>None\<close> at the end of the stream.\<close>

definition next_line :: "nat \<Rightarrow> bool \<Rightarrow> bytes \<Rightarrow> (bytes \<times> nat) option" where
  "next_line n wl s =
     (let w = take n s; u = takeWhile (\<lambda>c. c \<noteq> LF) w
      in if length u < length w then Some (strip_cr u, Suc (length u))
         else if length s < n \<or> wl \<and> length s = n then None
         else if last w = CR then Some (butlast w, n - 1) else Some (w, n))"

definition line_tail :: "raw_status \<Rightarrow> go_error \<Rightarrow> int \<Rightarrow> bytes \<Rightarrow> parse_item list \<times> int" where
  "line_tail raw e off s =
     (if errors_Is e ErrEOF then
        (if raw_readErr raw \<noteq> None \<or> RawTruncated raw
         then ([(Inl (classifyReadFailure raw ErrUnexpectedEOF), off)], off)
         else if strip_cr s \<noteq> [] then ([(Inr (strip_cr s), off + int (length s))], off + int (length s))
         else ([], off))
      else ([(Inl (classifyReadFailure raw e), off)], off))"

lemma next_line_consumes:
  assumes "next_line n wl s = Some (l, k)" and "2 \<le> n"
  shows "0 < k" and "k \<le> length s"
  using assms by (auto simp: next_line_def Let_def split: if_splits)

function line_events :: "raw_status \<Rightarrow> go_error \<Rightarrow> int \<Rightarrow> bool \<Rightarrow> int \<Rightarrow> bytes \<Rightarrow> parse_item list \<times> int" where
  "line_events raw e b wl off s =
     (case next_line (buf_len b) wl s of
        None \<Rightarrow> line_tail raw e off s
      | Some (l, k) \<Rightarrow>
          (case line_events raw e b wl (off + int k) (drop k s) of
             (items, fin) \<Rightarrow> ((if l = [] then [] else [(Inr l, off + int k)]) @ items, fin)))"
  by pat_completeness auto
termination
proof (relation "measure (\<lambda>(raw, e, b, wl, off, s). length s)", goal_cases)
  case (2 raw e b wl off s x l k)
  then show ?case
    using next_line_consumes [of "buf_len b" wl s l k] buf_len_ge [of b] by simp
qed simp

declare line_events.simps [simp del]

section \<open>The loop is the function\<close>

lemma trimLineEnding_snoc: "trimLineEnding (u @ [LF]) = strip_cr u"
proof (cases u rule: rev_cases)
  case Nil
  then show ?thesis by (simp add: trimLineEnding_def strip_cr_def)
next
  case (snoc v c)
  then show ?thesis by (simp add: trimLineEnding_def strip_cr_def nth_append)
qed

lemma strip_cr_nth:
  "u \<noteq> [] \<Longrightarrow> (if u ! (length u - 1) = CR then take (length u - 1) u else u) = strip_cr u"
  by (simp add: strip_cr_def last_conv_nth butlast_conv_take)

lemma take_Suc_takeWhile:
  assumes "length (takeWhile (\<lambda>c. c \<noteq> x) w) < length w"
  shows "take (Suc (length (takeWhile (\<lambda>c. c \<noteq> x) w))) w = takeWhile (\<lambda>c. c \<noteq> x) w @ [x]"
  using assms nth_length_takeWhile [OF assms]
  by (simp add: take_Suc_conv_app_nth takeWhile_eq_take [symmetric])

lemma br_advance_simps [simp]:
  "br_rest (br_advance n r) = drop n (br_rest r)"
  "br_offset (br_advance n r) = br_offset r + int n"
  "br_bufSize (br_advance n r) = br_bufSize r"
  "br_end (br_advance n r) = br_end r"
  "br_endWithLast (br_advance n r) = br_endWithLast r"
  by (simp_all add: br_advance_def)

lemma readLine_some:
  assumes "next_line (buf_len (br_bufSize r)) (br_endWithLast r) (br_rest r) = Some (l, k)"
  obtains p r' where "readLine r = ((l, p, None), r')"
    "br_rest r' = drop k (br_rest r)" "br_offset r' = br_offset r + int k"
    "br_bufSize r' = br_bufSize r" "br_end r' = br_end r" "br_endWithLast r' = br_endWithLast r"
proof -
  let ?n = "buf_len (br_bufSize r)" and ?s = "br_rest r"
  let ?u = "takeWhile (\<lambda>c. c \<noteq> LF) (take ?n ?s)"
  have n: "16 \<le> ?n" by (rule buf_len_ge)
  show thesis
  proof (cases "length ?u < length (take ?n ?s)")
    case True
    have "Suc (length ?u) \<le> ?n" using True by simp
    then have "take (Suc (length ?u)) ?s = take (Suc (length ?u)) (take ?n ?s)" by (simp add: min_absorb1)
    also have "\<dots> = ?u @ [LF]" using True by (rule take_Suc_takeWhile)
    finally have line: "take (Suc (length ?u)) ?s = ?u @ [LF]" .
    have "bufferedReader_ReadSlice LF r = ((?u @ [LF], None), br_advance (Suc (length ?u)) r)"
      using True line by (simp add: bufferedReader_ReadSlice_def Let_def)
    moreover have "l = strip_cr ?u" "k = Suc (length ?u)"
      using assms True by (auto simp: next_line_def Let_def)
    ultimately show thesis
      by (intro that [of False "br_advance k r"]) (simp_all add: readLine_def trimLineEnding_snoc)
  next
    case False
    then have len: "\<not> (length ?s < ?n \<or> br_endWithLast r \<and> length ?s = ?n)"
      using assms by (auto simp: next_line_def Let_def)
    then have full: "bufferedReader_ReadSlice LF r = ((take ?n ?s, Some ErrBufferFull), br_advance ?n r)"
      using False by (auto simp: bufferedReader_ReadSlice_def Let_def)
    have w: "take ?n ?s \<noteq> []" "length (take ?n ?s) = ?n" "?s \<noteq> []" using len n by auto
    have lst: "take ?n ?s ! (?n - 1) = last (take ?n ?s)" using w by (simp add: last_conv_nth)
    show thesis
    proof (cases "last (take ?n ?s) = CR")
      case True
      have lk: "l = butlast (take ?n ?s)" "k = ?n - 1"
        using assms False len True by (auto simp: next_line_def Let_def)
      have drop1: "drop (?n - 1) ?s = CR # drop ?n ?s"
        using Cons_nth_drop_Suc [of "?n - 1" ?s] w n len lst True by auto
      show thesis
        by (rule that [of True "(br_advance ?n r)\<lparr>br_rest := CR # drop ?n ?s,
              br_offset := br_offset r + int ?n - 1, br_lastByte := None\<rparr>"])
           (use full w lst True lk n in
             \<open>simp_all add: readLine_def errors_Is_def bufferedReader_UnreadByte_def br_advance_def
                butlast_conv_take min_absorb1 drop1 [symmetric] of_nat_diff\<close>)
    next
      case no_cr: False
      have "l = take ?n ?s" "k = ?n"
        using assms False len no_cr by (auto simp: next_line_def Let_def)
      with full w lst no_cr n show thesis
        by (intro that [of True "br_advance ?n r"]) (simp_all add: readLine_def errors_Is_def)
    qed
  qed
qed

lemma readLine_none:
  assumes "next_line (buf_len (br_bufSize r)) (br_endWithLast r) (br_rest r) = None"
    and "\<not> errors_Is (br_end r) ErrBufferFull"
  shows "readLine r =
    ((if errors_Is (br_end r) ErrEOF then strip_cr (br_rest r) else [], False, Some (br_end r)),
     br_advance (length (br_rest r)) r)"
proof -
  have "bufferedReader_ReadSlice LF r = ((br_rest r, Some (br_end r)), br_advance (length (br_rest r)) r)"
    using assms(1) by (auto simp: next_line_def bufferedReader_ReadSlice_def Let_def split: if_splits)
  with assms(2) strip_cr_nth [of "br_rest r"] show ?thesis
    by (auto simp: readLine_def strip_cr_def)
qed

lemma parse_loop_events:
  assumes "\<not> errors_Is (br_end r) ErrBufferFull"
  shows "parse_loop raw (br_offset r) r =
    Some (line_events raw (br_end r) (br_bufSize r) (br_endWithLast r) (br_offset r) (br_rest r))"
  using assms
proof (induction "length (br_rest r)" arbitrary: r rule: less_induct)
  case less
  show ?case
  proof (cases "next_line (buf_len (br_bufSize r)) (br_endWithLast r) (br_rest r)")
    case None
    show ?thesis
      by (subst parse_loop.simps, subst line_events.simps)
         (simp add: readLine_none [OF None less.prems] None line_tail_def bufferedReader_Offset_def)
  next
    case (Some lk)
    obtain l k where lk: "lk = (l, k)" by fastforce
    obtain p r' where r': "readLine r = ((l, p, None), r')" "br_rest r' = drop k (br_rest r)"
        "br_offset r' = br_offset r + int k" "br_bufSize r' = br_bufSize r" "br_end r' = br_end r"
        "br_endWithLast r' = br_endWithLast r"
      using readLine_some [OF Some [unfolded lk]] .
    have "2 \<le> buf_len (br_bufSize r)" using buf_len_ge [of "br_bufSize r"] by simp
    from next_line_consumes [OF Some [unfolded lk] this] have "length (br_rest r') < length (br_rest r)"
      by (simp add: r')
    from less.hyps [OF this] less.prems have ih: "parse_loop raw (br_offset r') r' =
        Some (line_events raw (br_end r) (br_bufSize r) (br_endWithLast r) (br_offset r') (drop k (br_rest r)))"
      by (simp add: r')
    show ?thesis
      by (subst parse_loop.simps, subst line_events.simps)
         (simp add: r'(1) Some lk ih bufferedReader_Offset_def r'(3)[symmetric] split: prod.splits)
  qed
qed

section \<open>Parsers that can be resumed\<close>

text \<open>
  What a worker needs of a parser: the offset that goes with a record restarts the parser right
  behind this record. \<open>restarts\<close> is a worker that is stopped and restarted any number of times:
  in each run it handles the items up to the given one and saves the offset of that one.
\<close>

fun restarts ::
    "('src \<Rightarrow> int \<Rightarrow> (go_error + ((go_error + 'r) \<times> int) list \<times> int) option) \<Rightarrow> 'src \<Rightarrow> int \<Rightarrow> nat list
       \<Rightarrow> ((go_error + 'r) \<times> int) list option" where
  "restarts parse src start [] =
     (case parse src start of Some (Inr (items, fin)) \<Rightarrow> Some items | _ \<Rightarrow> None)"
| "restarts parse src start (n # ns) =
     (case parse src start of
        Some (Inr (items, fin)) \<Rightarrow>
          (case (if n < length items then Some (items ! n) else None) of
             Some (Inr x, p) \<Rightarrow> map_option (\<lambda>rest. take (Suc n) items @ rest) (restarts parse src p ns)
           | _ \<Rightarrow> Some items)
      | _ \<Rightarrow> None)"

locale resumable =
  fixes parse :: "'src \<Rightarrow> int \<Rightarrow> (go_error + ((go_error + 'r) \<times> int) list \<times> int) option"
    and valid :: "'src \<Rightarrow> bool"
  assumes resume: "valid src \<Longrightarrow> parse src start = Some (Inr (xs @ (Inr x, p) # ys, fin)) \<Longrightarrow>
    parse src p = Some (Inr (ys, fin))"
begin

lemma restarts_exact:
  assumes "valid src" and "parse src start = Some (Inr (items, fin))"
  shows "restarts parse src start ns = Some items"
  using assms(2)
proof (induction ns arbitrary: start items)
  case (Cons n ns)
  show ?case
  proof (cases "n < length items")
    case True
    obtain it p where it: "items ! n = (it, p)" by fastforce
    show ?thesis
    proof (cases it)
      case (Inr x)
      have split: "items = take n items @ (Inr x, p) # drop (Suc n) items"
        using id_take_nth_drop [OF True] it Inr by simp
      have "parse src start = Some (Inr (take n items @ (Inr x, p) # drop (Suc n) items, fin))"
        using Cons.prems split by simp
      from resume [OF assms(1) this] have "parse src p = Some (Inr (drop (Suc n) items, fin))" .
      from Cons.IH [OF this] Cons.prems True it Inr show ?thesis by simp
    qed (use Cons.prems True it in simp)
  qed (use Cons.prems in simp)
qed simp

end

lemma next_line_nil: "next_line (buf_len b) wl [] = None"
  using buf_len_ge [of b] by (simp add: next_line_def)

lemma line_events_nil: "line_events raw e b wl off [] = line_tail raw e off []"
  by (subst line_events.simps) (simp add: next_line_nil)

lemma line_events_resume:
  "line_events raw e b wl off s = (xs @ (Inr x, p) # ys, fin) \<Longrightarrow>
     \<exists>k\<le>length s. p = off + int k \<and> line_events raw e b wl p (drop k s) = (ys, fin)"
proof (induction "length s" arbitrary: s off xs rule: less_induct)
  case less
  show ?case
  proof (cases "next_line (buf_len b) wl s")
    case None
    then have t: "line_tail raw e off s = (xs @ (Inr x, p) # ys, fin)"
      using less.prems by (simp add: line_events.simps [of raw e b wl off s])
    have "p = off + int (length s) \<and> ys = [] \<and> fin = p \<and> errors_Is e ErrEOF
        \<and> raw_readErr raw = None \<and> \<not> RawTruncated raw"
      using t by (auto simp: line_tail_def Cons_eq_append_conv split: if_splits)
    then show ?thesis
      by (intro exI [of _ "length s"]) (simp add: line_events_nil line_tail_def strip_cr_def)
  next
    case (Some lk)
    obtain l k where lk: "lk = (l, k)" by fastforce
    have k: "0 < k" "k \<le> length s"
      using next_line_consumes [OF Some [unfolded lk]] buf_len_ge [of b] by auto
    obtain items where rest: "line_events raw e b wl (off + int k) (drop k s) = (items, fin)"
      and it: "xs @ (Inr x, p) # ys = (if l = [] then [] else [(Inr l, off + int k)]) @ items"
      using less.prems Some lk by (subst (asm) line_events.simps) (auto split: prod.splits)
    show ?thesis
    proof (cases "l \<noteq> [] \<and> xs = []")
      case True
      with it have "p = off + int k" "ys = items" by auto
      with rest k show ?thesis by (intro exI [of _ k]) auto
    next
      case False
      then obtain xs' where "items = xs' @ (Inr x, p) # ys"
        using it by (cases xs) (auto split: if_splits)
      moreover have "length (drop k s) < length s" using k by simp
      ultimately obtain j where
        "j \<le> length (drop k s)" "p = off + int k + int j"
        "line_events raw e b wl p (drop j (drop k s)) = (ys, fin)"
        using less.hyps rest by blast
      with k show ?thesis by (intro exI [of _ "k + j"]) (auto simp: add.commute)
    qed
  qed
qed

definition fresh_reader :: "bufferedReader \<Rightarrow> bool" where
  "fresh_reader r = (br_offset r = 0 \<and> \<not> errors_Is (br_end r) ErrBufferFull)"

lemma lineParser_Parse_eq:
  assumes "fresh_reader r"
  shows "lineParser_Parse raw r start =
    Some (if start \<le> int (length (br_rest r))
          then Inr (line_events raw (br_end r) (br_bufSize r) (br_endWithLast r) (int (nat start))
                      (drop (nat start) (br_rest r)))
          else Inl (classifyReadFailure raw
                 (if errors_Is (br_end r) ErrEOF then ErrUnexpectedEOF else br_end r)))"
proof (cases "start \<le> int (length (br_rest r))")
  case True
  have "parse_loop raw (br_offset (br_advance (nat start) r)) (br_advance (nat start) r) =
      Some (line_events raw (br_end r) (br_bufSize r) (br_endWithLast r) (int (nat start))
              (drop (nat start) (br_rest r)))"
    using parse_loop_events [of "br_advance (nat start) r" raw] assms by (simp add: fresh_reader_def)
  with True assms show ?thesis
    by (simp add: lineParser_Parse_def discardN_def bufferedReader_Offset_def fresh_reader_def)
qed (simp add: lineParser_Parse_def discardN_def)

interpretation line: resumable "lineParser_Parse raw" fresh_reader for raw :: raw_status
proof unfold_locales
  fix src :: bufferedReader and start xs x p ys fin
  assume v: "fresh_reader src" and q: "lineParser_Parse raw src start = Some (Inr (xs @ (Inr x, p) # ys, fin))"
  let ?ev = "line_events raw (br_end src) (br_bufSize src) (br_endWithLast src)"
  from q have st: "start \<le> int (length (br_rest src))"
    and ev: "?ev (int (nat start)) (drop (nat start) (br_rest src)) = (xs @ (Inr x, p) # ys, fin)"
    by (auto simp: lineParser_Parse_eq [OF v] split: if_splits)
  obtain k where k: "k \<le> length (br_rest src) - nat start" "p = int (nat start) + int k"
      "?ev p (drop k (drop (nat start) (br_rest src))) = (ys, fin)"
    using line_events_resume [OF ev] by auto
  moreover from st k have "p \<le> int (length (br_rest src))" "nat p = k + nat start" "int (nat p) = p" by auto
  ultimately have "?ev (int (nat p)) (drop (nat p) (br_rest src)) = (ys, fin)"
    by (simp only: drop_drop)
  with \<open>p \<le> int (length (br_rest src))\<close> show "lineParser_Parse raw src p = Some (Inr (ys, fin))"
    by (simp only: lineParser_Parse_eq [OF v] if_True)
qed

text \<open>
  C13. A worker that is stopped and restarted any number of times, each time from the offset of
  the last record it handled, sees exactly the items of an uninterrupted parse of the object:
  no record is lost, none is delivered twice and none is cut differently, also for records
  split at \<open>max_log_size\<close> and for objects that end in an error.
\<close>

theorem line_restarts_exact:
  assumes "fresh_reader r" and "lineParser_Parse raw r start = Some (Inr (items, fin))"
  shows "restarts (lineParser_Parse raw) r start ns = Some items"
  using assms by (rule line.restarts_exact)

section \<open>What the records are\<close>

text \<open>
  The lines a text is cut into: each piece is a record with the line ending that was taken off,
  and \<open>cuts\<close> says which these are. A record holds no line feed and fits the buffer with its ending;
  the ending is CRLF, or a line feed alone, and then the record does not end in a carriage return.
  A record without an ending fills the buffer, up to a carriage return that is left to the next
  piece, in front of a line feed or not; only the last piece of the text may be shorter, and then
  its ending is a carriage return or nothing.
\<close>

definition ends_cr :: "bytes \<Rightarrow> bool" where
  "ends_cr l = (l \<noteq> [] \<and> last l = CR)"

fun cuts :: "nat \<Rightarrow> bytes \<Rightarrow> (bytes \<times> bytes) list \<Rightarrow> bool" where
  "cuts n s [] = (s = [])"
| "cuts n s ((l, e) # ps) =
     (let t = drop (length l + length e) s
      in s = l @ e @ t \<and> s \<noteq> [] \<and> LF \<notin> set l \<and> length l + length e \<le> n
       \<and> (e = [CR, LF] \<or> e = [LF] \<and> \<not> ends_cr l
          \<or> e = [] \<and> \<not> ends_cr l \<and> length l = n
          \<or> e = [] \<and> length l = n - 1 \<and> t \<noteq> [] \<and> hd t = CR
          \<or> t = [] \<and> (e = [] \<and> \<not> ends_cr l \<or> e = [CR]))
       \<and> cuts n t ps)"

text \<open>The items of these pieces: the records that are not empty, each with the offset behind its piece.\<close>

fun piece_items :: "int \<Rightarrow> (bytes \<times> bytes) list \<Rightarrow> parse_item list" where
  "piece_items off [] = []"
| "piece_items off ((l, e) # ps) =
     (let k = off + int (length l + length e)
      in (if l = [] then [] else [(Inr l, k)]) @ piece_items k ps)"

lemma strip_cr_split: "strip_cr u @ (if ends_cr u then [CR] else []) = u"
  by (auto simp: strip_cr_def ends_cr_def) (metis append_butlast_last_id)

lemma strip_cr_same: "\<not> ends_cr u \<Longrightarrow> strip_cr u = u"
  by (auto simp: strip_cr_def ends_cr_def)

lemma set_strip_cr: "set (strip_cr u) \<subseteq> set u"
  by (auto simp: strip_cr_def dest: in_set_butlastD)

lemma no_lf_takeWhile: "LF \<notin> set (takeWhile (\<lambda>c. c \<noteq> LF) w)"
  by (auto dest: set_takeWhileD)

lemma next_line_cut:
  assumes "next_line n wl s = Some (l, k)" and "2 \<le> n" and "cuts n (drop k s) ps"
  shows "\<exists>e. cuts n s ((l, e) # ps) \<and> k = length l + length e"
proof -
  let ?w = "take n s" let ?u = "takeWhile (\<lambda>c. c \<noteq> LF) ?w"
  show ?thesis
  proof (cases "length ?u < length ?w")
    case True
    then have lk: "l = strip_cr ?u" "k = Suc (length ?u)" and k: "k \<le> n" "k \<le> length s"
      using assms(1) by (auto simp: next_line_def Let_def)
    let ?e = "(if ends_cr ?u then [CR] else []) @ [LF]"
    have tk: "take k s = ?u @ [LF]" using take_Suc_takeWhile [OF True] k lk(2) by (simp add: min_absorb1)
    have le: "l @ ?e = take k s" using strip_cr_split [of ?u] tk lk(1) by (metis append_assoc)
    have len: "length l + length ?e = k" using le k by (metis length_append length_take min_absorb2)
    have "s = l @ ?e @ drop k s" using le by (metis append_assoc append_take_drop_id)
    moreover have "LF \<notin> set l" using no_lf_takeWhile set_strip_cr [of ?u] lk(1) by blast
    moreover have "\<not> ends_cr ?u \<Longrightarrow> \<not> ends_cr l" using lk(1) by (simp add: strip_cr_same)
    ultimately have "cuts n s ((l, ?e) # ps)"
      using len k assms(3) by (auto simp: Let_def)
    with len show ?thesis by metis
  next
    case False
    then have len: "n \<le> length s" and lk: "(l, k) = (if last ?w = CR then (butlast ?w, n - 1) else (?w, n))"
      using assms(1) by (auto simp: next_line_def Let_def split: if_splits)
    have u: "?u = ?w" using False by (metis le_neq_implies_less length_takeWhile_le takeWhile_eq_take take_all_iff linorder_not_less)
    then have no: "LF \<notin> set ?w" by (metis no_lf_takeWhile)
    have w: "?w \<noteq> []" "length ?w = n" using len assms(2) by auto
    show ?thesis
    proof (cases "last ?w = CR")
      case True
      with lk have l: "l = butlast ?w" "k = n - 1" by auto
      have tk: "l = take k s" using l len by (simp add: butlast_take)
      have "s ! k = CR" using True w len assms(2) by (simp add: l last_conv_nth)
      moreover have "k < length s" using l len assms(2) by simp
      ultimately have "drop k s \<noteq> []" "hd (drop k s) = CR" by (simp_all add: hd_drop_conv_nth)
      moreover have "LF \<notin> set l" using no l(1) by (auto dest: in_set_butlastD)
      moreover have "length l = k" "s = l @ drop k s" using tk \<open>k < length s\<close> by auto
      ultimately have "cuts n s ((l, []) # ps)" using l assms(2,3) by (auto simp: Let_def)
      with \<open>length l = k\<close> show ?thesis by (intro exI [of _ "[]"]) simp
    next
      case no_cr: False
      with lk have l: "l = ?w" "k = n" by auto
      then have "length l = k" "s = l @ drop k s" using w by auto
      then have "cuts n s ((l, []) # ps)"
        using l w no no_cr assms(2,3) len by (auto simp: Let_def ends_cr_def)
      with \<open>length l = k\<close> show ?thesis by (intro exI [of _ "[]"]) simp
    qed
  qed
qed

lemma tail_cut:
  assumes "next_line n wl s = None"
  shows "\<exists>ps. cuts n s ps \<and> ps = (if s = [] then [] else [(strip_cr s, if ends_cr s then [CR] else [])])"
proof (cases "s = []")
  case False
  have len: "length s \<le> n" and u: "\<not> length (takeWhile (\<lambda>c. c \<noteq> LF) s) < length s"
    using assms by (auto simp: next_line_def Let_def split: if_splits)
  then have "takeWhile (\<lambda>c. c \<noteq> LF) s = s"
    by (metis le_neq_implies_less length_takeWhile_le takeWhile_eq_take take_all_iff linorder_not_less)
  then have "LF \<notin> set s" by (metis no_lf_takeWhile)
  then have "LF \<notin> set (strip_cr s)" using set_strip_cr [of s] by blast
  moreover have "strip_cr s @ (if ends_cr s then [CR] else []) = s" by (rule strip_cr_split)
  moreover from this have "length (strip_cr s) + length (if ends_cr s then [CR] else []) = length s"
    by (metis length_append)
  ultimately show ?thesis using len False by (auto simp: Let_def strip_cr_same)
qed simp

definition clean_end :: "raw_status \<Rightarrow> bufferedReader \<Rightarrow> bool" where
  "clean_end raw r = (errors_Is (br_end r) ErrEOF \<and> raw_readErr raw = None \<and> \<not> RawTruncated raw)"

lemma line_events_cuts:
  assumes "errors_Is e ErrEOF" "raw_readErr raw = None" "\<not> RawTruncated raw"
  shows "line_events raw e b wl off s = (items, fin) \<Longrightarrow>
     \<exists>ps. cuts (buf_len b) s ps \<and> items = piece_items off ps"
proof (induction "length s" arbitrary: s off items rule: less_induct)
  case less
  show ?case
  proof (cases "next_line (buf_len b) wl s")
    case None
    have "line_tail raw e off s = (items, fin)"
      using less.prems None by (simp add: line_events.simps [of raw e b wl off s])
    moreover have "length (strip_cr s) + length (if ends_cr s then [CR] else []) = length s"
      by (metis strip_cr_split length_append)
    ultimately have "items = piece_items off (if s = [] then [] else [(strip_cr s, if ends_cr s then [CR] else [])])"
      using assms by (auto simp: line_tail_def Let_def strip_cr_def split: if_splits)
    with tail_cut [OF None] show ?thesis by blast
  next
    case (Some lk)
    obtain l k where lk: "lk = (l, k)" by fastforce
    have n: "2 \<le> buf_len b" using buf_len_ge [of b] by simp
    note k = next_line_consumes [OF Some [unfolded lk] n]
    obtain items' where rest: "line_events raw e b wl (off + int k) (drop k s) = (items', fin)"
      and it: "items = (if l = [] then [] else [(Inr l, off + int k)]) @ items'"
      using less.prems Some lk by (subst (asm) line_events.simps) (auto split: prod.splits)
    have "length (drop k s) < length s" using k by simp
    from less.hyps [OF this rest] obtain ps where
      ps: "cuts (buf_len b) (drop k s) ps" "items' = piece_items (off + int k) ps" by blast
    from next_line_cut [OF Some [unfolded lk] n ps(1)] obtain ending where
      "cuts (buf_len b) s ((l, ending) # ps)" "k = length l + length ending" by blast
    then show ?thesis using it ps(2) by (intro exI [of _ "(l, ending) # ps"]) (simp add: Let_def)
  qed
qed

text \<open>
  C15. The parse of an object whose download ended normally and in full, from an offset within
  it, ends. The text behind the offset is cut into pieces, every byte of it in exactly one: a
  record, at most as long as the configured size (at least 16 bytes), and a line ending, CRLF
  or a line feed; only a record that fills the buffer has none, and the last one may end in a
  carriage return or in nothing. The items are the records that are not empty, in order and
  each with the offset behind its piece; a carriage return within a line stays in its record.
\<close>

theorem line_parse_complete:
  assumes "fresh_reader r" and "clean_end raw r" and "0 \<le> start" and "start \<le> int (length (br_rest r))"
  shows "\<exists>pieces fin. cuts (nat (max 16 (br_bufSize r))) (drop (nat start) (br_rest r)) pieces
    \<and> lineParser_Parse raw r start = Some (Inr (piece_items start pieces, fin))"
proof -
  obtain items fin where ev: "line_events raw (br_end r) (br_bufSize r) (br_endWithLast r) start
      (drop (nat start) (br_rest r)) = (items, fin)" by fastforce
  from line_events_cuts [OF _ _ _ ev] assms(2) ev assms(3,4) show ?thesis
    by (auto simp: lineParser_Parse_eq [OF assms(1)] clean_end_def buf_len_def)
qed

text \<open>The lines of a text, the last one without its line feed.\<close>

fun split_lf :: "bytes \<Rightarrow> bytes list" where
  "split_lf [] = [[]]"
| "split_lf (c # s) =
     (if c = LF then [] # split_lf s
      else (case split_lf s of l # ls \<Rightarrow> (c # l) # ls | [] \<Rightarrow> [[c]]))"

lemma split_lf_nonempty: "split_lf s \<noteq> []"
  by (cases s) (auto split: list.splits)

lemma split_lf_no_lf: "LF \<notin> set s \<Longrightarrow> split_lf s = [s]"
  by (induction s) auto

lemma split_lf_append: "LF \<notin> set u \<Longrightarrow> split_lf (u @ LF # s) = u # split_lf s"
  by (induction u) auto

lemma split_first_lf:
  assumes "LF \<in> set s"
  obtains u t where "s = u @ LF # t" "LF \<notin> set u"
  using split_list_first [OF assms] that by blast

lemma line_events_lines:
  assumes "errors_Is e ErrEOF" "raw_readErr raw = None" "\<not> RawTruncated raw"
    and "\<forall>l\<in>set (split_lf s). length l < buf_len b"
  shows "map fst (fst (line_events raw e b wl off s)) =
    map Inr (filter (\<lambda>l. l \<noteq> []) (map strip_cr (split_lf s)))"
  using assms(4)
proof (induction "length s" arbitrary: s off rule: less_induct)
  case less
  let ?n = "buf_len b"
  show ?case
  proof (cases "LF \<in> set s")
    case False
    then have sp: "split_lf s = [s]" by (rule split_lf_no_lf)
    from less.prems sp have "length s < ?n" by simp
    have tw: "takeWhile (\<lambda>c. c \<noteq> LF) s = s" using False by (auto simp: takeWhile_eq_all_conv)
    have "next_line ?n wl s = None" using \<open>length s < ?n\<close> by (simp add: next_line_def Let_def tw)
    then show ?thesis
      using assms(1-3) by (subst line_events.simps) (auto simp: line_tail_def sp)
  next
    case True
    then obtain u t where s: "s = u @ LF # t" and u: "LF \<notin> set u" by (rule split_first_lf)
    have sp: "split_lf s = u # split_lf t" using u by (simp add: s split_lf_append)
    with less.prems have len: "length u < ?n" by simp
    have tk: "take ?n s = u @ take (?n - length u) (LF # t)" using len by (simp add: s)
    obtain m where m: "?n - length u = Suc m" using len by (metis Suc_diff_Suc)
    have tw: "takeWhile (\<lambda>c. c \<noteq> LF) (take ?n s) = u"
      unfolding tk m take_Suc_Cons by (rule takeWhile_tail [THEN trans]) (use u in \<open>auto simp: takeWhile_eq_all_conv\<close>)
    have "length u < length (take ?n s)" using len by (simp add: s)
    with tw have nl: "next_line ?n wl s = Some (strip_cr u, Suc (length u))"
      unfolding next_line_def Let_def by (simp only: if_True)
    have "drop (Suc (length u)) s = t" by (simp add: s)
    moreover have "length t < length s" by (simp add: s)
    note less.hyps [OF this, of "off + int (Suc (length u))"]
    ultimately show ?thesis
      using nl sp less.prems by (subst line_events.simps) (auto split: prod.splits)
  qed
qed

text \<open>
  When every line is shorter than the configured size, the records of a completely read
  object are its lines in order: the text between line feeds, without the carriage return of a
  CRLF ending, and with the empty lines left out.
\<close>

theorem line_records_are_lines:
  assumes "fresh_reader r" and "clean_end raw r"
    and "\<forall>l\<in>set (split_lf (br_rest r)). int (length l) < max 16 (br_bufSize r)"
  shows "\<exists>items fin. lineParser_Parse raw r 0 = Some (Inr (items, fin))
    \<and> map fst items = map Inr (filter (\<lambda>l. l \<noteq> []) (map strip_cr (split_lf (br_rest r))))"
proof -
  have "\<forall>l\<in>set (split_lf (br_rest r)). length l < buf_len (br_bufSize r)"
    using assms(3) by (auto simp: buf_len_def)
  from line_events_lines [OF _ _ _ this, of "br_end r" raw "br_endWithLast r" 0] assms(2) show ?thesis
    by (cases "line_events raw (br_end r) (br_bufSize r) (br_endWithLast r) 0 (br_rest r)")
       (simp add: lineParser_Parse_eq [OF assms(1)] clean_end_def)
qed

lemma takeWhile_less: "x \<in> set w \<Longrightarrow> length (takeWhile (\<lambda>c. c \<noteq> x) w) < length w"
  by (induction w) auto

text \<open>The window of a text with a line feed does not depend on what follows.\<close>

lemma next_line_append:
  assumes "LF \<in> set a"
  shows "next_line n wl (a @ t) = next_line n wl a"
proof -
  let ?P = "\<lambda>c. c \<noteq> LF"
  have first: "next_line n wl s = Some (strip_cr (takeWhile ?P (take n s)), Suc (length (takeWhile ?P (take n s))))"
    if "LF \<in> set (take n s)" for s
  proof -
    have "length (takeWhile ?P (take n s)) < length (take n s)"
      using that by (rule takeWhile_less)
    then show ?thesis by (simp add: next_line_def Let_def)
  qed
  show ?thesis
  proof (cases "LF \<in> set (take n a)")
    case True
    then have in_at: "LF \<in> set (take n (a @ t))" by simp
    have "takeWhile ?P (take n (a @ t)) = takeWhile ?P (take n a)"
      using True by (simp add: takeWhile_append1)
    with first [OF True] first [OF in_at] show ?thesis by simp
  next
    case False
    with assms have "n < length a" by (metis not_le take_all)
    then show ?thesis by (simp add: next_line_def Let_def)
  qed
qed

text \<open>
  The error a parse ends with that meets \<open>e\<close> behind the bytes, and what makes the end of the
  bytes not the end of the object: an error of the reader, of the source below a decoder, or
  fewer bytes than the object has.
\<close>

definition end_failure :: "raw_status \<Rightarrow> go_error \<Rightarrow> go_error" where
  "end_failure raw e = classifyReadFailure raw (if errors_Is e ErrEOF then ErrUnexpectedEOF else e)"

definition incomplete :: "raw_status \<Rightarrow> go_error \<Rightarrow> bool" where
  "incomplete raw e = (\<not> errors_Is e ErrEOF \<or> raw_readErr raw \<noteq> None \<or> RawTruncated raw)"

lemma line_tail_incomplete:
  "incomplete raw e \<Longrightarrow> line_tail raw e off s = ([(Inl (end_failure raw e), off)], off)"
  by (auto simp: line_tail_def incomplete_def end_failure_def)

lemma line_events_cut:
  assumes bad: "incomplete raw e" and good: "errors_Is e0 ErrEOF" "raw_readErr raw0 = None" "\<not> RawTruncated raw0"
    and t: "LF \<notin> set t" "length t < buf_len b"
  shows "a = [] \<or> last a = LF \<Longrightarrow> line_events raw0 e0 b wl off a = (items, fin) \<Longrightarrow>
    line_events raw e b wl off (a @ t) = (items @ [(Inl (end_failure raw e), fin)], fin)"
proof (induction "length a" arbitrary: a off items rule: less_induct)
  case less
  show ?case
  proof (cases "a = []")
    case True
    have tw: "takeWhile (\<lambda>c. c \<noteq> LF) t = t" using t by (auto simp: takeWhile_eq_all_conv)
    have "next_line (buf_len b) wl t = None" using t by (simp add: next_line_def Let_def tw)
    then have "line_events raw e b wl off t = line_tail raw e off t" by (simp add: line_events.simps)
    then have "line_events raw e b wl off t = ([(Inl (end_failure raw e), off)], off)"
      by (simp only: line_tail_incomplete [OF bad])
    moreover have "items = []" "fin = off"
      using less.prems True good by (auto simp: line_events_nil line_tail_def strip_cr_def)
    ultimately show ?thesis using True by simp
  next
    case False
    with less.prems(1) have lf: "LF \<in> set a" using last_in_set by metis
    obtain l k where nl: "next_line (buf_len b) wl a = Some (l, k)"
    proof (cases "next_line (buf_len b) wl a")
      case None
      then have "length a \<le> buf_len b" and "\<not> length (takeWhile (\<lambda>c. c \<noteq> LF) (take (buf_len b) a))
          < length (take (buf_len b) a)"
        by (auto simp: next_line_def Let_def split: if_splits)
      with takeWhile_less [OF lf] show ?thesis by simp
    qed auto
    have n: "2 \<le> buf_len b" using buf_len_ge [of b] by simp
    note k = next_line_consumes [OF nl n]
    obtain items' where rest: "line_events raw0 e0 b wl (off + int k) (drop k a) = (items', fin)"
      and it: "items = (if l = [] then [] else [(Inr l, off + int k)]) @ items'"
      using less.prems(2) nl by (subst (asm) line_events.simps) (auto split: prod.splits)
    have "drop k a = [] \<or> last (drop k a) = LF" using less.prems(1) k by (cases "k < length a") auto
    moreover have "length (drop k a) < length a" using k by simp
    ultimately have "line_events raw e b wl (off + int k) (drop k a @ t) =
        (items' @ [(Inl (end_failure raw e), fin)], fin)"
      using less.hyps rest by blast
    with k nl lf it show ?thesis
      by (subst line_events.simps) (simp add: next_line_append)
  qed
qed

lemma end_failure_class:
  "(raw_readErr raw \<noteq> None \<or> RawTruncated raw \<longrightarrow> IsStreamRead (end_failure raw e))
   \<and> (raw_readErr raw = None \<and> \<not> RawTruncated raw \<longrightarrow> isUnusableContent (Some (end_failure raw e)))"
  by (auto simp: end_failure_def classifyReadFailure_def IsStreamRead_def isUnusableContent_def
      IsTruncatedObject_def errors_As_def errors_Is_def split: option.splits)

text \<open>
  C16. When the bytes of an object end before the object does, because the read behind them
  fails, because the source below a decoder failed, or because there are fewer than the object
  has, the bytes behind the last line feed are a cut record: they are not delivered, every
  complete line before them is, exactly as from an object that holds these lines only, and the
  last item is an error at the offset behind the last complete line. A failed or short download
  makes it one that has the object read again, and an error of the decoder alone one that
  condemns the object. The cut line is taken to be shorter than the configured size.
\<close>

theorem line_cut_record_dropped:
  assumes "fresh_reader r" and "br_rest r = a @ t" and "a = [] \<or> last a = LF"
    and "LF \<notin> set t" and "int (length t) < max 16 (br_bufSize r)"
    and "incomplete raw (br_end r)"
    and "r0 = r\<lparr>br_rest := a, br_end := ErrEOF\<rparr>" and "clean_end raw0 r0"
  shows "\<exists>items fin. lineParser_Parse raw0 r0 0 = Some (Inr (items, fin))
    \<and> lineParser_Parse raw r 0 = Some (Inr (items @ [(Inl (end_failure raw (br_end r)), fin)], fin))
    \<and> (raw_readErr raw \<noteq> None \<or> RawTruncated raw \<longrightarrow> IsStreamRead (end_failure raw (br_end r)))
    \<and> (raw_readErr raw = None \<and> \<not> RawTruncated raw \<longrightarrow> isUnusableContent (Some (end_failure raw (br_end r))))"
proof -
  obtain items fin where ev: "line_events raw0 ErrEOF (br_bufSize r) (br_endWithLast r) 0 a = (items, fin)"
    by fastforce
  have "fresh_reader r0" using assms(1,7) by (simp add: fresh_reader_def errors_Is_def)
  then have one: "lineParser_Parse raw0 r0 0 = Some (Inr (items, fin))"
    by (simp add: lineParser_Parse_eq ev assms(7))
  have "length t < buf_len (br_bufSize r)" using assms(5) by (simp add: buf_len_def)
  from line_events_cut [OF assms(6) _ _ _ assms(4) this assms(3) ev] assms(7,8)
  have "lineParser_Parse raw r 0 = Some (Inr (items @ [(Inl (end_failure raw (br_end r)), fin)], fin))"
    by (simp add: lineParser_Parse_eq [OF assms(1)] assms(2) clean_end_def)
  with one end_failure_class show ?thesis by blast
qed

text \<open>A witness object: two CRLF lines with an empty one between, and a cut one.\<close>

definition sample_reader :: bufferedReader where
  "sample_reader = NewBufferedReader (''ab'' @ [CR, LF, LF] @ ''cd'' @ [LF]) ErrEOF False 16"

definition complete_raw :: raw_status where
  "complete_raw = \<lparr>raw_readErr = None, raw_atEOF = True, raw_offset = 8, raw_expectedSize = 8\<rparr>"

lemma sample_fresh: "fresh_reader sample_reader"
  by (simp add: fresh_reader_def sample_reader_def NewBufferedReader_def errors_Is_def)

lemma sample_clean: "clean_end complete_raw sample_reader"
  by (simp add: clean_end_def sample_reader_def complete_raw_def NewBufferedReader_def RawTruncated_def errors_Is_def)

lemma sample_parse:
  "lineParser_Parse complete_raw sample_reader 0 = Some (Inr ([(Inr ''ab'', 4), (Inr ''cd'', 8)], 8))"
  by (simp add: lineParser_Parse_eq [OF sample_fresh])
     (simp add: sample_reader_def NewBufferedReader_def complete_raw_def RawTruncated_def errors_Is_def
       line_events.simps next_line_def buf_len_def strip_cr_def line_tail_def Let_def)

theorem line_restarts_exact_witness:
  "restarts (lineParser_Parse complete_raw) sample_reader 0 [0] = Some [(Inr ''ab'', 4), (Inr ''cd'', 8)]"
  by (rule line_restarts_exact [OF sample_fresh sample_parse])

theorem line_parse_complete_witness:
  "\<exists>pieces fin. cuts 16 (''ab'' @ [CR, LF, LF] @ ''cd'' @ [LF]) pieces
    \<and> lineParser_Parse complete_raw sample_reader 0 = Some (Inr (piece_items 0 pieces, fin))"
  using line_parse_complete [OF sample_fresh sample_clean, of 0]
  by (simp add: sample_reader_def NewBufferedReader_def)

theorem line_records_are_lines_witness:
  "\<exists>items fin. lineParser_Parse complete_raw sample_reader 0 = Some (Inr (items, fin))
    \<and> map fst items = [Inr ''ab'', Inr ''cd'']"
  using line_records_are_lines [OF sample_fresh sample_clean]
  by (simp add: sample_reader_def NewBufferedReader_def strip_cr_def)

theorem line_cut_record_dropped_witness:
  "\<exists>items fin. lineParser_Parse complete_raw
       (sample_reader\<lparr>br_rest := ''ab'' @ [LF] @ ''cd'', br_end := ErrOther ''reset''\<rparr>) 0 =
     Some (Inr (items @ [(Inl (end_failure complete_raw (ErrOther ''reset'')), fin)], fin))"
  using line_cut_record_dropped [of "sample_reader\<lparr>br_rest := ''ab'' @ [LF] @ ''cd'', br_end := ErrOther ''reset''\<rparr>"
      "''ab'' @ [LF]" "''cd''" complete_raw _ complete_raw, OF _ _ _ _ _ _ refl]
    sample_fresh sample_clean
  by (auto simp: fresh_reader_def clean_end_def incomplete_def sample_reader_def NewBufferedReader_def errors_Is_def)

end
