(* ===== verification/BlobDetect.thy ===== *)
theory BlobDetect
  imports LineParser
begin

text \<open>
  How an object's format is found (\<open>codec.go\<close>, \<open>stream.go\<close>, \<open>parser.go\<close> and the detection part of
  \<open>json_parser.go\<close> in \<open>internal/blobstream\<close>): compression from the leading bytes, then Avro, JSON,
  text or unsupported content. The library that names a content type (\<open>mimetype\<close>) and the
  decoders are parameters, the fields of \<open>codecs\<close>. A detected type is the list of the names it
  answers to, its own first, and its parent.
\<close>

section \<open>Streams, content types and decoders\<close>

record stream =
  st_bytes :: bytes
  st_end :: go_error
  st_endWithLast :: bool

definition buffered :: "int \<Rightarrow> stream \<Rightarrow> bufferedReader" where
  "buffered n s = NewBufferedReader (st_bytes s) (st_end s) (st_endWithLast s) n"

definition reader_stream :: "bufferedReader \<Rightarrow> stream" where
  "reader_stream r = \<lparr>st_bytes = br_rest r, st_end = br_end r, st_endWithLast = br_endWithLast r\<rparr>"

definition bufferedReader_Peek :: "nat \<Rightarrow> bufferedReader \<Rightarrow> bytes \<times> go_error option" where
  "bufferedReader_Peek n r =
     (if n > buf_len (br_bufSize r) then (take (buf_len (br_bufSize r)) (br_rest r), Some ErrBufferFull)
      else if length (br_rest r) < n then (br_rest r, Some (br_end r))
      else (take n (br_rest r), None))"

datatype mime = Mime (mime_names: "string list") (mime_parent: "mime option")

definition mime_Is :: "mime \<Rightarrow> string \<Rightarrow> bool" where
  "mime_Is m n = (n \<in> set (mime_names m))"

definition mime_String :: "mime \<Rightarrow> string" where
  "mime_String m = (case mime_names m of [] \<Rightarrow> [] | n # _ \<Rightarrow> n)"

record codecs =
  cd_detect :: "bytes \<Rightarrow> mime"
  cd_open :: "string \<Rightarrow> bufferedReader \<Rightarrow> go_error + stream"
  cd_wrap :: "string \<Rightarrow> bufferedReader \<Rightarrow> stream"

record LogStream =
  ls_Name :: string
  ls_ContentEncoding :: "string option"
  ls_ContentType :: "string option"
  ls_MaxLogSize :: int
  ls_TryDecoding :: bool
  ls_Size :: int
  ls_Raw :: bool
  ls_IncludeLogRecordOriginal :: bool

definition detectionPeekBytes :: nat where
  "detectionPeekBytes = 3072"

section \<open>Compression\<close>

definition lz4Magic :: bytes where
  "lz4Magic = [CHR 0x04, CHR 0x22, CHR 0x4D, CHR 0x18]"

definition snappyFramedMagic :: bytes where
  "snappyFramedMagic = [CHR 0xFF, CHR 0x06, CHR 0x00, CHR 0x00] @ ''sNaPpY''"

definition has_suffix :: "bytes \<Rightarrow> bytes \<Rightarrow> bool" where
  "has_suffix s p = (length p \<le> length s \<and> drop (length s - length p) s = p)"

definition labeledLZMA :: "LogStream \<Rightarrow> bool" where
  "labeledLZMA st =
     (if has_suffix (ls_Name st) ''.lzma'' then True
      else if (case ls_ContentEncoding st of Some ce \<Rightarrow> ce = ''lzma'' \<or> ce = ''x-lzma'' | None \<Rightarrow> False) then True
      else (case ls_ContentType st of Some ct \<Rightarrow> str_contains ct ''lzma'' | None \<Rightarrow> False))"

definition labeledDeflate :: "LogStream \<Rightarrow> bool" where
  "labeledDeflate st = (case ls_ContentEncoding st of Some ce \<Rightarrow> ce = ''deflate'' | None \<Rightarrow> False)"

definition isZlibHeader :: "8 word \<Rightarrow> 8 word \<Rightarrow> bool" where
  "isZlibHeader b0 b1 =
     (if and b0 0x0F \<noteq> 8 \<or> drop_bit 4 b0 > 7 then False
      else (or (push_bit 8 (ucast b0 :: 16 word)) (ucast b1)) mod 31 = 0)"

definition byte_word :: "char \<Rightarrow> 8 word" where
  "byte_word c = of_nat (of_char c)"

definition open_container :: "codecs \<Rightarrow> string \<Rightarrow> string \<Rightarrow> bufferedReader \<Rightarrow> go_error + (stream \<times> bool)" where
  "open_container cs codec label br =
     (case cd_open cs codec br of
        Inl e \<Rightarrow> Inl (ErrCorruptContainer label e)
      | Inr s \<Rightarrow> Inr (s, True))"

definition deflateReader :: "codecs \<Rightarrow> bufferedReader \<Rightarrow> bytes \<Rightarrow> go_error + (stream \<times> bool)" where
  "deflateReader cs br header =
     (if length header \<ge> 2 \<and> isZlibHeader (byte_word (header ! 0)) (byte_word (header ! 1))
      then open_container cs ''zlib'' ''deflate'' br
      else Inr (cd_wrap cs ''flate'' br, True))"

text \<open>No match is the value \<open>(br, False)\<close> that \<open>decompress\<close> makes of it.\<close>

definition octetStreamDecoder :: "codecs \<Rightarrow> LogStream \<Rightarrow> bufferedReader \<Rightarrow> bytes \<Rightarrow> go_error + (stream \<times> bool)" where
  "octetStreamDecoder cs st br header =
     (if has_prefix header lz4Magic then Inr (cd_wrap cs ''lz4'' br, True)
      else if has_prefix header snappyFramedMagic then Inr (cd_wrap cs ''snappy'' br, True)
      else if labeledLZMA st then open_container cs ''lzma'' ''lzma'' br
      else if labeledDeflate st then deflateReader cs br header
      else Inr (reader_stream br, False))"

definition LogStream_decompress :: "codecs \<Rightarrow> LogStream \<Rightarrow> bufferedReader \<Rightarrow> go_error + (stream \<times> bool)" where
  "LogStream_decompress cs st br =
     (case bufferedReader_Peek detectionPeekBytes br of
        (header, err) \<Rightarrow>
          if (case err of None \<Rightarrow> False | Some e \<Rightarrow> \<not> errors_Is e ErrEOF \<and> \<not> errors_Is e ErrUnexpectedEOF)
          then Inl (ErrWrapped ''peek content'' (the err))
          else
            (let detected = cd_detect cs header
             in if mime_Is detected ''application/gzip'' then open_container cs ''gzip'' ''gzip'' br
                else if mime_Is detected ''application/x-bzip2'' then Inr (cd_wrap cs ''bzip2'' br, True)
                else if mime_Is detected ''application/x-xz'' then open_container cs ''xz'' ''xz'' br
                else if mime_Is detected ''application/zstd'' then open_container cs ''zstd'' ''zstd'' br
                else if mime_Is detected ''application/zlib'' then open_container cs ''zlib'' ''zlib'' br
                else if mime_Is detected ''application/lzip'' then open_container cs ''lzip'' ''lzip'' br
                else if mime_Is detected ''application/octet-stream'' then octetStreamDecoder cs st br header
                else Inr (reader_stream br, False)))"

text \<open>
  The decompression limit on a whole stream: what a consumer gets of it before the limit trips
  depends on how its reads fall, so the number of these bytes is an argument.
\<close>

definition maxDecompressedBytes :: int where
  "maxDecompressedBytes = 32 * 2 ^ 30"

definition decompressLimit :: "nat \<Rightarrow> int \<Rightarrow> stream \<Rightarrow> stream" where
  "decompressLimit seen limit s =
     (if int (length (st_bytes s)) > limit
      then \<lparr>st_bytes = take (min seen (nat limit)) (st_bytes s), st_end = ErrDecompressLimitExceeded limit,
            st_endWithLast = False\<rparr>
      else s)"

text \<open>
  \<open>LogStream.BufferedReader\<close>: the raw source is the body; \<open>raw\<close> is its status when \<open>decompress\<close>
  returns.
\<close>

definition LogStream_BufferedReader ::
    "codecs \<Rightarrow> nat \<Rightarrow> raw_status \<Rightarrow> LogStream \<Rightarrow> stream \<Rightarrow> go_error + bufferedReader" where
  "LogStream_BufferedReader cs seen raw st body =
     (case LogStream_decompress cs st (buffered (int detectionPeekBytes) body) of
        Inl err \<Rightarrow> Inl (LogStream_BufferedReader_error raw err)
      | Inr (s, decompressed) \<Rightarrow>
          Inr (buffered (ls_MaxLogSize st)
                 (if decompressed then decompressLimit seen maxDecompressedBytes s else s)))"

text \<open>The layers of a compressed archive member.\<close>

function decompressLayers ::
    "codecs \<Rightarrow> nat \<Rightarrow> LogStream \<Rightarrow> nat \<Rightarrow> nat \<Rightarrow> stream \<Rightarrow> go_error + stream" where
  "decompressLayers cs seen st maxDepth depth r =
     (let br = buffered (int detectionPeekBytes) r
      in case LogStream_decompress cs st br of
           Inl e \<Rightarrow> Inl e
         | Inr (s, decompressed) \<Rightarrow>
             if \<not> decompressed then Inr (reader_stream br)
             else if depth \<ge> maxDepth then Inl ErrNestingDepthExceeded
             else decompressLayers cs seen st maxDepth (Suc depth) (decompressLimit seen maxDecompressedBytes s))"
  by pat_completeness auto
termination by (relation "measure (\<lambda>(cs, seen, st, maxDepth, depth, r). Suc maxDepth - depth)") auto

declare decompressLayers.simps [simp del]

definition decompressEntryToLeaf :: "codecs \<Rightarrow> nat \<Rightarrow> LogStream \<Rightarrow> stream \<Rightarrow> nat \<Rightarrow> go_error + stream" where
  "decompressEntryToLeaf cs seen st r maxDepth = decompressLayers cs seen st maxDepth 0 r"

lemmas detect_defs [model_defs] =
  buffered_def reader_stream_def bufferedReader_Peek_def mime_Is_def mime_String_def
  detectionPeekBytes_def lz4Magic_def snappyFramedMagic_def has_prefix_def has_suffix_def
  labeledLZMA_def labeledDeflate_def open_container_def deflateReader_def octetStreamDecoder_def
  LogStream_decompress_def maxDecompressedBytes_def decompressLimit_def
  LogStream_BufferedReader_def decompressEntryToLeaf_def

text \<open>The header is readable: all of it, or what the object has before it ends.\<close>

definition header_readable :: "bufferedReader \<Rightarrow> bool" where
  "header_readable br =
     (case snd (bufferedReader_Peek detectionPeekBytes br) of
        None \<Rightarrow> True | Some e \<Rightarrow> errors_Is e ErrEOF \<or> errors_Is e ErrUnexpectedEOF)"

lemma open_container_error:
  "open_container cs c l br = Inl e \<Longrightarrow> \<exists>f inner. e = ErrCorruptContainer f inner"
  by (auto simp: open_container_def split: sum.splits)

lemma octet_error:
  "octetStreamDecoder cs st br h = Inl e \<Longrightarrow> \<exists>f inner. e = ErrCorruptContainer f inner"
  by (auto simp: octetStreamDecoder_def deflateReader_def split: if_splits dest: open_container_error)

lemma decompress_readable:
  assumes "header_readable br"
  shows "LogStream_decompress cs st br =
    (let header = fst (bufferedReader_Peek detectionPeekBytes br); detected = cd_detect cs header
     in if mime_Is detected ''application/gzip'' then open_container cs ''gzip'' ''gzip'' br
        else if mime_Is detected ''application/x-bzip2'' then Inr (cd_wrap cs ''bzip2'' br, True)
        else if mime_Is detected ''application/x-xz'' then open_container cs ''xz'' ''xz'' br
        else if mime_Is detected ''application/zstd'' then open_container cs ''zstd'' ''zstd'' br
        else if mime_Is detected ''application/zlib'' then open_container cs ''zlib'' ''zlib'' br
        else if mime_Is detected ''application/lzip'' then open_container cs ''lzip'' ''lzip'' br
        else if mime_Is detected ''application/octet-stream'' then octetStreamDecoder cs st br header
        else Inr (reader_stream br, False))"
proof (cases "bufferedReader_Peek detectionPeekBytes br")
  case (Pair h e)
  have "(case e of None \<Rightarrow> False | Some e \<Rightarrow> \<not> errors_Is e ErrEOF \<and> \<not> errors_Is e ErrUnexpectedEOF) = False"
    using assms by (auto simp: header_readable_def Pair split: option.splits)
  then show ?thesis
    unfolding LogStream_decompress_def Pair by (simp only: prod.case fst_conv if_False Let_def)
qed

text \<open>
  C17. Once the header of an object could be read, an object whose container does not open ends
  in the dead-letter queue when its download was complete, and is retried, outside the
  dead-letter queue, when the download broke or fell short: never an unclassified error, which
  would be redelivered for ever.
\<close>

theorem open_failure_is_classified:
  assumes "header_readable (buffered (int detectionPeekBytes) body)"
    and "LogStream_BufferedReader cs seen raw st body = Inl err"
    and "\<And>f e. LogStream_decompress cs st (buffered (int detectionPeekBytes) body) = Inl (ErrCorruptContainer f e) \<Longrightarrow> unclassified e"
  shows "(if raw_readErr raw \<noteq> None \<or> RawTruncated raw
          then IsStreamRead err \<and> \<not> IsUnsupportedContent (Some err)
          else IsUnsupportedContent (Some err) \<and> \<not> IsStreamRead err)"
proof -
  obtain err0 where d: "LogStream_decompress cs st (buffered (int detectionPeekBytes) body) = Inl err0"
    and err: "err = LogStream_BufferedReader_error raw err0"
    using assms(2) by (auto simp: LogStream_BufferedReader_def split: sum.splits)
  have "\<exists>f inner. err0 = ErrCorruptContainer f inner"
    using d unfolding decompress_readable [OF assms(1)] Let_def
    by (auto split: if_splits dest: open_container_error octet_error)
  then obtain f inner where e0: "err0 = ErrCorruptContainer f inner" by blast
  have un: "unclassified inner" using assms(3) d e0 by blast
  have "err = (if raw_readErr raw \<noteq> None \<or> RawTruncated raw then ErrStreamRead inner else err0)"
    by (auto simp: err e0 LogStream_BufferedReader_error_def RawTruncated_def errors_As_def)
  with un e0 show ?thesis
    by (auto simp: unclassified_def IsStreamRead_def isUnusableContent_def IsUnsupportedContent_def
        IsTruncatedObject_def errors_As_None errors_Is_def)
qed

text \<open>
  Compression is decided by the content alone. Two objects with the same bytes are read the
  same way, whatever their names, encodings and content types say, unless the bytes have no
  known signature and one of the objects is labelled lzma or deflate.
\<close>

theorem compression_by_content:
  assumes "mime_Is (cd_detect cs (fst (bufferedReader_Peek detectionPeekBytes br))) ''application/octet-stream'' \<longrightarrow>
      has_prefix (fst (bufferedReader_Peek detectionPeekBytes br)) lz4Magic
      \<or> has_prefix (fst (bufferedReader_Peek detectionPeekBytes br)) snappyFramedMagic
      \<or> \<not> (labeledLZMA st1 \<or> labeledDeflate st1 \<or> labeledLZMA st2 \<or> labeledDeflate st2)"
  shows "LogStream_decompress cs st1 br = LogStream_decompress cs st2 br"
proof -
  obtain h e where p: "bufferedReader_Peek detectionPeekBytes br = (h, e)" by fastforce
  have "octetStreamDecoder cs st1 br h = octetStreamDecoder cs st2 br h"
    if "mime_Is (cd_detect cs h) ''application/octet-stream''"
    using assms that unfolding p by (auto simp: octetStreamDecoder_def)
  then show ?thesis by (auto simp: LogStream_decompress_def p Let_def)
qed

text \<open>
  The two-byte test accepts exactly the headers of RFC 1950: method 8, a window of at most
  32 KiB, and a big-endian value divisible by 31, with no wrap-around at 16 bits.
\<close>

theorem isZlibHeader_rfc1950:
  "isZlibHeader b0 b1 \<longleftrightarrow>
     unat b0 mod 16 = 8 \<and> unat b0 div 16 \<le> 7 \<and> (256 * unat b0 + unat b1) mod 31 = 0"
proof -
  have b: "unat b0 < 256" "unat b1 < 256" using unsigned_less [of b0, where ?'a = nat] unsigned_less [of b1, where ?'a = nat] by simp_all
  have "and b0 0x0F = take_bit 4 b0" by (simp add: take_bit_eq_mask mask_eq_exp_minus_1)
  then have low: "unat (and b0 0x0F) = unat b0 mod 16"
    by (simp add: take_bit_eq_mod unat_mod_distrib)
  have high: "unat (drop_bit 4 b0) = unat b0 div 16"
    by (simp add: drop_bit_eq_div unat_div_distrib)
  have "unat (or (push_bit 8 (ucast b0 :: 16 word)) (ucast b1)) = or (push_bit 8 (unat b0)) (unat b1)"
    unfolding unsigned_or_eq unsigned_push_bit_eq unsigned_ucast_eq
    using b by (simp add: push_bit_eq_mult take_bit_nat_eq_self)
  also have "\<dots> = push_bit 8 (unat b0) + unat b1"
  proof (rule disjunctive_add_eq_or [symmetric])
    have "and (push_bit 8 x) (take_bit 8 y) = 0" for x y :: nat
      by (auto simp: bit_eq_iff bit_simps)
    moreover have "take_bit 8 (unat b1) = unat b1" using b by (simp add: take_bit_nat_eq_self)
    ultimately show "and (push_bit 8 (unat b0)) (unat b1) = 0" by metis
  qed
  finally have "unat (or (push_bit 8 (ucast b0 :: 16 word)) (ucast b1)) = 256 * unat b0 + unat b1"
    by (simp add: push_bit_eq_mult)
  then have "unat (or (push_bit 8 (ucast b0 :: 16 word)) (ucast b1) mod 31) = (256 * unat b0 + unat b1) mod 31"
    by (simp add: unat_mod_distrib)
  moreover have "and b0 0x0F = 8 \<longleftrightarrow> unat b0 mod 16 = 8"
    by (simp add: word_unat_eq_iff low)
  moreover have "drop_bit 4 b0 > 7 \<longleftrightarrow> unat b0 div 16 > 7"
    by (simp add: word_less_nat_alt high)
  ultimately show ?thesis
    by (auto simp: isZlibHeader_def word_unat_eq_iff [of _ 0])
qed

lemma decompress_not_matched:
  "LogStream_decompress cs st br = Inr (s, False) \<Longrightarrow> s = reader_stream br"
  by (auto simp: LogStream_decompress_def open_container_def octetStreamDecoder_def deflateReader_def Let_def
      split: prod.splits if_splits sum.splits)

text \<open>The stream behind a number of compression layers.\<close>

fun peel :: "codecs \<Rightarrow> nat \<Rightarrow> LogStream \<Rightarrow> nat \<Rightarrow> stream \<Rightarrow> stream option" where
  "peel cs seen st 0 r = Some r"
| "peel cs seen st (Suc k) r =
     (case LogStream_decompress cs st (buffered (int detectionPeekBytes) r) of
        Inr (s, True) \<Rightarrow> peel cs seen st k (decompressLimit seen maxDecompressedBytes s)
      | _ \<Rightarrow> None)"

lemma decompressLayers_leaf:
  "decompressLayers cs seen st maxDepth depth r = Inr leaf \<Longrightarrow> depth \<le> maxDepth \<Longrightarrow>
     \<exists>k s. depth + k \<le> maxDepth \<and> peel cs seen st k r = Some s
       \<and> LogStream_decompress cs st (buffered (int detectionPeekBytes) s) = Inr (leaf, False)"
proof (induction "maxDepth - depth" arbitrary: depth r)
  case 0
  then show ?case
    by (subst (asm) decompressLayers.simps)
       (auto simp: Let_def split: sum.splits prod.splits if_splits intro!: exI [of _ "0::nat"] exI [of _ r]
         dest: decompress_not_matched)
next
  case (Suc n)
  show ?case
  proof (cases "LogStream_decompress cs st (buffered (int detectionPeekBytes) r)")
    case (Inl e)
    with Suc.prems show ?thesis by (simp add: decompressLayers.simps [of _ _ _ _ depth] Let_def)
  next
    case (Inr sd)
    obtain s d where sd: "sd = (s, d)" by fastforce
    show ?thesis
    proof (cases d)
      case False
      with Suc.prems Inr sd have "leaf = s"
        by (auto simp: decompressLayers.simps [of _ _ _ _ depth] Let_def dest: decompress_not_matched)
      with Inr sd False Suc.prems(2) show ?thesis by (intro exI [of _ 0] exI [of _ r]) simp
    next
      case True
      let ?r = "decompressLimit seen maxDecompressedBytes s"
      have lt: "depth < maxDepth" using Suc.hyps(2) by simp
      then have "decompressLayers cs seen st maxDepth (Suc depth) ?r = Inr leaf"
        using Suc.prems(1) Inr sd True by (simp add: decompressLayers.simps [of _ _ _ _ depth] Let_def)
      moreover have "n = maxDepth - Suc depth" "Suc depth \<le> maxDepth" using Suc.hyps(2) by auto
      ultimately obtain k s' where "Suc depth + k \<le> maxDepth" "peel cs seen st k ?r = Some s'"
          "LogStream_decompress cs st (buffered (int detectionPeekBytes) s') = Inr (leaf, False)"
        using Suc.hyps(1) by blast
      with Inr sd True show ?thesis by (intro exI [of _ "Suc k"] exI [of _ s']) simp
    qed
  qed
qed

lemma decompressLayers_too_deep:
  "peel cs seen st (Suc (maxDepth - depth)) r = Some s \<Longrightarrow> depth \<le> maxDepth \<Longrightarrow>
     decompressLayers cs seen st maxDepth depth r = Inl ErrNestingDepthExceeded"
proof (induction "maxDepth - depth" arbitrary: depth r)
  case 0
  then show ?case
    by (subst decompressLayers.simps) (auto simp: Let_def split: sum.splits prod.splits bool.splits)
next
  case (Suc n)
  have n: "n = maxDepth - Suc depth" "Suc depth \<le> maxDepth" using Suc.hyps(2) by auto
  obtain s1 where s1: "LogStream_decompress cs st (buffered (int detectionPeekBytes) r) = Inr (s1, True)"
      "peel cs seen st (maxDepth - depth) (decompressLimit seen maxDecompressedBytes s1) = Some s"
    using Suc.prems(1) by (auto split: sum.splits prod.splits bool.splits)
  have "Suc (maxDepth - Suc depth) = maxDepth - depth" using Suc.hyps(2) by simp
  with s1(2) have "peel cs seen st (Suc (maxDepth - Suc depth)) (decompressLimit seen maxDecompressedBytes s1) = Some s"
    by metis
  then have "decompressLayers cs seen st maxDepth (Suc depth) (decompressLimit seen maxDecompressedBytes s1)
      = Inl ErrNestingDepthExceeded"
    using Suc.hyps(1) [OF n(1) _ n(2)] by blast
  with s1(1) n show ?case by (subst decompressLayers.simps) (simp add: Let_def)
qed

lemma maxDecompressedBytes_pos: "0 \<le> maxDecompressedBytes"
  by (simp add: maxDecompressedBytes_def)

lemma decompressLimit_length: "0 \<le> limit \<Longrightarrow> int (length (st_bytes (decompressLimit seen limit s))) \<le> limit"
  by (auto simp: decompressLimit_def)

text \<open>
  A compressed member of an archive is unpacked to content that is not compressed, through
  at most the permitted number of layers, each of at most 32 GiB; a member with more layers is
  rejected with the nesting error, whatever the layers hold, so unpacking always ends.
\<close>

theorem member_layers_bounded:
  "(\<forall>leaf. decompressEntryToLeaf cs seen st r maxDepth = Inr leaf \<longrightarrow>
      (\<exists>k s. k \<le> maxDepth \<and> peel cs seen st k r = Some s
         \<and> (0 < k \<longrightarrow> int (length (st_bytes s)) \<le> maxDecompressedBytes)
         \<and> LogStream_decompress cs st (buffered (int detectionPeekBytes) s) = Inr (leaf, False)))
   \<and> (peel cs seen st (Suc maxDepth) r \<noteq> None \<longrightarrow>
        decompressEntryToLeaf cs seen st r maxDepth = Inl ErrNestingDepthExceeded)"
proof -
  have "int (length (st_bytes s)) \<le> maxDecompressedBytes"
    if "peel cs seen st k r = Some s" "0 < k" for k s
    using that
  proof (induction k arbitrary: r)
    case (Suc k)
    then obtain s1 where "peel cs seen st k (decompressLimit seen maxDecompressedBytes s1) = Some s"
      by (auto split: sum.splits prod.splits bool.splits)
    with Suc.IH show ?case
      using decompressLimit_length [of maxDecompressedBytes seen s1]
      by (cases k) (auto simp: maxDecompressedBytes_pos)
  qed simp
  then show ?thesis
    using decompressLayers_leaf [of cs seen st maxDepth 0 r]
      decompressLayers_too_deep [of cs seen st maxDepth 0 r]
    by (fastforce simp: decompressEntryToLeaf_def)
qed

section \<open>The format of the decompressed content\<close>

definition is_ws :: "char \<Rightarrow> bool" where
  "is_ws c = (c = CHR '' '' \<or> c = CHR 0x09 \<or> c = LF \<or> c = CR)"

fun firstMeaningfulByte :: "bytes \<Rightarrow> (char \<times> bytes) option" where
  "firstMeaningfulByte [] = None"
| "firstMeaningfulByte (c # buf) = (if is_ws c then firstMeaningfulByte buf else Some (c, buf))"

definition jsonPeekBytes :: nat where
  "jsonPeekBytes = 512"

definition StartsWithJSONObjectOrArray :: "bufferedReader \<Rightarrow> go_error + bool" where
  "StartsWithJSONObjectOrArray reader =
     (case bufferedReader_Peek jsonPeekBytes reader of
        (buf, err) \<Rightarrow>
          if (case err of None \<Rightarrow> False | Some e \<Rightarrow> \<not> errors_Is e ErrEOF)
          then Inl (ErrWrapped ''peek'' (the err))
          else (case firstMeaningfulByte buf of
                  None \<Rightarrow> Inr False
                | Some (open', rest) \<Rightarrow>
                    if open' = CHR ''{'' then
                      Inr (case firstMeaningfulByte rest of
                             None \<Rightarrow> False | Some (nxt, _) \<Rightarrow> nxt = CHR 0x22 \<or> nxt = CHR ''}'')
                    else if open' = CHR ''['' then
                      Inr (case firstMeaningfulByte rest of
                             None \<Rightarrow> False | Some (nxt, _) \<Rightarrow> nxt = CHR ''{'' \<or> nxt = CHR '']'')
                    else Inr False))"

definition avroOcfMagicBytes :: bytes where
  "avroOcfMagicBytes = ''Obj'' @ [CHR 0x01]"

definition StartsWithAvroOcfMagic :: "bufferedReader \<Rightarrow> go_error + bool" where
  "StartsWithAvroOcfMagic reader =
     (case bufferedReader_Peek (length avroOcfMagicBytes) reader of
        (bs, None) \<Rightarrow> Inr (bs = avroOcfMagicBytes)
      | (bs, Some e) \<Rightarrow> if errors_Is e ErrEOF then Inr False else Inl e)"

definition isJSON :: "bufferedReader \<Rightarrow> bool" where
  "isJSON reader = (case StartsWithJSONObjectOrArray reader of Inl e \<Rightarrow> False | Inr b \<Rightarrow> b)"

definition isAvroOcf :: "bufferedReader \<Rightarrow> bool" where
  "isAvroOcf reader = (case StartsWithAvroOcfMagic reader of Inl e \<Rightarrow> False | Inr b \<Rightarrow> b)"

fun isTextMIME :: "mime \<Rightarrow> bool" where
  "isTextMIME (Mime ns p) =
     (if mime_Is (Mime ns p) ''text/plain'' then True
      else (case p of None \<Rightarrow> False | Some m \<Rightarrow> isTextMIME m))"

datatype parser_kind = LineParserKind | AvroOcfParserKind | JSONParserKind

definition lineParserIfText :: "codecs \<Rightarrow> bufferedReader \<Rightarrow> go_error + parser_kind" where
  "lineParserIfText cs reader =
     (let header = fst (bufferedReader_Peek detectionPeekBytes reader)
      in if length header = 0 then Inr LineParserKind
         else (let detected = cd_detect cs header
               in if isTextMIME detected then Inr LineParserKind
                  else Inl (ErrUnsupportedContent (mime_String detected))))"

definition newParser :: "codecs \<Rightarrow> LogStream \<Rightarrow> bufferedReader \<Rightarrow> go_error + parser_kind" where
  "newParser cs st reader =
     (if \<not> ls_TryDecoding st then Inr LineParserKind
      else if isAvroOcf reader then Inr AvroOcfParserKind
      else if isJSON reader then Inr JSONParserKind
      else lineParserIfText cs reader)"

datatype archive_kind = TarBackend | ZipBackend | SevenZipBackend | RarBackend

definition archiveBackendFor :: "mime \<Rightarrow> archive_kind option" where
  "archiveBackendFor detected =
     (if mime_Is detected ''application/x-tar'' then Some TarBackend
      else if mime_Is detected ''application/zip'' then Some ZipBackend
      else if mime_Is detected ''application/x-7z-compressed'' then Some SevenZipBackend
      else if mime_Is detected ''application/x-rar-compressed'' then Some RarBackend
      else None)"

datatype producer_kind = ArchiveProducer archive_kind string | SingleParser parser_kind

definition NewRecordProducer ::
    "codecs \<Rightarrow> raw_status \<Rightarrow> LogStream \<Rightarrow> bufferedReader \<Rightarrow> go_error + producer_kind" where
  "NewRecordProducer cs raw st reader =
     (let single = (case newParser cs st reader of Inl e \<Rightarrow> Inl e | Inr p \<Rightarrow> Inr (SingleParser p))
      in if \<not> ls_TryDecoding st then single
         else (case bufferedReader_Peek detectionPeekBytes reader of
                 (header, err) \<Rightarrow>
                   if (case err of None \<Rightarrow> False
                       | Some e \<Rightarrow> \<not> errors_Is e ErrEOF \<and> \<not> errors_Is e ErrUnexpectedEOF)
                   then Inl (classifyReadFailure raw (the err))
                   else if length header > 0 then
                     (case archiveBackendFor (cd_detect cs header) of
                        Some k \<Rightarrow> Inr (ArchiveProducer k (mime_String (cd_detect cs header)))
                      | None \<Rightarrow> single)
                   else single))"

lemmas parser_choice_defs [model_defs] =
  jsonPeekBytes_def StartsWithJSONObjectOrArray_def avroOcfMagicBytes_def StartsWithAvroOcfMagic_def
  isJSON_def isAvroOcf_def lineParserIfText_def newParser_def archiveBackendFor_def NewRecordProducer_def

lemma firstMeaningfulByte_skip:
  "firstMeaningfulByte buf = Some (c, rest) \<longleftrightarrow>
     (\<exists>ws. buf = ws @ c # rest \<and> (\<forall>x\<in>set ws. is_ws x) \<and> \<not> is_ws c)"
proof (induction buf)
  case (Cons b buf)
  show ?case
    by (auto simp: Cons.IH Cons_eq_append_conv)
qed simp

text \<open>
  The shapes accepted as JSON: an object or an array, opened by two significant bytes with
  only white space before and between them.
\<close>

definition json_shape :: "bytes \<Rightarrow> bool" where
  "json_shape s \<longleftrightarrow> (\<exists>ws c ws' d rest. s = ws @ c # ws' @ d # rest
      \<and> (\<forall>x\<in>set (ws @ ws'). is_ws x)
      \<and> (c = CHR ''{'' \<and> (d = CHR 0x22 \<or> d = CHR ''}'') \<or> c = CHR ''['' \<and> (d = CHR ''{'' \<or> d = CHR '']'')))"

lemma ws_not: "\<not> is_ws (CHR ''{'')" "\<not> is_ws (CHR ''['')" "\<not> is_ws (CHR 0x22)" "\<not> is_ws (CHR ''}'')" "\<not> is_ws (CHR '']'')"
  by (simp_all add: is_ws_def)

lemma Peek_eq:
  assumes "int n \<le> br_bufSize r"
  shows "bufferedReader_Peek n r =
    (take n (br_rest r), if length (br_rest r) < n then Some (br_end r) else None)"
proof -
  have "\<not> n > buf_len (br_bufSize r)" using assms by (simp add: buf_len_def)
  then show ?thesis by (simp add: bufferedReader_Peek_def)
qed

lemma isJSON_shape:
  assumes "errors_Is (br_end reader) ErrEOF" and "512 \<le> br_bufSize reader"
  shows "isJSON reader \<longleftrightarrow> json_shape (take 512 (br_rest reader))"
proof -
  obtain err where p: "bufferedReader_Peek jsonPeekBytes reader = (take 512 (br_rest reader), err)"
    and ok: "\<And>e. err = Some e \<Longrightarrow> errors_Is e ErrEOF"
    using assms Peek_eq [of jsonPeekBytes reader] that
    by (cases "length (br_rest reader) < 512") (auto simp: jsonPeekBytes_def)
  let ?b = "take 512 (br_rest reader)"
  let ?two = "\<lambda>c d. c = CHR ''{'' \<and> (d = CHR 0x22 \<or> d = CHR ''}'') \<or> c = CHR ''['' \<and> (d = CHR ''{'' \<or> d = CHR '']'')"
  have "isJSON reader \<longleftrightarrow> (\<exists>c rest d rest'. firstMeaningfulByte ?b = Some (c, rest)
      \<and> firstMeaningfulByte rest = Some (d, rest')
      \<and> (c = CHR ''{'' \<and> (d = CHR 0x22 \<or> d = CHR ''}'') \<or> c = CHR ''['' \<and> (d = CHR ''{'' \<or> d = CHR '']'')))"
    using ok by (auto simp: isJSON_def StartsWithJSONObjectOrArray_def p split: option.splits)
  also have "\<dots> \<longleftrightarrow> json_shape ?b"
  proof
    assume "\<exists>c rest d rest'. firstMeaningfulByte ?b = Some (c, rest)
      \<and> firstMeaningfulByte rest = Some (d, rest') \<and> ?two c d"
    then obtain c rest d rest' ws ws' where b: "?b = ws @ c # rest" "rest = ws' @ d # rest'"
      and "\<forall>x\<in>set ws. is_ws x" "\<forall>x\<in>set ws'. is_ws x" and two: "?two c d"
      unfolding firstMeaningfulByte_skip by blast
    then have "\<forall>x\<in>set (ws @ ws'). is_ws x" by auto
    moreover have "?b = ws @ c # ws' @ d # rest'" using b by simp
    ultimately show "json_shape ?b" using two unfolding json_shape_def by blast
  next
    assume "json_shape ?b"
    then obtain ws c ws' d rest where b: "?b = ws @ c # ws' @ d # rest" "\<forall>x\<in>set (ws @ ws'). is_ws x"
      and two: "?two c d" unfolding json_shape_def by blast
    from two have "\<not> is_ws c" "\<not> is_ws d" by (elim disjE conjE; simp add: ws_not)+
    with b have "firstMeaningfulByte ?b = Some (c, ws' @ d # rest)"
      "firstMeaningfulByte (ws' @ d # rest) = Some (d, rest)"
      unfolding firstMeaningfulByte_skip by auto
    with two show "\<exists>c rest d rest'. firstMeaningfulByte ?b = Some (c, rest)
      \<and> firstMeaningfulByte rest = Some (d, rest') \<and> ?two c d" by blast
  qed
  finally show ?thesis .
qed

lemma isAvroOcf_magic:
  assumes "errors_Is (br_end reader) ErrEOF" and "512 \<le> br_bufSize reader"
  shows "isAvroOcf reader \<longleftrightarrow> take 4 (br_rest reader) = avroOcfMagicBytes"
proof -
  have len: "length avroOcfMagicBytes = 4" by (simp add: avroOcfMagicBytes_def)
  have p: "bufferedReader_Peek (length avroOcfMagicBytes) reader =
      (take 4 (br_rest reader), if length (br_rest reader) < 4 then Some (br_end reader) else None)"
    using assms(2) by (simp add: Peek_eq len)
  show ?thesis
  proof (cases "length (br_rest reader) < 4")
    case True
    then have "take 4 (br_rest reader) \<noteq> avroOcfMagicBytes" using len by (metis length_take min_less_iff_conj nat_neq_iff)
    with True assms(1) show ?thesis by (simp add: isAvroOcf_def StartsWithAvroOcfMagic_def p)
  qed (simp add: isAvroOcf_def StartsWithAvroOcfMagic_def p)
qed

text \<open>
  The parser of an object is decided by its content alone: the Avro magic first, then the
  two significant bytes of a JSON object or array of objects, then text; anything else that is
  not empty is unsupported content and goes to the dead-letter queue, so binary data is never
  emitted as lines. The buffer has to hold the detection window, which the configuration checks.
\<close>

theorem format_decision:
  assumes "errors_Is (br_end reader) ErrEOF" and "4096 \<le> br_bufSize reader" and "ls_TryDecoding st"
  shows "newParser cs st reader =
     (if take 4 (br_rest reader) = avroOcfMagicBytes then Inr AvroOcfParserKind
      else if json_shape (take 512 (br_rest reader)) then Inr JSONParserKind
      else if br_rest reader = [] \<or> isTextMIME (cd_detect cs (take 3072 (br_rest reader))) then Inr LineParserKind
      else Inl (ErrUnsupportedContent (mime_String (cd_detect cs (take 3072 (br_rest reader))))))
   \<and> (\<forall>e. newParser cs st reader = Inl e \<longrightarrow> IsUnsupportedContent (Some e))"
proof -
  have p: "fst (bufferedReader_Peek detectionPeekBytes reader) = take 3072 (br_rest reader)"
    using assms(2) by (simp add: Peek_eq detectionPeekBytes_def)
  have eq: "newParser cs st reader =
     (if take 4 (br_rest reader) = avroOcfMagicBytes then Inr AvroOcfParserKind
      else if json_shape (take 512 (br_rest reader)) then Inr JSONParserKind
      else if br_rest reader = [] \<or> isTextMIME (cd_detect cs (take 3072 (br_rest reader))) then Inr LineParserKind
      else Inl (ErrUnsupportedContent (mime_String (cd_detect cs (take 3072 (br_rest reader))))))"
    using isAvroOcf_magic [of reader] isJSON_shape [of reader] assms
    by (simp add: newParser_def lineParserIfText_def p Let_def)
  moreover have "IsUnsupportedContent (Some (ErrUnsupportedContent m))" for m
    by (simp add: IsUnsupportedContent_def isUnusableContent_def errors_As_def)
  ultimately show ?thesis by (auto split: if_splits)
qed

section \<open>Finding the next line of a mixed value sequence\<close>

text \<open>
  The state of the JSON parser that the resync uses: the offset at which the current decoder
  started, how much it has read, and the bytes behind that.
\<close>

record jsonParser =
  jp_baseOffset :: int
  jp_inputOffset :: int
  jp_rest :: bytes

definition jsonParser_Offset :: "jsonParser \<Rightarrow> int" where
  "jsonParser_Offset p = jp_baseOffset p + jp_inputOffset p"

fun resync_loop :: "bool \<Rightarrow> bytes \<Rightarrow> int \<Rightarrow> bytes \<Rightarrow> bytes \<times> (int \<times> bytes) option" where
  "resync_loop sawContent content discarded [] = (content, None)"
| "resync_loop sawContent content discarded (b # remaining) =
     (if b = CHR '' '' \<or> b = CHR 0x09 \<or> b = CR then
        resync_loop sawContent (if sawContent then content @ [b] else content) (discarded + 1) remaining
      else if b = LF then
        (if sawContent then (content, Some (discarded + 1, remaining))
         else resync_loop sawContent content (discarded + 1) remaining)
      else resync_loop True (content @ [b]) (discarded + 1) remaining)"

definition resyncAfterNewline :: "bool \<Rightarrow> jsonParser \<Rightarrow> (bytes \<times> bool) \<times> jsonParser" where
  "resyncAfterNewline keepLeading p =
     (let base = jp_baseOffset p + jp_inputOffset p
      in case resync_loop keepLeading [] 0 (jp_rest p) of
           (content, None) \<Rightarrow> ((content, False), p)
         | (content, Some (discarded, remaining)) \<Rightarrow>
             ((content, True),
              p\<lparr>jp_baseOffset := base + discarded, jp_inputOffset := 0, jp_rest := remaining\<rparr>))"

definition isTextLine :: "bytes \<Rightarrow> bool" where
  "isTextLine line = (length line > 0 \<and> line ! 0 \<noteq> CHR ''{'' \<and> line ! 0 \<noteq> CHR ''['')"

definition isJSONObject :: "bytes \<Rightarrow> bool" where
  "isJSONObject raw = (length raw > 0 \<and> raw ! 0 = CHR ''{'')"

definition isJSONString :: "bytes \<Rightarrow> bool" where
  "isJSONString raw = (length raw > 0 \<and> raw ! 0 = CHR 0x22)"

fun lineHasTrailing :: "bytes \<Rightarrow> bool" where
  "lineHasTrailing [] = False"
| "lineHasTrailing (b # buf) =
     (if b = CHR '' '' \<or> b = CHR 0x09 \<or> b = CR then lineHasTrailing buf
      else b \<noteq> LF)"

definition boundaryStreamErr :: "raw_status \<Rightarrow> go_error option" where
  "boundaryStreamErr raw =
     (case raw_readErr raw of
        Some rerr \<Rightarrow> Some (ErrStreamRead rerr)
      | None \<Rightarrow> if RawTruncated raw then Some (ErrStreamRead ErrUnexpectedEOF) else None)"

lemma resync_loop_content:
  "resync_loop True content d s =
     (if LF \<in> set s
      then (content @ takeWhile (\<lambda>c. c \<noteq> LF) s,
            Some (d + int (length (takeWhile (\<lambda>c. c \<noteq> LF) s)) + 1, tl (dropWhile (\<lambda>c. c \<noteq> LF) s)))
      else (content @ s, None))"
  by (induction s arbitrary: content d) auto

lemma resync_loop_skip:
  "resync_loop False [] d s =
     resync_loop (dropWhile is_ws s \<noteq> []) [] (d + int (length (takeWhile is_ws s))) (dropWhile is_ws s)"
proof (induction s arbitrary: d)
  case (Cons c s)
  show ?case
  proof (cases "is_ws c")
    case True
    then have "resync_loop False [] d (c # s) = resync_loop False [] (d + 1) s" by (auto simp: is_ws_def)
    with Cons.IH [of "d + 1"] True show ?thesis by (simp add: add.assoc)
  next
    case False
    then have "c \<noteq> CHR '' ''" "c \<noteq> CHR 0x09" "c \<noteq> LF" "c \<noteq> CR" by (auto simp: is_ws_def)
    with False show ?thesis by simp
  qed
qed simp

text \<open>
  After a malformed line the parser goes on exactly behind the line feed that ends it, at
  the absolute offset of the next line, and hands back the line: all of it behind the value
  just read, or from its first significant byte. It reports no line feed only when there is
  none. So no later line is lost, repeated or shifted.
\<close>

theorem resync_exact:
  assumes "resyncAfterNewline keepLeading p = ((line, ok), p')"
  shows "LF \<notin> set line
    \<and> (ok \<longrightarrow> (\<exists>pre. jp_rest p = pre @ LF # jp_rest p'
          \<and> jsonParser_Offset p' = jsonParser_Offset p + int (length pre) + 1
          \<and> line = (if keepLeading then pre else dropWhile is_ws pre)))
    \<and> (\<not> ok \<longrightarrow> LF \<notin> set (if keepLeading then jp_rest p else dropWhile is_ws (jp_rest p)))"
proof -
  let ?s = "if keepLeading then jp_rest p else dropWhile is_ws (jp_rest p)"
  let ?w = "if keepLeading then [] else takeWhile is_ws (jp_rest p)"
  have rest: "jp_rest p = ?w @ ?s" by simp
  have loop: "resync_loop keepLeading [] 0 (jp_rest p) =
      (if LF \<in> set ?s
       then (takeWhile (\<lambda>c. c \<noteq> LF) ?s, Some (int (length ?w) + int (length (takeWhile (\<lambda>c. c \<noteq> LF) ?s)) + 1,
              tl (dropWhile (\<lambda>c. c \<noteq> LF) ?s)))
       else (?s, None))"
  proof (cases keepLeading)
    case False
    have "resync_loop (x \<noteq> []) [] d x = resync_loop True [] d x" for d x
      by (cases x) auto
    with resync_loop_skip [of 0 "jp_rest p"] False show ?thesis
      by (simp only: if_False resync_loop_content) simp
  qed (simp add: resync_loop_content)
  show ?thesis
  proof (cases "LF \<in> set ?s")
    case False
    with loop assms show ?thesis by (simp add: resyncAfterNewline_def Let_def split: if_splits)
  next
    case True
    obtain u t where s: "?s = u @ LF # t" and u: "LF \<notin> set u" using split_first_lf [OF True] .
    have tw: "takeWhile (\<lambda>c. c \<noteq> LF) ?s = u" "dropWhile (\<lambda>c. c \<noteq> LF) ?s = LF # t"
      using u unfolding s by (induction u) auto
    have p': "line = u" "ok" "jp_rest p' = t"
        "jsonParser_Offset p' = jsonParser_Offset p + int (length (?w @ u)) + 1"
      using assms True unfolding resyncAfterNewline_def loop tw
      by (auto simp: jsonParser_Offset_def)
    have "jp_rest p = (?w @ u) @ LF # t" using rest s by simp
    moreover have "\<not> keepLeading \<Longrightarrow> dropWhile is_ws (?w @ u) = u"
    proof -
      assume k: "\<not> keepLeading"
      have "u = [] \<or> \<not> is_ws (hd u)"
        using s k hd_dropWhile [of is_ws "jp_rest p"] by (cases u) auto
      moreover have "u \<noteq> []"
        using s k hd_dropWhile [of is_ws "jp_rest p"] by (cases u) (auto simp: is_ws_def)
      ultimately have "dropWhile is_ws u = u" by (cases u) auto
      moreover have "\<forall>x\<in>set ?w. is_ws x" using k by (auto dest: set_takeWhileD)
      ultimately show ?thesis using k by (simp add: dropWhile_append2)
    qed
    ultimately show ?thesis using p' u by (intro conjI impI exI [of _ "?w @ u"]) auto
  qed
qed

section \<open>The properties at work\<close>

text \<open>
  A library that knows one container, marked by a leading byte 31 that its decoder removes and
  that must have content, and calls everything else text.
\<close>

definition sample_codecs :: codecs where
  "sample_codecs =
     \<lparr>cd_detect = (\<lambda>h. if has_prefix h [CHR 0x1F] then Mime [''application/gzip''] None
                      else Mime [''text/plain''] None),
      cd_open = (\<lambda>f br. if length (br_rest br) \<le> 1 then Inl ErrUnexpectedEOF
                      else Inr ((reader_stream br)\<lparr>st_bytes := tl (br_rest br)\<rparr>)),
      cd_wrap = (\<lambda>f br. reader_stream br)\<rparr>"

definition sample_stream :: "bytes \<Rightarrow> stream" where
  "sample_stream s = \<lparr>st_bytes = s, st_end = ErrEOF, st_endWithLast = False\<rparr>"

definition sample_log :: LogStream where
  "sample_log = \<lparr>ls_Name = ''a.log'', ls_ContentEncoding = None, ls_ContentType = None, ls_MaxLogSize = 4096,
     ls_TryDecoding = True, ls_Size = 8, ls_Raw = False, ls_IncludeLogRecordOriginal = False\<rparr>"

lemmas sample_defs = sample_codecs_def sample_stream_def sample_log_def detect_defs
  NewBufferedReader_def buf_len_def errors_Is_def

theorem open_failure_is_classified_witness:
  "IsUnsupportedContent (Some (ErrCorruptContainer ''gzip'' ErrUnexpectedEOF))"
  using open_failure_is_classified [of "sample_stream [CHR 0x1F]" sample_codecs 0 complete_raw sample_log
      "ErrCorruptContainer ''gzip'' ErrUnexpectedEOF"]
  by (simp add: header_readable_def sample_defs LogStream_BufferedReader_error_def complete_raw_def RawTruncated_def
      unclassified_def)

theorem compression_by_content_witness:
  "LogStream_decompress sample_codecs sample_log (buffered 3072 (sample_stream ''abc'')) =
   LogStream_decompress sample_codecs (sample_log\<lparr>ls_Name := ''a.lzma'', ls_ContentEncoding := Some ''deflate''\<rparr>)
     (buffered 3072 (sample_stream ''abc''))"
  by (rule compression_by_content) (simp add: sample_defs)

theorem member_layers_bounded_witness:
  "decompressEntryToLeaf sample_codecs 0 sample_log (sample_stream [CHR 0x1F, CHR 0x1F, CHR ''a'']) 1
     = Inl ErrNestingDepthExceeded"
  using member_layers_bounded [of sample_codecs 0 sample_log "sample_stream [CHR 0x1F, CHR 0x1F, CHR ''a'']" 1]
  by (simp add: sample_defs)

theorem format_decision_witness:
  "newParser sample_codecs sample_log (buffered 4096 (sample_stream ''{ }'')) = Inr JSONParserKind"
proof -
  have "json_shape ''{ }''"
    unfolding json_shape_def
    by (intro exI [of _ "[]"] exI [of _ "CHR ''{''"] exI [of _ "'' ''"] exI [of _ "CHR ''}''"]) (simp add: is_ws_def)
  then show ?thesis
    using format_decision [of "buffered 4096 (sample_stream ''{ }'')" sample_log sample_codecs]
    by (simp add: sample_defs avroOcfMagicBytes_def)
qed

theorem resync_exact_witness:
  "resyncAfterNewline False \<lparr>jp_baseOffset = 10, jp_inputOffset = 5, jp_rest = '' x}'' @ LF # ''{}''\<rparr>
     = ((''x}'', True), \<lparr>jp_baseOffset = 19, jp_inputOffset = 0, jp_rest = ''{}''\<rparr>)
   \<and> LF \<notin> set ''x}''"
proof -
  have r: "resyncAfterNewline False \<lparr>jp_baseOffset = 10, jp_inputOffset = 5, jp_rest = '' x}'' @ LF # ''{}''\<rparr>
     = ((''x}'', True), \<lparr>jp_baseOffset = 19, jp_inputOffset = 0, jp_rest = ''{}''\<rparr>)"
    by (simp add: resyncAfterNewline_def)
  from resync_exact [OF r] r show ?thesis by simp
qed

end
