(* ===== verification/Archive.thy ===== *)
theory Archive
  imports BlobDetect
begin

text \<open>
  Archives (\<open>internal/blobstream/archive.go\<close> and \<open>offset.go\<close>): the producer that goes through the
  members of an archive, parses each on its own, and can be resumed at any record from the pair
  of a member index and an offset inside the member.

  The archive library is a parameter: the list of members it enumerates and how the enumeration
  ends. What is done inside a member is the record \<open>entry_ops\<close>, the unpacking, the choice of a
  parser and the parser; every one of them takes the number of bytes read from the archive so
  far and returns the number after it, since the limit on the whole archive is shared. A
  sequence is given in full, with \<open>Position()\<close> at each item; a consumer that stops takes a prefix.
\<close>

section \<open>Offsets, members and limits\<close>

record Offset =
  of_EntryIndex :: nat
  of_Offset :: int

definition NewOffset :: "int \<Rightarrow> Offset" where
  "NewOffset o' = \<lparr>of_EntryIndex = 0, of_Offset = o'\<rparr>"

definition NewArchiveOffset :: "nat \<Rightarrow> int \<Rightarrow> Offset" where
  "NewArchiveOffset entryIndex o' = \<lparr>of_EntryIndex = entryIndex, of_Offset = o'\<rparr>"

record 'src archiveEntry =
  en_Name :: string
  en_IsDir :: bool
  en_Open :: "go_error + 'src"

record 'src archiveBackend =
  be_entries :: "'src archiveEntry list"
  be_end :: go_error
  be_endRaw :: raw_status

record archiveLimits =
  al_maxEntries :: nat
  al_maxEntryBytes :: int
  al_maxTotalBytes :: int
  al_maxNestingDepth :: nat

definition defaultArchiveLimits :: archiveLimits where
  "defaultArchiveLimits =
     \<lparr>al_maxEntries = 100000, al_maxEntryBytes = 8 * 2 ^ 30, al_maxTotalBytes = 32 * 2 ^ 30,
      al_maxNestingDepth = 8\<rparr>"

record archiveProducer =
  ap_limits :: archiveLimits
  ap_hasReader :: bool
  ap_format :: string
  ap_materialized :: bool

text \<open>An item of a member's parser: the record or error, the parser's offset, and the status of the object's source then.\<close>

record 'r parse_event =
  pe_item :: "go_error + 'r"
  pe_offset :: int
  pe_raw :: raw_status

record ('src, 'leaf, 'p, 'r) entry_ops =
  eo_leaf :: "string \<Rightarrow> 'src cappingReader \<Rightarrow> nat \<Rightarrow> (go_error + 'leaf) \<times> int"
  eo_newParser :: "'leaf \<Rightarrow> int \<Rightarrow> (go_error + 'p) \<times> int"
  eo_Parse :: "'p \<Rightarrow> int \<Rightarrow> int \<Rightarrow> ((go_error \<times> int) + ('r parse_event list \<times> int)) \<times> int"

section \<open>One member\<close>

text \<open>
  What a member comes to: its items, whether it was counted as skipped, whether the iteration
  stops, the offset of its parser if it got one, and the bytes read.
\<close>

type_synonym 'r produced = "((go_error + 'r) \<times> Offset) list"
type_synonym 'r entry_result = "'r produced \<times> bool \<times> bool \<times> int option \<times> int"

fun consumeRecords :: "archiveProducer \<Rightarrow> nat \<Rightarrow> int \<Rightarrow> int \<Rightarrow> 'r parse_event list \<Rightarrow> 'r entry_result" where
  "consumeRecords a idx fin read [] = ([], False, False, Some fin, read)"
| "consumeRecords a idx fin read (e # es) =
     (let pos = NewArchiveOffset idx (pe_offset e)
      in case pe_item e of
           Inr rec \<Rightarrow>
             (case consumeRecords a idx fin read es of (items, res) \<Rightarrow> ((Inr rec, pos) # items, res))
         | Inl rerr \<Rightarrow>
             (case errors_As is_archive_limit rerr of
                Some limitErr \<Rightarrow> ([(Inl limitErr, pos)], False, True, Some (pe_offset e), read)
              | None \<Rightarrow>
                  if isUnusableContent (Some rerr) then ([], True, False, Some (pe_offset e), read)
                  else if IsStreamRead rerr \<and> ap_hasReader a \<and> raw_readErr (pe_raw e) = None
                          \<and> \<not> RawTruncated (pe_raw e)
                  then (if errors_Is rerr ErrUnexpectedEOF
                        then (if ap_materialized a \<or> \<not> raw_atEOF (pe_raw e)
                              then ([], True, False, Some (pe_offset e), read)
                              else ([], False, False, Some (pe_offset e), read))
                        else ([], True, False, Some (pe_offset e), read))
                  else (case consumeRecords a idx fin read es of
                          (items, res) \<Rightarrow> ((Inl rerr, pos) # items, res))))"

definition failOnArchiveLimit :: "nat \<Rightarrow> int option \<Rightarrow> int \<Rightarrow> go_error \<Rightarrow> 'r entry_result" where
  "failOnArchiveLimit idx off read err =
     (case errors_As is_archive_limit err of
        Some limitErr \<Rightarrow>
          ([(Inl limitErr, NewArchiveOffset idx (case off of None \<Rightarrow> 0 | Some o' \<Rightarrow> o'))], False, True, off, read)
      | None \<Rightarrow> ([], True, False, off, read))"

definition consumeEntry ::
    "('src, 'leaf, 'p, 'r) entry_ops \<Rightarrow> archiveProducer \<Rightarrow> nat \<Rightarrow> 'src archiveEntry \<Rightarrow> int \<Rightarrow> int \<Rightarrow> 'r entry_result" where
  "consumeEntry ops a idx entry entryStart totalBytes =
     (case en_Open entry of
        Inl err \<Rightarrow> ([], True, False, None, totalBytes)
      | Inr er \<Rightarrow>
          (let capped = \<lparr>cp_r = er, cp_entryRead = 0, cp_entryLimit = al_maxEntryBytes (ap_limits a),
                         cp_total = totalBytes, cp_totalLimit = al_maxTotalBytes (ap_limits a),
                         cp_tripped = None\<rparr>
           in case eo_leaf ops (en_Name entry) capped (al_maxNestingDepth (ap_limits a)) of
                (Inl err, t1) \<Rightarrow> failOnArchiveLimit idx None t1 err
              | (Inr leaf, t1) \<Rightarrow>
                  (case eo_newParser ops leaf t1 of
                     (Inl err, t2) \<Rightarrow> ([], True, False, None, t2)
                   | (Inr parser, t2) \<Rightarrow>
                       (case eo_Parse ops parser entryStart t2 of
                          (Inl (err, off), t3) \<Rightarrow> failOnArchiveLimit idx (Some off) t3 err
                        | (Inr (events, fin), t3) \<Rightarrow> consumeRecords a idx fin t3 events))))"

section \<open>All members\<close>

text \<open>
  The loop over the members, for any way \<open>run\<close> of consuming one: the items and the names of the
  members counted as skipped. \<open>pos\<close> is \<open>Position()\<close> when the next member is asked for.
\<close>

fun Records_loop ::
    "(nat \<Rightarrow> 'src archiveEntry \<Rightarrow> int \<Rightarrow> int \<Rightarrow> 'r entry_result) \<Rightarrow> archiveProducer \<Rightarrow> Offset \<Rightarrow> go_error
      \<Rightarrow> raw_status \<Rightarrow> nat \<Rightarrow> Offset \<Rightarrow> int \<Rightarrow> 'src archiveEntry list \<Rightarrow> 'r produced \<times> string list" where
  "Records_loop run a start en raw idx pos read [] =
     (if errors_Is en ErrEOF then ([], [])
      else ([(Inl (archive_next_error (if ap_hasReader a then Some raw else None) (ap_format a) en), pos)], []))"
| "Records_loop run a start en raw idx pos read (entry # entries) =
     (if idx \<ge> al_maxEntries (ap_limits a)
      then ([(Inl (ErrArchiveLimitExceeded ''entry count exceeded''), NewArchiveOffset idx 0)], [])
      else if en_IsDir entry \<or> idx < of_EntryIndex start
      then Records_loop run a start en raw (Suc idx) (NewArchiveOffset idx 0) read entries
      else
        (case run idx entry (if idx = of_EntryIndex start then of_Offset start else 0) read of
           (items, skipped, fatal, off, read') \<Rightarrow>
             (let names = (if skipped then [en_Name entry] else [])
              in if fatal then (items, names)
                 else (case Records_loop run a start en raw (Suc idx)
                              (NewArchiveOffset idx (case off of None \<Rightarrow> 0 | Some o' \<Rightarrow> o')) read' entries of
                         (rest, skips) \<Rightarrow> (items @ rest, names @ skips)))))"

definition archive_Records ::
    "(nat \<Rightarrow> 'src archiveEntry \<Rightarrow> int \<Rightarrow> int \<Rightarrow> 'r entry_result) \<Rightarrow> archiveProducer \<Rightarrow> 'src archiveBackend
      \<Rightarrow> Offset \<Rightarrow> 'r produced \<times> string list" where
  "archive_Records run a be start =
     Records_loop run a start (be_end be) (be_endRaw be) 0 (NewOffset 0) 0 (be_entries be)"

lemmas archive_defs [model_defs] =
  NewOffset_def NewArchiveOffset_def defaultArchiveLimits_def failOnArchiveLimit_def consumeEntry_def
  archive_Records_def

section \<open>Resuming\<close>

definition is_limit_item :: "(go_error + 'r) \<times> Offset \<Rightarrow> bool" where
  "is_limit_item it = (case fst it of Inl e \<Rightarrow> errors_As is_archive_limit e \<noteq> None | Inr r \<Rightarrow> False)"

definition unlimited :: "'r produced \<Rightarrow> bool" where
  "unlimited items = (\<forall>it\<in>set items. \<not> is_limit_item it)"

text \<open>
  What the archive needs of its members: as long as no limit trips, a member does the same when
  less of the archive was read before it, and it can be resumed behind each of its records.
\<close>

locale archive_members =
  fixes run :: "nat \<Rightarrow> 'src archiveEntry \<Rightarrow> int \<Rightarrow> int \<Rightarrow> 'r entry_result"
    and valid :: "'src archiveEntry \<Rightarrow> bool"
  assumes grows: "valid e \<Longrightarrow> run idx e st t = (items, sk, fat, off, t1) \<Longrightarrow> t \<le> t1"
    and budget: "valid e \<Longrightarrow> run idx e st t = (items, sk, fat, off, t1) \<Longrightarrow> unlimited items \<Longrightarrow> t' \<le> t \<Longrightarrow>
      \<exists>t1'\<le>t1. run idx e st t' = (items, sk, fat, off, t1')"
    and resume: "valid e \<Longrightarrow> run idx e st t = (xs @ (Inr r, pos) # ys, sk, fat, off, t1) \<Longrightarrow>
      unlimited (xs @ (Inr r, pos) # ys) \<Longrightarrow> t' \<le> t \<Longrightarrow>
      of_EntryIndex pos = idx \<and> (\<exists>t1'\<le>t1. run idx e (of_Offset pos) t' = (ys, sk, fat, off, t1'))"
begin

lemma loop_budget:
  "\<forall>e\<in>set entries. valid e \<Longrightarrow> of_EntryIndex start < idx \<or> start = start' \<Longrightarrow>
     of_EntryIndex start' < idx \<or> start = start' \<Longrightarrow>
     Records_loop run a start en raw idx pos t entries = (items, sk) \<Longrightarrow> unlimited items \<Longrightarrow> t' \<le> t \<Longrightarrow>
     Records_loop run a start' en raw idx pos t' entries = (items, sk)"
proof (induction entries arbitrary: idx pos t t' items sk)
  case (Cons e es)
  let ?st = "if idx = of_EntryIndex start then of_Offset start else 0"
  let ?st' = "if idx = of_EntryIndex start' then of_Offset start' else 0"
  have st: "?st = ?st'" and before: "idx < of_EntryIndex start \<longleftrightarrow> idx < of_EntryIndex start'"
    using Cons.prems(2,3) by auto
  have next_prems: "of_EntryIndex start < Suc idx \<or> start = start'" "of_EntryIndex start' < Suc idx \<or> start = start'"
    using Cons.prems(2,3) by auto
  show ?case
  proof (cases "idx \<ge> al_maxEntries (ap_limits a) \<or> en_IsDir e \<or> idx < of_EntryIndex start")
    case True
    then show ?thesis
      using Cons.IH [OF _ next_prems _ Cons.prems(5,6)] Cons.prems(1,4) before by (auto split: if_splits)
  next
    case False
    obtain its s f off t1 where r: "run idx e ?st t = (its, s, f, off, t1)" by (metis prod_cases5)
    have sub: "unlimited its"
      using Cons.prems(4,5) False r by (auto simp: unlimited_def Let_def split: if_splits prod.splits)
    obtain t1' where t1': "t1' \<le> t1" "run idx e ?st t' = (its, s, f, off, t1')"
      using budget [OF _ r sub Cons.prems(6)] Cons.prems(1) by auto
    show ?thesis
    proof (cases f)
      case True
      with Cons.prems(4) False r t1' st before show ?thesis by simp
    next
      case nf: False
      obtain rest skips where rest: "Records_loop run a start en raw (Suc idx)
          (NewArchiveOffset idx (case off of None \<Rightarrow> 0 | Some o' \<Rightarrow> o')) t1 es = (rest, skips)" by fastforce
      have "unlimited rest"
        using Cons.prems(4,5) False r nf rest by (auto simp: unlimited_def Let_def)
      from Cons.IH [OF _ next_prems rest this t1'(1)] Cons.prems(1,4) False r nf rest t1' st before
      show ?thesis by (simp add: Let_def)
    qed
  qed
qed simp

lemma loop_resume:
  "\<forall>e\<in>set entries. valid e \<Longrightarrow>
     Records_loop run a start en raw idx p0 t entries = (xs @ (Inr r, pos) # ys, sk) \<Longrightarrow>
     unlimited (xs @ (Inr r, pos) # ys) \<Longrightarrow> t' \<le> t \<Longrightarrow>
     idx \<le> of_EntryIndex pos \<and> (\<exists>sk'. Records_loop run a pos en raw idx p0' t' entries = (ys, sk'))"
proof (induction entries arbitrary: idx p0 p0' t t' xs sk)
  case Nil
  then show ?case by (auto simp: Cons_eq_append_conv split: if_splits)
next
  case (Cons e es)
  let ?st = "if idx = of_EntryIndex start then of_Offset start else 0"
  have small: "idx < al_maxEntries (ap_limits a)"
    using Cons.prems(2) by (auto simp: Cons_eq_append_conv split: if_splits)
  show ?case
  proof (cases "en_IsDir e \<or> idx < of_EntryIndex start")
    case True
    have "Suc idx \<le> of_EntryIndex pos \<and> (\<exists>sk'. Records_loop run a pos en raw (Suc idx) (NewArchiveOffset idx 0) t' es = (ys, sk'))"
      using Cons.IH [of "Suc idx" "NewArchiveOffset idx 0" t xs sk t' "NewArchiveOffset idx 0"] Cons.prems True small
      by (auto split: if_splits)
    with small show ?thesis by auto
  next
    case False
    obtain its s f off t1 where run: "run idx e ?st t = (its, s, f, off, t1)" by (metis prod_cases5)
    let ?p1 = "NewArchiveOffset idx (case off of None \<Rightarrow> 0 | Some o' \<Rightarrow> o')"
    obtain rest skips where rest: "Records_loop run a start en raw (Suc idx) ?p1 t1 es = (rest, skips)" by fastforce
    have items: "xs @ (Inr r, pos) # ys = its @ (if f then [] else rest)"
      using Cons.prems(2) small False run rest by (auto simp: Let_def split: if_splits)
    from items show ?thesis
    proof (cases rule: append_Cons_split)
      case (left its2)
      have "unlimited its" using Cons.prems(3) items by (simp add: unlimited_def split: if_splits)
      with resume [of e idx ?st t xs r pos its2 s f off t1 t'] Cons.prems(1,4) run left
      obtain t1' where pos: "of_EntryIndex pos = idx" and t1': "t1' \<le> t1"
        and run': "run idx e (of_Offset pos) t' = (its2, s, f, off, t1')" by auto
      show ?thesis
      proof (cases f)
        case True
        with small False pos run' left show ?thesis by simp
      next
        case nf: False
        have ul: "unlimited rest" using Cons.prems(3) left nf by (simp add: unlimited_def)
        have "Records_loop run a pos en raw (Suc idx) ?p1 t1' es = (rest, skips)"
          by (rule loop_budget [OF _ _ _ rest ul t1']) (use Cons.prems(1) False pos in auto)
        with small False pos run' left nf show ?thesis by simp
      qed
    next
      case (right xs')
      then have rest': "rest = xs' @ (Inr r, pos) # ys" by (cases f) auto
      have ul: "unlimited (xs' @ (Inr r, pos) # ys)" using Cons.prems(3) right by (simp add: unlimited_def)
      have "t' \<le> t1" using grows [OF _ run] Cons.prems(1,4) by auto
      from Cons.IH [OF _ rest [unfolded rest'] ul this, of "NewArchiveOffset idx 0"] Cons.prems(1)
      have "Suc idx \<le> of_EntryIndex pos"
        "\<exists>sk'. Records_loop run a pos en raw (Suc idx) (NewArchiveOffset idx 0) t' es = (ys, sk')" by auto
      with small show ?thesis by auto
    qed
  qed
qed

lemma resume_exact:
  assumes "\<forall>e\<in>set (be_entries be). valid e"
    and "archive_Records run a be start = (xs @ (Inr r, pos) # ys, sk)"
    and "unlimited (xs @ (Inr r, pos) # ys)"
  shows "\<exists>sk'. archive_Records run a be pos = (ys, sk')"
  using loop_resume [of "be_entries be" a start "be_end be" "be_endRaw be" 0 "NewOffset 0" 0 xs r pos ys sk 0]
    assms by (simp add: archive_Records_def)

end

section \<open>Members that are text\<close>

lemma consumeRecords_resume:
  "consumeRecords a idx fin t es = (xs @ (Inr r, pos) # ys, res) \<Longrightarrow>
     \<exists>es1 e es2. es = es1 @ e # es2 \<and> pe_item e = Inr r \<and> pos = NewArchiveOffset idx (pe_offset e)
       \<and> consumeRecords a idx fin t es2 = (ys, res)"
proof (induction es arbitrary: xs)
  case (Cons e es)
  obtain items res' where rest: "consumeRecords a idx fin t es = (items, res')" by (metis surj_pair)
  show ?case
  proof (cases "xs = [] \<and> (\<exists>r. pe_item e = Inr r)")
    case True
    with Cons.prems rest have "pe_item e = Inr r" "pos = NewArchiveOffset idx (pe_offset e)" "(items, res') = (ys, res)"
      by (auto simp: Let_def)
    with rest show ?thesis by (intro exI [of _ "[]"] exI [of _ e] exI [of _ es]) simp
  next
    case False
    with Cons.prems rest obtain x xs' where "xs = x # xs'" "consumeRecords a idx fin t es = (xs' @ (Inr r, pos) # ys, res)"
      by (cases xs; cases "pe_item e") (auto simp: Let_def split: option.splits if_splits)
    from Cons.IH [OF this(2)] show ?thesis by (metis append_Cons)
  qed
qed simp

lemma consumeRecords_limit:
  assumes "errors_As is_archive_limit err = Some lim"
  shows "\<not> unlimited (fst (consumeRecords a idx fin t
     (map (\<lambda>(x, off). \<lparr>pe_item = Inr x, pe_offset = off, pe_raw = raw\<rparr>) recs
        @ [\<lparr>pe_item = Inl err, pe_offset = p, pe_raw = raw\<rparr>])))"
proof -
  have "is_archive_limit lim" using assms by (auto simp: errors_As_def find_Some_iff)
  then have "errors_As is_archive_limit lim \<noteq> None" by (cases lim) (auto simp: errors_As_def)
  with assms show ?thesis
    by (induction recs) (auto simp: unlimited_def is_limit_item_def Let_def split: prod.splits)
qed

lemma line_events_error_end:
  "\<not> errors_Is e ErrEOF \<Longrightarrow> \<exists>recs fin. line_events raw e b wl off s =
     (map (\<lambda>(x, p). (Inr x, p)) recs @ [(Inl (classifyReadFailure raw e), fin)], fin)"
proof (induction "length s" arbitrary: s off rule: less_induct)
  case less
  show ?case
  proof (cases "next_line (buf_len b) wl s")
    case None
    then have "line_events raw e b wl off s = ([(Inl (classifyReadFailure raw e), off)], off)"
      using less.prems by (simp add: line_events.simps [of raw e b wl off s] line_tail_def)
    then show ?thesis by (intro exI [of _ "[]"]) simp
  next
    case (Some lk)
    obtain l k where lk: "lk = (l, k)" by fastforce
    have "length (drop k s) < length s"
      using next_line_consumes [OF Some [unfolded lk]] buf_len_ge [of b] by simp
    from less.hyps [OF this less.prems, of "off + int k"] obtain recs fin where
      r: "line_events raw e b wl (off + int k) (drop k s) =
        (map (\<lambda>(x, p). (Inr x, p)) recs @ [(Inl (classifyReadFailure raw e), fin)], fin)" by blast
    show ?thesis
      by (intro exI [of _ "(if l = [] then [] else [(l, off + int k)]) @ recs"] exI [of _ fin])
         (simp add: line_events.simps [of raw e b wl off s] Some lk r)
  qed
qed

text \<open>
  The operations for members of plain text: a member over a limit is cut, somewhere before the
  limit, by the error of the capping reader; a member is parsed by the line parser.
\<close>

definition text_leaf :: "nat \<Rightarrow> string \<Rightarrow> stream cappingReader \<Rightarrow> nat \<Rightarrow> (go_error + stream) \<times> int" where
  "text_leaf seen name c depth =
     (let s = cp_r c; n = int (length (st_bytes s))
      in (Inr (if cp_entryLimit c > 0 \<and> n > cp_entryLimit c
               then s\<lparr>st_bytes := take (min seen (nat (cp_entryLimit c))) (st_bytes s),
                      st_end := ErrArchiveLimitExceeded ''per-entry uncompressed size exceeded''\<rparr>
               else if cp_totalLimit c > 0 \<and> cp_total c + n > cp_totalLimit c
               then s\<lparr>st_bytes := take (min seen (nat (cp_totalLimit c - cp_total c))) (st_bytes s),
                      st_end := ErrArchiveLimitExceeded ''total uncompressed size exceeded''\<rparr>
               else s),
          cp_total c + n))"

definition entry_raw :: "stream \<Rightarrow> raw_status" where
  "entry_raw s =
     \<lparr>raw_readErr = (if errors_Is (st_end s) ErrEOF then None else Some (st_end s)),
      raw_atEOF = errors_Is (st_end s) ErrEOF, raw_offset = int (length (st_bytes s)), raw_expectedSize = 0\<rparr>"

definition text_parse ::
    "int \<Rightarrow> raw_status \<Rightarrow> stream \<Rightarrow> int \<Rightarrow> (go_error \<times> int) + (bytes parse_event list \<times> int)" where
  "text_parse maxLogSize raw s start =
     (case lineParser_Parse (entry_raw s) (buffered maxLogSize s) start of
        None \<Rightarrow> Inr ([], 0)
      | Some (Inl e) \<Rightarrow> Inl (e, 0)
      | Some (Inr (items, fin)) \<Rightarrow>
          Inr (map (\<lambda>(it, off). \<lparr>pe_item = it, pe_offset = off, pe_raw = raw\<rparr>) items, fin))"

definition text_ops :: "nat \<Rightarrow> int \<Rightarrow> raw_status \<Rightarrow> (stream, stream, stream, bytes) entry_ops" where
  "text_ops seen maxLogSize raw =
     \<lparr>eo_leaf = text_leaf seen, eo_newParser = (\<lambda>s t. (Inr s, t)),
      eo_Parse = (\<lambda>s start t. (text_parse maxLogSize raw s start, t))\<rparr>"

definition text_member :: "stream archiveEntry \<Rightarrow> bool" where
  "text_member e = (case en_Open e of Inl err \<Rightarrow> True
     | Inr s \<Rightarrow> \<not> errors_Is (st_end s) ErrBufferFull)"

definition over_limit :: "archiveProducer \<Rightarrow> int \<Rightarrow> stream \<Rightarrow> bool" where
  "over_limit a t s =
     (al_maxEntryBytes (ap_limits a) > 0 \<and> int (length (st_bytes s)) > al_maxEntryBytes (ap_limits a)
      \<or> al_maxTotalBytes (ap_limits a) > 0 \<and> t + int (length (st_bytes s)) > al_maxTotalBytes (ap_limits a))"

definition text_result :: "archiveProducer \<Rightarrow> int \<Rightarrow> raw_status \<Rightarrow> nat \<Rightarrow> stream \<Rightarrow> int \<Rightarrow> int \<Rightarrow> bytes entry_result" where
  "text_result a maxLog raw idx s st t =
     (case text_parse maxLog raw s st of
        Inl (err, off) \<Rightarrow> failOnArchiveLimit idx (Some off) t err
      | Inr (evs, fin) \<Rightarrow> consumeRecords a idx fin t evs)"

lemma consumeEntry_text:
  assumes "en_Open e = Inr s"
  shows "\<exists>m n. consumeEntry (text_ops seen maxLog raw) a idx e st t = text_result a maxLog raw idx
     (if over_limit a t s then s\<lparr>st_bytes := take n (st_bytes s), st_end := ErrArchiveLimitExceeded m\<rparr> else s)
     st (t + int (length (st_bytes s)))"
proof -
  obtain m n where leaf: "text_leaf seen (en_Name e) \<lparr>cp_r = s, cp_entryRead = 0,
      cp_entryLimit = al_maxEntryBytes (ap_limits a), cp_total = t, cp_totalLimit = al_maxTotalBytes (ap_limits a),
      cp_tripped = None\<rparr> (al_maxNestingDepth (ap_limits a)) =
    (Inr (if over_limit a t s then s\<lparr>st_bytes := take n (st_bytes s), st_end := ErrArchiveLimitExceeded m\<rparr> else s),
     t + int (length (st_bytes s)))"
    by (cases "al_maxEntryBytes (ap_limits a) > 0 \<and> int (length (st_bytes s)) > al_maxEntryBytes (ap_limits a)")
       (auto simp: text_leaf_def over_limit_def Let_def)
  show ?thesis
    by (intro exI [of _ m] exI [of _ n])
       (simp add: consumeEntry_def assms text_ops_def leaf text_result_def Let_def)
qed

lemma text_result_limit:
  assumes "st_end s = ErrArchiveLimitExceeded m"
  shows "\<not> unlimited (fst (text_result a maxLog raw idx s st t))"
proof -
  let ?r = "buffered maxLog s"
  have f: "fresh_reader ?r" and e: "br_end ?r = st_end s" "\<not> errors_Is (st_end s) ErrEOF"
    using assms by (simp_all add: fresh_reader_def buffered_def NewBufferedReader_def errors_Is_def)
  have cl: "classifyReadFailure (entry_raw s) x = ErrStreamRead (st_end s)" for x
    using e by (simp add: classifyReadFailure_def entry_raw_def)
  have lim: "errors_As is_archive_limit (ErrStreamRead (st_end s)) = Some (st_end s)"
    using assms by (simp add: errors_As_def)
  have lim2: "errors_As is_archive_limit (st_end s) = Some (st_end s)"
    using assms by (simp add: errors_As_def)
  show ?thesis
  proof (cases "st \<le> int (length (br_rest ?r))")
    case True
    obtain recs fin where "line_events (entry_raw s) (st_end s) (br_bufSize ?r) (br_endWithLast ?r) (int (nat st))
        (drop (nat st) (br_rest ?r)) = (map (\<lambda>(x, p). (Inr x, p)) recs @ [(Inl (ErrStreamRead (st_end s)), fin)], fin)"
      using line_events_error_end [OF e(2), of "entry_raw s" "br_bufSize ?r" "br_endWithLast ?r" "int (nat st)"
          "drop (nat st) (br_rest ?r)"] unfolding cl by blast
    with True f e have "text_parse maxLog raw s st =
        Inr (map (\<lambda>(x, off). \<lparr>pe_item = Inr x, pe_offset = off, pe_raw = raw\<rparr>) recs
              @ [\<lparr>pe_item = Inl (ErrStreamRead (st_end s)), pe_offset = fin, pe_raw = raw\<rparr>], fin)"
      by (simp add: text_parse_def lineParser_Parse_eq comp_def case_prod_beta)
    with consumeRecords_limit [OF lim] show ?thesis by (simp add: text_result_def)
  next
    case False
    with f have "text_parse maxLog raw s st = Inl (ErrStreamRead (st_end s), 0)"
      by (simp add: text_parse_def lineParser_Parse_eq cl)
    with lim lim2 show ?thesis
      by (simp add: text_result_def failOnArchiveLimit_def unlimited_def is_limit_item_def)
  qed
qed

lemma consumeRecords_total:
  "consumeRecords a idx fin t es = (items, sk, fat, off, t1) \<Longrightarrow>
     t1 = t \<and> consumeRecords a idx fin t' es = (items, sk, fat, off, t')"
  by (induction es arbitrary: items)
     (auto simp: Let_def split: sum.splits option.splits if_splits prod.splits)

lemma text_result_total:
  "text_result a maxLog raw idx s st t = (items, sk, fat, off, t1) \<Longrightarrow>
     t1 = t \<and> text_result a maxLog raw idx s st t' = (items, sk, fat, off, t')"
  by (auto simp: text_result_def failOnArchiveLimit_def split: sum.splits prod.splits option.splits
      dest: consumeRecords_total)

lemma text_result_resume:
  assumes "\<not> errors_Is (st_end s) ErrBufferFull"
    and "text_result a maxLog raw idx s st t = (xs @ (Inr r, pos) # ys, res)"
  shows "of_EntryIndex pos = idx \<and> text_result a maxLog raw idx s (of_Offset pos) t = (ys, res)"
proof -
  let ?r = "buffered maxLog s"
  have f: "fresh_reader ?r"
    using assms(1) by (simp add: fresh_reader_def buffered_def NewBufferedReader_def)
  obtain evs fin where p: "text_parse maxLog raw s st = Inr (evs, fin)"
    and c: "consumeRecords a idx fin t evs = (xs @ (Inr r, pos) # ys, res)"
    using assms(2)
    by (auto simp: text_result_def failOnArchiveLimit_def Cons_eq_append_conv append_eq_Cons_conv
        split: sum.splits prod.splits option.splits)
  obtain es1 e es2 where es: "evs = es1 @ e # es2" "pe_item e = Inr r" "pos = NewArchiveOffset idx (pe_offset e)"
    "consumeRecords a idx fin t es2 = (ys, res)"
    using consumeRecords_resume [OF c] by blast
  obtain items where items: "lineParser_Parse (entry_raw s) ?r st = Some (Inr (items, fin))"
    and evs: "evs = map (\<lambda>(it, off). \<lparr>pe_item = it, pe_offset = off, pe_raw = raw\<rparr>) items"
    using p f by (auto simp: text_parse_def lineParser_Parse_eq split: option.splits sum.splits prod.splits if_splits)
  from evs es obtain i1 p2 i2 where i: "items = i1 @ (Inr r, p2) # i2" "p2 = pe_offset e"
      "es2 = map (\<lambda>(it, off). \<lparr>pe_item = it, pe_offset = off, pe_raw = raw\<rparr>) i2"
    by (auto simp: map_eq_append_conv map_eq_Cons_conv append_eq_map_conv Cons_eq_map_conv)
  have "lineParser_Parse (entry_raw s) ?r p2 = Some (Inr (i2, fin))"
    using line.resume [OF f] items i(1) by blast
  with i es show ?thesis
    by (simp add: text_result_def text_parse_def NewArchiveOffset_def)
qed

lemma over_limit_mono: "over_limit a t' s \<Longrightarrow> t' \<le> t \<Longrightarrow> over_limit a t s"
  by (auto simp: over_limit_def)

lemma consumeEntry_text_unlimited:
  assumes "en_Open e = Inr s" and "consumeEntry (text_ops seen maxLog raw) a idx e st t = (items, sk, fat, off, t1)"
    and "unlimited items" and "t' \<le> t"
  shows "\<not> over_limit a t' s \<and> text_result a maxLog raw idx s st t1 = (items, sk, fat, off, t1)
    \<and> t1 = t + int (length (st_bytes s))
    \<and> (\<forall>st'. consumeEntry (text_ops seen maxLog raw) a idx e st' t' =
         text_result a maxLog raw idx s st' (t' + int (length (st_bytes s))))"
proof -
  have no: "\<not> over_limit a t s"
  proof
    assume over: "over_limit a t s"
    obtain m n where "consumeEntry (text_ops seen maxLog raw) a idx e st t = text_result a maxLog raw idx
        (s\<lparr>st_bytes := take n (st_bytes s), st_end := ErrArchiveLimitExceeded m\<rparr>) st (t + int (length (st_bytes s)))"
      using consumeEntry_text [OF assms(1), of seen maxLog raw a idx st t] over by auto
    with text_result_limit [of "s\<lparr>st_bytes := take n (st_bytes s), st_end := ErrArchiveLimitExceeded m\<rparr>" m a maxLog raw idx st
        "t + int (length (st_bytes s))"] assms(2,3) show False by simp
  qed
  with over_limit_mono [OF _ assms(4)] have no': "\<not> over_limit a t' s" by blast
  have eq: "consumeEntry (text_ops seen maxLog raw) a idx e st' t'' =
      text_result a maxLog raw idx s st' (t'' + int (length (st_bytes s)))" if "\<not> over_limit a t'' s" for st' t''
    using consumeEntry_text [OF assms(1), of seen maxLog raw a idx st' t''] that by auto
  have "text_result a maxLog raw idx s st (t + int (length (st_bytes s))) = (items, sk, fat, off, t1)"
    using eq [OF no] assms(2) by simp
  with text_result_total [OF this] no' eq [OF no'] show ?thesis by auto
qed

interpretation text_members: archive_members "consumeEntry (text_ops seen maxLog raw) a" text_member
  for seen :: nat and maxLog :: int and raw :: raw_status and a :: archiveProducer
proof unfold_locales
  fix e idx st t items sk fat off t1
  assume run: "consumeEntry (text_ops seen maxLog raw) a idx e st t = (items, sk, fat, off, t1)"
  show "t \<le> t1"
  proof (cases "en_Open e")
    case (Inl err)
    with run show ?thesis by (simp add: consumeEntry_def)
  next
    case (Inr s)
    obtain s' where "consumeEntry (text_ops seen maxLog raw) a idx e st t =
        text_result a maxLog raw idx s' st (t + int (length (st_bytes s)))"
      using consumeEntry_text [OF Inr, of seen maxLog raw a idx st t] by blast
    with run text_result_total show ?thesis by fastforce
  qed
next
  fix e idx st t items sk fat off t1 t'
  assume run: "consumeEntry (text_ops seen maxLog raw) a idx e st t = (items, sk, fat, off, t1)"
    and ul: "unlimited items" and le: "t' \<le> (t :: int)"
  show "\<exists>t1'\<le>t1. consumeEntry (text_ops seen maxLog raw) a idx e st t' = (items, sk, fat, off, t1')"
  proof (cases "en_Open e")
    case (Inl err)
    with run le show ?thesis by (auto simp: consumeEntry_def)
  next
    case (Inr s)
    from consumeEntry_text_unlimited [OF Inr run ul le] text_result_total le show ?thesis by fastforce
  qed
next
  fix e idx st t xs r pos ys sk fat off t1 t'
  assume v: "text_member e" and run: "consumeEntry (text_ops seen maxLog raw) a idx e st t = (xs @ (Inr r, pos) # ys, sk, fat, off, t1)"
    and ul: "unlimited (xs @ (Inr r, pos) # ys)" and le: "t' \<le> (t :: int)"
  show "of_EntryIndex pos = idx \<and>
      (\<exists>t1'\<le>t1. consumeEntry (text_ops seen maxLog raw) a idx e (of_Offset pos) t' = (ys, sk, fat, off, t1'))"
  proof (cases "en_Open e")
    case (Inl err)
    with run show ?thesis by (simp add: consumeEntry_def)
  next
    case (Inr s)
    with v have ok: "\<not> errors_Is (st_end s) ErrBufferFull" by (simp add: text_member_def)
    note c = consumeEntry_text_unlimited [OF Inr run ul le]
    from text_result_resume [OF ok, of a maxLog raw idx st t1 xs r pos ys] c
    have pos: "of_EntryIndex pos = idx"
      and res: "text_result a maxLog raw idx s (of_Offset pos) t1 = (ys, sk, fat, off, t1)" by auto
    have "text_result a maxLog raw idx s (of_Offset pos) (t' + int (length (st_bytes s)))
        = (ys, sk, fat, off, t' + int (length (st_bytes s)))"
      using text_result_total [OF res] by blast
    with pos c le show ?thesis by auto
  qed
qed

section \<open>The properties of the producer\<close>

text \<open>
  C9. An archive of text members that stays below its limits can be resumed behind any record:
  a run from the position that went with the record yields exactly what the first run still had
  to yield, with the same positions, whichever members were skipped or unreadable and however
  the archive ends. Members before the position are not opened again.
\<close>

theorem archive_resume_exact:
  assumes "\<forall>e\<in>set (be_entries be). text_member e"
    and "archive_Records (consumeEntry (text_ops seen maxLog raw) a) a be start = (xs @ (Inr r, pos) # ys, sk)"
    and "unlimited (xs @ (Inr r, pos) # ys)"
  shows "\<exists>sk'. archive_Records (consumeEntry (text_ops seen maxLog raw) a) a be pos = (ys, sk')"
  using assms by (rule text_members.resume_exact)

lemma append_single_Cons: "xs @ x # ys = us @ [v] \<Longrightarrow> x \<notin> set us \<Longrightarrow> ys = [] \<and> x = v"
  by (cases ys rule: rev_cases) auto

lemma consumeRecords_limit_last:
  "consumeRecords a idx fin t es = (xs @ it # ys, sk, fat, off, t1) \<Longrightarrow> is_limit_item it \<Longrightarrow> ys = [] \<and> fat"
proof (induction es arbitrary: xs)
  case (Cons e es)
  obtain items res where rest: "consumeRecords a idx fin t es = (items, res)" by (metis surj_pair)
  have step: "(\<exists>x. \<not> is_limit_item x \<and> consumeRecords a idx fin t (e # es) = (x # items, res))
      \<or> (\<exists>its s f o'. consumeRecords a idx fin t (e # es) = (its, s, f, o', t) \<and> (its = [] \<or> f \<and> (\<exists>x. its = [x])))"
    using rest by (auto simp: Let_def is_limit_item_def split: sum.splits option.splits if_splits)
  then show ?case
  proof (elim disjE exE conjE)
    fix x assume nl: "\<not> is_limit_item x" and eq: "consumeRecords a idx fin t (e # es) = (x # items, res)"
    with Cons.prems obtain xs' where "xs = x # xs'" and "(items, res) = (xs' @ it # ys, sk, fat, off, t1)"
      by (cases xs) auto
    with Cons.IH rest Cons.prems(2) show ?case by metis
  qed (use Cons.prems in \<open>auto simp: Cons_eq_append_conv append_eq_Cons_conv\<close>)
qed simp

lemma consumeEntry_limit_last:
  "consumeEntry ops a idx e st t = (xs @ it # ys, sk, fat, off, t1) \<Longrightarrow> is_limit_item it \<Longrightarrow> ys = [] \<and> fat"
  by (auto simp: consumeEntry_def failOnArchiveLimit_def Let_def Cons_eq_append_conv append_eq_Cons_conv
      split: sum.splits prod.splits option.splits dest: consumeRecords_limit_last)

lemma consumeRecords_fatal_error:
  "consumeRecords a idx fin t es = (items, sk, True, off, t1) \<Longrightarrow> \<exists>e pos. (Inl e, pos) \<in> set items"
proof (induction es arbitrary: items)
  case (Cons e es)
  obtain items' res where rest: "consumeRecords a idx fin t es = (items', res)" by (metis surj_pair)
  with Cons show ?case
    by (auto simp: Let_def split: sum.splits option.splits if_splits) blast+
qed simp

lemma consumeEntry_fatal_error:
  "consumeEntry ops a idx e st t = (items, sk, True, off, t1) \<Longrightarrow> \<exists>e pos. (Inl e, pos) \<in> set items"
  by (auto simp: consumeEntry_def failOnArchiveLimit_def Let_def
      split: sum.splits prod.splits option.splits dest: consumeRecords_fatal_error)

lemma consumeRecords_index: "(x, pos) \<in> set (fst (consumeRecords a idx fin t es)) \<Longrightarrow> of_EntryIndex pos = idx"
  by (induction es) (auto simp: Let_def NewArchiveOffset_def split: sum.splits option.splits if_splits prod.splits)

lemma consumeEntry_index: "(x, pos) \<in> set (fst (consumeEntry ops a idx e st t)) \<Longrightarrow> of_EntryIndex pos = idx"
  by (auto simp: consumeEntry_def failOnArchiveLimit_def Let_def NewArchiveOffset_def
      split: sum.splits prod.splits option.splits dest: consumeRecords_index)

lemma loop_limit_last:
  "Records_loop (consumeEntry ops a) a start en raw idx p0 t entries = (xs @ it # ys, sk) \<Longrightarrow>
     is_limit_item it \<Longrightarrow> ys = []"
proof (induction entries arbitrary: idx p0 t xs sk)
  case Nil
  then show ?case by (auto simp: Cons_eq_append_conv split: if_splits)
next
  case (Cons e es)
  let ?st = "if idx = of_EntryIndex start then of_Offset start else 0"
  show ?case
  proof (cases "idx \<ge> al_maxEntries (ap_limits a) \<or> en_IsDir e \<or> idx < of_EntryIndex start")
    case True
    with Cons show ?thesis by (auto simp: Cons_eq_append_conv split: if_splits)
  next
    case False
    obtain its s f off t1 where run: "consumeEntry ops a idx e ?st t = (its, s, f, off, t1)" by (metis prod_cases5)
    obtain rest skips where rest: "Records_loop (consumeEntry ops a) a start en raw (Suc idx)
        (NewArchiveOffset idx (case off of None \<Rightarrow> 0 | Some o' \<Rightarrow> o')) t1 es = (rest, skips)" by fastforce
    have items: "xs @ it # ys = its @ (if f then [] else rest)"
      using Cons.prems(1) False run rest by (auto simp: Let_def split: if_splits)
    from items show ?thesis
    proof (cases rule: append_Cons_split)
      case (left its2)
      with consumeEntry_limit_last [OF run [unfolded left(1)] Cons.prems(2)] show ?thesis by simp
    next
      case (right xs')
      then have "rest = xs' @ it # ys" by (cases f) auto
      with Cons.IH rest Cons.prems(2) show ?thesis by blast
    qed
  qed
qed

lemma loop_index:
  "idx \<le> al_maxEntries (ap_limits a) \<Longrightarrow> of_EntryIndex p0 \<le> al_maxEntries (ap_limits a) \<Longrightarrow>
   (x, pos) \<in> set (fst (Records_loop (consumeEntry ops a) a start en raw idx p0 t entries)) \<Longrightarrow>
     of_EntryIndex pos \<le> al_maxEntries (ap_limits a)"
proof (induction entries arbitrary: idx p0 t)
  case (Cons e es)
  let ?st = "if idx = of_EntryIndex start then of_Offset start else 0"
  show ?case
  proof (cases "idx \<ge> al_maxEntries (ap_limits a) \<or> en_IsDir e \<or> idx < of_EntryIndex start")
    case True
    then show ?thesis
      using Cons.prems Cons.IH [of "Suc idx" "NewArchiveOffset idx 0" t]
      by (cases "idx \<ge> al_maxEntries (ap_limits a)") (simp_all add: NewArchiveOffset_def)
  next
    case False
    obtain its s f off t1 where run: "consumeEntry ops a idx e ?st t = (its, s, f, off, t1)" by (metis prod_cases5)
    obtain rest skips where rest: "Records_loop (consumeEntry ops a) a start en raw (Suc idx)
        (NewArchiveOffset idx (case off of None \<Rightarrow> 0 | Some o' \<Rightarrow> o')) t1 es = (rest, skips)" by fastforce
    have "(x, pos) \<in> set its \<or> (x, pos) \<in> set rest"
      using Cons.prems(3) False run rest by (auto simp: Let_def split: if_splits)
    then show ?thesis
    proof
      assume "(x, pos) \<in> set its"
      with consumeEntry_index [of x pos ops a idx e ?st t] run False show ?thesis by simp
    next
      assume "(x, pos) \<in> set rest"
      with Cons.IH [of "Suc idx" "NewArchiveOffset idx (case off of None \<Rightarrow> 0 | Some o' \<Rightarrow> o')" t1] rest False
      show ?thesis by (simp add: NewArchiveOffset_def)
    qed
  qed
qed (auto split: if_splits)

text \<open>
  A member's parser that stops at an error which is left to the enumeration of the members: the
  object's own stream, complete as far as is known, ran out inside a streamed member.
\<close>

definition leaves_to_enumeration :: "archiveProducer \<Rightarrow> 'r parse_event \<Rightarrow> bool" where
  "leaves_to_enumeration a e =
     (case pe_item e of
        Inr r \<Rightarrow> False
      | Inl rerr \<Rightarrow> IsStreamRead rerr \<and> errors_Is rerr ErrUnexpectedEOF \<and> ap_hasReader a
          \<and> raw_readErr (pe_raw e) = None \<and> \<not> RawTruncated (pe_raw e) \<and> raw_atEOF (pe_raw e)
          \<and> \<not> ap_materialized a)"

definition all_records :: "'r produced \<Rightarrow> bool" where
  "all_records items = (\<forall>it\<in>set items. case fst it of Inl e \<Rightarrow> False | Inr r \<Rightarrow> True)"

text \<open>
  What a member that is read in full comes to: it opens, its leaf and its parser are there, and every item of
  its parser, from the offset the run starts at, is delivered with its position.
\<close>

definition events_of :: "nat \<Rightarrow> 'r parse_event list \<Rightarrow> 'r produced" where
  "events_of idx evs = map (\<lambda>ev. (pe_item ev, NewArchiveOffset idx (pe_offset ev))) evs"

definition member_capped :: "archiveProducer \<Rightarrow> 'src \<Rightarrow> int \<Rightarrow> 'src cappingReader" where
  "member_capped a er t =
     \<lparr>cp_r = er, cp_entryRead = 0, cp_entryLimit = al_maxEntryBytes (ap_limits a), cp_total = t,
      cp_totalLimit = al_maxTotalBytes (ap_limits a), cp_tripped = None\<rparr>"

definition member_read ::
    "('src, 'leaf, 'p, 'r) entry_ops \<Rightarrow> archiveProducer \<Rightarrow> nat \<Rightarrow> 'src archiveEntry \<Rightarrow> int \<Rightarrow> int \<Rightarrow> 'r produced \<Rightarrow> int \<Rightarrow> bool" where
  "member_read ops a idx e st t its t' \<longleftrightarrow>
     (\<exists>er leaf t1 p t2 evs fin. en_Open e = Inr er
        \<and> eo_leaf ops (en_Name e) (member_capped a er t) (al_maxNestingDepth (ap_limits a)) = (Inr leaf, t1)
        \<and> eo_newParser ops leaf t1 = (Inr p, t2) \<and> eo_Parse ops p st t2 = (Inr (evs, fin), t')
        \<and> its = events_of idx evs)"

text \<open>
  What a member that is given up comes to: it does not open, or has no readable content, or no parser, or cannot
  be parsed from that offset, or its parser comes to an error that condemns the content or the stream of
  this member; the records before that error are delivered. None of these errors carries an archive limit.
\<close>

definition no_limit :: "go_error \<Rightarrow> bool" where
  "no_limit e \<longleftrightarrow> errors_As is_archive_limit e = None"

definition member_unreadable ::
    "('src, 'leaf, 'p, 'r) entry_ops \<Rightarrow> archiveProducer \<Rightarrow> nat \<Rightarrow> 'src archiveEntry \<Rightarrow> int \<Rightarrow> int \<Rightarrow> 'r produced \<Rightarrow> int \<Rightarrow> bool" where
  "member_unreadable ops a idx e st t its t' \<longleftrightarrow>
     (\<exists>err. en_Open e = Inl err) \<and> its = [] \<and> t' = t
   \<or> (\<exists>er err. en_Open e = Inr er \<and> no_limit err \<and> its = []
        \<and> eo_leaf ops (en_Name e) (member_capped a er t) (al_maxNestingDepth (ap_limits a)) = (Inl err, t'))
   \<or> (\<exists>er leaf t1. en_Open e = Inr er
        \<and> eo_leaf ops (en_Name e) (member_capped a er t) (al_maxNestingDepth (ap_limits a)) = (Inr leaf, t1)
        \<and> ((\<exists>err. eo_newParser ops leaf t1 = (Inl err, t')) \<and> its = []
           \<or> (\<exists>p t2. eo_newParser ops leaf t1 = (Inr p, t2)
               \<and> ((\<exists>err off. eo_Parse ops p st t2 = (Inl (err, off), t') \<and> no_limit err) \<and> its = []
                  \<or> (\<exists>pre ev post fin rerr. eo_Parse ops p st t2 = (Inr (pre @ ev # post, fin), t')
                        \<and> its = events_of idx pre \<and> pe_item ev = Inl rerr \<and> no_limit rerr
                        \<and> (isUnusableContent (Some rerr) \<or> IsStreamRead rerr))))))"

text \<open>
  A run accounts for the members it goes through, each with its index: each is read in full and not counted,
  or given up and counted by its name; what was read of the archive goes on from member to member.
\<close>

fun accounted ::
    "('src, 'leaf, 'p, 'r) entry_ops \<Rightarrow> archiveProducer \<Rightarrow> Offset \<Rightarrow> int \<Rightarrow> (nat \<times> 'src archiveEntry) list
       \<Rightarrow> 'r produced \<Rightarrow> string list \<Rightarrow> bool" where
  "accounted ops a start t [] items names \<longleftrightarrow> items = [] \<and> names = []"
| "accounted ops a start t ((idx, e) # ms) items names \<longleftrightarrow>
     (\<exists>its rest names' t'. items = its @ rest \<and> accounted ops a start t' ms rest names'
        \<and> (let st = (if idx = of_EntryIndex start then of_Offset start else 0)
           in member_read ops a idx e st t its t' \<and> names = names'
              \<or> member_unreadable ops a idx e st t its t' \<and> names = en_Name e # names'))"

lemma consumeRecords_fates:
  assumes "\<forall>e\<in>set es. \<not> leaves_to_enumeration a e"
  shows "consumeRecords a idx fin t es = (items, sk, fat, off, t1) \<Longrightarrow> all_records items \<Longrightarrow>
     \<not> fat \<and> t1 = t
     \<and> (if sk then \<exists>pre ev post rerr. es = pre @ ev # post \<and> items = events_of idx pre \<and> pe_item ev = Inl rerr
                   \<and> no_limit rerr \<and> (isUnusableContent (Some rerr) \<or> IsStreamRead rerr)
        else items = events_of idx es)"
  using assms
proof (induction es arbitrary: items)
  case (Cons e es)
  obtain items' res where rest: "consumeRecords a idx fin t es = (items', res)" by (metis surj_pair)
  show ?case
  proof (cases "pe_item e")
    case (Inl err)
    have lim: "errors_As is_archive_limit err = None"
      using Inl Cons.prems rest by (auto simp: Let_def all_records_def split: option.splits)
    have "isUnusableContent (Some err) \<or> IsStreamRead err"
      using Inl lim Cons.prems rest by (auto simp: Let_def all_records_def split: if_splits)
    moreover have "items = [] \<and> sk \<and> \<not> fat \<and> t1 = t"
      using Inl lim Cons.prems rest
      by (auto simp: Let_def all_records_def leaves_to_enumeration_def split: if_splits)
    ultimately show ?thesis using Inl lim
      by (auto simp: events_of_def no_limit_def intro!: exI [of _ "[]"])
  next
    case (Inr r)
    then have items: "items = (Inr r, NewArchiveOffset idx (pe_offset e)) # items'" and res: "res = (sk, fat, off, t1)"
      using Cons.prems(1) rest by (simp_all add: Let_def)
    have "all_records items'" using Cons.prems(2) items by (simp add: all_records_def)
    from Cons.IH [OF rest [unfolded res] this] Cons.prems(3)
    have IH: "\<not> fat \<and> t1 = t
     \<and> (if sk then \<exists>pre ev post rerr. es = pre @ ev # post \<and> items' = events_of idx pre \<and> pe_item ev = Inl rerr
                   \<and> no_limit rerr \<and> (isUnusableContent (Some rerr) \<or> IsStreamRead rerr)
        else items' = events_of idx es)" by fastforce
    show ?thesis
    proof (cases sk)
      case True
      with IH obtain pre ev post rerr where "es = pre @ ev # post" "items' = events_of idx pre" "pe_item ev = Inl rerr"
        "no_limit rerr" "isUnusableContent (Some rerr) \<or> IsStreamRead rerr" by auto
      then have "e # es = (e # pre) @ ev # post" "items = events_of idx (e # pre)"
        using items Inr by (simp_all add: events_of_def)
      with True IH \<open>pe_item ev = Inl rerr\<close> \<open>no_limit rerr\<close> \<open>isUnusableContent _ \<or> _\<close> show ?thesis by metis
    next
      case False
      with IH items Inr show ?thesis by (simp add: events_of_def)
    qed
  qed
qed (simp add: events_of_def)

lemma consumeEntry_fates:
  assumes "consumeEntry ops a idx e st t = (items, sk, fat, off, t1)" and "all_records items"
    and "\<And>p st t evs fin t'. eo_Parse ops p st t = (Inr (evs, fin), t') \<Longrightarrow>
      \<forall>ev\<in>set evs. \<not> leaves_to_enumeration a ev"
  shows "\<not> fat \<and> (if sk then member_unreadable ops a idx e st t items t1 else member_read ops a idx e st t items t1)"
proof (cases "en_Open e")
  case (Inl err)
  with assms(1) show ?thesis by (auto simp: consumeEntry_def member_unreadable_def)
next
  case (Inr er)
  have fail: "no_limit err \<and> items = [] \<and> sk \<and> \<not> fat \<and> t1 = t'"
    if "failOnArchiveLimit idx o' t' err = (items, sk, fat, off, t1)" for o' t' err
    using that assms(2) by (auto simp: failOnArchiveLimit_def all_records_def no_limit_def split: option.splits)
  note entry = assms(1) [unfolded consumeEntry_def Inr sum.case Let_def, folded member_capped_def]
  obtain l t2 where leaf: "eo_leaf ops (en_Name e) (member_capped a er t) (al_maxNestingDepth (ap_limits a)) = (l, t2)"
    by fastforce
  show ?thesis
  proof (cases l)
    case l: (Inl err)
    with entry leaf fail [of None t2 err] Inr show ?thesis by (auto simp: member_unreadable_def)
  next
    case l: (Inr lf)
    obtain q t3 where parser: "eo_newParser ops lf t2 = (q, t3)" by fastforce
    show ?thesis
    proof (cases q)
      case (Inl err)
      with entry leaf l parser Inr show ?thesis by (auto simp: member_unreadable_def)
    next
      case q: (Inr p)
      obtain r t4 where parse: "eo_Parse ops p st t3 = (r, t4)" by fastforce
      show ?thesis
      proof (cases r)
        case r: (Inl eo)
        obtain err o' where eo: "eo = (err, o')" by fastforce
        have "failOnArchiveLimit idx (Some o') t4 err = (items, sk, fat, off, t1)"
          using entry leaf l parser q parse r eo by simp
        from fail [OF this] Inr leaf l parser q parse r eo show ?thesis by (auto simp: member_unreadable_def)
      next
        case r: (Inr ef)
        obtain evs fin where ef: "ef = (evs, fin)" by fastforce
        have "consumeRecords a idx fin t4 evs = (items, sk, fat, off, t1)"
          using entry leaf l parser q parse r ef by simp
        from consumeRecords_fates [OF assms(3) this assms(2)] parse r ef
        have f: "\<not> fat" "t1 = t4" "if sk then \<exists>pre ev post rerr. evs = pre @ ev # post \<and> items = events_of idx pre
              \<and> pe_item ev = Inl rerr \<and> no_limit rerr \<and> (isUnusableContent (Some rerr) \<or> IsStreamRead rerr)
            else items = events_of idx evs" by auto
        note at = Inr leaf [unfolded l] parser [unfolded q] parse [unfolded r ef]
        show ?thesis
        proof (cases sk)
          case True
          with f(3) obtain pre ev post rerr where e: "evs = pre @ ev # post" "items = events_of idx pre"
              "pe_item ev = Inl rerr" "no_limit rerr" "isUnusableContent (Some rerr) \<or> IsStreamRead rerr" by auto
          have "member_unreadable ops a idx e st t items t1"
            unfolding member_unreadable_def f(2)
            by (rule disjI2, rule disjI2) (use at e in blast)
          with True f(1) show ?thesis by simp
        next
          case False
          with at f show ?thesis unfolding member_read_def by auto
        qed
      qed
    qed
  qed
qed

definition selected :: "nat \<Rightarrow> nat \<times> 'src archiveEntry \<Rightarrow> bool" where
  "selected first ie = (\<not> en_IsDir (snd ie) \<and> first \<le> fst ie)"

lemma loop_accounts:
  assumes "\<And>p st t evs fin t'. eo_Parse ops p st t = (Inr (evs, fin), t') \<Longrightarrow>
      \<forall>ev\<in>set evs. \<not> leaves_to_enumeration a ev"
  shows "Records_loop (consumeEntry ops a) a start en raw idx p0 t entries = (items, sk) \<Longrightarrow> all_records items \<Longrightarrow>
     accounted ops a start t (filter (selected (of_EntryIndex start)) (enumerate idx entries)) items sk
     \<and> (entries \<noteq> [] \<longrightarrow> idx + length entries \<le> al_maxEntries (ap_limits a)) \<and> errors_Is en ErrEOF"
proof (induction entries arbitrary: idx p0 t items sk)
  case Nil
  then show ?case by (auto simp: all_records_def split: if_splits)
next
  case (Cons e es)
  let ?st = "if idx = of_EntryIndex start then of_Offset start else 0"
  have small: "\<not> idx \<ge> al_maxEntries (ap_limits a)"
    using Cons.prems by (auto simp: all_records_def)
  show ?case
  proof (cases "en_IsDir e \<or> idx < of_EntryIndex start")
    case True
    then have "\<not> selected (of_EntryIndex start) (idx, e)" by (auto simp: selected_def)
    with Cons.IH [of "Suc idx" "NewArchiveOffset idx 0" t items sk] Cons.prems True small
    show ?thesis by (cases es) auto
  next
    case False
    then have sel: "selected (of_EntryIndex start) (idx, e)" by (auto simp: selected_def)
    obtain its s f off t1 where run: "consumeEntry ops a idx e ?st t = (its, s, f, off, t1)" by (metis prod_cases5)
    obtain rest skips where rest: "Records_loop (consumeEntry ops a) a start en raw (Suc idx)
        (NewArchiveOffset idx (case off of None \<Rightarrow> 0 | Some o' \<Rightarrow> o')) t1 es = (rest, skips)" by fastforce
    have its: "all_records its"
      using Cons.prems False small run rest by (auto simp: Let_def all_records_def split: if_splits)
    from consumeEntry_fates [OF run its] assms have nf: "\<not> f"
      and fate: "if s then member_unreadable ops a idx e ?st t its t1 else member_read ops a idx e ?st t its t1" by auto
    with Cons.prems False small run rest have eq: "items = its @ rest" "sk = (if s then [en_Name e] else []) @ skips"
      and ar: "all_records rest" by (auto simp: Let_def all_records_def)
    have "accounted ops a start t ((idx, e) # filter (selected (of_EntryIndex start)) (enumerate (Suc idx) es)) items sk"
      unfolding accounted.simps Let_def
      by (intro exI [of _ its] exI [of _ rest] exI [of _ skips] exI [of _ t1]) (use Cons.IH [OF rest ar] fate eq in auto)
    with sel Cons.IH [OF rest ar] small show ?thesis by (cases es) auto
  qed
qed

text \<open>
  C10. Nothing of an archive is lost without a trace. When a run reports no error, the enumeration came to
  its end within the permitted number of members, and every member that was to be read is accounted for, in
  order: either its parser was run from where the run starts and all of its items were delivered as
  records with their positions, and it is not counted as a parse error; or it is counted by its name,
  because it could not be opened, unpacked or parsed or an error condemned its content, no archive limit
  being the cause, and the records before the error were delivered. Nothing else is delivered or counted.
  The members' parsers must leave no truncation to the enumeration, which holds of random-access archives
  and of streams that did not run out.
\<close>

theorem archive_accounts_for_members:
  assumes "archive_Records (consumeEntry ops a) a be start = (items, sk)" and "all_records items"
    and "\<And>p st t evs fin t'. eo_Parse ops p st t = (Inr (evs, fin), t') \<Longrightarrow>
      \<forall>ev\<in>set evs. \<not> leaves_to_enumeration a ev"
  shows "accounted ops a start 0 (filter (selected (of_EntryIndex start)) (enumerate 0 (be_entries be))) items sk
    \<and> length (be_entries be) \<le> al_maxEntries (ap_limits a) \<and> errors_Is (be_end be) ErrEOF"
proof -
  have "accounted ops a start 0 (filter (selected (of_EntryIndex start)) (enumerate 0 (be_entries be))) items sk
      \<and> (be_entries be \<noteq> [] \<longrightarrow> 0 + length (be_entries be) \<le> al_maxEntries (ap_limits a)) \<and> errors_Is (be_end be) ErrEOF"
    by (rule loop_accounts [OF assms(3) assms(1) [unfolded archive_Records_def] assms(2)])
  then show ?thesis by (cases "be_entries be") simp_all
qed

text \<open>
  When a limit trips in an archive of text members: the bytes that are read of the members gone through before
  (those opened, from the first one that is to be read), and the member at which a limit is passed, the
  number of members, the size of one, or the size of all that is read.
\<close>

definition opened_bytes :: "stream archiveEntry \<Rightarrow> int" where
  "opened_bytes e = (case en_Open e of Inl err \<Rightarrow> 0 | Inr s \<Rightarrow> int (length (st_bytes s)))"

definition read_before :: "nat \<Rightarrow> nat \<Rightarrow> stream archiveEntry list \<Rightarrow> int" where
  "read_before first idx es = sum_list (map (opened_bytes \<circ> snd) (filter (selected first) (enumerate idx es)))"

definition trips :: "archiveProducer \<Rightarrow> nat \<Rightarrow> int \<Rightarrow> nat \<Rightarrow> stream archiveEntry list \<Rightarrow> nat \<Rightarrow> bool" where
  "trips a first t idx entries j \<longleftrightarrow>
     al_maxEntries (ap_limits a) \<le> idx + j
     \<or> selected first (idx + j, entries ! j)
       \<and> (\<exists>s. en_Open (entries ! j) = Inr s \<and> over_limit a (t + read_before first idx (take j entries)) s)"

lemma trips_Suc:
  "trips a first t idx (e # es) (Suc j)
     = trips a first (t + (if selected first (idx, e) then opened_bytes e else 0)) (Suc idx) es j"
  by (simp add: trips_def read_before_def algebra_simps)

lemma trips_0:
  "trips a first t idx (e # es) 0 = (al_maxEntries (ap_limits a) \<le> idx
     \<or> selected first (idx, e) \<and> (\<exists>s. en_Open e = Inr s \<and> over_limit a t s))"
  by (simp add: trips_def read_before_def)

text \<open>A text member whose stream does not itself end in the error of a limit brings no limit error.\<close>

definition clean_text :: "stream archiveEntry \<Rightarrow> bool" where
  "clean_text e = (case en_Open e of Inl err \<Rightarrow> True
     | Inr s \<Rightarrow> \<not> errors_Is (st_end s) ErrBufferFull \<and> no_limit (st_end s))"

lemma line_events_errors:
  "(Inl x, p) \<in> set (fst (line_events raw e b wl off s)) \<Longrightarrow>
     x = classifyReadFailure raw e \<or> x = classifyReadFailure raw ErrUnexpectedEOF"
proof (induction "length s" arbitrary: s off rule: less_induct)
  case less
  show ?case
  proof (cases "next_line (buf_len b) wl s")
    case None
    then show ?thesis using less.prems
      by (auto simp: line_events.simps [of raw e b wl off s] line_tail_def split: if_splits)
  next
    case (Some lk)
    obtain l k where lk: "lk = (l, k)" by fastforce
    have "length (drop k s) < length s"
      using next_line_consumes [OF Some [unfolded lk]] buf_len_ge [of b] by simp
    moreover have "(Inl x, p) \<in> set (fst (line_events raw e b wl (off + int k) (drop k s)))"
      using less.prems by (auto simp: line_events.simps [of raw e b wl off s] Some lk split: prod.splits if_splits)
    ultimately show ?thesis using less.hyps by blast
  qed
qed

lemma no_limit_classify:
  assumes "no_limit (st_end s)" and "no_limit x"
  shows "no_limit (classifyReadFailure (entry_raw s) x)"
  using assms by (auto simp: no_limit_def classifyReadFailure_def entry_raw_def errors_As_None)

lemma consumeRecords_no_limit:
  assumes "\<forall>e\<in>set es. \<forall>x. pe_item e = Inl x \<longrightarrow> no_limit x"
  shows "consumeRecords a idx fin t es = (items, sk, fat, off, t1) \<Longrightarrow> \<not> fat \<and> unlimited items"
  using assms
proof (induction es arbitrary: items)
  case (Cons e es)
  obtain items' res where rest: "consumeRecords a idx fin t es = (items', res)" by (metis surj_pair)
  show ?case
  proof (cases "pe_item e")
    case (Inl x)
    with Cons.prems(2) have "errors_As is_archive_limit x = None" by (simp add: no_limit_def)
    with Inl Cons rest show ?thesis
      by (auto simp: Let_def unlimited_def is_limit_item_def split: if_splits)
  next
    case (Inr r)
    with Cons rest show ?thesis by (auto simp: Let_def unlimited_def is_limit_item_def)
  qed
qed (simp add: unlimited_def)

lemma text_result_no_limit:
  assumes "no_limit (st_end s)" and "\<not> errors_Is (st_end s) ErrBufferFull"
    and "text_result a maxLog raw idx s st t = (items, sk, fat, off, t1)"
  shows "\<not> fat \<and> unlimited items"
proof -
  have f: "fresh_reader (buffered maxLog s)" and e: "br_end (buffered maxLog s) = st_end s"
    using assms(2) by (simp_all add: fresh_reader_def buffered_def NewBufferedReader_def)
  have un: "no_limit ErrUnexpectedEOF" by (simp add: no_limit_def errors_As_def)
  show ?thesis
  proof (cases "text_parse maxLog raw s st")
    case (Inl eo)
    obtain x o' where eo: "eo = (x, o')" by fastforce
    have "x = classifyReadFailure (entry_raw s) (st_end s) \<or> x = classifyReadFailure (entry_raw s) ErrUnexpectedEOF"
      using Inl eo e by (auto simp: text_parse_def lineParser_Parse_eq [OF f] split: if_splits prod.splits)
    then have "no_limit x" using no_limit_classify [OF assms(1)] un assms(1) by blast
    with assms(3) Inl eo show ?thesis
      by (auto simp: text_result_def failOnArchiveLimit_def no_limit_def unlimited_def)
  next
    case (Inr ef)
    obtain evs fin where ef: "ef = (evs, fin)" by fastforce
    have "no_limit x" if ev: "ev \<in> set evs" "pe_item ev = Inl x" for ev x
    proof -
      let ?r = "buffered maxLog s"
      have le: "st \<le> int (length (br_rest ?r))"
        using Inr by (auto simp: text_parse_def lineParser_Parse_eq [OF f] split: if_splits)
      obtain li fin' where li: "line_events (entry_raw s) (st_end s) (br_bufSize ?r) (br_endWithLast ?r) (int (nat st))
          (drop (nat st) (br_rest ?r)) = (li, fin')" by fastforce
      have "evs = map (\<lambda>(it, off). \<lparr>pe_item = it, pe_offset = off, pe_raw = raw\<rparr>) li"
        using Inr ef le li e by (simp add: text_parse_def lineParser_Parse_eq [OF f])
      then obtain p where "(Inl x, p) \<in> set li" using ev by auto
      with li have "(Inl x, p) \<in> set (fst (line_events (entry_raw s) (st_end s) (br_bufSize ?r) (br_endWithLast ?r)
          (int (nat st)) (drop (nat st) (br_rest ?r))))" by simp
      from line_events_errors [OF this] show ?thesis using no_limit_classify [OF assms(1)] un assms(1) by blast
    qed
    moreover have "consumeRecords a idx fin t evs = (items, sk, fat, off, t1)"
      using assms(3) Inr ef by (simp add: text_result_def)
    ultimately show ?thesis using consumeRecords_no_limit by blast
  qed
qed

lemma limit_item_error: "is_limit_item it \<longleftrightarrow> (\<exists>e pos. it = (Inl e, pos) \<and> errors_As is_archive_limit e \<noteq> None)"
  by (cases it) (auto simp: is_limit_item_def split: sum.splits)

text \<open>The items of a member that trips a limit end in the error of the limit, the only such item.\<close>

lemma consumeEntry_limit_end:
  assumes "consumeEntry ops a idx e st t = (its, sk, fat, off, t1)" and "\<not> unlimited its"
  shows "fat \<and> (\<exists>xs err pos. its = xs @ [(Inl err, pos)] \<and> unlimited xs \<and> errors_As is_archive_limit err \<noteq> None
     \<and> of_EntryIndex pos = idx)"
proof -
  obtain it where "it \<in> set its" and lim: "is_limit_item it" using assms(2) by (auto simp: unlimited_def)
  then obtain xs ys where its: "its = xs @ it # ys" by (meson split_list)
  from consumeEntry_limit_last [OF assms(1) [unfolded its] lim] have ys: "ys = []" and f: fat by simp_all
  have "unlimited xs"
    unfolding unlimited_def
  proof (intro ballI notI)
    fix x assume "x \<in> set xs" and x: "is_limit_item x"
    then obtain us vs where "xs = us @ x # vs" by (meson split_list)
    with consumeEntry_limit_last [of ops a idx e st t us x "vs @ it # ys" sk fat off t1] assms(1) its x
    show False by simp
  qed
  moreover obtain err pos where it: "it = (Inl err, pos)" "errors_As is_archive_limit err \<noteq> None"
    using lim by (auto simp: limit_item_error)
  moreover have "of_EntryIndex pos = idx"
    using consumeEntry_index [of "Inl err" pos ops a idx e st t] assms(1) its it by simp
  ultimately show ?thesis using its ys f by blast
qed

lemma loop_trips:
  assumes "errors_Is en ErrEOF \<or> no_limit (archive_next_error (if ap_hasReader a then Some raw else None) (ap_format a) en)"
  shows "\<forall>e\<in>set entries. clean_text e \<Longrightarrow>
     Records_loop (consumeEntry (text_ops seen maxLog r) a) a start en raw idx p0 t entries = (items, sk) \<Longrightarrow>
     (if \<exists>j<length entries. trips a (of_EntryIndex start) t idx entries j
      then \<exists>xs err pos j. items = xs @ [(Inl err, pos)] \<and> unlimited xs \<and> errors_As is_archive_limit err \<noteq> None
             \<and> j < length entries \<and> trips a (of_EntryIndex start) t idx entries j
             \<and> (\<forall>i<j. \<not> trips a (of_EntryIndex start) t idx entries i) \<and> of_EntryIndex pos = idx + j
      else unlimited items)"
proof (induction entries arbitrary: idx p0 t items sk)
  case Nil
  then show ?case using assms by (auto simp: unlimited_def is_limit_item_def no_limit_def split: if_splits)
next
  case (Cons e es)
  let ?st = "if idx = of_EntryIndex start then of_Offset start else 0"
  let ?trips = "trips a (of_EntryIndex start) t idx (e # es)"
  have first: ?case if "?trips 0" "items = xs @ [(Inl err, pos)]" "unlimited xs" "errors_As is_archive_limit err \<noteq> None"
    "of_EntryIndex pos = idx" for xs err pos
  proof -
    have "\<exists>j<length (e # es). ?trips j" using that(1) by auto
    then show ?thesis using that by (simp only: if_True) (intro exI [of _ xs] exI [of _ err] exI [of _ pos] exI [of _ 0], simp)
  qed
  have later: ?case if "\<not> ?trips 0" "items = its @ rest" "unlimited its"
    and run: "Records_loop (consumeEntry (text_ops seen maxLog r) a) a start en raw (Suc idx) p1 t1 es = (rest, skips)"
    and t1: "t1 = t + (if selected (of_EntryIndex start) (idx, e) then opened_bytes e else 0)" for its rest p1 t1 skips
  proof -
    have suc: "?trips (Suc j) = trips a (of_EntryIndex start) t1 (Suc idx) es j" for j
      by (simp add: trips_Suc t1)
    have ex: "(\<exists>j<length (e # es). ?trips j) \<longleftrightarrow> (\<exists>j<length es. trips a (of_EntryIndex start) t1 (Suc idx) es j)"
      using that(1) suc by (auto simp: Ex_less_Suc2)
    show ?thesis
    proof (cases "\<exists>j<length es. trips a (of_EntryIndex start) t1 (Suc idx) es j")
      case True
      with Cons.IH [OF _ run] Cons.prems(1) obtain xs err pos j where
        "rest = xs @ [(Inl err, pos)]" "unlimited xs" "errors_As is_archive_limit err \<noteq> None"
        "j < length es" "?trips (Suc j)" "\<forall>i<j. \<not> ?trips (Suc i)" "of_EntryIndex pos = Suc idx + j"
        unfolding suc by auto
      moreover from this have "\<forall>i<Suc j. \<not> ?trips i" using that(1) by (simp add: All_less_Suc2)
      ultimately show ?thesis using that(2,3) True ex
        by (simp only: if_True)
           (intro exI [of _ "its @ xs"] exI [of _ err] exI [of _ pos] exI [of _ "Suc j"], auto simp: unlimited_def)
    next
      case False
      with Cons.IH [OF _ run] Cons.prems(1) that(2,3) ex show ?thesis by (auto simp: unlimited_def)
    qed
  qed
  show ?case
  proof (cases "idx \<ge> al_maxEntries (ap_limits a)")
    case True
    show ?thesis
      by (rule first [where xs = "[]"])
         (use True Cons.prems(2) in \<open>auto simp: trips_0 unlimited_def errors_As_def NewArchiveOffset_def\<close>)
  next
    case small: False
    show ?thesis
    proof (cases "en_IsDir e \<or> idx < of_EntryIndex start")
      case True
      then have sel: "\<not> selected (of_EntryIndex start) (idx, e)" by (auto simp: selected_def)
      show ?thesis
        by (rule later [where its = "[]" and ?p1.0 = "NewArchiveOffset idx 0" and ?t1.0 = t])
           (use sel True small Cons.prems(2) in \<open>auto simp: trips_0 unlimited_def\<close>)
    next
      case nd: False
      then have sel: "selected (of_EntryIndex start) (idx, e)" by (auto simp: selected_def)
      obtain its s f off t1 where run: "consumeEntry (text_ops seen maxLog r) a idx e ?st t = (its, s, f, off, t1)"
        by (metis prod_cases5)
      obtain rest skips where rest: "Records_loop (consumeEntry (text_ops seen maxLog r) a) a start en raw (Suc idx)
          (NewArchiveOffset idx (case off of None \<Rightarrow> 0 | Some o' \<Rightarrow> o')) t1 es = (rest, skips)" by fastforce
      have items: "items = its @ (if f then [] else rest)"
        using Cons.prems(2) small nd run rest by (auto simp: Let_def split: if_splits)
      show ?thesis
      proof (cases "\<exists>str. en_Open e = Inr str \<and> over_limit a t str")
        case True
        then obtain str where str: "en_Open e = Inr str" "over_limit a t str" by blast
        obtain m n where cut: "consumeEntry (text_ops seen maxLog r) a idx e ?st t = text_result a maxLog r idx
            (str\<lparr>st_bytes := take n (st_bytes str), st_end := ErrArchiveLimitExceeded m\<rparr>) ?st (t + int (length (st_bytes str)))"
          using consumeEntry_text [OF str(1), of seen maxLog r a idx ?st t] str(2) by auto
        have "\<not> unlimited its"
          using text_result_limit [of "str\<lparr>st_bytes := take n (st_bytes str), st_end := ErrArchiveLimitExceeded m\<rparr>" m a
              maxLog r idx ?st "t + int (length (st_bytes str))"] unfolding cut [symmetric] run by simp
        from consumeEntry_limit_end [OF run this] obtain xs err pos where x: "f" "its = xs @ [(Inl err, pos)]" "unlimited xs"
          "errors_As is_archive_limit err \<noteq> None" "of_EntryIndex pos = idx" by blast
        show ?thesis by (rule first) (use x items sel str in \<open>auto simp: trips_0\<close>)
      next
        case no: False
        have "\<not> f \<and> unlimited its \<and> t1 = t + opened_bytes e"
        proof (cases "en_Open e")
          case (Inl err)
          with run show ?thesis by (auto simp: consumeEntry_def unlimited_def opened_bytes_def)
        next
          case (Inr str)
          with no have "\<not> over_limit a t str" by simp
          with consumeEntry_text [OF Inr, of seen maxLog r a idx ?st t] run
          have tr: "text_result a maxLog r idx str ?st (t + int (length (st_bytes str))) = (its, s, f, off, t1)" by auto
          have "no_limit (st_end str)" "\<not> errors_Is (st_end str) ErrBufferFull"
            using Cons.prems(1) Inr by (auto simp: clean_text_def)
          from text_result_no_limit [OF this tr] text_result_total [OF tr] Inr show ?thesis by (simp add: opened_bytes_def)
        qed
        then show ?thesis
          by (intro later [OF _ _ _ rest]) (use items sel no small in \<open>auto simp: trips_0\<close>)
      qed
    qed
  qed
qed

text \<open>
  C11. A tripped limit fails the object, and only a passed limit trips. Whatever the members do, an error that
  carries an archive limit is the last item of the sequence and a dead-letter condition, so no record is
  delivered behind it, and no item is of a member past the permitted number. And for an archive of text
  members (whose own errors are none of a limit, and whose enumeration ends normally) such an error comes exactly if there are more members than
  permitted, or one that is to be read is larger than a member may be, or makes all that was read so far
  larger than permitted; it comes at the first such member, after what the members before it delivered.
\<close>

theorem archive_limit_is_fatal:
  assumes "archive_Records (consumeEntry ops a) a be start = (items, sk)"
    and "archive_Records (consumeEntry (text_ops seen maxLog raw) a) a tbe start = (titems, tsk)"
    and "\<forall>e\<in>set (be_entries tbe). clean_text e" and "errors_Is (be_end tbe) ErrEOF"
  shows "(\<forall>xs e pos ys. items = xs @ (Inl e, pos) # ys \<longrightarrow>
       (errors_As is_archive_limit e \<noteq> None \<longrightarrow> ys = [] \<and> IsUnsupportedContent (Some e))
       \<and> of_EntryIndex pos \<le> al_maxEntries (ap_limits a))
    \<and> (if \<exists>j<length (be_entries tbe). trips a (of_EntryIndex start) 0 0 (be_entries tbe) j
       then \<exists>xs err pos j. titems = xs @ [(Inl err, pos)] \<and> unlimited xs \<and> errors_As is_archive_limit err \<noteq> None
              \<and> j < length (be_entries tbe) \<and> trips a (of_EntryIndex start) 0 0 (be_entries tbe) j
              \<and> (\<forall>i<j. \<not> trips a (of_EntryIndex start) 0 0 (be_entries tbe) i) \<and> of_EntryIndex pos = j
       else unlimited titems)"
proof (intro conjI allI impI)
  fix xs e pos ys assume items: "items = xs @ (Inl e, pos) # ys"
  note run = assms(1) [unfolded archive_Records_def items]
  show "of_EntryIndex pos \<le> al_maxEntries (ap_limits a)"
    by (rule loop_index [of 0 a "NewOffset 0" "Inl e" pos ops start "be_end be" "be_endRaw be" 0 "be_entries be"])
       (use run in \<open>simp_all add: NewOffset_def\<close>)
  assume lim: "errors_As is_archive_limit e \<noteq> None"
  show "ys = []" by (rule loop_limit_last [OF run]) (use lim in \<open>simp add: is_limit_item_def\<close>)
  show "IsUnsupportedContent (Some e)" using lim by (simp add: IsUnsupportedContent_def)
next
  show "if \<exists>j<length (be_entries tbe). trips a (of_EntryIndex start) 0 0 (be_entries tbe) j
       then \<exists>xs err pos j. titems = xs @ [(Inl err, pos)] \<and> unlimited xs \<and> errors_As is_archive_limit err \<noteq> None
              \<and> j < length (be_entries tbe) \<and> trips a (of_EntryIndex start) 0 0 (be_entries tbe) j
              \<and> (\<forall>i<j. \<not> trips a (of_EntryIndex start) 0 0 (be_entries tbe) i) \<and> of_EntryIndex pos = j
       else unlimited titems"
    using loop_trips [OF disjI1 [OF assms(4)] assms(3) assms(2) [unfolded archive_Records_def]]
    unfolding add_0_left .
qed

section \<open>The properties at work\<close>

text \<open>A directory, a text of two lines and one of one line, and a limit of three or two members.\<close>

definition sample_producer :: "nat \<Rightarrow> archiveProducer" where
  "sample_producer n =
     \<lparr>ap_limits = defaultArchiveLimits\<lparr>al_maxEntries := n\<rparr>, ap_hasReader = True, ap_format = ''application/zip'',
      ap_materialized = True\<rparr>"

definition sample_backend :: "stream archiveBackend" where
  "sample_backend =
     \<lparr>be_entries = [\<lparr>en_Name = ''d'', en_IsDir = True, en_Open = Inl ErrEOF\<rparr>,
        \<lparr>en_Name = ''d/a'', en_IsDir = False, en_Open = Inr (sample_stream (''ab'' @ LF # ''cd''))\<rparr>,
        \<lparr>en_Name = ''d/b'', en_IsDir = False, en_Open = Inr (sample_stream ''ef'')\<rparr>],
      be_end = ErrEOF, be_endRaw = complete_raw\<rparr>"

abbreviation sample_run :: "nat \<Rightarrow> nat \<Rightarrow> stream archiveEntry \<Rightarrow> int \<Rightarrow> int \<Rightarrow> bytes entry_result" where
  "sample_run n \<equiv> consumeEntry (text_ops 0 4096 complete_raw) (sample_producer n)"

lemma sample_text_parse:
  "text_parse 4096 complete_raw (sample_stream (''ab'' @ LF # ''cd'')) 0 =
     Inr ([\<lparr>pe_item = Inr ''ab'', pe_offset = 3, pe_raw = complete_raw\<rparr>,
           \<lparr>pe_item = Inr ''cd'', pe_offset = 5, pe_raw = complete_raw\<rparr>], 5)"
  "text_parse 4096 complete_raw (sample_stream ''ef'') 0 =
     Inr ([\<lparr>pe_item = Inr ''ef'', pe_offset = 2, pe_raw = complete_raw\<rparr>], 2)"
  by (simp_all add: text_parse_def lineParser_Parse_eq fresh_reader_def sample_stream_def buffered_def
      NewBufferedReader_def errors_Is_def line_events.simps next_line_def buf_len_def strip_cr_def
      line_tail_def entry_raw_def RawTruncated_def Let_def)

lemma sample_Records:
  "archive_Records (sample_run 3) (sample_producer 3) sample_backend (NewOffset 0) =
     ([(Inr ''ab'', NewArchiveOffset 1 3), (Inr ''cd'', NewArchiveOffset 1 5), (Inr ''ef'', NewArchiveOffset 2 2)], [])"
  "archive_Records (sample_run 2) (sample_producer 2) sample_backend (NewOffset 0) =
     ([(Inr ''ab'', NewArchiveOffset 1 3), (Inr ''cd'', NewArchiveOffset 1 5),
       (Inl (ErrArchiveLimitExceeded ''entry count exceeded''), NewArchiveOffset 2 0)], [])"
  using sample_text_parse
  by (simp_all add: archive_Records_def sample_backend_def sample_producer_def consumeEntry_def text_ops_def text_leaf_def
      sample_stream_def NewOffset_def NewArchiveOffset_def defaultArchiveLimits_def errors_Is_def Let_def)

theorem archive_resume_exact_witness:
  "\<exists>sk. archive_Records (sample_run 3) (sample_producer 3) sample_backend (NewArchiveOffset 1 3) =
     ([(Inr ''cd'', NewArchiveOffset 1 5), (Inr ''ef'', NewArchiveOffset 2 2)], sk)"
proof (rule archive_resume_exact [where xs = "[]" and r = "''ab''" and start = "NewOffset 0" and sk = "[]"])
  show "\<forall>e\<in>set (be_entries sample_backend). text_member e"
    by (simp add: sample_backend_def text_member_def sample_stream_def errors_Is_def)
qed (simp_all add: sample_Records(1) unlimited_def is_limit_item_def)

theorem archive_limit_is_fatal_witness:
  "trips (sample_producer 2) 0 0 0 (be_entries sample_backend) 2
    \<and> IsUnsupportedContent (Some (ErrArchiveLimitExceeded ''entry count exceeded''))"
proof -
  have "\<forall>e\<in>set (be_entries sample_backend). clean_text e" "errors_Is (be_end sample_backend) ErrEOF"
    by (simp_all add: sample_backend_def clean_text_def sample_stream_def errors_Is_def no_limit_def errors_As_def)
  note fatal = archive_limit_is_fatal [OF sample_Records(2) sample_Records(2) this]
  have t: "if \<exists>j<length (be_entries sample_backend). trips (sample_producer 2) 0 0 0 (be_entries sample_backend) j
     then \<exists>xs err pos j. [(Inr ''ab'', NewArchiveOffset 1 3), (Inr ''cd'', NewArchiveOffset 1 5),
         (Inl (ErrArchiveLimitExceeded ''entry count exceeded''), NewArchiveOffset 2 0)] = xs @ [(Inl err, pos)]
       \<and> unlimited xs \<and> errors_As is_archive_limit err \<noteq> None
       \<and> j < length (be_entries sample_backend) \<and> trips (sample_producer 2) 0 0 0 (be_entries sample_backend) j
       \<and> (\<forall>i<j. \<not> trips (sample_producer 2) 0 0 0 (be_entries sample_backend) i) \<and> of_EntryIndex pos = j
     else unlimited [(Inr ''ab'', NewArchiveOffset 1 3), (Inr ''cd'', NewArchiveOffset 1 5),
         (Inl (ErrArchiveLimitExceeded ''entry count exceeded''), NewArchiveOffset 2 0)]"
    using fatal [THEN conjunct2] by (simp only: NewOffset_def Offset.select_convs)
  have lim: "errors_As is_archive_limit (ErrArchiveLimitExceeded ''entry count exceeded'') \<noteq> None"
    by (simp add: errors_As_def)
  then have "\<not> unlimited [(Inr ''ab'', NewArchiveOffset 1 3), (Inr ''cd'', NewArchiveOffset 1 5),
         (Inl (ErrArchiveLimitExceeded ''entry count exceeded''), NewArchiveOffset 2 0)]"
    by (simp add: unlimited_def is_limit_item_def)
  with t obtain j pos where "trips (sample_producer 2) 0 0 0 (be_entries sample_backend) j" "of_EntryIndex pos = j"
      "pos = NewArchiveOffset 2 0"
    by (auto simp: append_eq_Cons_conv Cons_eq_append_conv split: if_splits)
  moreover have "IsUnsupportedContent (Some (ErrArchiveLimitExceeded ''entry count exceeded''))"
    using fatal [THEN conjunct1, rule_format, of "[(Inr ''ab'', NewArchiveOffset 1 3), (Inr ''cd'', NewArchiveOffset 1 5)]"
        "ErrArchiveLimitExceeded ''entry count exceeded''" "NewArchiveOffset 2 0" "[]"] lim by simp
  ultimately show ?thesis by (simp add: NewArchiveOffset_def)
qed

theorem archive_accounts_for_members_witness:
  "accounted (text_ops 0 4096 complete_raw) (sample_producer 3) (NewOffset 0) 0
     [(1, be_entries sample_backend ! 1), (2, be_entries sample_backend ! 2)]
     [(Inr ''ab'', NewArchiveOffset 1 3), (Inr ''cd'', NewArchiveOffset 1 5), (Inr ''ef'', NewArchiveOffset 2 2)] []"
proof -
  have no: "\<not> leaves_to_enumeration (sample_producer 3) ev" for ev :: "bytes parse_event"
    by (simp add: leaves_to_enumeration_def sample_producer_def split: sum.splits)
  have sel: "filter (selected (of_EntryIndex (NewOffset 0))) (enumerate 0 (be_entries sample_backend))
      = [(1, be_entries sample_backend ! 1), (2, be_entries sample_backend ! 2)]"
    by (simp add: selected_def sample_backend_def NewOffset_def)
  have "all_records [(Inr ''ab'', NewArchiveOffset 1 3), (Inr ''cd'', NewArchiveOffset 1 5), (Inr ''ef'', NewArchiveOffset 2 2)]"
    by (simp add: all_records_def)
  from archive_accounts_for_members [OF sample_Records(1) this] no show ?thesis
    unfolding sel by blast
qed

end
