(* ===== verification/RestTime.thy ===== *)
theory RestTime
  imports Prelude
begin

text \<open>
  The epoch time formats of the REST API receiver (\<open>receiver/restapireceiver/config.go\<close> and
  \<open>pagination.go\<close>): writing a time as a number, reading it back, and the step past the newest
  record. The products of \<open>parseEpochTimestamp\<close> are those of \<open>int64\<close>, with the wrap-around
  written out. Layout-based parsing and formatting of \<open>time.Time\<close> is a parameter elsewhere.
\<close>

section \<open>The pieces of the standard library\<close>

definition unix_epoch :: gotime where
  "unix_epoch = 62135596800 * 10 ^ 9"

definition wrap64 :: "int \<Rightarrow> int" where
  "wrap64 x = (x + 2 ^ 63) mod 2 ^ 64 - 2 ^ 63"

lemma wrap64_id: "- (2 ^ 63) \<le> x \<Longrightarrow> x < 2 ^ 63 \<Longrightarrow> wrap64 x = x"
  by (simp add: wrap64_def)

definition time_Unix :: "int \<Rightarrow> int \<Rightarrow> gotime" where
  "time_Unix sec nsec = unix_epoch + sec * 10 ^ 9 + nsec"

text \<open>\<open>Unix\<close>, \<open>UnixMilli\<close>, \<open>UnixMicro\<close> and \<open>UnixNano\<close>: whole units since 1970, rounded down.\<close>

definition unix_units :: "int \<Rightarrow> gotime \<Rightarrow> int" where
  "unix_units u t = wrap64 ((t - unix_epoch) div u)"

definition time_Nanosecond :: "gotime \<Rightarrow> int" where
  "time_Nanosecond t = (t - unix_epoch) mod 10 ^ 9"

definition is_digit :: "char \<Rightarrow> bool" where
  "is_digit c = (48 \<le> (of_char c :: nat) \<and> (of_char c :: nat) \<le> 57)"

text \<open>\<open>strconv.ParseInt(s, 10, 64)\<close>.\<close>

definition parseInt64 :: "string \<Rightarrow> int option" where
  "parseInt64 s =
     (let (neg, ds) = (case s of [] \<Rightarrow> (False, [])
                       | c # r \<Rightarrow> if c = CHR ''-'' then (True, r) else if c = CHR ''+'' then (False, r) else (False, s));
          v = int (dec_value ds)
      in if ds = [] \<or> \<not> list_all is_digit ds then None
         else (let i = (if neg then - v else v)
               in if - (2 ^ 63) \<le> i \<and> i < 2 ^ 63 then Some i else None))"

definition pad9 :: "nat \<Rightarrow> string" where
  "pad9 n = replicate (9 - length (dec_nat n)) (CHR ''0'') @ dec_nat n"

definition trim_right0 :: "string \<Rightarrow> string" where
  "trim_right0 s = rev (dropWhile (\<lambda>c. c = CHR ''0'') (rev s))"

section \<open>The formats\<close>

definition isEpochFormat :: "string \<Rightarrow> bool" where
  "isEpochFormat format =
     (format \<in> {''epoch_s'', ''epoch_ms'', ''epoch_us'', ''epoch_ns'', ''epoch_s_frac''})"

definition formatTimestampEpoch :: "gotime \<Rightarrow> string \<Rightarrow> string" where
  "formatTimestampEpoch t format =
     (if format = ''epoch_s'' then dec_int (unix_units (10 ^ 9) t)
      else if format = ''epoch_ms'' then dec_int (unix_units (10 ^ 6) t)
      else if format = ''epoch_us'' then dec_int (unix_units (10 ^ 3) t)
      else if format = ''epoch_ns'' then dec_int (unix_units 1 t)
      else if format = ''epoch_s_frac'' then
        (let nsec = time_Nanosecond t
         in if nsec = 0 then dec_int (unix_units (10 ^ 9) t)
            else dec_int (unix_units (10 ^ 9) t) @ ''.'' @ trim_right0 (pad9 (nat nsec)))
      else dec_int (unix_units (10 ^ 9) t))"

definition parseEpochTimestamp :: "string \<Rightarrow> string \<Rightarrow> gotime option" where
  "parseEpochTimestamp value format =
     (if format = ''epoch_s_frac'' then
        (let whole = takeWhile (\<lambda>c. c \<noteq> CHR ''.'') value; frac = tl (dropWhile (\<lambda>c. c \<noteq> CHR ''.'') value)
         in case parseInt64 whole of
              None \<Rightarrow> None
            | Some sec \<Rightarrow>
                if length frac > 0 then
                  (let fracStr = (if length frac < 9 then frac @ replicate (9 - length frac) (CHR ''0'')
                                  else if length frac > 9 then take 9 frac else frac)
                   in case parseInt64 fracStr of
                        None \<Rightarrow> None
                      | Some nsec \<Rightarrow> Some (time_Unix sec nsec))
                else Some (time_Unix sec 0))
      else
        (case parseInt64 value of
           None \<Rightarrow> None
         | Some n \<Rightarrow>
             Some (if format = ''epoch_s'' then time_Unix n 0
                   else if format = ''epoch_ms'' then time_Unix 0 (wrap64 (n * 10 ^ 6))
                   else if format = ''epoch_us'' then time_Unix 0 (wrap64 (n * 10 ^ 3))
                   else if format = ''epoch_ns'' then time_Unix 0 n
                   else time_Unix n 0)))"

definition timestampResolution :: "string \<Rightarrow> duration" where
  "timestampResolution format =
     (if format = ''epoch_s'' then 10 ^ 9
      else if format = ''epoch_ms'' then 10 ^ 6
      else if format = ''epoch_ns'' then 1
      else 10 ^ 3)"

lemmas rest_time_defs [model_defs] =
  unix_epoch_def wrap64_def time_Unix_def unix_units_def time_Nanosecond_def is_digit_def parseInt64_def
  pad9_def trim_right0_def isEpochFormat_def formatTimestampEpoch_def parseEpochTimestamp_def
  timestampResolution_def

section \<open>Decimal text\<close>

lemma is_digit_char [simp]: "d < 10 \<Longrightarrow> is_digit (digit_char d)"
  by (simp add: is_digit_def digit_char_def)

lemma dec_nat_digits: "list_all is_digit (dec_nat n)"
proof (induction n rule: dec_nat.induct)
  case (1 n)
  then show ?case by (subst dec_nat.simps) auto
qed

lemma dec_nat_nonempty [simp]: "dec_nat n \<noteq> []"
  by (subst dec_nat.simps) simp

lemma digit_not: "is_digit c \<Longrightarrow> c \<noteq> CHR ''-'' \<and> c \<noteq> CHR ''+'' \<and> c \<noteq> CHR ''.''"
  by (auto simp: is_digit_def)

lemma parseInt64_digits:
  assumes "list_all is_digit s" "s \<noteq> []" "int (dec_value s) < 2 ^ 63"
  shows "parseInt64 s = Some (int (dec_value s))"
proof -
  obtain c r where s: "s = c # r" using assms(2) by (cases s) auto
  then have "c \<noteq> CHR ''-''" "c \<noteq> CHR ''+''" using assms(1) digit_not by auto
  with assms s show ?thesis by (simp add: parseInt64_def)
qed

lemma parseInt64_dec_int:
  assumes "- (2 ^ 63) \<le> i" and "i < 2 ^ 63"
  shows "parseInt64 (dec_int i) = Some i"
proof (cases "i < 0")
  case True
  then have "dec_int i = CHR ''-'' # dec_nat (nat (- i))" by (simp add: dec_int_def)
  with True assms dec_nat_digits [of "nat (- i)"] show ?thesis by (simp add: parseInt64_def)
next
  case False
  with parseInt64_digits [OF dec_nat_digits [of "nat i"]] assms show ?thesis by (simp add: dec_int_def)
qed

lemma dec_int_no_dot: "CHR ''.'' \<notin> set (dec_int i)"
proof -
  have "CHR ''.'' \<notin> set (dec_nat n)" for n
    using dec_nat_digits [of n] digit_not [of "CHR ''.''"] by (auto simp: list_all_iff)
  then show ?thesis by (simp add: dec_int_def)
qed

lemma trim_right0_pad: "trim_right0 s @ replicate (length s - length (trim_right0 s)) (CHR ''0'') = s"
proof -
  have "rev s = takeWhile (\<lambda>c. c = CHR ''0'') (rev s) @ dropWhile (\<lambda>c. c = CHR ''0'') (rev s)" by simp
  then have s: "s = trim_right0 s @ rev (takeWhile (\<lambda>c. c = CHR ''0'') (rev s))"
    unfolding trim_right0_def by (metis rev_append rev_rev_ident)
  have "\<forall>c\<in>set (rev (takeWhile (\<lambda>c. c = CHR ''0'') (rev s))). c = CHR ''0''"
    by (auto dest: set_takeWhileD)
  then have "rev (takeWhile (\<lambda>c. c = CHR ''0'') (rev s)) =
      replicate (length (rev (takeWhile (\<lambda>c. c = CHR ''0'') (rev s)))) (CHR ''0'')"
    by (rule replicate_length_same [THEN sym])
  moreover have "length (rev (takeWhile (\<lambda>c. c = CHR ''0'') (rev s))) = length s - length (trim_right0 s)"
    using arg_cong [OF s, of length] by simp
  ultimately show ?thesis using s by metis
qed

lemma trim_right0_length: "length (trim_right0 s) \<le> length s"
  using length_dropWhile_le [of "\<lambda>c. c = CHR ''0''" "rev s"] by (simp add: trim_right0_def)

lemma dec_value_zeros: "dec_value (replicate k (CHR ''0'') @ s) = dec_value s"
proof -
  have "foldl (\<lambda>a c. 10 * a + undigit c) 0 (replicate k (CHR ''0'')) = 0"
    by (induction k) (simp_all add: undigit_def)
  then show ?thesis by (simp add: dec_value_def)
qed

lemma dec_nat_length: "n < 10 ^ k \<Longrightarrow> 0 < k \<Longrightarrow> length (dec_nat n) \<le> k"
proof (induction k arbitrary: n)
  case (Suc k)
  show ?case
  proof (cases "n < 10")
    case True
    then show ?thesis by (subst dec_nat.simps) simp
  next
    case False
    with Suc.prems have "0 < k" by (cases k) auto
    moreover have "n div 10 < 10 ^ k" using Suc.prems by (simp add: less_mult_imp_div_less)
    ultimately have "length (dec_nat (n div 10)) \<le> k" by (rule Suc.IH [rotated])
    with False show ?thesis by (subst dec_nat.simps) simp
  qed
qed simp

lemma pad9_length: "n < 10 ^ 9 \<Longrightarrow> length (pad9 n) = 9"
  using dec_nat_length [of n 9] by (simp add: pad9_def)

lemma pad9_parse: "n < 10 ^ 9 \<Longrightarrow> parseInt64 (pad9 n) = Some (int n)"
proof -
  assume n: "n < 10 ^ 9"
  have "dec_value (pad9 n) = n" by (simp add: pad9_def dec_value_zeros)
  moreover have "list_all is_digit (pad9 n)"
    using dec_nat_digits [of n] by (auto simp: pad9_def list_all_iff is_digit_def)
  moreover have "pad9 n \<noteq> []" by (simp add: pad9_def)
  ultimately show ?thesis using parseInt64_digits [of "pad9 n"] n by simp
qed

section \<open>The properties\<close>

text \<open>The unit of a format: what a written time is rounded down to.\<close>

definition epoch_unit :: "string \<Rightarrow> int" where
  "epoch_unit format =
     (if format = ''epoch_s'' then 10 ^ 9 else if format = ''epoch_ms'' then 10 ^ 6
      else if format = ''epoch_us'' then 10 ^ 3 else 1)"

definition in_range :: "gotime \<Rightarrow> bool" where
  "in_range t = (- (2 ^ 63) + 10 ^ 9 \<le> t - unix_epoch \<and> t - unix_epoch < 2 ^ 63)"

lemma unix_units_eq:
  assumes "in_range t" and "u \<in> {10 ^ 9, 10 ^ 6, 10 ^ 3, 1}"
  shows "unix_units u t = (t - unix_epoch) div u"
    and "- (2 ^ 63) \<le> (t - unix_epoch) div u" "(t - unix_epoch) div u < 2 ^ 63"
    and "- (2 ^ 63) \<le> (t - unix_epoch) div u * u" "(t - unix_epoch) div u * u < 2 ^ 63"
proof -
  let ?d = "t - unix_epoch"
  have d: "- (2 ^ 63) + 10 ^ 9 \<le> ?d" "?d < 2 ^ 63" using assms(1) by (auto simp: in_range_def)
  have u: "0 < u" "u \<le> 10 ^ 9" using assms(2) by auto
  have m: "?d div u * u = ?d - ?d mod u" by (simp add: minus_mod_eq_div_mult)
  have "0 \<le> ?d mod u" "?d mod u < u" using u by auto
  with m d u show a: "- (2 ^ 63) \<le> ?d div u * u" "?d div u * u < 2 ^ 63" by linarith+
  show b: "- (2 ^ 63) \<le> ?d div u" "?d div u < 2 ^ 63" using d assms(2) by auto
  with wrap64_id show "unix_units u t = ?d div u" by (simp add: unix_units_def)
qed

lemma while_append_notin:
  "x \<notin> set s \<Longrightarrow> takeWhile (\<lambda>c. c \<noteq> x) (s @ r) = s @ takeWhile (\<lambda>c. c \<noteq> x) r
     \<and> dropWhile (\<lambda>c. c \<noteq> x) (s @ r) = dropWhile (\<lambda>c. c \<noteq> x) r"
  by (induction s) auto

lemma epoch_frac_roundtrip:
  assumes "in_range t"
  shows "parseEpochTimestamp (formatTimestampEpoch t ''epoch_s_frac'') ''epoch_s_frac'' = Some t"
proof -
  let ?d = "t - unix_epoch" and ?n = "time_Nanosecond t"
  define q where "q = ?d div 10 ^ 9"
  let ?s = "dec_int q"
  note u = unix_units_eq [OF assms, of "10 ^ 9"]
  have sec: "parseInt64 ?s = Some q" using u(2,3) by (intro parseInt64_dec_int) (auto simp: q_def)
  have uq: "unix_units (10 ^ 9) t = q" using u(1) by (simp add: q_def)
  have n: "0 \<le> ?n" "?n < 10 ^ 9" by (simp_all add: time_Nanosecond_def)
  have t: "time_Unix q ?n = t" by (simp add: time_Unix_def time_Nanosecond_def q_def)
  have tw: "takeWhile (\<lambda>c. c \<noteq> CHR ''.'') (?s @ r) = ?s @ takeWhile (\<lambda>c. c \<noteq> CHR ''.'') r"
    "dropWhile (\<lambda>c. c \<noteq> CHR ''.'') (?s @ r) = dropWhile (\<lambda>c. c \<noteq> CHR ''.'') r" for r
    using while_append_notin [OF dec_int_no_dot] by auto
  show ?thesis
  proof (cases "?n = 0")
    case True
    have tw0: "takeWhile (\<lambda>c. c \<noteq> CHR ''.'') ?s = ?s" "dropWhile (\<lambda>c. c \<noteq> CHR ''.'') ?s = []"
      using tw [of "[]"] by auto
    from True t sec uq show ?thesis
      by (simp add: formatTimestampEpoch_def parseEpochTimestamp_def Let_def tw0)
  next
    case False
    let ?p = "pad9 (nat ?n)"
    have nn: "nat ?n < 10 ^ 9" using n by (simp add: nat_less_iff)
    have len: "length (trim_right0 ?p) \<le> 9" using trim_right0_length [of ?p] pad9_length [OF nn] by simp
    have "trim_right0 ?p \<noteq> []"
    proof
      assume e: "trim_right0 ?p = []"
      then have "?p = replicate 9 (CHR ''0'') @ []" using trim_right0_pad [of ?p] pad9_length [OF nn] by simp
      moreover have "dec_value (replicate 9 (CHR ''0'') @ []) = 0"
        unfolding dec_value_zeros by (simp add: dec_value_def)
      ultimately have "dec_value ?p = 0" by metis
      with False n show False by (simp add: pad9_def dec_value_zeros)
    qed
    moreover have "(if length (trim_right0 ?p) < 9
        then trim_right0 ?p @ replicate (9 - length (trim_right0 ?p)) (CHR ''0'')
        else if length (trim_right0 ?p) > 9 then take 9 (trim_right0 ?p) else trim_right0 ?p) = ?p"
      using trim_right0_pad [of ?p] pad9_length [OF nn] len by auto
    ultimately show ?thesis
      using False t sec uq pad9_parse [OF nn] n
      by (simp add: formatTimestampEpoch_def parseEpochTimestamp_def Let_def tw [of "''.'' @ trim_right0 ?p", simplified])
  qed
qed

lemma epoch_unit_roundtrip:
  assumes "in_range t" and "isEpochFormat format" and "format \<noteq> ''epoch_s_frac''"
  shows "parseEpochTimestamp (formatTimestampEpoch t format) format =
    Some (unix_epoch + (t - unix_epoch) div epoch_unit format * epoch_unit format)"
proof -
  have p: "parseInt64 (dec_int (unix_units u t)) = Some ((t - unix_epoch) div u)"
    and w: "wrap64 ((t - unix_epoch) div u * u) = (t - unix_epoch) div u * u" if "u \<in> {10 ^ 9, 10 ^ 6, 10 ^ 3, 1}" for u
    using unix_units_eq [OF assms(1) that] by (simp_all add: parseInt64_dec_int wrap64_id)
  from assms(2,3) consider "format = ''epoch_s''" | "format = ''epoch_ms''" | "format = ''epoch_us''" | "format = ''epoch_ns''"
    by (auto simp: isEpochFormat_def)
  then show ?thesis
    by cases (use p [of "10 ^ 9"] p [of "10 ^ 6"] p [of "10 ^ 3"] p [of 1] w [of "10 ^ 6"] w [of "10 ^ 3"] in
      \<open>simp_all add: formatTimestampEpoch_def parseEpochTimestamp_def epoch_unit_def time_Unix_def\<close>)
qed

lemma epoch_roundtrip_lemma:
  assumes "in_range t" and "isEpochFormat format"
  shows "parseEpochTimestamp (formatTimestampEpoch t format) format =
    Some (unix_epoch + (t - unix_epoch) div epoch_unit format * epoch_unit format)"
proof (cases "format = ''epoch_s_frac''")
  case True
  then show ?thesis using epoch_frac_roundtrip [OF assms(1)] by (simp add: epoch_unit_def)
qed (rule epoch_unit_roundtrip [OF assms])

text \<open>
  C39. A time written in an epoch format and read back in the same format is the time rounded
  down to the unit of the format, and exactly the time for fractional seconds, also before
  1970; no product wraps around in the whole range of nanoseconds an \<open>int64\<close> holds (but for
  one second at the lower end).
\<close>

theorem epoch_roundtrip:
  assumes "in_range t" and "isEpochFormat format"
  shows "parseEpochTimestamp (formatTimestampEpoch t format) format =
    Some (unix_epoch + (t - unix_epoch) div epoch_unit format * epoch_unit format)"
  using assms by (rule epoch_roundtrip_lemma)

theorem epoch_roundtrip_witness:
  "parseEpochTimestamp (formatTimestampEpoch (unix_epoch - 1) ''epoch_ms'') ''epoch_ms'' = Some (unix_epoch - 10 ^ 6)"
  using epoch_roundtrip [of "unix_epoch - 1" "''epoch_ms''"]
  by (simp add: in_range_def isEpochFormat_def epoch_unit_def)

end
