(* ===== verification/Pagination.thy ===== *)
theory Pagination
  imports Complex_Main RestTime
begin

text \<open>
  Pagination of the REST API receiver (\<open>receiver/restapireceiver/pagination.go\<close> and the parts of
  \<open>receiver.go\<close> and \<open>config.go\<close> it uses): the state, the parameters of a request, and what a
  response does to the state, for offset/limit, page/size and timestamp pagination.

  A decoded JSON value is an \<open>any\<close>; a \<open>float64\<close> is its rational value. Layout-based \<open>time.Parse\<close>
  and \<open>Time.Format\<close>, the shortest text of a float and \<open>%v\<close> are the fields of \<open>golib\<close>, as is the
  time a new state is made at. The counters are unbounded integers.
\<close>

section \<open>Values, configuration and state\<close>

datatype any =
    ANull
  | ABool bool
  | AFloat rat
  | AInt int
  | AInt64 int
  | AStr string
  | AList "any list"
  | AObj "(string \<times> any) list"

type_synonym item = "(string \<times> any) list"

record golib =
  gl_Parse :: "string \<Rightarrow> string \<Rightarrow> gotime option"
  gl_Format :: "gotime \<Rightarrow> string \<Rightarrow> string"
  gl_FormatFloat :: "rat \<Rightarrow> string"
  gl_Sprint :: "any \<Rightarrow> string"
  gl_Now :: gotime

datatype pagination_mode = ModeNone | ModeOffsetLimit | ModePageSize | ModeTimestamp

datatype offset_type = OffsetNumeric | OffsetOpaque

record pagination_config =
  pc_Mode :: pagination_mode
  pc_OffsetFieldName :: string
  pc_StartingOffset :: int
  pc_LimitFieldName :: string
  pc_Limit :: int
  pc_NextOffsetFieldName :: string
  pc_OffsetType :: offset_type
  pc_PageNumFieldName :: string
  pc_StartingPage :: int
  pc_PageSizeFieldName :: string
  pc_PageSize :: int
  pc_TotalPagesFieldName :: string
  pc_TimestampFieldName :: string
  pc_TsPageSizeFieldName :: string
  pc_TsPageSize :: int
  pc_TotalRecordCountField :: string
  pc_HasMoreFieldName :: string
  pc_PageLimit :: int
  pc_ZeroBasedIndex :: bool

record config =
  cf_Pagination :: pagination_config
  cf_StartTimeParamName :: string
  cf_StartTimeValue :: string
  cf_EndTimeParamName :: string
  cf_EndTimeValue :: string
  cf_TimestampFormat :: string

record paginationState =
  ps_CurrentOffset :: int
  ps_CurrentOffsetToken :: string
  ps_Limit :: int
  ps_CurrentPage :: int
  ps_PageSize :: int
  ps_CurrentTimestamp :: gotime
  ps_TimestampFromData :: bool
  ps_ResolvedStartTime :: string
  ps_ResolvedEndTime :: string
  ps_TotalRecords :: int
  ps_TotalPages :: int
  ps_PagesFetched :: int

section \<open>Coercions and nested fields\<close>

definition trunc_float :: "rat \<Rightarrow> int" where
  "trunc_float x = (if x \<ge> 0 then \<lfloor>x\<rfloor> else \<lceil>x\<rceil>)"

definition toInt :: "any \<Rightarrow> int option" where
  "toInt v =
     (case v of
        AFloat x \<Rightarrow> Some (trunc_float x)
      | AInt i \<Rightarrow> Some i
      | AStr s \<Rightarrow> parseInt64 s
      | _ \<Rightarrow> None)"

definition is_space :: "char \<Rightarrow> bool" where
  "is_space c = ((of_char c :: nat) \<in> {9, 10, 11, 12, 13, 32})"

definition TrimSpace :: "string \<Rightarrow> string" where
  "TrimSpace s = rev (dropWhile is_space (rev (dropWhile is_space s)))"

definition ParseBool :: "string \<Rightarrow> bool option" where
  "ParseBool s =
     (if s \<in> {''1'', ''t'', ''T'', ''TRUE'', ''true'', ''True''} then Some True
      else if s \<in> {''0'', ''f'', ''F'', ''FALSE'', ''false'', ''False''} then Some False
      else None)"

definition toBool :: "any \<Rightarrow> bool option" where
  "toBool v =
     (case v of
        ABool b \<Rightarrow> Some b
      | AStr s \<Rightarrow> ParseBool (TrimSpace s)
      | AFloat x \<Rightarrow> Some (x \<noteq> 0)
      | AInt i \<Rightarrow> Some (i \<noteq> 0)
      | _ \<Rightarrow> None)"

text \<open>\<open>strings.Split\<close> at one character.\<close>

fun split_char :: "char \<Rightarrow> string \<Rightarrow> string list" where
  "split_char x [] = [[]]"
| "split_char x (c # s) =
     (if c = x then [] # split_char x s
      else (case split_char x s of l # ls \<Rightarrow> (c # l) # ls | [] \<Rightarrow> [[c]]))"

function path_indices :: "string \<Rightarrow> int list option" where
  "path_indices rest =
     (case rest of
        [] \<Rightarrow> Some []
      | c # r \<Rightarrow>
          if c \<noteq> CHR ''['' then None
          else if CHR '']'' \<notin> set rest then None
          else (case parseInt64 (takeWhile (\<lambda>c. c \<noteq> CHR '']'') r) of
                  None \<Rightarrow> None
                | Some idx \<Rightarrow>
                    if idx < 0 then None
                    else map_option (\<lambda>is. idx # is) (path_indices (tl (dropWhile (\<lambda>c. c \<noteq> CHR '']'') r)))))"
  by pat_completeness auto
termination
proof (relation "measure length", goal_cases)
  case (2 rest c r idx)
  have "length (tl (dropWhile (\<lambda>c. c \<noteq> CHR '']'') r)) \<le> length r"
    using length_dropWhile_le [of "\<lambda>c. c \<noteq> CHR '']''" r] by simp
  with 2 show ?case by simp
qed simp

declare path_indices.simps [simp del]

definition parsePathSegment :: "string \<Rightarrow> (string \<times> int list) option" where
  "parsePathSegment part =
     (if CHR ''['' \<notin> set part then Some (part, [])
      else map_option (\<lambda>is. (takeWhile (\<lambda>c. c \<noteq> CHR ''['') part, is))
             (path_indices (dropWhile (\<lambda>c. c \<noteq> CHR ''['') part)))"

fun index_into :: "any \<Rightarrow> int list \<Rightarrow> any option" where
  "index_into cur [] = Some cur"
| "index_into cur (idx # is) =
     (case cur of
        AList arr \<Rightarrow> if idx \<ge> int (length arr) then None else index_into (arr ! nat idx) is
      | _ \<Rightarrow> None)"

fun nested :: "any \<Rightarrow> string list \<Rightarrow> any option" where
  "nested cur [] = Some cur"
| "nested cur (part # parts) =
     (case parsePathSegment part of
        None \<Rightarrow> None
      | Some (name, indices) \<Rightarrow>
          (case cur of
             AObj m \<Rightarrow>
               (case map_of m name of
                  None \<Rightarrow> None
                | Some v \<Rightarrow>
                    (case index_into v indices of None \<Rightarrow> None | Some w \<Rightarrow> nested w parts))
           | _ \<Rightarrow> None))"

definition getNestedField :: "item \<Rightarrow> string \<Rightarrow> any option" where
  "getNestedField data path = nested (AObj data) (split_char (CHR ''.'') path)"

definition explicitHasMore :: "config \<Rightarrow> any \<Rightarrow> bool option" where
  "explicitHasMore cfg response =
     (if pc_HasMoreFieldName (cf_Pagination cfg) = '''' then None
      else case response of
             AObj m \<Rightarrow>
               (case getNestedField m (pc_HasMoreFieldName (cf_Pagination cfg)) of
                  None \<Rightarrow> None
                | Some v \<Rightarrow> if v = ANull then None else toBool v)
           | _ \<Rightarrow> None)"

section \<open>The state\<close>

definition RFC3339 :: string where
  "RFC3339 = ''2006-01-02T15:04:05Z07:00''"

definition formatTimeBoundValue :: "golib \<Rightarrow> string \<Rightarrow> string \<Rightarrow> string" where
  "formatTimeBoundValue lib value format =
     (if value = ''now'' then
        (if isEpochFormat format then formatTimestampEpoch (gl_Now lib) format
         else gl_Format lib (gl_Now lib) (if format = '''' then RFC3339 else format))
      else value)"

definition initial_timestamp :: "golib \<Rightarrow> config \<Rightarrow> gotime" where
  "initial_timestamp lib cfg =
     (if cf_StartTimeValue cfg = ''now'' then gl_Now lib
      else if cf_StartTimeValue cfg \<noteq> '''' then
        (if isEpochFormat (cf_TimestampFormat cfg) then
           (case parseEpochTimestamp (cf_StartTimeValue cfg) (cf_TimestampFormat cfg) of
              Some t \<Rightarrow> t | None \<Rightarrow> zero_time)
         else
           (let t0 = (if cf_TimestampFormat cfg \<noteq> '''' then
                        (case gl_Parse lib (cf_TimestampFormat cfg) (cf_StartTimeValue cfg) of
                           Some t \<Rightarrow> t | None \<Rightarrow> zero_time)
                      else zero_time)
            in if t0 = zero_time then
                 (case gl_Parse lib RFC3339 (cf_StartTimeValue cfg) of Some t \<Rightarrow> t | None \<Rightarrow> zero_time)
               else t0))
      else zero_time)"

definition newPaginationState :: "golib \<Rightarrow> config \<Rightarrow> paginationState" where
  "newPaginationState lib cfg =
     (let pc = cf_Pagination cfg;
          s0 = \<lparr>ps_CurrentOffset = 0, ps_CurrentOffsetToken = '''', ps_Limit = 10, ps_CurrentPage = 0,
                ps_PageSize = 20, ps_CurrentTimestamp = zero_time, ps_TimestampFromData = False,
                ps_ResolvedStartTime = '''', ps_ResolvedEndTime = '''', ps_TotalRecords = 0,
                ps_TotalPages = 0, ps_PagesFetched = 0\<rparr>;
          s1 = (case pc_Mode pc of
                  ModeOffsetLimit \<Rightarrow>
                    s0\<lparr>ps_CurrentOffset := pc_StartingOffset pc,
                       ps_Limit := (if pc_Limit pc > 0 then pc_Limit pc else 10)\<rparr>
                | ModePageSize \<Rightarrow>
                    s0\<lparr>ps_CurrentPage := pc_StartingPage pc,
                       ps_PageSize := (if pc_PageSize pc > 0 then pc_PageSize pc else 20)\<rparr>
                | ModeTimestamp \<Rightarrow>
                    s0\<lparr>ps_CurrentTimestamp := initial_timestamp lib cfg,
                       ps_PageSize := (if pc_TsPageSize pc > 0 then pc_TsPageSize pc else 100)\<rparr>
                | ModeNone \<Rightarrow> s0);
          s2 = (if cf_StartTimeValue cfg \<noteq> ''''
                then s1\<lparr>ps_ResolvedStartTime :=
                          formatTimeBoundValue lib (cf_StartTimeValue cfg) (cf_TimestampFormat cfg)\<rparr>
                else s1)
      in if cf_EndTimeParamName cfg \<noteq> '''' \<or> cf_EndTimeValue cfg \<noteq> ''''
         then s2\<lparr>ps_ResolvedEndTime :=
                   formatTimeBoundValue lib (if cf_EndTimeValue cfg = '''' then ''now'' else cf_EndTimeValue cfg)
                     (cf_TimestampFormat cfg)\<rparr>
         else s2)"

section \<open>Requests\<close>

definition requestStartTime :: "golib \<Rightarrow> config \<Rightarrow> paginationState \<Rightarrow> string" where
  "requestStartTime lib cfg state =
     (if pc_Mode (cf_Pagination cfg) \<noteq> ModeTimestamp then ps_ResolvedStartTime state
      else if ps_CurrentTimestamp state = zero_time then ''''
      else
        (let t = (if ps_PagesFetched state > 0 \<or> ps_TimestampFromData state
                  then ps_CurrentTimestamp state + timestampResolution (cf_TimestampFormat cfg)
                  else ps_CurrentTimestamp state);
             format = cf_TimestampFormat cfg
         in if isEpochFormat format then formatTimestampEpoch t format
            else gl_Format lib t (if format = '''' then RFC3339 else format)))"

definition params_Set :: "string \<Rightarrow> string \<Rightarrow> (string \<rightharpoonup> string) \<Rightarrow> (string \<rightharpoonup> string)" where
  "params_Set k v ps = ps(k \<mapsto> v)"

definition buildPaginationParams :: "golib \<Rightarrow> config \<Rightarrow> paginationState \<Rightarrow> (string \<rightharpoonup> string)" where
  "buildPaginationParams lib cfg state =
     (let pc = cf_Pagination cfg;
          p1 = (case pc_Mode pc of
                  ModeOffsetLimit \<Rightarrow>
                    (let p = (if pc_OffsetFieldName pc \<noteq> '''' then
                                (if ps_CurrentOffsetToken state \<noteq> ''''
                                 then params_Set (pc_OffsetFieldName pc) (ps_CurrentOffsetToken state) Map.empty
                                 else if pc_OffsetType pc = OffsetOpaque then Map.empty
                                 else params_Set (pc_OffsetFieldName pc) (dec_int (ps_CurrentOffset state)) Map.empty)
                              else Map.empty)
                     in if pc_LimitFieldName pc \<noteq> ''''
                        then params_Set (pc_LimitFieldName pc) (dec_int (ps_Limit state)) p else p)
                | ModePageSize \<Rightarrow>
                    (let p = (if pc_PageNumFieldName pc \<noteq> ''''
                              then params_Set (pc_PageNumFieldName pc) (dec_int (ps_CurrentPage state)) Map.empty
                              else Map.empty)
                     in if pc_PageSizeFieldName pc \<noteq> ''''
                        then params_Set (pc_PageSizeFieldName pc) (dec_int (ps_PageSize state)) p else p)
                | ModeTimestamp \<Rightarrow>
                    (if pc_TsPageSizeFieldName pc \<noteq> ''''
                     then params_Set (pc_TsPageSizeFieldName pc) (dec_int (ps_PageSize state)) Map.empty
                     else Map.empty)
                | ModeNone \<Rightarrow> Map.empty);
          p2 = (if cf_StartTimeParamName cfg \<noteq> '''' \<and> requestStartTime lib cfg state \<noteq> ''''
                then params_Set (cf_StartTimeParamName cfg) (requestStartTime lib cfg state) p1 else p1)
      in if cf_EndTimeParamName cfg \<noteq> '''' \<and> ps_ResolvedEndTime state \<noteq> ''''
         then params_Set (cf_EndTimeParamName cfg) (ps_ResolvedEndTime state) p2 else p2)"

record requestBodyData =
  rb_Cursor :: string
  rb_Offset :: int
  rb_Limit :: int
  rb_Page :: int
  rb_PageSize :: int
  rb_StartTime :: string
  rb_EndTime :: string

definition newRequestBodyData :: "golib \<Rightarrow> config \<Rightarrow> paginationState \<Rightarrow> requestBodyData" where
  "newRequestBodyData lib cfg state =
     \<lparr>rb_Cursor = ps_CurrentOffsetToken state, rb_Offset = ps_CurrentOffset state, rb_Limit = ps_Limit state,
      rb_Page = ps_CurrentPage state, rb_PageSize = ps_PageSize state,
      rb_StartTime = requestStartTime lib cfg state, rb_EndTime = ps_ResolvedEndTime state\<rparr>"

section \<open>Responses\<close>

definition parseOffsetLimitResponse ::
    "golib \<Rightarrow> config \<Rightarrow> any \<Rightarrow> item list \<Rightarrow> paginationState \<Rightarrow> bool \<times> paginationState" where
  "parseOffsetLimitResponse lib cfg response extractedData state =
     (let pc = cf_Pagination cfg; dataCount = int (length extractedData)
      in if pc_NextOffsetFieldName pc \<noteq> '''' then
           (case (case response of AObj m \<Rightarrow> getNestedField m (pc_NextOffsetFieldName pc) | _ \<Rightarrow> None) of
              None \<Rightarrow> (False, state)
            | Some tokenVal \<Rightarrow>
                if tokenVal = ANull then (False, state)
                else
                  (let tokenStr = (case tokenVal of
                                     AStr v \<Rightarrow> v
                                   | AFloat x \<Rightarrow> gl_FormatFloat lib x
                                   | AInt i \<Rightarrow> dec_int i
                                   | v \<Rightarrow> gl_Sprint lib v)
                   in if tokenStr = '''' then (False, state)
                      else
                        (let state1 = state\<lparr>ps_CurrentOffsetToken := tokenStr,
                                            ps_PagesFetched := ps_PagesFetched state + 1\<rparr>
                         in case explicitHasMore cfg response of
                              Some hasMore \<Rightarrow> (hasMore, state1)
                            | None \<Rightarrow> (dataCount \<ge> ps_Limit state1, state1))))
         else
           (let state1 =
                  (if pc_TotalRecordCountField pc \<noteq> '''' then
                     (case response of
                        AObj m \<Rightarrow>
                          (case map_of m (pc_TotalRecordCountField pc) of
                             None \<Rightarrow> state
                           | Some v \<Rightarrow> (case toInt v of None \<Rightarrow> state | Some t \<Rightarrow> state\<lparr>ps_TotalRecords := t\<rparr>))
                      | _ \<Rightarrow> state)
                   else state)
            in case explicitHasMore cfg response of
                 Some hasMore \<Rightarrow> (hasMore, state1)
               | None \<Rightarrow>
                   if ps_TotalRecords state1 > 0
                   then (ps_CurrentOffset state1 + dataCount < ps_TotalRecords state1, state1)
                   else (dataCount \<ge> ps_Limit state1, state1)))"

definition parsePageSizeResponse ::
    "config \<Rightarrow> any \<Rightarrow> item list \<Rightarrow> paginationState \<Rightarrow> bool \<times> paginationState" where
  "parsePageSizeResponse cfg response extractedData state =
     (let pc = cf_Pagination cfg;
          state1 =
            (if pc_TotalPagesFieldName pc \<noteq> '''' then
               (case response of
                  AObj m \<Rightarrow>
                    (case map_of m (pc_TotalPagesFieldName pc) of
                       None \<Rightarrow> state
                     | Some v \<Rightarrow> (case toInt v of None \<Rightarrow> state | Some t \<Rightarrow> state\<lparr>ps_TotalPages := t\<rparr>))
                | _ \<Rightarrow> state)
             else state)
      in case explicitHasMore cfg response of
           Some hasMore \<Rightarrow> (hasMore, state1)
         | None \<Rightarrow>
             if ps_TotalPages state1 > 0 then (ps_CurrentPage state1 < ps_TotalPages state1, state1)
             else (int (length extractedData) \<ge> ps_PageSize state1, state1))"

text \<open>The two regular expressions: the separator, the fraction with its dot and the zone of a date and time.\<close>

definition fits :: "string \<Rightarrow> string \<Rightarrow> bool" where
  "fits pat s =
     list_all2 (\<lambda>p c. if p = CHR ''0'' then is_digit c
                      else if p = CHR ''?'' then c = CHR ''T'' \<or> c = CHR '' ''
                      else if p = CHR ''+'' then c = CHR ''+'' \<or> c = CHR ''-'' else c = p) pat s"

definition datetime_match :: "string \<Rightarrow> (string \<times> string \<times> string) option" where
  "datetime_match s =
     (if \<not> fits ''0000-00-00?00:00:00'' (take 19 s) then None
      else
        (let rest = drop 19 s;
             ds = (case rest of c # r \<Rightarrow> if c = CHR ''.'' then takeWhile is_digit r else [] | [] \<Rightarrow> []);
             fr = (if ds = [] then [] else CHR ''.'' # ds);
             tz = drop (length fr) rest
         in if tz = [] \<or> tz = ''Z'' \<or> fits ''+00'' tz \<or> fits ''+0000'' tz \<or> fits ''+00:00'' tz
            then Some (take 1 (drop 10 s), fr, tz) else None))"

definition parseTimestampString :: "golib \<Rightarrow> string \<Rightarrow> gotime option" where
  "parseTimestampString lib s0 =
     (let s = TrimSpace s0;
          dateOnly = (if fits ''0000-00-00'' s then gl_Parse lib ''2006-01-02'' s else None)
      in case datetime_match s of
           None \<Rightarrow> dateOnly
         | Some (sep, fr, tz) \<Rightarrow>
             (let format = ''2006-01-02'' @ sep @ ''15:04:05''
                    @ (if fr \<noteq> [] then CHR ''.'' # replicate (length fr - 1) (CHR ''0'') else [])
                    @ (if tz = [] then [] else if tz = ''Z'' then ''Z07:00''
                       else if CHR '':'' \<in> set tz then ''-07:00''
                       else if length tz = 5 then ''-0700''
                       else if length tz = 3 then ''-07'' else [])
              in case gl_Parse lib format s of Some t \<Rightarrow> Some t | None \<Rightarrow> dateOnly))"

definition parseTimestampValue :: "golib \<Rightarrow> any \<Rightarrow> string \<Rightarrow> gotime" where
  "parseTimestampValue lib v configuredFormat =
     (case v of
        AStr s \<Rightarrow>
          (case (if isEpochFormat configuredFormat then parseEpochTimestamp s configuredFormat else None) of
             Some t \<Rightarrow> t
           | None \<Rightarrow>
               (case (if configuredFormat \<noteq> '''' \<and> \<not> isEpochFormat configuredFormat
                      then gl_Parse lib configuredFormat s else None) of
                  Some t \<Rightarrow> t
                | None \<Rightarrow> (case parseTimestampString lib s of Some t \<Rightarrow> t | None \<Rightarrow> zero_time)))
      | AFloat x \<Rightarrow>
          if x > 10 ^ 10 then
            (let ms = trunc_float x; fracNs = trunc_float ((x - of_int ms) * 10 ^ 6)
             in time_Unix 0 (wrap64 (ms * 10 ^ 6 + fracNs)))
          else
            (let sec = trunc_float x; fracNs = trunc_float ((x - of_int sec) * 10 ^ 9)
             in time_Unix sec fracNs)
      | AInt64 i \<Rightarrow> if i > 10 ^ 10 then time_Unix 0 (wrap64 (i * 10 ^ 6)) else time_Unix i 0
      | _ \<Rightarrow> zero_time)"

definition newer :: "golib \<Rightarrow> config \<Rightarrow> gotime \<Rightarrow> item \<Rightarrow> gotime" where
  "newer lib cfg maxTimestamp it =
     (case map_of it (pc_TimestampFieldName (cf_Pagination cfg)) of
        None \<Rightarrow> maxTimestamp
      | Some v \<Rightarrow>
          (let t = parseTimestampValue lib v (cf_TimestampFormat cfg)
           in if t \<noteq> zero_time \<and> t > maxTimestamp then t else maxTimestamp))"

definition parseTimestampResponse ::
    "golib \<Rightarrow> config \<Rightarrow> item list \<Rightarrow> paginationState \<Rightarrow> (string + bool) \<times> paginationState" where
  "parseTimestampResponse lib cfg dataArray state =
     (if dataArray = [] then (Inr False, state)
      else
        (let maxTimestamp = (if pc_TimestampFieldName (cf_Pagination cfg) \<noteq> ''''
                             then foldl (newer lib cfg) zero_time dataArray else zero_time);
             state1 = (if maxTimestamp \<noteq> zero_time \<and> maxTimestamp > ps_CurrentTimestamp state
                       then state\<lparr>ps_CurrentTimestamp := maxTimestamp, ps_TimestampFromData := True\<rparr>
                       else state)
         in if int (length dataArray) < ps_PageSize state then (Inr False, state1)
            else if maxTimestamp \<noteq> zero_time then (Inr True, state1)
            else (Inl ''received full page but failed to extract timestamp from any item'', state)))"

definition parsePaginationResponse ::
    "golib \<Rightarrow> config \<Rightarrow> any \<Rightarrow> item list \<Rightarrow> paginationState \<Rightarrow> (string + bool) \<times> paginationState" where
  "parsePaginationResponse lib cfg response extractedData state =
     (case pc_Mode (cf_Pagination cfg) of
        ModeOffsetLimit \<Rightarrow>
          (case parseOffsetLimitResponse lib cfg response extractedData state of (b, s) \<Rightarrow> (Inr b, s))
      | ModePageSize \<Rightarrow>
          (case parsePageSizeResponse cfg response extractedData state of (b, s) \<Rightarrow> (Inr b, s))
      | ModeTimestamp \<Rightarrow> parseTimestampResponse lib cfg extractedData state
      | ModeNone \<Rightarrow> (Inr False, state))"

definition updatePaginationState :: "config \<Rightarrow> paginationState \<Rightarrow> paginationState" where
  "updatePaginationState cfg state =
     (case pc_Mode (cf_Pagination cfg) of
        ModeOffsetLimit \<Rightarrow>
          state\<lparr>ps_CurrentOffset := ps_CurrentOffset state + ps_Limit state,
                ps_PagesFetched := ps_PagesFetched state + 1\<rparr>
      | ModePageSize \<Rightarrow>
          state\<lparr>ps_CurrentPage := ps_CurrentPage state + 1, ps_PagesFetched := ps_PagesFetched state + 1\<rparr>
      | ModeTimestamp \<Rightarrow> state\<lparr>ps_PagesFetched := ps_PagesFetched state + 1\<rparr>
      | ModeNone \<Rightarrow> state)"

definition checkPageLimit :: "config \<Rightarrow> paginationState \<Rightarrow> bool" where
  "checkPageLimit cfg state =
     (if pc_PageLimit (cf_Pagination cfg) = 0 then True
      else ps_PagesFetched state < pc_PageLimit (cf_Pagination cfg))"

definition reconcileCheckpointWithConfig :: "golib \<Rightarrow> config \<Rightarrow> paginationState \<Rightarrow> paginationState" where
  "reconcileCheckpointWithConfig lib cfg state =
     (let new = newPaginationState lib cfg
      in case pc_Mode (cf_Pagination cfg) of
           ModeOffsetLimit \<Rightarrow>
             if ps_Limit state \<noteq> ps_Limit new then state\<lparr>ps_Limit := ps_Limit new\<rparr> else state
         | ModePageSize \<Rightarrow>
             if ps_PageSize state \<noteq> ps_PageSize new then state\<lparr>ps_PageSize := ps_PageSize new\<rparr> else state
         | ModeTimestamp \<Rightarrow>
             if ps_CurrentTimestamp state = zero_time \<and> ps_CurrentTimestamp new \<noteq> zero_time
             then state\<lparr>ps_CurrentTimestamp := ps_CurrentTimestamp new\<rparr> else state
         | ModeNone \<Rightarrow> state)"

text \<open>\<open>initializePagination\<close>: a fresh state, or a stored one adapted to the configuration.\<close>

definition initializePagination :: "golib \<Rightarrow> config \<Rightarrow> paginationState option \<Rightarrow> paginationState" where
  "initializePagination lib cfg stored =
     (case stored of
        None \<Rightarrow> newPaginationState lib cfg
      | Some state \<Rightarrow> reconcileCheckpointWithConfig lib cfg state)"

section \<open>One page after another\<close>

text \<open>
  \<open>handlePagination\<close>: whether another page is to be fetched, and the state to build its request
  from. Building the request can fail only in the template of the body, given as an argument.
\<close>

definition handlePagination ::
    "golib \<Rightarrow> (requestBodyData \<Rightarrow> bool) \<Rightarrow> config \<Rightarrow> any \<Rightarrow> item list \<Rightarrow> paginationState \<Rightarrow> bool \<times> paginationState" where
  "handlePagination lib renders cfg fullResponse data state =
     (let pc = cf_Pagination cfg
      in if pc_Mode pc = ModeNone then (False, state)
         else
           (case parsePaginationResponse lib cfg fullResponse data state of
              (Inl err, s1) \<Rightarrow> (False, s1)
            | (Inr hasMore, s1) \<Rightarrow>
                if \<not> hasMore then (False, s1)
                else
                  (let s2 =
                         (if pc_Mode pc = ModeOffsetLimit then
                            (if pc_NextOffsetFieldName pc = '''' then
                               (if length data > 0
                                then s1\<lparr>ps_CurrentOffset := ps_CurrentOffset s1 + int (length data),
                                        ps_PagesFetched := ps_PagesFetched s1 + 1\<rparr>
                                else updatePaginationState cfg s1)
                             else s1)
                          else updatePaginationState cfg s1)
                   in if \<not> checkPageLimit cfg s2 then (False, s2)
                      else if \<not> renders (newRequestBodyData lib cfg s2) then (False, s2)
                      else (True, s2))))"

record pollResult =
  pr_recordCount :: int
  pr_lastPageFull :: bool

text \<open>
  What is outside the receiver: an API that answers a request, given by the parameters and the
  data of the body, a consumer of the records of a page, and the storage of checkpoints.
\<close>

record 'w outside =
  ow_fetch :: "(string \<rightharpoonup> string) \<times> requestBodyData \<Rightarrow> 'w \<Rightarrow> (string + any \<times> item list) \<times> 'w"
  ow_consume :: "item list \<Rightarrow> 'w \<Rightarrow> (int \<times> string option) \<times> 'w"
  ow_save :: "paginationState \<Rightarrow> 'w \<Rightarrow> 'w"
  ow_renders :: "requestBodyData \<Rightarrow> bool"

definition buildAPIRequest :: "golib \<Rightarrow> config \<Rightarrow> paginationState \<Rightarrow> (string \<rightharpoonup> string) \<times> requestBodyData" where
  "buildAPIRequest lib cfg state = (buildPaginationParams lib cfg state, newRequestBodyData lib cfg state)"

definition resetPagesFetched :: "paginationState \<Rightarrow> paginationState" where
  "resetPagesFetched state = state\<lparr>ps_PagesFetched := 0\<rparr>"

text \<open>
  The loop of \<open>poll\<close>, with the result, an error, the number of pages fetched, the state and the
  world; \<open>None\<close> is a loop that never ends.
\<close>

partial_function (option) poll_loop ::
    "golib \<Rightarrow> config \<Rightarrow> 'w outside \<Rightarrow> pollResult \<Rightarrow> nat \<Rightarrow> paginationState \<Rightarrow> 'w
       \<Rightarrow> (pollResult \<times> string option \<times> nat \<times> paginationState \<times> 'w) option" where
  "poll_loop lib cfg ow result pageNum state w =
     (case ow_fetch ow (buildAPIRequest lib cfg state) w of
        (Inl err, w1) \<Rightarrow> Some (result, Some err, Suc pageNum, state, w1)
      | (Inr (fullResponse, data), w1) \<Rightarrow>
          (case ow_consume ow data w1 of
             ((count, err), w2) \<Rightarrow>
               (let result1 = result\<lparr>pr_recordCount := pr_recordCount result + count\<rparr>
                in case err of
                     Some e \<Rightarrow> Some (result1, Some e, Suc pageNum, state, w2)
                   | None \<Rightarrow>
                       (case handlePagination lib (ow_renders ow) cfg fullResponse data state of
                          (hasMore, state1) \<Rightarrow>
                            if \<not> hasMore then
                              (let result2 = (if length data > 0 \<and> pc_PageLimit (cf_Pagination cfg) > 0
                                                 \<and> \<not> checkPageLimit cfg state1
                                              then result1\<lparr>pr_lastPageFull := True\<rparr> else result1);
                                   state2 = resetPagesFetched state1
                               in Some (result2, None, Suc pageNum, state2, ow_save ow state2 w2))
                            else poll_loop lib cfg ow result1 (Suc pageNum) state1 (ow_save ow state1 w2)))))"

definition poll ::
    "golib \<Rightarrow> config \<Rightarrow> 'w outside \<Rightarrow> paginationState \<Rightarrow> 'w
       \<Rightarrow> (pollResult \<times> string option \<times> nat \<times> paginationState \<times> 'w) option" where
  "poll lib cfg ow state w =
     (if \<not> ow_renders ow (newRequestBodyData lib cfg state)
      then Some (\<lparr>pr_recordCount = 0, pr_lastPageFull = False\<rparr>, Some ''failed to render request_body template'', 0, state, w)
      else poll_loop lib cfg ow \<lparr>pr_recordCount = 0, pr_lastPageFull = False\<rparr> 0 state w)"

definition adjustPollInterval :: "(duration \<Rightarrow> duration) \<Rightarrow> duration \<Rightarrow> duration \<Rightarrow> pollResult \<Rightarrow> duration \<Rightarrow> duration" where
  "adjustPollInterval backoff minPoll maxPoll result current =
     (if pr_lastPageFull result then minPoll
      else (let n = backoff current in if n > maxPoll then maxPoll else n))"

lemmas pagination_defs [model_defs] =
  trunc_float_def toInt_def is_space_def TrimSpace_def ParseBool_def toBool_def parsePathSegment_def
  getNestedField_def explicitHasMore_def RFC3339_def formatTimeBoundValue_def initial_timestamp_def
  newPaginationState_def requestStartTime_def params_Set_def buildPaginationParams_def
  newRequestBodyData_def parseOffsetLimitResponse_def parsePageSizeResponse_def
  parseTimestampValue_def newer_def parseTimestampResponse_def parsePaginationResponse_def
  updatePaginationState_def checkPageLimit_def handlePagination_def buildAPIRequest_def
  resetPagesFetched_def poll_def

section \<open>Bounded cycles\<close>

lemma parse_PagesFetched:
  assumes "parsePaginationResponse lib cfg resp data st = (Inr True, s1)"
  shows "ps_PagesFetched s1 = ps_PagesFetched st +
    (if pc_Mode (cf_Pagination cfg) = ModeOffsetLimit \<and> pc_NextOffsetFieldName (cf_Pagination cfg) \<noteq> '''' then 1 else 0)"
proof (cases "pc_Mode (cf_Pagination cfg)")
  case ModeOffsetLimit
  with assms show ?thesis
    by (cases resp) (auto simp: parsePaginationResponse_def parseOffsetLimitResponse_def Let_def
        split: option.splits if_splits any.splits)
next
  case ModePageSize
  with assms show ?thesis
    by (cases resp) (auto simp: parsePaginationResponse_def parsePageSizeResponse_def Let_def
        split: option.splits if_splits)
next
  case ModeTimestamp
  with assms show ?thesis
    by (auto simp: parsePaginationResponse_def parseTimestampResponse_def Let_def split: if_splits)
qed (use assms in \<open>simp add: parsePaginationResponse_def\<close>)

lemma handlePagination_True:
  assumes "handlePagination lib rd cfg resp data st = (True, s2)"
  shows "ps_PagesFetched s2 = ps_PagesFetched st + 1" and "checkPageLimit cfg s2"
proof -
  obtain s1 where p: "parsePaginationResponse lib cfg resp data st = (Inr True, s1)"
    using assms by (auto simp: handlePagination_def Let_def split: if_splits sum.splits prod.splits)
  show "ps_PagesFetched s2 = ps_PagesFetched st + 1" and "checkPageLimit cfg s2"
    using assms p parse_PagesFetched [OF p]
    by (auto simp: handlePagination_def Let_def updatePaginationState_def split: if_splits pagination_mode.splits)
qed

lemma poll_loop_bounded:
  assumes "0 < pc_PageLimit (cf_Pagination cfg)"
  shows "\<exists>res err pages st' w'. poll_loop lib cfg ow result n st w = Some (res, err, pages, st', w')
    \<and> n < pages \<and> int pages \<le> int n + max 1 (pc_PageLimit (cf_Pagination cfg) - ps_PagesFetched st)
    \<and> (case err of None \<Rightarrow> ps_PagesFetched st' = 0
        | Some e \<Rightarrow> ps_PagesFetched st' = ps_PagesFetched st + int pages - int n - 1)"
proof (induction "nat (pc_PageLimit (cf_Pagination cfg) - ps_PagesFetched st)" arbitrary: result n st w rule: less_induct)
  case less
  let ?L = "pc_PageLimit (cf_Pagination cfg)"
  obtain fr w1 where f: "ow_fetch ow (buildAPIRequest lib cfg st) w = (fr, w1)" by fastforce
  show ?case
  proof (cases fr)
    case (Inl e)
    then show ?thesis by (subst poll_loop.simps) (simp add: f)
  next
    case (Inr rd)
    obtain resp data where rd: "rd = (resp, data)" by fastforce
    obtain count err w2 where c: "ow_consume ow data w1 = ((count, err), w2)" by (metis prod.collapse)
    show ?thesis
    proof (cases err)
      case (Some e)
      with f Inr rd c show ?thesis by (subst poll_loop.simps) (simp add: Let_def)
    next
      case None
      obtain more st1 where h: "handlePagination lib (ow_renders ow) cfg resp data st = (more, st1)" by fastforce
      show ?thesis
      proof (cases more)
        case False
        with f Inr rd c None h show ?thesis
          by (subst poll_loop.simps) (simp add: Let_def resetPagesFetched_def)
      next
        case True
        have hT: "handlePagination lib (ow_renders ow) cfg resp data st = (True, st1)" using h True by simp
        note ht = handlePagination_True [OF hT]
        have lt: "ps_PagesFetched st1 < ?L" using ht(2) assms by (simp add: checkPageLimit_def split: if_splits)
        have "nat (?L - ps_PagesFetched st1) < nat (?L - ps_PagesFetched st)" using ht(1) lt by simp
        from less [OF this, of "result\<lparr>pr_recordCount := pr_recordCount result + count\<rparr>" "Suc n" "ow_save ow st1 w2"]
        obtain res e pages st' w' where ih:
          "poll_loop lib cfg ow (result\<lparr>pr_recordCount := pr_recordCount result + count\<rparr>) (Suc n) st1 (ow_save ow st1 w2)
             = Some (res, e, pages, st', w')"
          "Suc n < pages" "int pages \<le> int (Suc n) + max 1 (?L - ps_PagesFetched st1)"
          "case e of None \<Rightarrow> ps_PagesFetched st' = 0
           | Some e \<Rightarrow> ps_PagesFetched st' = ps_PagesFetched st1 + int pages - int (Suc n) - 1" by blast
        have "poll_loop lib cfg ow result n st w = Some (res, e, pages, st', w')"
          using f Inr rd c None h True ih(1) by (subst poll_loop.simps) (simp add: Let_def)
        with ih lt ht(1) show ?thesis by (auto split: option.splits)
      qed
    qed
  qed
qed

end
