(* ===== verification/RestPoll.thy ===== *)
theory RestPoll
  imports Pagination
begin

text \<open>
  Poll cycles of the REST API receiver against APIs that behave: an API over a list of records
  paged by offset and limit, the progress of timestamp pagination, the survival of cursors, and
  the end of page-number pagination.
\<close>

section \<open>An API over a list\<close>

text \<open>
  The API reads its two parameters as decimal numbers and returns the records between them. The
  world is the list of the records consumed.
\<close>

definition list_api :: "item list \<Rightarrow> string \<Rightarrow> string \<Rightarrow> item list outside" where
  "list_api xs offset_name limit_name =
     \<lparr>ow_fetch = (\<lambda>(params, body) w.
        (case (Option.bind (params offset_name) parseInt64, Option.bind (params limit_name) parseInt64) of
           (Some off, Some n) \<Rightarrow> Inr (AObj [], take (nat n) (drop (nat off) xs))
         | _ \<Rightarrow> Inl ''bad request'', w)),
      ow_consume = (\<lambda>data w. ((int (length data), None), w @ data)),
      ow_save = (\<lambda>s w. w),
      ow_renders = (\<lambda>b. True)\<rparr>"

definition numeric_offset_config :: "config \<Rightarrow> bool" where
  "numeric_offset_config cfg =
     (let pc = cf_Pagination cfg
      in pc_Mode pc = ModeOffsetLimit \<and> pc_NextOffsetFieldName pc = '''' \<and> pc_TotalRecordCountField pc = ''''
         \<and> pc_HasMoreFieldName pc = '''' \<and> pc_OffsetType pc = OffsetNumeric
         \<and> pc_OffsetFieldName pc \<noteq> '''' \<and> pc_LimitFieldName pc \<noteq> ''''
         \<and> pc_OffsetFieldName pc \<noteq> pc_LimitFieldName pc
         \<and> cf_StartTimeParamName cfg = '''' \<and> cf_EndTimeParamName cfg = '''')"

definition offset_state :: "paginationState \<Rightarrow> item list \<Rightarrow> bool" where
  "offset_state st xs =
     (0 \<le> ps_CurrentOffset st \<and> ps_CurrentOffsetToken st = '''' \<and> ps_TotalRecords st \<le> 0
      \<and> 0 < ps_Limit st \<and> ps_Limit st < 2 ^ 63 \<and> ps_CurrentOffset st < 2 ^ 63 \<and> int (length xs) < 2 ^ 63)"

lemma list_api_fetch:
  assumes "numeric_offset_config cfg" and "offset_state st xs"
  shows "ow_fetch (list_api xs (pc_OffsetFieldName (cf_Pagination cfg)) (pc_LimitFieldName (cf_Pagination cfg)))
      (buildAPIRequest lib cfg st) w =
    (Inr (AObj [], take (nat (ps_Limit st)) (drop (nat (ps_CurrentOffset st)) xs)), w)"
  using assms
  by (simp add: list_api_def numeric_offset_config_def offset_state_def buildAPIRequest_def buildPaginationParams_def
      params_Set_def Let_def parseInt64_dec_int)

lemma list_api_handle:
  assumes "numeric_offset_config cfg" and "offset_state st xs"
  shows "handlePagination lib (\<lambda>b. True) cfg (AObj []) data st =
    (if int (length data) < ps_Limit st then (False, st)
     else (let s2 = st\<lparr>ps_CurrentOffset := ps_CurrentOffset st + int (length data),
                       ps_PagesFetched := ps_PagesFetched st + 1\<rparr>
           in (checkPageLimit cfg s2, s2)))"
  using assms
  by (auto simp: numeric_offset_config_def offset_state_def handlePagination_def parsePaginationResponse_def
      parseOffsetLimitResponse_def explicitHasMore_def Let_def)

text \<open>The number of full pages a cycle goes through.\<close>

definition full_pages :: "config \<Rightarrow> paginationState \<Rightarrow> item list \<Rightarrow> nat" where
  "full_pages cfg st xs =
     (let m = (length xs - nat (ps_CurrentOffset st)) div nat (ps_Limit st); L = pc_PageLimit (cf_Pagination cfg)
      in if L = 0 then m else min m (nat (L - ps_PagesFetched st)))"

definition cycle_collects :: "config \<Rightarrow> paginationState \<Rightarrow> item list \<Rightarrow> item list" where
  "cycle_collects cfg st xs =
     (let rest = drop (nat (ps_CurrentOffset st)) xs; m = length rest div nat (ps_Limit st);
          L = pc_PageLimit (cf_Pagination cfg)
      in if L = 0 \<or> int m < L - ps_PagesFetched st then rest
         else take (full_pages cfg st xs * nat (ps_Limit st)) rest)"

lemma list_cycle:
  assumes "numeric_offset_config cfg" and "0 \<le> pc_PageLimit (cf_Pagination cfg)"
  shows "offset_state st xs \<Longrightarrow> ps_CurrentOffset st \<le> int (length xs) \<Longrightarrow>
    pc_PageLimit (cf_Pagination cfg) = 0 \<or> ps_PagesFetched st < pc_PageLimit (cf_Pagination cfg) \<Longrightarrow>
    \<exists>res pages st'. poll_loop lib cfg (list_api xs (pc_OffsetFieldName (cf_Pagination cfg)) (pc_LimitFieldName (cf_Pagination cfg)))
        result n st w = Some (res, None, pages, st', w @ cycle_collects cfg st xs)
      \<and> ps_CurrentOffset st' = ps_CurrentOffset st + int (full_pages cfg st xs) * ps_Limit st
      \<and> pr_recordCount res = pr_recordCount result + int (length (cycle_collects cfg st xs))"
proof (induction "length xs - nat (ps_CurrentOffset st)" arbitrary: st result n w rule: less_induct)
  case less
  let ?api = "list_api xs (pc_OffsetFieldName (cf_Pagination cfg)) (pc_LimitFieldName (cf_Pagination cfg))"
  let ?o = "nat (ps_CurrentOffset st)" and ?k = "nat (ps_Limit st)" and ?L = "pc_PageLimit (cf_Pagination cfg)"
  let ?rest = "drop ?o xs"
  let ?page = "take ?k ?rest"
  note fetch = list_api_fetch [OF assms(1) less.prems(1)]
  have ok: "0 \<le> ps_CurrentOffset st" "0 < ps_Limit st" using less.prems(1) by (auto simp: offset_state_def)
  then have k: "0 < ?k" by simp
  have consume: "ow_consume ?api d v = ((int (length d), None), v @ d)" "ow_save ?api s v = v"
    "ow_renders ?api = (\<lambda>b. True)" for d v s by (simp_all add: list_api_def)
  show ?case
  proof (cases "length ?rest < ?k")
    case True
    then have page: "?page = ?rest" and m: "length ?rest div ?k = 0" by auto
    have h: "handlePagination lib (\<lambda>b. True) cfg (AObj []) ?rest st = (False, st)"
    proof -
      have "int (length ?rest) < ps_Limit st" using True by (simp only: zless_nat_eq_int_zless)
      then show ?thesis using list_api_handle [OF assms(1) less.prems(1), of lib ?rest] by simp
    qed
    have col: "cycle_collects cfg st xs = ?rest" "full_pages cfg st xs = 0"
      using less.prems(3) m by (auto simp: cycle_collects_def full_pages_def Let_def)
    show ?thesis
      by (subst poll_loop.simps)
         (simp add: fetch page consume h Let_def col resetPagesFetched_def del: length_drop)
  next
    case False
    then have len: "length ?page = ?k" by simp
    define st1 where "st1 = st\<lparr>ps_CurrentOffset := ps_CurrentOffset st + int ?k, ps_PagesFetched := ps_PagesFetched st + 1\<rparr>"
    have h: "handlePagination lib (\<lambda>b. True) cfg (AObj []) ?page st = (checkPageLimit cfg st1, st1)"
      using list_api_handle [OF assms(1) less.prems(1), of lib ?page] len ok by (simp add: st1_def Let_def)
    have off1: "ps_CurrentOffset st1 = ps_CurrentOffset st + ps_Limit st" using ok by (simp add: st1_def)
    have o1: "nat (ps_CurrentOffset st1) = ?o + ?k" using ok by (simp add: st1_def nat_add_distrib)
    have m: "length ?rest div ?k = Suc (length (drop (?o + ?k) xs) div ?k)"
    proof -
      have "length ?rest = ?k + length (drop (?o + ?k) xs)" using False by simp
      then show ?thesis using k by (metis div_add_self1 Suc_eq_plus1 less_not_refl)
    qed
    show ?thesis
    proof (cases "checkPageLimit cfg st1")
      case stop: False
      then have L: "?L \<noteq> 0" "ps_PagesFetched st + 1 \<ge> ?L" by (auto simp: checkPageLimit_def st1_def split: if_splits)
      with less.prems(3) have one: "?L - ps_PagesFetched st = 1" by auto
      have fp: "full_pages cfg st xs = 1" using L one m by (simp add: full_pages_def Let_def)
      have "cycle_collects cfg st xs = ?page"
        using L one m fp by (simp add: cycle_collects_def Let_def)
      with fp show ?thesis
        using len ok
        by (subst poll_loop.simps)
           (simp add: fetch consume h stop Let_def resetPagesFetched_def off1 del: length_take length_drop)
    next
      case go: True
      have o2: "offset_state st1 xs"
        using less.prems(1) False ok by (auto simp: offset_state_def st1_def)
      have le: "ps_CurrentOffset st1 \<le> int (length xs)" using False ok by (auto simp: st1_def)
      have L1: "?L = 0 \<or> ps_PagesFetched st1 < ?L" using go by (simp add: checkPageLimit_def split: if_splits)
      have lt: "length xs - nat (ps_CurrentOffset st1) < length xs - ?o"
        unfolding o1 using k False unfolding length_drop by linarith
      have rest1: "drop (nat (ps_CurrentOffset st1)) xs = drop ?k ?rest" using o1 by (simp add: add.commute)
      have lim: "ps_Limit st1 = ps_Limit st" "ps_PagesFetched st1 = ps_PagesFetched st + 1" by (simp_all add: st1_def)
      have m1: "length (drop ?k ?rest) div ?k = length ?rest div ?k - 1" using m by (simp add: add.commute)
      have fp: "full_pages cfg st xs = Suc (full_pages cfg st1 xs)"
      proof -
        have "nat (?L - ps_PagesFetched st) = Suc (nat (?L - ps_PagesFetched st1))" if "?L \<noteq> 0"
          using that L1 lim(2) by simp
        moreover have "(length xs - nat (ps_CurrentOffset st)) div ?k = Suc ((length xs - nat (ps_CurrentOffset st1)) div ?k)"
          using m unfolding o1 length_drop .
        ultimately show ?thesis unfolding full_pages_def lim Let_def by simp
      qed
      have col: "cycle_collects cfg st xs = ?page @ cycle_collects cfg st1 xs"
      proof -
        have "(?L = 0 \<or> int (length ?rest div ?k) < ?L - ps_PagesFetched st) =
            (?L = 0 \<or> int (length (drop ?k ?rest) div ?k) < ?L - ps_PagesFetched st1)"
          using m by (auto simp: lim add.commute)
        moreover have "take (Suc f * ?k) ?rest = ?page @ take (f * ?k) (drop ?k ?rest)" for f
          by (metis mult_Suc take_add)
        ultimately show ?thesis
          unfolding cycle_collects_def Let_def rest1 lim fp by (simp only: if_distrib [of "\<lambda>x. ?page @ x"] append_take_drop_id)
      qed
      from less.hyps [OF lt o2 le L1, of "result\<lparr>pr_recordCount := pr_recordCount result + int ?k\<rparr>" "Suc n" "w @ ?page"]
      obtain res pages st' where ih:
        "poll_loop lib cfg ?api (result\<lparr>pr_recordCount := pr_recordCount result + int ?k\<rparr>) (Suc n) st1 (w @ ?page)
           = Some (res, None, pages, st', (w @ ?page) @ cycle_collects cfg st1 xs)"
        "ps_CurrentOffset st' = ps_CurrentOffset st1 + int (full_pages cfg st1 xs) * ps_Limit st"
        "pr_recordCount res = pr_recordCount result + int ?k + int (length (cycle_collects cfg st1 xs))"
        by (auto simp: lim)
      have "poll_loop lib cfg ?api result n st w = Some (res, None, pages, st', w @ cycle_collects cfg st xs)"
        using ih(1) len by (subst poll_loop.simps) (simp add: fetch consume h go Let_def col del: length_take length_drop)
      moreover have "ps_CurrentOffset st' = ps_CurrentOffset st + int (full_pages cfg st xs) * ps_Limit st"
        using ih(2) ok by (simp add: fp st1_def algebra_simps)
      ultimately show ?thesis using ih(3) col len by simp
    qed
  qed
qed

text \<open>
  C33. Against an API over a list, a cycle of numeric offset pagination collects a contiguous
  part of the list that starts at the stored offset, without a gap or a repetition: all of the
  rest without a page limit or when it fits the limit, else exactly the permitted number of
  full pages. The next cycle starts behind the full pages, so only a last partial page is read
  again.
\<close>

theorem offset_cycle_exact:
  assumes "numeric_offset_config cfg" and "0 \<le> pc_PageLimit (cf_Pagination cfg)"
    and "offset_state st xs" and "ps_CurrentOffset st \<le> int (length xs)" and "ps_PagesFetched st = 0"
  shows "\<exists>res pages st'.
     poll lib cfg (list_api xs (pc_OffsetFieldName (cf_Pagination cfg)) (pc_LimitFieldName (cf_Pagination cfg))) st w
       = Some (res, None, pages, st', w @ cycle_collects cfg st xs)
   \<and> ps_CurrentOffset st' = ps_CurrentOffset st + int (full_pages cfg st xs) * ps_Limit st
   \<and> pr_recordCount res = int (length (cycle_collects cfg st xs))"
proof -
  have "pc_PageLimit (cf_Pagination cfg) = 0 \<or> ps_PagesFetched st < pc_PageLimit (cf_Pagination cfg)"
    using assms(2,5) by auto
  from list_cycle [OF assms(1,2,3,4) this, of lib "\<lparr>pr_recordCount = 0, pr_lastPageFull = False\<rparr>" 0 w]
  show ?thesis by (auto simp: poll_def list_api_def)
qed

definition sample_pagination :: pagination_config where
  "sample_pagination =
     \<lparr>pc_Mode = ModeOffsetLimit, pc_OffsetFieldName = ''offset'', pc_StartingOffset = 0, pc_LimitFieldName = ''limit'',
      pc_Limit = 2, pc_NextOffsetFieldName = '''', pc_OffsetType = OffsetNumeric, pc_PageNumFieldName = '''',
      pc_StartingPage = 0, pc_PageSizeFieldName = '''', pc_PageSize = 0, pc_TotalPagesFieldName = '''',
      pc_TimestampFieldName = '''', pc_TsPageSizeFieldName = '''', pc_TsPageSize = 0,
      pc_TotalRecordCountField = '''', pc_HasMoreFieldName = '''', pc_PageLimit = 1, pc_ZeroBasedIndex = False\<rparr>"

definition sample_config :: config where
  "sample_config =
     \<lparr>cf_Pagination = sample_pagination, cf_StartTimeParamName = '''', cf_StartTimeValue = '''',
      cf_EndTimeParamName = '''', cf_EndTimeValue = '''', cf_TimestampFormat = ''epoch_ms''\<rparr>"

definition sample_lib :: golib where
  "sample_lib = \<lparr>gl_Parse = (\<lambda>l s. None), gl_Format = (\<lambda>t l. ''''), gl_FormatFloat = (\<lambda>x. ''1''),
     gl_Sprint = (\<lambda>v. ''map''), gl_Now = 5\<rparr>"

definition sample_st :: paginationState where
  "sample_st =
     \<lparr>ps_CurrentOffset = 0, ps_CurrentOffsetToken = '''', ps_Limit = 2, ps_CurrentPage = 0, ps_PageSize = 20,
      ps_CurrentTimestamp = zero_time, ps_TimestampFromData = False, ps_ResolvedStartTime = '''',
      ps_ResolvedEndTime = '''', ps_TotalRecords = 0, ps_TotalPages = 0, ps_PagesFetched = 0\<rparr>"

theorem offset_cycle_exact_witness:
  "\<exists>res pages st'. poll sample_lib sample_config (list_api [[], [], []] ''offset'' ''limit'')
      sample_st [] = Some (res, None, pages, st', [[], []])
    \<and> ps_CurrentOffset st' = 2"
  using offset_cycle_exact [of sample_config sample_st "[[], [], []]" sample_lib "[]"]
  by (simp add: sample_st_def numeric_offset_config_def offset_state_def sample_config_def sample_pagination_def
      cycle_collects_def full_pages_def Let_def) blast

section \<open>Timestamps\<close>

lemma foldl_newer_mono: "m \<le> foldl (newer lib cfg) m data"
proof (induction data arbitrary: m)
  case (Cons x xs)
  have "m \<le> newer lib cfg m x" by (auto simp: newer_def Let_def split: option.splits)
  also have "\<dots> \<le> foldl (newer lib cfg) (newer lib cfg m x) xs" by (rule Cons.IH)
  finally show ?case by simp
qed simp

lemma foldl_newer_max:
  "it \<in> set data \<Longrightarrow> map_of it (pc_TimestampFieldName (cf_Pagination cfg)) = Some v \<Longrightarrow>
     parseTimestampValue lib v (cf_TimestampFormat cfg) \<le> max zero_time (foldl (newer lib cfg) m data)"
proof (induction data arbitrary: m)
  case (Cons x xs)
  show ?case
  proof (cases "x = it")
    case True
    have "parseTimestampValue lib v (cf_TimestampFormat cfg) \<le> max zero_time (newer lib cfg m it)"
      using Cons.prems(2) by (auto simp: newer_def Let_def)
    also have "\<dots> \<le> max zero_time (foldl (newer lib cfg) (newer lib cfg m it) xs)"
      using foldl_newer_mono [of "newer lib cfg m it" lib cfg xs] by auto
    finally show ?thesis using True by simp
  next
    case False
    with Cons show ?thesis by simp
  qed
qed simp

text \<open>
  C35. With an epoch format, timestamp pagination makes progress and does not ask for a record twice:
  after a page the stored time is no older than before and no record of the page is newer, and, once the
  stored time came from a page, the lower bound of the next request is later than the newest record, by
  at most one unit of the format's resolution. (With a layout that drops the fractions of a second, such
  as the default one, the bound is not later: lemma \<open>rfc3339_asks_again\<close>.)
\<close>

theorem timestamp_pages_disjoint:
  assumes "parseTimestampResponse lib cfg data st = (r, st')"
    and "pc_Mode (cf_Pagination cfg) = ModeTimestamp" and "pc_TimestampFieldName (cf_Pagination cfg) \<noteq> ''''"
    and "zero_time \<le> ps_CurrentTimestamp st" and "isEpochFormat (cf_TimestampFormat cfg)"
    and "ps_CurrentTimestamp st' \<noteq> zero_time" and "ps_PagesFetched st' > 0 \<or> ps_TimestampFromData st'"
    and "in_range (ps_CurrentTimestamp st' + timestampResolution (cf_TimestampFormat cfg))"
  shows "ps_CurrentTimestamp st \<le> ps_CurrentTimestamp st'
    \<and> (\<forall>it\<in>set data. \<forall>v. map_of it (pc_TimestampFieldName (cf_Pagination cfg)) = Some v \<longrightarrow>
         parseTimestampValue lib v (cf_TimestampFormat cfg) \<le> ps_CurrentTimestamp st')
    \<and> (\<exists>b. parseEpochTimestamp (requestStartTime lib cfg st') (cf_TimestampFormat cfg) = Some b
         \<and> ps_CurrentTimestamp st' < b \<and> b \<le> ps_CurrentTimestamp st' + timestampResolution (cf_TimestampFormat cfg))"
proof -
  let ?max = "foldl (newer lib cfg) zero_time data" and ?f = "cf_TimestampFormat cfg"
  let ?t = "ps_CurrentTimestamp st'" and ?res = "timestampResolution (cf_TimestampFormat cfg)"
  have st': "data = [] \<and> st' = st \<or> data \<noteq> [] \<and> (?t = max (ps_CurrentTimestamp st) ?max)"
    using assms(1,3,4) foldl_newer_mono [of zero_time lib cfg data]
    by (auto simp: parseTimestampResponse_def Let_def split: if_splits)
  have "ps_CurrentTimestamp st \<le> ?t" using st' by auto
  moreover have "parseTimestampValue lib v ?f \<le> ?t"
    if "it \<in> set data" "map_of it (pc_TimestampFieldName (cf_Pagination cfg)) = Some v" for it v
    using foldl_newer_max [OF that, of lib zero_time] st' that assms(4) by auto
  moreover have "\<exists>b. parseEpochTimestamp (requestStartTime lib cfg st') ?f = Some b \<and> ?t < b \<and> b \<le> ?t + ?res"
  proof -
    let ?u = "epoch_unit ?f"
    have req: "requestStartTime lib cfg st' = formatTimestampEpoch (?t + ?res) ?f"
      using assms(2,5,6,7) by (auto simp: requestStartTime_def Let_def)
    have u: "0 < ?u" "?u \<le> ?res"
      using assms(5) by (auto simp: isEpochFormat_def epoch_unit_def timestampResolution_def)
    let ?d = "?t + ?res - unix_epoch"
    have "?d div ?u * ?u = ?d - ?d mod ?u" by (simp add: minus_mod_eq_div_mult)
    moreover have "0 \<le> ?d mod ?u" "?d mod ?u < ?u" using u by auto
    ultimately have "?t < unix_epoch + ?d div ?u * ?u" "unix_epoch + ?d div ?u * ?u \<le> ?t + ?res"
      using u by linarith+
    with epoch_roundtrip_lemma [OF assms(8,5)] req show ?thesis by auto
  qed
  ultimately show ?thesis by blast
qed

theorem timestamp_pages_disjoint_witness:
  "\<exists>b. parseEpochTimestamp (requestStartTime sample_lib
      (sample_config\<lparr>cf_Pagination := sample_pagination\<lparr>pc_Mode := ModeTimestamp, pc_TimestampFieldName := ''ts''\<rparr>\<rparr>)
      (sample_st\<lparr>ps_CurrentTimestamp := time_Unix 7 0, ps_TimestampFromData := True\<rparr>))
      ''epoch_ms'' = Some b \<and> time_Unix 7 0 < b"
  using timestamp_pages_disjoint [where lib = sample_lib and data = "[[(''ts'', AInt64 7)]]"
      and cfg = "sample_config\<lparr>cf_Pagination := sample_pagination\<lparr>pc_Mode := ModeTimestamp, pc_TimestampFieldName := ''ts''\<rparr>\<rparr>"
      and st = sample_st and r = "Inr False"
      and st' = "sample_st\<lparr>ps_CurrentTimestamp := time_Unix 7 0, ps_TimestampFromData := True\<rparr>"]
  by (simp add: sample_st_def sample_config_def sample_pagination_def parseTimestampResponse_def newer_def
      parseTimestampValue_def time_Unix_def unix_epoch_def isEpochFormat_def in_range_def timestampResolution_def) blast

text \<open>
  With a layout without fractions of a second the microsecond that is added is lost when the time is
  written: the next request asks again from the beginning of the second of the newest record.
\<close>

lemma rfc3339_asks_again:
  assumes "\<forall>t. gl_Format lib t RFC3339 = gl_Format lib (t - t mod 1000000000) RFC3339"
    and "pc_Mode (cf_Pagination cfg) = ModeTimestamp" and "cf_TimestampFormat cfg = ''''"
    and "ps_CurrentTimestamp st \<noteq> zero_time" and "ps_TimestampFromData st"
    and "ps_CurrentTimestamp st mod 1000000000 < 999999000"
  shows "requestStartTime lib cfg st
      = gl_Format lib (ps_CurrentTimestamp st - ps_CurrentTimestamp st mod 1000000000) RFC3339"
proof -
  let ?t = "ps_CurrentTimestamp st"
  have "(?t + 1000) mod 1000000000 = (?t mod 1000000000 + 1000) mod 1000000000" by (simp add: mod_simps)
  also have "\<dots> = ?t mod 1000000000 + 1000" by (rule mod_pos_pos_trivial) (use assms(6) in auto)
  finally have "?t + 1000 - (?t + 1000) mod 1000000000 = ?t - ?t mod 1000000000" by simp
  moreover have "requestStartTime lib cfg st = gl_Format lib (?t + 1000) RFC3339"
    using assms(2-5) by (simp add: requestStartTime_def Let_def isEpochFormat_def timestampResolution_def)
  ultimately show ?thesis using assms(1) by metis
qed

section \<open>Cursors and page numbers\<close>

text \<open>
  A stored cursor is never lost: no response of the API, in any shape and any mode, and no
  step to the next page clears it, so a poll that finds no next token resumes from the last
  one; and a response that brings no token leaves the state as it was and ends the cycle,
  whatever it says about there being more.
\<close>

theorem cursor_survives:
  assumes "ps_CurrentOffsetToken st \<noteq> ''''"
  shows "ps_CurrentOffsetToken (snd (handlePagination lib rd cfg resp data st)) \<noteq> ''''
    \<and> (pc_Mode (cf_Pagination cfg) = ModeOffsetLimit \<and> pc_NextOffsetFieldName (cf_Pagination cfg) \<noteq> ''''
       \<and> (\<forall>m. resp = AObj m \<longrightarrow> getNestedField m (pc_NextOffsetFieldName (cf_Pagination cfg)) \<in> {None, Some ANull, Some (AStr '''')})
       \<longrightarrow> handlePagination lib rd cfg resp data st = (False, st))"
proof -
  have parse: "ps_CurrentOffsetToken s1 \<noteq> ''''"
    if "parsePaginationResponse lib cfg resp data st = (b, s1)" for b s1
  proof (cases "pc_Mode (cf_Pagination cfg)")
    case ModeOffsetLimit
    with that assms show ?thesis
      by (cases resp) (auto simp: parsePaginationResponse_def parseOffsetLimitResponse_def Let_def
          split: option.splits if_splits)
  next
    case ModePageSize
    with that assms show ?thesis
      by (cases resp) (auto simp: parsePaginationResponse_def parsePageSizeResponse_def Let_def
          split: option.splits if_splits)
  next
    case ModeTimestamp
    with that assms show ?thesis
      by (auto simp: parsePaginationResponse_def parseTimestampResponse_def Let_def split: if_splits)
  qed (use that assms in \<open>simp add: parsePaginationResponse_def\<close>)
  obtain r s1 where p: "parsePaginationResponse lib cfg resp data st = (r, s1)" by fastforce
  have upd: "ps_CurrentOffsetToken (updatePaginationState cfg s) = ps_CurrentOffsetToken s" for s
    by (simp add: updatePaginationState_def split: pagination_mode.splits)
  have "ps_CurrentOffsetToken (snd (handlePagination lib rd cfg resp data st)) \<noteq> ''''"
    using parse [OF p] assms by (cases r) (simp_all add: handlePagination_def p Let_def upd)
  moreover have "handlePagination lib rd cfg resp data st = (False, st)"
    if "pc_Mode (cf_Pagination cfg) = ModeOffsetLimit" "pc_NextOffsetFieldName (cf_Pagination cfg) \<noteq> ''''"
      "\<forall>m. resp = AObj m \<longrightarrow> getNestedField m (pc_NextOffsetFieldName (cf_Pagination cfg)) \<in> {None, Some ANull, Some (AStr '''')}"
    using that by (cases resp) (auto simp: handlePagination_def parsePaginationResponse_def parseOffsetLimitResponse_def Let_def)
  ultimately show ?thesis by blast
qed

theorem cursor_survives_witness:
  "ps_CurrentOffsetToken (snd (handlePagination sample_lib (\<lambda>b. True) sample_config (AObj []) []
     (sample_st\<lparr>ps_CurrentOffsetToken := ''abc''\<rparr>))) \<noteq> ''''"
  using cursor_survives [of "sample_st\<lparr>ps_CurrentOffsetToken := ''abc''\<rparr>"]
  by simp

text \<open>
  When the API reports the number of its pages, page-number pagination goes on while the
  current page is below that number, whether pages are counted from one or from zero. Counted
  from zero, the last page of \<open>n\<close> pages has number \<open>n - 1\<close>, and the receiver still asks for a
  page \<open>n\<close> that does not exist.
\<close>

theorem zero_based_reads_past_last_page:
  assumes "pc_Mode (cf_Pagination cfg) = ModePageSize" and "pc_HasMoreFieldName (cf_Pagination cfg) = ''''"
    and "pc_TotalPagesFieldName (cf_Pagination cfg) \<noteq> ''''"
    and "map_of m (pc_TotalPagesFieldName (cf_Pagination cfg)) = Some (AFloat (of_int n))" and "0 < n"
    and "pc_PageLimit (cf_Pagination cfg) = 0"
  shows "(fst (handlePagination lib (\<lambda>b. True) cfg (AObj m) data st) \<longleftrightarrow> ps_CurrentPage st < n)
    \<and> (pc_ZeroBasedIndex (cf_Pagination cfg) \<and> ps_CurrentPage st = n - 1 \<longrightarrow>
         fst (handlePagination lib (\<lambda>b. True) cfg (AObj m) data st)
         \<and> ps_CurrentPage (snd (handlePagination lib (\<lambda>b. True) cfg (AObj m) data st)) = n)"
  using assms
  by (auto simp: handlePagination_def parsePaginationResponse_def parsePageSizeResponse_def explicitHasMore_def
      toInt_def trunc_float_def updatePaginationState_def checkPageLimit_def Let_def)

theorem zero_based_reads_past_last_page_witness:
  "ps_CurrentPage (snd (handlePagination sample_lib (\<lambda>b. True)
      (sample_config\<lparr>cf_Pagination := sample_pagination\<lparr>pc_Mode := ModePageSize, pc_TotalPagesFieldName := ''pages'',
         pc_ZeroBasedIndex := True, pc_PageLimit := 0\<rparr>\<rparr>)
      (AObj [(''pages'', AFloat 3)]) [] (sample_st\<lparr>ps_CurrentPage := 2\<rparr>))) = 3"
  using zero_based_reads_past_last_page [of "sample_config\<lparr>cf_Pagination := sample_pagination\<lparr>pc_Mode := ModePageSize,
         pc_TotalPagesFieldName := ''pages'', pc_ZeroBasedIndex := True, pc_PageLimit := 0\<rparr>\<rparr>"
      "[(''pages'', AFloat 3)]" 3 sample_lib "[]" "sample_st\<lparr>ps_CurrentPage := 2\<rparr>"]
  by (simp add: sample_config_def sample_pagination_def sample_st_def)

section \<open>The page limit\<close>

text \<open>
  C34. A poll cycle with a page limit always ends, whatever the API answers and in every
  pagination mode, and starting with a fresh page count it fetches at most as many pages as
  the limit allows; a cycle that ends well starts the next one with a fresh count.
\<close>

theorem page_limit_bounds_cycle:
  assumes "0 < pc_PageLimit (cf_Pagination cfg)" and "ps_PagesFetched st = 0"
  shows "\<exists>res err pages st' w'. poll lib cfg ow st w = Some (res, err, pages, st', w')
    \<and> int pages \<le> pc_PageLimit (cf_Pagination cfg) \<and> (err = None \<longrightarrow> ps_PagesFetched st' = 0)"
proof (cases "ow_renders ow (newRequestBodyData lib cfg st)")
  case True
  then show ?thesis
    using poll_loop_bounded [OF assms(1), of lib ow "\<lparr>pr_recordCount = 0, pr_lastPageFull = False\<rparr>" 0 st w] assms
    by (auto simp: poll_def split: option.splits)
next
  case False
  then show ?thesis using assms by (simp add: poll_def)
qed

text \<open>
  A cycle that fails, while fetching or consuming a page, does not give back the pages it
  fetched: the count stays what it was plus the pages before the failing one, and the next
  cycle may only fetch what is left of the limit, or a single page when nothing is left. So
  the limit is not one of each cycle, as its documentation has it.
\<close>

theorem failed_cycle_keeps_page_count:
  assumes "0 < pc_PageLimit (cf_Pagination cfg)"
    and "poll lib cfg ow st w = Some (res, Some e, pages, st', w')" and "0 < pages"
    and "poll lib cfg ow' st' w2 = Some (res2, err2, pages2, st2, w2')"
  shows "ps_PagesFetched st' = ps_PagesFetched st + int pages - 1
    \<and> int pages2 \<le> max 1 (pc_PageLimit (cf_Pagination cfg) - ps_PagesFetched st')"
proof -
  have "ow_renders ow (newRequestBodyData lib cfg st)" using assms(2,3) by (simp add: poll_def split: if_splits)
  with poll_loop_bounded [OF assms(1), of lib ow "\<lparr>pr_recordCount = 0, pr_lastPageFull = False\<rparr>" 0 st w] assms(2)
  have "ps_PagesFetched st' = ps_PagesFetched st + int pages - 1"
    by (auto simp: poll_def)
  moreover have "int pages2 \<le> max 1 (pc_PageLimit (cf_Pagination cfg) - ps_PagesFetched st')"
    using poll_loop_bounded [OF assms(1), of lib ow' "\<lparr>pr_recordCount = 0, pr_lastPageFull = False\<rparr>" 0 st' w2] assms(4)
    by (auto simp: poll_def split: if_splits)
  ultimately show ?thesis by blast
qed

text \<open>An API that delivers one full page and then fails.\<close>

definition flaky_api :: "nat outside" where
  "flaky_api =
     \<lparr>ow_fetch = (\<lambda>req n. (if n = 0 then Inr (AObj [], [[], []]) else Inl ''down'', Suc n)),
      ow_consume = (\<lambda>data n. ((int (length data), None), n)),
      ow_save = (\<lambda>s n. n),
      ow_renders = (\<lambda>b. True)\<rparr>"

abbreviation two_pages :: config where
  "two_pages \<equiv> sample_config\<lparr>cf_Pagination := sample_pagination\<lparr>pc_PageLimit := 2\<rparr>\<rparr>"

lemma flaky_handle:
  "handlePagination lib (\<lambda>b. True) two_pages (AObj []) [[], []] sample_st =
     (True, sample_st\<lparr>ps_CurrentOffset := 2, ps_PagesFetched := 1\<rparr>)"
  by (simp add: handlePagination_def parsePaginationResponse_def parseOffsetLimitResponse_def explicitHasMore_def
      checkPageLimit_def sample_config_def sample_pagination_def sample_st_def Let_def)

lemma flaky_polls:
  "poll sample_lib two_pages flaky_api sample_st 0 =
     Some (\<lparr>pr_recordCount = 2, pr_lastPageFull = False\<rparr>, Some ''down'', 2,
       sample_st\<lparr>ps_CurrentOffset := 2, ps_PagesFetched := 1\<rparr>, 2)"
  "poll sample_lib two_pages flaky_api (sample_st\<lparr>ps_CurrentOffset := 2, ps_PagesFetched := 1\<rparr>) 2 =
     Some (\<lparr>pr_recordCount = 0, pr_lastPageFull = False\<rparr>, Some ''down'', 1,
       sample_st\<lparr>ps_CurrentOffset := 2, ps_PagesFetched := 1\<rparr>, 3)"
   by (simp_all add: poll_def flaky_api_def poll_loop.simps flaky_handle Let_def)

theorem page_limit_bounds_cycle_witness:
  "\<exists>res err pages st' w'. poll sample_lib two_pages flaky_api sample_st 0 = Some (res, err, pages, st', w') \<and> pages \<le> 2"
  using page_limit_bounds_cycle [of two_pages sample_st sample_lib flaky_api 0]
  by (auto simp: sample_config_def sample_pagination_def sample_st_def)

theorem failed_cycle_keeps_page_count_witness:
  "ps_PagesFetched (sample_st\<lparr>ps_CurrentOffset := 2, ps_PagesFetched := 1\<rparr>) = ps_PagesFetched sample_st + int 2 - 1"
  using failed_cycle_keeps_page_count [OF _ flaky_polls(1) _ flaky_polls(2)]
  by (simp add: sample_config_def sample_pagination_def)


end
