(* ===== verification/JsonScan.thy ===== *)
theory JsonScan
  imports Prelude
begin

text \<open>
  The scanner and the streaming decoder of \<open>encoding/json\<close> as far as the repository drives them:
  the byte-wise state machine that delimits a value, \<open>Decoder.Decode\<close> into a \<open>json.RawMessage\<close>,
  \<open>Token\<close>, \<open>More\<close>, \<open>InputOffset\<close>, and \<open>json.Valid\<close>, over an input that is given in full; and the
  UTF-8 functions of \<open>unicode/utf8\<close> that decoding a string uses. This is the standard library,
  not the repository: the theories that model the repository's code build on it.
\<close>

section \<open>The scanner\<close>

datatype scan_state =
    BeginValueOrEmpty | BeginValue | BeginStringOrEmpty | BeginString | EndValue | EndTop
  | InString | InStringEsc | InStringEscU nat | Neg | Int1 | Int0 | Dot | Dot0 | Exp | ExpSign | Exp0
  | Lit string | ScanFailed

datatype parse_state = ParseObjectKey | ParseObjectValue | ParseArrayValue

datatype scan_code =
    ScanContinue | ScanBeginLiteral | ScanBeginObject | ScanObjectKey | ScanObjectValue | ScanEndObject
  | ScanBeginArray | ScanArrayValue | ScanEndArray | ScanSkipSpace | ScanEnd | ScanError

record scanner =
  sc_step :: scan_state
  sc_parse :: "parse_state list"
  sc_err :: bool
  sc_endTop :: bool

definition isSpace :: "char \<Rightarrow> bool" where
  "isSpace c = (c = CHR '' '' \<or> c = CHR 0x09 \<or> c = CHR 0x0D \<or> c = CHR 0x0A)"

definition isDigit :: "char \<Rightarrow> bool" where
  "isDigit c = (48 \<le> (of_char c :: nat) \<and> (of_char c :: nat) \<le> 57)"

definition isHex :: "char \<Rightarrow> bool" where
  "isHex c = (let n = of_char c :: nat in isDigit c \<or> 97 \<le> n \<and> n \<le> 102 \<or> 65 \<le> n \<and> n \<le> 70)"

definition maxNestingDepth :: nat where
  "maxNestingDepth = 10000"

definition scan_reset :: scanner where
  "scan_reset = \<lparr>sc_step = BeginValue, sc_parse = [], sc_err = False, sc_endTop = False\<rparr>"

definition scan_error :: "scanner \<Rightarrow> scan_code \<times> scanner" where
  "scan_error s = (ScanError, s\<lparr>sc_step := ScanFailed, sc_err := True\<rparr>)"

definition goto :: "scan_state \<Rightarrow> scan_code \<Rightarrow> scanner \<Rightarrow> scan_code \<times> scanner" where
  "goto st code s = (code, s\<lparr>sc_step := st\<rparr>)"

text \<open>The stack has its top first.\<close>

definition pushParseState :: "parse_state \<Rightarrow> scan_code \<Rightarrow> scanner \<Rightarrow> scan_code \<times> scanner" where
  "pushParseState ps code s =
     (let s1 = s\<lparr>sc_parse := ps # sc_parse s\<rparr>
      in if length (sc_parse s1) \<le> maxNestingDepth then (code, s1) else scan_error s1)"

definition popParseState :: "scanner \<Rightarrow> scanner" where
  "popParseState s =
     (let s1 = s\<lparr>sc_parse := tl (sc_parse s)\<rparr>
      in if sc_parse s1 = [] then s1\<lparr>sc_step := EndTop, sc_endTop := True\<rparr> else s1\<lparr>sc_step := EndValue\<rparr>)"

definition stateEndTop :: "scanner \<Rightarrow> char \<Rightarrow> scan_code \<times> scanner" where
  "stateEndTop s c = (ScanEnd, if isSpace c then s else snd (scan_error s))"

definition stateEndValue :: "scanner \<Rightarrow> char \<Rightarrow> scan_code \<times> scanner" where
  "stateEndValue s c =
     (case sc_parse s of
        [] \<Rightarrow> stateEndTop (s\<lparr>sc_step := EndTop, sc_endTop := True\<rparr>) c
      | ps # pss \<Rightarrow>
          if isSpace c then goto EndValue ScanSkipSpace s
          else (case ps of
                  ParseObjectKey \<Rightarrow>
                    if c = CHR '':'' then (ScanObjectKey, s\<lparr>sc_parse := ParseObjectValue # pss, sc_step := BeginValue\<rparr>)
                    else scan_error s
                | ParseObjectValue \<Rightarrow>
                    if c = CHR '','' then (ScanObjectValue, s\<lparr>sc_parse := ParseObjectKey # pss, sc_step := BeginString\<rparr>)
                    else if c = CHR ''}'' then (ScanEndObject, popParseState s)
                    else scan_error s
                | ParseArrayValue \<Rightarrow>
                    if c = CHR '','' then goto BeginValue ScanArrayValue s
                    else if c = CHR '']'' then (ScanEndArray, popParseState s)
                    else scan_error s))"

definition stateBeginValue :: "scanner \<Rightarrow> char \<Rightarrow> scan_code \<times> scanner" where
  "stateBeginValue s c =
     (if isSpace c then (ScanSkipSpace, s)
      else if c = CHR ''{'' then pushParseState ParseObjectKey ScanBeginObject (s\<lparr>sc_step := BeginStringOrEmpty\<rparr>)
      else if c = CHR ''['' then pushParseState ParseArrayValue ScanBeginArray (s\<lparr>sc_step := BeginValueOrEmpty\<rparr>)
      else if c = CHR 0x22 then goto InString ScanBeginLiteral s
      else if c = CHR ''-'' then goto Neg ScanBeginLiteral s
      else if c = CHR ''0'' then goto Int0 ScanBeginLiteral s
      else if c = CHR ''t'' then goto (Lit ''rue'') ScanBeginLiteral s
      else if c = CHR ''f'' then goto (Lit ''alse'') ScanBeginLiteral s
      else if c = CHR ''n'' then goto (Lit ''ull'') ScanBeginLiteral s
      else if isDigit c then goto Int1 ScanBeginLiteral s
      else scan_error s)"

definition stateBeginString :: "scanner \<Rightarrow> char \<Rightarrow> scan_code \<times> scanner" where
  "stateBeginString s c =
     (if isSpace c then (ScanSkipSpace, s)
      else if c = CHR 0x22 then goto InString ScanBeginLiteral s
      else scan_error s)"

definition state0 :: "scanner \<Rightarrow> char \<Rightarrow> scan_code \<times> scanner" where
  "state0 s c =
     (if c = CHR ''.'' then goto Dot ScanContinue s
      else if c = CHR ''e'' \<or> c = CHR ''E'' then goto Exp ScanContinue s
      else stateEndValue s c)"

definition stateESign :: "scanner \<Rightarrow> char \<Rightarrow> scan_code \<times> scanner" where
  "stateESign s c = (if isDigit c then goto Exp0 ScanContinue s else scan_error s)"

definition scan_step :: "scanner \<Rightarrow> char \<Rightarrow> scan_code \<times> scanner" where
  "scan_step s c =
     (case sc_step s of
        BeginValueOrEmpty \<Rightarrow>
          if isSpace c then (ScanSkipSpace, s)
          else if c = CHR '']'' then stateEndValue s c else stateBeginValue s c
      | BeginValue \<Rightarrow> stateBeginValue s c
      | BeginStringOrEmpty \<Rightarrow>
          if isSpace c then (ScanSkipSpace, s)
          else if c = CHR ''}'' then stateEndValue (s\<lparr>sc_parse := ParseObjectValue # tl (sc_parse s)\<rparr>) c
          else stateBeginString s c
      | BeginString \<Rightarrow> stateBeginString s c
      | EndValue \<Rightarrow> stateEndValue s c
      | EndTop \<Rightarrow> stateEndTop s c
      | InString \<Rightarrow>
          if c = CHR 0x22 then goto EndValue ScanContinue s
          else if c = CHR 0x5C then goto InStringEsc ScanContinue s
          else if (of_char c :: nat) < 32 then scan_error s
          else (ScanContinue, s)
      | InStringEsc \<Rightarrow>
          if c \<in> set ''bfnrt/'' \<or> c = CHR 0x5C \<or> c = CHR 0x22 then goto InString ScanContinue s
          else if c = CHR ''u'' then goto (InStringEscU 4) ScanContinue s
          else scan_error s
      | InStringEscU k \<Rightarrow>
          if isHex c then goto (if k \<le> 1 then InString else InStringEscU (k - 1)) ScanContinue s
          else scan_error s
      | Neg \<Rightarrow>
          if c = CHR ''0'' then goto Int0 ScanContinue s
          else if isDigit c then goto Int1 ScanContinue s
          else scan_error s
      | Int1 \<Rightarrow> if isDigit c then goto Int1 ScanContinue s else state0 s c
      | Int0 \<Rightarrow> state0 s c
      | Dot \<Rightarrow> if isDigit c then goto Dot0 ScanContinue s else scan_error s
      | Dot0 \<Rightarrow>
          if isDigit c then (ScanContinue, s)
          else if c = CHR ''e'' \<or> c = CHR ''E'' then goto Exp ScanContinue s
          else stateEndValue s c
      | Exp \<Rightarrow> if c = CHR ''+'' \<or> c = CHR ''-'' then goto ExpSign ScanContinue s else stateESign s c
      | ExpSign \<Rightarrow> stateESign s c
      | Exp0 \<Rightarrow> if isDigit c then (ScanContinue, s) else stateEndValue s c
      | Lit expected \<Rightarrow>
          (case expected of
             [] \<Rightarrow> scan_error s
           | e # es \<Rightarrow> if c = e then goto (if es = [] then EndValue else Lit es) ScanContinue s else scan_error s)
      | ScanFailed \<Rightarrow> (ScanError, s))"

lemmas scanner_defs [model_defs] =
  scan_reset_def scan_error_def goto_def pushParseState_def popParseState_def stateEndTop_def
  stateEndValue_def stateBeginValue_def stateBeginString_def state0_def stateESign_def scan_step_def
  isSpace_def isDigit_def isHex_def maxNestingDepth_def


section \<open>Values of a stream\<close>

datatype json_err = JEOF | JUnexpectedEOF | JSyntax

text \<open>
  \<open>Decoder.readValue\<close>: how many bytes the next value takes, leading space included, when the
  source ends behind the given bytes. An object or array ends with its bracket; a literal ends at
  the byte behind it, or at the end of the source.
\<close>

fun read_loop :: "scanner \<Rightarrow> nat \<Rightarrow> bytes \<Rightarrow> json_err + nat" where
  "read_loop sc n [] = (if fst (scan_step sc CHR '' '') = ScanEnd then Inr n else Inl JEOF)"
| "read_loop sc n (c # cs) =
     (case scan_step sc c of
        (code, sc1) \<Rightarrow>
          if code = ScanEnd then Inr n
          else if code = ScanError then Inl JSyntax
          else if code = ScanEndObject \<or> code = ScanEndArray then
            (case stateEndValue sc1 CHR '' '' of
               (code2, sc2) \<Rightarrow> if code2 = ScanEnd then Inr (Suc n) else read_loop sc2 (Suc n) cs)
          else read_loop sc1 (Suc n) cs)"

definition readValue :: "bytes \<Rightarrow> json_err + nat" where
  "readValue s =
     (case read_loop scan_reset 0 s of
        Inl JEOF \<Rightarrow> Inl (if \<forall>c\<in>set s. isSpace c then JEOF else JUnexpectedEOF)
      | r \<Rightarrow> r)"

fun scan_all :: "scanner \<Rightarrow> bytes \<Rightarrow> scanner option" where
  "scan_all sc [] = Some sc"
| "scan_all sc (c # cs) =
     (case scan_step sc c of (code, sc1) \<Rightarrow> if code = ScanError then None else scan_all sc1 cs)"

text \<open>\<open>checkValid\<close> with the scanner's \<open>eof\<close>.\<close>

definition json_Valid :: "bytes \<Rightarrow> bool" where
  "json_Valid s =
     (case scan_all scan_reset s of
        None \<Rightarrow> False
      | Some sc \<Rightarrow> \<not> sc_err sc \<and> (sc_endTop sc \<or> sc_endTop (snd (scan_step sc CHR '' ''))))"

section \<open>UTF-8\<close>

definition cont_byte :: "nat \<Rightarrow> bool" where
  "cont_byte b = (128 \<le> b \<and> b \<le> 191)"

text \<open>\<open>DecodeRune\<close>: the rune and its width; an ill-formed sequence is U+FFFD of width one.\<close>

definition DecodeRune :: "bytes \<Rightarrow> nat \<times> nat" where
  "DecodeRune s =
     (let b = map of_char (take 4 s) :: nat list;
          n = length b; b0 = b ! 0; b1 = b ! 1; b2 = b ! 2; b3 = b ! 3
      in if n = 0 then (65533, 0)
         else if b0 < 128 then (b0, 1)
         else if 194 \<le> b0 \<and> b0 \<le> 223 \<and> 2 \<le> n \<and> cont_byte b1 then ((b0 - 192) * 64 + (b1 - 128), 2)
         else if 224 \<le> b0 \<and> b0 \<le> 239 \<and> 3 \<le> n \<and> cont_byte b1 \<and> cont_byte b2
                 \<and> (b0 = 224 \<longrightarrow> 160 \<le> b1) \<and> (b0 = 237 \<longrightarrow> b1 \<le> 159)
         then ((b0 - 224) * 4096 + (b1 - 128) * 64 + (b2 - 128), 3)
         else if 240 \<le> b0 \<and> b0 \<le> 244 \<and> 4 \<le> n \<and> cont_byte b1 \<and> cont_byte b2 \<and> cont_byte b3
                 \<and> (b0 = 240 \<longrightarrow> 144 \<le> b1) \<and> (b0 = 244 \<longrightarrow> b1 \<le> 143)
         then ((b0 - 240) * 262144 + (b1 - 128) * 4096 + (b2 - 128) * 64 + (b3 - 128), 4)
         else (65533, 1))"

definition EncodeRune :: "nat \<Rightarrow> bytes" where
  "EncodeRune r0 =
     (let r = (if r0 > 1114111 \<or> 55296 \<le> r0 \<and> r0 \<le> 57343 then 65533 else r0)
      in map char_of
          (if r < 128 then [r]
           else if r < 2048 then [192 + r div 64, 128 + r mod 64]
           else if r < 65536 then [224 + r div 4096, 128 + r div 64 mod 64, 128 + r mod 64]
           else [240 + r div 262144, 128 + r div 4096 mod 64, 128 + r div 64 mod 64, 128 + r mod 64]))"

lemma DecodeRune_size: "s \<noteq> [] \<Longrightarrow> 0 < snd (DecodeRune s)"
  by (auto simp: DecodeRune_def Let_def)

lemma DecodeRune_pos: "(r, n) = DecodeRune s \<Longrightarrow> s \<noteq> [] \<Longrightarrow> 0 < n"
  by (metis DecodeRune_size snd_conv)

function ValidString :: "bytes \<Rightarrow> bool" where
  "ValidString s =
     (if s = [] then True
      else (case DecodeRune s of
              (r, n) \<Rightarrow> \<not> (r = 65533 \<and> n = 1) \<and> ValidString (drop n s)))"
  by auto
termination
  by (relation "measure length") (simp_all add: DecodeRune_pos)

declare ValidString.simps [simp del]

section \<open>The text of a string value\<close>

definition hex_value :: "char \<Rightarrow> nat" where
  "hex_value c =
     (let n = of_char c :: nat in if n \<le> 57 then n - 48 else if n \<ge> 97 then n - 87 else n - 55)"

text \<open>\<open>getu4\<close> behind the backslash: four hexadecimal digits.\<close>

definition getu4 :: "bytes \<Rightarrow> nat option" where
  "getu4 s =
     (if length s \<ge> 6 \<and> s ! 0 = CHR 0x5C \<and> s ! 1 = CHR ''u'' \<and> list_all isHex (take 4 (drop 2 s))
      then Some (foldl (\<lambda>a c. 16 * a + hex_value c) 0 (take 4 (drop 2 s))) else None)"

definition unescape :: "char \<Rightarrow> char" where
  "unescape c =
     (if c = CHR ''b'' then CHR 0x08 else if c = CHR ''f'' then CHR 0x0C else if c = CHR ''n'' then CHR 0x0A
      else if c = CHR ''r'' then CHR 0x0D else if c = CHR ''t'' then CHR 0x09 else c)"

function unquote :: "bytes \<Rightarrow> bytes" where
  "unquote s =
     (if s = [] then []
      else if s ! 0 = CHR 0x5C then
        (case getu4 s of
           Some rr \<Rightarrow>
             if 55296 \<le> rr \<and> rr \<le> 57343 then
               (case getu4 (drop 6 s) of
                  Some rr1 \<Rightarrow>
                    if rr \<le> 56319 \<and> 56320 \<le> rr1 \<and> rr1 \<le> 57343
                    then EncodeRune ((rr - 55296) * 1024 + (rr1 - 56320) + 65536) @ unquote (drop 12 s)
                    else EncodeRune 65533 @ unquote (drop 6 s)
                | None \<Rightarrow> EncodeRune 65533 @ unquote (drop 6 s))
             else EncodeRune rr @ unquote (drop 6 s)
         | None \<Rightarrow>
             if length s = 1 then [] else unescape (s ! 1) # unquote (drop 2 s))
      else if (of_char (s ! 0) :: nat) < 128 then s ! 0 # unquote (drop 1 s)
      else EncodeRune (fst (DecodeRune s)) @ unquote (drop (snd (DecodeRune s)) s))"
  by auto
termination
  by (relation "measure length") (simp_all add: DecodeRune_size)

declare unquote.simps [simp del]


section \<open>The decoder\<close>

datatype token_state =
    TokenTopValue | TokenArrayStart | TokenArrayValue | TokenArrayComma | TokenObjectStart
  | TokenObjectKey | TokenObjectColon | TokenObjectValue | TokenObjectComma

datatype token = TDelim char | TString bytes | TValue bytes

record decoder =
  dc_rest :: bytes
  dc_off :: nat
  dc_state :: token_state
  dc_stack :: "token_state list"
  dc_err :: "json_err option"

definition NewDecoder :: "bytes \<Rightarrow> decoder" where
  "NewDecoder s = \<lparr>dc_rest = s, dc_off = 0, dc_state = TokenTopValue, dc_stack = [], dc_err = None\<rparr>"

definition dec_skip :: "nat \<Rightarrow> decoder \<Rightarrow> decoder" where
  "dec_skip n d = d\<lparr>dc_rest := drop n (dc_rest d), dc_off := dc_off d + n\<rparr>"

definition peek :: "decoder \<Rightarrow> char option \<times> decoder" where
  "peek d =
     (let sp = length (takeWhile isSpace (dc_rest d))
      in case drop sp (dc_rest d) of
           [] \<Rightarrow> (None, d)
         | c # cs \<Rightarrow> (Some c, dec_skip sp d))"

definition More :: "decoder \<Rightarrow> bool \<times> decoder" where
  "More d =
     (case peek d of
        (None, d1) \<Rightarrow> (False, d1)
      | (Some c, d1) \<Rightarrow> (c \<noteq> CHR '']'' \<and> c \<noteq> CHR ''}'', d1))"

definition tokenPrepareForDecode :: "decoder \<Rightarrow> json_err option \<times> decoder" where
  "tokenPrepareForDecode d =
     (if dc_state d = TokenArrayComma then
        (case peek d of
           (None, d1) \<Rightarrow> (Some JEOF, d1)
         | (Some c, d1) \<Rightarrow>
             if c \<noteq> CHR '','' then (Some JSyntax, d1)
             else (None, (dec_skip 1 d1)\<lparr>dc_state := TokenArrayValue\<rparr>))
      else if dc_state d = TokenObjectColon then
        (case peek d of
           (None, d1) \<Rightarrow> (Some JEOF, d1)
         | (Some c, d1) \<Rightarrow>
             if c \<noteq> CHR '':'' then (Some JSyntax, d1)
             else (None, (dec_skip 1 d1)\<lparr>dc_state := TokenObjectValue\<rparr>))
      else (None, d))"

definition tokenValueAllowed :: "decoder \<Rightarrow> bool" where
  "tokenValueAllowed d = (dc_state d \<in> {TokenTopValue, TokenArrayStart, TokenArrayValue, TokenObjectValue})"

definition tokenValueEnd :: "decoder \<Rightarrow> decoder" where
  "tokenValueEnd d =
     (case dc_state d of
        TokenArrayStart \<Rightarrow> d\<lparr>dc_state := TokenArrayComma\<rparr>
      | TokenArrayValue \<Rightarrow> d\<lparr>dc_state := TokenArrayComma\<rparr>
      | TokenObjectValue \<Rightarrow> d\<lparr>dc_state := TokenObjectComma\<rparr>
      | _ \<Rightarrow> d)"

text \<open>\<open>Decode\<close> into a \<open>json.RawMessage\<close>: the bytes of the value without the space before it.\<close>

definition Decode :: "decoder \<Rightarrow> (json_err + bytes) \<times> decoder" where
  "Decode d =
     (case dc_err d of
        Some e \<Rightarrow> (Inl e, d)
      | None \<Rightarrow>
          (case tokenPrepareForDecode d of
             (Some e, d1) \<Rightarrow> (Inl e, d1)
           | (None, d1) \<Rightarrow>
               if \<not> tokenValueAllowed d1 then (Inl JSyntax, d1)
               else (case readValue (dc_rest d1) of
                       Inl e \<Rightarrow> (Inl e, d1\<lparr>dc_err := Some e\<rparr>)
                     | Inr n \<Rightarrow>
                         (Inr (dropWhile isSpace (take n (dc_rest d1))), tokenValueEnd (dec_skip n d1)))))"

definition open_bracket :: "char \<Rightarrow> token_state \<Rightarrow> decoder \<Rightarrow> (json_err + token) \<times> decoder" where
  "open_bracket c st d =
     (if tokenValueAllowed d
      then (Inr (TDelim c), (dec_skip 1 d)\<lparr>dc_stack := dc_state d # dc_stack d, dc_state := st\<rparr>)
      else (Inl JSyntax, d))"

definition close_bracket :: "char \<Rightarrow> token_state set \<Rightarrow> decoder \<Rightarrow> (json_err + token) \<times> decoder" where
  "close_bracket c sts d =
     (if dc_state d \<in> sts
      then (Inr (TDelim c),
            tokenValueEnd ((dec_skip 1 d)\<lparr>dc_state := hd (dc_stack d), dc_stack := tl (dc_stack d)\<rparr>))
      else (Inl JSyntax, d))"

lemma peek_rest: "peek d = (Some c, d1) \<Longrightarrow> \<exists>cs. dc_rest d1 = c # cs \<and> length cs < length (dc_rest d)"
  by (auto simp: peek_def dec_skip_def Let_def split: list.splits dest!: arg_cong [where f = length])

function Token :: "decoder \<Rightarrow> (json_err + token) \<times> decoder" where
  "Token d =
     (case peek d of
        (None, d1) \<Rightarrow> (Inl JEOF, d1)
      | (Some c, d1) \<Rightarrow>
          if c = CHR ''['' then open_bracket c TokenArrayStart d1
          else if c = CHR '']'' then close_bracket c {TokenArrayStart, TokenArrayComma} d1
          else if c = CHR ''{'' then open_bracket c TokenObjectStart d1
          else if c = CHR ''}'' then close_bracket c {TokenObjectStart, TokenObjectComma} d1
          else if c = CHR '':'' then
            (if dc_state d1 = TokenObjectColon then Token ((dec_skip 1 d1)\<lparr>dc_state := TokenObjectValue\<rparr>)
             else (Inl JSyntax, d1))
          else if c = CHR '','' then
            (if dc_state d1 = TokenArrayComma then Token ((dec_skip 1 d1)\<lparr>dc_state := TokenArrayValue\<rparr>)
             else if dc_state d1 = TokenObjectComma then Token ((dec_skip 1 d1)\<lparr>dc_state := TokenObjectKey\<rparr>)
             else (Inl JSyntax, d1))
          else if c = CHR 0x22 \<and> dc_state d1 \<in> {TokenObjectStart, TokenObjectKey} then
            (case Decode (d1\<lparr>dc_state := TokenTopValue\<rparr>) of
               (Inl e, d2) \<Rightarrow> (Inl e, d2\<lparr>dc_state := dc_state d1\<rparr>)
             | (Inr raw, d2) \<Rightarrow> (Inr (TString (unquote (butlast (tl raw)))), d2\<lparr>dc_state := TokenObjectColon\<rparr>))
          else if \<not> tokenValueAllowed d1 then (Inl JSyntax, d1)
          else (case Decode d1 of
                  (Inl e, d2) \<Rightarrow> (Inl e, d2)
                | (Inr raw, d2) \<Rightarrow>
                    (Inr (if c = CHR 0x22 then TString (unquote (butlast (tl raw))) else TValue raw), d2)))"
  by auto
termination
  by (relation "measure (\<lambda>d. length (dc_rest d))")
     (auto simp: dec_skip_def dest!: sym [of _ "peek _"] peek_rest)

declare Token.simps [simp del]

lemmas decoder_defs [model_defs] =
  NewDecoder_def dec_skip_def peek_def More_def tokenPrepareForDecode_def tokenValueAllowed_def
  tokenValueEnd_def Decode_def open_bracket_def close_bracket_def readValue_def


section \<open>A value delimits itself\<close>

text \<open>Inside an object or an array the scanner cannot end but with the closing bracket.\<close>

definition inside :: "scanner \<Rightarrow> bool" where
  "inside sc = (sc_parse sc \<noteq> [] \<and> sc_step sc \<noteq> EndTop)"

lemma inside_not_end: "inside sc \<Longrightarrow> scan_step sc c = (code, sc1) \<Longrightarrow> code \<noteq> ScanEnd"
  by (cases "sc_step sc")
     (auto simp: inside_def scanner_defs Let_def split: if_splits list.splits parse_state.splits)

lemma end_value_stays:
  "sc_parse s \<noteq> [] \<Longrightarrow> stateEndValue s c = (code, sc1) \<Longrightarrow> code \<notin> {ScanError, ScanEndObject, ScanEndArray} \<Longrightarrow>
     inside sc1"
  by (auto simp: inside_def stateEndValue_def goto_def scan_error_def
      split: if_splits list.splits parse_state.splits)

lemma begin_value_stays:
  "inside s \<Longrightarrow> stateBeginValue s c = (code, sc1) \<Longrightarrow> code \<noteq> ScanError \<Longrightarrow> inside sc1"
  by (auto simp: inside_def stateBeginValue_def pushParseState_def goto_def scan_error_def Let_def split: if_splits)

lemma begin_string_stays:
  "inside s \<Longrightarrow> stateBeginString s c = (code, sc1) \<Longrightarrow> code \<noteq> ScanError \<Longrightarrow> inside sc1"
  by (auto simp: inside_def stateBeginString_def goto_def scan_error_def split: if_splits)

lemma inside_stays:
  assumes "inside sc" and "scan_step sc c = (code, sc1)" and "code \<notin> {ScanError, ScanEndObject, ScanEndArray}"
  shows "inside sc1"
proof -
  have ne: "sc_parse sc \<noteq> []" "sc_step sc \<noteq> EndTop" using assms(1) by (auto simp: inside_def)
  note ev = end_value_stays [OF ne(1) _ assms(3), unfolded inside_def]
    and ev' = end_value_stays [OF _ _ assms(3), where s = "sc\<lparr>sc_parse := ParseObjectValue # tl (sc_parse sc)\<rparr>",
      unfolded inside_def, simplified]
    and bv = begin_value_stays [OF assms(1), unfolded inside_def]
    and bs = begin_string_stays [OF assms(1), unfolded inside_def]
  from assms(2,3) ne show ?thesis
    unfolding inside_def
    by (cases "sc_step sc")
       (auto simp: scan_step_def state0_def stateESign_def scan_error_def goto_def split: if_splits list.splits
         dest: ev ev' bv bs)
qed

lemma inside_closes:
  "scan_step sc c = (code, sc1) \<Longrightarrow> code = ScanEndObject \<or> code = ScanEndArray \<Longrightarrow>
     sc_step sc1 = (if sc_parse sc1 = [] then EndTop else EndValue)"
proof -
  assume st: "scan_step sc c = (code, sc1)" and code: "code = ScanEndObject \<or> code = ScanEndArray"
  have "\<exists>s. stateEndValue s c = (code, sc1)"
    using st code
    by (cases "sc_step sc")
       (auto simp: scan_step_def stateBeginValue_def stateBeginString_def state0_def stateESign_def
          stateEndTop_def goto_def scan_error_def pushParseState_def Let_def split: if_splits list.splits)
  then obtain s where "stateEndValue s c = (code, sc1)" by blast
  with code show ?thesis
    by (auto simp: stateEndValue_def stateEndTop_def goto_def scan_error_def popParseState_def Let_def
        split: if_splits list.splits parse_state.splits)
qed

lemma closed_space:
  "sc_step sc = (if sc_parse sc = [] then EndTop else EndValue) \<Longrightarrow>
     stateEndValue sc CHR '' '' = (code, sc2) \<Longrightarrow> code \<noteq> ScanEnd \<Longrightarrow> inside sc2"
  by (auto simp: inside_def stateEndValue_def stateEndTop_def goto_def isSpace_def split: list.splits if_splits)

lemma inside_cases:
  assumes "inside sc"
  obtains (err) sc1 where "scan_step sc c = (ScanError, sc1)"
    | (more) sc1 where "inside sc1" "\<And>n cs. read_loop sc n (c # cs) = read_loop sc1 (Suc n) cs"
    | (stop) "\<And>n cs. read_loop sc n (c # cs) = Inr (Suc n)"
proof -
  obtain code sc1 where st: "scan_step sc c = (code, sc1)" by fastforce
  have ne: "code \<noteq> ScanEnd" by (rule inside_not_end [OF assms st])
  show thesis
  proof (cases "code = ScanEndObject \<or> code = ScanEndArray")
    case True
    obtain code2 sc2 where e: "stateEndValue sc1 CHR '' '' = (code2, sc2)" by fastforce
    show thesis
    proof (cases "code2 = ScanEnd")
      case True
      then show thesis using stop st e \<open>code = _ \<or> _\<close> by auto
    next
      case False
      from closed_space [OF inside_closes [OF st \<open>code = _ \<or> _\<close>] e False]
      show thesis using more [of sc2] st e False \<open>code = _ \<or> _\<close> by auto
    qed
  next
    case False
    show thesis
    proof (cases "code = ScanError")
      case True
      then show thesis using err st by auto
    next
      case nerr: False
      with inside_stays [OF assms st] False have "inside sc1" by simp
      then show thesis using more [of sc1] st ne nerr False by auto
    qed
  qed
qed

lemma inside_at_end: "inside sc \<Longrightarrow> read_loop sc n [] = Inl JEOF"
  using inside_not_end [of sc "CHR '' ''"] by (cases "scan_step sc CHR '' ''") auto

lemma read_loop_append:
  "inside sc \<Longrightarrow> read_loop sc n s = Inr m \<Longrightarrow> read_loop sc n (s @ t) = Inr m \<and> n < m \<and> m \<le> n + length s"
proof (induction s arbitrary: sc n)
  case (Cons c cs)
  from Cons.prems(1) show ?case
  proof (cases rule: inside_cases [where c = c])
    case (more sc1)
    with Cons.IH [of sc1 "Suc n"] Cons.prems(2) show ?thesis by simp
  qed (use Cons.prems(2) in auto)
qed (simp add: inside_at_end del: read_loop.simps)

lemma read_loop_prefix:
  "inside sc \<Longrightarrow> read_loop sc n (s @ q) = Inr (n + length (s @ q)) \<Longrightarrow> q \<noteq> [] \<Longrightarrow> read_loop sc n s = Inl JEOF"
proof (induction s arbitrary: sc n)
  case (Cons c cs)
  from Cons.prems(1) show ?case
  proof (cases rule: inside_cases [where c = c])
    case (more sc1)
    with Cons.IH [of sc1 "Suc n"] Cons.prems(2,3) show ?thesis by simp
  qed (use Cons.prems(2,3) in auto)
qed (simp add: inside_at_end del: read_loop.simps)

text \<open>A single object without space around it, and what a decoder makes of it and of its prefixes.\<close>

definition json_object :: "bytes \<Rightarrow> bool" where
  "json_object r = (r \<noteq> [] \<and> hd r = CHR ''{'' \<and> read_loop scan_reset 0 r = Inr (length r))"

lemma open_brace:
  "scan_step scan_reset CHR ''{'' =
     (ScanBeginObject, \<lparr>sc_step = BeginStringOrEmpty, sc_parse = [ParseObjectKey], sc_err = False, sc_endTop = False\<rparr>)"
  by (simp add: scanner_defs)

lemma read_open_brace:
  "read_loop scan_reset 0 (CHR ''{'' # cs) =
     read_loop \<lparr>sc_step = BeginStringOrEmpty, sc_parse = [ParseObjectKey], sc_err = False, sc_endTop = False\<rparr> 1 cs"
  by (simp add: open_brace)

lemma inside_open_brace:
  "inside \<lparr>sc_step = BeginStringOrEmpty, sc_parse = [ParseObjectKey], sc_err = False, sc_endTop = False\<rparr>"
  by (simp add: inside_def)

lemma json_object_read:
  assumes "json_object r"
  shows "readValue (r @ t) = Inr (length r)"
proof -
  obtain cs where r: "r = CHR ''{'' # cs" using assms by (cases r) (auto simp: json_object_def)
  have "read_loop scan_reset 0 r = Inr (length r)" using assms by (simp add: json_object_def)
  then have "read_loop scan_reset 0 (r @ t) = Inr (length r)"
    unfolding r append_Cons read_open_brace
    using read_loop_append [OF inside_open_brace] by blast
  then show ?thesis by (simp add: readValue_def)
qed

lemma json_object_cut:
  assumes "json_object (p @ q)" and "p \<noteq> []" and "q \<noteq> []"
  shows "readValue p = Inl JUnexpectedEOF"
proof -
  obtain cs where p: "p = CHR ''{'' # cs" using assms by (cases p) (auto simp: json_object_def)
  have "read_loop scan_reset 0 (p @ q) = Inr (length (p @ q))" using assms by (simp add: json_object_def)
  then have "read_loop scan_reset 0 p = Inl JEOF"
    unfolding p append_Cons read_open_brace
    using read_loop_prefix [OF inside_open_brace _ assms(3), of 1 cs] by simp
  then show ?thesis by (simp add: readValue_def p isSpace_def)
qed


section \<open>Progress of the decoder\<close>

lemma read_loop_ge: "read_loop sc n s = Inr m \<Longrightarrow> n \<le> m"
proof (induction s arbitrary: sc n)
  case (Cons c cs)
  obtain code sc1 where st: "scan_step sc c = (code, sc1)" by fastforce
  obtain code2 sc2 where e: "stateEndValue sc1 CHR '' '' = (code2, sc2)" by fastforce
  from Cons.prems Cons.IH [of sc1 "Suc n"] Cons.IH [of sc2 "Suc n"] st e show ?case
    by (auto split: if_splits)
qed (auto split: if_splits)

lemma begin_value_code:
  "sc_step sc = BeginValue \<Longrightarrow> fst (scan_step sc c) \<notin> {ScanEnd, ScanEndObject, ScanEndArray}"
  by (simp add: scan_step_def stateBeginValue_def pushParseState_def goto_def scan_error_def Let_def)

lemma readValue_pos: "readValue s = Inr n \<Longrightarrow> 0 < n \<and> s \<noteq> []"
proof -
  assume "readValue s = Inr n"
  then have r: "read_loop scan_reset 0 s = Inr n"
    by (auto simp: readValue_def split: sum.splits json_err.splits)
  have b: "fst (scan_step scan_reset c) \<notin> {ScanEnd, ScanEndObject, ScanEndArray}" for c
    by (rule begin_value_code) (simp add: scan_reset_def)
  show ?thesis
  proof (cases s)
    case Nil
    with r b [of "CHR '' ''"] show ?thesis by auto
  next
    case (Cons c cs)
    obtain code sc1 where st: "scan_step scan_reset c = (code, sc1)" by fastforce
    from r b [of c] st Cons have "read_loop sc1 1 cs = Inr n" by (auto split: if_splits)
    from read_loop_ge [OF this] Cons show ?thesis by simp
  qed
qed

lemma peek_le: "peek d = (r, d1) \<Longrightarrow> length (dc_rest d1) \<le> length (dc_rest d)"
  by (cases r) (auto simp: peek_def Let_def dec_skip_def split: list.splits
      dest!: arg_cong [where f = length])

lemma tokenValueEnd_rest [simp]: "dc_rest (tokenValueEnd d) = dc_rest d" "dc_off (tokenValueEnd d) = dc_off d"
  "dc_err (tokenValueEnd d) = dc_err d" "dc_stack (tokenValueEnd d) = dc_stack d"
  by (simp_all add: tokenValueEnd_def split: token_state.splits)

lemma prepare_le: "tokenPrepareForDecode d = (r, d1) \<Longrightarrow> length (dc_rest d1) \<le> length (dc_rest d)"
  by (auto simp: tokenPrepareForDecode_def dec_skip_def split: if_splits prod.splits option.splits dest!: peek_le)

lemma Decode_le: "Decode d = (r, d1) \<Longrightarrow> length (dc_rest d1) \<le> length (dc_rest d)"
  by (auto simp: Decode_def dec_skip_def split: if_splits prod.splits option.splits sum.splits dest!: prepare_le)

lemma Decode_less: "Decode d = (Inr raw, d1) \<Longrightarrow> length (dc_rest d1) < length (dc_rest d)"
  by (auto simp: Decode_def dec_skip_def split: if_splits prod.splits option.splits sum.splits
      dest!: prepare_le readValue_pos) (metis diff_less leD leI length_greater_0_conv less_le_trans not_less_iff_gr_or_eq)

lemma Token_le: "Token d = (r, d1) \<Longrightarrow> length (dc_rest d1) \<le> length (dc_rest d)"
proof (induction d rule: Token.induct)
  case (1 d)
  obtain c d2 where p: "peek d = (c, d2)" by fastforce
  note le = peek_le [OF p]
  show ?case
  proof (cases c)
    case None
    with 1(4) p le show ?thesis by (simp add: Token.simps [of d])
  next
    case (Some k)
    with 1(4) p le show ?thesis
      using 1(1-3) [OF p [symmetric] Some]
      by (auto simp: Token.simps [of d] open_bracket_def close_bracket_def dec_skip_def
          split: if_splits prod.splits sum.splits dest!: Decode_le dest: le_trans)
  qed
qed

lemma More_le: "More d = (b, d1) \<Longrightarrow> length (dc_rest d1) \<le> length (dc_rest d)"
  by (auto simp: More_def split: prod.splits option.splits dest!: peek_le)

end
