(* ===== verification/BlobTail.thy ===== *)
theory BlobTail
  imports JsonScan
begin

text \<open>
  What receivers that consume whole blobs and blobs that grow share
  (\<open>internal/blobconsume\<close>): the name and time watermark (\<open>checkpoint.go\<close>), the fingerprint that
  identifies a growing blob (\<open>fingerprint.go\<close>), and the cutting of the bytes behind an offset into
  complete lines or records (\<open>incremental.go\<close>).
\<close>

abbreviation (input) LF :: char where "LF \<equiv> CHR 0x0A"

section \<open>The watermark\<close>

record CheckPoint =
  ck_LastTs :: gotime
  ck_ParsedEntities :: "string set"

definition NewCheckpoint :: CheckPoint where
  "NewCheckpoint = \<lparr>ck_LastTs = zero_time, ck_ParsedEntities = {}\<rparr>"

definition ShouldParse :: "CheckPoint \<Rightarrow> gotime \<Rightarrow> string \<Rightarrow> bool" where
  "ShouldParse c entityTime entityName =
     (if entityTime < ck_LastTs c then False else entityName \<notin> ck_ParsedEntities c)"

definition UpdateCheckpoint :: "gotime \<Rightarrow> string \<Rightarrow> CheckPoint \<Rightarrow> CheckPoint" where
  "UpdateCheckpoint newTs lastEntityName c =
     (let c1 = (if newTs > ck_LastTs c then c\<lparr>ck_LastTs := newTs, ck_ParsedEntities := {}\<rparr> else c)
      in c1\<lparr>ck_ParsedEntities := insert lastEntityName (ck_ParsedEntities c1)\<rparr>)"

definition IsInTimeRange :: "gotime \<Rightarrow> gotime \<Rightarrow> gotime \<Rightarrow> bool" where
  "IsInTimeRange entityTime startingTime endingTime =
     ((entityTime = startingTime \<or> entityTime > startingTime) \<and> (entityTime = endingTime \<or> entityTime < endingTime))"

section \<open>The identity of a growing blob\<close>

definition DefaultFingerprintSize :: int where
  "DefaultFingerprintSize = 512"

definition Fingerprint :: "bytes \<Rightarrow> int \<Rightarrow> bytes" where
  "Fingerprint dat n =
     (let n1 = (if n \<le> 0 then DefaultFingerprintSize else n)
      in if int (length dat) > n1 then take (nat n1) dat else dat)"

fun HasPrefix :: "bytes \<Rightarrow> bytes \<Rightarrow> bool" where
  "HasPrefix s [] = True"
| "HasPrefix [] (p # ps) = False"
| "HasPrefix (c # s) (p # ps) = (c = p \<and> HasPrefix s ps)"

definition SameBlob :: "bytes \<Rightarrow> bytes \<Rightarrow> bool" where
  "SameBlob stored current =
     (if length stored = 0 \<or> length current = 0 then False
      else if length stored > length current then False
      else HasPrefix current stored)"

section \<open>Complete lines\<close>

definition LastIndexByte :: "bytes \<Rightarrow> char \<Rightarrow> int" where
  "LastIndexByte s c = int (length s) - 1 - int (length (takeWhile (\<lambda>x. x \<noteq> c) (rev s)))"

definition SplitLineDelta :: "bytes \<Rightarrow> bytes \<times> nat" where
  "SplitLineDelta delta =
     (let idx = LastIndexByte delta LF
      in if idx < 0 then ([], 0) else (take (nat idx + 1) delta, nat idx + 1))"

section \<open>Complete records of a JSON document\<close>

definition isTerminalJSONErr :: "json_err \<Rightarrow> bool" where
  "isTerminalJSONErr e = (e \<noteq> JEOF \<and> e \<noteq> JUnexpectedEOF)"

definition is_object_raw :: "bytes \<Rightarrow> bool" where
  "is_object_raw raw = (length raw > 0 \<and> raw ! 0 = CHR ''{'')"

text \<open>The members of the envelope up to the array of \<open>records\<close>; the result is what follows its \<open>[\<close>.\<close>

function envelope_body :: "bytes \<Rightarrow> decoder \<Rightarrow> bytes option" where
  "envelope_body delta d =
     (case More d of
        (False, d1) \<Rightarrow> None
      | (True, d1) \<Rightarrow>
          (case Token d1 of
             (Inl e, d2) \<Rightarrow> None
           | (Inr key, d2) \<Rightarrow>
               if key = TString ''records'' then
                 (case Token d2 of
                    (Inr t, d3) \<Rightarrow> if t = TDelim CHR ''['' then Some (drop (dc_off d3) delta) else None
                  | (Inl e, d3) \<Rightarrow> None)
               else (case Decode d2 of
                       (Inl e, d3) \<Rightarrow> None
                     | (Inr raw, d3) \<Rightarrow> envelope_body delta d3)))"
  by auto
termination
  by (relation "measure (\<lambda>(s, d). length (dc_rest d))")
     (auto dest!: sym [of _ "More _"] sym [of _ "Token _"] sym [of _ "Decode _"] More_le Token_le Decode_less)

declare envelope_body.simps [simp del]

definition recordsArrayBody :: "bytes \<Rightarrow> bytes option" where
  "recordsArrayBody delta =
     (case Token (NewDecoder delta) of
        (Inr t, d1) \<Rightarrow> if t = TDelim CHR ''{'' then envelope_body delta d1 else None
      | (Inl e, d1) \<Rightarrow> None)"

text \<open>The elements of the array and the offset behind the last one.\<close>

function array_elems :: "decoder \<Rightarrow> nat \<Rightarrow> bytes list \<times> nat" where
  "array_elems d lastEnd =
     (case More d of
        (False, d1) \<Rightarrow> ([], lastEnd)
      | (True, d1) \<Rightarrow>
          (case Decode d1 of
             (Inl e, d2) \<Rightarrow> ([], lastEnd)
           | (Inr raw, d2) \<Rightarrow>
               if \<not> is_object_raw raw then ([], lastEnd)
               else (case array_elems d2 (dc_off d2 - 1) of (elems, l) \<Rightarrow> (raw # elems, l))))"
  by auto
termination
  by (relation "measure (\<lambda>(d, l). length (dc_rest d))")
     (auto dest!: sym [of _ "More _"] sym [of _ "Decode _"] More_le Decode_less)

declare array_elems.simps [simp del]

fun join_records :: "bytes list \<Rightarrow> bytes" where
  "join_records [] = []"
| "join_records [e] = e"
| "join_records (e # es) = e @ CHR '','' # join_records es"

definition reframe :: "bytes list \<Rightarrow> bytes" where
  "reframe elems = CHR ''{'' # CHR 0x22 # ''records'' @ CHR 0x22 # '':['' @ join_records elems @ '']}''"

text \<open>The continuation of an array, behind space and one comma.\<close>

definition trim_comma :: "bytes \<Rightarrow> bytes" where
  "trim_comma delta =
     (case dropWhile isSpace delta of
        [] \<Rightarrow> []
      | c # cs \<Rightarrow> if c = CHR '','' then cs else c # cs)"

definition SplitRecordsJSONDelta :: "bytes \<Rightarrow> bool \<Rightarrow> bytes option \<times> nat" where
  "SplitRecordsJSONDelta delta atStart =
     (case (if atStart then recordsArrayBody delta else Some (trim_comma delta)) of
        None \<Rightarrow> (None, 0)
      | Some body \<Rightarrow>
          (let bodyStart = length delta - length body;
               dec = snd (Token (NewDecoder (CHR ''['' # body)))
           in case array_elems dec 0 of
                (elems, lastEnd) \<Rightarrow>
                  if elems = [] then (None, 0) else (Some (reframe elems), bodyStart + lastEnd)))"

text \<open>Whether the envelope can never become a document with records.\<close>

function envelope_stuck :: "decoder \<Rightarrow> bool" where
  "envelope_stuck d =
     (case More d of
        (False, d1) \<Rightarrow>
          (case Token d1 of
             (Inl e, d2) \<Rightarrow> isTerminalJSONErr e
           | (Inr t, d2) \<Rightarrow> t = TDelim CHR ''}'')
      | (True, d1) \<Rightarrow>
          (case Token d1 of
             (Inl e, d2) \<Rightarrow> isTerminalJSONErr e
           | (Inr key, d2) \<Rightarrow>
               if key = TString ''records'' then
                 (case Token d2 of
                    (Inl e, d3) \<Rightarrow> isTerminalJSONErr e
                  | (Inr t, d3) \<Rightarrow> t \<noteq> TDelim CHR ''['')
               else (case Decode d2 of
                       (Inl e, d3) \<Rightarrow> isTerminalJSONErr e
                     | (Inr raw, d3) \<Rightarrow> envelope_stuck d3)))"
  by auto
termination
  by (relation "measure (\<lambda>d. length (dc_rest d))")
     (auto dest!: sym [of _ "More _"] sym [of _ "Token _"] sym [of _ "Decode _"] More_le Token_le Decode_less)

declare envelope_stuck.simps [simp del]


definition IsUnparseableRecordsJSONEnvelope :: "bytes \<Rightarrow> bool" where
  "IsUnparseableRecordsJSONEnvelope delta =
     (case Token (NewDecoder delta) of
        (Inl e, d) \<Rightarrow> isTerminalJSONErr e
      | (Inr t, d) \<Rightarrow> if t \<noteq> TDelim CHR ''{'' then True else envelope_stuck d)"

definition nextRecordsElementStuck :: "bytes \<Rightarrow> bool" where
  "nextRecordsElementStuck body =
     (case dropWhile isSpace body of
        [] \<Rightarrow> False
      | c # cs \<Rightarrow>
          if c = CHR '']'' then False
          else if c = CHR ''{'' then
            (case Decode (NewDecoder (c # cs)) of
               (Inl e, d) \<Rightarrow> isTerminalJSONErr e
             | (Inr raw, d) \<Rightarrow> False)
          else True)"

definition RecordsJSONDeltaStuck :: "bytes \<Rightarrow> bool \<Rightarrow> bool" where
  "RecordsJSONDeltaStuck delta atStart =
     (if atStart then
        (if IsUnparseableRecordsJSONEnvelope delta then True
         else (case recordsArrayBody delta of
                 None \<Rightarrow> False
               | Some body \<Rightarrow> nextRecordsElementStuck body))
      else nextRecordsElementStuck (trim_comma delta))"

section \<open>Space and whole documents\<close>

definition unicode_IsSpace :: "nat \<Rightarrow> bool" where
  "unicode_IsSpace r =
     (9 \<le> r \<and> r \<le> 13 \<or> r = 32 \<or> r = 133 \<or> r = 160 \<or> r = 5760 \<or> 8192 \<le> r \<and> r \<le> 8202
      \<or> r = 8232 \<or> r = 8233 \<or> r = 8239 \<or> r = 8287 \<or> r = 12288)"

function trim_left :: "bytes \<Rightarrow> bytes" where
  "trim_left s =
     (if s = [] then []
      else if unicode_IsSpace (fst (DecodeRune s)) then trim_left (drop (snd (DecodeRune s)) s) else s)"
  by auto
termination
  by (relation "measure length") (simp_all add: DecodeRune_size)

declare trim_left.simps [simp del]

text \<open>The rune a text ends with is a space that takes the last \<open>k\<close> bytes.\<close>

definition ends_in_space :: "bytes \<Rightarrow> nat \<Rightarrow> bool" where
  "ends_in_space s k =
     (k \<le> length s \<and> snd (DecodeRune (drop (length s - k) s)) = k
        \<and> unicode_IsSpace (fst (DecodeRune (drop (length s - k) s))))"

fun trim_right :: "nat \<Rightarrow> bytes \<Rightarrow> bytes" where
  "trim_right 0 s = s"
| "trim_right (Suc n) s =
     (if ends_in_space s 1 then trim_right n (take (length s - 1) s)
      else if ends_in_space s 2 then trim_right n (take (length s - 2) s)
      else if ends_in_space s 3 then trim_right n (take (length s - 3) s)
      else s)"

definition bytes_TrimSpace :: "bytes \<Rightarrow> bytes" where
  "bytes_TrimSpace s = (let l = trim_left s in trim_right (length l) l)"

definition IsJSONObject :: "bytes \<Rightarrow> bool" where
  "IsJSONObject b = (let trimmed = bytes_TrimSpace b in is_object_raw trimmed \<and> json_Valid trimmed)"

text \<open>The members of an object, the elements of an array, both of a valid text.\<close>

function obj_members :: "decoder \<Rightarrow> (bytes \<times> bytes) list" where
  "obj_members d =
     (case More d of
        (False, d1) \<Rightarrow> []
      | (True, d1) \<Rightarrow>
          (case Token d1 of
             (Inr (TString key), d2) \<Rightarrow>
               (case Decode d2 of
                  (Inr raw, d3) \<Rightarrow> (key, raw) # obj_members d3
                | (Inl e, d3) \<Rightarrow> [])
           | _ \<Rightarrow> []))"
  by auto
termination
  by (relation "measure (\<lambda>d. length (dc_rest d))")
     (auto dest!: sym [of _ "More _"] sym [of _ "Token _"] sym [of _ "Decode _"] More_le Token_le Decode_less)

declare obj_members.simps [simp del]

function arr_members :: "decoder \<Rightarrow> bytes list" where
  "arr_members d =
     (case More d of
        (False, d1) \<Rightarrow> []
      | (True, d1) \<Rightarrow>
          (case Decode d1 of
             (Inr raw, d2) \<Rightarrow> raw # arr_members d2
           | (Inl e, d2) \<Rightarrow> []))"
  by auto
termination
  by (relation "measure (\<lambda>d. length (dc_rest d))")
     (auto dest!: sym [of _ "More _"] sym [of _ "Decode _"] More_le Decode_less)

declare arr_members.simps [simp del]

definition members_of :: "bytes \<Rightarrow> (bytes \<times> bytes) list" where
  "members_of raw = obj_members (snd (Token (NewDecoder raw)))"

definition elements_of :: "bytes \<Rightarrow> bytes list" where
  "elements_of raw = arr_members (snd (Token (NewDecoder raw)))"

text \<open>
  Whether the number \<open>m * 10 ^ k\<close> rounds to a finite \<open>float64\<close>, for the literals outside strings.
\<close>

definition int_value :: "bytes \<Rightarrow> int" where
  "int_value s = foldl (\<lambda>a c. 10 * a + int (undigit c)) 0 s"

definition float_fits :: "bytes \<Rightarrow> bool" where
  "float_fits lit =
     (let body = (if lit \<noteq> [] \<and> hd lit = CHR ''-'' then tl lit else lit);
          mant = takeWhile (\<lambda>c. c \<noteq> CHR ''e'' \<and> c \<noteq> CHR ''E'') body;
          e = drop (Suc (length mant)) body;
          ex = (if e \<noteq> [] \<and> hd e = CHR ''-'' then - int_value (tl e)
                else if e \<noteq> [] \<and> hd e = CHR ''+'' then int_value (tl e) else int_value e);
          ip = takeWhile (\<lambda>c. c \<noteq> CHR ''.'') mant;
          fp = drop (Suc (length ip)) mant;
          m = int_value (ip @ fp);
          k = ex - int (length fp);
          bound = 2 ^ 1024 - 2 ^ 970
      in m = 0 \<or> (if k \<ge> 0 then m * 10 ^ nat k < bound else m < bound * 10 ^ nat (- k)))"

definition number_char :: "char \<Rightarrow> bool" where
  "number_char c = (isDigit c \<or> c \<in> set ''+-.eE'')"

text \<open>The flags: inside a string, behind a backslash; \<open>lit\<close> is the literal being read.\<close>

fun numbers_fit :: "bool \<Rightarrow> bool \<Rightarrow> bytes \<Rightarrow> bytes \<Rightarrow> bool" where
  "numbers_fit str esc lit [] = (lit = [] \<or> float_fits lit)"
| "numbers_fit str esc lit (c # cs) =
     (if str then numbers_fit (esc \<or> c \<noteq> CHR 0x22) (\<not> esc \<and> c = CHR 0x5C) [] cs
      else if lit \<noteq> [] \<and> number_char c then numbers_fit False False (lit @ [c]) cs
      else if lit \<noteq> [] \<and> \<not> float_fits lit then False
      else if c = CHR ''-'' \<or> isDigit c then numbers_fit False False [c] cs
      else numbers_fit (c = CHR 0x22) False [] cs)"

text \<open>A field name is matched without regard to case; U+017F folds to \<open>s\<close>.\<close>

fun fold_name :: "bytes \<Rightarrow> bytes" where
  "fold_name [] = []"
| "fold_name [c] = [if 65 \<le> (of_char c :: nat) \<and> (of_char c :: nat) \<le> 90 then char_of ((of_char c :: nat) + 32) else c]"
| "fold_name (c # c' # cs) =
     (if c = CHR 0xC5 \<and> c' = CHR 0xBF then CHR ''s'' # fold_name cs
      else (if 65 \<le> (of_char c :: nat) \<and> (of_char c :: nat) \<le> 90 then char_of ((of_char c :: nat) + 32) else c)
             # fold_name (c' # cs))"

definition ValidRecordsJSONDoc :: "bytes \<Rightarrow> bool" where
  "ValidRecordsJSONDoc b =
     (json_Valid b
      \<and> (case Decode (NewDecoder b) of
           (Inl e, d) \<Rightarrow> False
         | (Inr doc, d) \<Rightarrow>
             doc = ''null''
             \<or> is_object_raw doc
               \<and> (\<forall>(key, v)\<in>set (members_of doc).
                    fold_name key = ''records'' \<longrightarrow>
                      v = ''null''
                      \<or> hd v = CHR ''[''
                        \<and> (\<forall>el\<in>set (elements_of v).
                              el = ''null'' \<or> is_object_raw el \<and> numbers_fit False False [] el))))"

end
