(* ===== verification/AzurePoll.thy ===== *)
theory AzurePoll
  imports BlobTail
begin

text \<open>
  The Azure blob polling receiver (\<open>receiver/azureblobpollingreceiver/receiver.go\<close> and
  \<open>checkpoint.go\<close>, with the error predicates of \<open>internal/azureblob\<close>): blobs that other programs
  append to are read incrementally, from a stored offset whose blob is identified by a
  fingerprint of its leading bytes; a blob that no longer changes is finished and, if so
  configured, deleted.

  The Azure service, the gzip decoder and the consumer (the payload conversion behind
  \<open>blobconsume.Consumer\<close> and the pipeline) are the fields of \<open>azure_outside\<close>, over the state \<open>'w\<close> of the
  world. Every blob has a goroutine of its own that touches only its entry of the progress map,
  under the mutex, so a blob's operation is one step. A service error carries its code; wrapped
  errors are searched through, as \<open>bloberror.HasCode\<close> and \<open>errors.Is\<close> do. Logging is left out.
\<close>

section \<open>Errors\<close>

datatype az_err =
    ResponseError string
  | Canceled
  | ErrDownstream az_err
  | ErrSealedBlobUnparseable
  | ErrMessage string
  | ErrBlobDownloadTransient az_err
  | ErrWrap string az_err

fun err_code :: "az_err \<Rightarrow> string option" where
  "err_code (ResponseError c) = Some c"
| "err_code (ErrWrap m e) = err_code e"
| "err_code (ErrBlobDownloadTransient e) = err_code e"
| "err_code (ErrDownstream e) = err_code e"
| "err_code _ = None"

definition HasCode :: "az_err \<Rightarrow> string list \<Rightarrow> bool" where
  "HasCode e codes = (case err_code e of None \<Rightarrow> False | Some c \<Rightarrow> c \<in> set codes)"

fun is_canceled :: "az_err \<Rightarrow> bool" where
  "is_canceled Canceled = True"
| "is_canceled (ErrWrap m e) = is_canceled e"
| "is_canceled (ErrBlobDownloadTransient e) = is_canceled e"
| "is_canceled (ErrDownstream e) = is_canceled e"
| "is_canceled _ = False"

fun is_retryable :: "az_err \<Rightarrow> bool" where
  "is_retryable (ErrBlobDownloadTransient e) = True"
| "is_retryable (ErrDownstream e) = True"
| "is_retryable (ErrWrap m e) = is_retryable e"
| "is_retryable _ = False"

fun err_message :: "az_err \<Rightarrow> string" where
  "err_message (ResponseError c) = c"
| "err_message Canceled = ''context canceled''"
| "err_message (ErrDownstream e) = ''downstream consumer failed: '' @ err_message e"
| "err_message ErrSealedBlobUnparseable = ''sealed blob content did not parse''"
| "err_message (ErrMessage m) = m"
| "err_message (ErrBlobDownloadTransient e) = ''blob download failed: '' @ err_message e"
| "err_message (ErrWrap m e) = m @ '': '' @ err_message e"

definition IsRangeNotSatisfiable :: "az_err \<Rightarrow> bool" where
  "IsRangeNotSatisfiable e = HasCode e [''InvalidRange'']"

definition IsBlobNotFound :: "az_err \<Rightarrow> bool" where
  "IsBlobNotFound e = HasCode e [''BlobNotFound'', ''ResourceNotFound'']"

definition IsPermanentError :: "az_err \<Rightarrow> bool" where
  "IsPermanentError e = HasCode e
     [''AuthenticationFailed'', ''AuthorizationFailure'', ''AuthorizationPermissionMismatch'',
      ''AuthorizationProtocolMismatch'', ''AuthorizationResourceTypeMismatch'',
      ''AuthorizationServiceMismatch'', ''AuthorizationSourceIPMismatch'',
      ''InsufficientAccountPermissions'', ''InvalidAuthenticationInfo'', ''AccountIsDisabled'',
      ''ContainerNotFound'', ''InvalidResourceName'']"

section \<open>State and configuration\<close>

record BlobProgress =
  bp_Offset :: int
  bp_Fingerprint :: bytes
  bp_LastModified :: gotime
  bp_Quarantined :: bool
  bp_FinalizeFailures :: int
  bp_Sealed :: bool
  bp_LastReadError :: string

definition no_progress :: BlobProgress where
  "no_progress = \<lparr>bp_Offset = 0, bp_Fingerprint = [], bp_LastModified = zero_time, bp_Quarantined = False,
     bp_FinalizeFailures = 0, bp_Sealed = False, bp_LastReadError = []\<rparr>"

record PollingCheckPoint = CheckPoint +
  pk_LastPollTime :: gotime
  pk_Progress :: "string \<rightharpoonup> BlobProgress"

datatype BlobFormat = BlobFormatOTLP | BlobFormatJSON | BlobFormatText | BlobFormatRecordsJSON

record azure_config =
  azc_BlobFormat :: BlobFormat
  azc_EnableIncrementalRead :: bool
  azc_EnablePerLineText :: bool
  azc_FingerprintSize :: int
  azc_AssumeAppendOnly :: bool
  azc_DeleteOnRead :: bool
  azc_UseLastModified :: bool
  azc_InitialLookback :: duration
  azc_RevisitWindow :: duration

record BlobInfo =
  bi_Name :: string
  bi_Size :: int
  bi_LastModified :: gotime

text \<open>
  The outside: a range of a blob with the blob's size, a download of the listed size, a deletion,
  gzip, a consumer that reports how many records it emitted, and the store of checkpoints.
\<close>

record 'w azure_outside =
  azo_range :: "string \<Rightarrow> int \<Rightarrow> int \<Rightarrow> 'w \<Rightarrow> (az_err + bytes \<times> int) \<times> 'w"
  azo_download :: "string \<Rightarrow> int \<Rightarrow> 'w \<Rightarrow> (az_err + bytes) \<times> 'w"
  azo_delete :: "string \<Rightarrow> 'w \<Rightarrow> az_err option \<times> 'w"
  azo_gunzip :: "bytes \<Rightarrow> az_err + bytes"
  azo_consume :: "bytes \<Rightarrow> 'w \<Rightarrow> (az_err + int) \<times> 'w"
  azo_save :: "PollingCheckPoint \<Rightarrow> 'w \<Rightarrow> az_err option \<times> 'w"

section \<open>The checkpoint\<close>

definition NewPollingCheckpoint :: PollingCheckPoint where
  "NewPollingCheckpoint = \<lparr>ck_LastTs = zero_time, ck_ParsedEntities = {}, pk_LastPollTime = zero_time, pk_Progress = Map.empty\<rparr>"

definition UpdatePollTime :: "gotime \<Rightarrow> PollingCheckPoint \<Rightarrow> PollingCheckPoint" where
  "UpdatePollTime pollTime c = c\<lparr>pk_LastPollTime := pollTime\<rparr>"

definition ProgressFor :: "PollingCheckPoint \<Rightarrow> string \<Rightarrow> BlobProgress option" where
  "ProgressFor c blobName = pk_Progress c blobName"

definition UpdateProgress :: "string \<Rightarrow> BlobProgress \<Rightarrow> PollingCheckPoint \<Rightarrow> PollingCheckPoint" where
  "UpdateProgress blobName p c = c\<lparr>pk_Progress := (pk_Progress c)(blobName \<mapsto> p)\<rparr>"

text \<open>The entry of a name, or the zero value when there is none.\<close>

definition progress_or_zero :: "PollingCheckPoint \<Rightarrow> string \<Rightarrow> BlobProgress" where
  "progress_or_zero c name = (case ProgressFor c name of None \<Rightarrow> no_progress | Some p \<Rightarrow> p)"

definition quarantineRetention :: duration where
  "quarantineRetention = 7 * 24 * 3600 * 10 ^ 9"

definition sealSkewTolerance :: duration where
  "sealSkewTolerance = 5 * 60 * 10 ^ 9"

definition maxFinalizeFailures :: int where
  "maxFinalizeFailures = 5"

datatype age_verdict = Stays | Pruned | GivenUp | AgedOut

text \<open>What \<open>AgedOutProgress\<close> does with an entry; the entries do not depend on each other.\<close>

definition age_verdict_of :: "gotime \<Rightarrow> gotime \<Rightarrow> gotime \<Rightarrow> BlobProgress \<Rightarrow> age_verdict" where
  "age_verdict_of cutoff quarantinePruneCutoff sealedPruneCutoff p =
     (if bp_Quarantined p then (if bp_LastModified p < quarantinePruneCutoff then Pruned else Stays)
      else if bp_Sealed p then (if bp_LastModified p < sealedPruneCutoff then Pruned else Stays)
      else if bp_LastModified p = zero_time then Stays
      else if bp_LastModified p < cutoff then
        (if bp_FinalizeFailures p > 0 \<and> bp_LastModified p < cutoff - quarantineRetention then GivenUp else AgedOut)
      else Stays)"

definition entries_with :: "(BlobProgress \<Rightarrow> age_verdict) \<Rightarrow> age_verdict \<Rightarrow> (string \<rightharpoonup> BlobProgress) \<Rightarrow> (string \<rightharpoonup> BlobProgress)" where
  "entries_with f v m = (\<lambda>name. case m name of None \<Rightarrow> None | Some p \<Rightarrow> if f p = v then Some p else None)"

definition AgedOutProgress ::
    "gotime \<Rightarrow> gotime \<Rightarrow> gotime \<Rightarrow> PollingCheckPoint
      \<Rightarrow> (string \<rightharpoonup> BlobProgress) \<times> (string \<rightharpoonup> BlobProgress) \<times> PollingCheckPoint" where
  "AgedOutProgress cutoff quarantinePruneCutoff sealedPruneCutoff c =
     (let f = age_verdict_of cutoff quarantinePruneCutoff sealedPruneCutoff; m = pk_Progress c
      in (entries_with f AgedOut m, entries_with f GivenUp m, c\<lparr>pk_Progress := entries_with f Stays m\<rparr>))"


section \<open>Names and modes\<close>

definition ToLower :: "string \<Rightarrow> string" where
  "ToLower s = map (\<lambda>c. if 65 \<le> (of_char c :: nat) \<and> (of_char c :: nat) \<le> 90 then char_of ((of_char c :: nat) + 32) else c) s"

text \<open>\<open>filepath.Ext\<close>.\<close>

definition Ext :: "string \<Rightarrow> string" where
  "Ext path =
     (let base = takeWhile (\<lambda>c. c \<noteq> CHR ''/'') (rev path)
      in if CHR ''.'' \<in> set base then CHR ''.'' # rev (takeWhile (\<lambda>c. c \<noteq> CHR ''.'') base) else [])"

definition isIncrementalFormat :: "azure_config \<Rightarrow> bool" where
  "isIncrementalFormat cfg =
     (if \<not> azc_EnableIncrementalRead cfg then False
      else (case azc_BlobFormat cfg of
              BlobFormatRecordsJSON \<Rightarrow> True
            | BlobFormatJSON \<Rightarrow> True
            | BlobFormatText \<Rightarrow> azc_EnablePerLineText cfg
            | BlobFormatOTLP \<Rightarrow> False))"

definition useIncremental :: "azure_config \<Rightarrow> string \<Rightarrow> bool" where
  "useIncremental cfg blobName = (isIncrementalFormat cfg \<and> ToLower (Ext blobName) \<noteq> ''.gz'')"

definition minFingerprintSize :: int where
  "minFingerprintSize = 16"

definition fpSize :: "azure_config \<Rightarrow> int" where
  "fpSize cfg = (if azc_FingerprintSize cfg \<ge> minFingerprintSize then azc_FingerprintSize cfg else DefaultFingerprintSize)"

definition shouldParseBlob :: "azure_config \<Rightarrow> PollingCheckPoint \<Rightarrow> BlobInfo \<Rightarrow> gotime \<Rightarrow> bool" where
  "shouldParseBlob cfg c blob blobTime =
     (if isIncrementalFormat cfg then
        (if bi_LastModified blob = zero_time then False
         else (case ProgressFor c (bi_Name blob) of
                 None \<Rightarrow> True
               | Some prog \<Rightarrow>
                   if bp_LastReadError prog \<noteq> [] then True
                   else bi_LastModified blob \<noteq> bp_LastModified prog))
      else ShouldParse (CheckPoint.truncate c) blobTime (bi_Name blob))"

section \<open>Failures\<close>

definition quarantineBlob :: "string \<Rightarrow> gotime \<Rightarrow> PollingCheckPoint \<Rightarrow> PollingCheckPoint" where
  "quarantineBlob name lastModified c =
     UpdateProgress name
       ((progress_or_zero c name)\<lparr>bp_LastModified := lastModified, bp_Quarantined := True, bp_LastReadError := []\<rparr>) c"

definition maxLastReadErrorLen :: nat where
  "maxLastReadErrorLen = 256"

fun cut_to_rune :: "nat \<Rightarrow> bytes \<Rightarrow> bytes" where
  "cut_to_rune 0 s = s"
| "cut_to_rune (Suc n) s = (if ValidString s then s else cut_to_rune n (take (length s - 1) s))"

definition truncateError :: "az_err \<Rightarrow> string" where
  "truncateError cause =
     (let msg = err_message cause
      in if length msg \<le> maxLastReadErrorLen then msg
         else cut_to_rune 3 (take maxLastReadErrorLen msg) @ ''...'')"

definition trackNeverReadFailure :: "BlobInfo \<Rightarrow> az_err \<Rightarrow> PollingCheckPoint \<Rightarrow> PollingCheckPoint" where
  "trackNeverReadFailure blob cause c =
     UpdateProgress (bi_Name blob)
       (no_progress\<lparr>bp_Quarantined := bp_Quarantined (progress_or_zero c (bi_Name blob)),
          bp_LastModified := bi_LastModified blob, bp_LastReadError := truncateError cause\<rparr>) c"

definition quarantineOnPermanentReadError :: "BlobInfo \<Rightarrow> az_err \<Rightarrow> PollingCheckPoint \<Rightarrow> bool \<times> PollingCheckPoint" where
  "quarantineOnPermanentReadError blob err c =
     (if \<not> IsPermanentError err then (False, c)
      else (True, quarantineBlob (bi_Name blob) (bi_LastModified blob) c))"

section \<open>Incremental reading\<close>

definition verifyResumeIdentity ::
    "azure_config \<Rightarrow> 'w azure_outside \<Rightarrow> string \<Rightarrow> int \<Rightarrow> bytes \<Rightarrow> 'w \<Rightarrow> (az_err + bytes \<times> bool) \<times> 'w" where
  "verifyResumeIdentity cfg out name offset fingerprint w =
     (if offset = 0 \<or> length fingerprint = 0 \<or> azc_AssumeAppendOnly cfg then (Inr ([], False), w)
      else (case azo_range out name 0 (fpSize cfg) w of
              (Inl err, w1) \<Rightarrow> (Inl err, w1)
            | (Inr (head, tot), w1) \<Rightarrow>
                (let needsReset = \<not> SameBlob fingerprint (Fingerprint head (fpSize cfg))
                 in (Inr (head, needsReset \<or> tot \<ge> 0 \<and> tot < offset), w1))))"

definition consumeDelta ::
    "azure_config \<Rightarrow> 'w azure_outside \<Rightarrow> bytes \<Rightarrow> bool \<Rightarrow> 'w \<Rightarrow> (az_err + nat \<times> bool) \<times> 'w" where
  "consumeDelta cfg out delta atStart w =
     (if azc_BlobFormat cfg = BlobFormatRecordsJSON then
        (case SplitRecordsJSONDelta delta atStart of
           (None, bytesConsumed) \<Rightarrow> (Inr (bytesConsumed, False), w)
         | (Some reframed, bytesConsumed) \<Rightarrow>
             (case azo_consume out reframed w of
                (Inl err, w1) \<Rightarrow> (Inl err, w1)
              | (Inr emitted, w1) \<Rightarrow> (Inr (bytesConsumed, emitted > 0), w1)))
      else
        (case SplitLineDelta delta of
           (complete, bytesConsumed) \<Rightarrow>
             if bytesConsumed = 0 then (Inr (0, False), w)
             else (case azo_consume out complete w of
                     (Inl err, w1) \<Rightarrow> (Inl err, w1)
                   | (Inr emitted, w1) \<Rightarrow> (Inr (bytesConsumed, emitted > 0), w1))))"

definition next_fingerprint :: "azure_config \<Rightarrow> int \<Rightarrow> bytes \<Rightarrow> bytes \<Rightarrow> bytes \<Rightarrow> nat \<Rightarrow> bytes" where
  "next_fingerprint cfg offset fingerprint head delta bytesConsumed =
     (if offset = 0 then Fingerprint (take bytesConsumed delta) (fpSize cfg)
      else if int (length fingerprint) < fpSize cfg \<and> length head > 0 then
        Fingerprint (if offset \<le> int (length head) then take (nat offset) head @ take bytesConsumed delta else head)
          (fpSize cfg)
      else fingerprint)"

text \<open>
  \<open>processBlobIncremental\<close> behind the identity check, at the offset it settled on: the bytes behind
  it are read, consumed up to the last complete line or record, and the offset moves there.
\<close>

definition read_and_consume ::
    "azure_config \<Rightarrow> 'w azure_outside \<Rightarrow> BlobInfo \<Rightarrow> int \<Rightarrow> bytes \<Rightarrow> bytes \<Rightarrow> PollingCheckPoint \<Rightarrow> 'w
      \<Rightarrow> (az_err + bool) \<times> PollingCheckPoint \<times> 'w" where
  "read_and_consume cfg out blob offset fingerprint head c w =
     (let after = (\<lambda>delta w1.
        (case consumeDelta cfg out delta (offset = 0) w1 of
           (Inl err, w2) \<Rightarrow> (Inl err, if offset = 0 then trackNeverReadFailure blob err c else c, w2)
         | (Inr (bytesConsumed, emitted), w2) \<Rightarrow>
             if azc_BlobFormat cfg = BlobFormatRecordsJSON \<and> bytesConsumed = 0
                \<and> RecordsJSONDeltaStuck delta (offset = 0)
             then (Inr False, quarantineBlob (bi_Name blob) (bi_LastModified blob) c, w2)
             else (Inr emitted,
                   UpdateProgress (bi_Name blob)
                     (no_progress\<lparr>bp_Offset := offset + int bytesConsumed,
                        bp_Fingerprint := next_fingerprint cfg offset fingerprint head delta bytesConsumed,
                        bp_LastModified := bi_LastModified blob\<rparr>) c, w2)))
      in case azo_range out (bi_Name blob) offset 0 w of
           (Inr (delta, tot), w1) \<Rightarrow> after delta w1
         | (Inl err, w1) \<Rightarrow>
             if IsBlobNotFound err then (Inr False, c, w1)
             else if \<not> IsRangeNotSatisfiable err then
               (case quarantineOnPermanentReadError blob err c of
                  (True, c1) \<Rightarrow> (Inr False, c1, w1)
                | (False, c1) \<Rightarrow>
                    (let wrapped = ErrWrap ''download blob range'' err
                     in (Inl wrapped, if offset = 0 then trackNeverReadFailure blob wrapped c1 else c1, w1)))
             else after [] w1)"

definition processBlobIncremental ::
    "azure_config \<Rightarrow> 'w azure_outside \<Rightarrow> BlobInfo \<Rightarrow> PollingCheckPoint \<Rightarrow> 'w
      \<Rightarrow> (az_err + bool) \<times> PollingCheckPoint \<times> 'w" where
  "processBlobIncremental cfg out blob c w =
     (if (azc_BlobFormat cfg = BlobFormatRecordsJSON \<or> azc_BlobFormat cfg = BlobFormatJSON)
         \<and> ToLower (Ext (bi_Name blob)) \<noteq> ''.json''
      then (Inr False, quarantineBlob (bi_Name blob) (bi_LastModified blob) c, w)
      else
        (let prog = progress_or_zero c (bi_Name blob);
             offset = bp_Offset prog; fingerprint = bp_Fingerprint prog
         in case verifyResumeIdentity cfg out (bi_Name blob) offset fingerprint w of
              (Inr (head, needsReset), w1) \<Rightarrow>
                read_and_consume cfg out blob (if needsReset then 0 else offset) fingerprint head c w1
            | (Inl err, w1) \<Rightarrow>
                if IsBlobNotFound err then (Inr False, c, w1)
                else if \<not> IsRangeNotSatisfiable err then
                  (case quarantineOnPermanentReadError blob err c of
                     (True, c1) \<Rightarrow> (Inr False, c1, w1)
                   | (False, c1) \<Rightarrow> (Inl (ErrWrap ''fingerprint read'' err), c1, w1))
                else read_and_consume cfg out blob 0 fingerprint [] c w1))"


section \<open>Whole blobs\<close>

definition processBlob ::
    "azure_config \<Rightarrow> 'w azure_outside \<Rightarrow> BlobInfo \<Rightarrow> 'w \<Rightarrow> (az_err + int) \<times> 'w" where
  "processBlob cfg out blob w =
     (let fetched =
            (if azc_BlobFormat cfg = BlobFormatOTLP then
               (case azo_download out (bi_Name blob) (bi_Size blob) w of
                  (Inl derr, w1) \<Rightarrow> (Inl (ErrWrap ''download'' derr), w1)
                | (Inr buf, w1) \<Rightarrow> (Inr buf, w1))
             else
               (case azo_range out (bi_Name blob) 0 0 w of
                  (Inl err, w1) \<Rightarrow>
                    (Inl (if IsPermanentError err then ErrWrap ''download'' err else ErrBlobDownloadTransient err), w1)
                | (Inr (buf, tot), w1) \<Rightarrow> (Inr buf, w1)));
          ext = ToLower (Ext (bi_Name blob))
      in case fetched of
           (Inl err, w1) \<Rightarrow> (Inl err, w1)
         | (Inr buf, w1) \<Rightarrow>
             (case (if ext = ''.gz'' then
                      (case azo_gunzip out buf of Inl err \<Rightarrow> Inl (ErrWrap ''gzip'' err) | Inr b \<Rightarrow> Inr b)
                    else if ext = ''.json'' \<or> azc_BlobFormat cfg = BlobFormatText then Inr buf
                    else Inl (ErrMessage (''unsupported file type: '' @ ext))) of
                Inl err \<Rightarrow> (Inl err, w1)
              | Inr content \<Rightarrow> azo_consume out content w1))"

definition processBlobWholeTracked ::
    "azure_config \<Rightarrow> 'w azure_outside \<Rightarrow> BlobInfo \<Rightarrow> PollingCheckPoint \<Rightarrow> 'w
      \<Rightarrow> (az_err + bool) \<times> PollingCheckPoint \<times> 'w" where
  "processBlobWholeTracked cfg out blob c w =
     (case processBlob cfg out blob w of
        (Inl err, w1) \<Rightarrow>
          if is_retryable err then
            (Inl err,
             if ProgressFor c (bi_Name blob) = None \<or> bp_Offset (progress_or_zero c (bi_Name blob)) = 0
             then trackNeverReadFailure blob err c else c, w1)
          else (Inr False, quarantineBlob (bi_Name blob) (bi_LastModified blob) c, w1)
      | (Inr emitted, w1) \<Rightarrow>
          (Inr (emitted > 0),
           UpdateProgress (bi_Name blob)
             (no_progress\<lparr>bp_Offset := bi_Size blob, bp_LastModified := bi_LastModified blob\<rparr>) c, w1))"

section \<open>Finishing a blob\<close>

definition validSealTail :: "bytes \<Rightarrow> bool \<Rightarrow> bool" where
  "validSealTail tail atStart =
     (if atStart then ValidRecordsJSONDoc tail
      else ValidRecordsJSONDoc (CHR ''{'' # CHR 0x22 # ''records'' @ CHR 0x22 # '':['' @ tail))"

text \<open>What is done with a non-blank tail, by format: the new offset and an error.\<close>

definition flush_tail ::
    "azure_config \<Rightarrow> 'w azure_outside \<Rightarrow> bytes \<Rightarrow> int \<Rightarrow> 'w \<Rightarrow> (int \<times> az_err option) \<times> 'w" where
  "flush_tail cfg out tail offset w =
     (case azc_BlobFormat cfg of
        BlobFormatRecordsJSON \<Rightarrow>
          (case consumeDelta cfg out tail (offset = 0) w of
             (Inl err, w1) \<Rightarrow> ((offset, Some (ErrWrap ''seal consume'' err)), w1)
           | (Inr (bytesConsumed, emitted), w1) \<Rightarrow>
               if \<not> validSealTail (drop bytesConsumed tail) (offset = 0 \<and> bytesConsumed = 0)
               then ((offset + int bytesConsumed, Some ErrSealedBlobUnparseable), w1)
               else ((offset + int bytesConsumed, None), w1))
      | BlobFormatJSON \<Rightarrow>
          (case SplitLineDelta tail of
             (complete, bytesConsumed) \<Rightarrow>
               (case (if bytesConsumed > 0 then azo_consume out complete w else (Inr 0, w)) of
                  (Inl err, w1) \<Rightarrow> ((offset, Some (ErrWrap ''seal consume'' err)), w1)
                | (Inr n, w1) \<Rightarrow>
                    (let trailing = bytes_TrimSpace (drop bytesConsumed tail)
                     in if length trailing = 0 then ((offset + int bytesConsumed, None), w1)
                        else if \<not> IsJSONObject trailing
                        then ((offset + int bytesConsumed, Some ErrSealedBlobUnparseable), w1)
                        else (case azo_consume out trailing w1 of
                                (Inl err, w2) \<Rightarrow>
                                  ((offset + int bytesConsumed, Some (ErrWrap ''seal consume'' err)), w2)
                              | (Inr n', w2) \<Rightarrow> ((offset + int (length tail), None), w2)))))
      | _ \<Rightarrow>
          (case azo_consume out tail w of
             (Inl err, w1) \<Rightarrow> ((offset, Some (ErrWrap ''seal consume'' err)), w1)
           | (Inr n, w1) \<Rightarrow> ((offset + int (length tail), None), w1)))"

definition flushSealedBlob ::
    "azure_config \<Rightarrow> 'w azure_outside \<Rightarrow> string \<Rightarrow> BlobProgress \<Rightarrow> 'w \<Rightarrow> (int \<times> bytes \<times> az_err option) \<times> 'w" where
  "flushSealedBlob cfg out name prog w =
     (case verifyResumeIdentity cfg out name (bp_Offset prog) (bp_Fingerprint prog) w of
        (Inl err, w1) \<Rightarrow>
          if IsRangeNotSatisfiable err \<or> IsBlobNotFound err then ((bp_Offset prog, bp_Fingerprint prog, None), w1)
          else ((bp_Offset prog, bp_Fingerprint prog, Some (ErrWrap ''fingerprint read'' err)), w1)
      | (Inr (head, needsReset), w1) \<Rightarrow>
          (let offset = (if needsReset then 0 else bp_Offset prog);
               fingerprint = (if needsReset then Fingerprint head (fpSize cfg) else bp_Fingerprint prog)
           in case azo_range out name offset 0 w1 of
                (Inl err, w2) \<Rightarrow>
                  if IsRangeNotSatisfiable err then ((offset, fingerprint, None), w2)
                  else if IsBlobNotFound err then ((offset, fingerprint, None), w2)
                  else ((offset, fingerprint, Some (ErrWrap ''download tail'' err)), w2)
              | (Inr (tail, tot), w2) \<Rightarrow>
                  if length (bytes_TrimSpace tail) = 0 then ((offset, fingerprint, None), w2)
                  else (case flush_tail cfg out tail offset w2 of
                          ((newOffset, err), w3) \<Rightarrow> ((newOffset, fingerprint, err), w3))))"

definition retrackOrQuarantine ::
    "string \<Rightarrow> BlobProgress \<Rightarrow> bool \<Rightarrow> az_err \<Rightarrow> PollingCheckPoint \<Rightarrow> PollingCheckPoint" where
  "retrackOrQuarantine name prog deleting err c =
     (if is_canceled err then UpdateProgress name prog c
      else
        (let prog1 = prog\<lparr>bp_FinalizeFailures := bp_FinalizeFailures prog + 1\<rparr>;
             quarantinable = deleting \<or> IsPermanentError err
         in UpdateProgress name
              (if quarantinable \<and> bp_FinalizeFailures prog1 \<ge> maxFinalizeFailures
               then prog1\<lparr>bp_Quarantined := True\<rparr> else prog1) c))"

text \<open>The end of a blob whose bytes were handed on: deleted, or kept as sealed.\<close>

definition delete_or_seal ::
    "azure_config \<Rightarrow> 'w azure_outside \<Rightarrow> string \<Rightarrow> BlobProgress \<Rightarrow> PollingCheckPoint \<Rightarrow> 'w \<Rightarrow> PollingCheckPoint \<times> 'w" where
  "delete_or_seal cfg out name prog c w =
     (if azc_DeleteOnRead cfg then
        (case azo_delete out name w of
           (Some err, w1) \<Rightarrow> (if IsBlobNotFound err then c else retrackOrQuarantine name prog True err c, w1)
         | (None, w1) \<Rightarrow> (c, w1))
      else (UpdateProgress name (prog\<lparr>bp_Sealed := True\<rparr>) c, w))"

definition finalizeAgedBlob ::
    "azure_config \<Rightarrow> 'w azure_outside \<Rightarrow> string \<Rightarrow> BlobProgress \<Rightarrow> PollingCheckPoint \<Rightarrow> 'w \<Rightarrow> PollingCheckPoint \<times> 'w" where
  "finalizeAgedBlob cfg out name prog c w =
     (if bp_LastReadError prog \<noteq> [] \<and> bp_Offset prog = 0 then (c, w)
      else if useIncremental cfg name then
        (case flushSealedBlob cfg out name prog w of
           ((newOffset, newFingerprint, err), w1) \<Rightarrow>
             (let prog1 = prog\<lparr>bp_Offset := newOffset, bp_Fingerprint := newFingerprint\<rparr>
              in case err of
                   Some e \<Rightarrow>
                     if e = ErrSealedBlobUnparseable
                     then (UpdateProgress name (prog1\<lparr>bp_Quarantined := True\<rparr>) c, w1)
                     else (retrackOrQuarantine name prog1 False e c, w1)
                 | None \<Rightarrow> delete_or_seal cfg out name prog1 c w1))
      else delete_or_seal cfg out name prog c w)"

fun finalize_in_order ::
    "azure_config \<Rightarrow> 'w azure_outside \<Rightarrow> (string \<rightharpoonup> BlobProgress) \<Rightarrow> string list \<Rightarrow> PollingCheckPoint \<Rightarrow> 'w
      \<Rightarrow> PollingCheckPoint \<times> 'w" where
  "finalize_in_order cfg out aged [] c w = (c, w)"
| "finalize_in_order cfg out aged (name # names) c w =
     (case aged name of
        None \<Rightarrow> finalize_in_order cfg out aged names c w
      | Some prog \<Rightarrow>
          (case finalizeAgedBlob cfg out name prog c w of
             (c1, w1) \<Rightarrow> finalize_in_order cfg out aged names c1 w1))"

text \<open>\<open>order\<close> is the order in which the runtime ranges over the map.\<close>

definition finalizeAgedBlobs ::
    "azure_config \<Rightarrow> 'w azure_outside \<Rightarrow> string list \<Rightarrow> (string \<rightharpoonup> BlobProgress) \<Rightarrow> PollingCheckPoint \<Rightarrow> 'w
      \<Rightarrow> PollingCheckPoint \<times> 'w" where
  "finalizeAgedBlobs cfg out order aged c w =
     (if \<not> isIncrementalFormat cfg then (c, w) else finalize_in_order cfg out aged order c w)"


section \<open>A poll\<close>

record pollingReceiver =
  pr_checkpoint :: PollingCheckPoint
  pr_lastBlob :: "(string \<times> gotime) option"

definition incrementalHorizonStart :: "gotime \<Rightarrow> gotime \<Rightarrow> gotime \<Rightarrow> duration \<Rightarrow> gotime" where
  "incrementalHorizonStart startingTime lastPollTime now revisitWindow =
     (let anchor = (if lastPollTime \<noteq> zero_time \<and> lastPollTime < now then lastPollTime else now);
          horizonStart = anchor - revisitWindow
      in if horizonStart < startingTime then horizonStart else startingTime)"

text \<open>The window of a poll, at the head of \<open>runPoll\<close>.\<close>

definition poll_window :: "azure_config \<Rightarrow> gotime \<Rightarrow> gotime \<Rightarrow> gotime \<times> gotime" where
  "poll_window cfg lastPollTime now =
     (let startingTime = (if lastPollTime = zero_time then now - azc_InitialLookback cfg else lastPollTime)
      in (if isIncrementalFormat cfg
          then incrementalHorizonStart startingTime lastPollTime now (azc_RevisitWindow cfg) else startingTime, now))"

definition conditionallyDeleteBlob :: "azure_config \<Rightarrow> 'w azure_outside \<Rightarrow> BlobInfo \<Rightarrow> 'w \<Rightarrow> az_err option \<times> 'w" where
  "conditionallyDeleteBlob cfg out blob w =
     (if \<not> azc_DeleteOnRead cfg then (None, w) else azo_delete out (bi_Name blob) w)"

definition processBlobGoRoutine ::
    "azure_config \<Rightarrow> 'w azure_outside \<Rightarrow> BlobInfo \<Rightarrow> gotime \<Rightarrow> pollingReceiver \<Rightarrow> 'w \<Rightarrow> pollingReceiver \<times> 'w" where
  "processBlobGoRoutine cfg out blob blobTime r w =
     (if useIncremental cfg (bi_Name blob) then
        (case processBlobIncremental cfg out blob (pr_checkpoint r) w of
           (res, c, w1) \<Rightarrow> (r\<lparr>pr_checkpoint := c\<rparr>, w1))
      else if isIncrementalFormat cfg then
        (case processBlobWholeTracked cfg out blob (pr_checkpoint r) w of
           (res, c, w1) \<Rightarrow> (r\<lparr>pr_checkpoint := c\<rparr>, w1))
      else
        (case processBlob cfg out blob w of
           (Inl err, w1) \<Rightarrow> (r, w1)
         | (Inr n, w1) \<Rightarrow>
             (case conditionallyDeleteBlob cfg out blob w1 of
                (err, w2) \<Rightarrow>
                  ((case pr_lastBlob r of
                      None \<Rightarrow> r\<lparr>pr_lastBlob := Some (bi_Name blob, blobTime)\<rparr>
                    | Some (n', t) \<Rightarrow> if t < blobTime then r\<lparr>pr_lastBlob := Some (bi_Name blob, blobTime)\<rparr> else r),
                   w2))))"

definition makeCheckpoint ::
    "azure_config \<Rightarrow> 'w azure_outside \<Rightarrow> pollingReceiver \<Rightarrow> 'w \<Rightarrow> az_err option \<times> pollingReceiver \<times> 'w" where
  "makeCheckpoint cfg out r w =
     (if \<not> isIncrementalFormat cfg \<and> pr_lastBlob r = None then (None, r, w)
      else
        (let c = (case pr_lastBlob r of
                    None \<Rightarrow> pr_checkpoint r
                  | Some (name, t) \<Rightarrow>
                      (let b = UpdateCheckpoint t name (CheckPoint.truncate (pr_checkpoint r))
                       in (pr_checkpoint r)\<lparr>ck_LastTs := ck_LastTs b, ck_ParsedEntities := ck_ParsedEntities b\<rparr>))
         in case azo_save out c w of
              (err, w1) \<Rightarrow> (err, r\<lparr>pr_checkpoint := c\<rparr>, w1)))"

definition finalizePoll ::
    "azure_config \<Rightarrow> 'w azure_outside \<Rightarrow> string list \<Rightarrow> gotime \<Rightarrow> gotime \<Rightarrow> pollingReceiver \<Rightarrow> 'w
      \<Rightarrow> pollingReceiver \<times> 'w" where
  "finalizePoll cfg out order startingTime endingTime r w =
     (let c = UpdatePollTime endingTime (pr_checkpoint r);
          pruneAfter = (if azc_RevisitWindow cfg > quarantineRetention then azc_RevisitWindow cfg else quarantineRetention);
          quarantinePruneCutoff = endingTime - pruneAfter;
          sealedPruneCutoff = (if azc_UseLastModified cfg then quarantinePruneCutoff
                               else endingTime - azc_RevisitWindow cfg)
      in case AgedOutProgress (startingTime - sealSkewTolerance) quarantinePruneCutoff sealedPruneCutoff c of
           (aged, giveUp, c1) \<Rightarrow>
             (case finalizeAgedBlobs cfg out order aged c1 w of
                (c2, w1) \<Rightarrow>
                  (case makeCheckpoint cfg out (r\<lparr>pr_checkpoint := c2\<rparr>) w1 of
                     (err, r1, w2) \<Rightarrow> (r1, w2))))"

definition trimMatchedRoot :: "string list \<Rightarrow> string \<Rightarrow> string \<times> bool" where
  "trimMatchedRoot expandedRoots blobName =
     (let matched = foldl (\<lambda>m root. if root \<noteq> [] \<and> HasPrefix blobName root \<and> length root > length m then root else m)
                      [] expandedRoots
      in if matched = [] then (blobName, False)
         else (let trimmed = drop (length matched) blobName
               in (if trimmed \<noteq> [] \<and> hd trimmed = CHR ''/'' then tl trimmed else trimmed, True)))"

lemmas azure_defs [model_defs] =
  HasCode_def IsRangeNotSatisfiable_def IsBlobNotFound_def IsPermanentError_def no_progress_def
  NewPollingCheckpoint_def UpdatePollTime_def ProgressFor_def UpdateProgress_def progress_or_zero_def
  ToLower_def Ext_def isIncrementalFormat_def useIncremental_def minFingerprintSize_def fpSize_def
  quarantineBlob_def trackNeverReadFailure_def quarantineOnPermanentReadError_def

end
