(* ===== verification/BlobDelta.thy ===== *)
theory BlobDelta
  imports BlobTail "HOL-Library.Sublist"
begin

text \<open>
  The cutting of deltas as functions of the bytes: the first lines of a text and what
  \<open>SplitLineDelta\<close> makes of a delta, and a records document as an envelope and a list of records,
  of which \<open>SplitRecordsJSONDelta\<close> finds exactly the complete ones, from the start of the document and
  from behind any of its records.
\<close>

section \<open>Empty input\<close>

lemma trim_comma_nil [simp]: "trim_comma [] = []"
  by (simp add: trim_comma_def)

lemma More_nil: "dc_rest d = [] \<Longrightarrow> More d = (False, d)"
  by (simp add: More_def peek_def)

lemma Token_nil: "Token (NewDecoder []) = (Inl JEOF, NewDecoder [])"
  by (simp add: Token.simps NewDecoder_def peek_def)

lemma Token_bracket:
  "Token (NewDecoder (CHR ''['' # s)) =
     (Inr (TDelim CHR ''[''),
      \<lparr>dc_rest = s, dc_off = 1, dc_state = TokenArrayStart, dc_stack = [TokenTopValue], dc_err = None\<rparr>)"
  by (simp add: Token.simps NewDecoder_def peek_def isSpace_def open_bracket_def tokenValueAllowed_def dec_skip_def)

section \<open>Lines\<close>

text \<open>The first \<open>k\<close> lines of a text, with their line feeds.\<close>

fun upto_lf :: "nat \<Rightarrow> bytes \<Rightarrow> bytes" where
  "upto_lf 0 s = []"
| "upto_lf (Suc k) [] = []"
| "upto_lf (Suc k) (c # s) = c # (if c = LF then upto_lf k s else upto_lf (Suc k) s)"

lemma upto_lf_prefix: "prefix (upto_lf k s) s"
  by (induction k s rule: upto_lf.induct) auto

lemma upto_lf_count: "k \<le> count_list s LF \<Longrightarrow> count_list (upto_lf k s) LF = k"
  by (induction k s rule: upto_lf.induct) auto

lemma upto_lf_append: "k \<le> count_list s LF \<Longrightarrow> upto_lf k (s @ t) = upto_lf k s"
  by (induction k s rule: upto_lf.induct) auto

lemma upto_lf_split:
  "j \<le> k \<Longrightarrow> k \<le> count_list s LF \<Longrightarrow>
     upto_lf k s = upto_lf j s @ upto_lf (k - j) (drop (length (upto_lf j s)) s)"
proof (induction j s arbitrary: k rule: upto_lf.induct)
  case (3 j c s)
  obtain k' where k: "k = Suc k'" using 3(3) by (cases k) auto
  show ?case
  proof (cases "c = LF")
    case True
    have "upto_lf k' s = upto_lf j s @ upto_lf (k' - j) (drop (length (upto_lf j s)) s)"
      by (rule 3(1) [OF True]) (use 3(3,4) k True in auto)
    then show ?thesis by (simp add: k True)
  next
    case False
    have "upto_lf (Suc k') s = upto_lf (Suc j) s @ upto_lf (Suc k' - Suc j) (drop (length (upto_lf (Suc j) s)) s)"
      by (rule 3(2) [OF False]) (use 3(3,4) k False in auto)
    then show ?thesis by (simp add: k False)
  qed
next
  case (1 s k) show ?case by simp
next
  case (2 j k) then show ?case by simp
qed

lemma count_drop_upto: "j \<le> count_list s LF \<Longrightarrow> count_list (drop (length (upto_lf j s)) s) LF = count_list s LF - j"
  by (induction j s rule: upto_lf.induct) auto

lemma upto_lf_strict: "j < k \<Longrightarrow> k \<le> count_list s LF \<Longrightarrow> strict_prefix (upto_lf j s) (upto_lf k s)"
  using upto_lf_split [of j k s] upto_lf_count [of k s] upto_lf_count [of j s]
  by (auto simp: strict_prefix_def)

lemma upto_lf_last: "k \<le> count_list s LF \<Longrightarrow> 0 < k \<Longrightarrow> upto_lf k s \<noteq> [] \<and> last (upto_lf k s) = LF"
proof (induction k s rule: upto_lf.induct)
  case (3 k c s)
  then show ?case by (cases k) (auto split: if_splits)
qed auto

lemma upto_lf_all: "LF \<notin> set (drop (length (upto_lf (count_list s LF) s)) s)"
  using count_drop_upto [of "count_list s LF" s] by (simp add: count_list_0_iff)

lemma takeWhile_rev_lf:
  assumes "p = [] \<or> last p = c" and "c \<notin> set t"
  shows "length (takeWhile (\<lambda>x. x \<noteq> c) (rev (p @ t))) = length t"
proof -
  have "takeWhile (\<lambda>x. x \<noteq> c) (rev t @ rev p) = rev t @ takeWhile (\<lambda>x. x \<noteq> c) (rev p)"
    using assms(2) by (intro takeWhile_append2) auto
  moreover have "takeWhile (\<lambda>x. x \<noteq> c) (rev p) = []"
    using assms(1) by (cases p rule: rev_cases) auto
  ultimately show ?thesis by simp
qed

lemma SplitLineDelta_upto:
  "SplitLineDelta s = (upto_lf (count_list s LF) s, length (upto_lf (count_list s LF) s))"
proof -
  let ?p = "upto_lf (count_list s LF) s"
  obtain t where s: "s = ?p @ t" using upto_lf_prefix [of "count_list s LF" s] by (auto simp: prefix_def)
  have t: "LF \<notin> set t" using upto_lf_all [of s] s by (metis append_eq_conv_conj)
  have p: "?p = [] \<or> last ?p = LF"
    using upto_lf_last [of "count_list s LF" s] by (cases "count_list s LF = 0") auto
  have "LastIndexByte s LF = int (length ?p) - 1"
    unfolding LastIndexByte_def using takeWhile_rev_lf [OF p t] s
    by (metis (no_types, lifting) add_diff_cancel_right' diff_right_commute length_append of_nat_add)
  moreover have "take (length ?p) s = ?p" by (metis append_eq_conv_conj s)
  moreover have "nat (int (length ?p) - 1) + 1 = length ?p" if "?p \<noteq> []"
    using that by (cases ?p) auto
  ultimately show ?thesis by (cases "?p = []") (auto simp: SplitLineDelta_def Let_def)
qed

lemma upto_lf_mono: "a \<le> b \<Longrightarrow> b \<le> count_list s LF \<Longrightarrow> prefix (upto_lf a s) (upto_lf b s)"
  using upto_lf_strict [of a b s] by (cases "a = b") (auto simp: strict_prefix_def)

lemma sorted_count_prefixes:
  "\<forall>v\<in>set vs. prefix (f v) (full :: bytes) \<Longrightarrow> sorted (map (\<lambda>v. length (f v)) vs) \<Longrightarrow>
     sorted (map (\<lambda>v. count_list (f v) c) vs)"
proof (induction vs)
  case (Cons v vs)
  have "count_list (f v) c \<le> count_list (f v') c" if "v' \<in> set vs" for v'
  proof -
    have "prefix (f v) (f v')" using Cons.prems that by (auto intro: prefix_length_prefix)
    then show ?thesis by (auto simp: prefix_def)
  qed
  with Cons show ?case by auto
qed simp

section \<open>Objects in an array\<close>

definition spaces :: "bytes \<Rightarrow> bool" where
  "spaces a = (\<forall>c\<in>set a. isSpace c)"

lemma read_loop_shift: "read_loop sc (n + k) s = map_sum id (\<lambda>m. m + k) (read_loop sc n s)"
proof (induction s arbitrary: sc n)
  case (Cons c s)
  obtain code sc1 where st: "scan_step sc c = (code, sc1)" by fastforce
  obtain code2 sc2 where e: "stateEndValue sc1 CHR '' '' = (code2, sc2)" by fastforce
  show ?case using Cons [of sc1 "Suc n"] Cons [of sc2 "Suc n"] by (simp add: st e)
qed simp

lemma read_loop_spaces: "spaces a \<Longrightarrow> read_loop scan_reset n (a @ s) = read_loop scan_reset (n + length a) s"
proof (induction a arbitrary: n)
  case (Cons c a)
  then have "scan_step scan_reset c = (ScanSkipSpace, scan_reset)"
    by (simp add: spaces_def scan_step_def scan_reset_def stateBeginValue_def)
  with Cons show ?case by (simp add: spaces_def)
qed simp

lemma readValue_spaces:
  assumes "spaces a"
  shows "readValue s = Inr n \<Longrightarrow> readValue (a @ s) = Inr (length a + n)"
    and "readValue s = Inl e \<Longrightarrow> \<exists>e'. readValue (a @ s) = Inl e'"
proof -
  have "read_loop scan_reset 0 (a @ s) = map_sum id (\<lambda>m. m + length a) (read_loop scan_reset 0 s)"
    using read_loop_spaces [OF assms, of 0 s] read_loop_shift [of scan_reset 0 "length a" s] by simp
  then show "readValue s = Inr n \<Longrightarrow> readValue (a @ s) = Inr (length a + n)"
    and "readValue s = Inl e \<Longrightarrow> \<exists>e'. readValue (a @ s) = Inl e'"
    by (auto simp: readValue_def split: sum.splits json_err.splits)
qed

lemma takeWhile_spaces: "spaces a \<Longrightarrow> \<not> isSpace c \<Longrightarrow> takeWhile isSpace (a @ c # s) = a"
  by (induction a) (auto simp: spaces_def)

lemma dropWhile_spaces: "spaces a \<Longrightarrow> s = [] \<or> \<not> isSpace (hd s) \<Longrightarrow> dropWhile isSpace (a @ s) = s"
  by (induction a) (auto simp: spaces_def dropWhile_eq_self_iff)

lemma split_spaces: obtains a where "spaces a" "s = a @ dropWhile isSpace s"
proof
  show "spaces (takeWhile isSpace s)" by (auto simp: spaces_def dest: set_takeWhileD)
qed (simp add: takeWhile_dropWhile_id)

lemma json_object_hd: "json_object r \<Longrightarrow> r \<noteq> [] \<and> hd r = CHR ''{'' \<and> \<not> isSpace (hd r)"
  by (simp add: json_object_def isSpace_def)

abbreviation in_array :: "token_state \<Rightarrow> bytes \<Rightarrow> nat \<Rightarrow> token_state list \<Rightarrow> decoder" where
  "in_array st s off stk \<equiv> \<lparr>dc_rest = s, dc_off = off, dc_state = st, dc_stack = stk, dc_err = None\<rparr>"

lemma More_at:
  assumes "spaces a" and "\<not> isSpace c"
  shows "More (in_array st (a @ c # s) off stk) =
    (c \<noteq> CHR '']'' \<and> c \<noteq> CHR ''}'', in_array st (c # s) (off + length a) stk)"
  using takeWhile_spaces [OF assms, of s] by (simp add: More_def peek_def dec_skip_def)

lemma Decode_object:
  assumes "spaces a" and "json_object r" and "st = TokenArrayStart \<or> st = TokenArrayValue"
  shows "Decode (in_array st (a @ r @ t) off stk) =
    (Inr r, in_array TokenArrayComma t (off + length a + length r) stk)"
proof -
  have n: "readValue (a @ r @ t) = Inr (length a + length r)"
    using readValue_spaces(1) [OF assms(1) json_object_read [OF assms(2)]] .
  have "dropWhile isSpace (a @ r) = r"
    by (rule dropWhile_spaces [OF assms(1)]) (use json_object_hd [OF assms(2)] in \<open>simp add: isSpace_def\<close>)
  with n assms(3) show ?thesis
    by (auto simp: Decode_def tokenPrepareForDecode_def tokenValueAllowed_def tokenValueEnd_def dec_skip_def)
qed

lemma elems_start:
  assumes "spaces a" and "json_object r"
  shows "array_elems (in_array TokenArrayStart (a @ r @ t) off stk) l =
    (case array_elems (in_array TokenArrayComma t (off + length a + length r) stk) (off + length a + length r - 1) of
       (es, l') \<Rightarrow> (r # es, l'))"
proof -
  obtain cs where r: "r = CHR ''{'' # cs" using json_object_hd [OF assms(2)] by (cases r) auto
  have m: "More (in_array TokenArrayStart (a @ r @ t) off stk) = (True, in_array TokenArrayStart (r @ t) (off + length a) stk)"
    using More_at [OF assms(1), of "CHR ''{''"] by (simp add: r isSpace_def)
  show ?thesis
    using Decode_object [of "[]" r TokenArrayStart t "off + length a" stk] assms(2)
    by (subst array_elems.simps) (simp add: m [unfolded r append_Cons] spaces_def is_object_raw_def r)
qed

lemma elems_comma:
  assumes "spaces a" and "spaces b" and "json_object r"
  shows "array_elems (in_array TokenArrayComma (a @ CHR '','' # b @ r @ t) off stk) l =
    (case array_elems (in_array TokenArrayComma t (off + length a + 1 + length b + length r) stk)
            (off + length a + length b + length r) of
       (es, l') \<Rightarrow> (r # es, l'))"
proof -
  have m: "More (in_array TokenArrayComma (a @ CHR '','' # b @ r @ t) off stk) =
      (True, in_array TokenArrayComma (CHR '','' # b @ r @ t) (off + length a) stk)"
    using More_at [OF assms(1), of "CHR '',''"] by (simp add: isSpace_def)
  have p: "tokenPrepareForDecode (in_array TokenArrayComma (CHR '','' # b @ r @ t) (off + length a) stk) =
      (None, in_array TokenArrayValue (b @ r @ t) (off + length a + 1) stk)"
    by (simp add: tokenPrepareForDecode_def peek_def isSpace_def dec_skip_def)
  have d: "Decode (in_array TokenArrayComma (CHR '','' # b @ r @ t) (off + length a) stk) =
      Decode (in_array TokenArrayValue (b @ r @ t) (off + length a + 1) stk)"
  proof -
    have p2: "tokenPrepareForDecode (in_array TokenArrayValue (b @ r @ t) (off + length a + 1) stk) =
        (None, in_array TokenArrayValue (b @ r @ t) (off + length a + 1) stk)"
      by (simp add: tokenPrepareForDecode_def)
    show ?thesis unfolding Decode_def p p2 by simp
  qed
  have "is_object_raw r" using json_object_hd [OF assms(3)] by (cases r) (auto simp: is_object_raw_def)
  then show ?thesis
    using Decode_object [OF assms(2,3), of TokenArrayValue t "off + length a + 1" stk]
    by (subst array_elems.simps) (simp add: m d)
qed

section \<open>Records\<close>

text \<open>
  What may stand behind the last complete record while a document is being written: nothing, the
  end of the array, or a comma and the beginning of a record.
\<close>

definition no_object :: "bytes \<Rightarrow> bool" where
  "no_object v =
     (let x = dropWhile isSpace v
      in x = [] \<or> hd x = CHR '']'' \<or> (\<exists>q. q \<noteq> [] \<and> json_object (x @ q)))"

definition quiet :: "bytes \<Rightarrow> bool" where
  "quiet t =
     (let u = dropWhile isSpace t
      in u = [] \<or> hd u = CHR '']'' \<or> hd u = CHR '','' \<and> no_object (tl u))"

lemma readValue_close: "readValue (CHR '']'' # s) = Inl JSyntax"
  by (simp add: readValue_def scanner_defs)

lemma readValue_empty: "readValue [] = Inl JEOF"
  by (simp add: readValue_def scanner_defs)

lemma More_blank:
  assumes "dropWhile isSpace s = []"
  shows "More (in_array st s off stk) = (False, in_array st s off stk)"
proof -
  have "takeWhile isSpace s = s" using assms takeWhile_dropWhile_id [of isSpace s] by simp
  then have "drop (length (takeWhile isSpace s)) s = []" by (metis drop_all order_refl)
  then show ?thesis unfolding More_def peek_def by (simp add: Let_def)
qed

lemma no_object_read: "no_object v \<Longrightarrow> \<exists>e. readValue v = Inl e"
proof -
  assume no: "no_object v"
  obtain a where a: "spaces a" "v = a @ dropWhile isSpace v" by (rule split_spaces)
  let ?x = "dropWhile isSpace v"
  have "\<exists>e. readValue ?x = Inl e"
  proof (cases "?x = []")
    case False
    with no consider "hd ?x = CHR '']''" | q where "q \<noteq> []" "json_object (?x @ q)"
      by (auto simp: no_object_def Let_def)
    then show ?thesis
    proof cases
      case 1
      with False obtain s where "?x = CHR '']'' # s" by (cases ?x) auto
      then show ?thesis by (simp add: readValue_close)
    next
      case 2
      with json_object_cut False show ?thesis by blast
    qed
  next
    case True
    then show ?thesis by (metis readValue_empty)
  qed
  with readValue_spaces(2) [OF a(1)] a(2) show ?thesis by metis
qed

lemma elems_quiet_start:
  assumes "no_object v"
  shows "array_elems (in_array TokenArrayStart v off stk) l = ([], l)"
proof -
  obtain a where a: "spaces a" "v = a @ dropWhile isSpace v" by (rule split_spaces)
  show ?thesis
  proof (cases "dropWhile isSpace v")
    case Nil
    then show ?thesis by (subst array_elems.simps, subst More_blank) simp_all
  next
    case (Cons c x)
    have c: "\<not> isSpace c" using Cons hd_dropWhile [of isSpace v] by simp
    have no: "no_object (c # x)" using assms Cons c by (simp add: no_object_def)
    have m: "More (in_array TokenArrayStart v off stk) =
        (c \<noteq> CHR '']'' \<and> c \<noteq> CHR ''}'', in_array TokenArrayStart (c # x) (off + length a) stk)"
      using More_at [OF a(1) c, where st = TokenArrayStart and s = x and off = off and stk = stk] a(2) Cons by simp
    obtain e where "readValue (c # x) = Inl e" using no_object_read [OF no] by blast
    then show ?thesis
      by (subst array_elems.simps)
         (auto simp: m Decode_def tokenPrepareForDecode_def tokenValueAllowed_def split: bool.splits)
  qed
qed

lemma elems_quiet_comma:
  assumes "quiet t"
  shows "array_elems (in_array TokenArrayComma t off stk) l = ([], l)"
proof -
  obtain a where a: "spaces a" "t = a @ dropWhile isSpace t" by (rule split_spaces)
  show ?thesis
  proof (cases "dropWhile isSpace t")
    case Nil
    then show ?thesis by (subst array_elems.simps, subst More_blank) simp_all
  next
    case (Cons c x)
    have c: "\<not> isSpace c" using Cons hd_dropWhile [of isSpace t] by simp
    have m: "More (in_array TokenArrayComma t off stk) =
        (c \<noteq> CHR '']'' \<and> c \<noteq> CHR ''}'', in_array TokenArrayComma (c # x) (off + length a) stk)"
      using More_at [OF a(1) c, where st = TokenArrayComma and s = x and off = off and stk = stk] a(2) Cons by simp
    from assms Cons consider "c = CHR '']''" | "c = CHR '',''" "no_object x"
      by (auto simp: quiet_def Let_def)
    then show ?thesis
    proof cases
      case 2
      obtain e where "readValue x = Inl e" using no_object_read [OF 2(2)] by blast
      with 2 show ?thesis
        by (subst array_elems.simps)
           (simp add: m Decode_def tokenPrepareForDecode_def tokenValueAllowed_def peek_def isSpace_def dec_skip_def)
    qed (subst array_elems.simps, simp add: m)
  qed
qed

text \<open>The records of an array, each with what separates it from what is before it.\<close>

definition next_sep :: "bytes \<Rightarrow> bool" where
  "next_sep s = (\<exists>a b. s = a @ CHR '','' # b \<and> spaces a \<and> spaces b)"

definition items_text :: "(bytes \<times> bytes) list \<Rightarrow> bytes" where
  "items_text its = concat (map (\<lambda>(s, r). s @ r) its)"

lemma items_text_simps [simp]: "items_text [] = []" "items_text ((s, r) # its) = s @ r @ items_text its"
  "items_text (xs @ ys) = items_text xs @ items_text ys"
  by (simp_all add: items_text_def)

definition good_items :: "(bytes \<times> bytes) list \<Rightarrow> bool" where
  "good_items its = (\<forall>(s, r)\<in>set its. next_sep s \<and> json_object r)"

lemma elems_items_comma:
  "good_items its \<Longrightarrow> quiet t \<Longrightarrow> array_elems (in_array TokenArrayComma (items_text its @ t) off stk) l =
     (map snd its, if its = [] then l else off + length (items_text its) - 1)"
proof (induction its arbitrary: off l)
  case (Cons x its)
  obtain s r where x: "x = (s, r)" by (cases x)
  obtain a b where s: "s = a @ CHR '','' # b" "spaces a" "spaces b" and r: "json_object r"
    using Cons.prems(1) x by (auto simp: good_items_def next_sep_def)
  have its: "good_items its" using Cons.prems(1) by (simp add: good_items_def)
  have "in_array TokenArrayComma (items_text (x # its) @ t) off stk =
      in_array TokenArrayComma (a @ CHR '','' # b @ r @ items_text its @ t) off stk"
    by (simp add: x s)
  then show ?case
    using Cons.IH [OF its Cons.prems(2)] elems_comma [OF s(2,3) r, of "items_text its @ t" off stk l]
    by (simp add: x s(1))
qed (simp add: elems_quiet_comma)

lemma elems_items_start:
  assumes "spaces s" and "json_object r" and "good_items its" and "quiet t"
  shows "array_elems (in_array TokenArrayStart (s @ r @ items_text its @ t) off stk) l =
    (r # map snd its, off + length s + length r + length (items_text its) - 1)"
proof -
  have "0 < length r" using json_object_hd [OF assms(2)] by simp
  then show ?thesis
    using elems_start [OF assms(1,2), of "items_text its @ t" off stk l]
      elems_items_comma [OF assms(3,4)] by simp
qed

lemma array_decoder: "snd (Token (NewDecoder (CHR ''['' # s))) = in_array TokenArrayStart s 1 [TokenTopValue]"
  by (simp add: Token_bracket)

lemma trim_comma_item:
  assumes "spaces a" "spaces b"
  shows "trim_comma ((a @ CHR '','' # b) @ s) = b @ s"
  using dropWhile_spaces [OF assms(1), of "CHR '','' # b @ s"] by (simp add: trim_comma_def isSpace_def)

lemma trim_comma_quiet:
  assumes "quiet t"
  shows "no_object (trim_comma t)"
proof (cases "dropWhile isSpace t")
  case Nil
  have "trim_comma t = []" unfolding trim_comma_def Nil by simp
  then show ?thesis by (simp add: no_object_def)
next
  case (Cons c x)
  have c: "\<not> isSpace c" using Cons hd_dropWhile [of isSpace t] by simp
  from assms Cons consider "c = CHR '']''" | "c = CHR '',''" "no_object x" by (auto simp: quiet_def Let_def)
  then show ?thesis using Cons c by cases (auto simp: trim_comma_def no_object_def)
qed

text \<open>A delta in the middle of the array, and one from the start of the document.\<close>

lemma split_continued:
  assumes "good_items its" and "quiet t"
  shows "SplitRecordsJSONDelta (items_text its @ t) False =
    (if its = [] then (None, 0) else (Some (reframe (map snd its)), length (items_text its)))"
proof (cases its)
  case Nil
  then show ?thesis
    using elems_quiet_start [OF trim_comma_quiet [OF assms(2)], of 1 "[TokenTopValue]" 0]
    by (simp add: SplitRecordsJSONDelta_def array_decoder Let_def)
next
  case (Cons x its')
  obtain s r where x: "x = (s, r)" by (cases x)
  obtain a b where s: "s = a @ CHR '','' # b" "spaces a" "spaces b" and r: "json_object r"
    using assms(1) Cons x by (auto simp: good_items_def next_sep_def)
  have its': "good_items its'" using assms(1) Cons by (simp add: good_items_def)
  have body: "trim_comma (a @ CHR '','' # b @ r @ items_text its' @ t) = b @ r @ items_text its' @ t"
    using trim_comma_item [OF s(2,3), of "r @ items_text its' @ t"] by simp
  show ?thesis
    using elems_items_start [OF s(3) r its' assms(2), of 1 "[TokenTopValue]" 0]
    by (simp add: SplitRecordsJSONDelta_def body array_decoder Let_def Cons x s(1))
qed

definition envelope :: "bytes \<Rightarrow> bool" where
  "envelope env = (\<forall>x. recordsArrayBody (env @ x) = Some x)"

lemma split_started:
  assumes "envelope env" and "spaces s" and "json_object r" and "good_items its" and "quiet t"
  shows "SplitRecordsJSONDelta (env @ s @ r @ items_text its @ t) True =
    (Some (reframe (r # map snd its)), length (env @ s @ r @ items_text its))"
  using elems_items_start [OF assms(2-5), of 1 "[TokenTopValue]" 0] assms(1)
  by (simp add: SplitRecordsJSONDelta_def envelope_def array_decoder Let_def)

lemma split_unstarted:
  assumes "recordsArrayBody s = None \<or> envelope env \<and> (\<exists>t. s = env @ t \<and> no_object t)"
  shows "SplitRecordsJSONDelta s True = (None, 0)"
  using assms by (auto simp: SplitRecordsJSONDelta_def envelope_def array_decoder elems_quiet_start Let_def)

definition good_array :: "(bytes \<times> bytes) list \<Rightarrow> bool" where
  "good_array its =
     (case its of [] \<Rightarrow> True | (s, r) # rest \<Rightarrow> spaces s \<and> json_object r \<and> good_items rest)"

definition written :: "bytes \<Rightarrow> (bytes \<times> bytes) list \<Rightarrow> nat \<Rightarrow> bytes" where
  "written env its k = (if k = 0 then [] else env @ items_text (take k its))"

text \<open>
  The content shows exactly the first \<open>k\<close> records of the document: the document may end in the
  middle of the envelope or of the next record, or be closed behind the \<open>k\<close>-th.
\<close>

definition holds_records :: "bytes \<Rightarrow> (bytes \<times> bytes) list \<Rightarrow> bytes \<Rightarrow> nat \<Rightarrow> bool" where
  "holds_records env its s k =
     (k \<le> length its
      \<and> (if k = 0 then recordsArrayBody s = None \<or> (\<exists>t. s = env @ t \<and> no_object t)
         else \<exists>t. s = env @ items_text (take k its) @ t \<and> quiet t))"

lemma good_array_drop: "good_array its \<Longrightarrow> 0 < j \<Longrightarrow> good_items (drop j (take k its))"
  by (cases its; cases j) (auto simp: good_array_def good_items_def take_Cons' dest!: in_set_dropD in_set_takeD)

lemma take_split: "j \<le> k \<Longrightarrow> take k xs = take j xs @ drop j (take k xs)"
  by (metis append_take_drop_id min.absorb1 take_take)

lemma good_array_objects: "good_array its \<Longrightarrow> x \<in> set its \<Longrightarrow> json_object (snd x)"
  by (cases its) (auto simp: good_array_def good_items_def)

lemma items_text_nonempty:
  assumes "good_array its" and "j < k" and "k \<le> length its"
  shows "items_text (drop j (take k its)) \<noteq> []"
proof -
  have "snd (its ! j) \<noteq> []"
    using good_array_objects [OF assms(1), of "its ! j"] assms json_object_hd by auto
  moreover have "its ! j \<in> set (drop j (take k its))"
    using assms by (auto simp: in_set_conv_nth intro!: exI [of _ 0])
  ultimately show ?thesis unfolding items_text_def by (cases "its ! j") fastforce
qed

lemma written_split:
  "0 < j \<Longrightarrow> j \<le> k \<Longrightarrow> written env its k = written env its j @ items_text (drop j (take k its))"
  using arg_cong [OF take_split [of j k its], of items_text] by (simp add: written_def)

lemma written_nonempty:
  assumes "good_array its" and "0 < k" and "k \<le> length its"
  shows "written env its k \<noteq> []"
  using items_text_nonempty [OF assms(1), of 0 k] assms(2,3) by (simp add: written_def)

lemma written_strict:
  assumes "good_array its" and "j < k" and "k \<le> length its"
  shows "strict_prefix (written env its j) (written env its k)"
proof (cases "j = 0")
  case True
  with written_nonempty [OF assms(1), of k env] assms(2,3) show ?thesis
    by (auto simp: written_def strict_prefix_def)
next
  case False
  with written_split [of j k env its] items_text_nonempty [OF assms] assms(2) show ?thesis
    by (auto simp: strict_prefix_def)
qed

lemma records_from_start:
  assumes "envelope env" and "good_array its" and "0 < k" and "k \<le> length its" and "quiet t"
  shows "SplitRecordsJSONDelta (env @ items_text (take k its) @ t) True =
    (Some (reframe (map snd (take k its))), length (written env its k))"
proof -
  obtain x rest where its: "its = x # rest" using assms(3,4) by (cases its) auto
  obtain s r where x: "x = (s, r)" by (cases x)
  obtain k' where k: "k = Suc k'" using assms(3) by (cases k) auto
  have "good_items (take k' rest)" "spaces s" "json_object r"
    using assms(2) by (auto simp: its x good_array_def good_items_def dest: in_set_takeD)
  from split_started [OF assms(1) this(2,3,1) assms(5)] show ?thesis
    by (simp add: its x k written_def)
qed

lemma records_continued:
  assumes "good_array its" and "0 < j" and "j \<le> k" and "k \<le> length its" and "quiet t"
  shows "SplitRecordsJSONDelta (drop (length (written env its j)) (env @ items_text (take k its) @ t)) False =
    (if j = k then (None, 0)
     else (Some (reframe (map snd (drop j (take k its)))), length (written env its k) - length (written env its j)))"
proof -
  have "written env its k = env @ items_text (take k its)" using assms(2,3) by (simp add: written_def)
  then have eq: "env @ items_text (take k its) @ t = written env its j @ items_text (drop j (take k its)) @ t"
    using written_split [OF assms(2,3), of env its] by simp
  have d: "drop (length (written env its j)) (env @ items_text (take k its) @ t) =
      items_text (drop j (take k its)) @ t" unfolding eq by simp
  have e: "drop j (take k its) = [] \<longleftrightarrow> j = k" using assms(3,4) by auto
  show ?thesis
    using split_continued [OF good_array_drop [OF assms(1,2), of k] assms(5)] e
    by (simp only: d) (auto simp: written_split [OF assms(2,3)])
qed

end
