(* ===== verification/AzureTail.thy ===== *)
theory AzureTail
  imports AzurePoll BlobDelta
begin

text \<open>
  Exactly-once reading of a blob that grows. The visits of one blob by the polling receiver, with
  faults of the service and of the pipeline at every call, deliver every complete line (or every
  record of a records document) exactly once. The formats meet the reader in the locale
  \<open>growing\<close>: what a blob has committed is a sequence of units, and a delta is split at a unit.
\<close>

section \<open>A blob and its visits\<close>

text \<open>
  One visit: the content the service holds, the listed time, and the faults, of the read of the
  head, of the read of the rest, of the consumer and of the deletion. The world keeps what was
  delivered and every deletion that was tried, with its success.
\<close>

record visit =
  vi_content :: bytes
  vi_time :: gotime
  vi_headErr :: "az_err option"
  vi_bodyErr :: "az_err option"
  vi_consumeErr :: "az_err option"
  vi_deleteErr :: "az_err option"

record blob_world =
  bw_visit :: visit
  bw_delivered :: "bytes list"
  bw_deletes :: "(string \<times> bool) list"

text \<open>
  The service as documented: a range that starts at or behind the end is refused with
  \<open>InvalidRange\<close>, so is any range of an empty blob; a read from 0 to the end is no range.
\<close>

definition range_of :: "bytes \<Rightarrow> int \<Rightarrow> int \<Rightarrow> az_err + bytes \<times> int" where
  "range_of content offset cnt =
     (if (offset > 0 \<or> cnt > 0) \<and> offset \<ge> int (length content) then Inl (ResponseError ''InvalidRange'')
      else Inr (if cnt = 0 then drop (nat offset) content else take (nat cnt) (drop (nat offset) content),
                int (length content)))"

definition blob_service :: "blob_world azure_outside" where
  "blob_service =
     \<lparr>azo_range = (\<lambda>name offset cnt w.
        (case (if cnt = 0 then vi_bodyErr (bw_visit w) else vi_headErr (bw_visit w)) of
           Some e \<Rightarrow> Inl e
         | None \<Rightarrow> range_of (vi_content (bw_visit w)) offset cnt, w)),
      azo_download = (\<lambda>name n w. (Inr (vi_content (bw_visit w)), w)),
      azo_delete = (\<lambda>name w.
        (vi_deleteErr (bw_visit w),
         w\<lparr>bw_deletes := bw_deletes w @ [(name, vi_deleteErr (bw_visit w) = None)]\<rparr>)),
      azo_gunzip = (\<lambda>b. Inl (ErrMessage ''gzip'')),
      azo_consume = (\<lambda>payload w.
        (case vi_consumeErr (bw_visit w) of
           Some e \<Rightarrow> (Inl e, w)
         | None \<Rightarrow> (Inr 1, w\<lparr>bw_delivered := bw_delivered w @ [payload]\<rparr>))),
      azo_save = (\<lambda>c w. (None, w))\<rparr>"

fun run_visits :: "azure_config \<Rightarrow> string \<Rightarrow> visit list \<Rightarrow> PollingCheckPoint \<times> blob_world \<Rightarrow> PollingCheckPoint \<times> blob_world" where
  "run_visits cfg name [] s = s"
| "run_visits cfg name (v # vs) (c, w) =
     (case processBlobIncremental cfg blob_service
             \<lparr>bi_Name = name, bi_Size = 0, bi_LastModified = vi_time v\<rparr> c (w\<lparr>bw_visit := v\<rparr>) of
        (res, c1, w1) \<Rightarrow> run_visits cfg name vs (c1, w1))"

definition extension_fits :: "azure_config \<Rightarrow> string \<Rightarrow> bool" where
  "extension_fits cfg name =
     (azc_BlobFormat cfg = BlobFormatRecordsJSON \<or> azc_BlobFormat cfg = BlobFormatJSON \<longrightarrow> ToLower (Ext name) = ''.json'')"

text \<open>The only answer that has the code start over is reserved for ranges behind the end.\<close>

definition proper_faults :: "visit \<Rightarrow> bool" where
  "proper_faults v = (case vi_headErr v of None \<Rightarrow> True | Some e \<Rightarrow> \<not> IsRangeNotSatisfiable e)"

definition fault_free :: "visit \<Rightarrow> bool" where
  "fault_free v = (vi_headErr v = None \<and> vi_bodyErr v = None \<and> vi_consumeErr v = None)"

section \<open>Fingerprints\<close>

lemma HasPrefix_iff: "HasPrefix s p \<longleftrightarrow> prefix p s"
  by (induction s p rule: HasPrefix.induct) auto

lemma SameBlob_iff: "SameBlob stored current \<longleftrightarrow> stored \<noteq> [] \<and> prefix stored current"
  by (auto simp: SameBlob_def HasPrefix_iff dest: prefix_length_le)

lemma fpSize_pos: "16 \<le> fpSize cfg"
  by (simp add: fpSize_def minFingerprintSize_def DefaultFingerprintSize_def)

lemma Fingerprint_take: "Fingerprint s (fpSize cfg) = take (nat (fpSize cfg)) s"
  using fpSize_pos [of cfg] by (auto simp: Fingerprint_def Let_def)

definition fp_fits :: "azure_config \<Rightarrow> bytes \<Rightarrow> bytes \<Rightarrow> bool" where
  "fp_fits cfg text fp = (prefix fp text \<and> int (length fp) \<le> fpSize cfg)"

lemma fp_fits_take: "fp_fits cfg text (take (nat (fpSize cfg)) text)"
  using fpSize_pos [of cfg] by (auto simp: fp_fits_def take_is_prefix)

lemma fp_fits_nil [simp]: "fp_fits cfg text []"
  using fpSize_pos [of cfg] by (simp add: fp_fits_def)

text \<open>The fingerprint after a read identifies the bytes that are then committed.\<close>

lemma next_fingerprint_fits:
  assumes "prefix old content" and "content = new @ t" and "prefix old new" and "fp_fits cfg old fp"
    and "head = [] \<or> head = take (nat (fpSize cfg)) content"
  shows "fp_fits cfg new
    (next_fingerprint cfg (int (length old)) fp head (drop (length old) content) (length new - length old))"
proof -
  obtain d where new: "new = old @ d" using assms(3) by (auto simp: prefix_def)
  have delta: "take (length new - length old) (drop (length old) content) = d"
    using assms(2) new by simp
  have fits: "fp_fits cfg new fp" using assms(4) new by (auto simp: fp_fits_def)
  show ?thesis
  proof (cases "old = []")
    case True
    with delta new show ?thesis by (simp add: next_fingerprint_def Fingerprint_take fp_fits_take)
  next
    case ne: False
    show ?thesis
    proof (cases "int (length fp) < fpSize cfg \<and> length head > 0")
      case True
      then have head: "head = take (nat (fpSize cfg)) content" using assms(5) by auto
      have fp: "next_fingerprint cfg (int (length old)) fp head (drop (length old) content) (length new - length old)
          = take (nat (fpSize cfg)) (if length old \<le> length head then take (length old) head @ d else head)"
        using True ne delta by (simp add: next_fingerprint_def Fingerprint_take)
      show ?thesis
      proof (cases "length old \<le> length head")
        case True
        then have "length old \<le> nat (fpSize cfg)" by (simp add: head)
        then have "take (length old) head = take (length old) content" by (simp add: head min_def)
        also have "\<dots> = old" by (simp add: assms(2) new)
        finally show ?thesis using True fp new fp_fits_take [of cfg new] by simp
      next
        case False
        then have "length head = nat (fpSize cfg)" and "nat (fpSize cfg) \<le> length old"
          using head assms(1) by (auto simp: min_def dest: prefix_length_le split: if_splits)
        then have "head = take (nat (fpSize cfg)) new" using head assms(2) new by simp
        moreover have "next_fingerprint cfg (int (length old)) fp head (drop (length old) content)
            (length new - length old) = take (nat (fpSize cfg)) head" using False fp by simp
        ultimately show ?thesis by (simp add: fp_fits_take)
      qed
    next
      case False
      with ne fits show ?thesis by (auto simp: next_fingerprint_def)
    qed
  qed
qed

text \<open>The identity check accepts a blob that still begins with what was read.\<close>

lemma verify_intact:
  assumes pref: "prefix old (vi_content v)" and "fp_fits cfg old fp" and "proper_faults v"
  shows "(\<exists>head. verifyResumeIdentity cfg blob_service name (int (length old)) fp (w\<lparr>bw_visit := v\<rparr>)
            = (Inr (head, False), w\<lparr>bw_visit := v\<rparr>) \<and> (head = [] \<or> head = take (nat (fpSize cfg)) (vi_content v)))
       \<or> (\<exists>e. verifyResumeIdentity cfg blob_service name (int (length old)) fp (w\<lparr>bw_visit := v\<rparr>)
            = (Inl e, w\<lparr>bw_visit := v\<rparr>) \<and> vi_headErr v = Some e \<and> \<not> IsRangeNotSatisfiable e)"
proof (cases "old = [] \<or> fp = [] \<or> azc_AssumeAppendOnly cfg")
  case True
  then show ?thesis by (auto simp: verifyResumeIdentity_def)
next
  case False
  have ne: "vi_content v \<noteq> []" using pref False by auto
  have fpp: "prefix fp (vi_content v)" and fpl: "length fp \<le> nat (fpSize cfg)"
    using assms(2) pref fpSize_pos [of cfg] by (auto simp: fp_fits_def intro: prefix_order.trans)
  have same: "SameBlob fp (Fingerprint (take (nat (fpSize cfg)) (vi_content v)) (fpSize cfg))"
    using fpp fpl False
    by (auto simp: SameBlob_iff Fingerprint_take prefix_def)
  have sz: "\<not> int (length (vi_content v)) < int (length old)"
    using prefix_length_le [OF pref] by simp
  have range: "range_of (vi_content v) 0 (fpSize cfg) =
      Inr (take (nat (fpSize cfg)) (vi_content v), int (length (vi_content v)))"
    using ne fpSize_pos [of cfg] by (simp add: range_of_def)
  show ?thesis
  proof (cases "vi_headErr v")
    case None
    with False same sz range fpSize_pos [of cfg] show ?thesis
      by (simp add: verifyResumeIdentity_def blob_service_def)
  next
    case (Some e)
    with False assms(3) fpSize_pos [of cfg] show ?thesis
      by (simp add: verifyResumeIdentity_def blob_service_def proper_faults_def)
  qed
qed

section \<open>The contract of a format\<close>

text \<open>
  \<open>pre k\<close> is what a blob holds when \<open>k\<close> units are complete, and \<open>shows s k\<close> says that of the
  content \<open>s\<close> these are the complete units. A delta behind \<open>j\<close> units is consumed in one payload up
  to the last complete unit.
\<close>

definition split_delta :: "azure_config \<Rightarrow> bytes \<Rightarrow> bool \<Rightarrow> bytes option \<times> nat" where
  "split_delta cfg delta atStart =
     (if azc_BlobFormat cfg = BlobFormatRecordsJSON then SplitRecordsJSONDelta delta atStart
      else if snd (SplitLineDelta delta) = 0 then (None, 0)
      else (Some (fst (SplitLineDelta delta)), snd (SplitLineDelta delta)))"

lemma consumeDelta_split:
  "consumeDelta cfg out delta atStart w =
     (case split_delta cfg delta atStart of
        (None, n) \<Rightarrow> (Inr (n, False), w)
      | (Some p, n) \<Rightarrow>
          (case azo_consume out p w of
             (Inl e, w1) \<Rightarrow> (Inl e, w1)
           | (Inr emitted, w1) \<Rightarrow> (Inr (n, emitted > 0), w1)))"
  by (cases "SplitLineDelta delta") (simp add: consumeDelta_def split_delta_def split: prod.splits)

locale growing =
  fixes cfg :: azure_config
    and pre :: "nat \<Rightarrow> bytes"
    and shows' :: "bytes \<Rightarrow> nat \<Rightarrow> bool"
    and payload :: "nat \<Rightarrow> nat \<Rightarrow> bytes"
  assumes pre_0: "pre 0 = []"
    and pre_less: "shows' s k \<Longrightarrow> j < k \<Longrightarrow> strict_prefix (pre j) (pre k)"
    and shows_pre: "shows' s k \<Longrightarrow> prefix (pre k) s"
    and nothing_new: "shows' s k \<Longrightarrow> split_delta cfg (drop (length (pre k)) s) (pre k = []) = (None, 0)"
    and new_units: "shows' s k \<Longrightarrow> j < k \<Longrightarrow>
      split_delta cfg (drop (length (pre j)) s) (pre j = []) = (Some (payload j k), length (pre k) - length (pre j))"
begin

definition at_unit :: "string \<Rightarrow> PollingCheckPoint \<Rightarrow> nat \<Rightarrow> bool" where
  "at_unit name c j =
     (bp_Offset (progress_or_zero c name) = int (length (pre j))
      \<and> fp_fits cfg (pre j) (bp_Fingerprint (progress_or_zero c name)))"

lemma at_unit_update: "int (length (pre j)) = off \<Longrightarrow> fp_fits cfg (pre j) fp \<Longrightarrow>
    at_unit name (UpdateProgress name (no_progress\<lparr>bp_Offset := off, bp_Fingerprint := fp, bp_LastModified := t\<rparr>) c) j"
  by (simp add: at_unit_def progress_or_zero_def ProgressFor_def UpdateProgress_def)

lemma at_unit_quarantine: "at_unit name (quarantineBlob name t c) j = at_unit name c j"
  by (simp add: at_unit_def quarantineBlob_def progress_or_zero_def ProgressFor_def UpdateProgress_def)

lemma at_unit_track:
  "at_unit (bi_Name b) c j \<Longrightarrow> pre j = [] \<Longrightarrow> at_unit (bi_Name b) (trackNeverReadFailure b e c) j"
  by (simp add: at_unit_def trackNeverReadFailure_def progress_or_zero_def ProgressFor_def UpdateProgress_def
      no_progress_def)

lemma pre_le: "shows' s k \<Longrightarrow> j \<le> k \<Longrightarrow> prefix (pre j) (pre k)"
  using pre_less [of s k j] by (cases "j = k") (auto simp: strict_prefix_def)

lemma verify_accepts:
  assumes "shows' (vi_content v) k" and "j \<le> k" and "fp_fits cfg (pre j) fp" and "proper_faults v"
  shows "(\<exists>head. verifyResumeIdentity cfg blob_service name (int (length (pre j))) fp (w\<lparr>bw_visit := v\<rparr>)
            = (Inr (head, False), w\<lparr>bw_visit := v\<rparr>) \<and> (head = [] \<or> head = take (nat (fpSize cfg)) (vi_content v)))
       \<or> (\<exists>e. verifyResumeIdentity cfg blob_service name (int (length (pre j))) fp (w\<lparr>bw_visit := v\<rparr>)
            = (Inl e, w\<lparr>bw_visit := v\<rparr>) \<and> \<not> IsRangeNotSatisfiable e \<and> \<not> fault_free v)"
proof -
  have "prefix (pre j) (vi_content v)"
    using pre_le [OF assms(1,2)] shows_pre [OF assms(1)] by (rule prefix_order.trans)
  from verify_intact [OF this assms(3,4), of name w] show ?thesis by (auto simp: fault_free_def)
qed

end

section \<open>One visit\<close>

lemma consume_nothing: "consumeDelta cfg out [] b w = (Inr (0, False), w)"
  by (simp add: consumeDelta_def SplitRecordsJSONDelta_def recordsArrayBody_def Token_nil Token_bracket
      array_elems.simps More_nil SplitLineDelta_def LastIndexByte_def)

lemma next_fingerprint_take:
  "take n d = take n d' \<Longrightarrow> next_fingerprint cfg off fp head d n = next_fingerprint cfg off fp head d' n"
  by (simp add: next_fingerprint_def)

context growing
begin

definition visited :: "string \<Rightarrow> visit \<Rightarrow> nat \<Rightarrow> nat \<Rightarrow> blob_world \<Rightarrow> PollingCheckPoint \<Rightarrow> blob_world \<Rightarrow> bool" where
  "visited name v j k w c1 w1 =
     ((at_unit name c1 j \<and> bw_delivered w1 = bw_delivered w \<and> (fault_free v \<longrightarrow> j = k))
      \<or> (at_unit name c1 k \<and> j < k \<and> bw_delivered w1 = bw_delivered w @ [payload j k]))"

lemma kept_fingerprint:
  assumes "shows' (vi_content v) k" and "j \<le> k" and "fp_fits cfg (pre j) fp"
    and "head = [] \<or> head = take (nat (fpSize cfg)) (vi_content v)"
  shows "fp_fits cfg (pre j) (next_fingerprint cfg (int (length (pre j))) fp head d 0)"
proof -
  have p: "prefix (pre j) (vi_content v)"
    using pre_le [OF assms(1,2)] shows_pre [OF assms(1)] by (rule prefix_order.trans)
  then obtain t where "vi_content v = pre j @ t" by (auto simp: prefix_def)
  from next_fingerprint_fits [OF p this _ assms(3,4)] show ?thesis
    by (simp add: next_fingerprint_take [of 0 d "drop (length (pre j)) (vi_content v)"])
qed

lemma grown_fingerprint:
  assumes "shows' (vi_content v) k" and "j < k" and "fp_fits cfg (pre j) fp"
    and "head = [] \<or> head = take (nat (fpSize cfg)) (vi_content v)"
  shows "fp_fits cfg (pre k) (next_fingerprint cfg (int (length (pre j))) fp head
     (drop (length (pre j)) (vi_content v)) (length (pre k) - length (pre j)))"
proof -
  have pk: "prefix (pre k) (vi_content v)" and pjk: "prefix (pre j) (pre k)"
    using shows_pre [OF assms(1)] pre_le [OF assms(1), of j] assms(2) by auto
  then obtain t where t: "vi_content v = pre k @ t" by (auto simp: prefix_def)
  from next_fingerprint_fits [OF prefix_order.trans [OF pjk pk] t pjk assms(3,4)] show ?thesis .
qed

lemma read_step:
  assumes unit: "at_unit (bi_Name b) c j" and sh: "shows' (vi_content v) k" and jk: "j \<le> k"
    and fp: "fp_fits cfg (pre j) fp" and head: "head = [] \<or> head = take (nat (fpSize cfg)) (vi_content v)"
    and run: "read_and_consume cfg blob_service b (int (length (pre j))) fp head c (w\<lparr>bw_visit := v\<rparr>) = (res, c1, w1)"
  shows "visited (bi_Name b) v j k w c1 w1"
proof -
  let ?w = "w\<lparr>bw_visit := v\<rparr>" and ?off = "int (length (pre j))"
  have off0: "length (pre j) = 0 \<longleftrightarrow> pre j = []" by simp
  have pjk: "length (pre j) < length (pre k)" if "j \<noteq> k"
    using pre_less [OF sh, of j] jk that prefix_length_less by fastforce
  have pk: "length (pre k) \<le> length (vi_content v)" using prefix_length_le [OF shows_pre [OF sh]] .
  define after where "after delta = (case consumeDelta cfg blob_service delta (?off = 0) ?w of
      (Inl err, w2) \<Rightarrow> (Inl err, if ?off = 0 then trackNeverReadFailure b err c else c, w2)
    | (Inr (bytesConsumed, emitted), w2) \<Rightarrow>
        if azc_BlobFormat cfg = BlobFormatRecordsJSON \<and> bytesConsumed = 0 \<and> RecordsJSONDeltaStuck delta (?off = 0)
        then (Inr False, quarantineBlob (bi_Name b) (bi_LastModified b) c, w2)
        else (Inr emitted, UpdateProgress (bi_Name b)
               (no_progress\<lparr>bp_Offset := ?off + int bytesConsumed,
                  bp_Fingerprint := next_fingerprint cfg ?off fp head delta bytesConsumed,
                  bp_LastModified := bi_LastModified b\<rparr>) c, w2))" for delta
  have unchanged: "visited (bi_Name b) v j k w c1 w1"
    if "consumeDelta cfg blob_service delta (?off = 0) ?w = (Inr (0, False), ?w)" and "after delta = (res, c1, w1)"
      and "fault_free v \<Longrightarrow> j = k" for delta
    using that unit kept_fingerprint [OF sh jk fp head, of delta]
    by (auto simp: after_def visited_def at_unit_quarantine intro!: at_unit_update split: if_splits)
  have none: "visited (bi_Name b) v j k w c1 w1"
    if "after [] = (res, c1, w1)" and "fault_free v \<Longrightarrow> j = k"
    by (rule unchanged [OF consume_nothing that(1)]) (rule that(2))
  show ?thesis
  proof (cases "vi_bodyErr v")
    case (Some e)
    then have rng: "azo_range blob_service (bi_Name b) ?off 0 ?w = (Inl e, ?w)" by (simp add: blob_service_def)
    have "\<not> fault_free v" using Some by (simp add: fault_free_def)
    then show ?thesis
      using run unit rng none
      unfolding read_and_consume_def rng Let_def prod.case sum.case after_def [symmetric]
      by (auto simp: visited_def at_unit_quarantine at_unit_track quarantineOnPermanentReadError_def
          split: if_splits)
  next
    case None
    show ?thesis
    proof (cases "?off > 0 \<and> ?off \<ge> int (length (vi_content v))")
      case True
      then have rng: "azo_range blob_service (bi_Name b) ?off 0 ?w = (Inl (ResponseError ''InvalidRange''), ?w)"
        using None by (simp add: blob_service_def range_of_def)
      have "j = k" using True pjk pk by (cases "j = k") auto
      moreover have "after [] = (res, c1, w1)"
        using run unfolding read_and_consume_def rng Let_def prod.case sum.case after_def [symmetric]
        by (simp add: IsBlobNotFound_def IsRangeNotSatisfiable_def HasCode_def)
      ultimately show ?thesis using none by simp
    next
      case False
      then have rng: "azo_range blob_service (bi_Name b) ?off 0 ?w =
          (Inr (drop (length (pre j)) (vi_content v), int (length (vi_content v))), ?w)"
        using None by (auto simp: blob_service_def range_of_def)
      have af: "after (drop (length (pre j)) (vi_content v)) = (res, c1, w1)"
        using run unfolding read_and_consume_def rng Let_def prod.case sum.case after_def [symmetric] .
      show ?thesis
      proof (cases "j = k")
        case True
        then have "consumeDelta cfg blob_service (drop (length (pre j)) (vi_content v)) (?off = 0) ?w
            = (Inr (0, False), ?w)"
          using nothing_new [OF sh] by (simp add: consumeDelta_split)
        from unchanged [OF this af True] show ?thesis .
      next
        case ne: False
        then have lt: "j < k" using jk by simp
        show ?thesis
        proof (cases "vi_consumeErr v")
          case (Some e)
          with af new_units [OF sh lt] unit at_unit_track [OF unit] show ?thesis
            by (auto simp: consumeDelta_split after_def blob_service_def visited_def fault_free_def
                split: if_splits)
        next
          case None
          with af new_units [OF sh lt] pjk [OF ne] grown_fingerprint [OF sh lt fp head] lt
          show ?thesis
            by (auto simp: consumeDelta_split after_def blob_service_def visited_def intro!: at_unit_update)
        qed
      qed
    qed
  qed
qed

end

section \<open>All visits\<close>

text \<open>The payloads of a sequence of deliveries that end at the given units.\<close>

fun segments :: "(nat \<Rightarrow> nat \<Rightarrow> 'p) \<Rightarrow> nat \<Rightarrow> nat list \<Rightarrow> 'p list" where
  "segments f j [] = []"
| "segments f j (k # ks) = f j k # segments f k ks"

context growing
begin

lemma visit_step:
  assumes "at_unit name c j" and "shows' (vi_content v) k" and "j \<le> k" and "proper_faults v"
    and "extension_fits cfg name"
    and run: "processBlobIncremental cfg blob_service \<lparr>bi_Name = name, bi_Size = 0, bi_LastModified = vi_time v\<rparr> c
         (w\<lparr>bw_visit := v\<rparr>) = (res, c1, w1)"
  shows "visited name v j k w c1 w1"
proof -
  let ?b = "\<lparr>bi_Name = name, bi_Size = 0, bi_LastModified = vi_time v\<rparr>" and ?w = "w\<lparr>bw_visit := v\<rparr>"
  let ?fp = "bp_Fingerprint (progress_or_zero c name)"
  have off: "bp_Offset (progress_or_zero c name) = int (length (pre j))" and fp: "fp_fits cfg (pre j) ?fp"
    using assms(1) by (auto simp: at_unit_def)
  have ext: "\<not> ((azc_BlobFormat cfg = BlobFormatRecordsJSON \<or> azc_BlobFormat cfg = BlobFormatJSON)
      \<and> ToLower (Ext name) \<noteq> ''.json'')" using assms(5) by (auto simp: extension_fits_def)
  from verify_accepts [OF assms(2,3) fp assms(4), of name w]
  consider (ok) head where "verifyResumeIdentity cfg blob_service name (int (length (pre j))) ?fp ?w = (Inr (head, False), ?w)"
      "head = [] \<or> head = take (nat (fpSize cfg)) (vi_content v)"
    | (failed) e where "verifyResumeIdentity cfg blob_service name (int (length (pre j))) ?fp ?w = (Inl e, ?w)"
      "\<not> IsRangeNotSatisfiable e" "\<not> fault_free v" by blast
  then show ?thesis
  proof cases
    case (ok head)
    note ver = ok(1) and head = ok(2)
    from run have "read_and_consume cfg blob_service ?b (int (length (pre j))) ?fp head c ?w = (res, c1, w1)"
      using ext by (auto simp: processBlobIncremental_def Let_def off ver)
    from read_step [OF _ assms(2,3) fp head this] assms(1) show ?thesis by simp
  next
    case (failed e)
    note ver = failed(1) and e = failed(2,3)
    from run e assms(1) ext show ?thesis
      by (auto simp: processBlobIncremental_def Let_def off ver visited_def at_unit_quarantine
          quarantineOnPermanentReadError_def split: if_splits)
  qed
qed

lemma visits_exact:
  "run_visits cfg name vs (c, w) = (c1, w1) \<Longrightarrow> at_unit name c j \<Longrightarrow> extension_fits cfg name \<Longrightarrow>
     list_all2 (\<lambda>v k. shows' (vi_content v) k \<and> proper_faults v) vs ks \<Longrightarrow> sorted (j # ks) \<Longrightarrow>
   \<exists>cuts. sorted_wrt (<) (j # cuts) \<and> set cuts \<subseteq> set ks \<and> at_unit name c1 (last (j # cuts))
     \<and> bw_delivered w1 = bw_delivered w @ segments payload j cuts
     \<and> (vs \<noteq> [] \<longrightarrow> fault_free (last vs) \<longrightarrow> last (j # cuts) = last ks)"
proof (induction vs arbitrary: c w j ks)
  case Nil
  then show ?case by (intro exI [of _ "[]"]) simp
next
  case (Cons v vs)
  obtain k ks' where ks: "ks = k # ks'" using Cons.prems(4) by (cases ks) auto
  have sh: "shows' (vi_content v) k" "proper_faults v" and jk: "j \<le> k" using Cons.prems(4,5) ks by auto
  obtain res c' w' where r: "processBlobIncremental cfg blob_service
      \<lparr>bi_Name = name, bi_Size = 0, bi_LastModified = vi_time v\<rparr> c (w\<lparr>bw_visit := v\<rparr>) = (res, c', w')"
    by (metis prod_cases3)
  have run: "run_visits cfg name vs (c', w') = (c1, w1)" using Cons.prems(1) r by simp
  have step: "visited name v j k w c' w'" by (rule visit_step [OF Cons.prems(2) sh(1) jk sh(2) Cons.prems(3) r])
  then consider (same) "at_unit name c' j" "bw_delivered w' = bw_delivered w" "fault_free v \<longrightarrow> j = k"
    | (adv) "at_unit name c' k" "j < k" "bw_delivered w' = bw_delivered w @ [payload j k]"
    by (auto simp: visited_def)
  then show ?case
  proof cases
    case same
    from Cons.IH [OF run same(1) Cons.prems(3), of ks'] Cons.prems(4,5) ks
    obtain cuts where c: "sorted_wrt (<) (j # cuts)" "set cuts \<subseteq> set ks'" "at_unit name c1 (last (j # cuts))"
      "bw_delivered w1 = bw_delivered w' @ segments payload j cuts"
      "vs \<noteq> [] \<longrightarrow> fault_free (last vs) \<longrightarrow> last (j # cuts) = last ks'" by auto
    have "vs = [] \<Longrightarrow> ks' = [] \<and> cuts = []" using Cons.prems(4) ks c(2) by auto
    with c same ks Cons.prems(4) show ?thesis by (intro exI [of _ cuts]) (auto simp: list_all2_Cons1)
  next
    case adv
    from Cons.IH [OF run adv(1) Cons.prems(3), of ks'] Cons.prems(4,5) ks
    obtain cuts where c: "sorted_wrt (<) (k # cuts)" "set cuts \<subseteq> set ks'" "at_unit name c1 (last (k # cuts))"
      "bw_delivered w1 = bw_delivered w' @ segments payload k cuts"
      "vs \<noteq> [] \<longrightarrow> fault_free (last vs) \<longrightarrow> last (k # cuts) = last ks'" by auto
    have "vs = [] \<Longrightarrow> ks' = [] \<and> cuts = []" using Cons.prems(4) ks c(2) by auto
    with c adv ks Cons.prems(4) show ?thesis by (intro exI [of _ "k # cuts"]) (auto simp: list_all2_Cons1)
  qed
qed

end

section \<open>Lines\<close>

definition line_cfg :: "azure_config \<Rightarrow> bool" where
  "line_cfg cfg = (azc_BlobFormat cfg \<noteq> BlobFormatRecordsJSON)"

definition shows_lines :: "azure_config \<Rightarrow> bytes \<Rightarrow> bytes \<Rightarrow> nat \<Rightarrow> bool" where
  "shows_lines cfg full s k = (line_cfg cfg \<and> prefix s full \<and> k = count_list s LF)"

lemma shown_prefix: "shows_lines cfg full s k \<Longrightarrow> j \<le> k \<Longrightarrow> upto_lf j full = upto_lf j s"
  by (auto simp: shows_lines_def prefix_def upto_lf_append)

interpretation lines: growing cfg "\<lambda>k. upto_lf k full" "shows_lines cfg full"
    "\<lambda>j k. drop (length (upto_lf j full)) (upto_lf k full)"
  for cfg :: azure_config and full :: bytes
proof
  fix s :: bytes and j k :: nat
  assume sh: "shows_lines cfg full s k"
  then have k: "k = count_list s LF" and cfg: "azc_BlobFormat cfg \<noteq> BlobFormatRecordsJSON"
    by (auto simp: shows_lines_def line_cfg_def)
  show "prefix (upto_lf k full) s" using upto_lf_prefix shown_prefix [OF sh] by simp
  show "split_delta cfg (drop (length (upto_lf k full)) s) (upto_lf k full = []) = (None, 0)"
    using cfg count_drop_upto [of k s] k shown_prefix [OF sh, of k]
    by (simp add: split_delta_def SplitLineDelta_upto)
  assume jk: "j < k"
  note pj = shown_prefix [OF sh, of j] and pk = shown_prefix [OF sh, of k]
  show "strict_prefix (upto_lf j full) (upto_lf k full)"
    using upto_lf_strict [OF jk, of s] k jk pj pk by simp
  have cnt: "count_list (drop (length (upto_lf j s)) s) LF = k - j" using count_drop_upto [of j s] jk k by simp
  have split: "upto_lf k s = upto_lf j s @ upto_lf (k - j) (drop (length (upto_lf j s)) s)"
    by (rule upto_lf_split) (use jk k in auto)
  have ne: "upto_lf (k - j) (drop (length (upto_lf j s)) s) \<noteq> []"
    using upto_lf_last [of "k - j" "drop (length (upto_lf j s)) s"] cnt jk by simp
  show "split_delta cfg (drop (length (upto_lf j full)) s) (upto_lf j full = []) =
      (Some (drop (length (upto_lf j full)) (upto_lf k full)), length (upto_lf k full) - length (upto_lf j full))"
    using cfg ne jk pj pk by (simp add: split_delta_def SplitLineDelta_upto cnt split)
qed simp

lemma concat_segments:
  "sorted_wrt (<) (j # cuts) \<Longrightarrow> (\<And>a b. a \<le> b \<Longrightarrow> b \<in> set (j # cuts) \<Longrightarrow> prefix (p a) (p b)) \<Longrightarrow>
     p j @ concat (segments (\<lambda>a b. drop (length (p a)) (p b)) j cuts) = p (last (j # cuts))"
proof (induction cuts arbitrary: j)
  case (Cons k cuts)
  have jk: "prefix (p j) (p k)" using Cons.prems by auto
  have "p k @ concat (segments (\<lambda>a b. drop (length (p a)) (p b)) k cuts) = p (last (k # cuts))"
    by (rule Cons.IH) (use Cons.prems in auto)
  with jk show ?case by (auto simp: prefix_def)
qed simp

text \<open>
  C1. A blob of lines that another program keeps appending to is read exactly once. Whatever the
  growing prefixes are that the visits find, and whichever reads of the head, reads of the rest
  and deliveries fail at each of them, the bytes delivered are the bytes of the blob up to a line
  end, in order and without repetition, the stored offset is where they end, and after a visit
  without a fault no complete line is left.
\<close>

theorem growing_lines_exactly_once:
  assumes "azc_BlobFormat cfg \<noteq> BlobFormatRecordsJSON" and "extension_fits cfg name"
    and "\<forall>v\<in>set vs. prefix (vi_content v) full \<and> proper_faults v"
    and "sorted (map (\<lambda>v. length (vi_content v)) vs)"
    and "ProgressFor c name = None" and "bw_delivered w = []"
    and run: "run_visits cfg name vs (c, w) = (c1, w1)"
  shows "\<exists>n. concat (bw_delivered w1) = take n full \<and> n \<le> length full \<and> (n = 0 \<or> full ! (n - 1) = LF)
    \<and> bp_Offset (progress_or_zero c1 name) = int n
    \<and> (vs \<noteq> [] \<longrightarrow> fault_free (last vs) \<longrightarrow> LF \<notin> set (drop n (vi_content (last vs))))"
proof -
  let ?ks = "map (\<lambda>v. count_list (vi_content v) LF) vs" and ?p = "\<lambda>k. upto_lf k full"
  have start: "lines.at_unit cfg full name c 0"
    using assms(5) by (simp add: lines.at_unit_def progress_or_zero_def no_progress_def)
  have all: "list_all2 (\<lambda>v k. shows_lines cfg full (vi_content v) k \<and> proper_faults v) vs ?ks"
    using assms(1,3) by (simp add: list_all2_conv_all_nth shows_lines_def line_cfg_def)
  have sorted: "sorted (0 # ?ks)"
    using sorted_count_prefixes [of vs vi_content full LF] assms(3,4) by auto
  obtain cuts where cuts: "sorted_wrt (<) (0 # cuts)" "set cuts \<subseteq> set ?ks"
      "lines.at_unit cfg full name c1 (last (0 # cuts))"
      "bw_delivered w1 = segments (\<lambda>j k. drop (length (?p j)) (?p k)) 0 cuts"
      "vs \<noteq> [] \<longrightarrow> fault_free (last vs) \<longrightarrow> last (0 # cuts) = last ?ks"
    using lines.visits_exact [OF run start assms(2) all sorted] assms(6) by auto
  have le: "k \<le> count_list full LF" if kc: "k \<in> set (0 # cuts)" for k
  proof (cases "k = 0")
    case False
    then obtain v where v: "v \<in> set vs" "k = count_list (vi_content v) LF" using kc cuts(2) by auto
    then have "prefix (vi_content v) full" using assms(3) by simp
    with v(2) show ?thesis by (auto simp: prefix_def)
  qed simp
  define m where "m = last (0 # cuts)"
  define p where "p = ?p m"
  have mc: "m \<in> set (0 # cuts)" unfolding m_def by (rule last_in_set) simp
  have pp: "prefix p full" unfolding p_def by (rule upto_lf_prefix)
  then obtain t where t: "full = p @ t" unfolding prefix_def by blast
  have lf: "p = [] \<or> last p = LF"
    using upto_lf_last [OF le [OF mc]] by (cases "m = 0") (auto simp: p_def)
  have "concat (bw_delivered w1) = p"
    using concat_segments [OF cuts(1), of ?p] le cuts(4) by (simp add: upto_lf_mono p_def m_def)
  moreover have "length p = 0 \<or> full ! (length p - 1) = LF"
    using lf t by (cases p rule: rev_cases) (auto simp: nth_append)
  moreover have "LF \<notin> set (drop (length p) (vi_content (last vs)))" if "vs \<noteq> []" "fault_free (last vs)"
  proof -
    have m: "m = count_list (vi_content (last vs)) LF" using cuts(5) that by (simp add: last_map m_def)
    have "shows_lines cfg full (vi_content (last vs)) m"
      using assms(1,3) that(1) unfolding m by (simp add: shows_lines_def line_cfg_def)
    from shown_prefix [OF this order_refl] upto_lf_all [of "vi_content (last vs)"] show ?thesis
      unfolding p_def m by simp
  qed
  moreover have "bp_Offset (progress_or_zero c1 name) = int (length p)"
    using cuts(3) by (simp only: lines.at_unit_def p_def m_def)
  ultimately show ?thesis
    using t by (intro exI [of _ "length p"]) simp
qed

section \<open>Records\<close>

definition shows_records :: "azure_config \<Rightarrow> bytes \<Rightarrow> (bytes \<times> bytes) list \<Rightarrow> bytes \<Rightarrow> nat \<Rightarrow> bool" where
  "shows_records cfg env its s k =
     (azc_BlobFormat cfg = BlobFormatRecordsJSON \<and> envelope env \<and> good_array its \<and> holds_records env its s k)"

interpretation records: growing cfg "written env its" "shows_records cfg env its"
    "\<lambda>j k. reframe (map snd (drop j (take k its)))"
  for cfg :: azure_config and env :: bytes and its :: "(bytes \<times> bytes) list"
proof
  fix s :: bytes and j k :: nat
  assume sh: "shows_records cfg env its s k"
  then have cfg: "azc_BlobFormat cfg = BlobFormatRecordsJSON" and env: "envelope env" and good: "good_array its"
    and k: "k \<le> length its" and holds: "holds_records env its s k"
    by (auto simp: shows_records_def holds_records_def)
  obtain t where t: "s = env @ items_text (take k its) @ t" "quiet t" if "0 < k"
    using holds by (cases "k = 0") (auto simp: holds_records_def)
  show "prefix (written env its k) s"
    using t by (cases "k = 0") (auto simp: written_def)
  show "split_delta cfg (drop (length (written env its k)) s) (written env its k = []) = (None, 0)"
  proof (cases "k = 0")
    case True
    then have "written env its k = []" by (simp add: written_def)
    moreover have "SplitRecordsJSONDelta s True = (None, 0)"
      by (rule split_unstarted [of s env]) (use True holds env in \<open>auto simp: holds_records_def\<close>)
    ultimately show ?thesis using cfg by (simp add: split_delta_def)
  next
    case False
    with records_continued [OF good, of k k t env] written_nonempty [OF good, of k env] k t cfg
    show ?thesis by (simp add: split_delta_def)
  qed
  assume jk: "j < k"
  show "strict_prefix (written env its j) (written env its k)" by (rule written_strict [OF good jk k])
  show "split_delta cfg (drop (length (written env its j)) s) (written env its j = []) =
      (Some (reframe (map snd (drop j (take k its)))), length (written env its k) - length (written env its j))"
  proof (cases "j = 0")
    case True
    then have "written env its j = []" by (simp add: written_def)
    with records_from_start [OF env good, of k t] t jk k cfg True show ?thesis by (simp add: split_delta_def)
  next
    case False
    with records_continued [OF good, of j k t env] written_nonempty [OF good, of j env] jk k t cfg
    show ?thesis by (simp add: split_delta_def)
  qed
qed (simp add: written_def)


lemma segments_map: "segments (\<lambda>j k. f (g j k)) i ms = map f (segments g i ms)"
  by (induction ms arbitrary: i) auto

lemma concat_batches:
  "sorted_wrt (<) (i # ms) \<Longrightarrow>
     map snd (take i its) @ concat (segments (\<lambda>j k. map snd (drop j (take k its))) i ms)
       = map snd (take (last (i # ms)) its)"
proof (induction ms arbitrary: i)
  case (Cons m ms)
  have "i \<le> m" "sorted_wrt (<) (m # ms)" using Cons.prems by auto
  then have "map snd (take m its) = map snd (take i its) @ map snd (drop i (take m its))"
    using take_split [of i m its] by (metis map_append)
  with Cons.IH [OF \<open>sorted_wrt (<) (m # ms)\<close>] show ?case by simp
qed simp

text \<open>
  C2. A document of records that is written in place, with an end that is taken back whenever a
  record is added, is read exactly once. Whatever the visits find behind the last complete
  record (nothing, a part of a record, the end of the array), and whichever calls fail at each of
  them, the documents delivered hold together the first records of the array, each once and in
  order, and after a visit without a fault all that were complete.
\<close>

theorem growing_records_exactly_once:
  assumes "azc_BlobFormat cfg = BlobFormatRecordsJSON" and "ToLower (Ext name) = ''.json''"
    and "envelope env" and "good_array its"
    and "list_all2 (\<lambda>v k. holds_records env its (vi_content v) k \<and> proper_faults v) vs ks" and "sorted ks"
    and "ProgressFor c name = None" and "bw_delivered w = []"
    and run: "run_visits cfg name vs (c, w) = (c1, w1)"
  shows "\<exists>batches m. bw_delivered w1 = map reframe batches \<and> concat batches = map snd (take m its)
    \<and> bp_Offset (progress_or_zero c1 name) = int (length (written env its m))
    \<and> (vs \<noteq> [] \<longrightarrow> fault_free (last vs) \<longrightarrow> m = last ks)"
proof -
  have start: "records.at_unit cfg env its name c 0"
    using assms(7) by (simp add: records.at_unit_def progress_or_zero_def no_progress_def written_def)
  have ext: "extension_fits cfg name" using assms(2) by (simp add: extension_fits_def)
  have all: "list_all2 (\<lambda>v k. shows_records cfg env its (vi_content v) k \<and> proper_faults v) vs ks"
    using assms(5) by (rule list_all2_mono) (simp add: shows_records_def assms(1,3,4))
  have sorted: "sorted (0 # ks)" using assms(6) by simp
  obtain cuts where cuts: "sorted_wrt (<) (0 # cuts)" "set cuts \<subseteq> set ks"
      "records.at_unit cfg env its name c1 (last (0 # cuts))"
      "bw_delivered w1 = segments (\<lambda>j k. reframe (map snd (drop j (take k its)))) 0 cuts"
      "vs \<noteq> [] \<longrightarrow> fault_free (last vs) \<longrightarrow> last (0 # cuts) = last ks"
    using records.visits_exact [OF run start ext all sorted] assms(8) by auto
  let ?g = "\<lambda>j k. map snd (drop j (take k its))" and ?m = "last (0 # cuts)"
  have "concat (segments ?g 0 cuts) = map snd (take ?m its)"
    using concat_batches [OF cuts(1), of its] by simp
  moreover have "bp_Offset (progress_or_zero c1 name) = int (length (written env its ?m))"
    using cuts(3) by (simp only: records.at_unit_def)
  ultimately show ?thesis
    using cuts(4,5) segments_map [of reframe ?g 0 cuts]
    by (intro exI [of _ "segments ?g 0 cuts"] exI [of _ ?m] conjI) (simp_all only:)
qed

section \<open>The properties at work\<close>

definition sample_azure :: "BlobFormat \<Rightarrow> azure_config" where
  "sample_azure f =
     \<lparr>azc_BlobFormat = f, azc_EnableIncrementalRead = True, azc_EnablePerLineText = True, azc_FingerprintSize = 16,
      azc_AssumeAppendOnly = False, azc_DeleteOnRead = True, azc_UseLastModified = False, azc_InitialLookback = 0,
      azc_RevisitWindow = 0\<rparr>"

definition sample_visit :: "bytes \<Rightarrow> az_err option \<Rightarrow> visit" where
  "sample_visit s e = \<lparr>vi_content = s, vi_time = 1, vi_headErr = None, vi_bodyErr = None, vi_consumeErr = e,
     vi_deleteErr = None\<rparr>"

definition sample_world :: blob_world where
  "sample_world = \<lparr>bw_visit = sample_visit [] None, bw_delivered = [], bw_deletes = []\<rparr>"

definition records_env :: bytes where
  "records_env = CHR ''{'' # CHR 0x22 # ''records'' @ CHR 0x22 # '':[''"

lemma records_env_envelope: "envelope records_env"
  unfolding envelope_def records_env_def recordsArrayBody_def NewDecoder_def
  by (simp add: Token.simps envelope_body.simps decoder_defs scanner_defs unquote.simps Let_def)


definition sample_lines :: "visit list" where
  "sample_lines = [sample_visit (''a'' @ [LF]) None, sample_visit (''a'' @ LF # ''b'' @ [LF]) (Some Canceled),
     sample_visit (''a'' @ LF # ''b'' @ LF # ''c'') None]"

theorem growing_lines_exactly_once_witness:
  "\<exists>n. concat (bw_delivered (snd (run_visits (sample_azure BlobFormatText) ''x.log'' sample_lines
        (NewPollingCheckpoint, sample_world)))) = take n (''a'' @ LF # ''b'' @ LF # ''c'')
     \<and> LF \<notin> set (drop n (''a'' @ LF # ''b'' @ LF # ''c''))"
proof -
  obtain c1 w1 where run: "run_visits (sample_azure BlobFormatText) ''x.log'' sample_lines (NewPollingCheckpoint, sample_world)
      = (c1, w1)" by fastforce
  show ?thesis
    unfolding run snd_conv
    using growing_lines_exactly_once [OF _ _ _ _ _ _ run, of "''a'' @ LF # ''b'' @ LF # ''c''"]
    by (auto simp: sample_azure_def extension_fits_def sample_lines_def sample_visit_def proper_faults_def
        fault_free_def sample_world_def NewPollingCheckpoint_def ProgressFor_def)
qed

definition sample_records :: "visit list" where
  "sample_records = [sample_visit (records_env @ ''{}]}'') None, sample_visit (records_env @ ''{},{}]}'') (Some Canceled),
     sample_visit (records_env @ ''{},{}]}'') None]"

lemma empty_object: "json_object ''{}''"
  by (simp add: json_object_def scanner_defs)

theorem growing_records_exactly_once_witness:
  "\<exists>batches. bw_delivered (snd (run_visits (sample_azure BlobFormatRecordsJSON) ''PT1H.json'' sample_records
        (NewPollingCheckpoint, sample_world))) = map reframe batches \<and> concat batches = [''{}'', ''{}'']"
proof -
  obtain c1 w1 where run: "run_visits (sample_azure BlobFormatRecordsJSON) ''PT1H.json'' sample_records
      (NewPollingCheckpoint, sample_world) = (c1, w1)" by fastforce
  let ?its = "[([], ''{}''), ('','', ''{}'')]"
  have good: "good_array ?its"
    by (auto simp: good_array_def good_items_def next_sep_def spaces_def empty_object intro!: exI [of _ "[]"])
  have quiet: "quiet '']}''" by (simp add: quiet_def isSpace_def)
  have all: "list_all2 (\<lambda>v k. holds_records records_env ?its (vi_content v) k \<and> proper_faults v) sample_records [1, 2, 2]"
    using quiet
    by (auto simp: sample_records_def sample_visit_def holds_records_def proper_faults_def)
  show ?thesis
    unfolding run snd_conv
    using growing_records_exactly_once [OF _ _ records_env_envelope good all _ _ _ run]
    by (auto simp: sample_azure_def ToLower_def Ext_def sample_records_def sample_visit_def
        fault_free_def sample_world_def NewPollingCheckpoint_def ProgressFor_def)
qed

end
