(* ===== verification/AzureFinal.thy ===== *)
theory AzureFinal
  imports AzureTail
begin

text \<open>
  The end of a growing blob and its replacement: a blob is deleted only when everything in it was
  handed on, deletions that keep failing are given up, and a blob that was replaced is read from
  its start.
\<close>

section \<open>Nothing undelivered is deleted\<close>

text \<open>Faults that do not claim the blob is gone or ends before the offset.\<close>

definition honest_faults :: "visit \<Rightarrow> bool" where
  "honest_faults v =
     (\<forall>e. vi_headErr v = Some e \<or> vi_bodyErr v = Some e \<longrightarrow> \<not> IsRangeNotSatisfiable e \<and> \<not> IsBlobNotFound e)"

text \<open>The tail of a blob of lines as it is handed on: its complete lines, and what is left without space.\<close>

definition handed_on :: "bytes \<Rightarrow> bytes list \<Rightarrow> bool" where
  "handed_on tail pieces =
     (\<exists>complete rest. tail = complete @ rest \<and> pieces = filter (\<lambda>p. p \<noteq> []) [complete, bytes_TrimSpace rest])"

lemma trim_left_nil [simp]: "trim_left [] = []"
  by (simp add: trim_left.simps)

lemma TrimSpace_nil [simp]: "bytes_TrimSpace [] = []"
  by (simp add: bytes_TrimSpace_def)

lemma handed_blank: "bytes_TrimSpace tail = [] \<Longrightarrow> handed_on tail []"
  by (auto simp: handed_on_def intro!: exI [of _ "[]"])

lemma handed_all: "tail \<noteq> [] \<Longrightarrow> handed_on tail [tail]"
  unfolding handed_on_def by (intro exI [of _ tail] exI [of _ "[]"]) simp

lemma SplitLineDelta_take: "SplitLineDelta s = (p, n) \<Longrightarrow> s = p @ drop n s \<and> (n = 0 \<longleftrightarrow> p = [])"
  using upto_lf_prefix [of "count_list s CHR 0x0A" s]
  by (auto simp: SplitLineDelta_upto prefix_def)

lemma consume_service:
  "azo_consume blob_service p w = (res, w1) \<Longrightarrow>
     bw_visit w1 = bw_visit w \<and> bw_deletes w1 = bw_deletes w
     \<and> ((\<exists>e. res = Inl e) \<and> bw_delivered w1 = bw_delivered w \<or> res = Inr 1 \<and> bw_delivered w1 = bw_delivered w @ [p])"
  by (auto simp: blob_service_def split: option.splits)

lemma flush_tail_lines:
  assumes "azc_BlobFormat cfg = BlobFormatText \<or> azc_BlobFormat cfg = BlobFormatJSON"
    and "bytes_TrimSpace tail \<noteq> []" and "flush_tail cfg blob_service tail offset w = ((off, err), w1)"
  shows "bw_visit w1 = bw_visit w \<and> bw_deletes w1 = bw_deletes w
    \<and> (err = None \<longrightarrow> (\<exists>ps. bw_delivered w1 = bw_delivered w @ ps \<and> handed_on tail ps))"
proof (cases "azc_BlobFormat cfg = BlobFormatText")
  case True
  have "tail \<noteq> []" using assms(2) by auto
  with True assms(3) show ?thesis
    by (auto simp: flush_tail_def handed_all split: sum.splits prod.splits dest!: consume_service)
next
  case False
  then have json: "azc_BlobFormat cfg = BlobFormatJSON" using assms(1) by simp
  obtain p n where sp: "SplitLineDelta tail = (p, n)" by fastforce
  note tk = SplitLineDelta_take [OF sp]
  let ?t = "bytes_TrimSpace (drop n tail)"
  have on: "handed_on tail (filter (\<lambda>p. p \<noteq> []) [p, ?t])" unfolding handed_on_def using tk by blast
  obtain r1 w2 where first: "(if n > 0 then azo_consume blob_service p w else (Inr 0, w)) = (r1, w2)" by fastforce
  have f: "bw_visit w2 = bw_visit w \<and> bw_deletes w2 = bw_deletes w
      \<and> ((\<exists>k. r1 = Inr k) \<longrightarrow> bw_delivered w2 = bw_delivered w @ filter (\<lambda>p. p \<noteq> []) [p])"
    using first tk by (cases "n > 0") (auto dest!: consume_service)
  show ?thesis
  proof (cases r1)
    case (Inl e)
    with assms(3) json sp first f show ?thesis by (auto simp: flush_tail_def)
  next
    case (Inr k)
    with f have d: "bw_delivered w2 = bw_delivered w @ filter (\<lambda>p. p \<noteq> []) [p]" by blast
    show ?thesis
    proof (cases "?t = []")
      case True
      with assms(3) json sp first f d Inr on show ?thesis by (auto simp: flush_tail_def)
    next
      case False
      obtain r3 w3 where last: "azo_consume blob_service ?t w2 = (r3, w3)" by fastforce
      from consume_service [OF last] assms(3) json sp first f d Inr on False last show ?thesis
        by (auto simp: flush_tail_def Let_def split: if_splits)
    qed
  qed
qed


lemma verify_sealed:
  assumes "n \<le> length (vi_content (bw_visit w))" and "fp_fits cfg (take n (vi_content (bw_visit w))) fp"
    and "honest_faults (bw_visit w)"
  shows "(\<exists>head. verifyResumeIdentity cfg blob_service name (int n) fp w = (Inr (head, False), w))
       \<or> (\<exists>e. verifyResumeIdentity cfg blob_service name (int n) fp w = (Inl e, w)
            \<and> \<not> IsRangeNotSatisfiable e \<and> \<not> IsBlobNotFound e)"
proof -
  have "proper_faults (bw_visit w)"
    using assms(3) by (auto simp: honest_faults_def proper_faults_def split: option.splits)
  from verify_intact [OF take_is_prefix assms(2) this, of name w] assms(1,3) show ?thesis
    by (auto simp: honest_faults_def)
qed

lemma flush_lines:
  assumes fmt: "azc_BlobFormat cfg = BlobFormatText \<or> azc_BlobFormat cfg = BlobFormatJSON"
    and "bp_Offset prog = int n" and "n \<le> length (vi_content (bw_visit w))"
    and "fp_fits cfg (take n (vi_content (bw_visit w))) (bp_Fingerprint prog)" and "honest_faults (bw_visit w)"
    and run: "flushSealedBlob cfg blob_service name prog w = ((off, fp, err), w1)"
  shows "bw_visit w1 = bw_visit w \<and> bw_deletes w1 = bw_deletes w
    \<and> (err = None \<longrightarrow> (\<exists>ps. bw_delivered w1 = bw_delivered w @ ps \<and> handed_on (drop n (vi_content (bw_visit w))) ps))"
proof -
  let ?s = "vi_content (bw_visit w)"
  from verify_sealed [OF assms(3-5), of name]
  consider head where "verifyResumeIdentity cfg blob_service name (int n) (bp_Fingerprint prog) w = (Inr (head, False), w)"
    | e where "verifyResumeIdentity cfg blob_service name (int n) (bp_Fingerprint prog) w = (Inl e, w)"
      "\<not> IsRangeNotSatisfiable e" "\<not> IsBlobNotFound e" by blast
  then show ?thesis
  proof cases
    case (1 head)
    let ?fp = "bp_Fingerprint prog"
    have fl: "flushSealedBlob cfg blob_service name prog w =
        (case azo_range blob_service name (int n) 0 w of
           (Inl err, w2) \<Rightarrow>
             if IsRangeNotSatisfiable err then ((int n, ?fp, None), w2)
             else if IsBlobNotFound err then ((int n, ?fp, None), w2)
             else ((int n, ?fp, Some (ErrWrap ''download tail'' err)), w2)
         | (Inr (tail, tot), w2) \<Rightarrow>
             if length (bytes_TrimSpace tail) = 0 then ((int n, ?fp, None), w2)
             else (case flush_tail cfg blob_service tail (int n) w2 of
                     ((newOffset, err), w3) \<Rightarrow> ((newOffset, ?fp, err), w3)))"
      unfolding flushSealedBlob_def assms(2) 1 Let_def by simp
    have blank: ?thesis if "w1 = w" "bytes_TrimSpace (drop n ?s) = []"
      using that handed_blank by (auto intro!: exI [of _ "[]"])
    show ?thesis
    proof (cases "vi_bodyErr (bw_visit w)")
      case (Some e)
      then have "azo_range blob_service name (int n) 0 w = (Inl e, w)" by (simp add: blob_service_def)
      moreover have "\<not> IsRangeNotSatisfiable e" "\<not> IsBlobNotFound e"
        using assms(5) Some by (auto simp: honest_faults_def)
      ultimately show ?thesis using run fl by auto
    next
      case None
      show ?thesis
      proof (cases "0 < n \<and> n = length ?s")
        case True
        with None have "azo_range blob_service name (int n) 0 w = (Inl (ResponseError ''InvalidRange''), w)"
          by (auto simp: blob_service_def range_of_def)
        with run fl have "w1 = w" by (simp add: IsRangeNotSatisfiable_def HasCode_def)
        with True show ?thesis by (intro blank) simp_all
      next
        case False
        with None assms(3) have rng: "azo_range blob_service name (int n) 0 w = (Inr (drop n ?s, int (length ?s)), w)"
          by (auto simp: blob_service_def range_of_def)
        show ?thesis
        proof (cases "bytes_TrimSpace (drop n ?s) = []")
          case True
          with run fl rng have "w1 = w" by simp
          then show ?thesis using True by (rule blank)
        next
          case False
          obtain off' err' w3 where ft: "flush_tail cfg blob_service (drop n ?s) (int n) w = ((off', err'), w3)"
            by (metis surj_pair)
          with run fl rng False have "w1 = w3" "err = err'" by simp_all
          with flush_tail_lines [OF fmt False ft] show ?thesis by simp
        qed
      qed
    qed
  next
    case (2 e)
    with run assms(2) show ?thesis by (auto simp: flushSealedBlob_def)
  qed
qed

text \<open>
  C3. A blob of lines is only deleted when all of it was handed on: after a deletion that was
  carried out, what the blob held behind the stored offset has been delivered, its complete lines
  and then the last one, with nothing but space left out. When it was not deleted its entry stays
  in the checkpoint, unless no read of it ever succeeded.
\<close>

theorem deleted_only_when_delivered:
  assumes "useIncremental cfg name" and "azc_BlobFormat cfg \<noteq> BlobFormatRecordsJSON"
    and "bp_Offset prog = int n" and "n \<le> length (vi_content (bw_visit w))"
    and "fp_fits cfg (take n (vi_content (bw_visit w))) (bp_Fingerprint prog)" and "honest_faults (bw_visit w)"
    and "\<And>e. vi_deleteErr (bw_visit w) = Some e \<Longrightarrow> \<not> IsBlobNotFound e"
    and run: "finalizeAgedBlob cfg blob_service name prog c w = (c1, w1)"
  shows "((name, True) \<in> set (drop (length (bw_deletes w)) (bw_deletes w1)) \<longrightarrow>
            (\<exists>ps. bw_delivered w1 = bw_delivered w @ ps \<and> handed_on (drop n (vi_content (bw_visit w))) ps))
    \<and> ((name, True) \<notin> set (drop (length (bw_deletes w)) (bw_deletes w1)) \<longrightarrow>
         ProgressFor c1 name \<noteq> None \<or> bp_LastReadError prog \<noteq> [] \<and> bp_Offset prog = 0)"
proof (cases "bp_LastReadError prog \<noteq> [] \<and> bp_Offset prog = 0")
  case True
  with run show ?thesis by (simp add: finalizeAgedBlob_def)
next
  case False
  have fmt: "azc_BlobFormat cfg = BlobFormatText \<or> azc_BlobFormat cfg = BlobFormatJSON"
    using assms(1,2) by (cases "azc_BlobFormat cfg") (auto simp: useIncremental_def isIncrementalFormat_def split: if_splits)
  obtain off fp err w2 where fl: "flushSealedBlob cfg blob_service name prog w = ((off, fp, err), w2)"
    by (metis surj_pair)
  note f = flush_lines [OF fmt assms(3-6) fl]
  show ?thesis
  proof (cases err)
    case None
    with False assms(1,7) run fl f show ?thesis
      by (auto simp: finalizeAgedBlob_def delete_or_seal_def blob_service_def retrackOrQuarantine_def
          UpdateProgress_def ProgressFor_def Let_def split: if_splits option.splits)
  next
    case (Some e)
    with False assms(1) run fl f show ?thesis
      by (auto simp: finalizeAgedBlob_def retrackOrQuarantine_def UpdateProgress_def ProgressFor_def Let_def
          split: if_splits)
  qed
qed


section \<open>Deletions are given up\<close>

text \<open>The part of a poll that retires one blob, with the three cutoffs it computes.\<close>

definition retire_round ::
    "azure_config \<Rightarrow> string \<Rightarrow> gotime \<times> gotime \<times> gotime \<Rightarrow> PollingCheckPoint \<Rightarrow> blob_world \<Rightarrow> PollingCheckPoint \<times> blob_world" where
  "retire_round cfg name cutoffs c w =
     (case cutoffs of (cutoff, qcut, scut) \<Rightarrow>
        (case AgedOutProgress cutoff qcut scut c of
           (aged, giveUp, c1) \<Rightarrow> finalizeAgedBlobs cfg blob_service [name] aged c1 w))"

fun retire_rounds ::
    "azure_config \<Rightarrow> string \<Rightarrow> ((gotime \<times> gotime \<times> gotime) \<times> visit) list \<Rightarrow> PollingCheckPoint \<times> blob_world
      \<Rightarrow> PollingCheckPoint \<times> blob_world" where
  "retire_rounds cfg name [] s = s"
| "retire_rounds cfg name ((cutoffs, v) # rs) (c, w) =
     retire_rounds cfg name rs (retire_round cfg name cutoffs c (w\<lparr>bw_visit := v\<rparr>))"

lemma range_service: "azo_range blob_service name off cnt w = (res, w1) \<Longrightarrow> w1 = w"
  by (auto simp: blob_service_def)

lemma consumeDelta_deletes:
  "consumeDelta cfg blob_service d b w = (res, w1) \<Longrightarrow> bw_deletes w1 = bw_deletes w \<and> bw_visit w1 = bw_visit w"
  by (auto simp: consumeDelta_def split: if_splits prod.splits option.splits sum.splits dest!: consume_service)

lemma flush_tail_deletes:
  "flush_tail cfg blob_service t off w = (res, w1) \<Longrightarrow> bw_deletes w1 = bw_deletes w \<and> bw_visit w1 = bw_visit w"
  by (cases "azc_BlobFormat cfg")
     (auto simp: flush_tail_def Let_def split: if_splits prod.splits sum.splits
       dest!: consume_service consumeDelta_deletes)

lemma verify_world: "verifyResumeIdentity cfg blob_service name off fp w = (res, w1) \<Longrightarrow> w1 = w"
  by (auto simp: verifyResumeIdentity_def Let_def split: if_splits prod.splits sum.splits dest!: range_service)

lemma flush_deletes:
  "flushSealedBlob cfg blob_service name p w = (res, w1) \<Longrightarrow> bw_deletes w1 = bw_deletes w \<and> bw_visit w1 = bw_visit w"
  by (auto simp: flushSealedBlob_def Let_def split: if_splits prod.splits sum.splits
      dest!: verify_world range_service flush_tail_deletes)

text \<open>What a round in which the deletion fails does to an entry that is not in the map.\<close>

lemma finalize_attempt:
  assumes "finalizeAgedBlob cfg blob_service name p c w = (c1, w1)"
    and "vi_deleteErr (bw_visit w) = Some e" and "\<not> is_canceled e" and "\<not> IsBlobNotFound e"
    and "ProgressFor c name = None"
  shows "(bw_deletes w1 = bw_deletes w
          \<and> (\<forall>q. ProgressFor c1 name = Some q \<longrightarrow> bp_FinalizeFailures p \<le> bp_FinalizeFailures q))
      \<or> (bw_deletes w1 = bw_deletes w @ [(name, False)]
          \<and> (\<exists>q. ProgressFor c1 name = Some q \<and> bp_FinalizeFailures q = bp_FinalizeFailures p + 1
               \<and> (bp_Quarantined q \<or> bp_FinalizeFailures q < maxFinalizeFailures)))"
proof -
  have del: "(bw_deletes w3 = bw_deletes w2
          \<and> (\<forall>q. ProgressFor c3 name = Some q \<longrightarrow> bp_FinalizeFailures p' \<le> bp_FinalizeFailures q))
      \<or> (bw_deletes w3 = bw_deletes w2 @ [(name, False)]
          \<and> (\<exists>q. ProgressFor c3 name = Some q \<and> bp_FinalizeFailures q = bp_FinalizeFailures p' + 1
               \<and> (bp_Quarantined q \<or> bp_FinalizeFailures q < maxFinalizeFailures)))"
    if "delete_or_seal cfg blob_service name p' c w2 = (c3, w3)" "bw_visit w2 = bw_visit w" for p' w2 c3 w3
    using that assms(2-4)
    by (auto simp: delete_or_seal_def blob_service_def retrackOrQuarantine_def UpdateProgress_def ProgressFor_def
        Let_def split: if_splits)
  show ?thesis
  proof (cases "bp_LastReadError p \<noteq> [] \<and> bp_Offset p = 0")
    case True
    with assms show ?thesis by (simp add: finalizeAgedBlob_def)
  next
    case nr: False
    show ?thesis
    proof (cases "useIncremental cfg name")
      case True
      obtain off fp err w2 where fl: "flushSealedBlob cfg blob_service name p w = ((off, fp, err), w2)"
        by (metis surj_pair)
      note d = flush_deletes [OF fl]
      show ?thesis
      proof (cases err)
        case None
        with assms(1) True nr fl have "delete_or_seal cfg blob_service name
            (p\<lparr>bp_Offset := off, bp_Fingerprint := fp\<rparr>) c w2 = (c1, w1)"
          by (auto simp: finalizeAgedBlob_def Let_def)
        from del [OF this] d show ?thesis by simp
      next
        case (Some e')
        with assms(1) True nr fl d show ?thesis
          by (auto simp: finalizeAgedBlob_def retrackOrQuarantine_def UpdateProgress_def ProgressFor_def Let_def
              split: if_splits)
      qed
    next
      case False
      with assms(1) nr have "delete_or_seal cfg blob_service name p c w = (c1, w1)"
        by (auto simp: finalizeAgedBlob_def)
      from del [OF this] show ?thesis by simp
    qed
  qed
qed

definition attempts_left :: "string \<Rightarrow> nat \<Rightarrow> PollingCheckPoint \<Rightarrow> bool" where
  "attempts_left name a c =
     (a \<le> 5 \<and> (\<forall>p. ProgressFor c name = Some p \<longrightarrow> bp_Quarantined p \<or> a \<le> 4 \<and> int a \<le> bp_FinalizeFailures p))"

lemma retire_round_attempts:
  assumes "retire_round cfg name cutoffs c w = (c1, w1)" and "attempts_left name a c"
    and "vi_deleteErr (bw_visit w) = Some e" and "\<not> is_canceled e" and "\<not> IsBlobNotFound e"
  shows "\<exists>b. attempts_left name (a + b) c1 \<and> length (bw_deletes w1) = length (bw_deletes w) + b"
proof -
  obtain cutoff qcut scut where cut: "cutoffs = (cutoff, qcut, scut)" by (cases cutoffs)
  let ?f = "age_verdict_of cutoff qcut scut"
  let ?c = "c\<lparr>pk_Progress := entries_with ?f Stays (pk_Progress c)\<rparr>"
  let ?aged = "entries_with ?f AgedOut (pk_Progress c)"
  have fin: "finalizeAgedBlobs cfg blob_service [name] ?aged ?c w = (c1, w1)"
    using assms(1) by (simp add: retire_round_def cut AgedOutProgress_def Let_def)
  have keep: "attempts_left name a ?c"
    using assms(2) by (auto simp: attempts_left_def ProgressFor_def entries_with_def split: option.splits if_splits)
  show ?thesis
  proof (cases "isIncrementalFormat cfg \<and> ?aged name \<noteq> None")
    case False
    with fin have "c1 = ?c \<and> w1 = w" by (auto simp: finalizeAgedBlobs_def split: if_splits)
    with keep show ?thesis by (intro exI [of _ 0]) simp
  next
    case True
    then obtain p where p: "pk_Progress c name = Some p" "?f p = AgedOut"
      by (auto simp: entries_with_def split: option.splits if_splits)
    have step: "finalizeAgedBlob cfg blob_service name p ?c w = (c1, w1)"
      using fin True p by (auto simp: finalizeAgedBlobs_def entries_with_def split: prod.splits)
    have none: "ProgressFor ?c name = None" using p by (simp add: ProgressFor_def entries_with_def)
    have nq: "\<not> bp_Quarantined p" using p(2) by (auto simp: age_verdict_of_def split: if_splits)
    then have a: "a \<le> 4" "int a \<le> bp_FinalizeFailures p"
      using assms(2) p(1) by (auto simp: attempts_left_def ProgressFor_def)
    from finalize_attempt [OF step assms(3-5) none] a show ?thesis
      by (auto simp: attempts_left_def maxFinalizeFailures_def intro: exI [of _ 0] exI [of _ 1])
  qed
qed

text \<open>
  C20. A blob that cannot be deleted is not tried for ever: over any number of polls in which the
  deletion fails, with any cutoffs and any faults of the reads and of the pipeline, at most five
  deletions are tried, and then the entry is quarantined or gone.
\<close>

theorem deletion_retries_bounded:
  assumes "\<forall>(cutoffs, v)\<in>set rs. \<exists>e. vi_deleteErr v = Some e \<and> \<not> is_canceled e \<and> \<not> IsBlobNotFound e"
    and "\<And>p. ProgressFor c name = Some p \<Longrightarrow> 0 \<le> bp_FinalizeFailures p"
    and "retire_rounds cfg name rs (c, w) = (c1, w1)"
  shows "length (bw_deletes w1) \<le> length (bw_deletes w) + 5
    \<and> (length (bw_deletes w1) = length (bw_deletes w) + 5 \<longrightarrow>
        (\<forall>p. ProgressFor c1 name = Some p \<longrightarrow> bp_Quarantined p))"
proof -
  have "\<exists>b. attempts_left name (a + b) c1 \<and> length (bw_deletes w1) = length (bw_deletes w) + b"
    if "attempts_left name a c" "retire_rounds cfg name rs (c, w) = (c1, w1)"
      "\<forall>(cutoffs, v)\<in>set rs. \<exists>e. vi_deleteErr v = Some e \<and> \<not> is_canceled e \<and> \<not> IsBlobNotFound e" for a
    using that
  proof (induction rs arbitrary: a c w)
    case Nil
    then show ?case by (auto intro!: exI [of _ 0])
  next
    case (Cons x rs)
    obtain cutoffs v where x: "x = (cutoffs, v)" by (cases x)
    obtain e where e: "vi_deleteErr v = Some e" "\<not> is_canceled e" "\<not> IsBlobNotFound e"
      using Cons.prems(3) x by auto
    obtain c2 w2 where r: "retire_round cfg name cutoffs c (w\<lparr>bw_visit := v\<rparr>) = (c2, w2)" by fastforce
    from retire_round_attempts [OF r Cons.prems(1) _ e(2,3)] e(1)
    obtain b where b: "attempts_left name (a + b) c2" "length (bw_deletes w2) = length (bw_deletes w) + b" by auto
    have "retire_rounds cfg name rs (c2, w2) = (c1, w1)" using Cons.prems(2) x r by simp
    from Cons.IH [OF b(1) this] Cons.prems(3)
    obtain b' where "attempts_left name (a + b + b') c1" "length (bw_deletes w1) = length (bw_deletes w2) + b'" by auto
    with b(2) show ?case by (intro exI [of _ "b + b'"]) (simp add: add.assoc)
  qed
  note steps = this
  have "attempts_left name 0 c" using assms(2) by (auto simp: attempts_left_def)
  note steps [OF this assms(3,1)]
  then obtain b where "attempts_left name b c1" "length (bw_deletes w1) = length (bw_deletes w) + b" by auto
  then show ?thesis by (auto simp: attempts_left_def)
qed


section \<open>A blob that was replaced\<close>

lemma consume_fault_free:
  "vi_consumeErr (bw_visit w) = None \<Longrightarrow> \<exists>r w1. consumeDelta cfg blob_service d b w = (Inr r, w1)"
  by (auto simp: consumeDelta_def blob_service_def split: prod.splits option.splits if_splits)

lemma read_from_start:
  assumes "fault_free v" and "\<not> (azc_BlobFormat cfg = BlobFormatRecordsJSON \<and> RecordsJSONDeltaStuck (vi_content v) True)"
  shows "\<exists>r p w1. \<forall>fp head c. read_and_consume cfg blob_service b 0 fp head c (w\<lparr>bw_visit := v\<rparr>)
    = (Inr r, UpdateProgress (bi_Name b) p c, w1)"
proof -
  have rng: "azo_range blob_service (bi_Name b) 0 0 (w\<lparr>bw_visit := v\<rparr>) =
      (Inr (vi_content v, int (length (vi_content v))), w\<lparr>bw_visit := v\<rparr>)"
    using assms(1) by (simp add: blob_service_def fault_free_def range_of_def)
  obtain n em w1 where con: "consumeDelta cfg blob_service (vi_content v) True (w\<lparr>bw_visit := v\<rparr>) = (Inr (n, em), w1)"
    using consume_fault_free [of "w\<lparr>bw_visit := v\<rparr>" cfg "vi_content v" True] assms(1) by (auto simp: fault_free_def)
  show ?thesis
    using assms(2)
    by (intro exI [of _ em] exI [of _ w1]
          exI [of _ "no_progress\<lparr>bp_Offset := int n, bp_Fingerprint := Fingerprint (take n (vi_content v)) (fpSize cfg),
             bp_LastModified := bi_LastModified b\<rparr>"])
       (auto simp: read_and_consume_def rng con next_fingerprint_def)
qed

lemma verify_replaced:
  assumes "fault_free v" and "0 < off" and "fp \<noteq> []" and "\<not> azc_AssumeAppendOnly cfg"
    and "\<not> prefix fp (vi_content v) \<or> int (length (vi_content v)) < off"
  shows "(\<exists>head. verifyResumeIdentity cfg blob_service name off fp (w\<lparr>bw_visit := v\<rparr>) = (Inr (head, True), w\<lparr>bw_visit := v\<rparr>))
    \<or> verifyResumeIdentity cfg blob_service name off fp (w\<lparr>bw_visit := v\<rparr>) =
        (Inl (ResponseError ''InvalidRange''), w\<lparr>bw_visit := v\<rparr>)"
proof (cases "vi_content v = []")
  case True
  with assms fpSize_pos [of cfg] show ?thesis
    by (simp add: verifyResumeIdentity_def blob_service_def fault_free_def range_of_def)
next
  case False
  have "\<not> prefix fp (take (nat (fpSize cfg)) (vi_content v))" if "\<not> prefix fp (vi_content v)"
    using that take_is_prefix prefix_order.trans by blast
  with False assms fpSize_pos [of cfg] show ?thesis
    by (auto simp: verifyResumeIdentity_def blob_service_def fault_free_def range_of_def SameBlob_iff
        Fingerprint_take Let_def)
qed

text \<open>
  C21. A blob that was replaced by another of the same name is read from its start. When the stored
  fingerprint is not how the blob begins, or the blob is shorter than the stored offset, a visit
  without a fault delivers and stores exactly what it would if nothing were known of the blob (a
  document that can never hold records apart, which is put aside).
\<close>

theorem replaced_blob_read_anew:
  assumes "fault_free v" and "extension_fits cfg name" and "\<not> azc_AssumeAppendOnly cfg"
    and "ProgressFor c name = Some prog" and "0 < bp_Offset prog" and "bp_Fingerprint prog \<noteq> []"
    and "\<not> prefix (bp_Fingerprint prog) (vi_content v) \<or> int (length (vi_content v)) < bp_Offset prog"
    and "\<not> (azc_BlobFormat cfg = BlobFormatRecordsJSON \<and> RecordsJSONDeltaStuck (vi_content v) True)"
    and "run_visits cfg name [v] (c, w) = (c1, w1)"
    and "run_visits cfg name [v] (c\<lparr>pk_Progress := (pk_Progress c)(name := None)\<rparr>, w) = (c2, w2)"
  shows "w1 = w2 \<and> ProgressFor c1 name = ProgressFor c2 name"
proof -
  let ?b = "\<lparr>bi_Name = name, bi_Size = 0, bi_LastModified = vi_time v\<rparr>" and ?w = "w\<lparr>bw_visit := v\<rparr>"
  let ?c = "c\<lparr>pk_Progress := (pk_Progress c)(name := None)\<rparr>"
  obtain r p w3 where read: "\<And>fp head c. read_and_consume cfg blob_service ?b 0 fp head c ?w = (Inr r, UpdateProgress name p c, w3)"
    using read_from_start [OF assms(1,8), of ?b w] by auto
  have ext: "\<not> ((azc_BlobFormat cfg = BlobFormatRecordsJSON \<or> azc_BlobFormat cfg = BlobFormatJSON)
      \<and> ToLower (Ext name) \<noteq> ''.json'')" using assms(2) by (auto simp: extension_fits_def)
  have prog: "progress_or_zero c name = prog" "progress_or_zero ?c name = no_progress"
    using assms(4) by (auto simp: progress_or_zero_def ProgressFor_def)
  have "processBlobIncremental cfg blob_service ?b c ?w = (Inr r, UpdateProgress name p c, w3)"
    using verify_replaced [OF assms(1,5,6,3,7), of name w] ext
    by (auto simp: processBlobIncremental_def prog read IsBlobNotFound_def IsRangeNotSatisfiable_def HasCode_def Let_def)
  moreover have "processBlobIncremental cfg blob_service ?b ?c ?w = (Inr r, UpdateProgress name p ?c, w3)"
    using ext
    by (auto simp: processBlobIncremental_def prog read no_progress_def verifyResumeIdentity_def Let_def)
  ultimately show ?thesis
    using assms(9,10) by (auto simp: UpdateProgress_def ProgressFor_def)
qed


section \<open>These properties at work\<close>

definition sample_rest :: visit where
  "sample_rest = sample_visit (''a'' @ LF # ''b'') None"



theorem deleted_only_when_delivered_witness:
  "\<exists>ps. bw_delivered (snd (finalizeAgedBlob (sample_azure BlobFormatText) blob_service ''x.log''
      (no_progress\<lparr>bp_Offset := 2\<rparr>) NewPollingCheckpoint (sample_world\<lparr>bw_visit := sample_rest\<rparr>))) = ps
    \<and> handed_on ''b'' ps"
proof -
  let ?p = "no_progress\<lparr>bp_Offset := 2\<rparr>" and ?w = "sample_world\<lparr>bw_visit := sample_rest\<rparr>"
  obtain c1 w1 where run: "finalizeAgedBlob (sample_azure BlobFormatText) blob_service ''x.log'' ?p
      NewPollingCheckpoint ?w = (c1, w1)" by fastforce
  have "bytes_TrimSpace ''b'' = ''b''"
    by (simp add: bytes_TrimSpace_def trim_left.simps DecodeRune_def Let_def ends_in_space_def unicode_IsSpace_def)
  then have "bw_deletes w1 = [(''x.log'', True)]"
    using run
    by (simp add: finalizeAgedBlob_def useIncremental_def isIncrementalFormat_def sample_azure_def no_progress_def
        Ext_def ToLower_def flushSealedBlob_def verifyResumeIdentity_def blob_service_def sample_world_def
        sample_rest_def sample_visit_def range_of_def flush_tail_def delete_or_seal_def Let_def)
       auto
  then show ?thesis
    unfolding run snd_conv
    using deleted_only_when_delivered [where n = 2, OF _ _ _ _ _ _ _ run]
    by (simp add: useIncremental_def isIncrementalFormat_def sample_azure_def no_progress_def
        Ext_def ToLower_def sample_world_def sample_rest_def sample_visit_def honest_faults_def fpSize_def
        minFingerprintSize_def DefaultFingerprintSize_def)
qed


definition failing_rounds :: "((gotime \<times> gotime \<times> gotime) \<times> visit) list" where
  "failing_rounds = replicate 7 ((1000, 0, 0), sample_rest\<lparr>vi_deleteErr := Some (ErrMessage ''locked'')\<rparr>)"

theorem deletion_retries_bounded_witness:
  "length (bw_deletes (snd (retire_rounds (sample_azure BlobFormatText) ''x.log'' failing_rounds
      (UpdateProgress ''x.log'' (no_progress\<lparr>bp_Offset := 2, bp_LastModified := 1\<rparr>) NewPollingCheckpoint,
       sample_world)))) \<le> 5"
proof -
  let ?c = "UpdateProgress ''x.log'' (no_progress\<lparr>bp_Offset := 2, bp_LastModified := 1\<rparr>) NewPollingCheckpoint"
  obtain c1 w1 where run: "retire_rounds (sample_azure BlobFormatText) ''x.log'' failing_rounds (?c, sample_world)
      = (c1, w1)" by fastforce
  have faults: "\<forall>(cutoffs, v)\<in>set failing_rounds.
      \<exists>e. vi_deleteErr v = Some e \<and> \<not> is_canceled e \<and> \<not> IsBlobNotFound e"
    by (simp add: failing_rounds_def IsBlobNotFound_def HasCode_def)
  have pos: "0 \<le> bp_FinalizeFailures p" if "ProgressFor ?c ''x.log'' = Some p" for p
    using that by (auto simp: ProgressFor_def UpdateProgress_def no_progress_def)
  show ?thesis
    unfolding run snd_conv
    using deletion_retries_bounded [OF faults pos run] by (simp add: sample_world_def)
qed

definition one_visit :: "PollingCheckPoint \<Rightarrow> PollingCheckPoint \<times> blob_world" where
  "one_visit c = run_visits (sample_azure BlobFormatText) ''x.log'' [sample_rest] (c, sample_world)"

theorem replaced_blob_read_anew_witness:
  "snd (one_visit (UpdateProgress ''x.log'' (no_progress\<lparr>bp_Offset := 2, bp_Fingerprint := ''zz''\<rparr>) NewPollingCheckpoint))
     = snd (one_visit NewPollingCheckpoint)
   \<and> ProgressFor (fst (one_visit (UpdateProgress ''x.log''
         (no_progress\<lparr>bp_Offset := 2, bp_Fingerprint := ''zz''\<rparr>) NewPollingCheckpoint))) ''x.log''
     = ProgressFor (fst (one_visit NewPollingCheckpoint)) ''x.log''"
proof -
  let ?p = "no_progress\<lparr>bp_Offset := 2, bp_Fingerprint := ''zz''\<rparr>"
  let ?c = "UpdateProgress ''x.log'' ?p NewPollingCheckpoint"
  obtain c1 w1 where r1: "run_visits (sample_azure BlobFormatText) ''x.log'' [sample_rest] (?c, sample_world) = (c1, w1)"
    by (metis surj_pair)
  obtain c2 w2 where r2: "run_visits (sample_azure BlobFormatText) ''x.log'' [sample_rest]
      (?c\<lparr>pk_Progress := (pk_Progress ?c)(''x.log'' := None)\<rparr>, sample_world) = (c2, w2)"
    by (metis surj_pair)
  have new: "?c\<lparr>pk_Progress := (pk_Progress ?c)(''x.log'' := None)\<rparr> = NewPollingCheckpoint"
    by (simp add: UpdateProgress_def NewPollingCheckpoint_def)
  have "w1 = w2 \<and> ProgressFor c1 ''x.log'' = ProgressFor c2 ''x.log''"
    by (rule replaced_blob_read_anew [where prog = ?p, OF _ _ _ _ _ _ _ _ r1 r2])
       (simp_all add: sample_rest_def sample_visit_def fault_free_def extension_fits_def sample_azure_def
         ProgressFor_def UpdateProgress_def no_progress_def)
  with r1 r2 new show ?thesis by (simp add: one_visit_def)
qed

end
