(* ===== verification/PData.thy ===== *)
theory PData
  imports JsonScan
begin

text \<open>
  The collector's attribute values (\<open>pcommon.Value\<close>, \<open>pcommon.Map\<close>, \<open>pcommon.Slice\<close>) as far as the
  processors use them: a map is the list of its entries in order, a double is its bits. And the
  comparison of strings without regard to case.
\<close>

datatype pvalue =
    VEmpty
  | VStr string
  | VBool bool
  | VInt i64
  | VDouble "64 word"
  | VBytes bytes
  | VMap "(string \<times> pvalue) list"
  | VSlice "pvalue list"

type_synonym pmap = "(string \<times> pvalue) list"

section \<open>Runes\<close>

function runes :: "bytes \<Rightarrow> nat list" where
  "runes s = (if s = [] then [] else case DecodeRune s of (r, n) \<Rightarrow> r # runes (drop n s))"
  by auto
termination
  by (relation "measure length") (simp_all add: DecodeRune_pos)

declare runes.simps [simp del]

text \<open>
  \<open>strings.EqualFold\<close>; \<open>ci\<close> gives every rune a representative of its class under simple folding
  (a table of Unicode).
\<close>

definition EqualFold :: "(nat \<Rightarrow> nat) \<Rightarrow> string \<Rightarrow> string \<Rightarrow> bool" where
  "EqualFold ci s t = (map ci (runes s) = map ci (runes t))"

definition ascii_fold :: "nat \<Rightarrow> nat" where
  "ascii_fold r = (if 65 \<le> r \<and> r \<le> 90 then r + 32 else r)"

end
