(* ===== verification/RemoveEmpty.thy ===== *)
theory RemoveEmpty
  imports PData
begin

text \<open>
  The processor that removes empty values (\<open>processor/removeemptyvaluesprocessor\<close>): its exclude
  keys, the removal from maps, slices and bodies, and the walk over logs, metrics and traces.
  Of a record only what the processor touches is here.
\<close>

section \<open>Configuration\<close>

record MapKey =
  mk_field :: string
  mk_key :: string

definition allFields :: "string list" where
  "allFields = [''attributes'', ''resource'', ''body'']"

datatype key_err = NoField string | NoKey string | InvalidField string

definition UnmarshalText :: "string \<Rightarrow> key_err + MapKey" where
  "UnmarshalText s =
     (if s \<in> set allFields then Inr \<lparr>mk_field = s, mk_key = []\<rparr>
      else (let field = takeWhile (\<lambda>c. c \<noteq> CHR ''.'') s; key = drop (Suc (length field)) s
            in if CHR ''.'' \<notin> set s then Inl (NoField s)
               else if length key = 0 then Inl (NoKey s)
               else Inr \<lparr>mk_field = field, mk_key = key\<rparr>))"

definition MapKey_Validate :: "MapKey \<Rightarrow> key_err option" where
  "MapKey_Validate m = (if mk_field m \<in> set allFields then None else Some (InvalidField (mk_field m)))"

record rev_config =
  rv_RemoveNulls :: bool
  rv_RemoveEmptyLists :: bool
  rv_RemoveEmptyMaps :: bool
  rv_EmptyStringValues :: "string list"
  rv_ExcludeKeys :: "MapKey list"

text \<open>The first exclude key that does not name a field, by its position.\<close>

fun first_invalid :: "nat \<Rightarrow> MapKey list \<Rightarrow> (nat \<times> key_err) option" where
  "first_invalid i [] = None"
| "first_invalid i (k # ks) =
     (case MapKey_Validate k of Some e \<Rightarrow> Some (i, e) | None \<Rightarrow> first_invalid (Suc i) ks)"

definition rev_config_Validate :: "rev_config \<Rightarrow> (nat \<times> key_err) option" where
  "rev_config_Validate cfg = first_invalid 0 (rv_ExcludeKeys cfg)"

text \<open>The processor: its configuration and the sets of excluded keys, as lists.\<close>

record emptyValueProcessor =
  ev_c :: rev_config
  ev_excludeResourceKeySet :: "string list"
  ev_excludeAttributeKeySet :: "string list"
  ev_excludeBodyKeySet :: "string list"

definition keys_of :: "string \<Rightarrow> rev_config \<Rightarrow> string list" where
  "keys_of field cfg = map mk_key (filter (\<lambda>m. mk_field m = field) (rv_ExcludeKeys cfg))"

definition newEmptyValueProcessor :: "rev_config \<Rightarrow> emptyValueProcessor" where
  "newEmptyValueProcessor cfg =
     \<lparr>ev_c = cfg, ev_excludeResourceKeySet = keys_of ''resource'' cfg,
      ev_excludeAttributeKeySet = keys_of ''attributes'' cfg, ev_excludeBodyKeySet = keys_of ''body'' cfg\<rparr>"

definition SkipResourceAttributes :: "emptyValueProcessor \<Rightarrow> bool" where
  "SkipResourceAttributes evp = ([] \<in> set (ev_excludeResourceKeySet evp))"

definition SkipAttributes :: "emptyValueProcessor \<Rightarrow> bool" where
  "SkipAttributes evp = ([] \<in> set (ev_excludeAttributeKeySet evp))"

definition SkipBody :: "emptyValueProcessor \<Rightarrow> bool" where
  "SkipBody evp = ([] \<in> set (ev_excludeBodyKeySet evp))"

text \<open>A configuration that validates loses no exclude key: each is in one of the three sets.\<close>

lemma first_invalid_None: "first_invalid i ks = None \<longleftrightarrow> (\<forall>k\<in>set ks. mk_field k \<in> set allFields)"
  by (induction i ks rule: first_invalid.induct) (auto simp: MapKey_Validate_def)

lemma validated_keys_kept:
  assumes "rev_config_Validate cfg = None"
  shows "length (keys_of ''resource'' cfg) + length (keys_of ''attributes'' cfg) + length (keys_of ''body'' cfg)
    = length (rv_ExcludeKeys cfg)"
proof -
  have "\<forall>k\<in>set ks. mk_field k \<in> set allFields \<Longrightarrow>
      length (filter (\<lambda>m. mk_field m = ''resource'') ks) + length (filter (\<lambda>m. mk_field m = ''attributes'') ks)
        + length (filter (\<lambda>m. mk_field m = ''body'') ks) = length ks" for ks
    by (induction ks) (auto simp: allFields_def)
  with assms show ?thesis by (simp add: rev_config_Validate_def first_invalid_None keys_of_def)
qed

section \<open>Removal\<close>

definition trimMapKeyPrefix :: "string \<Rightarrow> string list \<Rightarrow> string list" where
  "trimMapKeyPrefix p keySet =
     map (drop (length p + 1)) (filter (\<lambda>key. take (length p + 1) key = p @ ''.'') keySet)"

definition shouldFilterString :: "(nat \<Rightarrow> nat) \<Rightarrow> string \<Rightarrow> string list \<Rightarrow> bool" where
  "shouldFilterString ci s emptyValues = (\<exists>e\<in>set emptyValues. EqualFold ci s e)"

text \<open>
  What becomes of an entry or an item once it is cleaned inside: whether it is removed. The code
  has this switch in \<open>cleanMap\<close> and, written out again, in \<open>cleanSlice\<close>.
\<close>

definition removable :: "(nat \<Rightarrow> nat) \<Rightarrow> rev_config \<Rightarrow> pvalue \<Rightarrow> bool" where
  "removable ci c v =
     (case v of
        VEmpty \<Rightarrow> rv_RemoveNulls c
      | VMap m \<Rightarrow> rv_RemoveEmptyMaps c \<and> length m = 0
      | VSlice xs \<Rightarrow> rv_RemoveEmptyLists c \<and> length xs = 0
      | VStr s \<Rightarrow> shouldFilterString ci s (rv_EmptyStringValues c)
      | _ \<Rightarrow> False)"

fun cleanMap :: "(nat \<Rightarrow> nat) \<Rightarrow> rev_config \<Rightarrow> string list \<Rightarrow> pmap \<Rightarrow> pmap"
  and cleanSlice :: "(nat \<Rightarrow> nat) \<Rightarrow> rev_config \<Rightarrow> string list \<Rightarrow> pvalue list \<Rightarrow> pvalue list"
  and cleanInside :: "(nat \<Rightarrow> nat) \<Rightarrow> rev_config \<Rightarrow> string list \<Rightarrow> pvalue \<Rightarrow> pvalue" where
  "cleanMap ci c excludeKeys [] = []"
| "cleanMap ci c excludeKeys ((s, v) # m) =
     (if s \<in> set excludeKeys then (s, v) # cleanMap ci c excludeKeys m
      else (let v' = cleanInside ci c (trimMapKeyPrefix s excludeKeys) v
            in if removable ci c v' then cleanMap ci c excludeKeys m
               else (s, v') # cleanMap ci c excludeKeys m))"
| "cleanSlice ci c excludeKeys [] = []"
| "cleanSlice ci c excludeKeys (item # items) =
     (let v' = cleanInside ci c excludeKeys item
      in if removable ci c v' then cleanSlice ci c excludeKeys items
         else v' # cleanSlice ci c excludeKeys items)"
| "cleanInside ci c excludeKeys (VMap m) = VMap (cleanMap ci c excludeKeys m)"
| "cleanInside ci c excludeKeys (VSlice xs) = VSlice (cleanSlice ci c excludeKeys xs)"
| "cleanInside ci c excludeKeys v = v"

definition cleanLogBody :: "(nat \<Rightarrow> nat) \<Rightarrow> rev_config \<Rightarrow> string list \<Rightarrow> pvalue \<Rightarrow> pvalue" where
  "cleanLogBody ci c keys body =
     (case body of
        VMap m \<Rightarrow>
          (let m' = cleanMap ci c keys m in if rv_RemoveEmptyMaps c \<and> length m' = 0 then VEmpty else VMap m')
      | VSlice xs \<Rightarrow>
          (let xs' = cleanSlice ci c keys xs in if rv_RemoveEmptyLists c \<and> length xs' = 0 then VEmpty else VSlice xs')
      | VStr s \<Rightarrow> if shouldFilterString ci s (rv_EmptyStringValues c) then VEmpty else body
      | _ \<Rightarrow> body)"

section \<open>Telemetry\<close>

record log_record =
  lg_Attributes :: pmap
  lg_Body :: pvalue

record 'r resource_entry =
  re_Attributes :: pmap
  re_Scopes :: "'r list list"

datatype metric =
    Gauge "pmap list"
  | Histogram "pmap list"
  | Sum "pmap list"
  | Summary "pmap list"
  | ExponentialHistogram "pmap list"
  | NoMetric

definition cleanMetricAttrs :: "(nat \<Rightarrow> nat) \<Rightarrow> rev_config \<Rightarrow> string list \<Rightarrow> metric \<Rightarrow> metric" where
  "cleanMetricAttrs ci c keys m =
     (case m of
        Gauge dps \<Rightarrow> Gauge (map (cleanMap ci c keys) dps)
      | Histogram dps \<Rightarrow> Histogram (map (cleanMap ci c keys) dps)
      | Sum dps \<Rightarrow> Sum (map (cleanMap ci c keys) dps)
      | Summary dps \<Rightarrow> Summary (map (cleanMap ci c keys) dps)
      | ExponentialHistogram dps \<Rightarrow> ExponentialHistogram (map (cleanMap ci c keys) dps)
      | NoMetric \<Rightarrow> NoMetric)"

definition clean_resource :: "(nat \<Rightarrow> nat) \<Rightarrow> emptyValueProcessor \<Rightarrow> 'r resource_entry \<Rightarrow> 'r resource_entry" where
  "clean_resource ci evp r =
     (if \<not> SkipResourceAttributes evp
      then r\<lparr>re_Attributes := cleanMap ci (ev_c evp) (ev_excludeResourceKeySet evp) (re_Attributes r)\<rparr> else r)"

definition clean_log :: "(nat \<Rightarrow> nat) \<Rightarrow> emptyValueProcessor \<Rightarrow> log_record \<Rightarrow> log_record" where
  "clean_log ci evp lr =
     (let lr1 = (if \<not> SkipAttributes evp
                 then lr\<lparr>lg_Attributes := cleanMap ci (ev_c evp) (ev_excludeAttributeKeySet evp) (lg_Attributes lr)\<rparr>
                 else lr)
      in if \<not> SkipBody evp
         then lr1\<lparr>lg_Body := cleanLogBody ci (ev_c evp) (ev_excludeBodyKeySet evp) (lg_Body lr1)\<rparr> else lr1)"

definition rev_processLogs ::
    "(nat \<Rightarrow> nat) \<Rightarrow> emptyValueProcessor \<Rightarrow> log_record resource_entry list \<Rightarrow> log_record resource_entry list" where
  "rev_processLogs ci evp ld =
     map (\<lambda>r. (clean_resource ci evp r)\<lparr>re_Scopes := map (map (clean_log ci evp)) (re_Scopes r)\<rparr>) ld"

definition rev_processTraces ::
    "(nat \<Rightarrow> nat) \<Rightarrow> emptyValueProcessor \<Rightarrow> pmap resource_entry list \<Rightarrow> pmap resource_entry list" where
  "rev_processTraces ci evp td =
     map (\<lambda>r. let r1 = clean_resource ci evp r
              in if SkipAttributes evp then r1
                 else r1\<lparr>re_Scopes := map (map (cleanMap ci (ev_c evp) (ev_excludeAttributeKeySet evp))) (re_Scopes r1)\<rparr>) td"

definition rev_processMetrics ::
    "(nat \<Rightarrow> nat) \<Rightarrow> emptyValueProcessor \<Rightarrow> metric resource_entry list \<Rightarrow> metric resource_entry list" where
  "rev_processMetrics ci evp md =
     map (\<lambda>r. let r1 = clean_resource ci evp r
              in if SkipAttributes evp then r1
                 else r1\<lparr>re_Scopes :=
                        map (map (cleanMetricAttrs ci (ev_c evp) (ev_excludeAttributeKeySet evp))) (re_Scopes r1)\<rparr>) md"

lemma removable_simps [simp]:
  "removable ci c VEmpty = rv_RemoveNulls c" "removable ci c (VMap m) = (rv_RemoveEmptyMaps c \<and> m = [])"
  "removable ci c (VSlice xs) = (rv_RemoveEmptyLists c \<and> xs = [])"
  "removable ci c (VStr s) = shouldFilterString ci s (rv_EmptyStringValues c)"
  "\<not> removable ci c (VBool b)" "\<not> removable ci c (VInt i)" "\<not> removable ci c (VDouble d)"
  "\<not> removable ci c (VBytes bs)"
  by (auto simp: removable_def)

section \<open>Once is enough\<close>

lemma clean_again:
  "cleanMap ci c ex (cleanMap ci c ex m) = cleanMap ci c ex m"
  "cleanSlice ci c ex (cleanSlice ci c ex xs) = cleanSlice ci c ex xs"
  "cleanInside ci c ex (cleanInside ci c ex v) = cleanInside ci c ex v"
  by (induction ci c ex m and ci c ex xs and ci c ex v rule: cleanMap_cleanSlice_cleanInside.induct)
     (auto simp: Let_def)

lemma cleanLogBody_again: "cleanLogBody ci c ex (cleanLogBody ci c ex v) = cleanLogBody ci c ex v"
  by (cases v) (auto simp: cleanLogBody_def Let_def clean_again)

lemma clean_log_again: "clean_log ci evp (clean_log ci evp lr) = clean_log ci evp lr"
  by (simp add: clean_log_def Let_def clean_again cleanLogBody_again)

lemma cleanMetricAttrs_again: "cleanMetricAttrs ci c ex (cleanMetricAttrs ci c ex m) = cleanMetricAttrs ci c ex m"
  by (cases m) (simp_all add: cleanMetricAttrs_def clean_again)

lemma clean_resource_again:
  "re_Attributes (clean_resource ci evp ((clean_resource ci evp r)\<lparr>re_Scopes := ss\<rparr>))
     = re_Attributes (clean_resource ci evp r)"
  by (simp add: clean_resource_def clean_again)

section \<open>What is removed\<close>

text \<open>
  What counts as empty, from the configuration alone: a null if nulls are removed, a string of the
  configured ones, and, where that is configured, a map or a slice that holds nothing but empty
  values, none of them named by an exclude key.
\<close>

fun void :: "(nat \<Rightarrow> nat) \<Rightarrow> rev_config \<Rightarrow> string list \<Rightarrow> pvalue \<Rightarrow> bool"
  and void_entries :: "(nat \<Rightarrow> nat) \<Rightarrow> rev_config \<Rightarrow> string list \<Rightarrow> pmap \<Rightarrow> bool"
  and void_items :: "(nat \<Rightarrow> nat) \<Rightarrow> rev_config \<Rightarrow> string list \<Rightarrow> pvalue list \<Rightarrow> bool" where
  "void ci c ex VEmpty = rv_RemoveNulls c"
| "void ci c ex (VStr s) = (\<exists>e\<in>set (rv_EmptyStringValues c). EqualFold ci s e)"
| "void ci c ex (VMap m) = (rv_RemoveEmptyMaps c \<and> void_entries ci c ex m)"
| "void ci c ex (VSlice xs) = (rv_RemoveEmptyLists c \<and> void_items ci c ex xs)"
| "void ci c ex v = False"
| "void_entries ci c ex [] = True"
| "void_entries ci c ex ((s, v) # m) =
     (s \<notin> set ex \<and> void ci c (trimMapKeyPrefix s ex) v \<and> void_entries ci c ex m)"
| "void_items ci c ex [] = True"
| "void_items ci c ex (v # xs) = (void ci c ex v \<and> void_items ci c ex xs)"

text \<open>
  The nodes of a map, from the root down: every entry and item with the path to it, whether it counts
  as empty, and its value, a map or slice standing for itself alone. What an exclude key names is one
  node with its whole value.
\<close>

datatype path_step = Key string | Item

type_synonym node = "path_step list \<times> bool \<times> pvalue"

definition under :: "path_step \<Rightarrow> node list \<Rightarrow> node list" where
  "under p ns = map (\<lambda>(q, gone, v). (p # q, gone, v)) ns"

fun nodesMap :: "(nat \<Rightarrow> nat) \<Rightarrow> rev_config \<Rightarrow> string list \<Rightarrow> pmap \<Rightarrow> node list"
  and nodesSlice :: "(nat \<Rightarrow> nat) \<Rightarrow> rev_config \<Rightarrow> string list \<Rightarrow> pvalue list \<Rightarrow> node list"
  and nodesValue :: "(nat \<Rightarrow> nat) \<Rightarrow> rev_config \<Rightarrow> string list \<Rightarrow> pvalue \<Rightarrow> node list" where
  "nodesMap ci c ex [] = []"
| "nodesMap ci c ex ((s, v) # m) =
     (if s \<in> set ex then [([Key s], False, v)]
      else under (Key s) (nodesValue ci c (trimMapKeyPrefix s ex) v)) @ nodesMap ci c ex m"
| "nodesSlice ci c ex [] = []"
| "nodesSlice ci c ex (v # xs) = under Item (nodesValue ci c ex v) @ nodesSlice ci c ex xs"
| "nodesValue ci c ex (VMap m) = ([], void ci c ex (VMap m), VMap []) # nodesMap ci c ex m"
| "nodesValue ci c ex (VSlice xs) = ([], void ci c ex (VSlice xs), VSlice []) # nodesSlice ci c ex xs"
| "nodesValue ci c ex v = [([], void ci c ex v, v)]"

definition stays :: "node \<Rightarrow> bool" where
  "stays n = (case n of (p, gone, v) \<Rightarrow> \<not> gone)"

lemma stays_node [simp]: "stays (p, gone, v) = (\<not> gone)"
  by (simp add: stays_def)

lemma filter_under [simp]: "filter stays (under p ns) = under p (filter stays ns)"
  by (induction ns) (auto simp: under_def)

lemma under_Nil [simp]: "under p [] = []"
  by (simp add: under_def)

text \<open>What the removal inside leaves of a value is removed just when the value counts as empty.\<close>

lemma removable_void:
  "cleanMap ci c ex m = [] \<longleftrightarrow> void_entries ci c ex m"
  "cleanSlice ci c ex xs = [] \<longleftrightarrow> void_items ci c ex xs"
  "removable ci c (cleanInside ci c ex v) \<longleftrightarrow> void ci c ex v"
  by (induction ci c ex m and ci c ex xs and ci c ex v rule: cleanMap_cleanSlice_cleanInside.induct)
     (auto simp: Let_def shouldFilterString_def)

lemma void_clean: "void ci c ex (cleanInside ci c ex v) = void ci c ex v"
  by (simp add: removable_void(3) [symmetric] clean_again(3))

text \<open>Below an empty value all is empty.\<close>

lemma void_below:
  "void ci c ex v \<Longrightarrow> filter stays (nodesValue ci c ex v) = []"
  "void_entries ci c ex m \<Longrightarrow> filter stays (nodesMap ci c ex m) = []"
  "void_items ci c ex xs \<Longrightarrow> filter stays (nodesSlice ci c ex xs) = []"
  by (induction ci c ex v and ci c ex m and ci c ex xs rule: void_void_entries_void_items.induct) simp_all

lemma clean_nodes:
  "nodesMap ci c ex (cleanMap ci c ex m) = filter stays (nodesMap ci c ex m)"
  "nodesSlice ci c ex (cleanSlice ci c ex xs) = filter stays (nodesSlice ci c ex xs)"
  "\<not> void ci c ex v \<Longrightarrow> nodesValue ci c ex (cleanInside ci c ex v) = filter stays (nodesValue ci c ex v)"
proof (induction ci c ex m and ci c ex xs and ci c ex v rule: cleanMap_cleanSlice_cleanInside.induct)
  case (2 ci c ex s v m)
  then show ?case
    by (cases "void ci c (trimMapKeyPrefix s ex) v") (simp_all add: Let_def removable_void(3) void_below(1))
next
  case (4 ci c ex v xs)
  then show ?case by (cases "void ci c ex v") (simp_all add: Let_def removable_void(3) void_below(1))
next
  case (5 ci c ex m)
  then show ?case using void_clean [of ci c ex "VMap m"] by simp
next
  case (6 ci c ex xs)
  then show ?case using void_clean [of ci c ex "VSlice xs"] by simp
qed auto

section \<open>The processor\<close>

text \<open>An empty body has no nodes, and a body that counts as empty becomes an empty one.\<close>

definition body_nodes :: "(nat \<Rightarrow> nat) \<Rightarrow> rev_config \<Rightarrow> string list \<Rightarrow> pvalue \<Rightarrow> node list" where
  "body_nodes ci c ex v = (if v = VEmpty then [] else nodesValue ci c ex v)"

lemma cleanLogBody_void:
  "cleanLogBody ci c ex v = (if v = VEmpty \<or> void ci c ex v then VEmpty else cleanInside ci c ex v)"
  by (cases v) (auto simp: cleanLogBody_def shouldFilterString_def removable_void Let_def)

lemma cleanInside_not_VEmpty: "cleanInside ci c ex v = VEmpty \<longleftrightarrow> v = VEmpty"
  by (cases v) auto

lemma clean_body_nodes: "body_nodes ci c ex (cleanLogBody ci c ex v) = filter stays (body_nodes ci c ex v)"
  by (auto simp: body_nodes_def cleanLogBody_void cleanInside_not_VEmpty void_below(1) clean_nodes(3))

text \<open>All the nodes of logs, metrics and traces: of the resources, attributes and bodies.\<close>

abbreviation resource_nodes :: "(nat \<Rightarrow> nat) \<Rightarrow> emptyValueProcessor \<Rightarrow> pmap \<Rightarrow> node list" where
  "resource_nodes ci evp \<equiv> nodesMap ci (ev_c evp) (ev_excludeResourceKeySet evp)"

abbreviation attr_nodes :: "(nat \<Rightarrow> nat) \<Rightarrow> emptyValueProcessor \<Rightarrow> pmap \<Rightarrow> node list" where
  "attr_nodes ci evp \<equiv> nodesMap ci (ev_c evp) (ev_excludeAttributeKeySet evp)"

definition log_nodes :: "(nat \<Rightarrow> nat) \<Rightarrow> emptyValueProcessor \<Rightarrow> log_record resource_entry list
    \<Rightarrow> (node list \<times> (node list \<times> node list) list list) list" where
  "log_nodes ci evp ld =
     map (\<lambda>r. (resource_nodes ci evp (re_Attributes r),
               map (map (\<lambda>lr. (attr_nodes ci evp (lg_Attributes lr),
                               body_nodes ci (ev_c evp) (ev_excludeBodyKeySet evp) (lg_Body lr)))) (re_Scopes r))) ld"

definition trace_nodes :: "(nat \<Rightarrow> nat) \<Rightarrow> emptyValueProcessor \<Rightarrow> pmap resource_entry list
    \<Rightarrow> (node list \<times> node list list list) list" where
  "trace_nodes ci evp td =
     map (\<lambda>r. (resource_nodes ci evp (re_Attributes r), map (map (attr_nodes ci evp)) (re_Scopes r))) td"

text \<open>The kind of a metric and the attributes of its datapoints.\<close>

fun points_of :: "metric \<Rightarrow> nat \<times> pmap list" where
  "points_of (Gauge dps) = (0, dps)"
| "points_of (Histogram dps) = (1, dps)"
| "points_of (Sum dps) = (2, dps)"
| "points_of (Summary dps) = (3, dps)"
| "points_of (ExponentialHistogram dps) = (4, dps)"
| "points_of NoMetric = (5, [])"

definition metric_nodes :: "(nat \<Rightarrow> nat) \<Rightarrow> emptyValueProcessor \<Rightarrow> metric resource_entry list
    \<Rightarrow> (node list \<times> (nat \<times> node list list) list list) list" where
  "metric_nodes ci evp md =
     map (\<lambda>r. (resource_nodes ci evp (re_Attributes r),
               map (map (\<lambda>m. (fst (points_of m), map (attr_nodes ci evp) (snd (points_of m))))) (re_Scopes r))) md"

definition unless :: "bool \<Rightarrow> ('a \<Rightarrow> bool) \<Rightarrow> 'a list \<Rightarrow> 'a list" where
  "unless skip P xs = (if skip then xs else filter P xs)"

lemma cleaned_points:
  "fst (points_of (cleanMetricAttrs ci c ex m)) = fst (points_of m)"
  "map (nodesMap ci c ex) (snd (points_of (cleanMetricAttrs ci c ex m)))
     = map (filter stays) (map (nodesMap ci c ex) (snd (points_of m)))"
  by (cases m; simp add: cleanMetricAttrs_def clean_nodes(1) comp_def)+


text \<open>
  The processor leaves nothing to remove: running it on its own output changes nothing, for
  logs, metrics and traces. A map or slice that is emptied by the removal of what it held is
  itself removed in the same run, where that is configured.
\<close>

theorem removal_idempotent:
  "rev_processLogs ci evp (rev_processLogs ci evp ld) = rev_processLogs ci evp ld
   \<and> rev_processMetrics ci evp (rev_processMetrics ci evp md) = rev_processMetrics ci evp md
   \<and> rev_processTraces ci evp (rev_processTraces ci evp td) = rev_processTraces ci evp td"
  by (simp add: rev_processLogs_def rev_processMetrics_def rev_processTraces_def clean_resource_def
      clean_again clean_log_again cleanMetricAttrs_again comp_def Let_def)

text \<open>A string body that counts as empty is cleared, though the documentation names maps only.\<close>

theorem string_body_cleared:
  "shouldFilterString ci s (rv_EmptyStringValues c) \<Longrightarrow> cleanLogBody ci c keys (VStr s) = VEmpty"
  by (simp add: cleanLogBody_def)

end
