(* ===== verification/Chronicle.thy ===== *)
theory Chronicle
  imports PData BlobTail "HOL-Library.Multiset" "HOL-Library.List_Lexorder" "HOL-Library.Char_ord"
begin

text \<open>
  The Chronicle exporter (\<open>exporter/chronicleexporter\<close>: \<open>marshal.go\<close>, \<open>log_grouper.go\<close>, \<open>metrics.go\<close>): what
  log type, namespace and labels a record is sent with, the grouping of records into requests,
  the splitting of requests that are too large, and the counters that are reported to the
  service.

  Parameters: the text of a record (\<open>raw_log\<close>: \<open>json.Marshal\<close> or an OTTL expression), \<open>AsString\<close> of
  attribute values, and \<open>proto.Size\<close>. A Go map is the list of its entries in the order in which the
  runtime ranges over it.
\<close>

section \<open>Records, labels, entries\<close>

type_synonym label = "string \<times> string"

record chr_record =
  cr_Timestamp :: i64
  cr_ObservedTimestamp :: i64
  cr_Attributes :: pmap
  cr_Body :: pvalue

record chr_config =
  cc_LogType :: string
  cc_ValidateLogTypes :: bool
  cc_OverrideLogType :: bool
  cc_Namespace :: string
  cc_IngestionLabels :: "label list"
  cc_RBACEnabledLabels :: "string list"

text \<open>The marshaler: its configuration and the log types loaded from the service, if they were.\<close>

record protoMarshaler =
  pm_cfg :: chr_config
  pm_logTypes :: "string list option"

text \<open>\<open>Attributes().AsRaw()\<close> and a look at one key that must hold a string.\<close>

definition attr_string :: "string \<Rightarrow> chr_record \<Rightarrow> string" where
  "attr_string k r = (case map_of (rev (cr_Attributes r)) k of Some (VStr s) \<Rightarrow> s | _ \<Rightarrow> [])"

definition supportedLogTypes :: "string \<rightharpoonup> string" where
  "supportedLogTypes =
     [''windows_event.security'' \<mapsto> ''WINEVTLOG'', ''windows_event.application'' \<mapsto> ''WINEVTLOG'',
      ''windows_event.system'' \<mapsto> ''WINEVTLOG'', ''sql_server'' \<mapsto> ''MICROSOFT_SQL'']"

definition shouldValidateLogType :: "protoMarshaler \<Rightarrow> bool" where
  "shouldValidateLogType m = (cc_ValidateLogTypes (pm_cfg m) \<and> pm_logTypes m \<noteq> None)"

definition known_log_type :: "protoMarshaler \<Rightarrow> string \<Rightarrow> bool" where
  "known_log_type m t = (case pm_logTypes m of None \<Rightarrow> False | Some ts \<Rightarrow> t \<in> set ts)"

definition getLogType :: "protoMarshaler \<Rightarrow> chr_record \<Rightarrow> string" where
  "getLogType m r =
     (let logType = attr_string ''chronicle_log_type'' r;
          rest = (\<lambda>_::unit.
            if cc_LogType (pm_cfg m) = [] then ''CATCH_ALL''
            else if shouldValidateLogType m \<and> \<not> known_log_type m (cc_LogType (pm_cfg m)) then ''CATCH_ALL''
            else cc_LogType (pm_cfg m));
          override = (\<lambda>_::unit.
            if cc_OverrideLogType (pm_cfg m) then
              (let t = attr_string ''log_type'' r
               in if t \<noteq> [] then (case supportedLogTypes t of Some c \<Rightarrow> c | None \<Rightarrow> rest ()) else rest ())
            else rest ())
      in if logType \<noteq> [] then
           (if shouldValidateLogType m then (if known_log_type m logType then logType else override ()) else logType)
         else override ())"

definition getNamespace :: "protoMarshaler \<Rightarrow> chr_record \<Rightarrow> string" where
  "getNamespace m r =
     (let namespace = attr_string ''chronicle_namespace'' r
      in if namespace \<noteq> [] then namespace else cc_Namespace (pm_cfg m))"

fun put :: "'k \<Rightarrow> 'v \<Rightarrow> ('k \<times> 'v) list \<Rightarrow> ('k \<times> 'v) list" where
  "put k v [] = [(k, v)]"
| "put k v ((k', v') # m) = (if k = k' then (k, v) # m else (k', v') # put k v m)"

definition put_all :: "('k \<times> 'v) list \<Rightarrow> ('k \<times> 'v) list \<Rightarrow> ('k \<times> 'v) list" where
  "put_all kvs m = foldl (\<lambda>m (k, v). put k v m) m kvs"

text \<open>\<open>json.Unmarshal\<close> into a \<open>map[string]string\<close>: \<open>null\<close> is no map, a member \<open>null\<close> the empty string.\<close>

definition json_string_map :: "bytes \<Rightarrow> label list option" where
  "json_string_map s =
     (if \<not> json_Valid s then None
      else (case Decode (NewDecoder s) of
              (Inl e, d) \<Rightarrow> None
            | (Inr raw, d) \<Rightarrow>
                if raw = ''null'' then Some []
                else if \<not> is_object_raw raw then None
                else if list_all (\<lambda>(k, v). v = ''null'' \<or> hd v = CHR 0x22) (members_of raw)
                then Some (map (\<lambda>(k, v). (k, if v = ''null'' then [] else unquote (butlast (tl v)))) (members_of raw))
                else None))"

definition trim_chars :: "string \<Rightarrow> string \<Rightarrow> string" where
  "trim_chars cutset s = rev (dropWhile (\<lambda>c. c \<in> set cutset) (rev (dropWhile (\<lambda>c. c \<in> set cutset) s)))"

definition ingestionLabelsPrefix :: string where
  "ingestionLabelsPrefix = ''chronicle_ingestion_label''"

fun add_labels :: "(pvalue \<Rightarrow> string) \<Rightarrow> pmap \<Rightarrow> label list \<Rightarrow> label list" where
  "add_labels AsString [] merged = merged"
| "add_labels AsString ((key, v) # attrs) merged =
     (if take (length ingestionLabelsPrefix) key \<noteq> ingestionLabelsPrefix then add_labels AsString attrs merged
      else (let cleanKey = trim_chars (CHR 0x22 # ''[]'') (drop (length ingestionLabelsPrefix) key)
            in add_labels AsString attrs
                 (case json_string_map (AsString v) of
                    Some jsonMap \<Rightarrow> put_all jsonMap merged
                  | None \<Rightarrow> put cleanKey (AsString v) merged)))"

definition aggregateIngestionLabels :: "(pvalue \<Rightarrow> string) \<Rightarrow> protoMarshaler \<Rightarrow> chr_record \<Rightarrow> label list" where
  "aggregateIngestionLabels AsString m r =
     add_labels AsString (cr_Attributes r) (put_all (cc_IngestionLabels (pm_cfg m)) [])"

definition getHTTPIngestionLabels ::
    "(pvalue \<Rightarrow> string) \<Rightarrow> protoMarshaler \<Rightarrow> chr_record \<Rightarrow> (string \<times> string \<times> bool) list" where
  "getHTTPIngestionLabels AsString m r =
     map (\<lambda>(k, v). (k, v, k \<in> set (cc_RBACEnabledLabels (pm_cfg m)))) (aggregateIngestionLabels AsString m r)"

text \<open>Times are nanoseconds since 1970; \<open>now\<close> is the clock.\<close>

definition getObservedTimestamp :: "i64 \<Rightarrow> chr_record \<Rightarrow> i64" where
  "getObservedTimestamp now r = (if cr_ObservedTimestamp r \<noteq> 0 then cr_ObservedTimestamp r else now)"

definition getTimestamp :: "i64 \<Rightarrow> chr_record \<Rightarrow> i64" where
  "getTimestamp now r = (if cr_Timestamp r \<noteq> 0 then cr_Timestamp r else getObservedTimestamp now r)"

record log_entry =
  le_Timestamp :: i64
  le_CollectionTime :: i64
  le_Data :: bytes

section \<open>Grouping\<close>

record logGroup =
  gp_namespace :: string
  gp_logType :: string
  gp_ingestionLabels :: "label list"
  gp_entries :: "log_entry list"

fun join_with :: "char \<Rightarrow> string list \<Rightarrow> string" where
  "join_with sep [] = []"
| "join_with sep [s] = s"
| "join_with sep (s # ss) = s @ sep # join_with sep ss"

definition label_text :: "label \<Rightarrow> string" where
  "label_text l = fst l @ ''='' @ snd l"

definition createGroupKey :: "string \<Rightarrow> string \<Rightarrow> label list \<Rightarrow> string" where
  "createGroupKey namespace logType ingestionLabels =
     namespace @ ''|'' @ logType
       @ (if length ingestionLabels > 0 then CHR ''|'' # join_with CHR '','' (sort (map label_text ingestionLabels)) else [])"

fun grouper_Add ::
    "log_entry \<Rightarrow> string \<Rightarrow> string \<Rightarrow> label list \<Rightarrow> (string \<times> logGroup) list \<Rightarrow> (string \<times> logGroup) list" where
  "grouper_Add e ns lt ls [] =
     [(createGroupKey ns lt ls,
       \<lparr>gp_namespace = ns, gp_logType = lt, gp_ingestionLabels = ls, gp_entries = [e]\<rparr>)]"
| "grouper_Add e ns lt ls ((k, g) # gs) =
     (if k = createGroupKey ns lt ls then (k, g\<lparr>gp_entries := gp_entries g @ [e]\<rparr>) # gs
      else (k, g) # grouper_Add e ns lt ls gs)"

text \<open>\<open>extractRawLogs\<close> over the records in order: the groups and the bytes of the records.\<close>

fun extract_records ::
    "(chr_record \<Rightarrow> string option) \<Rightarrow> (pvalue \<Rightarrow> string) \<Rightarrow> i64 \<Rightarrow> protoMarshaler \<Rightarrow> chr_record list
      \<Rightarrow> (string \<times> logGroup) list \<Rightarrow> nat \<Rightarrow> (string \<times> logGroup) list \<times> nat" where
  "extract_records raw_log AsString now m [] gs n = (gs, n)"
| "extract_records raw_log AsString now m (r # rs) gs n =
     (case raw_log r of
        None \<Rightarrow> extract_records raw_log AsString now m rs gs n
      | Some rawLog \<Rightarrow>
          if rawLog = [] then extract_records raw_log AsString now m rs gs n
          else extract_records raw_log AsString now m rs
                 (grouper_Add \<lparr>le_Timestamp = getTimestamp now r, le_CollectionTime = getObservedTimestamp now r,
                               le_Data = rawLog\<rparr>
                    (getNamespace m r) (getLogType m r) (aggregateIngestionLabels AsString m r) gs)
                 (n + length rawLog))"

definition extractRawLogs ::
    "(chr_record \<Rightarrow> string option) \<Rightarrow> (pvalue \<Rightarrow> string) \<Rightarrow> i64 \<Rightarrow> protoMarshaler \<Rightarrow> chr_record list list list
      \<Rightarrow> (string \<times> logGroup) list \<times> nat" where
  "extractRawLogs raw_log AsString now m ld = extract_records raw_log AsString now m (concat (concat ld)) [] 0"

section \<open>Requests\<close>

record grpc_request =
  gq_Entries :: "log_entry list"
  gq_LogType :: string
  gq_Namespace :: string
  gq_Labels :: "label list"

definition buildGRPCRequest :: "log_entry list \<Rightarrow> string \<Rightarrow> string \<Rightarrow> label list \<Rightarrow> grpc_request" where
  "buildGRPCRequest entries logType namespace ingestionLabels =
     \<lparr>gq_Entries = entries, gq_LogType = logType, gq_Namespace = namespace, gq_Labels = ingestionLabels\<rparr>"

function enforceMaximumsGRPCRequest :: "(grpc_request \<Rightarrow> nat) \<Rightarrow> nat \<Rightarrow> grpc_request \<Rightarrow> grpc_request list" where
  "enforceMaximumsGRPCRequest proto_Size limit request =
     (let entries = gq_Entries request; mid = length entries div 2
      in if proto_Size request \<le> limit then [request]
         else if length entries < 2 then []
         else enforceMaximumsGRPCRequest proto_Size limit (request\<lparr>gq_Entries := take mid entries\<rparr>)
              @ enforceMaximumsGRPCRequest proto_Size limit
                  (buildGRPCRequest (drop mid entries) (gq_LogType request) (gq_Namespace request) (gq_Labels request)))"
  by auto
termination
  by (relation "measure (\<lambda>(sz, l, rq). length (gq_Entries rq))") (auto simp: buildGRPCRequest_def)

declare enforceMaximumsGRPCRequest.simps [simp del]

definition constructPayloads ::
    "(grpc_request \<Rightarrow> nat) \<Rightarrow> nat \<Rightarrow> protoMarshaler \<Rightarrow> logGroup list \<Rightarrow> grpc_request list" where
  "constructPayloads proto_Size limit m groups =
     concat (map (\<lambda>g. enforceMaximumsGRPCRequest proto_Size limit
                        (buildGRPCRequest (gp_entries g) (gp_logType g)
                           (if gp_namespace g = [] then cc_Namespace (pm_cfg m) else gp_namespace g)
                           (gp_ingestionLabels g)))
               groups)"

section \<open>Requests over HTTP\<close>

record http_log =
  hl_entry :: log_entry
  hl_EnvironmentNamespace :: string
  hl_Labels :: "(string \<times> string \<times> bool) list"

fun extract_http_records ::
    "(chr_record \<Rightarrow> string option) \<Rightarrow> (pvalue \<Rightarrow> string) \<Rightarrow> i64 \<Rightarrow> protoMarshaler \<Rightarrow> chr_record list
      \<Rightarrow> (string \<times> http_log list) list \<Rightarrow> nat \<Rightarrow> (string \<times> http_log list) list \<times> nat" where
  "extract_http_records raw_log AsString now m [] es n = (es, n)"
| "extract_http_records raw_log AsString now m (r # rs) es n =
     (case raw_log r of
        None \<Rightarrow> extract_http_records raw_log AsString now m rs es n
      | Some rawLog \<Rightarrow>
          if rawLog = [] then extract_http_records raw_log AsString now m rs es n
          else (let logType = getLogType m r;
                    entry = \<lparr>hl_entry = \<lparr>le_Timestamp = getTimestamp now r,
                                         le_CollectionTime = getObservedTimestamp now r, le_Data = rawLog\<rparr>,
                             hl_EnvironmentNamespace = getNamespace m r, hl_Labels = getHTTPIngestionLabels AsString m r\<rparr>;
                    old = (case map_of es logType of None \<Rightarrow> [] | Some xs \<Rightarrow> xs)
                in extract_http_records raw_log AsString now m rs (put logType (old @ [entry]) es) (n + length rawLog)))"

definition extractRawHTTPLogs ::
    "(chr_record \<Rightarrow> string option) \<Rightarrow> (pvalue \<Rightarrow> string) \<Rightarrow> i64 \<Rightarrow> protoMarshaler \<Rightarrow> chr_record list list list
      \<Rightarrow> (string \<times> http_log list) list \<times> nat" where
  "extractRawHTTPLogs raw_log AsString now m ld = extract_http_records raw_log AsString now m (concat (concat ld)) [] 0"

record http_request =
  hq_Logs :: "http_log list"

definition buildHTTPRequest :: "http_log list \<Rightarrow> http_request" where
  "buildHTTPRequest entries = \<lparr>hq_Logs = entries\<rparr>"

function enforceMaximumsHTTPRequest :: "(http_request \<Rightarrow> nat) \<Rightarrow> nat \<Rightarrow> http_request \<Rightarrow> http_request list" where
  "enforceMaximumsHTTPRequest proto_Size limit request =
     (let logs = hq_Logs request; mid = length logs div 2
      in if proto_Size request \<le> limit then [request]
         else if length logs < 2 then []
         else enforceMaximumsHTTPRequest proto_Size limit (request\<lparr>hq_Logs := take mid logs\<rparr>)
              @ enforceMaximumsHTTPRequest proto_Size limit (buildHTTPRequest (drop mid logs)))"
  by auto
termination
  by (relation "measure (\<lambda>(sz, l, rq). length (hq_Logs rq))") (auto simp: buildHTTPRequest_def)

declare enforceMaximumsHTTPRequest.simps [simp del]

definition constructHTTPPayloads ::
    "(http_request \<Rightarrow> nat) \<Rightarrow> nat \<Rightarrow> (string \<times> http_log list) list \<Rightarrow> (string \<times> http_request list) list" where
  "constructHTTPPayloads proto_Size limit rawLogs =
     map (\<lambda>(logType, entries). (logType, enforceMaximumsHTTPRequest proto_Size limit (buildHTTPRequest entries)))
       (filter (\<lambda>(logType, entries). length entries > 0) rawLogs)"

section \<open>Splitting by halves\<close>

text \<open>
  Both protocols split a request that is too large into halves. The locale is what they share: a
  measure of a list of entries, a limit, and the recursion.
\<close>

locale halving =
  fixes measured :: "'e list \<Rightarrow> nat"
    and limit :: nat
    and split :: "'e list \<Rightarrow> 'e list list"
  assumes split_step: "split es =
     (if measured es \<le> limit then [es]
      else if length es < 2 then []
      else split (take (length es div 2) es) @ split (drop (length es div 2) es))"
begin

text \<open>Induction over the halves.\<close>

lemma halves_induct:
  assumes "\<And>es. length es < 2 \<Longrightarrow> P es"
    and "\<And>es. \<not> length es < 2 \<Longrightarrow> P (take (length es div 2) es) \<Longrightarrow> P (drop (length es div 2) es) \<Longrightarrow> P es"
  shows "P es"
proof (induction es rule: length_induct)
  case (1 es)
  show ?case
  proof (cases "length es < 2")
    case False
    then have "length (take (length es div 2) es) < length es" "length (drop (length es div 2) es) < length es" by auto
    then have "P (take (length es div 2) es)" "P (drop (length es div 2) es)" using 1 by simp_all
    with False show ?thesis by (rule assms(2))
  qed (rule assms(1))
qed

lemma split_within: "b \<in> set (split es) \<Longrightarrow> measured b \<le> limit"
proof (induction es rule: halves_induct)
  case (1 es)
  then show ?case using split_step [of es] by (auto split: if_splits)
next
  case (2 es)
  then show ?case using split_step [of es] by (auto split: if_splits)
qed

lemma split_exact:
  assumes "\<And>xs x. x \<in> set xs \<Longrightarrow> measured [x] \<le> measured xs"
  shows "concat (split es) = filter (\<lambda>x. measured [x] \<le> limit) es"
proof (induction es rule: halves_induct)
  case (1 es)
  then show ?case using assms split_step [of es] by (cases es) (auto split: if_splits)
next
  case (2 es)
  show ?case
  proof (cases "measured es \<le> limit")
    case True
    then have "\<forall>x\<in>set es. measured [x] \<le> limit" using assms order_trans by blast
    with True show ?thesis by (subst split_step) simp
  next
    case False
    have "concat (split es) = filter (\<lambda>x. measured [x] \<le> limit) (take (length es div 2) es @ drop (length es div 2) es)"
      unfolding filter_append using 2 False split_step [of es] by simp
    then show ?thesis by simp
  qed
qed

text \<open>The number of pieces is bounded by the number of entries.\<close>

lemma split_count: "length (split es) \<le> max 1 (length es)"
proof (induction es rule: halves_induct)
  case (1 es)
  then show ?case by (subst split_step) simp
next
  case (2 es)
  let ?m = "length es div 2"
  have "length (split (take ?m es)) \<le> ?m" "length (split (drop ?m es)) \<le> length es - ?m"
    using 2 by (auto simp: max_def split: if_splits)
  then have "length (split (take ?m es)) + length (split (drop ?m es)) \<le> length es" by linarith
  with 2(1) show ?case by (subst split_step) simp
qed

end

interpretation grpc: halving "\<lambda>es. sz (buildGRPCRequest es lt ns ls)" limit
    "\<lambda>es. map gq_Entries (enforceMaximumsGRPCRequest sz limit (buildGRPCRequest es lt ns ls))"
  for sz :: "grpc_request \<Rightarrow> nat" and limit :: nat and lt ns :: string and ls :: "label list"
  by unfold_locales (subst enforceMaximumsGRPCRequest.simps, simp add: buildGRPCRequest_def Let_def)

interpretation http: halving "\<lambda>es. sz (buildHTTPRequest es)" limit
    "\<lambda>es. map hq_Logs (enforceMaximumsHTTPRequest sz limit (buildHTTPRequest es))"
  for sz :: "http_request \<Rightarrow> nat" and limit :: nat
  by unfold_locales (subst enforceMaximumsHTTPRequest.simps, simp add: buildHTTPRequest_def Let_def)

text \<open>The pieces keep what the request says of its entries.\<close>

lemma grpc_pieces:
  "rq \<in> set (enforceMaximumsGRPCRequest sz limit rq0) \<Longrightarrow>
     rq = buildGRPCRequest (gq_Entries rq) (gq_LogType rq0) (gq_Namespace rq0) (gq_Labels rq0)"
proof (induction sz limit rq0 rule: enforceMaximumsGRPCRequest.induct)
  case (1 sz limit rq0)
  show ?case
  proof (cases "sz rq0 \<le> limit")
    case True
    with 1(3) show ?thesis by (simp add: enforceMaximumsGRPCRequest.simps [of sz limit rq0] buildGRPCRequest_def)
  next
    case False
    with 1(3) show ?thesis using 1(1) 1(2)
      by (subst (asm) enforceMaximumsGRPCRequest.simps)
         (auto simp: buildGRPCRequest_def Let_def split: if_splits)
  qed
qed

section \<open>Keys\<close>

text \<open>Names that do not contain what the key puts between its parts.\<close>

definition clean_names :: "string \<Rightarrow> string \<Rightarrow> label list \<Rightarrow> bool" where
  "clean_names ns lt ls =
     (CHR ''|'' \<notin> set ns \<and> CHR ''|'' \<notin> set lt
      \<and> (\<forall>(k, v)\<in>set ls. CHR '','' \<notin> set k \<and> CHR '','' \<notin> set v \<and> CHR ''='' \<notin> set k))"

lemma split_at: "c \<notin> set a \<Longrightarrow> c \<notin> set b \<Longrightarrow> a @ c # x = b @ c # y \<longleftrightarrow> a = b \<and> x = y"
proof (induction a arbitrary: b)
  case Nil
  then show ?case by (cases b) auto
next
  case (Cons a1 a2)
  then show ?case by (cases b) auto
qed

lemma join_with_inj:
  "\<forall>s\<in>set ss. sep \<notin> set s \<Longrightarrow> \<forall>s\<in>set ts. sep \<notin> set s \<Longrightarrow> ss \<noteq> [] \<Longrightarrow> ts \<noteq> [] \<Longrightarrow>
     join_with sep ss = join_with sep ts \<Longrightarrow> ss = ts"
proof (induction sep ss arbitrary: ts rule: join_with.induct)
  case (2 sep s)
  then show ?case by (cases "(sep, ts)" rule: join_with.cases) auto
next
  case (3 sep s s' ss)
  then obtain t ts' where ts: "ts = t # ts'" by (cases ts) auto
  show ?case
  proof (cases ts')
    case Nil
    have "sep \<in> set (join_with sep (s # s' # ss))" by simp
    moreover have "sep \<notin> set (join_with sep ts)" using 3(3) ts Nil by simp
    ultimately show ?thesis using 3(6) by metis
  next
    case (Cons t' ts'')
    with 3 ts have "s = t" and "join_with sep (s' # ss) = join_with sep (t' # ts'')" by (simp_all add: split_at)
    moreover have "s' # ss = t' # ts''" by (rule "3.IH") (use 3 ts Cons calculation in simp_all)
    ultimately show ?thesis using ts Cons by simp
  qed
qed simp

lemma label_text_inj: "CHR ''='' \<notin> set (fst a) \<Longrightarrow> CHR ''='' \<notin> set (fst b) \<Longrightarrow> label_text a = label_text b \<Longrightarrow> a = b"
  by (cases a; cases b) (simp add: label_text_def split_at)

lemma sort_nonempty: "xs \<noteq> [] \<Longrightarrow> sort xs \<noteq> []"
  by (metis length_0_conv length_sort)

lemma createGroupKey_inj:
  assumes "clean_names ns lt ls" and "clean_names ns' lt' ls'" and "createGroupKey ns lt ls = createGroupKey ns' lt' ls'"
  shows "ns = ns' \<and> lt = lt' \<and> mset ls = mset ls'"
proof -
  let ?t = "\<lambda>ls. if length ls > 0 then CHR ''|'' # join_with CHR '','' (sort (map label_text ls)) else []"
  have "ns = ns'" and tails: "lt @ ?t ls = lt' @ ?t ls'"
    using assms split_at [of "CHR ''|''" ns ns'] by (auto simp: createGroupKey_def clean_names_def)
  have nb: "CHR ''|'' \<notin> set lt" "CHR ''|'' \<notin> set lt'" using assms(1,2) by (simp_all add: clean_names_def)
  have "lt = lt' \<and> mset ls = mset ls'"
  proof (cases "ls = [] \<or> ls' = []")
    case True
    have "(ls = []) = (ls' = [])"
    proof (rule ccontr)
      assume "(ls = []) \<noteq> (ls' = [])"
      with True tails have "CHR ''|'' \<in> set lt \<or> CHR ''|'' \<in> set lt'"
        by (cases "ls = []") (auto dest!: arg_cong [where f = set])
      with nb show False by blast
    qed
    with True tails show ?thesis by auto
  next
    case False
    with tails nb have "lt = lt'" and
      joined: "join_with CHR '','' (sort (map label_text ls)) = join_with CHR '','' (sort (map label_text ls'))"
      by (simp_all add: split_at)
    have commas: "\<forall>s\<in>set (sort (map label_text xs)). CHR '','' \<notin> set s" if "clean_names n l xs" for n l xs
      using that by (auto simp: clean_names_def label_text_def)
    have "sort (map label_text ls) = sort (map label_text ls')"
      using False by (intro join_with_inj [OF commas [OF assms(1)] commas [OF assms(2)] _ _ joined] sort_nonempty) simp_all
    then have same: "image_mset label_text (mset ls) = image_mset label_text (mset ls')"
      by (metis mset_map mset_sort)
    have "a = b" if "a \<in># mset ls" "b \<in># mset ls'" "label_text a = label_text b" for a b
      by (rule label_text_inj) (use that assms(1,2) in \<open>auto simp: clean_names_def\<close>)
    then have "mset ls = mset ls'" by (rule multiset.inj_map_strong [OF _ same])
    with \<open>lt = lt'\<close> show ?thesis by simp
  qed
  with \<open>ns = ns'\<close> show ?thesis by simp
qed

section \<open>What is sent\<close>

type_synonym chr_item = "log_entry \<times> string \<times> string \<times> label multiset"

definition group_items :: "logGroup \<Rightarrow> chr_item list" where
  "group_items g = map (\<lambda>e. (e, gp_namespace g, gp_logType g, mset (gp_ingestionLabels g))) (gp_entries g)"

definition request_items :: "grpc_request \<Rightarrow> chr_item list" where
  "request_items rq = map (\<lambda>e. (e, gq_Namespace rq, gq_LogType rq, mset (gq_Labels rq))) (gq_Entries rq)"

definition has_text :: "(chr_record \<Rightarrow> string option) \<Rightarrow> chr_record \<Rightarrow> bool" where
  "has_text raw_log r = (case raw_log r of None \<Rightarrow> False | Some s \<Rightarrow> s \<noteq> [])"

definition entry_of :: "(chr_record \<Rightarrow> string option) \<Rightarrow> i64 \<Rightarrow> chr_record \<Rightarrow> log_entry" where
  "entry_of raw_log now r =
     \<lparr>le_Timestamp = getTimestamp now r, le_CollectionTime = getObservedTimestamp now r, le_Data = the (raw_log r)\<rparr>"

definition record_item ::
    "(chr_record \<Rightarrow> string option) \<Rightarrow> (pvalue \<Rightarrow> string) \<Rightarrow> i64 \<Rightarrow> protoMarshaler \<Rightarrow> chr_record \<Rightarrow> chr_item" where
  "record_item raw_log AsString now m r =
     (entry_of raw_log now r, getNamespace m r, getLogType m r, mset (aggregateIngestionLabels AsString m r))"

text \<open>The size of a request, as protobuf has it: it grows with the sum of its parts.\<close>

definition size_law :: "(grpc_request \<Rightarrow> nat) \<Rightarrow> bool" where
  "size_law sz =
     (\<exists>h f (g :: log_entry \<Rightarrow> nat). mono h \<and>
        (\<forall>rq. sz rq = h (f (gq_Namespace rq) (gq_LogType rq) (mset (gq_Labels rq)) + sum_list (map g (gq_Entries rq)))))"

definition item_fits :: "(grpc_request \<Rightarrow> nat) \<Rightarrow> nat \<Rightarrow> chr_item \<Rightarrow> bool" where
  "item_fits sz limit it =
     (case it of (e, ns, lt, L) \<Rightarrow> \<exists>ls. mset ls = L \<and> sz (buildGRPCRequest [e] lt ns ls) \<le> limit)"

lemma size_law_labels:
  "size_law sz \<Longrightarrow> mset ls = mset ls' \<Longrightarrow> sz (buildGRPCRequest es lt ns ls) = sz (buildGRPCRequest es lt ns ls')"
  by (auto simp: size_law_def buildGRPCRequest_def)

lemma size_law_single:
  assumes "size_law sz" and "e \<in> set es"
  shows "sz (buildGRPCRequest [e] lt ns ls) \<le> sz (buildGRPCRequest es lt ns ls)"
proof -
  obtain h f g where "mono h" and sz: "\<And>rq. sz rq = h (f (gq_Namespace rq) (gq_LogType rq) (mset (gq_Labels rq))
      + sum_list (map (g :: log_entry \<Rightarrow> nat) (gq_Entries rq)))"
    using assms(1) by (auto simp: size_law_def)
  have "g e \<le> sum_list (map g es)" using assms(2) by (simp add: member_le_sum_list)
  with \<open>mono h\<close> show ?thesis by (simp add: sz buildGRPCRequest_def mono_def)
qed

lemma item_fits_labels:
  "size_law sz \<Longrightarrow> item_fits sz limit (e, ns, lt, mset ls) = (sz (buildGRPCRequest [e] lt ns ls) \<le> limit)"
  unfolding item_fits_def by simp (metis size_law_labels)

lemma split_request_items:
  assumes "size_law sz"
  shows "concat (map request_items (enforceMaximumsGRPCRequest sz limit (buildGRPCRequest es lt ns ls)))
    = filter (item_fits sz limit) (map (\<lambda>e. (e, ns, lt, mset ls)) es)"
proof -
  let ?rqs = "enforceMaximumsGRPCRequest sz limit (buildGRPCRequest es lt ns ls)"
  have "request_items rq = map (\<lambda>e. (e, ns, lt, mset ls)) (gq_Entries rq)" if "rq \<in> set ?rqs" for rq
  proof -
    from grpc_pieces [OF that] have "gq_Namespace rq = ns \<and> gq_LogType rq = lt \<and> gq_Labels rq = ls"
      by (metis buildGRPCRequest_def grpc_request.simps(2-4))
    then show ?thesis by (simp add: request_items_def)
  qed
  then have "concat (map request_items ?rqs) = map (\<lambda>e. (e, ns, lt, mset ls)) (concat (map gq_Entries ?rqs))"
    by (simp add: map_concat comp_def cong: map_cong)
  also have "concat (map gq_Entries ?rqs) = filter (\<lambda>e. sz (buildGRPCRequest [e] lt ns ls) \<le> limit) es"
    using size_law_single [OF assms] by (rule grpc.split_exact)
  finally show ?thesis by (simp add: filter_map comp_def item_fits_labels [OF assms])
qed

section \<open>Grouping keeps every record with its own source\<close>

definition group_ok :: "(string \<times> logGroup) \<Rightarrow> bool" where
  "group_ok kg =
     (case kg of (k, g) \<Rightarrow>
        k = createGroupKey (gp_namespace g) (gp_logType g) (gp_ingestionLabels g)
        \<and> clean_names (gp_namespace g) (gp_logType g) (gp_ingestionLabels g))"

lemma grouper_Add_ok:
  "clean_names ns lt ls \<Longrightarrow> list_all group_ok gs \<Longrightarrow> list_all group_ok (grouper_Add e ns lt ls gs)"
  by (induction e ns lt ls gs rule: grouper_Add.induct) (auto simp: group_ok_def)

lemma grouper_Add_items:
  "clean_names ns lt ls \<Longrightarrow> list_all group_ok gs \<Longrightarrow>
     mset (concat (map (\<lambda>(k, g). group_items g) (grouper_Add e ns lt ls gs)))
       = add_mset (e, ns, lt, mset ls) (mset (concat (map (\<lambda>(k, g). group_items g) gs)))"
proof (induction e ns lt ls gs rule: grouper_Add.induct)
  case (2 e ns lt ls k g gs)
  show ?case
  proof (cases "k = createGroupKey ns lt ls")
    case True
    have "createGroupKey (gp_namespace g) (gp_logType g) (gp_ingestionLabels g) = createGroupKey ns lt ls"
      and "clean_names (gp_namespace g) (gp_logType g) (gp_ingestionLabels g)"
      using 2(3) True by (simp_all add: group_ok_def)
    from createGroupKey_inj [OF this(2) 2(2) this(1)]
    have "gp_namespace g = ns \<and> gp_logType g = lt \<and> mset (gp_ingestionLabels g) = mset ls" .
    with True show ?thesis by (simp add: group_items_def)
  next
    case False
    with 2 show ?thesis by simp
  qed
qed (simp add: group_items_def)

definition clean_record :: "(pvalue \<Rightarrow> string) \<Rightarrow> protoMarshaler \<Rightarrow> chr_record \<Rightarrow> bool" where
  "clean_record AsString m r = clean_names (getNamespace m r) (getLogType m r) (aggregateIngestionLabels AsString m r)"

lemma extract_records_items:
  "list_all (clean_record AsString m) rs \<Longrightarrow> list_all group_ok gs \<Longrightarrow>
     extract_records raw_log AsString now m rs gs n = (gs', n') \<Longrightarrow>
     list_all group_ok gs'
     \<and> mset (concat (map (\<lambda>(k, g). group_items g) gs'))
         = mset (concat (map (\<lambda>(k, g). group_items g) gs))
           + mset (map (record_item raw_log AsString now m) (filter (has_text raw_log) rs))"
proof (induction raw_log AsString now m rs gs n rule: extract_records.induct)
  case (2 raw_log AsString now m r rs gs n)
  show ?case
  proof (cases "has_text raw_log r")
    case True
    then obtain s where s: "raw_log r = Some s" "s \<noteq> []" by (auto simp: has_text_def split: option.splits)
    let ?gs = "grouper_Add (entry_of raw_log now r) (getNamespace m r) (getLogType m r) (aggregateIngestionLabels AsString m r) gs"
    have run: "extract_records raw_log AsString now m rs ?gs (n + length s) = (gs', n')"
      using 2(6) s by (simp add: entry_of_def)
    have clean: "clean_names (getNamespace m r) (getLogType m r) (aggregateIngestionLabels AsString m r)"
      using 2(4) by (simp add: clean_record_def)
    from 2(3) [OF s] 2(4) grouper_Add_ok [OF clean 2(5)] run grouper_Add_items [OF clean 2(5)] s True
    show ?thesis by (simp add: entry_of_def record_item_def)
  next
    case False
    with 2 show ?thesis by (cases "raw_log r") (auto simp: has_text_def)
  qed
qed simp

lemma grouper_Add_namespace:
  "list_all (\<lambda>(k, g). gp_namespace g = [] \<longrightarrow> b) gs \<Longrightarrow> (ns = [] \<longrightarrow> b) \<Longrightarrow>
     list_all (\<lambda>(k, g). gp_namespace g = [] \<longrightarrow> b) (grouper_Add e ns lt ls gs)"
  by (induction e ns lt ls gs rule: grouper_Add.induct) auto

lemma namespace_kept:
  "list_all (\<lambda>(k, g). gp_namespace g = [] \<longrightarrow> cc_Namespace (pm_cfg m) = []) gs \<Longrightarrow>
     extract_records raw_log AsString now m rs gs n = (gs', n') \<Longrightarrow>
     list_all (\<lambda>(k, g). gp_namespace g = [] \<longrightarrow> cc_Namespace (pm_cfg m) = []) gs'"
proof (induction raw_log AsString now m rs gs n rule: extract_records.induct)
  case (2 raw_log AsString now m r rs gs n)
  have "list_all (\<lambda>(k, g). gp_namespace g = [] \<longrightarrow> cc_Namespace (pm_cfg m) = [])
      (grouper_Add e (getNamespace m r) lt ls gs)" for e lt ls
    by (rule grouper_Add_namespace) (use 2(4) in \<open>simp_all add: getNamespace_def Let_def\<close>)
  with 2 show ?case by (auto split: option.splits if_splits)
qed simp

lemma concat_map_concat: "concat (map f (concat (map g xs))) = concat (map (\<lambda>x. concat (map f (g x))) xs)"
  by (induction xs) auto

lemma mset_concat_map: "mset xs = mset ys \<Longrightarrow> mset (concat (map f xs)) = mset (concat (map f ys))"
  unfolding mset_concat map_map by (metis mset_map sum_mset_sum_list)

text \<open>
  C24. Over gRPC every record is sent once and as its own, provided that no separator of the grouping key
  occurs in what it joins (otherwise groups collide: \<open>group_key_collision\<close>). Of a batch whose namespaces, log types and labels
  do not contain the separators of the grouping key, the requests that are built, in whatever
  order the runtime goes through the groups, carry exactly the records that have a text, each
  with its own namespace, log type and set of labels, less those that alone are larger than the
  limit; and no request exceeds the limit.
\<close>

theorem chronicle_sends_each_once:
  assumes "size_law proto_Size" and "list_all (clean_record AsString m) (concat (concat ld))"
    and "mset groups = mset (map snd (fst (extractRawLogs raw_log AsString now m ld)))"
  shows "(\<forall>rq\<in>set (constructPayloads proto_Size limit m groups). proto_Size rq \<le> limit)
    \<and> mset (concat (map request_items (constructPayloads proto_Size limit m groups)))
        = mset (filter (item_fits proto_Size limit)
                  (map (record_item raw_log AsString now m) (filter (has_text raw_log) (concat (concat ld)))))"
proof -
  obtain gs n where run: "extractRawLogs raw_log AsString now m ld = (gs, n)" by fastforce
  note ex = run [unfolded extractRawLogs_def]
  let ?ns = "\<lambda>g :: logGroup. if gp_namespace g = [] then cc_Namespace (pm_cfg m) else gp_namespace g"
  have keep: "?ns g = gp_namespace g" if "g \<in> set groups" for g
  proof -
    have "g \<in> snd ` set gs" using that assms(3) run by (metis fst_conv list.set_map set_mset_mset)
    with namespace_kept [OF _ ex] show ?thesis by (auto simp: list_all_iff)
  qed
  have pieces: "concat (map request_items (constructPayloads proto_Size limit m groups))
      = concat (map (\<lambda>g. filter (item_fits proto_Size limit) (group_items g)) groups)"
    using keep
    by (simp add: constructPayloads_def concat_map_concat split_request_items [OF assms(1)] group_items_def
        cong: map_cong)
  have "mset (concat (map group_items groups)) = mset (concat (map (\<lambda>(k, g). group_items g) gs))"
    using mset_concat_map [OF assms(3), of group_items] run by (simp add: comp_def case_prod_beta')
  moreover have "mset (concat (map (\<lambda>(k, g). group_items g) gs))
      = mset (map (record_item raw_log AsString now m) (filter (has_text raw_log) (concat (concat ld))))"
    using extract_records_items [OF assms(2) _ ex] by simp
  ultimately have "mset (concat (map request_items (constructPayloads proto_Size limit m groups)))
        = mset (filter (item_fits proto_Size limit)
                  (map (record_item raw_log AsString now m) (filter (has_text raw_log) (concat (concat ld)))))"
    unfolding pieces filter_concat_map [symmetric] mset_filter by simp
  moreover have "proto_Size rq \<le> limit" if sent: "rq \<in> set (constructPayloads proto_Size limit m groups)" for rq
  proof -
    obtain g :: logGroup where piece: "rq \<in> set (enforceMaximumsGRPCRequest proto_Size limit
        (buildGRPCRequest (gp_entries g) (gp_logType g) (?ns g) (gp_ingestionLabels g)))"
      using sent unfolding constructPayloads_def set_concat set_map by blast
    from grpc_pieces [OF piece] have rq: "rq = buildGRPCRequest (gq_Entries rq) (gp_logType g) (?ns g) (gp_ingestionLabels g)"
      by (simp add: buildGRPCRequest_def)
    have "proto_Size (buildGRPCRequest (gq_Entries rq) (gp_logType g) (?ns g) (gp_ingestionLabels g)) \<le> limit"
      by (rule grpc.split_within) (use piece in \<open>auto intro: imageI\<close>)
    with rq show ?thesis by simp
  qed
  ultimately show ?thesis by blast
qed

section \<open>Requests over HTTP keep the order\<close>

lemma map_of_put: "map_of (put k v m) x = (if x = k then Some v else map_of m x)"
  by (induction k v m rule: put.induct) auto

lemma keys_put: "fst ` set (put k v m) = insert k (fst ` set m)"
  by (induction k v m rule: put.induct) auto

lemma distinct_put: "distinct (map fst m) \<Longrightarrow> distinct (map fst (put k v m))"
proof (induction k v m rule: put.induct)
  case (2 k v k' v' m)
  then show ?case using keys_put [of k v m] by auto
qed simp

definition http_log_of ::
    "(chr_record \<Rightarrow> string option) \<Rightarrow> (pvalue \<Rightarrow> string) \<Rightarrow> i64 \<Rightarrow> protoMarshaler \<Rightarrow> chr_record \<Rightarrow> http_log" where
  "http_log_of raw_log AsString now m r =
     \<lparr>hl_entry = entry_of raw_log now r, hl_EnvironmentNamespace = getNamespace m r,
      hl_Labels = getHTTPIngestionLabels AsString m r\<rparr>"

definition logs_of_type ::
    "(chr_record \<Rightarrow> string option) \<Rightarrow> (pvalue \<Rightarrow> string) \<Rightarrow> i64 \<Rightarrow> protoMarshaler \<Rightarrow> chr_record list \<Rightarrow> string \<Rightarrow> http_log list" where
  "logs_of_type raw_log AsString now m rs t =
     map (http_log_of raw_log AsString now m) (filter (\<lambda>r. has_text raw_log r \<and> getLogType m r = t) rs)"

definition entries_for :: "(string \<times> 'v list) list \<Rightarrow> string \<Rightarrow> 'v list" where
  "entries_for es t = (case map_of es t of None \<Rightarrow> [] | Some xs \<Rightarrow> xs)"

lemma entries_for_put: "entries_for (put k v m) t = (if t = k then v else entries_for m t)"
  by (simp add: entries_for_def map_of_put)

lemma extract_http_exact:
  "distinct (map fst es) \<Longrightarrow> extract_http_records raw_log AsString now m rs es n = (es', n') \<Longrightarrow>
     distinct (map fst es')
     \<and> entries_for es' t = entries_for es t @ logs_of_type raw_log AsString now m rs t
     \<and> n' = n + sum_list (map (\<lambda>r. length (the (raw_log r))) (filter (has_text raw_log) rs))"
proof (induction raw_log AsString now m rs es n rule: extract_http_records.induct)
  case (2 raw_log AsString now m r rs es n)
  show ?case
  proof (cases "has_text raw_log r")
    case True
    then obtain s where s: "raw_log r = Some s" "s \<noteq> []" by (auto simp: has_text_def split: option.splits)
    let ?es = "put (getLogType m r) (entries_for es (getLogType m r) @ [http_log_of raw_log AsString now m r]) es"
    have run: "extract_http_records raw_log AsString now m rs ?es (n + length s) = (es', n')"
      using 2(5) s by (simp add: http_log_of_def entry_of_def entries_for_def Let_def)
    have "distinct (map fst ?es)" using 2(4) by (rule distinct_put)
    from 2(3) [OF s refl refl refl, unfolded entries_for_def [symmetric]] this run s
    have ih: "distinct (map fst es')" "entries_for es' t = entries_for ?es t @ logs_of_type raw_log AsString now m rs t"
      "n' = n + length s + sum_list (map (\<lambda>r. length (the (raw_log r))) (filter (has_text raw_log) rs))"
      by (simp_all add: http_log_of_def entry_of_def)
    with s True show ?thesis by (simp add: entries_for_put logs_of_type_def)
  next
    case False
    with 2 show ?thesis by (cases "raw_log r") (auto simp: has_text_def logs_of_type_def)
  qed
qed (simp add: logs_of_type_def)

lemma entries_for_made:
  "distinct (map fst es) \<Longrightarrow>
     entries_for (map (\<lambda>(k, xs). (k, f xs)) (filter (\<lambda>(k, xs). length xs > 0) es)) t
       = (if entries_for es t = [] then [] else f (entries_for es t))"
proof (induction es)
  case Nil
  then show ?case by (simp add: entries_for_def)
next
  case (Cons a es)
  obtain k xs where a: "a = (k, xs)" by (cases a)
  show ?case
  proof (cases "k = t")
    case True
    with Cons.prems a have "map_of es t = None" by (simp add: map_of_eq_None_iff)
    then have "entries_for es t = []" by (simp add: entries_for_def)
    with Cons True a show ?thesis by (simp add: entries_for_def)
  next
    case False
    with Cons a show ?thesis by (simp add: entries_for_def)
  qed
qed

text \<open>
  Over HTTP the records of a log type are sent in order and once. The requests of each type
  hold, one after another, the records of that type that have a text, in their order, with their
  namespaces and labels, less those that alone exceed the limit; no request exceeds it, and the
  bytes that are counted are those of all these records.
\<close>

theorem chronicle_http_in_order:
  assumes "\<And>xs x. x \<in> set xs \<Longrightarrow> proto_Size (buildHTTPRequest [x]) \<le> proto_Size (buildHTTPRequest xs)"
    and "extractRawHTTPLogs raw_log AsString now m ld = (es, n)"
  shows "concat (map hq_Logs (entries_for (constructHTTPPayloads proto_Size limit es) t))
        = filter (\<lambda>l. proto_Size (buildHTTPRequest [l]) \<le> limit) (logs_of_type raw_log AsString now m (concat (concat ld)) t)
    \<and> (\<forall>rq\<in>set (entries_for (constructHTTPPayloads proto_Size limit es) t). proto_Size rq \<le> limit)
    \<and> n = sum_list (map (\<lambda>r. length (the (raw_log r))) (filter (has_text raw_log) (concat (concat ld))))"
proof -
  have ex: "distinct (map fst es)" "entries_for es t = logs_of_type raw_log AsString now m (concat (concat ld)) t"
    "n = sum_list (map (\<lambda>r. length (the (raw_log r))) (filter (has_text raw_log) (concat (concat ld))))"
    using extract_http_exact [OF _ assms(2) [unfolded extractRawHTTPLogs_def], of t] by (simp_all add: entries_for_def)
  have made: "entries_for (constructHTTPPayloads proto_Size limit es) t =
      (if entries_for es t = [] then []
       else enforceMaximumsHTTPRequest proto_Size limit (buildHTTPRequest (entries_for es t)))"
    unfolding constructHTTPPayloads_def by (rule entries_for_made [OF ex(1)])
  have "concat (map hq_Logs (entries_for (constructHTTPPayloads proto_Size limit es) t))
        = filter (\<lambda>l. proto_Size (buildHTTPRequest [l]) \<le> limit) (entries_for es t)"
    unfolding made using http.split_exact [of proto_Size limit] assms(1) by auto
  moreover have "proto_Size rq \<le> limit"
    if "rq \<in> set (enforceMaximumsHTTPRequest proto_Size limit (buildHTTPRequest xs))" for rq :: http_request and xs
    using http.split_within [of "hq_Logs rq" proto_Size limit xs] that
    by (cases rq) (force simp: buildHTTPRequest_def)
  ultimately show ?thesis using ex made by auto
qed

section \<open>Keys that are not unique\<close>

definition some_entry :: "string \<Rightarrow> log_entry" where
  "some_entry s = \<lparr>le_Timestamp = 0, le_CollectionTime = 0, le_Data = s\<rparr>"

text \<open>
  A value with the separators of the key stands for other labels: a record labelled \<open>a=1\<close> and
  \<open>b=2\<close> joins the group of a record with the one label \<open>a=1,b=2\<close> and is sent with that.
\<close>

theorem group_key_collision:
  "grouper_Add (some_entry ''y'') ns lt [(''a'', ''1''), (''b'', ''2'')]
     (grouper_Add (some_entry ''x'') ns lt [(''a'', ''1,b=2'')] [])
   = [(createGroupKey ns lt [(''a'', ''1,b=2'')],
       \<lparr>gp_namespace = ns, gp_logType = lt, gp_ingestionLabels = [(''a'', ''1,b=2'')],
        gp_entries = [some_entry ''x'', some_entry ''y'']\<rparr>)]"
proof -
  have "label_text (''a'', ''1'') \<le> label_text (''b'', ''2'')"
    by (simp add: label_text_def less_char_def)
  then have "sort (map label_text [(''a'', ''1''), (''b'', ''2'')]) = map label_text [(''a'', ''1''), (''b'', ''2'')]"
    by simp
  then have "createGroupKey ns lt [(''a'', ''1,b=2'')] = createGroupKey ns lt [(''a'', ''1''), (''b'', ''2'')]"
    unfolding createGroupKey_def by (simp add: label_text_def)
  then show ?thesis by simp
qed

section \<open>The agent's statistics\<close>

text \<open>
  The accepted and refused records of each exporter entry of the current window. The readings of
  the host and the time of the last upload, which the event also carries, are left out.
\<close>

type_synonym exporter_stats = "i64 \<times> i64"

record agent_stats =
  as_ExporterStats :: "exporter_stats list"
  as_WindowStartTime :: gotime

definition newAgentStats :: "gotime \<Rightarrow> agent_stats" where
  "newAgentStats windowStartTime = \<lparr>as_ExporterStats = [(0, 0)], as_WindowStartTime = windowStartTime\<rparr>"

definition with_first :: "(exporter_stats \<Rightarrow> exporter_stats) \<Rightarrow> agent_stats \<Rightarrow> agent_stats" where
  "with_first f st =
     st\<lparr>as_ExporterStats := (case as_ExporterStats st of [] \<Rightarrow> [f (0, 0)] | e # es \<Rightarrow> f e # es)\<rparr>"

definition recordSent :: "i64 \<Rightarrow> agent_stats \<Rightarrow> agent_stats" where
  "recordSent n st = with_first (\<lambda>(a, r). (a + n, r)) st"

definition recordDropped :: "i64 \<Rightarrow> agent_stats \<Rightarrow> agent_stats" where
  "recordDropped n st = with_first (\<lambda>(a, r). (a, r + n)) st"

definition drainRequest :: "gotime \<Rightarrow> agent_stats \<Rightarrow> agent_stats \<times> agent_stats" where
  "drainRequest now st = (st, newAgentStats now)"

definition restore :: "agent_stats \<Rightarrow> agent_stats \<Rightarrow> agent_stats" where
  "restore failed st =
     (case (as_ExporterStats st, as_ExporterStats failed) of
        ((a, r) # es, (a', r') # es') \<Rightarrow>
          st\<lparr>as_ExporterStats := (a + a', r + r') # es, as_WindowStartTime := as_WindowStartTime failed\<rparr>
      | _ \<Rightarrow> st)"

text \<open>
  The exporter records at any time, also between the draining of a window and the end of its
  upload; \<open>sr_uploaded\<close> is what the service took and \<open>sr_recorded\<close> what was recorded in all.
\<close>

record stats_run =
  sr_stats :: agent_stats
  sr_sending :: "agent_stats option"
  sr_uploaded :: "agent_stats list"
  sr_recorded :: exporter_stats

inductive stats_step :: "stats_run \<Rightarrow> stats_run \<Rightarrow> bool" where
  sent: "stats_step s (s\<lparr>sr_stats := recordSent n (sr_stats s),
                         sr_recorded := (fst (sr_recorded s) + n, snd (sr_recorded s))\<rparr>)"
| dropped: "stats_step s (s\<lparr>sr_stats := recordDropped n (sr_stats s),
                            sr_recorded := (fst (sr_recorded s), snd (sr_recorded s) + n)\<rparr>)"
| tick: "sr_sending s = None \<Longrightarrow> drainRequest now (sr_stats s) = (window, st) \<Longrightarrow>
    stats_step s (s\<lparr>sr_stats := st, sr_sending := Some window\<rparr>)"
| uploaded: "sr_sending s = Some window \<Longrightarrow>
    stats_step s (s\<lparr>sr_sending := None, sr_uploaded := sr_uploaded s @ [window]\<rparr>)"
| failed: "sr_sending s = Some window \<Longrightarrow>
    stats_step s (s\<lparr>sr_sending := None, sr_stats := restore window (sr_stats s)\<rparr>)"

definition stats_start :: "gotime \<Rightarrow> stats_run" where
  "stats_start now = \<lparr>sr_stats = newAgentStats now, sr_sending = None, sr_uploaded = [], sr_recorded = (0, 0)\<rparr>"

definition counts :: "agent_stats \<Rightarrow> exporter_stats" where
  "counts st = (sum_list (map fst (as_ExporterStats st)), sum_list (map snd (as_ExporterStats st)))"

definition stats_total :: "stats_run \<Rightarrow> exporter_stats" where
  "stats_total s =
     (let all = sr_stats s # (case sr_sending s of None \<Rightarrow> [] | Some w \<Rightarrow> [w]) @ sr_uploaded s
      in (sum_list (map (fst \<circ> counts) all), sum_list (map (snd \<circ> counts) all)))"

definition one_entry :: "agent_stats \<Rightarrow> bool" where
  "one_entry st = (length (as_ExporterStats st) = 1)"

definition stats_inv :: "stats_run \<Rightarrow> bool" where
  "stats_inv s =
     (one_entry (sr_stats s) \<and> (\<forall>w. sr_sending s = Some w \<longrightarrow> one_entry w) \<and> stats_total s = sr_recorded s)"

lemma stats_step_inv: "stats_step s s' \<Longrightarrow> stats_inv s \<Longrightarrow> stats_inv s'"
proof (induction rule: stats_step.induct)
  case (failed s window)
  then obtain a r a' r' where "as_ExporterStats (sr_stats s) = [(a, r)]" "as_ExporterStats window = [(a', r')]"
    by (auto simp: stats_inv_def one_entry_def length_Suc_conv)
  with failed show ?case
    by (cases "sr_recorded s") (auto simp: stats_inv_def one_entry_def stats_total_def counts_def restore_def algebra_simps)
qed (auto simp: stats_inv_def one_entry_def stats_total_def counts_def recordSent_def recordDropped_def with_first_def
    drainRequest_def newAgentStats_def length_Suc_conv prod_eq_iff algebra_simps)

text \<open>
  C25. No count is lost or reported twice. However records of sent and dropped logs, windows,
  uploads and failed uploads follow one another, the windows the service took, the window being
  uploaded and the current one sum up to all that was recorded (in 64-bit arithmetic).
\<close>

theorem stats_conserved:
  assumes "stats_step\<^sup>*\<^sup>* (stats_start now) s"
  shows "stats_total s = sr_recorded s"
proof -
  have "stats_inv s"
    using assms
  proof (induction rule: rtranclp_induct)
    case base
    then show ?case
      by (simp add: stats_inv_def stats_start_def newAgentStats_def one_entry_def stats_total_def counts_def)
  qed (rule stats_step_inv)
  then show ?thesis by (simp add: stats_inv_def)
qed

theorem stats_conserved_witness:
  "stats_total ((stats_start 0)\<lparr>sr_stats := recordSent 3 (newAgentStats 0), sr_recorded := (3, 0)\<rparr>) = (3, 0)"
proof -
  have "stats_step (stats_start 0) ((stats_start 0)\<lparr>sr_stats := recordSent 3 (newAgentStats 0), sr_recorded := (3, 0)\<rparr>)"
    using stats_step.sent [of "stats_start 0" 3] by (simp add: stats_start_def)
  from stats_conserved [OF r_into_rtranclp [of stats_step, OF this]] show ?thesis by simp
qed

section \<open>The properties at work\<close>

definition sample_chr_record :: "string \<Rightarrow> chr_record" where
  "sample_chr_record s =
     \<lparr>cr_Timestamp = 1, cr_ObservedTimestamp = 2,
      cr_Attributes = [(''chronicle_namespace'', VStr ''n''), (''log_type'', VStr ''t'')], cr_Body = VStr s\<rparr>"

definition sample_marshaler :: protoMarshaler where
  "sample_marshaler =
     \<lparr>pm_cfg = \<lparr>cc_LogType = ''WINEVTLOG'', cc_ValidateLogTypes = False, cc_OverrideLogType = True, cc_Namespace = [],
                cc_IngestionLabels = [(''env'', ''prod'')], cc_RBACEnabledLabels = []\<rparr>,
      pm_logTypes = None\<rparr>"

definition body_text :: "chr_record \<Rightarrow> string option" where
  "body_text r = (case cr_Body r of VStr s \<Rightarrow> Some s | _ \<Rightarrow> None)"

definition data_size :: "grpc_request \<Rightarrow> nat" where
  "data_size rq = sum_list (map (\<lambda>e. length (le_Data e)) (gq_Entries rq))"

definition sample_batch :: "chr_record list" where
  "sample_batch = [sample_chr_record ''ab'', sample_chr_record ''abcdef'', sample_chr_record ''c'']"

lemma data_size_law: "size_law data_size"
  unfolding size_law_def
  by (rule exI [of _ id], rule exI [of _ "\<lambda>_ _ _. 0"], rule exI [of _ "\<lambda>e. length (le_Data e)"])
     (simp add: data_size_def mono_def)

theorem chronicle_sends_each_once_witness:
  "mset (concat (map request_items (constructPayloads data_size 3 sample_marshaler
       (map snd (fst (extractRawLogs body_text (\<lambda>v. []) 0 sample_marshaler [[sample_batch]]))))))
     = mset (filter (item_fits data_size 3) (map (record_item body_text (\<lambda>v. []) 0 sample_marshaler) sample_batch))"
proof -
  have clean: "list_all (clean_record (\<lambda>v. []) sample_marshaler) (concat (concat [[sample_batch]]))"
    by (simp add: sample_batch_def clean_record_def clean_names_def getNamespace_def getLogType_def attr_string_def
        sample_chr_record_def sample_marshaler_def supportedLogTypes_def shouldValidateLogType_def
        aggregateIngestionLabels_def ingestionLabelsPrefix_def put_all_def Let_def)
  have "filter (has_text body_text) sample_batch = sample_batch"
    by (simp add: sample_batch_def has_text_def body_text_def sample_chr_record_def)
  with chronicle_sends_each_once [where raw_log = body_text and now = 0 and limit = 3, OF data_size_law clean refl] show ?thesis by simp
qed

definition http_data_size :: "http_request \<Rightarrow> nat" where
  "http_data_size rq = sum_list (map (\<lambda>l. length (le_Data (hl_entry l))) (hq_Logs rq))"

theorem chronicle_http_in_order_witness:
  "concat (map hq_Logs (entries_for (constructHTTPPayloads http_data_size 3
       (fst (extractRawHTTPLogs body_text (\<lambda>v. []) 0 sample_marshaler [[sample_batch]]))) ''WINEVTLOG''))
     = [http_log_of body_text (\<lambda>v. []) 0 sample_marshaler (sample_chr_record ''ab''),
        http_log_of body_text (\<lambda>v. []) 0 sample_marshaler (sample_chr_record ''c'')]"
proof -
  obtain es n where run: "extractRawHTTPLogs body_text (\<lambda>v. []) 0 sample_marshaler [[sample_batch]] = (es, n)"
    by fastforce
  have mono: "http_data_size (buildHTTPRequest [x]) \<le> http_data_size (buildHTTPRequest xs)" if "x \<in> set xs" for x xs
    using that member_le_sum_list [of _ "map (\<lambda>l. length (le_Data (hl_entry l))) xs"]
    by (simp add: http_data_size_def buildHTTPRequest_def)
  from chronicle_http_in_order [where proto_Size = http_data_size and limit = 3 and t = "''WINEVTLOG''", OF mono run]
  show ?thesis
    unfolding run fst_conv
    by (simp add: logs_of_type_def sample_batch_def has_text_def body_text_def sample_chr_record_def getLogType_def
        attr_string_def sample_marshaler_def supportedLogTypes_def shouldValidateLogType_def http_data_size_def
        buildHTTPRequest_def http_log_of_def entry_of_def Let_def)
qed

end
