(* ===== verification/ObjectWorker.thy ===== *)
theory ObjectWorker
  imports Archive
begin

text \<open>
  The workers of the S3 and Pub/Sub event receivers
  (\<open>receiver/awss3eventreceiver/internal/worker\<close>, \<open>receiver/gcspubsubeventreceiver/internal/worker\<close>): a
  message names objects, each is downloaded, parsed from the stored offset, delivered in batches and
  checkpointed, and the message is acknowledged, returned or left to time out.

  Both workers repeat the same code but for the version check, the errors that fail an object and
  the calls to the queue; the common part is written once. Outside are the object store, the
  offset store, the consumer, the queue and the producer of records (modelled in the theories on
  blob streams), over a state \<open>'w\<close>. What a producer yields is a function of the download. Of a log
  record there is what \<open>AppendLogBody\<close> makes of it; metrics and logging are left out.
\<close>

section \<open>The outside\<close>

text \<open>The stored offset: the offset and the version of the object it was written for.\<close>

record stored_offset =
  so_Offset :: Offset
  so_Version :: string

record ('obj, 'r, 'b, 'w) worker_outside =
  wo_GetObject :: "string \<Rightarrow> string \<Rightarrow> 'w \<Rightarrow> (go_error + 'obj \<times> string) \<times> 'w"
  wo_LoadOffset :: "string \<Rightarrow> 'w \<Rightarrow> (go_error + stored_offset option) \<times> 'w"
  wo_SaveOffset :: "string \<Rightarrow> stored_offset \<Rightarrow> 'w \<Rightarrow> go_error option \<times> 'w"
  wo_DeleteOffset :: "string \<Rightarrow> 'w \<Rightarrow> go_error option \<times> 'w"
  wo_BufferedReader :: "'obj \<Rightarrow> bool \<Rightarrow> go_error option"
  wo_NewProducer :: "'obj \<Rightarrow> bool \<Rightarrow> go_error option"
  wo_Records :: "'obj \<Rightarrow> bool \<Rightarrow> Offset \<Rightarrow> go_error + 'r produced \<times> Offset"
  wo_AppendLogBody :: "'r \<Rightarrow> 'b \<times> go_error option"
  wo_ConsumeLogs :: "string \<Rightarrow> string \<Rightarrow> 'b list \<Rightarrow> 'w \<Rightarrow> go_error option \<times> 'w"
  wo_IsPermanent :: "go_error \<Rightarrow> bool"
  wo_waits :: "'w \<Rightarrow> bool list"
  wo_ctxErr :: "'w \<Rightarrow> bool"
  wo_Ack :: "'w \<Rightarrow> go_error option \<times> 'w"
  wo_Nack :: "'w \<Rightarrow> go_error option \<times> 'w"

section \<open>Delivery with retries\<close>

text \<open>
  The waits of one delivery: for every time the back-off allows one, whether the context ended
  during it; behind the last the back-off says stop. A policy without a limit is the case of a
  list that is long enough for the consumer to answer.
\<close>

fun retry_waits ::
    "(go_error \<Rightarrow> bool) \<Rightarrow> ('w \<Rightarrow> go_error option \<times> 'w) \<Rightarrow> bool list \<Rightarrow> go_error \<Rightarrow> 'w \<Rightarrow> go_error option \<times> 'w" where
  "retry_waits IsPermanent consume [] err w = (Some err, w)"
| "retry_waits IsPermanent consume (ended # waits) err w =
     (if ended then (Some err, w)
      else (case consume w of
              (None, w1) \<Rightarrow> (None, w1)
            | (Some e, w1) \<Rightarrow> if IsPermanent e then (Some e, w1) else retry_waits IsPermanent consume waits e w1))"

definition consumeWithRetry ::
    "bool \<Rightarrow> (go_error \<Rightarrow> bool) \<Rightarrow> bool list \<Rightarrow> ('w \<Rightarrow> go_error option \<times> 'w) \<Rightarrow> 'w \<Rightarrow> go_error option \<times> 'w" where
  "consumeWithRetry enabled IsPermanent waits consume w =
     (case consume w of
        (None, w1) \<Rightarrow> (None, w1)
      | (Some err, w1) \<Rightarrow>
          if \<not> enabled \<or> IsPermanent err then (Some err, w1) else retry_waits IsPermanent consume waits err w1)"

section \<open>One object\<close>

record worker_config =
  wc_maxLogsEmitted :: int
  wc_retryEnabled :: bool

text \<open>What identifies the object: where it is, the key of its offset, its version.\<close>

record work =
  wk_bucket :: string
  wk_key :: string
  wk_offsetStorageKey :: string
  wk_version :: string

definition flush ::
    "('obj, 'r, 'b, 'w) worker_outside \<Rightarrow> worker_config \<Rightarrow> work \<Rightarrow> 'b list \<Rightarrow> 'w \<Rightarrow> go_error option \<times> 'w" where
  "flush out cfg wk ld w =
     (case consumeWithRetry (wc_retryEnabled cfg) (wo_IsPermanent out) (wo_waits out w)
             (wo_ConsumeLogs out (wk_bucket wk) (wk_key wk) ld) w of
        (Some err, w1) \<Rightarrow> (Some (ErrWrapped ''consume logs'' err), w1)
      | (None, w1) \<Rightarrow> (None, w1))"

definition checkpoint :: "('obj, 'r, 'b, 'w) worker_outside \<Rightarrow> work \<Rightarrow> Offset \<Rightarrow> 'w \<Rightarrow> 'w" where
  "checkpoint out wk pos w =
     (case wo_SaveOffset out (wk_offsetStorageKey wk) \<lparr>so_Offset = pos, so_Version = wk_version wk\<rparr> w of
        (err, w1) \<Rightarrow> w1)"

text \<open>How the loop over the records ends: at the end, at a cancellation, at a cut object, or failed.\<close>

datatype read_end = Finished | Stopped go_error | Truncated | Failed go_error

text \<open>The loop, with the batch and the position at its end; \<open>fatal\<close> are the errors that fail the object.\<close>

fun read_loop ::
    "('obj, 'r, 'b, 'w) worker_outside \<Rightarrow> worker_config \<Rightarrow> (go_error \<Rightarrow> bool) \<Rightarrow> work \<Rightarrow> 'r produced \<Rightarrow> Offset
      \<Rightarrow> 'b list \<Rightarrow> 'w \<Rightarrow> read_end \<times> 'b list \<times> Offset \<times> 'w" where
  "read_loop out cfg fatal wk [] fin ld w = (Finished, ld, fin, w)"
| "read_loop out cfg fatal wk ((Inl err, pos) # logs) fin ld w =
     (if IsCancellation err then (Stopped err, ld, pos, w)
      else if IsTruncatedObject err then (Truncated, ld, pos, w)
      else if fatal err then (Failed err, ld, pos, w)
      else if IsStreamRead err then (Failed err, ld, pos, w)
      else read_loop out cfg fatal wk logs fin ld w)"
| "read_loop out cfg fatal wk ((Inr log, pos) # logs) fin ld w =
     (case wo_AppendLogBody out log of
        (lr, Some err) \<Rightarrow> read_loop out cfg fatal wk logs fin (ld @ [lr]) w
      | (lr, None) \<Rightarrow>
          if int (length (ld @ [lr])) \<ge> wc_maxLogsEmitted cfg then
            (case flush out cfg wk (ld @ [lr]) w of
               (Some err, w1) \<Rightarrow> (Failed err, ld @ [lr], pos, w1)
             | (None, w1) \<Rightarrow> read_loop out cfg fatal wk logs fin [] (checkpoint out wk pos w1))
          else read_loop out cfg fatal wk logs fin (ld @ [lr]) w)"

text \<open>From the sequence of records to the result: whether the object was cut, or an error.\<close>

definition deliver_records ::
    "('obj, 'r, 'b, 'w) worker_outside \<Rightarrow> worker_config \<Rightarrow> (go_error \<Rightarrow> bool) \<Rightarrow> work
      \<Rightarrow> (go_error + 'r produced \<times> Offset) \<Rightarrow> 'w \<Rightarrow> (go_error + bool) \<times> 'w" where
  "deliver_records out cfg fatal wk recs w =
     (case recs of
        Inl err \<Rightarrow> if IsTruncatedObject err then (Inr True, w) else (Inl (ErrWrapped ''parse logs'' err), w)
      | Inr (logs, fin) \<Rightarrow>
          (case read_loop out cfg fatal wk logs fin [] w of
             (ended, ld, pos, w1) \<Rightarrow>
               (case ended of
                  Failed err \<Rightarrow> (Inl err, w1)
                | _ \<Rightarrow>
                    (case (if length ld > 0
                           then (case flush out cfg wk ld w1 of
                                   (Some err, w2) \<Rightarrow> (Some err, w2)
                                 | (None, w2) \<Rightarrow> (None, checkpoint out wk pos w2))
                           else (None, w1)) of
                       (Some err, w2) \<Rightarrow> (Inl err, w2)
                     | (None, w2) \<Rightarrow>
                         (case ended of
                            Stopped err \<Rightarrow> (Inl (ErrWrapped ''read object'' err), w2)
                          | _ \<Rightarrow> (Inr (ended = Truncated), w2))))))"

text \<open>
  The part of \<open>consumeLogsFromS3Object\<close> and \<open>consumeLogsFromGCSObject\<close> they have in common;
  \<open>discard version stored\<close> is whether a stored offset is not of this object.
\<close>

definition consume_object ::
    "(go_error \<Rightarrow> bool) \<Rightarrow> (string \<Rightarrow> stored_offset \<Rightarrow> bool) \<Rightarrow> string \<Rightarrow> ('obj, 'r, 'b, 'w) worker_outside
      \<Rightarrow> worker_config \<Rightarrow> string \<Rightarrow> string \<Rightarrow> bool \<Rightarrow> 'w \<Rightarrow> (go_error + bool) \<times> 'w" where
  "consume_object fatal discard storageKey out cfg bucket key tryJSON w =
     (case wo_GetObject out bucket key w of
        (Inl err, w1) \<Rightarrow> (Inl (ErrWrapped ''get object'' err), w1)
      | (Inr (obj, version), w1) \<Rightarrow>
          (case wo_LoadOffset out (storageKey @ ''_'' @ key) w1 of
             (Inl err, w2) \<Rightarrow> (Inl (ErrWrapped ''load offset'' err), w2)
           | (Inr stored, w2) \<Rightarrow>
               (let offset = (case stored of None \<Rightarrow> \<lparr>so_Offset = NewOffset 0, so_Version = []\<rparr> | Some s \<Rightarrow> s);
                    startOffset = (if discard version offset then NewOffset 0 else so_Offset offset)
                in case wo_BufferedReader out obj tryJSON of
                     Some err \<Rightarrow> (Inl (ErrWrapped ''get stream reader'' err), w2)
                   | None \<Rightarrow>
                       (case wo_NewProducer out obj tryJSON of
                          Some err \<Rightarrow> (Inl (ErrWrapped ''create parser'' err), w2)
                        | None \<Rightarrow>
                            deliver_records out cfg fatal
                              \<lparr>wk_bucket = bucket, wk_key = key, wk_offsetStorageKey = storageKey @ ''_'' @ key,
                               wk_version = version\<rparr>
                              (wo_Records out obj tryJSON startOffset) w2))))"

text \<open>\<open>processRecord\<close> of both: an object that is no JSON after all is read again as lines.\<close>

definition process_record :: "(bool \<Rightarrow> 'w \<Rightarrow> (go_error + bool) \<times> 'w) \<Rightarrow> 'w \<Rightarrow> (go_error + bool) \<times> 'w" where
  "process_record consume w =
     (case consume True w of
        (Inl err, w1) \<Rightarrow> if errors_Is err ErrNotArrayOrKnownObject then consume False w1 else (Inl err, w1)
      | (Inr truncated, w1) \<Rightarrow> (Inr truncated, w1))"


section \<open>A record that could not be appended\<close>

text \<open>
  A record for which \<open>AppendLogBody\<close> fails is meant to be skipped, but it was added to the batch
  before the call and stays there: it is delivered as far as it was filled in.
\<close>

lemma failed_append_is_kept:
  assumes "wo_AppendLogBody out log = (lr, Some err)"
  shows "read_loop out cfg fatal wk [(Inr log, pos)] fin ld w = (Finished, ld @ [lr], fin, w)"
  using assms by simp

end
