(* ===== verification/S3Worker.thy ===== *)
theory S3Worker
  imports ObjectWorker
begin

text \<open>
  The worker of the S3 event receiver (\<open>receiver/awss3eventreceiver/internal/worker\<close>): notifications,
  keys, the objects of a message, dead-letter conditions, and the extension of a message's
  visibility while it is worked on.
\<close>

section \<open>Errors\<close>

text \<open>What the code asks of AWS errors: the code of an API error, the missing key, the text.\<close>

record aws_errors =
  ae_APIErrorCode :: "go_error \<Rightarrow> string option"
  ae_NoSuchKey :: "go_error \<Rightarrow> bool"
  ae_Error :: "go_error \<Rightarrow> string"

definition isAccessDeniedError :: "aws_errors \<Rightarrow> go_error \<Rightarrow> bool" where
  "isAccessDeniedError ae err =
     (case errors_As (\<lambda>e. ae_APIErrorCode ae e \<noteq> None) err of
        Some e \<Rightarrow> ae_APIErrorCode ae e = Some ''AccessDenied'' \<or> ae_APIErrorCode ae e = Some ''Forbidden''
      | None \<Rightarrow> str_contains (ae_Error ae err) ''AccessDenied'' \<or> str_contains (ae_Error ae err) ''Forbidden'')"

definition isNoSuchKeyError :: "aws_errors \<Rightarrow> go_error \<Rightarrow> bool" where
  "isNoSuchKeyError ae err =
     (if errors_As (ae_NoSuchKey ae) err \<noteq> None then True else str_contains (ae_Error ae err) ''NoSuchKey'')"

definition isUnsupportedFileTypeError :: "go_error \<Rightarrow> bool" where
  "isUnsupportedFileTypeError err = (IsUnsupportedContent (Some err) \<and> \<not> IsTruncatedObject err)"

datatype dlq_type = IamPermissionDenied | FileNotFound | UnsupportedFileType

definition s3_isDLQConditionError :: "aws_errors \<Rightarrow> go_error \<Rightarrow> dlq_type option" where
  "s3_isDLQConditionError ae err =
     (if IsCancellation err then None
      else if isAccessDeniedError ae err then Some IamPermissionDenied
      else if isNoSuchKeyError ae err then Some FileNotFound
      else if isUnsupportedFileTypeError err then Some UnsupportedFileType
      else None)"

text \<open>
  The text of any error counts, so a consumer that was refused with \<open>403 Forbidden\<close> downstream makes
  the message one without permission to read the object.
\<close>

lemma consumer_error_is_access_denied:
  assumes "\<not> IsCancellation err" and "errors_As (\<lambda>e. ae_APIErrorCode ae e \<noteq> None) err = None"
    and "str_contains (ae_Error ae err) ''Forbidden''"
  shows "s3_isDLQConditionError ae err = Some IamPermissionDenied"
  using assms by (simp add: s3_isDLQConditionError_def isAccessDeniedError_def)

section \<open>Notifications\<close>

record s3_record =
  sr_EventName :: string
  sr_Bucket :: string
  sr_Key :: string

record SNSNotification =
  sns_Type :: string
  sns_Message :: string

datatype notification_error = BadSNS | NotANotification string | NoMessage | BadS3Event

text \<open>\<open>json.Unmarshal\<close> into the notification types.\<close>

record notification_json =
  nj_SNS :: "bytes \<Rightarrow> SNSNotification option"
  nj_S3Event :: "bytes \<Rightarrow> s3_record list option"

definition parseS3Event :: "notification_json \<Rightarrow> bytes \<Rightarrow> notification_error + s3_record list" where
  "parseS3Event nj body = (case nj_S3Event nj body of None \<Rightarrow> Inl BadS3Event | Some rs \<Rightarrow> Inr rs)"

definition parseStandardSNSMessage :: "notification_json \<Rightarrow> bytes \<Rightarrow> notification_error + s3_record list" where
  "parseStandardSNSMessage nj body =
     (case nj_SNS nj body of
        None \<Rightarrow> Inl BadSNS
      | Some n \<Rightarrow>
          if sns_Type n \<noteq> ''Notification'' then Inl (NotANotification (sns_Type n))
          else if sns_Message n = [] then Inl NoMessage
          else parseS3Event nj (sns_Message n))"

definition getParseFuncForNotificationType :: "notification_json \<Rightarrow> string \<Rightarrow> bytes \<Rightarrow> notification_error + s3_record list" where
  "getParseFuncForNotificationType nj notificationType =
     (if notificationType = ''sns'' then parseStandardSNSMessage nj else parseS3Event nj)"

text \<open>\<open>url.QueryUnescape\<close>.\<close>

definition query_hex :: "char \<Rightarrow> nat option" where
  "query_hex c =
     (let n = of_char c :: nat
      in if 48 \<le> n \<and> n \<le> 57 then Some (n - 48)
         else if 97 \<le> n \<and> n \<le> 102 then Some (n - 87)
         else if 65 \<le> n \<and> n \<le> 70 then Some (n - 55)
         else None)"

fun QueryUnescape :: "string \<Rightarrow> string option" where
  "QueryUnescape [] = Some []"
| "QueryUnescape (c # s) =
     (if c = CHR ''%'' then
        (case s of
           a # b # t \<Rightarrow>
             (case (query_hex a, query_hex b) of
                (Some x, Some y) \<Rightarrow> map_option (\<lambda>u. char_of (16 * x + y) # u) (QueryUnescape t)
              | _ \<Rightarrow> None)
         | _ \<Rightarrow> None)
      else map_option (\<lambda>u. (if c = CHR ''+'' then CHR '' '' else c) # u) (QueryUnescape s))"

definition decoded_key :: "string \<Rightarrow> string" where
  "decoded_key key = (case QueryUnescape key of None \<Rightarrow> key | Some k \<Rightarrow> k)"

record s3_worker =
  s3_cfg :: worker_config
  s3_bucketNameFilter :: "(string \<Rightarrow> bool) option"
  s3_objectKeyFilter :: "(string \<Rightarrow> bool) option"
  s3_notificationType :: string
  s3_visibilityTimeout :: duration
  s3_visibilityExtensionInterval :: duration
  s3_maxVisibilityWindow :: duration

definition matches :: "(string \<Rightarrow> bool) option \<Rightarrow> string \<Rightarrow> bool" where
  "matches filt s = (case filt of None \<Rightarrow> True | Some MatchString \<Rightarrow> MatchString s)"

text \<open>The objects of a notification that are worked on, with their decoded keys.\<close>

definition objectCreatedRecords :: "s3_worker \<Rightarrow> s3_record list \<Rightarrow> (string \<times> string) list" where
  "objectCreatedRecords wk records =
     map (\<lambda>r. (sr_Bucket r, decoded_key (sr_Key r)))
       (filter (\<lambda>r. str_contains (sr_EventName r) ''ObjectCreated:'' \<and> matches (s3_bucketNameFilter wk) (sr_Bucket r)
                    \<and> matches (s3_objectKeyFilter wk) (decoded_key (sr_Key r))) records)"

section \<open>A message\<close>

definition s3_OffsetStorageKey :: string where
  "s3_OffsetStorageKey = ''_aws_s3_event_offset''"

definition s3_discard :: "string \<Rightarrow> stored_offset \<Rightarrow> bool" where
  "s3_discard version startOffset = (version = [] \<or> so_Version startOffset \<noteq> version)"

definition consumeLogsFromS3Object ::
    "('obj, 'r, 'b, 'w) worker_outside \<Rightarrow> worker_config \<Rightarrow> string \<Rightarrow> string \<Rightarrow> bool \<Rightarrow> 'w \<Rightarrow> (go_error + bool) \<times> 'w" where
  "consumeLogsFromS3Object = consume_object (\<lambda>err. IsUnsupportedContent (Some err)) s3_discard s3_OffsetStorageKey"

definition s3_processRecord ::
    "('obj, 'r, 'b, 'w) worker_outside \<Rightarrow> worker_config \<Rightarrow> string \<Rightarrow> string \<Rightarrow> 'w \<Rightarrow> (go_error + bool) \<times> 'w" where
  "s3_processRecord out cfg bucket key = process_record (consumeLogsFromS3Object out cfg bucket key)"

fun delete_offsets :: "('obj, 'r, 'b, 'w) worker_outside \<Rightarrow> string list \<Rightarrow> 'w \<Rightarrow> 'w" where
  "delete_offsets out [] w = w"
| "delete_offsets out (key # keys) w =
     (case wo_DeleteOffset out (s3_OffsetStorageKey @ ''_'' @ key) w of (err, w1) \<Rightarrow> delete_offsets out keys w1)"

definition deleteMessage :: "('obj, 'r, 'b, 'w) worker_outside \<Rightarrow> string list \<Rightarrow> 'w \<Rightarrow> bool \<times> 'w" where
  "deleteMessage out keys w =
     (case wo_Ack out w of
        (Some err, w1) \<Rightarrow> (False, w1)
      | (None, w1) \<Rightarrow> (True, delete_offsets out keys w1))"

definition s3_handleProcessingError ::
    "('obj, 'r, 'b, 'w) worker_outside \<Rightarrow> aws_errors \<Rightarrow> go_error \<Rightarrow> 'w \<Rightarrow> 'w" where
  "s3_handleProcessingError out ae err w =
     (if wo_ctxErr out w \<or> errors_Is err ErrCanceled then snd (wo_Nack out w)
      else (case s3_isDLQConditionError ae err of Some t \<Rightarrow> snd (wo_Nack out w) | None \<Rightarrow> w))"

text \<open>The loop over the objects: the error that ends it, the keys and the number of cut objects so far.\<close>

fun process_objects ::
    "('obj, 'r, 'b, 'w) worker_outside \<Rightarrow> worker_config \<Rightarrow> (string \<times> string) list \<Rightarrow> string list \<Rightarrow> nat \<Rightarrow> 'w
      \<Rightarrow> (go_error + string list \<times> nat) \<times> 'w" where
  "process_objects out cfg [] keys truncatedCount w = (Inr (keys, truncatedCount), w)"
| "process_objects out cfg ((bucket, decodedKey) # rs) keys truncatedCount w =
     (case s3_processRecord out cfg bucket decodedKey w of
        (Inl err, w1) \<Rightarrow> (Inl err, w1)
      | (Inr truncated, w1) \<Rightarrow>
          process_objects out cfg rs (keys @ [decodedKey])
            (if truncated then Suc truncatedCount else truncatedCount) w1)"

definition s3_ProcessMessage ::
    "s3_worker \<Rightarrow> notification_json \<Rightarrow> aws_errors \<Rightarrow> ('obj, 'r, 'b, 'w) worker_outside \<Rightarrow> bytes \<Rightarrow> 'w \<Rightarrow> 'w" where
  "s3_ProcessMessage wk nj ae out body w =
     (case getParseFuncForNotificationType nj (s3_notificationType wk) body of
        Inl err \<Rightarrow> snd (deleteMessage out [] w)
      | Inr records \<Rightarrow>
          if length (objectCreatedRecords wk records) = 0 then snd (deleteMessage out [] w)
          else (case process_objects out (s3_cfg wk) (objectCreatedRecords wk records) [] 0 w of
                  (Inl err, w1) \<Rightarrow> s3_handleProcessingError out ae err w1
                | (Inr (keys, truncatedCount), w1) \<Rightarrow> snd (deleteMessage out keys w1)))"

section \<open>Visibility\<close>

text \<open>
  A message that is received is hidden from other consumers for the visibility timeout, in whole
  seconds, from its reception on. It then waits in the channel for a worker, and while a worker
  is at it the worker asks for extensions: the times are those of the clock, an extension is the
  time it is asked for, its length in whole seconds from then, and whether the request failed.
\<close>

record visibilityMonitor =
  vm_startTime :: gotime
  vm_maxVisibilityEndTime :: gotime
  vm_visibilityTimeout :: duration
  vm_extensionInterval :: duration
  vm_timer :: gotime

definition getSafetyMargin :: "duration \<Rightarrow> duration" where
  "getSafetyMargin timeout = timeout * 50 div 100"

definition newVisibilityMonitor :: "gotime \<Rightarrow> duration \<Rightarrow> duration \<Rightarrow> duration \<Rightarrow> visibilityMonitor" where
  "newVisibilityMonitor now visibilityTimeout extensionInterval maxVisibilityWindow =
     (let startTime = now; firstExtensionTime = startTime + getSafetyMargin visibilityTimeout
      in \<lparr>vm_startTime = startTime, vm_maxVisibilityEndTime = startTime + maxVisibilityWindow,
          vm_visibilityTimeout = visibilityTimeout, vm_extensionInterval = extensionInterval,
          vm_timer = now + (firstExtensionTime - startTime)\<rparr>)"

definition shouldExtendToMax :: "gotime \<Rightarrow> visibilityMonitor \<Rightarrow> bool" where
  "shouldExtendToMax now vm = (\<not> now + vm_extensionInterval vm < vm_maxVisibilityEndTime vm)"

definition scheduleNextExtension :: "gotime \<Rightarrow> visibilityMonitor \<Rightarrow> visibilityMonitor" where
  "scheduleNextExtension now vm =
     (let nextExtensionTime = now + getSafetyMargin (vm_extensionInterval vm)
      in vm\<lparr>vm_timer := now + (nextExtensionTime - now)\<rparr>)"

definition getRemainingTime :: "gotime \<Rightarrow> visibilityMonitor \<Rightarrow> duration" where
  "getRemainingTime now vm = vm_maxVisibilityEndTime vm - now"

definition second :: duration where
  "second = 1000000000"

text \<open>\<open>int32(timeout.Seconds())\<close>.\<close>

definition whole_seconds :: "duration \<Rightarrow> int" where
  "whole_seconds d = (if d \<ge> 0 then d div second else - ((- d) div second))"

text \<open>
  The loop of \<open>extendMessageVisibility\<close>: how late each firing of the timer is taken and whether the
  request then fails, until the work ends (the list ends), the last extension or a failed one;
  with the extensions asked for.
\<close>

type_synonym extension = "gotime \<times> int \<times> bool"

fun extension_loop :: "(duration \<times> bool) list \<Rightarrow> visibilityMonitor \<Rightarrow> extension list" where
  "extension_loop [] vm = []"
| "extension_loop ((late, fails) # ticks) vm =
     (let now = vm_timer vm + late
      in if shouldExtendToMax now vm then [(now, whole_seconds (getRemainingTime now vm), fails)]
         else (now, whole_seconds (vm_extensionInterval vm), fails)
                # (if fails then [] else extension_loop ticks (scheduleNextExtension now vm)))"

definition extendMessageVisibility :: "s3_worker \<Rightarrow> gotime \<Rightarrow> (duration \<times> bool) list \<Rightarrow> extension list" where
  "extendMessageVisibility wk now ticks =
     extension_loop ticks
       (newVisibilityMonitor now (s3_visibilityTimeout wk) (s3_visibilityExtensionInterval wk) (s3_maxVisibilityWindow wk))"

text \<open>Until when a message that \<open>receiveMessages\<close> gets at a time is hidden.\<close>

definition receive_hides_until :: "s3_worker \<Rightarrow> gotime \<Rightarrow> gotime" where
  "receive_hides_until wk received = received + whole_seconds (s3_visibilityTimeout wk) * second"

text \<open>
  A message that is received at one time and waits before a worker takes it: the extensions, which
  the worker counts from the time it takes the message.
\<close>

definition message_extensions :: "s3_worker \<Rightarrow> gotime \<Rightarrow> duration \<Rightarrow> (duration \<times> bool) list \<Rightarrow> extension list" where
  "message_extensions wk received waited ticks = extendMessageVisibility wk (received + waited) ticks"

section \<open>What the extensions cover\<close>

lemma whole_seconds_bounds:
  assumes "0 \<le> d"
  shows "whole_seconds d * second \<le> d" and "d - second < whole_seconds d * second"
proof -
  have ws: "whole_seconds d = d div second" using assms by (simp add: whole_seconds_def)
  have split: "d = d div second * second + d mod second" by (rule div_mult_mod_eq [symmetric])
  have "0 \<le> d mod second" "d mod second < second" by (simp_all add: second_def)
  with split show "whole_seconds d * second \<le> d" and "d - second < whole_seconds d * second"
    unfolding ws by linarith+
qed

lemma safety_margin: "0 \<le> d \<Longrightarrow> 2 * getSafetyMargin d \<le> d" "0 \<le> d \<Longrightarrow> d div 2 \<le> getSafetyMargin d"
  by (simp_all add: getSafetyMargin_def)

text \<open>
  Extensions in time: each is asked for while the message is still hidden and ends by the given
  time, and only the last one fails.
\<close>

fun in_time :: "gotime \<Rightarrow> gotime \<Rightarrow> extension list \<Rightarrow> bool" where
  "in_time until end_time [] = True"
| "in_time until end_time ((t, n, fails) # es) =
     (t \<le> until \<and> t + n * second \<le> end_time \<and> (fails \<longrightarrow> es = []) \<and> in_time (t + n * second) end_time es)"

text \<open>How long a message is hidden without a break: a failed or late extension changes nothing any more.\<close>

fun hidden_until :: "gotime \<Rightarrow> extension list \<Rightarrow> gotime" where
  "hidden_until until [] = until"
| "hidden_until until ((t, n, fails) # es) =
     (if until < t then until
      else if fails then hidden_until until es
      else hidden_until (t + n * second) es)"

lemma extension_loop_in_time:
  assumes "\<forall>(l, f)\<in>set ticks. 0 \<le> l \<and> l \<le> late" and "0 \<le> late" and "2 * (late + second) \<le> vm_extensionInterval vm"
    and "vm_timer vm + late \<le> vm_maxVisibilityEndTime vm" and "vm_timer vm + late \<le> until"
  shows "in_time until (vm_maxVisibilityEndTime vm) (extension_loop ticks vm)"
  using assms(1,3-5)
proof (induction ticks vm arbitrary: until rule: extension_loop.induct)
  case (2 l f ticks vm)
  let ?now = "vm_timer vm + l" and ?i = "vm_extensionInterval vm" and ?e = "vm_maxVisibilityEndTime vm"
  have i: "0 \<le> ?i" using 2(3) assms(2) by (simp add: second_def)
  have l: "0 \<le> l" "l \<le> late" using 2(2) by auto
  show ?case
  proof (cases "shouldExtendToMax ?now vm")
    case True
    have "0 \<le> ?e - ?now" using 2(4) l by simp
    from whole_seconds_bounds(1) [OF this] True l 2(5) show ?thesis
      by (simp add: getRemainingTime_def Let_def)
  next
    case False
    let ?vm = "scheduleNextExtension ?now vm"
    have next': "vm_timer ?vm = ?now + getSafetyMargin ?i" "vm_extensionInterval ?vm = ?i"
        "vm_maxVisibilityEndTime ?vm = ?e"
      by (simp_all add: scheduleNextExtension_def Let_def)
    have room: "?now + ?i < ?e" using False by (simp add: shouldExtendToMax_def)
    have margin: "getSafetyMargin ?i + late \<le> ?i - second"
      using safety_margin(1) [OF i] 2(3) unfolding distrib_left by linarith
    note sec = whole_seconds_bounds [OF i]
    have "in_time (?now + whole_seconds ?i * second) ?e (if f then [] else extension_loop ticks ?vm)"
    proof (cases f)
      case False
      have "in_time (?now + whole_seconds ?i * second) (vm_maxVisibilityEndTime ?vm) (extension_loop ticks ?vm)"
        by (rule 2(1)) (use 2(2,3) \<open>\<not> shouldExtendToMax ?now vm\<close> False next' margin room sec in \<open>auto simp: second_def\<close>)
      with False next' show ?thesis by simp
    qed simp
    with room sec l 2(5) False show ?thesis by (simp add: Let_def)
  qed
qed simp

text \<open>As long as no extension fails, the extensions go on until the whole window is covered.\<close>

lemma extension_loop_covers:
  assumes "\<forall>(l, f)\<in>set ticks. 0 \<le> l \<and> l \<le> late \<and> \<not> f" and "0 \<le> late" and "2 * (late + second) \<le> vm_extensionInterval vm"
    and "vm_timer vm + late \<le> vm_maxVisibilityEndTime vm"
    and "vm_maxVisibilityEndTime vm - vm_timer vm \<le> int (length ticks) * (vm_extensionInterval vm div 2)" and "ticks \<noteq> []"
  shows "extension_loop ticks vm \<noteq> [] \<and> (case last (extension_loop ticks vm) of (t, n, fails) \<Rightarrow>
    vm_maxVisibilityEndTime vm - second < t + n * second)"
  using assms(1,3-6)
proof (induction ticks vm rule: extension_loop.induct)
  case (2 l f ticks vm)
  let ?now = "vm_timer vm + l" and ?i = "vm_extensionInterval vm" and ?e = "vm_maxVisibilityEndTime vm"
  have i: "0 \<le> ?i" using 2(3) assms(2) by (simp add: second_def)
  have l: "0 \<le> l" "l \<le> late" "\<not> f" using 2(2) by auto
  show ?case
  proof (cases "shouldExtendToMax ?now vm")
    case True
    have "0 \<le> ?e - ?now" using 2(4) l by simp
    from whole_seconds_bounds(2) [OF this] True show ?thesis by (simp add: getRemainingTime_def Let_def)
  next
    case False
    let ?vm = "scheduleNextExtension ?now vm"
    have next': "vm_timer ?vm = ?now + getSafetyMargin ?i" "vm_extensionInterval ?vm = ?i"
        "vm_maxVisibilityEndTime ?vm = ?e"
      by (simp_all add: scheduleNextExtension_def Let_def)
    have room: "?now + ?i < ?e" using False by (simp add: shouldExtendToMax_def)
    have margin: "getSafetyMargin ?i + late \<le> ?i - second" "?i div 2 \<le> getSafetyMargin ?i"
      using safety_margin [OF i] 2(3) unfolding distrib_left by linarith+
    have left: "?e - vm_timer ?vm \<le> int (length ticks) * (?i div 2)"
    proof -
      have "?e - vm_timer vm \<le> (1 + int (length ticks)) * (?i div 2)" using 2(5) by simp
      then have "?e - vm_timer vm \<le> ?i div 2 + int (length ticks) * (?i div 2)" by (simp add: algebra_simps)
      with next' margin(2) l show ?thesis by simp
    qed
    moreover have "0 < ?e - vm_timer ?vm" using room margin(1) next'(1) assms(2) by (simp add: second_def)
    ultimately have "ticks \<noteq> []" by auto
    have "extension_loop ticks ?vm \<noteq> [] \<and> (case last (extension_loop ticks ?vm) of (t, n, fails) \<Rightarrow>
        vm_maxVisibilityEndTime ?vm - second < t + n * second)"
      by (rule 2(1)) (use 2(2,3) False l next' margin room left \<open>ticks \<noteq> []\<close> in \<open>auto simp: second_def\<close>)
    with False l next' show ?thesis by (simp add: Let_def)
  qed
qed simp

lemma hidden_until_in_time:
  assumes "in_time until e es" and "\<forall>(t, n, fails)\<in>set es. \<not> fails" and "es \<noteq> []"
  shows "hidden_until until es = (case last es of (t, n, fails) \<Rightarrow> t + n * second)"
  using assms by (induction es arbitrary: until) auto

lemma extension_loop_fails:
  "\<forall>(l, f)\<in>set ticks. \<not> f \<Longrightarrow> \<forall>(t, n, f)\<in>set (extension_loop ticks vm). \<not> f"
  by (induction ticks vm rule: extension_loop.induct) (auto simp: Let_def)

text \<open>
  A failed request ends the extensions, and the message stays hidden as long as the last
  successful one, or its reception, had it.
\<close>

lemma hidden_after_failure:
  assumes "in_time until e (es @ [(t, n, True)])"
  shows "hidden_until until (es @ [(t, n, True)]) = hidden_until until es"
  using assms by (induction es arbitrary: until) auto

text \<open>
  A message that waits for a worker longer than is left of its timeout behind half of it has become
  visible before the first extension is asked for.
\<close>

lemma visibility_lapses_in_channel:
  assumes "receive_hides_until wk received < received + waited + getSafetyMargin (s3_visibilityTimeout wk)"
    and "\<forall>(l, f)\<in>set ticks. 0 \<le> l"
  shows "hidden_until (receive_hides_until wk received) (message_extensions wk received waited ticks)
    = receive_hides_until wk received"
  using assms
  by (cases ticks) (auto simp: message_extensions_def extendMessageVisibility_def newVisibilityMonitor_def Let_def)


definition sample_visibility :: s3_worker where
  "sample_visibility =
     \<lparr>s3_cfg = \<lparr>wc_maxLogsEmitted = 1, wc_retryEnabled = False\<rparr>, s3_bucketNameFilter = None, s3_objectKeyFilter = None,
      s3_notificationType = ''s3'', s3_visibilityTimeout = 60 * second, s3_visibilityExtensionInterval = 60 * second,
      s3_maxVisibilityWindow = 180 * second\<rparr>"


end
