(* ===== verification/GcsWorker.thy ===== *)
theory GcsWorker
  imports ObjectWorker
begin

text \<open>
  The worker of the Pub/Sub event receiver (\<open>receiver/gcspubsubeventreceiver/internal/worker\<close>): the
  filters on a message, its object, dead-letter conditions, and the extension of the deadline.
\<close>

section \<open>Errors\<close>

datatype dlqErrorKind =
    dlqErrorKindNone
  | dlqErrorKindFileNotFound
  | dlqErrorKindPermissionDenied
  | dlqErrorKindUnsupportedFile

text \<open>The errors of the storage client: the missing object and the status of an API error.\<close>

record gcs_errors =
  ge_ErrObjectNotExist :: go_error
  ge_APIErrorCode :: "go_error \<Rightarrow> int option"

definition dlqConditionKind :: "gcs_errors \<Rightarrow> go_error \<Rightarrow> dlqErrorKind" where
  "dlqConditionKind ge err =
     (if IsCancellation err then dlqErrorKindNone
      else if errors_Is err (ge_ErrObjectNotExist ge) then dlqErrorKindFileNotFound
      else if (case errors_As (\<lambda>e. ge_APIErrorCode ge e \<noteq> None) err of
                 Some e \<Rightarrow> ge_APIErrorCode ge e = Some 403 | None \<Rightarrow> False) then dlqErrorKindPermissionDenied
      else if IsTruncatedObject err then dlqErrorKindNone
      else if IsUnsupportedContent (Some err) then dlqErrorKindUnsupportedFile
      else dlqErrorKindNone)"

definition gcs_isDLQConditionError :: "gcs_errors \<Rightarrow> go_error \<Rightarrow> bool" where
  "gcs_isDLQConditionError ge err = (dlqConditionKind ge err \<noteq> dlqErrorKindNone)"

section \<open>A message\<close>

record PullMessage =
  pm_eventType :: string
  pm_bucketId :: string
  pm_objectId :: string

record gcs_worker =
  gw_cfg :: worker_config
  gw_bucketNameFilter :: "(string \<Rightarrow> bool) option"
  gw_objectKeyFilter :: "(string \<Rightarrow> bool) option"

definition gcs_matches :: "(string \<Rightarrow> bool) option \<Rightarrow> string \<Rightarrow> bool" where
  "gcs_matches filt s = (case filt of None \<Rightarrow> True | Some MatchString \<Rightarrow> MatchString s)"

definition gcs_OffsetStorageKey :: string where
  "gcs_OffsetStorageKey = ''_gcs_pub_event_offset''"

definition gcs_discard :: "string \<Rightarrow> stored_offset \<Rightarrow> bool" where
  "gcs_discard version startOffset = (so_Version startOffset \<noteq> version)"

definition consumeLogsFromGCSObject ::
    "gcs_errors \<Rightarrow> ('obj, 'r, 'b, 'w) worker_outside \<Rightarrow> worker_config \<Rightarrow> string \<Rightarrow> string \<Rightarrow> bool \<Rightarrow> 'w
      \<Rightarrow> (go_error + bool) \<times> 'w" where
  "consumeLogsFromGCSObject ge = consume_object (gcs_isDLQConditionError ge) gcs_discard gcs_OffsetStorageKey"

definition gcs_processRecord ::
    "gcs_errors \<Rightarrow> ('obj, 'r, 'b, 'w) worker_outside \<Rightarrow> worker_config \<Rightarrow> string \<Rightarrow> string \<Rightarrow> 'w
      \<Rightarrow> (go_error + bool) \<times> 'w" where
  "gcs_processRecord ge out cfg bucket object = process_record (consumeLogsFromGCSObject ge out cfg bucket object)"

definition gcs_handleProcessingError ::
    "('obj, 'r, 'b, 'w) worker_outside \<Rightarrow> gcs_errors \<Rightarrow> go_error \<Rightarrow> 'w \<Rightarrow> 'w" where
  "gcs_handleProcessingError out ge err w =
     (if wo_ctxErr out w \<or> errors_Is err ErrCanceled then snd (wo_Nack out w)
      else if gcs_isDLQConditionError ge err then snd (wo_Nack out w)
      else w)"

definition gcs_ProcessMessage ::
    "gcs_worker \<Rightarrow> gcs_errors \<Rightarrow> ('obj, 'r, 'b, 'w) worker_outside \<Rightarrow> PullMessage \<Rightarrow> 'w \<Rightarrow> bool \<times> 'w" where
  "gcs_ProcessMessage wk ge out msg w =
     (if pm_eventType msg \<noteq> ''OBJECT_FINALIZE'' then (False, snd (wo_Ack out w))
      else if pm_bucketId msg = [] \<or> pm_objectId msg = [] then (False, snd (wo_Ack out w))
      else if \<not> gcs_matches (gw_bucketNameFilter wk) (pm_bucketId msg) then (False, snd (wo_Ack out w))
      else if \<not> gcs_matches (gw_objectKeyFilter wk) (pm_objectId msg) then (False, snd (wo_Ack out w))
      else (case gcs_processRecord ge out (gw_cfg wk) (pm_bucketId msg) (pm_objectId msg) w of
              (Inl err, w1) \<Rightarrow> (False, gcs_handleProcessingError out ge err w1)
            | (Inr truncated, w1) \<Rightarrow>
                (case wo_Ack out w1 of
                   (Some err, w2) \<Rightarrow> (False, w2)
                 | (None, w2) \<Rightarrow>
                     (True, snd (wo_DeleteOffset out (gcs_OffsetStorageKey @ ''_'' @ pm_objectId msg) w2)))))"

section \<open>The deadline\<close>

definition extensionSecs :: int where
  "extensionSecs = 30"

text \<open>
  The loop of \<open>extendAckDeadline\<close>: the time since its start at each tick, until the work ends (the list
  ends), the longest extension is reached or an extension failed; with the extensions asked for.
\<close>

fun extendAckDeadline :: "duration \<Rightarrow> (duration \<times> bool) list \<Rightarrow> (duration \<times> int) list" where
  "extendAckDeadline maxExtension [] = []"
| "extendAckDeadline maxExtension ((since, fails) # ticks) =
     (if since \<ge> maxExtension then []
      else (since, extensionSecs) # (if fails then [] else extendAckDeadline maxExtension ticks))"

end
