(* ===== verification/ObjectOnce.thy ===== *)
theory ObjectOnce
  imports S3Worker GcsWorker
begin

text \<open>
  What the workers deliver of an object. A message about one object is delivered again and again;
  every delivery may find the download broken anywhere, the consumer failing for any batch, the
  save of any offset failing (the code only logs it), the context ended, the acknowledgement lost.
  Every delivery hands on a run of consecutive records that begins no later than the one before it
  ended, and exactly there if no save failed: \<open>replays\<close>. The locale \<open>resumable_object\<close> is what the workers
  need of the producer of records; it is interpreted on the line parser.
\<close>

section \<open>Deliveries\<close>

record 'dl delivery =
  dv_download :: 'dl
  dv_getErr :: "go_error option"
  dv_loadErr :: "go_error option"
  dv_readerErr :: "bool \<Rightarrow> go_error option"
  dv_producerErr :: "bool \<Rightarrow> go_error option"
  dv_answers :: "go_error option list"
  dv_saves :: "go_error option list"
  dv_waits :: "bool list"
  dv_ctxEnded :: bool
  dv_ackErr :: "go_error option"
  dv_deleteErr :: "go_error option"
  dv_again :: bool

text \<open>
  The world: the delivery in progress with the answers of the consumer and of the offset store to
  come (behind the listed ones both succeed), the offset stored for the object's name, the batches
  the consumer took, and whether the message was acknowledged. A delivery may come although it
  was (\<open>dv_again\<close>), as the queues deliver at least once.
\<close>

record ('dl, 'b) object_world =
  ow_delivery :: "'dl delivery"
  ow_answers :: "go_error option list"
  ow_saves :: "go_error option list"
  ow_stored :: "stored_offset option"
  ow_batches :: "'b list list"
  ow_acked :: bool

text \<open>
  The outside of a worker: an object with a version, and a store that keeps what is saved unless
  the save fails. \<open>body r\<close> is what \<open>AppendLogBody\<close> makes of a record, and whether it fails.
\<close>

definition save_offset :: "stored_offset \<Rightarrow> ('dl, 'b) object_world \<Rightarrow> go_error option \<times> ('dl, 'b) object_world" where
  "save_offset s w =
     (case ow_saves w of
        Some e # as \<Rightarrow> (Some e, w\<lparr>ow_saves := as\<rparr>)
      | as \<Rightarrow> (None, w\<lparr>ow_saves := tl as, ow_stored := Some s\<rparr>))"

definition acknowledge :: "('dl, 'b) object_world \<Rightarrow> ('dl, 'b) object_world" where
  "acknowledge w = w\<lparr>ow_acked := (ow_acked w \<or> dv_ackErr (ow_delivery w) = None)\<rparr>"

definition delete_offset :: "('dl, 'b) object_world \<Rightarrow> go_error option \<times> ('dl, 'b) object_world" where
  "delete_offset w =
     (case dv_deleteErr (ow_delivery w) of Some e \<Rightarrow> (Some e, w) | None \<Rightarrow> (None, w\<lparr>ow_stored := None\<rparr>))"

definition object_service ::
    "('dl \<Rightarrow> Offset \<Rightarrow> go_error + 'r produced \<times> Offset) \<Rightarrow> ('r \<Rightarrow> 'b \<times> go_error option) \<Rightarrow> (go_error \<Rightarrow> bool)
      \<Rightarrow> string \<Rightarrow> ('dl delivery, 'r, 'b, ('dl, 'b) object_world) worker_outside" where
  "object_service records body permanent version =
     \<lparr>wo_GetObject = (\<lambda>bucket key w.
        (case dv_getErr (ow_delivery w) of
           Some e \<Rightarrow> Inl e | None \<Rightarrow> Inr (ow_delivery w, version), w)),
      wo_LoadOffset = (\<lambda>k w.
        (case dv_loadErr (ow_delivery w) of Some e \<Rightarrow> Inl e | None \<Rightarrow> Inr (ow_stored w), w)),
      wo_SaveOffset = (\<lambda>k. save_offset),
      wo_DeleteOffset = (\<lambda>k. delete_offset),
      wo_BufferedReader = dv_readerErr,
      wo_NewProducer = dv_producerErr,
      wo_Records = (\<lambda>d tryJSON start. records (dv_download d) start),
      wo_AppendLogBody = body,
      wo_ConsumeLogs = (\<lambda>bucket key ld w.
        (case ow_answers w of
           Some e # as \<Rightarrow> (Some e, w\<lparr>ow_answers := as\<rparr>)
         | as \<Rightarrow> (None, w\<lparr>ow_answers := tl as, ow_batches := ow_batches w @ [ld]\<rparr>))),
      wo_IsPermanent = permanent,
      wo_waits = (\<lambda>w. dv_waits (ow_delivery w)),
      wo_ctxErr = (\<lambda>w. dv_ctxEnded (ow_delivery w)),
      wo_Ack = (\<lambda>w. (dv_ackErr (ow_delivery w), acknowledge w)),
      wo_Nack = (\<lambda>w. (None, w))\<rparr>"

fun deliveries ::
    "(('dl, 'b) object_world \<Rightarrow> ('dl, 'b) object_world) \<Rightarrow> 'dl delivery list \<Rightarrow> ('dl, 'b) object_world
      \<Rightarrow> ('dl, 'b) object_world" where
  "deliveries process [] w = w"
| "deliveries process (d # ds) w =
     (if ow_acked w \<and> \<not> dv_again d then deliveries process ds w
      else deliveries process ds (process (w\<lparr>ow_delivery := d, ow_answers := dv_answers d, ow_saves := dv_saves d\<rparr>)))"

section \<open>Runs of records\<close>

text \<open>
  The runs of records that were delivered, of the first \<open>n\<close> ones: each begins at most where the one
  before it ended, so nothing is left out between them; with \<open>exact\<close> it begins there.
\<close>

fun replays :: "nat \<Rightarrow> bool \<Rightarrow> nat \<Rightarrow> (nat \<times> nat) list \<Rightarrow> bool" where
  "replays n exact up [] = True"
| "replays n exact up ((a, b) # runs) =
     ((if exact then a = up else a \<le> up) \<and> a \<le> b \<and> b \<le> n \<and> replays n exact b runs)"

definition segments :: "('r \<Rightarrow> 'b) \<Rightarrow> 'r list \<Rightarrow> (nat \<times> nat) list \<Rightarrow> 'b list" where
  "segments body full runs = concat (map (\<lambda>(a, b). map body (drop a (take b full))) runs)"

definition reached :: "nat \<Rightarrow> (nat \<times> nat) list \<Rightarrow> nat" where
  "reached up runs = (if runs = [] then up else snd (last runs))"

lemma segments_append [simp]: "segments body full (rs @ rs') = segments body full rs @ segments body full rs'"
  by (simp add: segments_def)

lemma segments_simps [simp]:
  "segments body full [] = []" "segments body full ((a, b) # rs) = map body (drop a (take b full)) @ segments body full rs"
  by (simp_all add: segments_def)

lemma reached_simps [simp]: "reached up [] = up" "reached up ((a, b) # rs) = reached b rs"
  by (auto simp: reached_def)

lemma reached_append [simp]: "reached up (rs @ rs') = reached (reached up rs) rs'"
  by (auto simp: reached_def)

lemma replays_append:
  "replays n exact up (rs @ rs') \<longleftrightarrow> replays n exact up rs \<and> replays n exact (reached up rs) rs'"
  by (induction n exact up rs rule: replays.induct) auto

lemma replays_reached: "replays n exact up rs \<Longrightarrow> up \<le> n \<Longrightarrow> reached up rs \<le> n"
  by (induction n exact up rs rule: replays.induct) auto

lemma replays_cover:
  "replays n exact up rs \<Longrightarrow> (a, b) \<in> set rs \<Longrightarrow> up \<le> i \<Longrightarrow> i < b \<Longrightarrow> \<exists>(a', b')\<in>set rs. a' \<le> i \<and> i < b'"
proof (induction n exact up rs rule: replays.induct)
  case (2 n exact up a1 b1 rs)
  show ?case
  proof (cases "i < b1")
    case True
    with 2 show ?thesis by (auto split: if_splits)
  next
    case False
    with 2 show ?thesis by auto
  qed
qed simp

lemma replays_exact:
  assumes "replays (length full) True up rs" and "up \<le> length full"
  shows "map body (take up full) @ segments body full rs = map body (take (reached up rs) full)"
    and "up \<le> reached up rs" and "(a, b) \<in> set rs \<Longrightarrow> b \<le> reached up rs"
proof -
  have "map body (take up full) @ segments body full rs = map body (take (reached up rs) full) \<and> up \<le> reached up rs
      \<and> (\<forall>(a, b)\<in>set rs. b \<le> reached up rs)"
    using assms
  proof (induction rs arbitrary: up)
    case (Cons r rs)
    obtain a b where r: "r = (a, b)" by fastforce
    with Cons.prems have ab: "a = up" "up \<le> b" "b \<le> length full" "replays (length full) True b rs" by auto
    have "take b full = take up full @ drop up (take b full)"
      using ab(2) by (metis append_take_drop_id min_absorb1 take_take)
    then have "map body (take up full) @ map body (drop up (take b full)) = map body (take b full)"
      by (metis map_append)
    with Cons.IH [OF ab(4,3)] ab(1,2) r show ?case by (auto simp flip: append_assoc)
  qed simp
  then show "map body (take up full) @ segments body full rs = map body (take (reached up rs) full)"
    and "up \<le> reached up rs" and "(a, b) \<in> set rs \<Longrightarrow> b \<le> reached up rs" by auto
qed

section \<open>Steps of a delivery\<close>

definition retryable :: "go_error \<Rightarrow> bool" where
  "retryable e = (IsStreamRead e \<and> \<not> IsTruncatedObject e)"

lemma service_simps [simp]:
  "wo_AppendLogBody (object_service records body permanent version) = body"
  "wo_SaveOffset (object_service records body permanent version) k = save_offset"
  "wo_Records (object_service records body permanent version) d b p = records (dv_download d) p"
  "wo_BufferedReader (object_service records body permanent version) = dv_readerErr"
  "wo_NewProducer (object_service records body permanent version) = dv_producerErr"
  "wo_Ack (object_service records body permanent version) w = (dv_ackErr (ow_delivery w), acknowledge w)"
  "wo_Nack (object_service records body permanent version) w = (None, w)"
  "wo_DeleteOffset (object_service records body permanent version) k = delete_offset"
  by (simp_all add: object_service_def)

lemma checkpoint_service [simp]:
  "checkpoint (object_service records body permanent version) wk pos w =
     snd (save_offset \<lparr>so_Offset = pos, so_Version = wk_version wk\<rparr> w)"
  by (simp add: checkpoint_def case_prod_beta')

lemma save_offset_simps [simp]:
  "ow_delivery (snd (save_offset s w)) = ow_delivery w" "ow_answers (snd (save_offset s w)) = ow_answers w"
  "ow_batches (snd (save_offset s w)) = ow_batches w" "ow_acked (snd (save_offset s w)) = ow_acked w"
  by (auto simp: save_offset_def split: list.splits option.splits)

lemma save_offset_cases:
  "ow_stored (snd (save_offset s w)) = ow_stored w \<and> \<not> set (ow_saves w) \<subseteq> {None}
   \<or> ow_stored (snd (save_offset s w)) = Some s"
  "set (ow_saves (snd (save_offset s w))) \<subseteq> set (ow_saves w)"
  by (auto simp: save_offset_def split: list.splits option.splits dest: set_mp)

lemma acknowledge_simps [simp]:
  "ow_delivery (acknowledge w) = ow_delivery w" "ow_saves (acknowledge w) = ow_saves w"
  "ow_batches (acknowledge w) = ow_batches w" "ow_stored (acknowledge w) = ow_stored w"
  "ow_acked (acknowledge w) \<longleftrightarrow> ow_acked w \<or> dv_ackErr (ow_delivery w) = None"
  by (simp_all add: acknowledge_def)

lemma delete_offset_simps [simp]:
  "ow_saves (snd (delete_offset w)) = ow_saves w" "ow_acked (snd (delete_offset w)) = ow_acked w"
  "ow_batches (snd (delete_offset w)) = ow_batches w"
  by (auto simp: delete_offset_def split: option.splits)

lemma delete_offset_stored: "ow_stored (snd (delete_offset w)) \<in> {None, ow_stored w}"
  by (simp add: delete_offset_def split: option.splits)

text \<open>The consumer takes a batch whole or not at all; what it answers next is all that changes else.\<close>

definition took :: "'b list \<Rightarrow> go_error option \<Rightarrow> ('dl, 'b) object_world \<Rightarrow> ('dl, 'b) object_world \<Rightarrow> bool" where
  "took ld res w w' =
     (w' = w\<lparr>ow_answers := ow_answers w', ow_batches := ow_batches w @ (if res = None then [ld] else [])\<rparr>
      \<and> set (ow_answers w') \<subseteq> set (ow_answers w))"

lemma consume_takes:
  assumes "wo_ConsumeLogs (object_service records body permanent version) bucket key ld w = (res, w')"
  shows "took ld res w w'" and "set (ow_answers w) \<subseteq> {None} \<Longrightarrow> res = None"
  using assms by (auto simp: object_service_def took_def split: list.splits option.splits)

lemma took_trans: "took ld (Some e) w w1 \<Longrightarrow> took ld res w1 w2 \<Longrightarrow> took ld res w w2"
  unfolding took_def by (cases w; cases w1; cases w2) auto

lemma retry_takes:
  "retry_waits permanent (wo_ConsumeLogs (object_service records body permanent version) bucket key ld) waits e w
     = (res, w') \<Longrightarrow> took ld res w w'"
proof (induction waits arbitrary: e w)
  case Nil
  then show ?case by (auto simp: took_def)
next
  case (Cons stop waits)
  show ?case
  proof (cases stop)
    case True
    with Cons.prems show ?thesis by (auto simp: took_def)
  next
    case False
    obtain r1 w1 where c: "wo_ConsumeLogs (object_service records body permanent version) bucket key ld w = (r1, w1)"
      by fastforce
    note t = consume_takes(1) [OF c]
    show ?thesis
    proof (cases r1)
      case None
      with Cons.prems False c t show ?thesis by simp
    next
      case (Some e1)
      show ?thesis
      proof (cases "permanent e1")
        case True
        with Cons.prems False c t Some show ?thesis by simp
      next
        case no: False
        with Cons.prems False c Some have "retry_waits permanent
            (wo_ConsumeLogs (object_service records body permanent version) bucket key ld) waits e1 w1 = (res, w')" by simp
        from Cons.IH [OF this] t Some show ?thesis by (blast intro: took_trans)
      qed
    qed
  qed
qed

lemma flush_takes:
  assumes "flush (object_service records body permanent version) cfg wk ld w = (res, w')"
  shows "took ld res w w'" and "set (ow_answers w) \<subseteq> {None} \<Longrightarrow> res = None"
proof -
  let ?c = "wo_ConsumeLogs (object_service records body permanent version) (wk_bucket wk) (wk_key wk) ld"
  obtain r1 w1 where c: "?c w = (r1, w1)" by fastforce
  obtain r2 w2 where retry: "consumeWithRetry (wc_retryEnabled cfg) permanent (dv_waits (ow_delivery w)) ?c w = (r2, w2)"
    by fastforce
  have perm: "wo_IsPermanent (object_service records body permanent version) = permanent"
      "wo_waits (object_service records body permanent version) w = dv_waits (ow_delivery w)"
    by (simp_all add: object_service_def)
  have "took ld r2 w w2"
  proof (cases r1)
    case None
    with retry c consume_takes(1) [OF c] show ?thesis by (simp add: consumeWithRetry_def)
  next
    case (Some e)
    show ?thesis
    proof (cases "\<not> wc_retryEnabled cfg \<or> permanent e")
      case True
      with retry c Some consume_takes(1) [OF c] show ?thesis by (auto simp: consumeWithRetry_def)
    next
      case False
      with retry c Some have "retry_waits permanent ?c (dv_waits (ow_delivery w)) e w1 = (r2, w2)"
        by (simp add: consumeWithRetry_def)
      from retry_takes [OF this] consume_takes(1) [OF c] Some show ?thesis by (blast intro: took_trans)
    qed
  qed
  moreover have "r2 = None" if "set (ow_answers w) \<subseteq> {None}"
    using retry c consume_takes(2) [OF c that] by (simp add: consumeWithRetry_def)
  ultimately show "took ld res w w'" and "set (ow_answers w) \<subseteq> {None} \<Longrightarrow> res = None"
    using assms retry unfolding flush_def perm by (auto simp: took_def split: option.splits)
qed


section \<open>Producers that can be resumed\<close>

text \<open>
  What a download yields: the records of the object from the one the offset stands behind, as far as
  the download goes, each with an offset that stands behind it, and a stream error if it broke.
\<close>

locale resumable_object =
  fixes records :: "'dl \<Rightarrow> Offset \<Rightarrow> go_error + 'r produced \<times> Offset"
    and whole :: "'dl \<Rightarrow> bool"
    and good :: "'dl \<Rightarrow> bool"
    and stands :: "Offset \<Rightarrow> nat \<Rightarrow> bool"
    and full :: "'r list"
  assumes start: "stands (NewOffset 0) 0"
    and unread: "good d \<Longrightarrow> stands p n \<Longrightarrow> records d p = Inl e \<Longrightarrow> retryable e \<and> \<not> whole d"
    and yields: "good d \<Longrightarrow> stands p n \<Longrightarrow> records d p = Inr (logs, fin) \<Longrightarrow>
      \<exists>m. n \<le> m \<and> m \<le> length full \<and>
        (\<exists>items. length items = m - n
           \<and> (\<forall>i<m - n. fst (items ! i) = Inr (full ! (n + i)) \<and> stands (snd (items ! i)) (Suc (n + i)))
           \<and> (logs = items \<and> whole d \<and> m = length full \<and> stands fin m
              \<or> (\<exists>e q. logs = items @ [(Inl e, q)] \<and> \<not> whole d \<and> retryable e \<and> stands q m)))"
begin

fun from_unit :: "nat \<Rightarrow> 'r produced \<Rightarrow> bool" where
  "from_unit n [] = True"
| "from_unit n ((it, p) # its) =
     (n < length full \<and> it = Inr (full ! n) \<and> stands p (Suc n) \<and> from_unit (Suc n) its)"

lemma from_unit_nth:
  "n + length items \<le> length full \<Longrightarrow>
     (\<forall>i<length items. fst (items ! i) = Inr (full ! (n + i)) \<and> stands (snd (items ! i)) (Suc (n + i))) \<Longrightarrow>
     from_unit n items"
proof (induction items arbitrary: n)
  case (Cons a items)
  have "\<forall>i<length items. fst (items ! i) = Inr (full ! (Suc n + i)) \<and> stands (snd (items ! i)) (Suc (Suc n + i))"
  proof (intro allI impI)
    fix i assume "i < length items"
    then have "Suc i < length (a # items)" by simp
    with Cons.prems(2) have "fst ((a # items) ! Suc i) = Inr (full ! (n + Suc i))
        \<and> stands (snd ((a # items) ! Suc i)) (Suc (n + Suc i))" by blast
    then show "fst (items ! i) = Inr (full ! (Suc n + i)) \<and> stands (snd (items ! i)) (Suc (Suc n + i))" by simp
  qed
  then have "from_unit (Suc n) items" using Cons.prems(1) by (intro Cons.IH) auto
  moreover have "fst a = Inr (full ! n) \<and> stands (snd a) (Suc n)" using Cons.prems(2) by force
  ultimately show ?case using Cons.prems(1) by (cases a) simp
qed simp

text \<open>A stored offset of this version stands behind the first \<open>n\<close> records; with no such offset \<open>n\<close> is 0.\<close>

definition stored_at :: "string \<Rightarrow> ('dl, 'b) object_world \<Rightarrow> nat \<Rightarrow> bool" where
  "stored_at version w n =
     (case ow_stored w of
        None \<Rightarrow> n = 0
      | Some s \<Rightarrow> if so_Version s = version then stands (so_Offset s) n else n = 0)"

text \<open>
  Up to \<open>up\<close> records were delivered, and the stored offset stands no further; it stands there if no
  save fails (\<open>exact\<close>).
\<close>

definition ready :: "string \<Rightarrow> bool \<Rightarrow> ('dl, 'b) object_world \<Rightarrow> nat \<Rightarrow> bool" where
  "ready version exact w up =
     ((\<exists>s\<le>up. stored_at version w s \<and> (exact \<longrightarrow> s = up)) \<and> (exact \<longrightarrow> set (ow_saves w) \<subseteq> {None}))"

text \<open>A run in progress: behind what was delivered before it, the records from \<open>a\<close> to \<open>j\<close>.\<close>

definition delivered_upto ::
    "('r \<Rightarrow> 'b \<times> go_error option) \<Rightarrow> string \<Rightarrow> bool \<Rightarrow> 'b list \<Rightarrow> nat \<Rightarrow> ('dl, 'b) object_world \<Rightarrow> nat \<Rightarrow> bool" where
  "delivered_upto body version exact before a w j =
     (a \<le> j \<and> j \<le> length full \<and> concat (ow_batches w) = before @ map (\<lambda>r. fst (body r)) (drop a (take j full))
      \<and> ready version exact w j)"

lemma delivered_took:
  "took ld (Some e) w w' \<Longrightarrow> delivered_upto body version exact before a w j \<Longrightarrow>
     delivered_upto body version exact before a w' j"
  unfolding took_def delivered_upto_def ready_def stored_at_def by (cases w; cases w') auto

lemma ready_save:
  assumes "ready version exact w j" and "j \<le> n" and "stands pos n"
  shows "ready version exact (snd (save_offset \<lparr>so_Offset = pos, so_Version = version\<rparr> w)) n"
proof -
  let ?w = "snd (save_offset \<lparr>so_Offset = pos, so_Version = version\<rparr> w)"
  obtain s where s: "s \<le> j" "stored_at version w s" using assms(1) by (auto simp: ready_def)
  have saves: "exact \<longrightarrow> set (ow_saves w) \<subseteq> {None}" using assms(1) by (simp add: ready_def)
  have "\<exists>s\<le>n. stored_at version ?w s \<and> (exact \<longrightarrow> s = n)"
  proof (cases "ow_stored ?w = ow_stored w \<and> \<not> set (ow_saves w) \<subseteq> {None}")
    case True
    then have "stored_at version ?w s" using s(2) by (simp add: stored_at_def)
    with True saves s(1) assms(2) show ?thesis by (intro exI [of _ s]) auto
  next
    case False
    then have "ow_stored ?w = Some \<lparr>so_Offset = pos, so_Version = version\<rparr>"
      using save_offset_cases(1) [of "\<lparr>so_Offset = pos, so_Version = version\<rparr>" w] by auto
    then have "stored_at version ?w n" using assms(3) by (simp add: stored_at_def)
    then show ?thesis by blast
  qed
  with saves save_offset_cases(2) [of _ w] show ?thesis unfolding ready_def by blast
qed

lemma delivered_checkpoint:
  assumes "took ld None w w'" and "delivered_upto body version exact before a w j"
    and "ld = map (\<lambda>r. fst (body r)) (drop j (take n full))"
    and "j \<le> n" "n \<le> length full" and "stands pos n"
  shows "delivered_upto body version exact before a (snd (save_offset \<lparr>so_Offset = pos, so_Version = version\<rparr> w')) n"
proof -
  have w': "ow_batches w' = ow_batches w @ [ld]" "ready version exact w' j"
    using assms(1,2) unfolding took_def delivered_upto_def ready_def stored_at_def by (cases w; cases w'; auto)+
  have j: "a \<le> j" "concat (ow_batches w) = before @ map (\<lambda>r. fst (body r)) (drop a (take j full))"
    using assms(2) by (simp_all add: delivered_upto_def)
  have "take n full = take j full @ drop j (take n full)"
    using assms(4) by (metis append_take_drop_id min_absorb1 take_take)
  then have "drop a (take n full) = drop a (take j full) @ drop j (take n full)"
    using j(1) assms(4,5) by (metis diff_is_0_eq' drop_0 drop_append length_take min_absorb2 order_trans)
  with w'(1) j(2) assms(3) have "concat (ow_batches w') = before @ map (\<lambda>r. fst (body r)) (drop a (take n full))" by simp
  moreover from ready_save [OF w'(2) assms(4,6)]
  have "ready version exact (snd (save_offset \<lparr>so_Offset = pos, so_Version = version\<rparr> w')) n" .
  ultimately show ?thesis using j(1) assms(4,5) by (simp add: delivered_upto_def)
qed

text \<open>The loop, from a batch that holds the records behind the delivered ones.\<close>

lemma loop_step:
  assumes "from_unit n items" and "delivered_upto body version exact before a0 w j" and "j \<le> n"
    and "ld = map (\<lambda>r. fst (body r)) (drop j (take n full))" and "wk_version wk = version"
    and "rest = [] \<or> (\<exists>e q. rest = [(Inl e, q)] \<and> retryable e \<and> stands q (n + length items))"
    and "read_loop (object_service records body permanent version) cfg fatal wk (items @ rest) fin ld w = (ended, ld', pos, w')"
  shows "ow_delivery w' = ow_delivery w \<and> ow_acked w' = ow_acked w \<and> set (ow_answers w') \<subseteq> set (ow_answers w)
    \<and> (\<exists>j'\<ge>j. delivered_upto body version exact before a0 w' j'
        \<and> ((\<exists>e. ended = Failed e) \<and> (rest = [] \<longrightarrow> \<not> set (ow_answers w) \<subseteq> {None})
          \<or> j' \<le> n + length items \<and> ld' = map (\<lambda>r. fst (body r)) (drop j' (take (n + length items) full))
             \<and> (if rest = [] then ended = Finished \<and> pos = fin
                else (\<exists>e. ended = Stopped e) \<and> stands pos (n + length items))))"
  using assms
proof (induction items arbitrary: n ld w j)
  case Nil
  show ?case
  proof (cases "rest = []")
    case True
    with Nil show ?thesis by auto
  next
    case False
    then obtain e q where t: "rest = [(Inl e, q)]" "retryable e" "stands q n" using Nil.prems(6) by auto
    show ?thesis
    proof (cases "IsCancellation e")
      case True
      with Nil t show ?thesis by auto
    next
      case no: False
      have "\<exists>e. ended = Failed e" "w' = w"
        using Nil.prems(7) t no by (auto simp: retryable_def split: if_splits)
      with Nil t show ?thesis by blast
    qed
  qed
next
  case (Cons a items)
  obtain it p where a: "a = (it, p)" by fastforce
  have it: "n < length full" "it = Inr (full ! n)" "stands p (Suc n)" "from_unit (Suc n) items"
    using Cons.prems(1) a by auto
  obtain lr ae where app: "body (full ! n) = (lr, ae)" by fastforce
  let ?ld = "ld @ [lr]"
  have ld: "?ld = map (\<lambda>r. fst (body r)) (drop j (take (Suc n) full))"
    using Cons.prems(3,4) it(1) app by (simp add: take_Suc_conv_app_nth)
  have eq: "n + length (a # items) = Suc n + length items" by simp
  have rest': "rest = [] \<or> (\<exists>e q. rest = [(Inl e, q)] \<and> retryable e \<and> stands q (Suc n + length items))"
    using Cons.prems(6) by simp
  show ?case
  proof (cases "ae = None \<and> int (length ?ld) \<ge> wc_maxLogsEmitted cfg")
    case False
    then have "read_loop (object_service records body permanent version) cfg fatal wk (items @ rest) fin ?ld w = (ended, ld', pos, w')"
      using Cons.prems(7) a it(2) app by (cases ae) auto
    from Cons.IH [OF it(4) Cons.prems(2) le_SucI [OF Cons.prems(3)] ld Cons.prems(5) rest' this]
    show ?thesis unfolding eq .
  next
    case True
    obtain r w1 where fl: "flush (object_service records body permanent version) cfg wk ?ld w = (r, w1)" by fastforce
    note t = flush_takes [OF fl]
    have same: "ow_delivery w1 = ow_delivery w \<and> ow_acked w1 = ow_acked w \<and> set (ow_answers w1) \<subseteq> set (ow_answers w)"
      using t(1) unfolding took_def by (cases w; cases w1) auto
    show ?thesis
    proof (cases r)
      case (Some e)
      with Cons.prems(7) a it(2) True fl app have out: "ended = Failed e" "w' = w1" by auto
      have "delivered_upto body version exact before a0 w1 j" using delivered_took [OF t(1) [unfolded Some] Cons.prems(2)] .
      moreover have "\<not> set (ow_answers w) \<subseteq> {None}" using t(2) Some by auto
      ultimately show ?thesis using out same by blast
    next
      case None
      let ?w = "snd (save_offset \<lparr>so_Offset = p, so_Version = version\<rparr> w1)"
      have "delivered_upto body version exact before a0 ?w (Suc n)"
        using delivered_checkpoint [OF t(1) [unfolded None] Cons.prems(2) ld _ _ it(3)] Cons.prems(3) it(1) by simp
      moreover have "read_loop (object_service records body permanent version) cfg fatal wk (items @ rest) fin [] ?w
          = (ended, ld', pos, w')"
        using Cons.prems(5,7) a it(2) True fl None app by simp
      ultimately have "ow_delivery w' = ow_delivery ?w \<and> ow_acked w' = ow_acked ?w \<and> set (ow_answers w') \<subseteq> set (ow_answers ?w)
        \<and> (\<exists>j'\<ge>Suc n. delivered_upto body version exact before a0 w' j'
            \<and> ((\<exists>e. ended = Failed e) \<and> (rest = [] \<longrightarrow> \<not> set (ow_answers ?w) \<subseteq> {None})
              \<or> j' \<le> Suc n + length items \<and> ld' = map (\<lambda>r. fst (body r)) (drop j' (take (Suc n + length items) full))
                 \<and> (if rest = [] then ended = Finished \<and> pos = fin
                    else (\<exists>e. ended = Stopped e) \<and> stands pos (Suc n + length items))))"
        by (intro Cons.IH [OF it(4) _ _ _ Cons.prems(5) rest']) simp_all
      then obtain j' where j': "Suc n \<le> j'" "delivered_upto body version exact before a0 w' j'"
          "(\<exists>e. ended = Failed e) \<and> (rest = [] \<longrightarrow> \<not> set (ow_answers w1) \<subseteq> {None})
              \<or> j' \<le> Suc n + length items \<and> ld' = map (\<lambda>r. fst (body r)) (drop j' (take (Suc n + length items) full))
                 \<and> (if rest = [] then ended = Finished \<and> pos = fin
                    else (\<exists>e. ended = Stopped e) \<and> stands pos (Suc n + length items))"
        and same': "ow_delivery w' = ow_delivery w1 \<and> ow_acked w' = ow_acked w1 \<and> set (ow_answers w') \<subseteq> set (ow_answers w1)"
        by auto
      have "j \<le> j'" using j'(1) Cons.prems(3) by simp
      with j' same same' show ?thesis unfolding eq by (intro conjI exI [of _ j']) auto
    qed
  qed
qed

end


definition calm :: "('dl \<Rightarrow> bool) \<Rightarrow> 'dl delivery \<Rightarrow> bool" where
  "calm whole d =
     (dv_getErr d = None \<and> dv_loadErr d = None \<and> (\<forall>b. dv_readerErr d b = None \<and> dv_producerErr d b = None)
      \<and> whole (dv_download d) \<and> set (dv_answers d) \<subseteq> {None} \<and> dv_ackErr d = None)"

definition by_version :: "(string \<Rightarrow> stored_offset \<Rightarrow> bool) \<Rightarrow> bool" where
  "by_version discard = (\<forall>v s. v \<noteq> [] \<longrightarrow> discard v s = (so_Version s \<noteq> v))"

context resumable_object begin

text \<open>
  What became of an object behind \<open>up\<close> delivered records: the runs it added, and where the stored
  offset stands; without an error the last run ends at the end of the object.
\<close>

definition progressed ::
    "('r \<Rightarrow> 'b \<times> go_error option) \<Rightarrow> string \<Rightarrow> bool \<Rightarrow> nat \<Rightarrow> (go_error + bool) \<Rightarrow> ('dl, 'b) object_world
      \<Rightarrow> ('dl, 'b) object_world \<Rightarrow> (nat \<times> nat) list \<Rightarrow> bool" where
  "progressed body version exact up res w w' runs =
     (ow_delivery w' = ow_delivery w \<and> ow_acked w' = ow_acked w \<and> set (ow_answers w') \<subseteq> set (ow_answers w)
      \<and> replays (length full) exact up runs
      \<and> concat (ow_batches w') = concat (ow_batches w) @ segments (\<lambda>r. fst (body r)) full runs
      \<and> ready version exact w' (reached up runs)
      \<and> (\<forall>t. res = Inr t \<longrightarrow> \<not> t \<and> length full \<in> snd ` set runs \<and> whole (dv_download (ow_delivery w))))"

lemma progressed_refl: "ready version exact w up \<Longrightarrow> progressed body version exact up (Inl e) w w []"
  by (simp add: progressed_def)

lemma progressed_trans:
  assumes "progressed body version exact up (Inl e) w w1 rs" and "progressed body version exact (reached up rs) res w1 w2 rs'"
  shows "progressed body version exact up res w w2 (rs @ rs')"
  using assms by (auto simp: progressed_def replays_append)

lemma delivered_progressed:
  assumes "delivered_upto body version exact (concat (ow_batches w)) a w' j" and "a \<le> up" and "exact \<longrightarrow> a = up"
    and "ow_delivery w' = ow_delivery w" and "ow_acked w' = ow_acked w" and "set (ow_answers w') \<subseteq> set (ow_answers w)"
    and "\<forall>t. res = Inr t \<longrightarrow> \<not> t \<and> j = length full \<and> whole (dv_download (ow_delivery w))"
  shows "progressed body version exact up res w w' [(a, j)]"
  using assms by (auto simp: progressed_def delivered_upto_def)

lemma deliver_step:
  assumes "good d" and "stored_at version w a" and "a \<le> up" and "exact \<longrightarrow> a = up" and "exact \<longrightarrow> set (ow_saves w) \<subseteq> {None}"
    and "up \<le> length full" and "stands p a" and "wk_version wk = version" and "d = dv_download (ow_delivery w)"
    and "deliver_records (object_service records body permanent version) cfg fatal wk (records d p) w = (res, w')"
  shows "\<exists>runs. progressed body version exact up res w w' runs"
    and "whole d \<Longrightarrow> set (ow_answers w) \<subseteq> {None} \<Longrightarrow> \<exists>t. res = Inr t"
proof -
  let ?b = "concat (ow_batches w)" and ?f = "\<lambda>r. fst (body r)"
  have rd: "ready version exact w a" "ready version exact w up" using assms(2-5) by (auto simp: ready_def)
  have d0: "delivered_upto body version exact ?b a w a" using rd(1) assms(3,6) by (simp add: delivered_upto_def)
  have "(\<exists>runs. progressed body version exact up res w w' runs)
      \<and> (whole d \<longrightarrow> set (ow_answers w) \<subseteq> {None} \<longrightarrow> (\<exists>t. res = Inr t))"
  proof (cases "records d p")
    case (Inl e)
    from unread [OF assms(1,7) Inl] have e: "retryable e" "\<not> whole d" by auto
    then have "res = Inl (ErrWrapped ''parse logs'' e)" "w' = w"
      using assms(10) Inl by (auto simp: deliver_records_def retryable_def)
    with progressed_refl [OF rd(2)] e show ?thesis by blast
  next
    case (Inr lf)
    obtain logs fin where lf: "lf = (logs, fin)" by fastforce
    from yields [OF assms(1,7) Inr [unfolded lf]] obtain m items where m: "a \<le> m" "m \<le> length full"
      and items: "length items = m - a"
        "\<forall>i<m - a. fst (items ! i) = Inr (full ! (a + i)) \<and> stands (snd (items ! i)) (Suc (a + i))"
      and logs: "logs = items \<and> whole d \<and> m = length full \<and> stands fin m
              \<or> (\<exists>e q. logs = items @ [(Inl e, q)] \<and> \<not> whole d \<and> retryable e \<and> stands q m)"
      by blast
    have units: "from_unit a items" using m items by (intro from_unit_nth) auto
    have mj: "a + length items = m" using m items by simp
    define rest where "rest = drop (length items) logs"
    have split: "logs = items @ rest" using logs unfolding rest_def by auto
    have rest: "rest = [] \<or> (\<exists>e q. rest = [(Inl e, q)] \<and> retryable e \<and> stands q (a + length items))"
      using logs mj unfolding rest_def by auto
    have whole: "whole d \<longleftrightarrow> rest = []" using logs unfolding rest_def by auto
    have fin: "rest = [] \<Longrightarrow> m = length full \<and> stands fin m" using logs unfolding rest_def by auto
    obtain ended ld pos w1 where run: "read_loop (object_service records body permanent version) cfg fatal wk
        (items @ rest) fin [] w = (ended, ld, pos, w1)" by (metis prod_cases4)
    from loop_step [OF units d0 order_refl _ assms(8) rest run]
    obtain j' where same: "ow_delivery w1 = ow_delivery w" "ow_acked w1 = ow_acked w" "set (ow_answers w1) \<subseteq> set (ow_answers w)"
      and j': "delivered_upto body version exact ?b a w1 j'"
      and how: "(\<exists>e. ended = Failed e) \<and> (rest = [] \<longrightarrow> \<not> set (ow_answers w) \<subseteq> {None})
          \<or> j' \<le> m \<and> ld = map ?f (drop j' (take m full))
             \<and> (if rest = [] then ended = Finished \<and> pos = fin else (\<exists>e. ended = Stopped e) \<and> stands pos m)"
      unfolding mj by auto
    note prog = delivered_progressed [OF _ assms(3,4)]
    show ?thesis
    proof (cases "\<exists>e. ended = Failed e")
      case True
      then obtain e where e: "ended = Failed e" ..
      then have res: "res = Inl e" "w' = w1"
        using assms(10) Inr lf split run by (auto simp: deliver_records_def)
      have "rest = [] \<longrightarrow> \<not> set (ow_answers w) \<subseteq> {None}" using how e by (auto split: if_splits)
      moreover have "progressed body version exact up res w w' [(a, j')]"
        by (rule prog) (use res j' same in auto)
      ultimately show ?thesis using whole by blast
    next
      case False
      with how have le: "j' \<le> m" and ld: "ld = map ?f (drop j' (take m full))"
        and how': "if rest = [] then ended = Finished \<and> pos = fin else (\<exists>e. ended = Stopped e) \<and> stands pos m"
        by auto
      have pos: "stands pos m" using how' fin by (auto split: if_splits)
      obtain fl w2 where tail: "(if length ld > 0
             then (case flush (object_service records body permanent version) cfg wk ld w1 of
                     (Some err, w2) \<Rightarrow> (Some err, w2)
                   | (None, w2) \<Rightarrow> (None, checkpoint (object_service records body permanent version) wk pos w2))
             else (None, w1)) = (fl, w2)" by fastforce
      have res: "(res, w') = (case fl of Some err \<Rightarrow> (Inl err, w2)
          | None \<Rightarrow> (case ended of Stopped err \<Rightarrow> (Inl (ErrWrapped ''read object'' err), w2) | _ \<Rightarrow> (Inr (ended = Truncated), w2)))"
        using assms(10) Inr lf split run tail False by (cases ended) (auto simp: deliver_records_def split: option.splits)
      have w2: "ow_delivery w2 = ow_delivery w \<and> ow_acked w2 = ow_acked w \<and> set (ow_answers w2) \<subseteq> set (ow_answers w)
          \<and> (if fl = None then delivered_upto body version exact ?b a w2 m else delivered_upto body version exact ?b a w2 j')
          \<and> (set (ow_answers w) \<subseteq> {None} \<longrightarrow> fl = None)"
      proof (cases "ld = []")
        case True
        then have "j' = m" using ld le m by simp
        with True tail same j' show ?thesis by auto
      next
        case ne: False
        obtain r w3 where fl: "flush (object_service records body permanent version) cfg wk ld w1 = (r, w3)" by fastforce
        note t = flush_takes [OF fl]
        have same3: "ow_delivery w3 = ow_delivery w1" "ow_acked w3 = ow_acked w1" "set (ow_answers w3) \<subseteq> set (ow_answers w1)"
          using t(1) unfolding took_def by (cases w1; cases w3; auto)+
        show ?thesis
        proof (cases r)
          case None
          have "delivered_upto body version exact ?b a (snd (save_offset \<lparr>so_Offset = pos, so_Version = version\<rparr> w3)) m"
            by (rule delivered_checkpoint [OF t(1) [unfolded None] j' ld le m(2) pos])
          with None tail ne fl same same3 assms(8) show ?thesis by auto
        next
          case (Some e)
          have "delivered_upto body version exact ?b a w3 j'" by (rule delivered_took [OF t(1) [unfolded Some] j'])
          moreover have "\<not> set (ow_answers w) \<subseteq> {None}" using t(2) Some same(3) by blast
          ultimately show ?thesis using Some tail ne fl same same3 by auto
        qed
      qed
      show ?thesis
      proof (cases fl)
        case (Some e)
        with res w2 have "res = Inl e" "w' = w2" by auto
        then have "progressed body version exact up res w w' [(a, j')]" by (intro prog) (use w2 Some in auto)
        with w2 Some show ?thesis by auto
      next
        case None
        with w2 have up: "delivered_upto body version exact ?b a w2 m" by simp
        have "w' = w2" using res None by (cases ended) auto
        moreover have ok: "\<forall>t. res = Inr t \<longrightarrow> \<not> t \<and> m = length full \<and> whole d"
          using res None how' fin whole by (auto split: if_splits)
        ultimately have "progressed body version exact up res w w' [(a, m)]"
          by (intro prog) (use w2 up assms(9) in auto)
        moreover have "whole d \<longrightarrow> (\<exists>t. res = Inr t)" using res None how' whole by (auto split: if_splits)
        ultimately show ?thesis by blast
      qed
    qed
  qed
  then show "\<exists>runs. progressed body version exact up res w w' runs"
    and "whole d \<Longrightarrow> set (ow_answers w) \<subseteq> {None} \<Longrightarrow> \<exists>t. res = Inr t" by auto
qed

lemma object_step:
  assumes "by_version discard" and "version \<noteq> []" and "good (dv_download (ow_delivery w))"
    and "ready version exact w up" and "up \<le> length full"
    and "consume_object fatal discard storageKey (object_service records body permanent version) cfg bucket key tryJSON w = (res, w')"
  shows "\<exists>runs. progressed body version exact up res w w' runs"
    and "calm whole (ow_delivery w) \<Longrightarrow> set (ow_answers w) \<subseteq> {None} \<Longrightarrow> \<exists>t. res = Inr t"
proof -
  let ?d = "ow_delivery w"
  have get: "wo_GetObject (object_service records body permanent version) bucket key w =
      (case dv_getErr ?d of Some e \<Rightarrow> Inl e | None \<Rightarrow> Inr (?d, version), w)"
    and load: "\<And>k. wo_LoadOffset (object_service records body permanent version) k w =
      (case dv_loadErr ?d of Some e \<Rightarrow> Inl e | None \<Rightarrow> Inr (ow_stored w), w)"
    by (simp_all add: object_service_def)
  have "(\<exists>runs. progressed body version exact up res w w' runs)
      \<and> (calm whole ?d \<longrightarrow> set (ow_answers w) \<subseteq> {None} \<longrightarrow> (\<exists>t. res = Inr t))"
  proof (cases "dv_getErr ?d = None \<and> dv_loadErr ?d = None \<and> dv_readerErr ?d tryJSON = None \<and> dv_producerErr ?d tryJSON = None")
    case False
    then have "(\<exists>e. res = Inl e) \<and> w' = w"
      using assms(6) get load by (auto simp: consume_object_def Let_def split: option.splits)
    with False progressed_refl [OF assms(4)] show ?thesis by (auto simp: calm_def)
  next
    case True
    obtain a where a: "a \<le> up" "stored_at version w a" "exact \<longrightarrow> a = up" "exact \<longrightarrow> set (ow_saves w) \<subseteq> {None}"
      using assms(4) by (auto simp: ready_def)
    define s where "s = (case ow_stored w of None \<Rightarrow> \<lparr>so_Offset = NewOffset 0, so_Version = []\<rparr> | Some s \<Rightarrow> s)"
    define p where "p = (if discard version s then NewOffset 0 else so_Offset s)"
    have st: "stands p a"
      using assms(1,2) a(2) start by (auto simp: p_def s_def by_version_def stored_at_def split: option.splits if_splits)
    have del: "deliver_records (object_service records body permanent version) cfg fatal
        \<lparr>wk_bucket = bucket, wk_key = key, wk_offsetStorageKey = storageKey @ ''_'' @ key, wk_version = version\<rparr>
        (records (dv_download ?d) p) w = (res, w')"
    proof -
      have g: "wo_GetObject (object_service records body permanent version) bucket key w = (Inr (?d, version), w)"
        and l: "\<And>k. wo_LoadOffset (object_service records body permanent version) k w = (Inr (ow_stored w), w)"
        and o1: "dv_readerErr ?d tryJSON = None" and o2: "dv_producerErr ?d tryJSON = None"
        using True get load by simp_all
      show ?thesis
        unfolding assms(6) [symmetric] consume_object_def g l prod.case sum.case Let_def service_simps o1 o2 option.case(1)
          s_def [symmetric] p_def [symmetric] ..
    qed
    note step = deliver_step [OF assms(3) a(2,1,3,4) assms(5) st _ refl del]
    have "\<exists>runs. progressed body version exact up res w w' runs" by (rule step(1)) simp
    moreover have "\<exists>t. res = Inr t" if "whole (dv_download ?d)" "set (ow_answers w) \<subseteq> {None}"
      by (rule step(2)) (use that in simp_all)
    ultimately show ?thesis by (simp add: calm_def)
  qed
  then show "\<exists>runs. progressed body version exact up res w w' runs"
    and "calm whole (ow_delivery w) \<Longrightarrow> set (ow_answers w) \<subseteq> {None} \<Longrightarrow> \<exists>t. res = Inr t" by auto
qed

lemma record_step:
  assumes "by_version discard" and "version \<noteq> []" and "good (dv_download (ow_delivery w))"
    and "ready version exact w up" and "up \<le> length full"
    and "process_record (consume_object fatal discard storageKey (object_service records body permanent version) cfg bucket key) w
      = (res, w')"
  shows "\<exists>runs. progressed body version exact up res w w' runs"
    and "calm whole (ow_delivery w) \<Longrightarrow> set (ow_answers w) \<subseteq> {None} \<Longrightarrow> \<exists>t. res = Inr t"
proof -
  let ?c = "consume_object fatal discard storageKey (object_service records body permanent version) cfg bucket key"
  obtain r1 w1 where c: "?c True w = (r1, w1)" by fastforce
  note one = object_step [OF assms(1-5) c]
  have "(\<exists>runs. progressed body version exact up res w w' runs)
      \<and> (calm whole (ow_delivery w) \<longrightarrow> set (ow_answers w) \<subseteq> {None} \<longrightarrow> (\<exists>t. res = Inr t))"
  proof (cases "\<exists>e. r1 = Inl e \<and> errors_Is e ErrNotArrayOrKnownObject")
    case False
    with one assms(6) c show ?thesis by (cases r1) (auto simp: process_record_def)
  next
    case True
    then obtain e where e: "r1 = Inl e" "errors_Is e ErrNotArrayOrKnownObject" by blast
    then have again: "?c False w1 = (res, w')" using assms(6) c by (simp add: process_record_def)
    from one(1) e(1) obtain rs where rs: "progressed body version exact up (Inl e) w w1 rs" by auto
    then have w1: "ready version exact w1 (reached up rs)" "reached up rs \<le> length full" "ow_delivery w1 = ow_delivery w"
      using replays_reached [OF _ assms(5)] by (auto simp: progressed_def)
    have "\<exists>runs. progressed body version exact (reached up rs) res w1 w' runs"
      by (rule object_step(1) [OF assms(1,2) _ w1(1,2) again]) (use assms(3) w1(3) in simp)
    with progressed_trans [OF rs] one(2) e(1) show ?thesis by blast
  qed
  then show "\<exists>runs. progressed body version exact up res w w' runs"
    and "calm whole (ow_delivery w) \<Longrightarrow> set (ow_answers w) \<subseteq> {None} \<Longrightarrow> \<exists>t. res = Inr t" by auto
qed

text \<open>
  What a worker makes of one delivery of a message: it adds runs; the message is acknowledged only
  with a run that reaches the end of the object, and by a calm delivery it is.
\<close>

definition handles :: "('r \<Rightarrow> 'b \<times> go_error option) \<Rightarrow> string \<Rightarrow> (('dl, 'b) object_world \<Rightarrow> ('dl, 'b) object_world) \<Rightarrow> bool" where
  "handles body version process =
     (\<forall>w exact up. good (dv_download (ow_delivery w)) \<longrightarrow> ready version exact w up \<longrightarrow> up \<le> length full \<longrightarrow>
        (\<exists>runs. replays (length full) exact up runs
           \<and> concat (ow_batches (process w)) = concat (ow_batches w) @ segments (\<lambda>r. fst (body r)) full runs
           \<and> ready version (exact \<and> \<not> ow_acked (process w)) (process w) (reached up runs)
           \<and> (ow_acked w \<longrightarrow> ow_acked (process w))
           \<and> (ow_acked (process w) \<longrightarrow> ow_acked w \<or> length full \<in> snd ` set runs))
        \<and> (calm whole (ow_delivery w) \<longrightarrow> set (ow_answers w) \<subseteq> {None} \<longrightarrow> ow_acked (process w)))"

lemma deliveries_runs:
  assumes "handles body version process" and "\<forall>d\<in>set ds. good (dv_download d)"
    and "exact \<longrightarrow> (\<forall>d\<in>set ds. set (dv_saves d) \<subseteq> {None} \<and> \<not> dv_again d)"
    and "\<exists>s\<le>reached 0 runs. stored_at version w s \<and> (exact \<and> \<not> ow_acked w \<longrightarrow> s = reached 0 runs)"
    and "replays (length full) exact 0 runs" and "concat (ow_batches w) = segments (\<lambda>r. fst (body r)) full runs"
    and "ow_acked w \<longrightarrow> length full \<in> snd ` set runs"
    and "w' = deliveries process ds w"
  shows "(\<exists>runs. replays (length full) exact 0 runs \<and> concat (ow_batches w') = segments (\<lambda>r. fst (body r)) full runs
            \<and> (ow_acked w' \<longrightarrow> length full \<in> snd ` set runs))
    \<and> (ow_acked w \<or> (\<exists>d\<in>set ds. calm whole d) \<longrightarrow> ow_acked w')"
  using assms(2-8)
proof (induction ds arbitrary: w runs)
  case Nil
  then show ?case by auto
next
  case (Cons d ds)
  show ?case
  proof (cases "ow_acked w \<and> \<not> dv_again d")
    case True
    then have w': "w' = deliveries process ds w" using Cons.prems(7) by simp
    have "\<forall>d\<in>set ds. good (dv_download d)" "exact \<longrightarrow> (\<forall>d\<in>set ds. set (dv_saves d) \<subseteq> {None} \<and> \<not> dv_again d)"
      using Cons.prems(1,2) by auto
    from Cons.IH [OF this Cons.prems(3-6) w'] True show ?thesis by auto
  next
    case False
    let ?w = "w\<lparr>ow_delivery := d, ow_answers := dv_answers d, ow_saves := dv_saves d\<rparr>"
    have na: "exact \<longrightarrow> \<not> ow_acked w" using False Cons.prems(2) by auto
    have "stored_at version ?w s \<longleftrightarrow> stored_at version w s" for s by (simp add: stored_at_def)
    then have "ready version exact ?w (reached 0 runs)"
      using Cons.prems(2,3) na by (auto simp: ready_def)
    moreover have "reached 0 runs \<le> length full" using replays_reached [OF Cons.prems(4)] by simp
    moreover have "good (dv_download (ow_delivery ?w))" using Cons.prems(1) by simp
    ultimately obtain rs where rs: "replays (length full) exact (reached 0 runs) rs"
        "concat (ow_batches (process ?w)) = concat (ow_batches ?w) @ segments (\<lambda>r. fst (body r)) full rs"
        "ready version (exact \<and> \<not> ow_acked (process ?w)) (process ?w) (reached (reached 0 runs) rs)"
        "ow_acked ?w \<longrightarrow> ow_acked (process ?w)"
        "ow_acked (process ?w) \<longrightarrow> ow_acked ?w \<or> length full \<in> snd ` set rs"
      and calm: "calm whole d \<longrightarrow> ow_acked (process ?w)"
      using assms(1) unfolding handles_def by (fastforce simp: calm_def)
    have unfold: "w' = deliveries process ds (process ?w)" using False Cons.prems(7) by auto
    have "\<forall>d\<in>set ds. good (dv_download d)" "exact \<longrightarrow> (\<forall>d\<in>set ds. set (dv_saves d) \<subseteq> {None} \<and> \<not> dv_again d)"
      using Cons.prems(1,2) by auto
    moreover have "\<exists>s\<le>reached 0 (runs @ rs). stored_at version (process ?w) s
        \<and> (exact \<and> \<not> ow_acked (process ?w) \<longrightarrow> s = reached 0 (runs @ rs))"
      using rs(3) by (auto simp: ready_def)
    moreover have "replays (length full) exact 0 (runs @ rs)" using Cons.prems(4) rs(1) by (simp add: replays_append)
    moreover have "concat (ow_batches (process ?w)) = segments (\<lambda>r. fst (body r)) full (runs @ rs)"
    proof -
      have "ow_batches ?w = ow_batches w" by simp
      then show ?thesis unfolding rs(2) Cons.prems(5) [symmetric] segments_append by (simp only:)
    qed
    moreover have "ow_acked (process ?w) \<longrightarrow> length full \<in> snd ` set (runs @ rs)" using rs(5) Cons.prems(6) by auto
    ultimately have "(\<exists>runs. replays (length full) exact 0 runs \<and> concat (ow_batches w') = segments (\<lambda>r. fst (body r)) full runs
            \<and> (ow_acked w' \<longrightarrow> length full \<in> snd ` set runs))
        \<and> (ow_acked (process ?w) \<or> (\<exists>d\<in>set ds. calm whole d) \<longrightarrow> ow_acked w')"
      by (rule Cons.IH [OF _ _ _ _ _ _ unfold])
    with calm rs(4) show ?thesis by auto
  qed
qed

text \<open>The same without the runs: all is delivered with the acknowledgement, and once if no save failed.\<close>

definition undelivered :: "string \<Rightarrow> ('dl, 'b) object_world \<Rightarrow> bool" where
  "undelivered version w = (\<not> ow_acked w \<and> ow_batches w = [] \<and> stored_at version w 0)"

lemma deliveries_once:
  assumes "handles body version process" and "undelivered version w" and "\<forall>d\<in>set ds. good (dv_download d)"
    and "w' = deliveries process ds w"
  shows "(\<exists>runs. replays (length full) False 0 runs \<and> concat (ow_batches w') = segments (\<lambda>r. fst (body r)) full runs
            \<and> (ow_acked w' \<longrightarrow> (\<forall>i<length full. \<exists>(a, b)\<in>set runs. a \<le> i \<and> i < b)))
    \<and> ((\<forall>d\<in>set ds. set (dv_saves d) \<subseteq> {None} \<and> \<not> dv_again d) \<longrightarrow>
         (\<exists>n. concat (ow_batches w') = map (\<lambda>r. fst (body r)) (take n full) \<and> (ow_acked w' \<longrightarrow> n = length full)))
    \<and> ((\<exists>d\<in>set ds. calm whole d) \<longrightarrow> ow_acked w')"
proof -
  have st: "\<exists>s\<le>reached 0 []. stored_at version w s \<and> (exact \<and> \<not> ow_acked w \<longrightarrow> s = reached 0 [])"
      "concat (ow_batches w) = segments (\<lambda>r. fst (body r)) full []" "ow_acked w \<longrightarrow> length full \<in> snd ` set []" for exact
    using assms(2) by (auto simp: undelivered_def)
  note runs = deliveries_runs [OF assms(1,3) _ st(1) _ st(2,3) assms(4)]
  from runs [of False] obtain rs where rs: "replays (length full) False 0 rs"
      "concat (ow_batches w') = segments (\<lambda>r. fst (body r)) full rs" "ow_acked w' \<longrightarrow> length full \<in> snd ` set rs"
    and calm: "(\<exists>d\<in>set ds. calm whole d) \<longrightarrow> ow_acked w'" by auto
  have "\<forall>i<length full. \<exists>(a, b)\<in>set rs. a \<le> i \<and> i < b" if "ow_acked w'"
  proof -
    from rs(3) that obtain a where "(a, length full) \<in> set rs" by auto
    from replays_cover [OF rs(1) this] show ?thesis by simp
  qed
  with rs have some: "\<exists>runs. replays (length full) False 0 runs \<and> concat (ow_batches w') = segments (\<lambda>r. fst (body r)) full runs
            \<and> (ow_acked w' \<longrightarrow> (\<forall>i<length full. \<exists>(a, b)\<in>set runs. a \<le> i \<and> i < b))" by blast
  have "\<exists>n. concat (ow_batches w') = map (\<lambda>r. fst (body r)) (take n full) \<and> (ow_acked w' \<longrightarrow> n = length full)"
    if "\<forall>d\<in>set ds. set (dv_saves d) \<subseteq> {None} \<and> \<not> dv_again d"
  proof -
    from runs [of True] that obtain rs where rs: "replays (length full) True 0 rs"
      "concat (ow_batches w') = segments (\<lambda>r. fst (body r)) full rs" "ow_acked w' \<longrightarrow> length full \<in> snd ` set rs" by auto
    note ex = replays_exact [OF rs(1) le0]
    have "ow_acked w' \<longrightarrow> reached 0 rs = length full"
      using rs(3) ex(3) replays_reached [OF rs(1) le0] by force
    with rs(2) ex(1) [of "\<lambda>r. fst (body r)"] show ?thesis by (intro exI [of _ "reached 0 rs"]) simp
  qed
  with some calm show ?thesis by blast
qed

end


lemma discards: "by_version s3_discard" "by_version gcs_discard"
  by (auto simp: by_version_def s3_discard_def gcs_discard_def)

lemma s3_error_service [simp]: "s3_handleProcessingError (object_service records body permanent version) ae e w = w"
  by (simp add: s3_handleProcessingError_def split: option.splits)

lemma gcs_error_service [simp]: "gcs_handleProcessingError (object_service records body permanent version) ge e w = w"
  by (simp add: gcs_handleProcessingError_def)

definition names_one_object :: "s3_worker \<Rightarrow> notification_json \<Rightarrow> bytes \<Rightarrow> bool" where
  "names_one_object wk nj msg =
     (case getParseFuncForNotificationType nj (s3_notificationType wk) msg of
        Inl e \<Rightarrow> False | Inr records \<Rightarrow> length (objectCreatedRecords wk records) = 1)"

definition passes :: "gcs_worker \<Rightarrow> PullMessage \<Rightarrow> bool" where
  "passes wk msg =
     (pm_eventType msg = ''OBJECT_FINALIZE'' \<and> pm_bucketId msg \<noteq> [] \<and> pm_objectId msg \<noteq> []
      \<and> gcs_matches (gw_bucketNameFilter wk) (pm_bucketId msg) \<and> gcs_matches (gw_objectKeyFilter wk) (pm_objectId msg))"

context resumable_object begin

text \<open>Both workers end a delivery in the same way: the acknowledgement, then the stored offset.\<close>

lemma acknowledged:
  assumes "\<exists>runs. progressed body version exact up res w w1 runs"
    and "w' = (case res of Inl e \<Rightarrow> w1
           | Inr t \<Rightarrow> if dv_ackErr (ow_delivery w1) = None then snd (delete_offset (acknowledge w1)) else acknowledge w1)"
    and "calm whole (ow_delivery w) \<Longrightarrow> set (ow_answers w) \<subseteq> {None} \<Longrightarrow> \<exists>t. res = Inr t"
  shows "(\<exists>runs. replays (length full) exact up runs
           \<and> concat (ow_batches w') = concat (ow_batches w) @ segments (\<lambda>r. fst (body r)) full runs
           \<and> ready version (exact \<and> \<not> ow_acked w') w' (reached up runs)
           \<and> (ow_acked w \<longrightarrow> ow_acked w') \<and> (ow_acked w' \<longrightarrow> ow_acked w \<or> length full \<in> snd ` set runs))
        \<and> (calm whole (ow_delivery w) \<longrightarrow> set (ow_answers w) \<subseteq> {None} \<longrightarrow> ow_acked w')"
proof -
  obtain runs where runs: "progressed body version exact up res w w1 runs" using assms(1) ..
  then obtain s where s: "s \<le> reached up runs" "stored_at version w1 s" "exact \<longrightarrow> s = reached up runs"
      "exact \<longrightarrow> set (ow_saves w1) \<subseteq> {None}"
    by (auto simp: progressed_def ready_def)
  have "ready version (exact \<and> \<not> ow_acked w') w' (reached up runs)
    \<and> concat (ow_batches w') = concat (ow_batches w1) \<and> (ow_acked w1 \<longrightarrow> ow_acked w')
    \<and> (ow_acked w' \<longrightarrow> ow_acked w1 \<or> (\<exists>t. res = Inr t))
    \<and> ((\<exists>t. res = Inr t) \<longrightarrow> dv_ackErr (ow_delivery w1) = None \<longrightarrow> ow_acked w')"
  proof (cases "(\<exists>t. res = Inr t) \<and> dv_ackErr (ow_delivery w1) = None")
    case True
    then have w': "w' = snd (delete_offset (acknowledge w1))" using assms(2) by auto
    have "ow_stored w' = None \<or> ow_stored w' = ow_stored w1"
      using delete_offset_stored [of "acknowledge w1"] unfolding w' by simp
    then have "stored_at version w' 0 \<or> stored_at version w' s"
      using s(2) unfolding stored_at_def by (elim disjE) simp_all
    with True s(1) show ?thesis unfolding w' by (auto simp: ready_def)
  next
    case False
    then have w': "w' = w1 \<or> w' = acknowledge w1 \<and> (\<exists>t. res = Inr t)" using assms(2) by (cases res) auto
    then have same: "ow_stored w' = ow_stored w1" "ow_saves w' = ow_saves w1" "ow_batches w' = ow_batches w1" by auto
    have "stored_at version w' s" using s(2) unfolding stored_at_def same .
    with s(1,3,4) have "ready version (exact \<and> \<not> ow_acked w') w' (reached up runs)"
      unfolding ready_def same by blast
    with w' False same(3) show ?thesis by (elim disjE) auto
  qed
  moreover have "ow_delivery w1 = ow_delivery w" "ow_acked w1 = ow_acked w" "replays (length full) exact up runs"
      "concat (ow_batches w1) = concat (ow_batches w) @ segments (\<lambda>r. fst (body r)) full runs"
      "(\<exists>t. res = Inr t) \<longrightarrow> length full \<in> snd ` set runs"
    using runs by (auto simp: progressed_def)
  ultimately show ?thesis using assms(3) unfolding calm_def by (intro conjI exI [of _ runs] impI) (simp_all, blast)
qed

lemma s3_handles:
  fixes body :: "'r \<Rightarrow> 'b \<times> go_error option"
  assumes "version \<noteq> []" and "names_one_object wk nj msg"
  shows "handles body version (s3_ProcessMessage wk nj ae (object_service records body permanent version) msg)"
proof -
  obtain recs bucket key where parsed: "getParseFuncForNotificationType nj (s3_notificationType wk) msg = Inr recs"
      and one: "objectCreatedRecords wk recs = [(bucket, key)]"
    using assms(2) by (auto simp: names_one_object_def length_Suc_conv split: sum.splits)
  show ?thesis
    unfolding handles_def
  proof (intro allI impI, rule acknowledged)
    fix w :: "('dl, 'b) object_world" and exact up
    assume gd: "good (dv_download (ow_delivery w))" and rd: "ready version exact w up" and up: "up \<le> length full"
    let ?run = "s3_processRecord (object_service records body permanent version) (s3_cfg wk) bucket key w"
    note step = record_step [OF discards(1) assms(1) gd rd up
        prod.collapse [symmetric, of ?run, unfolded s3_processRecord_def consumeLogsFromS3Object_def]]
    show "\<exists>runs. progressed body version exact up (fst ?run) w (snd ?run) runs"
      and "calm whole (ow_delivery w) \<Longrightarrow> set (ow_answers w) \<subseteq> {None} \<Longrightarrow> \<exists>t. fst ?run = Inr t"
      using step by (simp_all add: s3_processRecord_def consumeLogsFromS3Object_def)
    show "s3_ProcessMessage wk nj ae (object_service records body permanent version) msg w =
        (case fst ?run of Inl e \<Rightarrow> snd ?run
             | Inr t \<Rightarrow> if dv_ackErr (ow_delivery (snd ?run)) = None then snd (delete_offset (acknowledge (snd ?run)))
                        else acknowledge (snd ?run))"
      by (cases ?run) (auto simp: s3_ProcessMessage_def parsed one deleteMessage_def case_prod_beta' split: sum.splits option.splits)
  qed
qed

lemma gcs_handles:
  fixes body :: "'r \<Rightarrow> 'b \<times> go_error option"
  assumes "version \<noteq> []" and "passes wk msg"
  shows "handles body version (\<lambda>w. snd (gcs_ProcessMessage wk ge (object_service records body permanent version) msg w))"
  unfolding handles_def
proof (intro allI impI, rule acknowledged)
  fix w :: "('dl, 'b) object_world" and exact up
  assume gd: "good (dv_download (ow_delivery w))" and rd: "ready version exact w up" and up: "up \<le> length full"
  let ?run = "gcs_processRecord ge (object_service records body permanent version) (gw_cfg wk)
      (pm_bucketId msg) (pm_objectId msg) w"
  note step = record_step [OF discards(2) assms(1) gd rd up
      prod.collapse [symmetric, of ?run, unfolded gcs_processRecord_def consumeLogsFromGCSObject_def]]
  show "\<exists>runs. progressed body version exact up (fst ?run) w (snd ?run) runs"
    and "calm whole (ow_delivery w) \<Longrightarrow> set (ow_answers w) \<subseteq> {None} \<Longrightarrow> \<exists>t. fst ?run = Inr t"
    using step by (simp_all add: gcs_processRecord_def consumeLogsFromGCSObject_def)
  show "snd (gcs_ProcessMessage wk ge (object_service records body permanent version) msg w) =
      (case fst ?run of Inl e \<Rightarrow> snd ?run
           | Inr t \<Rightarrow> if dv_ackErr (ow_delivery (snd ?run)) = None then snd (delete_offset (acknowledge (snd ?run)))
                      else acknowledge (snd ?run))"
    using assms(2) by (cases ?run) (auto simp: gcs_ProcessMessage_def passes_def case_prod_beta' split: sum.splits option.splits)
qed

end

end
