(* ===== verification/ObjectLines.thy ===== *)
theory ObjectLines
  imports ObjectOnce
begin

text \<open>
  The line parser behind the workers: a download that is broken anywhere yields the lines before the
  break and then a stream error, and every position it reports is one from which the next
  download goes on. With the locale \<open>resumable_object\<close> this gives the delivery of text objects by both
  workers: all lines by the acknowledgement, and each once as long as the offsets are saved.
\<close>

section \<open>Objects of lines\<close>

text \<open>
  A download of an object: the bytes that arrive, the error behind them (an early end is none) and
  whether the end comes together with the last bytes.
\<close>

record download =
  dl_received :: nat
  dl_err :: "go_error option"
  dl_withLast :: bool

definition download_reader :: "bytes \<Rightarrow> int \<Rightarrow> download \<Rightarrow> bufferedReader" where
  "download_reader content maxLogSize d =
     NewBufferedReader (take (dl_received d) content) (case dl_err d of None \<Rightarrow> ErrEOF | Some e \<Rightarrow> e) (dl_withLast d) maxLogSize"

definition download_raw :: "bytes \<Rightarrow> download \<Rightarrow> raw_status" where
  "download_raw content d =
     \<lparr>raw_readErr = dl_err d, raw_atEOF = (dl_err d = None), raw_offset = int (length (take (dl_received d) content)),
      raw_expectedSize = int (length content)\<rparr>"

definition singleParserProducer_Position :: "int \<Rightarrow> Offset" where
  "singleParserProducer_Position offset = NewOffset offset"

text \<open>\<open>singleParserProducer.Records\<close> over the line parser, with the positions it reports.\<close>

definition singleParserProducer_Records :: "bytes \<Rightarrow> int \<Rightarrow> download \<Rightarrow> Offset \<Rightarrow> go_error + bytes produced \<times> Offset" where
  "singleParserProducer_Records content maxLogSize d start =
     (case the (lineParser_Parse (download_raw content d) (download_reader content maxLogSize d) (of_Offset start)) of
        Inl e \<Rightarrow> Inl e
      | Inr (items, fin) \<Rightarrow>
          Inr (map (\<lambda>(it, p). (it, singleParserProducer_Position p)) items, singleParserProducer_Position fin))"

definition whole_download :: "bytes \<Rightarrow> download \<Rightarrow> bool" where
  "whole_download content d = (dl_err d = None \<and> dl_received d = length content)"

definition honest_download :: "bytes \<Rightarrow> download \<Rightarrow> bool" where
  "honest_download content d =
     (dl_received d \<le> length content
      \<and> (case dl_err d of None \<Rightarrow> True | Some e \<Rightarrow> unclassified e \<and> \<not> errors_Is e ErrBufferFull))"

text \<open>The records of a content, whatever the reads that brought it.\<close>

function lines_of :: "int \<Rightarrow> bytes \<Rightarrow> bytes list" where
  "lines_of b s =
     (case next_line (buf_len b) False s of
        None \<Rightarrow> if strip_cr s = [] then [] else [strip_cr s]
      | Some (l, k) \<Rightarrow> (if l = [] then [] else [l]) @ lines_of b (drop k s))"
  by pat_completeness auto
termination
proof (relation "measure (\<lambda>(b, s). length s)", goal_cases)
  case (2 b s x l k)
  then show ?case
    using next_line_consumes [of "buf_len b" False s l k] buf_len_ge [of b] by simp
qed simp

declare lines_of.simps [simp del]

lemma takeWhile_full: "length (takeWhile (\<lambda>c. c \<noteq> LF) s) < length s \<longleftrightarrow> LF \<in> set s"
  by (induction s) auto

lemma takeWhile_no_lf: "LF \<notin> set s \<Longrightarrow> takeWhile (\<lambda>c. c \<noteq> LF) s = s"
  by (induction s) auto

lemma lines_of_short:
  assumes "LF \<notin> set s" and "length s < buf_len b"
  shows "lines_of b s = (if strip_cr s = [] then [] else [strip_cr s])"
proof -
  have "next_line (buf_len b) False s = None"
    using assms by (simp add: next_line_def Let_def takeWhile_no_lf)
  then show ?thesis by (subst lines_of.simps) simp
qed

lemma next_line_prefix:
  assumes "next_line (buf_len b) wl t = Some x"
  shows "next_line (buf_len b) False (t @ u) = Some x"
proof -
  let ?n = "buf_len b"
  let ?w = "take ?n t" and ?w' = "take ?n (t @ u)"
  have w': "?w' = ?w @ take (?n - length t) u" by simp
  show ?thesis
  proof (cases "LF \<in> set ?w")
    case True
    then have "takeWhile (\<lambda>c. c \<noteq> LF) ?w' = takeWhile (\<lambda>c. c \<noteq> LF) ?w"
      unfolding w' by (rule takeWhile_append1) simp
    moreover have "LF \<in> set ?w'" using True unfolding w' by simp
    ultimately show ?thesis
      using assms True unfolding next_line_def Let_def takeWhile_full by simp
  next
    case False
    then have len: "?n \<le> length t" using assms unfolding next_line_def Let_def takeWhile_full by (auto split: if_splits)
    then have "?w' = ?w" by simp
    with assms False len show ?thesis unfolding next_line_def Let_def takeWhile_full by (auto split: if_splits)
  qed
qed

lemma next_line_end:
  assumes "next_line (buf_len b) wl s = None"
  shows "lines_of b s = (if strip_cr s = [] then [] else [strip_cr s])"
proof -
  let ?n = "buf_len b"
  have n: "16 \<le> ?n" by (rule buf_len_ge)
  have no_w: "LF \<notin> set (take ?n s)" and len: "length s \<le> ?n"
    using assms unfolding next_line_def Let_def takeWhile_full by (auto split: if_splits)
  then have no: "LF \<notin> set s" by simp
  show ?thesis
  proof (cases "length s < ?n")
    case True
    with no show ?thesis by (rule lines_of_short)
  next
    case False
    with len have eq: "length s = ?n" by simp
    with n have ne: "s \<noteq> []" "butlast s \<noteq> []" by (auto simp: butlast_conv_take)
    have nl: "next_line ?n False s = Some (if last s = CR then (butlast s, ?n - 1) else (s, ?n))"
      using eq no unfolding next_line_def Let_def takeWhile_full by simp
    have nil: "lines_of b [] = []" using lines_of_short [of "[]" b] n by (simp add: strip_cr_def)
    show ?thesis
    proof (cases "last s = CR")
      case True
      have "drop (?n - 1) s = [CR]" using eq ne True
        by (metis append_butlast_last_id append_eq_conv_conj length_butlast)
      moreover have "lines_of b [CR] = []" using lines_of_short [of "[CR]" b] n by (simp add: strip_cr_def)
      ultimately show ?thesis using nl True ne by (subst lines_of.simps) (simp add: strip_cr_def)
    next
      case no_cr: False
      with nl nil eq ne show ?thesis by (subst lines_of.simps) (simp add: strip_cr_def)
    qed
  qed
qed


section \<open>Items and positions\<close>

text \<open>Items that are the next records of \<open>s\<close>, each with the position behind it.\<close>

fun tracked :: "int \<Rightarrow> int \<Rightarrow> bytes \<Rightarrow> parse_item list \<Rightarrow> bool" where
  "tracked b off s [] = True"
| "tracked b off s ((it, p) # its) =
     (\<exists>x k. it = Inr x \<and> k \<le> length s \<and> p = off + int k \<and> lines_of b s = x # lines_of b (drop k s)
            \<and> tracked b p (drop k s) its)"

lemma tracked_skip:
  assumes "lines_of b s = lines_of b (drop k s)" and "k \<le> length s" and "tracked b (off + int k) (drop k s) its"
  shows "tracked b off s its"
proof (cases its)
  case (Cons a its')
  obtain it p where a: "a = (it, p)" by fastforce
  obtain x j where "it = Inr x" "j \<le> length (drop k s)" "p = off + int k + int j"
      "lines_of b (drop k s) = x # lines_of b (drop j (drop k s))" "tracked b p (drop j (drop k s)) its'"
    using assms(3) Cons a by auto
  with assms(1,2) Cons a show ?thesis by (auto intro!: exI [of _ "j + k"] simp: add.commute)
qed simp

text \<open>What the parser makes of the beginning \<open>t\<close> of what is left of the object.\<close>

lemma line_events_tracked:
  assumes "line_events raw e b wl off t = (items, fin)"
    and tail: "\<And>off t. next_line (buf_len b) wl t = None \<Longrightarrow>
      line_tail raw e off t = (if broken then ([(Inl err, off)], off)
                               else if strip_cr t \<noteq> [] then ([(Inr (strip_cr t), off + int (length t))], off + int (length t))
                               else ([], off))"
    and "\<not> broken \<Longrightarrow> u = []"
  shows "\<exists>its k. items = its @ (if broken then [(Inl err, fin)] else []) \<and> tracked b off (t @ u) its
    \<and> k \<le> length (t @ u) \<and> fin = off + int k \<and> lines_of b (drop k (t @ u)) = drop (length its) (lines_of b (t @ u))
    \<and> length its \<le> length (lines_of b (t @ u)) \<and> (\<not> broken \<longrightarrow> length its = length (lines_of b (t @ u)))"
  using assms(1)
proof (induction "length t" arbitrary: t off items rule: less_induct)
  case less
  show ?case
  proof (cases "next_line (buf_len b) wl t")
    case None
    then have ev: "line_tail raw e off t = (items, fin)" using less.prems by (simp add: line_events.simps [of raw e b wl off t])
    show ?thesis
    proof (cases broken)
      case True
      with ev tail [OF None, of off] show ?thesis by (intro exI [of _ "[]"] exI [of _ 0]) auto
    next
      case False
      have lines: "lines_of b t = (if strip_cr t = [] then [] else [strip_cr t])" using None by (rule next_line_end)
      have nil: "lines_of b [] = []" using lines_of_short [of "[]" b] buf_len_ge [of b] by (simp add: strip_cr_def)
      show ?thesis
      proof (cases "strip_cr t = []")
        case True
        with ev tail [OF None, of off] False lines assms(3) show ?thesis
          by (intro exI [of _ "[]"] exI [of _ 0]) auto
      next
        case ne: False
        have "tracked b off t [(Inr (strip_cr t), off + int (length t))]"
          using ne lines nil by (auto intro!: exI [of _ "length t"])
        with ne ev tail [OF None, of off] False lines nil assms(3) show ?thesis
          by (intro exI [of _ "[(Inr (strip_cr t), off + int (length t))]"] exI [of _ "length t"]) auto
      qed
    qed
  next
    case (Some lk)
    obtain l k where lk: "lk = (l, k)" by fastforce
    have k: "0 < k" "k \<le> length t"
      using next_line_consumes [OF Some [unfolded lk]] buf_len_ge [of b] by auto
    obtain items' where rest: "line_events raw e b wl (off + int k) (drop k t) = (items', fin)"
      and it: "items = (if l = [] then [] else [(Inr l, off + int k)]) @ items'"
      using less.prems Some lk by (subst (asm) line_events.simps) (auto split: prod.splits)
    have lines: "lines_of b (t @ u) = (if l = [] then [] else [l]) @ lines_of b (drop k t @ u)"
      using next_line_prefix [OF Some [unfolded lk], of u] k by (subst lines_of.simps) simp
    have "length (drop k t) < length t" using k by simp
    from less.hyps [OF this rest] obtain its j where ih:
        "items' = its @ (if broken then [(Inl err, fin)] else [])" "tracked b (off + int k) (drop k t @ u) its"
        "j \<le> length (drop k t @ u)" "fin = off + int k + int j"
        "lines_of b (drop j (drop k t @ u)) = drop (length its) (lines_of b (drop k t @ u))"
        "length its \<le> length (lines_of b (drop k t @ u))"
        "\<not> broken \<longrightarrow> length its = length (lines_of b (drop k t @ u))"
      by blast
    have dk: "drop k (t @ u) = drop k t @ u" using k by simp
    have dj: "drop (j + k) (t @ u) = drop j (drop k t @ u)" unfolding dk [symmetric] by (simp only: drop_drop)
    have len: "j + k \<le> length (t @ u)" using ih(3) k by simp
    show ?thesis
    proof (cases "l = []")
      case True
      have "tracked b off (t @ u) its"
        by (rule tracked_skip [of b "t @ u" k]) (use True lines dk k ih(2) in simp_all)
      with True it ih lines len show ?thesis
        by (intro exI [of _ its] exI [of _ "j + k"]) (simp add: dj del: drop_append)
    next
      case False
      have "tracked b off (t @ u) ((Inr l, off + int k) # its)"
        using False lines k ih(2) by (auto intro!: exI [of _ k])
      with False it ih lines len show ?thesis
        by (intro exI [of _ "(Inr l, off + int k) # its"] exI [of _ "j + k"]) (simp add: dj del: drop_append tracked.simps)
    qed
  qed
qed


definition line_stands :: "bytes \<Rightarrow> int \<Rightarrow> Offset \<Rightarrow> nat \<Rightarrow> bool" where
  "line_stands content b p n =
     (of_EntryIndex p = 0 \<and> 0 \<le> of_Offset p \<and> of_Offset p \<le> int (length content) \<and> n \<le> length (lines_of b content)
      \<and> lines_of b (drop (nat (of_Offset p)) content) = drop n (lines_of b content))"

lemma tracked_stands:
  "tracked b (int o') (drop o' content) its \<Longrightarrow> line_stands content b (NewOffset (int o')) n \<Longrightarrow> i < length its \<Longrightarrow>
     fst (its ! i) = Inr (lines_of b content ! (n + i)) \<and> line_stands content b (NewOffset (snd (its ! i))) (Suc (n + i))"
proof (induction its arbitrary: o' n i)
  case (Cons a its)
  obtain it p where a: "a = (it, p)" by fastforce
  obtain x k where k: "it = Inr x" "k \<le> length (drop o' content)" "p = int o' + int k"
      "lines_of b (drop o' content) = x # lines_of b (drop k (drop o' content))" "tracked b p (drop k (drop o' content)) its"
    using Cons.prems(1) a by auto
  have st: "o' \<le> length content" "n \<le> length (lines_of b content)" "lines_of b (drop o' content) = drop n (lines_of b content)"
    using Cons.prems(2) by (simp_all add: line_stands_def NewOffset_def)
  have next': "drop n (lines_of b content) = x # lines_of b (drop (k + o') content)"
    using k(4) st(3) by simp
  then have n: "n < length (lines_of b content)" by (metis drop_all le_less_linear list.discI)
  with next' have x: "lines_of b content ! n = x" and rest: "lines_of b (drop (k + o') content) = drop (Suc n) (lines_of b content)"
    by (metis Cons_nth_drop_Suc list.inject)+
  have p: "p = int (k + o')" using k(3) by simp
  have here: "line_stands content b (NewOffset (int (k + o'))) (Suc n)"
    unfolding line_stands_def NewOffset_def Offset.simps nat_int rest using n k(2) st(1) by simp
  have tr: "tracked b (int (k + o')) (drop (k + o') content) its" using k(5) p by simp
  show ?case
  proof (cases i)
    case 0
    with a k(1) x here p show ?thesis by simp
  next
    case (Suc i')
    with Cons.IH [OF tr here, of i'] Cons.prems(3) show ?thesis by simp
  qed
qed simp

lemma retryable_stream: "unclassified e \<Longrightarrow> retryable (ErrStreamRead e)"
  by (auto simp: retryable_def unclassified_def IsStreamRead_def IsTruncatedObject_def errors_As_None)

lemma unclassified_simple: "unclassified ErrEOF" "unclassified ErrUnexpectedEOF"
  by (simp_all add: unclassified_def)

text \<open>A download that is not whole ends in a stream error, whatever the read it ends in.\<close>

lemma broken_download:
  assumes "honest_download content d" and "\<not> whole_download content d" and "unclassified e"
  shows "\<exists>e'. classifyReadFailure (download_raw content d) e = ErrStreamRead e' \<and> unclassified e'"
  using assms
  by (auto simp: honest_download_def whole_download_def download_raw_def classifyReadFailure_def RawTruncated_def
      split: option.splits)

lemma download_reader_fresh: "honest_download content d \<Longrightarrow> fresh_reader (download_reader content b d)"
  by (auto simp: honest_download_def fresh_reader_def download_reader_def NewBufferedReader_def errors_Is_def
      split: option.splits)

lemma line_records:
  assumes "honest_download content d" and "line_stands content b p n"
  shows "(\<exists>e. singleParserProducer_Records content b d p = Inl e \<and> retryable e \<and> \<not> whole_download content d)
    \<or> (\<exists>its err fin. singleParserProducer_Records content b d p =
          Inr (map (\<lambda>(it, q). (it, NewOffset q)) its @ (if whole_download content d then [] else [(Inl err, NewOffset fin)]), NewOffset fin)
        \<and> retryable err \<and> tracked b (of_Offset p) (drop (nat (of_Offset p)) content) its
        \<and> line_stands content b (NewOffset fin) (n + length its)
        \<and> (whole_download content d \<longrightarrow> n + length its = length (lines_of b content)))"
proof -
  let ?raw = "download_raw content d" and ?r = "download_reader content b d" and ?o = "nat (of_Offset p)"
  let ?e = "case dl_err d of None \<Rightarrow> ErrEOF | Some e \<Rightarrow> e" and ?t = "take (dl_received d) content"
  have st: "0 \<le> of_Offset p" "of_Offset p \<le> int (length content)" "n \<le> length (lines_of b content)"
      "lines_of b (drop ?o content) = drop n (lines_of b content)"
    using assms(2) by (simp_all add: line_stands_def)
  have unc: "unclassified ?e"
    using assms(1) by (auto simp: honest_download_def unclassified_simple split: option.splits)
  note parse = lineParser_Parse_eq [OF download_reader_fresh [OF assms(1)], of ?raw b "of_Offset p"]
  have br: "br_rest ?r = ?t" "br_end ?r = ?e" "br_bufSize ?r = b" "br_endWithLast ?r = dl_withLast d"
    by (simp_all add: download_reader_def NewBufferedReader_def)
  show ?thesis
  proof (cases "of_Offset p \<le> int (length ?t)")
    case False
    then have nw: "\<not> whole_download content d" using st(2) by (auto simp: whole_download_def)
    have "\<exists>e. singleParserProducer_Records content b d p = Inl (classifyReadFailure ?raw e) \<and> unclassified e"
      using False parse unc
      by (auto simp: singleParserProducer_Records_def br unclassified_simple split: option.splits)
    with broken_download [OF assms(1) nw] retryable_stream nw show ?thesis by fastforce
  next
    case True
    let ?ev = "line_events ?raw ?e b (dl_withLast d) (of_Offset p) (drop ?o ?t)"
    obtain items fin where ev: "?ev = (items, fin)" by fastforce
    have recs: "singleParserProducer_Records content b d p = Inr (map (\<lambda>(it, q). (it, NewOffset q)) items, NewOffset fin)"
      using True parse ev st(1)
      by (simp add: singleParserProducer_Records_def br singleParserProducer_Position_def)
    have err: "\<exists>err. retryable err \<and> (\<not> whole_download content d \<longrightarrow>
        (\<forall>off t. line_tail ?raw ?e off t = ([(Inl err, off)], off)))"
    proof (cases "whole_download content d")
      case True
      then show ?thesis using retryable_stream unclassified_simple by blast
    next
      case nw: False
      have "unclassified (if errors_Is ?e ErrEOF then ErrUnexpectedEOF else ?e)"
        by (cases "errors_Is ?e ErrEOF") (simp_all only: if_True if_False unc unclassified_simple)
      from broken_download [OF assms(1) nw this]
      obtain e1 where e1: "classifyReadFailure ?raw (if errors_Is ?e ErrEOF then ErrUnexpectedEOF else ?e) = ErrStreamRead e1"
          "unclassified e1" by blast
      have bad: "errors_Is ?e ErrEOF \<Longrightarrow> raw_readErr ?raw \<noteq> None \<or> RawTruncated ?raw"
        using nw assms(1) by (auto simp: whole_download_def honest_download_def download_raw_def RawTruncated_def)
      have "line_tail ?raw ?e off t = ([(Inl (ErrStreamRead e1), off)], off)" for off t
        using e1(1) bad by (auto simp: line_tail_def split: if_splits)
      with e1(2) retryable_stream show ?thesis by blast
    qed
    then obtain err where ret: "retryable err"
      and tail: "\<not> whole_download content d \<Longrightarrow> line_tail ?raw ?e off t = ([(Inl err, off)], off)" for off t
      by blast
    have clean: "line_tail ?raw ?e off t = (if strip_cr t \<noteq> [] then ([(Inr (strip_cr t), off + int (length t))], off + int (length t))
        else ([], off))" if "whole_download content d" for off t
      using that by (simp add: line_tail_def whole_download_def download_raw_def RawTruncated_def errors_Is_def)
    let ?u = "drop (max ?o (dl_received d)) content"
    have cut: "drop ?o ?t @ drop (dl_received d) content = drop ?o content"
      using True st(1) by (metis append_take_drop_id drop_append diff_is_0_eq drop_0 nat_le_iff)
    have "\<exists>its k. items = its @ (if \<not> whole_download content d then [(Inl err, fin)] else [])
        \<and> tracked b (of_Offset p) (drop ?o ?t @ drop (dl_received d) content) its
        \<and> k \<le> length (drop ?o ?t @ drop (dl_received d) content) \<and> fin = of_Offset p + int k
        \<and> lines_of b (drop k (drop ?o ?t @ drop (dl_received d) content))
            = drop (length its) (lines_of b (drop ?o ?t @ drop (dl_received d) content))
        \<and> length its \<le> length (lines_of b (drop ?o ?t @ drop (dl_received d) content))
        \<and> (\<not> \<not> whole_download content d \<longrightarrow> length its = length (lines_of b (drop ?o ?t @ drop (dl_received d) content)))"
    proof (rule line_events_tracked [OF ev])
      fix off t
      show "line_tail ?raw ?e off t = (if \<not> whole_download content d then ([(Inl err, off)], off)
          else if strip_cr t \<noteq> [] then ([(Inr (strip_cr t), off + int (length t))], off + int (length t)) else ([], off))"
        using tail clean by (cases "whole_download content d") simp_all
    qed (simp add: whole_download_def)
    then obtain its k where its: "items = its @ (if whole_download content d then [] else [(Inl err, fin)])"
        "tracked b (of_Offset p) (drop ?o content) its" "k \<le> length (drop ?o content)" "fin = of_Offset p + int k"
        "lines_of b (drop k (drop ?o content)) = drop (length its) (lines_of b (drop ?o content))"
        "length its \<le> length (lines_of b (drop ?o content))"
        "whole_download content d \<longrightarrow> length its = length (lines_of b (drop ?o content))"
      unfolding cut by (auto split: if_splits)
    have fin: "nat fin = k + ?o" "0 \<le> fin" "fin \<le> int (length content)" using its(3,4) st by auto
    have "line_stands content b (NewOffset fin) (n + length its)"
      using its(5,6) st fin by (simp add: line_stands_def NewOffset_def add.commute)
    moreover have "whole_download content d \<longrightarrow> n + length its = length (lines_of b content)"
      using its(7) st by simp
    ultimately show ?thesis using recs its(1,2) ret by auto
  qed
qed

interpretation text_object: resumable_object "singleParserProducer_Records content b" "whole_download content"
    "honest_download content" "line_stands content b" "lines_of b content"
  for content :: bytes and b :: int
proof
  show "line_stands content b (NewOffset 0) 0" by (simp add: line_stands_def NewOffset_def)
next
  fix d p n e
  assume "honest_download content d" "line_stands content b p n" "singleParserProducer_Records content b d p = Inl e"
  then show "retryable e \<and> \<not> whole_download content d" using line_records [of content d b p n] by auto
next
  fix d p n logs fin
  assume hd: "honest_download content d" and st: "line_stands content b p n"
    and recs: "singleParserProducer_Records content b d p = Inr (logs, fin)"
  from line_records [OF hd st] recs obtain its err f where
      logs: "logs = map (\<lambda>(it, q). (it, NewOffset q)) its @ (if whole_download content d then [] else [(Inl err, NewOffset f)])"
        "fin = NewOffset f"
      and ret: "retryable err" and tr: "tracked b (of_Offset p) (drop (nat (of_Offset p)) content) its"
      and fin: "line_stands content b (NewOffset f) (n + length its)"
        "whole_download content d \<longrightarrow> n + length its = length (lines_of b content)"
    by auto
  have p: "p = NewOffset (int (nat (of_Offset p)))" using st by (cases p) (simp add: line_stands_def NewOffset_def)
  have "int (nat (of_Offset p)) = of_Offset p" using st by (simp add: line_stands_def)
  with tr have tr': "tracked b (int (nat (of_Offset p))) (drop (nat (of_Offset p)) content) its" by simp
  have st': "line_stands content b (NewOffset (int (nat (of_Offset p)))) n" using st p by simp
  let ?items = "map (\<lambda>(it, q). (it, NewOffset q)) its"
  have "\<forall>i<length its. fst (?items ! i) = Inr (lines_of b content ! (n + i))
      \<and> line_stands content b (snd (?items ! i)) (Suc (n + i))"
    using tracked_stands [OF tr' st'] by (simp add: case_prod_beta')
  moreover have "n + length its \<le> length (lines_of b content)" using fin(1) by (simp add: line_stands_def)
  ultimately show "\<exists>m. n \<le> m \<and> m \<le> length (lines_of b content) \<and>
        (\<exists>items. length items = m - n
           \<and> (\<forall>i<m - n. fst (items ! i) = Inr (lines_of b content ! (n + i)) \<and> line_stands content b (snd (items ! i)) (Suc (n + i)))
           \<and> (logs = items \<and> whole_download content d \<and> m = length (lines_of b content) \<and> line_stands content b fin m
              \<or> (\<exists>e q. logs = items @ [(Inl e, q)] \<and> \<not> whole_download content d \<and> retryable e \<and> line_stands content b q m)))"
    using logs ret fin by (intro exI [of _ "n + length its"] conjI exI [of _ ?items]) auto
qed


section \<open>The records are the lines\<close>

lemma lines_of_lines:
  assumes "\<forall>l\<in>set (split_lf s). length l < buf_len b"
  shows "lines_of b s = filter (\<lambda>l. l \<noteq> []) (map strip_cr (split_lf s))"
proof -
  let ?raw = "\<lparr>raw_readErr = None, raw_atEOF = True, raw_offset = 0, raw_expectedSize = 0\<rparr>"
  have "map fst (fst (line_events ?raw ErrEOF b False off s)) = map Inr (lines_of b s)" for off
  proof (induction b s arbitrary: off rule: lines_of.induct)
    case (1 b s)
    show ?case
    proof (cases "next_line (buf_len b) False s")
      case None
      then show ?thesis
        by (simp add: line_events.simps [of _ _ b] lines_of.simps [of b] line_tail_def errors_Is_def RawTruncated_def)
    next
      case (Some lk)
      obtain l k where lk: "lk = (l, k)" by fastforce
      obtain its fin where rest: "line_events ?raw ErrEOF b False (off + int k) (drop k s) = (its, fin)" by fastforce
      from 1 [OF Some lk [symmetric], of "off + int k"] Some lk rest show ?thesis
        by (simp add: line_events.simps [of _ _ b _ off s] lines_of.simps [of b s])
    qed
  qed
  moreover have "map fst (fst (line_events ?raw ErrEOF b False 0 s)) =
      map Inr (filter (\<lambda>l. l \<noteq> []) (map strip_cr (split_lf s)))"
    by (rule line_events_lines) (use assms in \<open>simp_all add: errors_Is_def RawTruncated_def\<close>)
  ultimately show ?thesis by (metis inj_Inr inj_map_eq_map)
qed

section \<open>Exactly once\<close>

definition unread_object :: "string \<Rightarrow> ('dl, 'b) object_world \<Rightarrow> bool" where
  "unread_object version w =
     (\<not> ow_acked w \<and> ow_batches w = [] \<and> (case ow_stored w of None \<Rightarrow> True | Some s \<Rightarrow> so_Version s \<noteq> version))"

lemma unread_undelivered:
  assumes "unread_object version w"
  shows "text_object.undelivered content b version w"
  using assms
  by (auto simp: text_object.undelivered_def text_object.stored_at_def unread_object_def split: option.splits)



text \<open>A save that fails is only logged: the next delivery begins at the last offset that was saved.\<close>

lemma failed_save_repeats:
  assumes "ow_saves w = Some e # rest"
  shows "ow_stored (checkpoint (object_service records body permanent version) wk pos w) = ow_stored w"
  using assms by (simp add: save_offset_def)

section \<open>The properties at work\<close>

definition sample_text :: bytes where
  "sample_text = ''a'' @ LF # ''b'' @ LF # ''c''"

definition sample_delivery :: "nat \<Rightarrow> download delivery" where
  "sample_delivery n =
     \<lparr>dv_download = \<lparr>dl_received = n, dl_err = None, dl_withLast = False\<rparr>, dv_getErr = None, dv_loadErr = None,
      dv_readerErr = (\<lambda>_. None), dv_producerErr = (\<lambda>_. None), dv_answers = [], dv_saves = [], dv_waits = [], dv_ctxEnded = False,
      dv_ackErr = None, dv_deleteErr = None, dv_again = False\<rparr>"

definition refused_delivery :: "nat \<Rightarrow> download delivery" where
  "refused_delivery n = (sample_delivery n)\<lparr>dv_answers := [None, Some (ErrOther ''refused'')], dv_ctxEnded := True\<rparr>"

definition new_object :: "(download, bytes) object_world" where
  "new_object =
     \<lparr>ow_delivery = sample_delivery 0, ow_answers = [], ow_saves = [],
      ow_stored = Some \<lparr>so_Offset = NewOffset 4, so_Version = ''older''\<rparr>, ow_batches = [], ow_acked = False\<rparr>"

lemma sample_lines_of: "lines_of 64 sample_text = [''a'', ''b'', ''c'']"
  by (subst lines_of_lines) (simp_all add: sample_text_def strip_cr_def buf_len_def)

lemma sample_faults:
  "\<forall>d\<in>set [refused_delivery 5, sample_delivery 3, sample_delivery 5]. honest_download sample_text (dv_download d)"
  "\<exists>d\<in>set [refused_delivery 5, sample_delivery 3, sample_delivery 5]. calm (whole_download sample_text) d"
  "\<forall>d\<in>set [refused_delivery 5, sample_delivery 3, sample_delivery 5]. set (dv_saves d) \<subseteq> {None} \<and> \<not> dv_again d"
  by (auto simp: refused_delivery_def sample_delivery_def honest_download_def whole_download_def calm_def sample_text_def)

definition sample_worker :: s3_worker where
  "sample_worker =
     \<lparr>s3_cfg = \<lparr>wc_maxLogsEmitted = 1, wc_retryEnabled = False\<rparr>, s3_bucketNameFilter = None, s3_objectKeyFilter = None,
      s3_notificationType = ''s3'', s3_visibilityTimeout = 300 * second, s3_visibilityExtensionInterval = 60 * second,
      s3_maxVisibilityWindow = 3600 * second\<rparr>"

definition sample_aws :: aws_errors where
  "sample_aws = \<lparr>ae_APIErrorCode = (\<lambda>_. None), ae_NoSuchKey = (\<lambda>_. False), ae_Error = (\<lambda>_. [])\<rparr>"

definition sample_json :: notification_json where
  "sample_json =
     \<lparr>nj_SNS = (\<lambda>_. None),
      nj_S3Event = (\<lambda>_. Some [\<lparr>sr_EventName = ''ObjectCreated:Put'', sr_Bucket = ''b'', sr_Key = ''my+key''\<rparr>])\<rparr>"

lemma sample_names_one: "names_one_object sample_worker sample_json []"
  by (simp add: names_one_object_def getParseFuncForNotificationType_def parseS3Event_def sample_worker_def sample_json_def
      objectCreatedRecords_def has_prefix_def matches_def)

lemma new_object_unread: "unread_object ''v1'' new_object"
  by (simp add: unread_object_def new_object_def)


definition sample_gcs :: gcs_worker where
  "sample_gcs =
     \<lparr>gw_cfg = \<lparr>wc_maxLogsEmitted = 2, wc_retryEnabled = True\<rparr>, gw_bucketNameFilter = None, gw_objectKeyFilter = None\<rparr>"

definition sample_gcs_errors :: gcs_errors where
  "sample_gcs_errors = \<lparr>ge_ErrObjectNotExist = ErrOther ''absent'', ge_APIErrorCode = (\<lambda>_. None)\<rparr>"

definition sample_message :: PullMessage where
  "sample_message = \<lparr>pm_eventType = ''OBJECT_FINALIZE'', pm_bucketId = ''b'', pm_objectId = ''k''\<rparr>"

lemma sample_passes: "passes sample_gcs sample_message"
  by (simp add: passes_def sample_gcs_def sample_message_def gcs_matches_def)


end
