(* ===== verification/GcsReceiver.thy ===== *)
theory GcsReceiver
  imports GcsWorker "HOL-Library.Multiset"
begin

text \<open>
  The Pub/Sub event receiver around its workers (\<open>receiver/gcspubsubeventreceiver/receiver.go\<close>):
  pulling, the two layers of deduplication, dispatch to the workers, and what a worker reports back.
\<close>

section \<open>Recently processed objects\<close>

record objectKey =
  ok_Bucket :: string
  ok_Object :: string
  ok_Generation :: string

record pulled_message =
  pl_AckID :: string
  pl_msg :: PullMessage
  pl_generation :: string

definition objectKeyFromAttrs :: "pulled_message \<Rightarrow> objectKey" where
  "objectKeyFromAttrs m =
     \<lparr>ok_Bucket = pm_bucketId (pl_msg m), ok_Object = pm_objectId (pl_msg m), ok_Generation = pl_generation m\<rparr>"

record recentTracker =
  rt_seen :: "objectKey \<rightharpoonup> gotime"
  rt_ttl :: duration

definition newRecentTracker :: "duration \<Rightarrow> recentTracker" where
  "newRecentTracker ttl = \<lparr>rt_seen = Map.empty, rt_ttl = ttl\<rparr>"

definition recent_Mark :: "gotime \<Rightarrow> objectKey \<Rightarrow> recentTracker \<Rightarrow> recentTracker" where
  "recent_Mark now key rt = rt\<lparr>rt_seen := (rt_seen rt)(key \<mapsto> now)\<rparr>"

definition recent_IsDuplicate :: "gotime \<Rightarrow> objectKey \<Rightarrow> recentTracker \<Rightarrow> bool \<times> recentTracker" where
  "recent_IsDuplicate now key rt =
     (case rt_seen rt key of
        None \<Rightarrow> (False, rt)
      | Some t \<Rightarrow> if now - t < rt_ttl rt then (True, rt) else (False, rt\<lparr>rt_seen := (rt_seen rt)(key := None)\<rparr>))"

definition recent_Evict :: "gotime \<Rightarrow> recentTracker \<Rightarrow> recentTracker" where
  "recent_Evict now rt =
     rt\<lparr>rt_seen := (\<lambda>k. case rt_seen rt k of Some t \<Rightarrow> if now - t \<ge> rt_ttl rt then None else Some t | None \<Rightarrow> None)\<rparr>"

section \<open>One pull\<close>

text \<open>The messages of a batch that are kept and those that are acknowledged as duplicates.\<close>

fun batch_dedup :: "objectKey list \<Rightarrow> pulled_message list \<Rightarrow> pulled_message list \<times> pulled_message list" where
  "batch_dedup seen [] = ([], [])"
| "batch_dedup seen (m # ms) =
     (if objectKeyFromAttrs m \<in> set seen
      then (case batch_dedup seen ms of (unique, acked) \<Rightarrow> (unique, m # acked))
      else (case batch_dedup (objectKeyFromAttrs m # seen) ms of (unique, acked) \<Rightarrow> (m # unique, acked)))"

definition batchDedup :: "pulled_message list \<Rightarrow> pulled_message list \<times> pulled_message list" where
  "batchDedup msgs = batch_dedup [] msgs"

text \<open>
  The loop that dispatches: what goes to the workers and what is acknowledged, until the context
  ends; \<open>room\<close> is how many messages the workers take before it does.
\<close>

fun dispatch ::
    "gotime \<Rightarrow> nat \<Rightarrow> pulled_message list \<Rightarrow> recentTracker \<Rightarrow> (pulled_message list \<times> pulled_message list) \<times> recentTracker" where
  "dispatch now room [] rt = (([], []), rt)"
| "dispatch now room (m # ms) rt =
     (case recent_IsDuplicate now (objectKeyFromAttrs m) rt of
        (True, rt1) \<Rightarrow> (case dispatch now room ms rt1 of ((sent, acked), rt2) \<Rightarrow> ((sent, m # acked), rt2))
      | (False, rt1) \<Rightarrow>
          (case room of
             0 \<Rightarrow> (([], []), rt1)
           | Suc n \<Rightarrow> (case dispatch now n ms rt1 of ((sent, acked), rt2) \<Rightarrow> ((m # sent, acked), rt2))))"

definition pullMessages ::
    "gotime \<Rightarrow> nat \<Rightarrow> pulled_message list option \<Rightarrow> recentTracker
      \<Rightarrow> (pulled_message list \<times> pulled_message list) \<times> recentTracker" where
  "pullMessages now room response rt =
     (case response of
        None \<Rightarrow> (([], []), rt)
      | Some received \<Rightarrow>
          (case batchDedup received of
             (unique, dups) \<Rightarrow>
               (case dispatch now room unique rt of ((sent, acked), rt1) \<Rightarrow> ((sent, dups @ acked), rt1))))"

text \<open>One turn of \<open>runWorker\<close>.\<close>

definition runWorker_turn ::
    "gcs_worker \<Rightarrow> gcs_errors \<Rightarrow> ('obj, 'r, 'b, 'w) worker_outside \<Rightarrow> gotime \<Rightarrow> pulled_message \<Rightarrow> recentTracker \<times> 'w
      \<Rightarrow> recentTracker \<times> 'w" where
  "runWorker_turn wk ge out now m s =
     (case s of (rt, w) \<Rightarrow>
        (case gcs_ProcessMessage wk ge out (pl_msg m) w of
           (processed, w1) \<Rightarrow> (if processed then recent_Mark now (objectKeyFromAttrs m) rt else rt, w1)))"

section \<open>What deduplication drops\<close>

definition recent :: "gotime \<Rightarrow> recentTracker \<Rightarrow> objectKey \<Rightarrow> bool" where
  "recent now rt k = (case rt_seen rt k of Some t \<Rightarrow> now - t < rt_ttl rt | None \<Rightarrow> False)"

lemma batch_dedup_exact:
  assumes "batch_dedup seen ms = (unique, acked)"
  shows "distinct (map objectKeyFromAttrs unique)" and "set (map objectKeyFromAttrs unique) \<inter> set seen = {}"
    and "mset ms = mset unique + mset acked"
    and "\<forall>m\<in>set acked. objectKeyFromAttrs m \<in> set seen \<union> objectKeyFromAttrs ` set unique"
  using assms
proof (induction seen ms arbitrary: unique acked rule: batch_dedup.induct)
  case (2 seen m ms)
  { case 1 then show ?case using 2 by (auto split: if_splits prod.splits) }
  { case 2 then show ?case using "2.IH" by (fastforce split: if_splits prod.splits) }
  { case 3 then show ?case using 2 by (auto split: if_splits prod.splits) }
  { case 4 then show ?case using 2 by (fastforce split: if_splits prod.splits) }
qed auto

lemma IsDuplicate_recent:
  "fst (recent_IsDuplicate now k rt) = recent now rt k"
  "recent now (snd (recent_IsDuplicate now k rt)) k' = recent now rt k'"
  by (auto simp: recent_IsDuplicate_def recent_def split: option.splits)

lemma dispatch_exact:
  assumes "dispatch now room ms rt = ((sent, acked), rt1)"
  shows "sent = take room (filter (\<lambda>m. \<not> recent now rt (objectKeyFromAttrs m)) ms)
    \<and> (\<forall>m\<in>set acked. m \<in> set ms \<and> recent now rt (objectKeyFromAttrs m))"
  using assms
proof (induction now room ms rt arbitrary: sent acked rt1 rule: dispatch.induct)
  case (2 now room m ms rt)
  obtain d rt' where dup: "recent_IsDuplicate now (objectKeyFromAttrs m) rt = (d, rt')" by fastforce
  have d: "d = recent now rt (objectKeyFromAttrs m)" and same: "\<And>k. recent now rt' k = recent now rt k"
    using IsDuplicate_recent [of now "objectKeyFromAttrs m" rt] dup by auto
  show ?case
  proof (cases d)
    case True
    from 2(3) dup True obtain sent' acked' where r: "dispatch now room ms rt' = ((sent', acked'), rt1)"
        "sent = sent'" "acked = m # acked'"
      by (auto split: prod.splits)
    from 2(1) [OF dup [symmetric] _ r(1)] True r d same show ?thesis by auto
  next
    case False
    show ?thesis
    proof (cases room)
      case 0
      with 2(3) dup False show ?thesis by simp
    next
      case (Suc n)
      with 2(3) dup False obtain sent' where r: "dispatch now n ms rt' = ((sent', acked), rt1)" "sent = m # sent'"
        by (auto split: prod.splits)
      from 2(2) [OF dup [symmetric] _ Suc r(1)] False r d same Suc show ?thesis by auto
    qed
  qed
qed simp

text \<open>
  C36. Deduplication drops only what is also kept. Of a pull, the messages that go to the workers
  have different objects, none of which was processed within the window, and a message that is
  acknowledged without being processed has the object and generation of one that was kept from the
  same pull, or of one processed within the window; if the workers take what they are offered, every
  object of the pull is dispatched or was processed within the window.
\<close>

theorem dedup_keeps_one:
  assumes "pullMessages now room (Some received) rt = ((sent, acked), rt1)"
  shows "distinct (map objectKeyFromAttrs sent)
    \<and> (\<forall>m\<in>set sent. m \<in> set received \<and> \<not> recent now rt (objectKeyFromAttrs m))
    \<and> (\<forall>m\<in>set acked. m \<in> set received \<and>
         ((\<exists>k\<in>set (fst (batchDedup received)). objectKeyFromAttrs k = objectKeyFromAttrs m)
          \<or> recent now rt (objectKeyFromAttrs m)))
    \<and> (length received \<le> room \<longrightarrow>
         (\<forall>m\<in>set received. recent now rt (objectKeyFromAttrs m) \<or> objectKeyFromAttrs m \<in> objectKeyFromAttrs ` set sent))"
proof -
  obtain unique dups where b: "batch_dedup [] received = (unique, dups)" by fastforce
  obtain sent' acked' where d: "dispatch now room unique rt = ((sent', acked'), rt1)" "sent = sent'" "acked = dups @ acked'"
    using assms b by (auto simp: pullMessages_def batchDedup_def split: prod.splits)
  note bd = batch_dedup_exact [OF b] and ds = dispatch_exact [OF d(1)]
  have all: "set received = set unique \<union> set dups" by (metis bd(3) set_mset_mset set_mset_union)
  have len: "length unique \<le> length received" by (metis bd(3) le_add1 length_append size_mset size_union)
  have sent: "sent = take room (filter (\<lambda>m. \<not> recent now rt (objectKeyFromAttrs m)) unique)" using ds d(2) by simp
  have "distinct (map objectKeyFromAttrs sent)"
    unfolding sent take_map [symmetric] by (rule distinct_take) (rule distinct_map_filter [OF bd(1)])
  moreover have "\<forall>m\<in>set sent. m \<in> set received \<and> \<not> recent now rt (objectKeyFromAttrs m)"
    using sent all by (auto dest!: in_set_takeD)
  moreover have "\<forall>m\<in>set acked. m \<in> set received \<and>
         ((\<exists>k\<in>set (fst (batchDedup received)). objectKeyFromAttrs k = objectKeyFromAttrs m)
          \<or> recent now rt (objectKeyFromAttrs m))"
    using d(3) bd(4) ds all b by (fastforce simp: batchDedup_def)
  moreover have "recent now rt (objectKeyFromAttrs m) \<or> objectKeyFromAttrs m \<in> objectKeyFromAttrs ` set sent"
    if "length received \<le> room" "m \<in> set received" for m
  proof -
    have "length (filter (\<lambda>m. \<not> recent now rt (objectKeyFromAttrs m)) unique) \<le> room"
      using that(1) len length_filter_le [of "\<lambda>m. \<not> recent now rt (objectKeyFromAttrs m)" unique] by linarith
    then have "sent = filter (\<lambda>m. \<not> recent now rt (objectKeyFromAttrs m)) unique" using sent by simp
    moreover have "objectKeyFromAttrs m \<in> objectKeyFromAttrs ` set unique" using that(2) all bd(4) by auto
    ultimately show ?thesis by auto
  qed
  ultimately show ?thesis by blast
qed

section \<open>An event that hides another\<close>

definition about :: "string \<Rightarrow> string \<Rightarrow> pulled_message" where
  "about ack event =
     \<lparr>pl_AckID = ack, pl_msg = \<lparr>pm_eventType = event, pm_bucketId = ''b'', pm_objectId = ''k''\<rparr>, pl_generation = ''1''\<rparr>"

text \<open>
  The key of the deduplication does not hold the type of the event: when the change of an object's
  metadata comes in the same pull before the notification that the object was written, the latter
  is acknowledged as a duplicate, and the former is skipped by the worker.
\<close>

theorem metadata_event_hides_object:
  "pullMessages now 10 (Some [about ''1'' ''OBJECT_METADATA_UPDATE'', about ''2'' ''OBJECT_FINALIZE'']) (newRecentTracker ttl)
     = (([about ''1'' ''OBJECT_METADATA_UPDATE''], [about ''2'' ''OBJECT_FINALIZE'']), newRecentTracker ttl)
   \<and> gcs_ProcessMessage wk ge out (pl_msg (about ''1'' ''OBJECT_METADATA_UPDATE'')) w = (False, snd (wo_Ack out w))"
  by (simp add: pullMessages_def batchDedup_def about_def objectKeyFromAttrs_def recent_IsDuplicate_def
      newRecentTracker_def gcs_ProcessMessage_def eval_nat_numeral)

theorem dedup_keeps_one_witness:
  "distinct (map objectKeyFromAttrs (fst (fst (pullMessages 0 5 (Some [about ''1'' ''OBJECT_FINALIZE'', about ''2'' ''OBJECT_FINALIZE''])
     (newRecentTracker 60)))))"
proof -
  obtain sent acked rt1 where run: "pullMessages 0 5 (Some [about ''1'' ''OBJECT_FINALIZE'', about ''2'' ''OBJECT_FINALIZE''])
     (newRecentTracker 60) = ((sent, acked), rt1)" by (metis prod.collapse)
  show ?thesis using dedup_keeps_one [OF run] unfolding run by simp
qed

end
