(* ===== verification/EventExtension.thy ===== *)
theory EventExtension
  imports S3Worker "HOL-Library.Sublist"
begin

text \<open>
  The S3 event extension (\<open>extension/awss3eventextension\<close>) and what it shares with the S3 event
  receiver (\<open>internal/aws/event\<close>, \<open>internal/aws/backoff\<close>): the objects an event names, where they are
  downloaded to, when a message is deleted, and the polling of the queue.
\<close>

section \<open>Events\<close>

record S3Object =
  ob_EventType :: string
  ob_Bucket :: string
  ob_Key :: string
  ob_Size :: int

record FDRFile =
  fdr_Path :: string
  fdr_Size :: int

datatype unmarshal_error = BadJSON | ErrNoObjects

text \<open>\<open>url.PathUnescape\<close>: as \<open>QueryUnescape\<close>, but a plus sign stays.\<close>

fun PathUnescape :: "string \<Rightarrow> string option" where
  "PathUnescape [] = Some []"
| "PathUnescape (c # s) =
     (if c = CHR ''%'' then
        (case s of
           a # b # t \<Rightarrow>
             (case (query_hex a, query_hex b) of
                (Some x, Some y) \<Rightarrow> map_option (\<lambda>u. char_of (16 * x + y) # u) (PathUnescape t)
              | _ \<Rightarrow> None)
         | _ \<Rightarrow> None)
      else map_option (\<lambda>u. c # u) (PathUnescape s))"

text \<open>\<open>s3Unmarshaler.Unmarshal\<close>; a record of the event is an object with its key still escaped.\<close>

fun created_objects :: "S3Object list \<Rightarrow> S3Object list" where
  "created_objects [] = []"
| "created_objects (record # rs) =
     (if str_contains (ob_EventType record) ''ObjectCreated:'' then
        (case PathUnescape (ob_Key record) of
           None \<Rightarrow> created_objects rs
         | Some key \<Rightarrow> record\<lparr>ob_Key := key\<rparr> # created_objects rs)
      else created_objects rs)"

definition s3Unmarshaler_Unmarshal :: "(bytes \<Rightarrow> S3Object list option) \<Rightarrow> bytes \<Rightarrow> unmarshal_error + S3Object list" where
  "s3Unmarshaler_Unmarshal json body =
     (case json body of
        None \<Rightarrow> Inl BadJSON
      | Some records \<Rightarrow> if length records = 0 then Inl ErrNoObjects else Inr (created_objects records))"

text \<open>\<open>FDRUnmarshaler.Unmarshal\<close>: a path that does not unescape leaves the zero object in its place.\<close>

definition fdr_object :: "string \<Rightarrow> FDRFile \<Rightarrow> S3Object" where
  "fdr_object bucket file =
     (case PathUnescape (fdr_Path file) of
        None \<Rightarrow> \<lparr>ob_EventType = [], ob_Bucket = [], ob_Key = [], ob_Size = 0\<rparr>
      | Some path \<Rightarrow> \<lparr>ob_EventType = [], ob_Bucket = bucket, ob_Key = path, ob_Size = fdr_Size file\<rparr>)"

definition FDRUnmarshaler_Unmarshal ::
    "(bytes \<Rightarrow> (string \<times> FDRFile list) option) \<Rightarrow> bytes \<Rightarrow> unmarshal_error + S3Object list" where
  "FDRUnmarshaler_Unmarshal json body =
     (case json body of
        None \<Rightarrow> Inl BadJSON
      | Some (bucket, files) \<Rightarrow> if length files = 0 then Inl ErrNoObjects else Inr (map (fdr_object bucket) files))"

section \<open>Paths\<close>

text \<open>\<open>path/filepath\<close> on Unix: \<open>Clean\<close>, \<open>Join\<close>, \<open>Dir\<close> and \<open>Base\<close>.\<close>

fun path_elems :: "string \<Rightarrow> string list" where
  "path_elems [] = [[]]"
| "path_elems (c # s) =
     (if c = CHR ''/'' then [] # path_elems s
      else (case path_elems s of e # es \<Rightarrow> (c # e) # es | [] \<Rightarrow> [[c]]))"

fun clean_elems :: "bool \<Rightarrow> string list \<Rightarrow> string list \<Rightarrow> string list" where
  "clean_elems rooted out [] = out"
| "clean_elems rooted out (e # es) =
     (if e = [] \<or> e = ''.'' then clean_elems rooted out es
      else if e = ''..'' then
        (if out \<noteq> [] \<and> last out \<noteq> ''..'' then clean_elems rooted (butlast out) es
         else if rooted then clean_elems rooted out es
         else clean_elems rooted (out @ [e]) es)
      else clean_elems rooted (out @ [e]) es)"

fun join_slash :: "string list \<Rightarrow> string" where
  "join_slash [] = []"
| "join_slash [e] = e"
| "join_slash (e # es) = e @ CHR ''/'' # join_slash es"

definition path_Clean :: "string \<Rightarrow> string" where
  "path_Clean path =
     (let rooted = (path \<noteq> [] \<and> hd path = CHR ''/'');
          out = (if rooted then ''/'' else []) @ join_slash (clean_elems rooted [] (path_elems path))
      in if out = [] then ''.'' else out)"

definition path_Join :: "string list \<Rightarrow> string" where
  "path_Join elems =
     (let es = dropWhile (\<lambda>e. e = []) elems in if es = [] then [] else path_Clean (join_slash es))"

definition path_Dir :: "string \<Rightarrow> string" where
  "path_Dir path = path_Clean (rev (dropWhile (\<lambda>c. c \<noteq> CHR ''/'') (rev path)))"

definition path_Base :: "string \<Rightarrow> string" where
  "path_Base path =
     (if path = [] then ''.''
      else (let p = rev (dropWhile (\<lambda>c. c = CHR ''/'') (rev path)); b = rev (takeWhile (\<lambda>c. c \<noteq> CHR ''/'') (rev p))
            in if b = [] then ''/'' else b))"

section \<open>Downloads\<close>

record 'w ext_outside =
  xo_MkdirAll :: "string \<Rightarrow> 'w \<Rightarrow> go_error option \<times> 'w"
  xo_Create :: "string \<Rightarrow> 'w \<Rightarrow> go_error option \<times> 'w"
  xo_Download :: "string \<Rightarrow> string \<Rightarrow> string \<Rightarrow> 'w \<Rightarrow> (go_error + int) \<times> 'w"
  xo_Close :: "string \<Rightarrow> 'w \<Rightarrow> go_error option \<times> 'w"
  xo_Remove :: "string \<Rightarrow> 'w \<Rightarrow> go_error option \<times> 'w"
  xo_Rename :: "string \<Rightarrow> string \<Rightarrow> 'w \<Rightarrow> go_error option \<times> 'w"
  xo_DeleteMessage :: "'w \<Rightarrow> go_error option \<times> 'w"
  xo_Error :: "go_error \<Rightarrow> string"

definition downloadObject :: "'w ext_outside \<Rightarrow> string \<Rightarrow> S3Object \<Rightarrow> 'w \<Rightarrow> go_error option \<times> 'w" where
  "downloadObject out directory obj w =
     (let bucketDir = path_Join [directory, ob_Bucket obj]
      in case xo_MkdirAll out bucketDir w of
           (Some err, w1) \<Rightarrow> (Some (ErrWrapped ''create bucket directory'' err), w1)
         | (None, w1) \<Rightarrow>
             (let filePath = path_Join [bucketDir, ob_Key obj];
                  filePathDir = path_Dir filePath;
                  filePathBase = path_Base filePath
              in case (if filePathDir \<noteq> bucketDir then xo_MkdirAll out filePathDir w1 else (None, w1)) of
                   (Some err, w2) \<Rightarrow> (Some (ErrWrapped ''create object directory'' err), w2)
                 | (None, w2) \<Rightarrow>
                     (let tmp = path_Join [filePathDir, filePathBase @ ''.bptmp'']
                      in case xo_Create out tmp w2 of
                           (Some err, w3) \<Rightarrow> (Some (ErrWrapped ''create temp file'' err), w3)
                         | (None, w3) \<Rightarrow>
                             (case xo_Download out tmp (ob_Bucket obj) (ob_Key obj) w3 of
                                (Inl err, w4) \<Rightarrow> (Some (ErrWrapped ''download object'' err), w4)
                              | (Inr numBytes, w4) \<Rightarrow>
                                  (case xo_Close out tmp w4 of
                                     (Some err, w5) \<Rightarrow> (Some (ErrWrapped ''close temp file'' err), w5)
                                   | (None, w5) \<Rightarrow>
                                       if numBytes \<noteq> ob_Size obj then
                                         (case xo_Remove out tmp w5 of (rmErr, w6) \<Rightarrow> (Some (ErrOther ''size mismatch''), w6))
                                       else (case xo_Rename out tmp filePath w5 of
                                               (Some err, w6) \<Rightarrow> (Some (ErrWrapped ''rename temp file'' err), w6)
                                             | (None, w6) \<Rightarrow> (None, w6)))))))"

text \<open>The loop over the objects of a message: whether one of them was not found.\<close>

fun download_all :: "'w ext_outside \<Rightarrow> string \<Rightarrow> S3Object list \<Rightarrow> bool \<Rightarrow> 'w \<Rightarrow> bool \<times> 'w" where
  "download_all out directory [] noSuchKeyError w = (noSuchKeyError, w)"
| "download_all out directory (obj # objs) noSuchKeyError w =
     (case downloadObject out directory obj w of
        (Some err, w1) \<Rightarrow>
          download_all out directory objs (noSuchKeyError \<or> str_contains (xo_Error out err) ''NoSuchKey'') w1
      | (None, w1) \<Rightarrow> download_all out directory objs noSuchKeyError w1)"

definition ext_ProcessMessage ::
    "'w ext_outside \<Rightarrow> (bytes \<Rightarrow> unmarshal_error + S3Object list) \<Rightarrow> string \<Rightarrow> bytes \<Rightarrow> 'w \<Rightarrow> 'w" where
  "ext_ProcessMessage out unmarshal directory body w =
     (case unmarshal body of
        Inl err \<Rightarrow> snd (xo_DeleteMessage out w)
      | Inr objects \<Rightarrow>
          if length objects = 0 then snd (xo_DeleteMessage out w)
          else (case download_all out directory objects False w of
                  (noSuchKeyError, w1) \<Rightarrow> if noSuchKeyError then w1 else snd (xo_DeleteMessage out w1)))"

section \<open>Polling\<close>

record Backoff =
  bk_standardInterval :: duration
  bk_maxInterval :: duration
  bk_currentInterval :: duration

definition New_Backoff :: "duration \<Rightarrow> duration \<Rightarrow> Backoff" where
  "New_Backoff standardPollInterval maxPollInterval =
     \<lparr>bk_standardInterval = standardPollInterval, bk_maxInterval = maxPollInterval,
      bk_currentInterval = standardPollInterval\<rparr>"

text \<open>\<open>scaled\<close> is the product with the back-off factor in floating point.\<close>

definition Backoff_Update :: "(duration \<Rightarrow> duration) \<Rightarrow> nat \<Rightarrow> Backoff \<Rightarrow> duration \<times> Backoff" where
  "Backoff_Update scaled numMessages b =
     (if numMessages > 0 then (bk_standardInterval b, b\<lparr>bk_currentInterval := bk_standardInterval b\<rparr>)
      else (let next' = scaled (bk_currentInterval b)
            in if next' < bk_maxInterval b then (next', b\<lparr>bk_currentInterval := next'\<rparr>)
               else (bk_maxInterval b, b\<lparr>bk_currentInterval := bk_maxInterval b\<rparr>)))"

text \<open>The loop of \<open>poll\<close>: the intervals set after polls that received so many messages.\<close>

fun poll_intervals :: "(duration \<Rightarrow> duration) \<Rightarrow> nat list \<Rightarrow> Backoff \<Rightarrow> duration list" where
  "poll_intervals scaled [] b = []"
| "poll_intervals scaled (n # ns) b =
     (case Backoff_Update scaled n b of (interval, b1) \<Rightarrow> interval # poll_intervals scaled ns b1)"

text \<open>
  \<open>receiveMessages\<close>: the responses of the queue in turn, \<open>None\<close> a failed call; \<open>room\<close> is how many
  messages the workers take before the context ends. With the messages queued and the number returned.
\<close>

fun s3_receiveMessages :: "nat \<Rightarrow> 'm list option list \<Rightarrow> 'm list \<times> nat" where
  "s3_receiveMessages room [] = ([], 0)"
| "s3_receiveMessages room (None # rs) = ([], 0)"
| "s3_receiveMessages room (Some msgs # rs) =
     (if length msgs = 0 then ([], 0)
      else if length msgs > room then (take room msgs, room)
      else (case s3_receiveMessages (room - length msgs) rs of (queued, n) \<Rightarrow> (msgs @ queued, length msgs + n)))"

fun ext_receiveMessages :: "nat \<Rightarrow> 'm list option list \<Rightarrow> 'm list \<times> nat" where
  "ext_receiveMessages room [] = ([], 0)"
| "ext_receiveMessages room (None # rs) = ([], 0)"
| "ext_receiveMessages room (Some msgs # rs) =
     (if length msgs = 0 then ([], 0)
      else if length msgs > room then (take room msgs, length msgs)
      else (case ext_receiveMessages (room - length msgs) rs of (queued, n) \<Rightarrow> (msgs @ queued, length msgs + n)))"


section \<open>Where downloads go\<close>

definition path_rooted :: "string \<Rightarrow> bool" where
  "path_rooted p = (p \<noteq> [] \<and> hd p = CHR ''/'')"

text \<open>The elements of a path once it is cleaned.\<close>

definition elems_of :: "string \<Rightarrow> string list" where
  "elems_of p = clean_elems (path_rooted p) [] (path_elems p)"

definition no_slash :: "string \<Rightarrow> bool" where
  "no_slash e = (CHR ''/'' \<notin> set e)"

definition real_elem :: "string \<Rightarrow> bool" where
  "real_elem e = (e \<noteq> [] \<and> e \<noteq> ''.'')"

text \<open>Cleaned elements: no empty ones, and those that lead up only at the beginning of a relative path.\<close>

definition cleaned :: "bool \<Rightarrow> string list \<Rightarrow> bool" where
  "cleaned rooted es =
     ((\<forall>e\<in>set es. real_elem e \<and> no_slash e)
      \<and> (\<exists>k ys. es = replicate k ''..'' @ ys \<and> ''..'' \<notin> set ys \<and> (rooted \<longrightarrow> k = 0)))"

lemma path_elems_nonempty: "path_elems s \<noteq> []"
  by (cases s) (auto split: list.splits)

lemma path_elems_no_slash: "e \<in> set (path_elems s) \<Longrightarrow> no_slash e"
proof (induction s arbitrary: e)
  case (Cons c s)
  then show ?case
    by (cases "path_elems s") (auto simp: no_slash_def path_elems_nonempty split: if_splits)
qed (simp add: no_slash_def)

lemma path_elems_slash: "path_elems (u @ CHR ''/'' # s) = path_elems u @ path_elems s"
proof (induction u)
  case (Cons c u)
  then show ?case using path_elems_nonempty [of u] by (auto split: list.splits)
qed simp

lemma path_elems_single: "no_slash e \<Longrightarrow> path_elems e = [e]"
  by (induction e) (auto simp: no_slash_def)

lemma path_elems_join: "es \<noteq> [] \<Longrightarrow> \<forall>e\<in>set es. no_slash e \<Longrightarrow> path_elems (join_slash es) = es"
  by (induction es rule: join_slash.induct) (simp_all add: path_elems_single path_elems_slash)

lemma join_slash_snoc: "es \<noteq> [] \<Longrightarrow> join_slash (es @ [x]) = join_slash es @ CHR ''/'' # x"
  by (induction es rule: join_slash.induct) auto

lemma clean_elems_append: "clean_elems r out (xs @ ys) = clean_elems r (clean_elems r out xs) ys"
  by (induction r out xs rule: clean_elems.induct) auto

lemma clean_elems_down:
  "''..'' \<notin> set es \<Longrightarrow> clean_elems r out es = out @ filter real_elem es"
  by (induction r out es rule: clean_elems.induct) (auto simp: real_elem_def)

lemma cleanedI:
  "\<forall>e\<in>set es. real_elem e \<and> no_slash e \<Longrightarrow> es = replicate k ''..'' @ ys \<Longrightarrow> ''..'' \<notin> set ys \<Longrightarrow> (rooted \<Longrightarrow> k = 0) \<Longrightarrow>
     cleaned rooted es"
  unfolding cleaned_def by blast

lemma cleanedE:
  assumes "cleaned rooted es"
  obtains k ys where "\<forall>e\<in>set es. real_elem e \<and> no_slash e" "es = replicate k ''..'' @ ys" "''..'' \<notin> set ys" "rooted \<Longrightarrow> k = 0"
  using assms unfolding cleaned_def by blast

lemma cleaned_snoc:
  assumes "cleaned r out" and "real_elem e" and "no_slash e" and "e \<noteq> ''..''"
  shows "cleaned r (out @ [e])"
  using assms(1)
proof (rule cleanedE)
  fix k ys
  assume "\<forall>e\<in>set out. real_elem e \<and> no_slash e" "out = replicate k ''..'' @ ys" "''..'' \<notin> set ys" "r \<Longrightarrow> k = 0"
  with assms(2-4) show ?thesis by (intro cleanedI [of _ k "ys @ [e]"]) auto
qed

lemma cleaned_up:
  assumes "cleaned r out" and "out = [] \<or> last out = ''..''" and "\<not> r"
  shows "cleaned r (out @ [''..''])"
  using assms(1)
proof (rule cleanedE)
  fix k ys
  assume out: "\<forall>e\<in>set out. real_elem e \<and> no_slash e" "out = replicate k ''..'' @ ys" "''..'' \<notin> set ys" "r \<Longrightarrow> k = 0"
  have "ys = []" using out(2,3) assms(2) by (cases ys rule: rev_cases) auto
  with out assms(3) show ?thesis
    by (intro cleanedI [of _ "Suc k" "[]"]) (auto simp: real_elem_def no_slash_def replicate_append_same)
qed

lemma cleaned_butlast:
  assumes "cleaned r out"
  shows "cleaned r (butlast out)"
  using assms
proof (rule cleanedE)
  fix k ys
  assume out: "\<forall>e\<in>set out. real_elem e \<and> no_slash e" "out = replicate k ''..'' @ ys" "''..'' \<notin> set ys" "r \<Longrightarrow> k = 0"
  show ?thesis
  proof (cases "ys = []")
    case True
    with out have "butlast out = replicate (k - 1) ''..'' @ []" by (simp add: butlast_conv_take)
    with out show ?thesis by (intro cleanedI [of _ "k - 1" "[]"]) (auto dest: in_set_butlastD)
  next
    case False
    with out(2) have "butlast out = replicate k ''..'' @ butlast ys" by (simp add: butlast_append)
    with out show ?thesis by (intro cleanedI [of _ k "butlast ys"]) (auto dest: in_set_butlastD)
  qed
qed

lemma clean_elems_cleaned:
  "cleaned r out \<Longrightarrow> \<forall>e\<in>set es. no_slash e \<Longrightarrow> cleaned r (clean_elems r out es)"
proof (induction r out es rule: clean_elems.induct)
  case (2 r out e es)
  show ?case
  proof (cases "e = [] \<or> e = ''.''")
    case skip: False
    show ?thesis
    proof (cases "e = ''..''")
      case True
      have rest: "\<forall>e\<in>set es. no_slash e" using 2(7) by simp
      show ?thesis
      proof (cases "out \<noteq> [] \<and> last out \<noteq> ''..''")
        case pop: True
        from 2(2) [OF skip True pop cleaned_butlast [OF 2(6)] rest] skip True pop show ?thesis by simp
      next
        case stay: False
        show ?thesis
        proof (cases r)
          case rooted: True
          from 2(3) [OF skip True stay rooted 2(6) rest] skip True stay rooted show ?thesis by auto
        next
          case rel: False
          have "cleaned r (out @ [e])" using cleaned_up [OF 2(6) _ rel] stay True by auto
          from 2(4) [OF skip True stay rel this rest] skip True stay rel show ?thesis by auto
        qed
      qed
    next
      case False
      have "cleaned r (out @ [e])" using 2(6,7) skip False by (intro cleaned_snoc) (auto simp: real_elem_def)
      with 2 skip False show ?thesis by simp
    qed
  qed (use 2 in auto)
qed simp

lemma cleaned_Nil [simp]: "cleaned r []"
  by (rule cleanedI [of _ 0 "[]"]) simp_all

lemma elems_of_cleaned: "cleaned (path_rooted p) (elems_of p)"
  unfolding elems_of_def by (rule clean_elems_cleaned) (auto intro: path_elems_no_slash)

text \<open>Cleaning leaves a cleaned path alone.\<close>

lemma clean_ups: "\<not> r \<Longrightarrow> clean_elems r (replicate j ''..'') (replicate k ''..'') = replicate (j + k) ''..''"
proof (induction k arbitrary: j)
  case (Suc k)
  have "replicate j ''..'' = [] \<or> last (replicate j ''..'') = ''..''" by (cases j) auto
  then have "clean_elems r (replicate j ''..'') (replicate (Suc k) ''..'') = clean_elems r (replicate j ''..'' @ [''..'']) (replicate k ''..'')"
    using Suc(2) by auto
  also have "replicate j ''..'' @ [''..''] = replicate (Suc j) ''..''" by (simp add: replicate_append_same)
  finally show ?case using Suc.IH [OF Suc(2), of "Suc j"] by simp
qed simp

lemma clean_elems_id:
  assumes "cleaned r es"
  shows "clean_elems r [] es = es"
  using assms
proof (rule cleanedE)
  fix k ys
  assume es: "\<forall>e\<in>set es. real_elem e \<and> no_slash e" "es = replicate k ''..'' @ ys" "''..'' \<notin> set ys" "r \<Longrightarrow> k = 0"
  have ups: "clean_elems r [] (replicate k ''..'') = replicate k ''..''"
  proof (cases r)
    case True
    with es(4) show ?thesis by simp
  next
    case False
    from clean_ups [OF this, of 0 k] show ?thesis by simp
  qed
  have "filter real_elem ys = ys" using es(1,2) by (auto simp: filter_id_conv)
  with ups es(2) clean_elems_down [OF es(3)] show ?thesis by (simp add: clean_elems_append)
qed

text \<open>The text of a cleaned path and its elements.\<close>

definition path_of :: "bool \<Rightarrow> string list \<Rightarrow> string" where
  "path_of rooted es = (if rooted then ''/'' else []) @ join_slash es"

lemma path_Clean_elems: "elems_of p \<noteq> [] \<Longrightarrow> path_Clean p = path_of (path_rooted p) (elems_of p)"
proof -
  assume ne: "elems_of p \<noteq> []"
  have "hd (elems_of p) \<noteq> []" using elems_of_cleaned [of p] ne
    by (auto simp: cleaned_def real_elem_def)
  then have "join_slash (elems_of p) \<noteq> []" using ne by (cases "elems_of p" rule: join_slash.cases) auto
  then show ?thesis unfolding path_Clean_def path_of_def elems_of_def path_rooted_def by (simp add: Let_def)
qed

lemma elems_of_path_of:
  assumes "cleaned r es" and "es \<noteq> []"
  shows "path_rooted (path_of r es) = r" and "elems_of (path_of r es) = es"
proof -
  have real: "\<forall>e\<in>set es. real_elem e \<and> no_slash e" using assms(1) by (simp add: cleaned_def)
  then have "hd es \<noteq> []" "CHR ''/'' \<notin> set (hd es)" using assms(2) by (auto simp: real_elem_def no_slash_def)
  then have h: "join_slash es \<noteq> [] \<and> hd (join_slash es) \<noteq> CHR ''/''"
    using assms(2) by (cases es rule: join_slash.cases) (auto dest: hd_in_set)
  then show rt: "path_rooted (path_of r es) = r" by (auto simp: path_rooted_def path_of_def)
  have pe: "path_elems (join_slash es) = es" using assms(2) real by (simp add: path_elems_join)
  have "path_elems (path_of r es) = (if r then [[]] else []) @ es" using pe by (simp add: path_of_def)
  then have "elems_of (path_of r es) = clean_elems r [] es" unfolding elems_of_def rt by simp
  then show "elems_of (path_of r es) = es" using clean_elems_id [OF assms(1)] by simp
qed


lemma join_two: "p \<noteq> [] \<Longrightarrow> path_Join [p, q] = path_Clean (p @ CHR ''/'' # q)"
  by (simp add: path_Join_def)

lemma elems_of_join:
  assumes "p \<noteq> []"
  shows "elems_of (p @ CHR ''/'' # q) = clean_elems (path_rooted p) (elems_of p) (path_elems q)"
    and "path_rooted (p @ CHR ''/'' # q) = path_rooted p"
  using assms by (simp_all add: elems_of_def path_rooted_def path_elems_slash clean_elems_append)

lemma path_of_nonempty: "cleaned r es \<Longrightarrow> es \<noteq> [] \<Longrightarrow> path_of r es \<noteq> []"
  by (cases es rule: join_slash.cases) (auto simp: path_of_def cleaned_def real_elem_def)

lemma join_below:
  assumes "cleaned r es" and "es \<noteq> []" and "''..'' \<notin> set (path_elems q)"
  shows "path_Join [path_of r es, q] = path_of r (es @ filter real_elem (path_elems q))"
proof -
  note p = elems_of_path_of [OF assms(1,2)] and ne = path_of_nonempty [OF assms(1,2)]
  have "elems_of (path_of r es @ CHR ''/'' # q) = es @ filter real_elem (path_elems q)"
    using elems_of_join(1) [OF ne] p clean_elems_down [OF assms(3)] by simp
  then show ?thesis
    using path_Clean_elems [of "path_of r es @ CHR ''/'' # q"] elems_of_join(2) [OF ne] p assms(2) by (simp add: join_two [OF ne])
qed

lemma last_slash:
  assumes "no_slash x"
  shows "rev (dropWhile (\<lambda>c. c \<noteq> CHR ''/'') (rev (p @ CHR ''/'' # x))) = p @ ''/''"
    and "x \<noteq> [] \<Longrightarrow> path_Base (p @ CHR ''/'' # x) = x"
proof -
  have x: "\<forall>c\<in>set (rev x). c \<noteq> CHR ''/''" using assms by (auto simp: no_slash_def)
  have "dropWhile (\<lambda>c. c \<noteq> CHR ''/'') (rev x @ CHR ''/'' # rev p) = CHR ''/'' # rev p"
    using x by (simp add: dropWhile_append3)
  then show "rev (dropWhile (\<lambda>c. c \<noteq> CHR ''/'') (rev (p @ CHR ''/'' # x))) = p @ ''/''" by simp
  assume ne: "x \<noteq> []"
  then obtain y c where yc: "x = y @ [c]" by (cases x rule: rev_cases) auto
  then have "c \<noteq> CHR ''/''" using x by simp
  then have d: "dropWhile (\<lambda>c. c = CHR ''/'') (rev (p @ CHR ''/'' # x)) = rev x @ CHR ''/'' # rev p" using yc by simp
  have "takeWhile (\<lambda>c. c \<noteq> CHR ''/'') (rev x @ CHR ''/'' # rev p) = rev x"
    using x by (simp add: takeWhile_tail)
  with d ne show "path_Base (p @ CHR ''/'' # x) = x" by (simp add: path_Base_def Let_def)
qed

lemma dir_base:
  assumes "cleaned r (es @ [x])" and "es \<noteq> []"
  shows "path_Dir (path_of r (es @ [x])) = path_of r es" and "path_Base (path_of r (es @ [x])) = x"
proof -
  have es: "cleaned r es" using cleaned_butlast [OF assms(1)] by simp
  have x: "no_slash x" "x \<noteq> []" using assms(1) by (auto simp: cleaned_def real_elem_def)
  have eq: "path_of r (es @ [x]) = path_of r es @ CHR ''/'' # x" using assms(2) by (simp add: path_of_def join_slash_snoc)
  note p = elems_of_path_of [OF es assms(2)] and ne = path_of_nonempty [OF es assms(2)]
  show "path_Base (path_of r (es @ [x])) = x" unfolding eq using x by (rule last_slash(2))
  have "path_Dir (path_of r (es @ [x])) = path_Clean (path_of r es @ CHR ''/'' # [])"
    unfolding path_Dir_def eq last_slash(1) [OF x(1)] ..
  also have "\<dots> = path_of r es"
    using path_Clean_elems [of "path_of r es @ CHR ''/'' # []"] elems_of_join [OF ne, of "[]"] p assms(2) by simp
  finally show "path_Dir (path_of r (es @ [x])) = path_of r es" .
qed

text \<open>An outside that keeps the paths it was called with and fails as it likes.\<close>

definition path_recorder :: "(string list \<Rightarrow> go_error option) \<Rightarrow> (string list \<Rightarrow> go_error + int) \<Rightarrow> string list ext_outside" where
  "path_recorder fails gets =
     \<lparr>xo_MkdirAll = (\<lambda>p w. (fails (w @ [p]), w @ [p])), xo_Create = (\<lambda>p w. (fails (w @ [p]), w @ [p])),
      xo_Download = (\<lambda>p bucket key w. (gets (w @ [p]), w @ [p])), xo_Close = (\<lambda>p w. (fails (w @ [p]), w @ [p])),
      xo_Remove = (\<lambda>p w. (fails (w @ [p]), w @ [p])), xo_Rename = (\<lambda>p q w. (fails (w @ [p, q]), w @ [p, q])),
      xo_DeleteMessage = (\<lambda>w. (None, w)), xo_Error = (\<lambda>e. [])\<rparr>"

lemma recorded_paths:
  "set (snd (downloadObject (path_recorder fails gets) directory obj [])) \<subseteq>
     (let bucketDir = path_Join [directory, ob_Bucket obj]; filePath = path_Join [bucketDir, ob_Key obj]
      in {bucketDir, path_Dir filePath, path_Join [path_Dir filePath, path_Base filePath @ ''.bptmp''], filePath})"
  by (auto simp: downloadObject_def path_recorder_def Let_def split: option.splits sum.splits if_splits)

text \<open>A key of the kind that names a file: no element leads up, and one is a name.\<close>

definition plain_key :: "string \<Rightarrow> bool" where
  "plain_key key = (''..'' \<notin> set (path_elems key) \<and> (\<exists>e\<in>set (path_elems key). real_elem e))"

definition plain_name :: "string \<Rightarrow> bool" where
  "plain_name e = (real_elem e \<and> no_slash e \<and> e \<noteq> ''..'')"

text \<open>
  C37. For an object whose bucket is a plain name (not empty, without a slash, not a dot element), and
  whose key names a file (one of its elements is a name) with no element that leads up, the download
  stays in the directory of the bucket. Whatever calls fail, every directory and file that is made,
  written, renamed or removed for the object lies there. Lemmas \<open>key_leads_out\<close> and
  \<open>key_without_name\<close> show what happens otherwise.
\<close>

theorem downloads_stay_inside:
  assumes "directory \<noteq> []" and "plain_name (ob_Bucket obj)" and "plain_key (ob_Key obj)"
    and "p \<in> set (snd (downloadObject (path_recorder fails gets) directory obj []))"
  shows "path_rooted p = path_rooted directory \<and> prefix (elems_of directory @ [ob_Bucket obj]) (elems_of p)"
proof -
  let ?r = "path_rooted directory" and ?b = "elems_of directory @ [ob_Bucket obj]"
    and ?k = "filter real_elem (path_elems (ob_Key obj))"
  have b: "no_slash (ob_Bucket obj)" "real_elem (ob_Bucket obj)" "ob_Bucket obj \<noteq> ''..''"
    using assms(2) by (simp_all add: plain_name_def)
  have cb: "cleaned ?r ?b" using elems_of_cleaned b by (intro cleaned_snoc)
  have el: "elems_of (directory @ CHR ''/'' # ob_Bucket obj) = ?b"
    using elems_of_join(1) [OF assms(1)] b by (auto simp: path_elems_single real_elem_def)
  have base: "path_Join [directory, ob_Bucket obj] = path_of ?r ?b"
    using path_Clean_elems [of "directory @ CHR ''/'' # ob_Bucket obj"] elems_of_join(2) [OF assms(1)]
    by (simp add: join_two [OF assms(1)] el)
  have up: "''..'' \<notin> set (path_elems (ob_Key obj))" and kne: "?k \<noteq> []"
    using assms(3) by (auto simp: plain_key_def filter_empty_conv)
  have fp: "path_Join [path_of ?r ?b, ob_Key obj] = path_of ?r (?b @ ?k)"
    by (rule join_below [OF cb _ up]) simp
  have ck: "cleaned ?r (?b @ ?k)"
    using clean_elems_cleaned [OF cb, of "path_elems (ob_Key obj)"] path_elems_no_slash clean_elems_down [OF up, of ?r ?b]
    by (auto simp del: append_assoc)
  define es x where "es = ?b @ butlast ?k" and "x = last ?k"
  have split: "?b @ ?k = es @ [x]" using kne by (simp add: es_def x_def)
  have ne: "es \<noteq> []" by (simp add: es_def)
  have ce: "cleaned ?r es" using cleaned_butlast [OF ck] split by simp
  have x: "no_slash x" "real_elem x" using ck unfolding split by (auto simp: cleaned_def)
  have tmp_name: "no_slash (x @ ''.bptmp'')" using x(1) by (simp add: no_slash_def)
  have tmp_real: "real_elem (x @ ''.bptmp'')" "x @ ''.bptmp'' \<noteq> ''..''"
    by (auto simp: real_elem_def append_eq_Cons_conv)
  have ct: "cleaned ?r (es @ [x @ ''.bptmp''])" by (rule cleaned_snoc [OF ce tmp_real(1) tmp_name tmp_real(2)])
  have tmp: "path_Join [path_of ?r es, x @ ''.bptmp''] = path_of ?r (es @ [x @ ''.bptmp''])"
    using join_below [OF ce ne, of "x @ ''.bptmp''"] tmp_name tmp_real by (auto simp: path_elems_single)
  note db = dir_base [OF ck [unfolded split] ne]
  have "p \<in> {path_of ?r ?b, path_of ?r es, path_of ?r (es @ [x @ ''.bptmp'']), path_of ?r (es @ [x])}"
    using assms(4) recorded_paths [of fails gets directory obj]
    unfolding Let_def base fp split db tmp by blast
  moreover have "path_rooted (path_of ?r fs) = ?r \<and> prefix ?b (elems_of (path_of ?r fs))"
    if "cleaned ?r fs" "prefix ?b fs" for fs
    using elems_of_path_of [OF that(1)] that(2) by (cases "fs = []") auto
  moreover have "prefix ?b es" "prefix ?b (es @ [y])" for y by (simp_all add: es_def)
  ultimately show ?thesis using cb ce ct ck [unfolded split] by auto
qed

definition sample_object :: S3Object where
  "sample_object = \<lparr>ob_EventType = [], ob_Bucket = ''b'', ob_Key = ''logs/a.log'', ob_Size = 3\<rparr>"

theorem downloads_stay_inside_witness:
  "list_all (\<lambda>p. prefix [''data'', ''b''] (elems_of p))
     (snd (downloadObject (path_recorder (\<lambda>w. None) (\<lambda>w. Inr 3)) ''/data'' sample_object []))"
proof -
  have d: "elems_of ''/data'' = [''data'']" by (simp add: elems_of_def path_rooted_def)
  have "prefix [''data'', ''b''] (elems_of p)"
    if "p \<in> set (snd (downloadObject (path_recorder (\<lambda>w. None) (\<lambda>w. Inr 3)) ''/data'' sample_object []))" for p
    using downloads_stay_inside [OF _ _ _ that] d
    by (simp add: plain_name_def plain_key_def real_elem_def no_slash_def sample_object_def)
  then show ?thesis by (simp add: list_all_iff)
qed

section \<open>Keys that lead out, objects that are lost\<close>

text \<open>
  The temporary file of a key that names no file (a single slash, or the empty object that an unreadable
  key leaves behind) is made beside the directory of the bucket, or beside the configured one.
\<close>

lemma key_without_name:
  "snd (downloadObject (path_recorder (\<lambda>w. None) (\<lambda>w. Inr 3)) ''/data''
     \<lparr>ob_EventType = [], ob_Bucket = ''b'', ob_Key = ''/'', ob_Size = 3\<rparr> [])
   = [''/data/b'', ''/data'', ''/data/b.bptmp'', ''/data/b.bptmp'', ''/data/b.bptmp'', ''/data/b.bptmp'', ''/data/b'']"
  "snd (downloadObject (path_recorder (\<lambda>w. None) (\<lambda>w. Inr 0)) ''/data''
     \<lparr>ob_EventType = [], ob_Bucket = [], ob_Key = [], ob_Size = 0\<rparr> [])
   = [''/data'', ''/'', ''/data.bptmp'', ''/data.bptmp'', ''/data.bptmp'', ''/data.bptmp'', ''/data'']"
  by code_simp+

text \<open>The elements of a key are not checked, so an object can be written anywhere.\<close>

lemma key_leads_out:
  "snd (downloadObject (path_recorder (\<lambda>w. None) (\<lambda>w. Inr 3)) ''/data''
     \<lparr>ob_EventType = [], ob_Bucket = ''b'', ob_Key = ''../../etc/x'', ob_Size = 3\<rparr> [])
   = [''/data/b'', ''/etc'', ''/etc/x.bptmp'', ''/etc/x.bptmp'', ''/etc/x.bptmp'', ''/etc/x.bptmp'', ''/etc/x'']"
  by (simp add: downloadObject_def path_recorder_def path_Join_def path_Clean_def path_Dir_def path_Base_def Let_def)

text \<open>
  Only a missing object keeps a message: when the download of an object fails in any other way (no
  permission, a full disk, a broken connection, a size that does not match) the message is deleted.
\<close>

lemma failed_download_deletes_message:
  assumes "unmarshal body = Inr [obj]" and "downloadObject out directory obj w = (Some err, w1)"
    and "\<not> str_contains (xo_Error out err) ''NoSuchKey''"
  shows "ext_ProcessMessage out unmarshal directory body w = snd (xo_DeleteMessage out w1)"
  using assms by (simp add: ext_ProcessMessage_def)

text \<open>A space in a key is a plus sign in the event, and stays one here; the receiver decodes it.\<close>

lemma plus_stays: "PathUnescape ''my+key'' = Some ''my+key'' \<and> decoded_key ''my+key'' = ''my key''"
  by (simp add: decoded_key_def)


section \<open>The intervals of the polls\<close>

definition backoff_ok :: "duration \<Rightarrow> duration \<Rightarrow> Backoff \<Rightarrow> bool" where
  "backoff_ok shortest longest b =
     (bk_standardInterval b = shortest \<and> bk_maxInterval b = longest \<and> shortest \<le> bk_currentInterval b \<and> bk_currentInterval b \<le> longest)"

lemma Update_ok:
  assumes "shortest \<le> longest" and "\<And>x. shortest \<le> x \<Longrightarrow> x < scaled x" and "backoff_ok shortest longest b"
    and "Backoff_Update scaled n b = (interval, b1)"
  shows "backoff_ok shortest longest b1" and "interval = bk_currentInterval b1" and "n > 0 \<Longrightarrow> interval = shortest"
    and "n = 0 \<Longrightarrow> min longest (bk_currentInterval b + 1) \<le> interval"
proof -
  have grow: "bk_currentInterval b < scaled (bk_currentInterval b)" and "shortest \<le> bk_currentInterval b"
    using assms(2,3) by (simp_all add: backoff_ok_def)
  then have "shortest \<le> scaled (bk_currentInterval b)" by simp
  with grow show "backoff_ok shortest longest b1" and "interval = bk_currentInterval b1" and "n > 0 \<Longrightarrow> interval = shortest"
    and "n = 0 \<Longrightarrow> min longest (bk_currentInterval b + 1) \<le> interval"
    using assms(1,3,4) by (auto simp: backoff_ok_def Backoff_Update_def Let_def split: if_splits)
qed

lemma poll_intervals_ok:
  assumes "shortest \<le> longest" and "\<And>x. shortest \<le> x \<Longrightarrow> x < scaled x"
  shows "backoff_ok shortest longest b \<Longrightarrow> i < length ns \<Longrightarrow>
    shortest \<le> poll_intervals scaled ns b ! i \<and> poll_intervals scaled ns b ! i \<le> longest
    \<and> (ns ! i > 0 \<longrightarrow> poll_intervals scaled ns b ! i = shortest)
    \<and> (i < length (takeWhile (\<lambda>n. n = 0) ns) \<longrightarrow>
         min longest (bk_currentInterval b + int (Suc i)) \<le> poll_intervals scaled ns b ! i)"
proof (induction ns arbitrary: b i)
  case (Cons n ns)
  obtain t b1 where up: "Backoff_Update scaled n b = (t, b1)" by fastforce
  note ok = Update_ok [OF assms Cons.prems(1) up]
  show ?case
  proof (cases i)
    case 0
    with up ok show ?thesis by (auto simp: backoff_ok_def)
  next
    case (Suc j)
    with Cons.IH [OF ok(1), of j] Cons.prems(2) up ok(2,4) show ?thesis by (auto simp: min_def split: if_splits)
  qed
qed simp

text \<open>
  The interval between polls stays between the configured ones: it is the shortest after a
  poll that found messages, and grows with every empty poll until, if none finds a message, it is
  the longest, for any back-off factor that makes an interval longer.
\<close>

theorem poll_intervals_bounded:
  assumes "shortest \<le> longest" and "\<And>x. shortest \<le> x \<Longrightarrow> x < scaled x" and "i < length ns"
    and "ts = poll_intervals scaled ns (New_Backoff shortest longest)"
  shows "shortest \<le> ts ! i \<and> ts ! i \<le> longest \<and> (ns ! i > 0 \<longrightarrow> ts ! i = shortest)
    \<and> (set ns \<subseteq> {0} \<longrightarrow> longest - shortest \<le> int (Suc i) \<longrightarrow> ts ! i = longest)"
proof -
  have ok: "backoff_ok shortest longest (New_Backoff shortest longest)" using assms(1) by (simp add: backoff_ok_def New_Backoff_def)
  note bounds = poll_intervals_ok [OF assms(1,2) ok assms(3)]
  have "ts ! i = longest" if idle: "set ns \<subseteq> {0}" "longest - shortest \<le> int (Suc i)"
  proof -
    have "takeWhile (\<lambda>n. n = 0) ns = ns" using idle(1) by (induction ns) auto
    with bounds assms(3) have "min longest (shortest + int (Suc i)) \<le> ts ! i" "ts ! i \<le> longest"
      unfolding assms(4) by (simp_all add: New_Backoff_def)
    with idle(2) show ?thesis by simp
  qed
  with bounds show ?thesis unfolding assms(4) by blast
qed

theorem poll_intervals_bounded_witness:
  "poll_intervals (\<lambda>x. 2 * x) [0, 0, 0] (New_Backoff 15 17) ! 2 = 17"
  using poll_intervals_bounded [of 15 17 "\<lambda>x. 2 * x" 2 "[0, 0, 0]", OF _ _ _ refl] by simp

end
