(* ===== verification/OcsfSchema.thy ===== *)
theory OcsfSchema
  imports RestTime "HOL-Library.AList" "HOL-Library.List_Lexorder" "HOL-Library.Char_ord"
begin

text \<open>
  The OCSF schema as the generator \<open>processor/ocsfstandardizationprocessor/ocsf/gen.go\<close> reads it, the
  tables it writes into \<open>ocsf/v*/schema.go\<close> for each version, and the functions of that file which work on
  the tables: the check of a configuration (\<open>ValidateFieldCoverage\<close>, \<open>ValidateProfile\<close>) and the type of a field
  (\<open>LookupFieldType\<close>). Their code is the same text in all eight versions; only the tables differ, so the
  schema is an argument. A Go map is the list of its entries; where the code ranges over a map and the
  order can be seen, it is the order of that list.
\<close>

section \<open>The schema\<close>

record attribute =
  at_Type :: string
  at_IsArray :: bool
  at_Requirement :: string
  at_ObjectType :: string
  at_Enum :: "string list"
  at_Profile :: string

type_synonym attributes = "(string \<times> attribute) list"

record constraints =
  AtLeastOne :: "string list"
  JustOne :: "string list"

record ocsf_type =
  ty_BaseType :: string
  ty_Regex :: string
  ty_MaxLen :: "int option"
  ty_Range :: "int list"

record ocsf_object =
  ob_Attributes :: attributes
  ob_Constraints :: constraints

record ocsf_class = ocsf_object +
  cl_UID :: int

record schema =
  sc_Objects :: "(string \<times> ocsf_object) list"
  sc_Types :: "(string \<times> ocsf_type) list"
  sc_Classes :: "(string \<times> ocsf_class) list"

definition sortedKeys :: "(string \<times> 'a) list \<Rightarrow> string list" where
  "sortedKeys m = sort (remdups (map fst m))"

definition sorted_entries :: "(string \<times> 'a) list \<Rightarrow> (string \<times> 'a) list" where
  "sorted_entries m = map (\<lambda>k. (k, the (map_of m k))) (sortedKeys m)"

definition filterOutProfileAttrs :: "attributes \<Rightarrow> attributes" where
  "filterOutProfileAttrs attrs = filter (\<lambda>(n, a). at_Profile a = []) attrs"

definition filterAttrsForProfile :: "attributes \<Rightarrow> string \<Rightarrow> attributes" where
  "filterAttrsForProfile attrs profile = filter (\<lambda>(n, a). at_Profile a = profile) attrs"

definition filterFieldsInAttrs :: "string list \<Rightarrow> attributes \<Rightarrow> string list" where
  "filterFieldsInAttrs fs attrs =
     sort (filter (\<lambda>f. CHR ''.'' \<notin> set f \<and> map_of attrs f \<noteq> None) fs)"

text \<open>Profile attributes of all classes and objects, merged; the last one wins.\<close>

type_synonym profile_attrs = "(string \<times> attributes) list"

definition add_profile_attrs :: "attributes \<Rightarrow> profile_attrs \<Rightarrow> profile_attrs" where
  "add_profile_attrs attrs pa =
     fold (\<lambda>(n, a) m. if at_Profile a = [] then m
             else AList.update (at_Profile a)
                    (AList.update n a (case map_of m (at_Profile a) of None \<Rightarrow> [] | Some as \<Rightarrow> as)) m)
       (sorted_entries attrs) pa"

definition collectProfileAttrs :: "schema \<Rightarrow> profile_attrs" where
  "collectProfileAttrs sc =
     fold (\<lambda>(n, ob). add_profile_attrs (ob_Attributes ob)) (sorted_entries (sc_Objects sc))
       (fold (\<lambda>(n, cls). add_profile_attrs (ob_Attributes cls)) (sorted_entries (sc_Classes sc)) [])"

definition collectAllProfiles :: "schema \<Rightarrow> string list" where
  "collectAllProfiles sc = sortedKeys (collectProfileAttrs sc)"

section \<open>The tables\<close>

text \<open>\<open>resolveCoercionType\<close> follows the type hierarchy; a cycle would never end, so the number of types
  bounds the steps.\<close>

fun resolveCoercionType_at :: "nat \<Rightarrow> string \<Rightarrow> (string \<times> ocsf_type) list \<Rightarrow> string option" where
  "resolveCoercionType_at fuel typeName types =
     (if typeName = ''integer_t'' then Some ''integer''
      else if typeName = ''long_t'' then Some ''long''
      else if typeName = ''float_t'' then Some ''float''
      else if typeName = ''boolean_t'' then Some ''boolean''
      else if typeName = ''timestamp_t'' then Some ''timestamp''
      else if typeName = ''datetime_t'' then Some ''datetime''
      else if typeName \<in> {''object_t'', ''json_t''} then Some []
      else case map_of types typeName of
             Some t \<Rightarrow>
               if ty_BaseType t \<noteq> [] then
                 (case fuel of 0 \<Rightarrow> None | Suc n \<Rightarrow> resolveCoercionType_at n (ty_BaseType t) types)
               else Some ''string''
           | None \<Rightarrow> Some ''string'')"

declare resolveCoercionType_at.simps [simp del]

definition resolveCoercionType :: "string \<Rightarrow> (string \<times> ocsf_type) list \<Rightarrow> string" where
  "resolveCoercionType typeName types =
     (case resolveCoercionType_at (length types) typeName types of Some t \<Rightarrow> t | None \<Rightarrow> [])"

record fieldReqs =
  fr_required :: "string list"
  fr_objectFields :: "(string \<times> string) list"
  fr_fieldTypes :: "(string \<times> string) list"
  fr_atLeastOne :: "string list list"
  fr_justOne :: "string list list"

definition requirements :: "attributes \<Rightarrow> constraints \<Rightarrow> (string \<times> ocsf_type) list \<Rightarrow> fieldReqs option" where
  "requirements attrs con types =
     (let as = sorted_entries attrs;
          required = map fst (filter (\<lambda>(n, a). at_Requirement a = ''required'') as);
          objectFields = map (\<lambda>(n, a). (n, at_ObjectType a))
            (filter (\<lambda>(n, a). at_Type a = ''object_t'' \<and> at_ObjectType a \<noteq> []) as);
          fieldTypes = filter (\<lambda>(n, t). t \<noteq> [])
            (map (\<lambda>(n, a). (n, resolveCoercionType (at_Type a) types)) as);
          alo = filterFieldsInAttrs (AtLeastOne con) attrs;
          jo = filterFieldsInAttrs (JustOne con) attrs
      in if required = [] \<and> objectFields = [] \<and> fieldTypes = [] \<and> alo = [] \<and> jo = [] then None
         else Some \<lparr>fr_required = required, fr_objectFields = objectFields, fr_fieldTypes = fieldTypes,
                    fr_atLeastOne = (if alo = [] then [] else [alo]),
                    fr_justOne = (if jo = [] then [] else [jo])\<rparr>)"

definition no_constraints :: constraints where
  "no_constraints = \<lparr>AtLeastOne = [], JustOne = []\<rparr>"

definition find_class :: "schema \<Rightarrow> int \<Rightarrow> (string \<times> ocsf_class) option" where
  "find_class sc uid = find (\<lambda>(n, c). cl_UID c = uid) (sc_Classes sc)"

definition classFieldReqs :: "schema \<Rightarrow> int \<Rightarrow> fieldReqs option" where
  "classFieldReqs sc uid =
     (case find_class sc uid of
        None \<Rightarrow> None
      | Some (n, cls) \<Rightarrow>
          if n = ''base_event'' then None
          else requirements (filterOutProfileAttrs (ob_Attributes cls)) (ob_Constraints cls) (sc_Types sc))"

definition objectFieldReqs :: "schema \<Rightarrow> string \<Rightarrow> fieldReqs option" where
  "objectFieldReqs sc name =
     (case map_of (sc_Objects sc) name of
        None \<Rightarrow> None
      | Some ob \<Rightarrow>
          requirements (filterOutProfileAttrs (ob_Attributes ob)) (ob_Constraints ob) (sc_Types sc))"

definition profileClassFieldReqs :: "schema \<Rightarrow> string \<Rightarrow> int \<Rightarrow> fieldReqs option" where
  "profileClassFieldReqs sc p uid =
     (if p \<notin> set (collectAllProfiles sc) then None
      else case find_class sc uid of
        None \<Rightarrow> None
      | Some (n, cls) \<Rightarrow>
          if n = ''base_event'' then None
          else (let pattrs = filterAttrsForProfile (ob_Attributes cls) p
                in if pattrs = [] then None else requirements pattrs no_constraints (sc_Types sc)))"

definition profileObjectFieldReqs :: "schema \<Rightarrow> string \<Rightarrow> string \<Rightarrow> fieldReqs option" where
  "profileObjectFieldReqs sc p name =
     (if p \<notin> set (collectAllProfiles sc) then None
      else case map_of (sc_Objects sc) name of
        None \<Rightarrow> None
      | Some ob \<Rightarrow>
          (let pattrs = filterAttrsForProfile (ob_Attributes ob) p
           in if pattrs = [] then None else requirements pattrs no_constraints (sc_Types sc)))"

section \<open>The check of a configuration\<close>

definition splitFirst :: "string \<Rightarrow> string \<times> string" where
  "splitFirst s = (takeWhile (\<lambda>c. c \<noteq> CHR ''.'') s, tl (dropWhile (\<lambda>c. c \<noteq> CHR ''.'') s))"

datatype coverage_error =
    MissingField string
  | NoneOfMapped "string list"
  | NotOneMapped "string list" nat
  | UnknownClass int
  | UnknownProfile string

definition covered :: "string list \<Rightarrow> string list" where
  "covered paths = remdups (map (fst \<circ> splitFirst) paths)"

definition sub_paths :: "string list \<Rightarrow> string \<Rightarrow> string list" where
  "sub_paths paths field =
     map (snd \<circ> splitFirst) (filter (\<lambda>p. fst (splitFirst p) = field \<and> snd (splitFirst p) \<noteq> []) paths)"

definition grouped :: "string list \<Rightarrow> string list" where
  "grouped paths = remdups (map (fst \<circ> splitFirst) (filter (\<lambda>p. snd (splitFirst p) \<noteq> []) paths))"

definition own_coverage :: "fieldReqs \<Rightarrow> string list \<Rightarrow> string \<Rightarrow> coverage_error list" where
  "own_coverage reqs paths prefix =
     map (\<lambda>r. MissingField (prefix @ r)) (filter (\<lambda>r. r \<notin> set (covered paths)) (fr_required reqs))
     @ map (\<lambda>g. NoneOfMapped (map ((@) prefix) g))
         (filter (\<lambda>g. \<not> list_ex (\<lambda>f. f \<in> set (covered paths)) g) (fr_atLeastOne reqs))
     @ concat (map (\<lambda>g. let count = length (filter (\<lambda>f. f \<in> set (covered paths)) g)
                         in if count \<noteq> 1 then [NotOneMapped (map ((@) prefix) g) count] else [])
         (fr_justOne reqs))"

lemma splitFirst_sub_shorter: "snd (splitFirst p) \<noteq> [] \<Longrightarrow> length (snd (splitFirst p)) < length p"
proof -
  assume "snd (splitFirst p) \<noteq> []"
  then have "dropWhile (\<lambda>c. c \<noteq> CHR ''.'') p \<noteq> []"
    by (cases "dropWhile (\<lambda>c. c \<noteq> CHR ''.'') p") (simp_all add: splitFirst_def)
  then have "length (tl (dropWhile (\<lambda>c. c \<noteq> CHR ''.'') p)) < length (dropWhile (\<lambda>c. c \<noteq> CHR ''.'') p)"
    by (cases "dropWhile (\<lambda>c. c \<noteq> CHR ''.'') p") auto
  also have "\<dots> \<le> length p" by (rule length_dropWhile_le)
  finally show ?thesis by (simp add: splitFirst_def)
qed

lemma sub_paths_less:
  assumes "field \<in> set (grouped paths)"
  shows "sum_list (map length (sub_paths paths field)) < sum_list (map length paths)"
proof -
  have le: "sum_list (map length (sub_paths ps field)) \<le> sum_list (map length ps)" for ps
    by (induction ps) (auto simp: sub_paths_def dest: splitFirst_sub_shorter)
  from assms obtain p where "p \<in> set paths" "fst (splitFirst p) = field" "snd (splitFirst p) \<noteq> []"
    by (auto simp: grouped_def)
  then obtain xs ys where ps: "paths = xs @ p # ys" by (meson split_list)
  have "sub_paths paths field = sub_paths xs field @ snd (splitFirst p) # sub_paths ys field"
    using \<open>fst (splitFirst p) = field\<close> \<open>snd (splitFirst p) \<noteq> []\<close> by (simp add: ps sub_paths_def)
  moreover have "length (snd (splitFirst p)) < length p"
    using \<open>snd (splitFirst p) \<noteq> []\<close> by (rule splitFirst_sub_shorter)
  ultimately show ?thesis using le[of xs] le[of ys] by (simp add: ps)
qed

function validateCoverage ::
  "schema \<Rightarrow> fieldReqs \<Rightarrow> string list \<Rightarrow> string list \<Rightarrow> string \<Rightarrow> coverage_error list" where
  "validateCoverage sc reqs profiles paths prefix =
     own_coverage reqs paths prefix
     @ concat (map (\<lambda>field.
         case map_of (fr_objectFields reqs) field of
           None \<Rightarrow> []
         | Some objType \<Rightarrow>
             (case objectFieldReqs sc objType of
                None \<Rightarrow> []
              | Some objReqs \<Rightarrow>
                  validateCoverage sc objReqs profiles (sub_paths paths field) (prefix @ field @ ''.'')
                  @ concat (map (\<lambda>p.
                      case profileObjectFieldReqs sc p objType of
                        None \<Rightarrow> []
                      | Some pr \<Rightarrow>
                          validateCoverage sc pr profiles (sub_paths paths field) (prefix @ field @ ''.''))
                      profiles)))
       (grouped paths))"
  by pat_completeness auto
termination
  by (relation "measure (\<lambda>(sc, reqs, profiles, paths, prefix). sum_list (map length paths))")
     (simp_all add: sub_paths_less)

declare validateCoverage.simps [simp del]

definition ValidateFieldCoverage :: "schema \<Rightarrow> int \<Rightarrow> string list \<Rightarrow> string list \<Rightarrow> coverage_error list" where
  "ValidateFieldCoverage sc uid profiles fieldPaths =
     (case classFieldReqs sc uid of
        None \<Rightarrow> [UnknownClass uid]
      | Some reqs \<Rightarrow>
          (case find (\<lambda>p. p \<notin> set (collectAllProfiles sc)) profiles of
             Some p \<Rightarrow> [UnknownProfile p]
           | None \<Rightarrow>
               validateCoverage sc reqs profiles fieldPaths []
               @ concat (map (\<lambda>p. case profileClassFieldReqs sc p uid of
                                     None \<Rightarrow> []
                                   | Some pr \<Rightarrow> validateCoverage sc pr profiles fieldPaths [])
                   profiles)))"

text \<open>\<open>ValidateProfile\<close>: the profiles of a class are those its attributes name.\<close>

definition ValidateProfile :: "schema \<Rightarrow> int \<Rightarrow> string \<Rightarrow> bool" where
  "ValidateProfile sc uid profile =
     (case find_class sc uid of
        None \<Rightarrow> False
      | Some (n, cls) \<Rightarrow> profile \<noteq> [] \<and> list_ex (\<lambda>(n, a). at_Profile a = profile) (ob_Attributes cls))"

section \<open>The type of a field\<close>

text \<open>The first non-empty answer.\<close>

fun first_type :: "('a \<Rightarrow> string) \<Rightarrow> 'a list \<Rightarrow> string" where
  "first_type f [] = []"
| "first_type f (x # xs) = (if f x \<noteq> [] then f x else first_type f xs)"

lemma first_type_cong [fundef_cong]:
  "xs = ys \<Longrightarrow> (\<And>x. x \<in> set ys \<Longrightarrow> f x = g x) \<Longrightarrow> first_type f xs = first_type g ys"
  by (induction ys arbitrary: xs) auto

function lookupFieldTypeInReqs :: "schema \<Rightarrow> fieldReqs \<Rightarrow> string list \<Rightarrow> string \<Rightarrow> string" where
  "lookupFieldTypeInReqs sc reqs profiles path =
     (let top = fst (splitFirst path); sub = snd (splitFirst path)
      in if sub = [] then (case map_of (fr_fieldTypes reqs) top of None \<Rightarrow> [] | Some t \<Rightarrow> t)
         else (case map_of (fr_objectFields reqs) top of
                 None \<Rightarrow> []
               | Some objType \<Rightarrow>
                   (let t = (case objectFieldReqs sc objType of
                               None \<Rightarrow> []
                             | Some objReqs \<Rightarrow> lookupFieldTypeInReqs sc objReqs profiles sub)
                    in if t \<noteq> [] then t
                       else first_type (\<lambda>p. case profileObjectFieldReqs sc p objType of
                                              None \<Rightarrow> []
                                            | Some pr \<Rightarrow> lookupFieldTypeInReqs sc pr profiles sub) profiles)))"
  by pat_completeness auto
termination
  by (relation "measure (\<lambda>(sc, reqs, profiles, path). length path)") (simp_all add: splitFirst_sub_shorter)

declare lookupFieldTypeInReqs.simps [simp del]

definition LookupFieldType :: "schema \<Rightarrow> int \<Rightarrow> string list \<Rightarrow> string \<Rightarrow> string" where
  "LookupFieldType sc uid profiles fieldPath =
     (let t = (case classFieldReqs sc uid of
                 None \<Rightarrow> []
               | Some reqs \<Rightarrow> lookupFieldTypeInReqs sc reqs profiles fieldPath)
      in if t \<noteq> [] then t
         else first_type (\<lambda>p. case profileClassFieldReqs sc p uid of
                                None \<Rightarrow> []
                              | Some pr \<Rightarrow> lookupFieldTypeInReqs sc pr profiles fieldPath) profiles)"

end
