(* ===== verification/GoFloat.thy ===== *)
theory GoFloat
  imports Prelude
begin

text \<open>
  Go's \<open>float64\<close> as a 64-bit word of IEEE 754: comparison, addition, division, and the conversions
  from and to \<open>int64\<close> that the processors use. Every finite value is a whole number of units of
  \<open>2 ^ -1074\<close>, so a value is an \<open>int\<close> (\<open>f_scaled\<close>) and a result is the exact one rounded to the
  nearest representable value, ties to even (\<open>f_round\<close>). All NaN results are one NaN. What Go
  leaves to the implementation, the conversion of a value outside \<open>int64\<close>, is an argument.
\<close>

type_synonym f64 = "64 word"

section \<open>The value of a word\<close>

definition f_neg :: "f64 \<Rightarrow> bool" where
  "f_neg b = (2 ^ 63 \<le> unat b)"

definition f_mag :: "f64 \<Rightarrow> nat" where
  "f_mag b = unat b mod 2 ^ 63"

definition f_top :: nat where
  "f_top = 2047 * 2 ^ 52"

definition f_nan :: "f64 \<Rightarrow> bool" where
  "f_nan b = (f_top < f_mag b)"

definition f_inf :: "f64 \<Rightarrow> bool" where
  "f_inf b = (f_mag b = f_top)"

definition f_make :: "bool \<Rightarrow> nat \<Rightarrow> f64" where
  "f_make neg m = of_nat (if neg then 2 ^ 63 + m else m)"

definition f_NaN :: f64 where
  "f_NaN = f_make False (f_top + 2 ^ 51)"

text \<open>The value of a magnitude in units of \<open>2 ^ -1074\<close>; infinity takes the place of \<open>2 ^ 1024\<close>.\<close>

definition f_units :: "nat \<Rightarrow> nat" where
  "f_units m = (if m div 2 ^ 52 = 0 then m else (2 ^ 52 + m mod 2 ^ 52) * 2 ^ (m div 2 ^ 52 - 1))"

definition f_scaled :: "f64 \<Rightarrow> int" where
  "f_scaled b = (if f_neg b then - int (f_units (f_mag b)) else int (f_units (f_mag b)))"

section \<open>Rounding\<close>

fun bitlen :: "nat \<Rightarrow> nat" where
  "bitlen n = (if n = 0 then 0 else Suc (bitlen (n div 2)))"

declare bitlen.simps [simp del]

definition half_even :: "nat \<Rightarrow> nat \<Rightarrow> nat" where
  "half_even n d = (let q = n div d; r = n mod d
     in if d < 2 * r \<or> 2 * r = d \<and> odd q then Suc q else q)"

text \<open>The magnitude nearest to \<open>n / d\<close> units.\<close>

definition f_round :: "nat \<Rightarrow> nat \<Rightarrow> nat" where
  "f_round n d = (let s = bitlen (n div d) - 53
     in min f_top (s * 2 ^ 52 + half_even n (d * 2 ^ s)))"

section \<open>Operations\<close>

definition f_lt :: "f64 \<Rightarrow> f64 \<Rightarrow> bool" where
  "f_lt x y = (\<not> f_nan x \<and> \<not> f_nan y \<and> f_scaled x < f_scaled y)"

definition f_eq :: "f64 \<Rightarrow> f64 \<Rightarrow> bool" where
  "f_eq x y = (\<not> f_nan x \<and> \<not> f_nan y \<and> f_scaled x = f_scaled y)"

definition f_add :: "f64 \<Rightarrow> f64 \<Rightarrow> f64" where
  "f_add x y =
     (if f_nan x \<or> f_nan y then f_NaN
      else if f_inf x then (if f_inf y \<and> f_neg x \<noteq> f_neg y then f_NaN else x)
      else if f_inf y then y
      else (let v = f_scaled x + f_scaled y
            in if v = 0 then f_make (f_neg x \<and> f_neg y) 0
               else f_make (v < 0) (f_round (nat \<bar>v\<bar>) 1)))"

definition f_div :: "f64 \<Rightarrow> f64 \<Rightarrow> f64" where
  "f_div x y = (let neg = (f_neg x \<noteq> f_neg y)
     in if f_nan x \<or> f_nan y \<or> f_inf x \<and> f_inf y \<or> f_mag x = 0 \<and> f_mag y = 0 then f_NaN
        else if f_inf x \<or> f_mag y = 0 then f_make neg f_top
        else if f_inf y then f_make neg 0
        else f_make neg (f_round (f_units (f_mag x) * 2 ^ 1074) (f_units (f_mag y))))"

text \<open>\<open>float64(i)\<close> and \<open>int64(f)\<close>, the latter towards zero.\<close>

definition f_of_int :: "int \<Rightarrow> f64" where
  "f_of_int i = f_make (i < 0) (f_round (nat \<bar>i\<bar> * 2 ^ 1074) 1)"

definition f_trunc :: "f64 \<Rightarrow> int" where
  "f_trunc b = (if f_neg b then - int (f_units (f_mag b) div 2 ^ 1074)
                else int (f_units (f_mag b) div 2 ^ 1074))"

definition float64_of_int64 :: "i64 \<Rightarrow> f64" where
  "float64_of_int64 w = f_of_int (sint w)"

definition int64_of_float64 :: "(f64 \<Rightarrow> i64) \<Rightarrow> f64 \<Rightarrow> i64" where
  "int64_of_float64 beyond b =
     (if f_nan b \<or> f_trunc b < - (2 ^ 63) \<or> 2 ^ 63 \<le> f_trunc b then beyond b
      else word_of_int (f_trunc b))"

section \<open>Order\<close>

lemma f_lt_irrefl [simp]: "\<not> f_lt x x"
  by (simp add: f_lt_def)

lemma f_lt_trans: "f_lt x y \<Longrightarrow> f_lt y z \<Longrightarrow> f_lt x z"
  by (simp add: f_lt_def)

lemma f_lt_total: "\<not> f_nan x \<Longrightarrow> \<not> f_nan y \<Longrightarrow> f_lt x y \<or> f_eq x y \<or> f_lt y x"
  by (auto simp: f_lt_def f_eq_def)

section \<open>Exactness\<close>

lemma half_even_exact [simp]: "0 < d \<Longrightarrow> half_even (q * d) d = q"
  by (simp add: half_even_def Let_def)

lemma bitlen_le: "n < 2 ^ k \<Longrightarrow> bitlen n \<le> k"
proof (induction n arbitrary: k rule: bitlen.induct)
  case (1 n)
  show ?case
  proof (cases "n = 0")
    case True
    then show ?thesis by (simp add: bitlen.simps)
  next
    case False
    with 1(2) obtain j where k: "k = Suc j" by (cases k) auto
    with 1(2) have "n div 2 < 2 ^ j" by simp
    with 1(1) False have "bitlen (n div 2) \<le> j" by blast
    with False k show ?thesis by (subst bitlen.simps) simp
  qed
qed

lemma bitlen_ge: "2 ^ k \<le> n \<Longrightarrow> Suc k \<le> bitlen n"
proof (induction n arbitrary: k rule: bitlen.induct)
  case (1 n)
  then have n0: "n \<noteq> 0" by (metis le_zero_eq power_not_zero zero_neq_numeral)
  show ?case
  proof (cases k)
    case 0
    with n0 show ?thesis by (subst bitlen.simps) simp
  next
    case (Suc j)
    with 1(2) have "2 ^ j \<le> n div 2" by simp
    with 1(1) n0 have "Suc j \<le> bitlen (n div 2)" by blast
    with n0 Suc show ?thesis by (subst bitlen.simps) simp
  qed
qed

lemma bitlen_eq: "2 ^ k \<le> n \<Longrightarrow> n < 2 ^ Suc k \<Longrightarrow> bitlen n = Suc k"
  by (meson bitlen_ge bitlen_le le_antisym)

text \<open>A representable value is rounded to itself.\<close>

lemma f_units_normal:
  assumes "2 ^ 52 \<le> c" and "c < 2 ^ 53"
  shows "f_units (s * 2 ^ 52 + c) = c * 2 ^ s"
proof -
  obtain r where c: "c = 4503599627370496 + r" and r: "r < 4503599627370496"
    using assms le_Suc_ex[of "2 ^ 52" c] by auto
  have "(s * 4503599627370496 + c) div 4503599627370496 = Suc s"
    and "(s * 4503599627370496 + c) mod 4503599627370496 = r"
    using r by (simp_all add: c)
  then show ?thesis by (simp add: f_units_def c)
qed

lemma f_round_normal:
  assumes "2 ^ 52 \<le> c" and "c < 2 ^ 53" and "s * 2 ^ 52 + c \<le> f_top"
  shows "f_round (c * 2 ^ s) 1 = s * 2 ^ 52 + c"
proof -
  have "2 ^ (52 + s) \<le> c * 2 ^ s" using assms(1) by (simp add: power_add)
  moreover have "c * 2 ^ s < 2 ^ 53 * 2 ^ s" using assms(2) by simp
  then have "c * 2 ^ s < 2 ^ Suc (52 + s)" by (simp add: power_add)
  ultimately have "bitlen (c * 2 ^ s) = Suc (52 + s)" by (rule bitlen_eq)
  then show ?thesis
    using half_even_exact[of "2 ^ s" c] assms(3) by (simp add: f_round_def)
qed

lemma f_round_units: "m \<le> f_top \<Longrightarrow> f_round (f_units m) 1 = m"
proof (cases "m div 2 ^ 52 = 0")
  case True
  assume m: "m \<le> f_top"
  from True have "m < 2 ^ 53" by auto
  then have "bitlen m \<le> 53" by (rule bitlen_le)
  with True m show ?thesis
    using half_even_exact[of 1 m] by (simp add: f_round_def f_units_def)
next
  case False
  assume m: "m \<le> f_top"
  define s where "s = m div 2 ^ 52 - 1"
  define c where "c = 2 ^ 52 + m mod 2 ^ 52"
  have c: "2 ^ 52 \<le> c" "c < 2 ^ 53" by (simp_all add: c_def)
  have ms: "m = s * 2 ^ 52 + c"
  proof -
    have "m div 2 ^ 52 = Suc s" using False by (simp add: s_def)
    then have "m = Suc s * 2 ^ 52 + m mod 2 ^ 52" by (metis div_mult_mod_eq)
    then show ?thesis by (simp add: c_def)
  qed
  have "f_round (c * 2 ^ s) 1 = m" using f_round_normal[OF c, of s] m ms by simp
  moreover have "f_units m = c * 2 ^ s" using f_units_normal[OF c, of s] ms by simp
  ultimately show ?thesis by simp
qed

text \<open>Integers up to \<open>2 ^ 53\<close> are representable.\<close>

lemma small_normal:
  fixes n :: nat
  assumes "0 < n" and "n \<le> 2 ^ 53"
  obtains c s where "2 ^ 52 \<le> c" and "c < 2 ^ 53" and "s \<le> 1075" and "n * 2 ^ 1074 = c * 2 ^ s"
proof -
  define k where "k = bitlen n - 1"
  have "bitlen n \<noteq> 0" using assms(1) by (subst bitlen.simps) simp
  then have bk: "bitlen n = Suc k" by (simp add: k_def)
  have lo: "2 ^ k \<le> n" using bitlen_le[of n k] bk by (cases "n < 2 ^ k") auto
  have hi: "n < 2 ^ Suc k" using bitlen_ge[of "Suc k" n] bk by (cases "n < 2 ^ Suc k") auto
  show thesis
  proof (cases "k \<le> 52")
    case True
    have p: "(2::nat) ^ 52 = 2 ^ (52 - k) * 2 ^ k" "(2::nat) ^ 53 = 2 ^ (52 - k) * 2 ^ Suc k"
      using True by (simp_all flip: power_add)
    show thesis
    proof (rule that[of "n * 2 ^ (52 - k)" "1022 + k"])
      show "2 ^ 52 \<le> n * 2 ^ (52 - k)" using lo unfolding p by (simp add: mult.commute)
      show "n * 2 ^ (52 - k) < 2 ^ 53" using hi unfolding p by (simp add: mult.commute)
      show "1022 + k \<le> 1075" using True by simp
      have "(2::nat) ^ (52 - k) * 2 ^ (1022 + k) = 2 ^ 1074"
        using True by (simp only: flip: power_add) simp
      then show "n * 2 ^ 1074 = n * 2 ^ (52 - k) * 2 ^ (1022 + k)"
        by (simp only: mult.assoc)
    qed
  next
    case False
    then have "(2::nat) ^ 53 \<le> 2 ^ k" by (intro power_increasing) auto
    with lo assms(2) have n: "n = 2 ^ 53" by linarith
    show thesis by (rule that[of "2 ^ 52" 1075]) (simp_all add: n flip: power_add)
  qed
qed

lemma f_round_small:
  assumes "n \<le> 2 ^ 53"
  shows "f_round (n * 2 ^ 1074) 1 \<le> 2 ^ 63 - 1" and "f_units (f_round (n * 2 ^ 1074) 1) = n * 2 ^ 1074"
proof -
  have "f_round (n * 2 ^ 1074) 1 \<le> 2 ^ 63 - 1 \<and> f_units (f_round (n * 2 ^ 1074) 1) = n * 2 ^ 1074"
  proof (cases "n = 0")
    case True
    then show ?thesis by (simp add: f_round_def half_even_def f_units_def bitlen.simps)
  next
    case False
    with assms obtain c s where c: "2 ^ 52 \<le> c" "c < 2 ^ 53" and s: "s \<le> 1075"
      and n: "n * 2 ^ 1074 = c * 2 ^ s" by (metis small_normal neq0_conv)
    from s c(2) have "s * 2 ^ 52 + c \<le> f_top" by (simp add: f_top_def)
    with c have "f_round (c * 2 ^ s) 1 = s * 2 ^ 52 + c" by (rule f_round_normal)
    moreover have "s * 2 ^ 52 + c \<le> 2 ^ 63 - 1" using s c(2) by simp
    moreover have "f_units (s * 2 ^ 52 + c) = c * 2 ^ s" using c by (rule f_units_normal)
    ultimately show ?thesis using n by metis
  qed
  then show "f_round (n * 2 ^ 1074) 1 \<le> 2 ^ 63 - 1" and "f_units (f_round (n * 2 ^ 1074) 1) = n * 2 ^ 1074"
    by auto
qed

lemma f_make_parts:
  assumes "m \<le> 2 ^ 63 - 1"
  shows "f_neg (f_make neg m) = neg" and "f_mag (f_make neg m) = m"
proof -
  have "unat (f_make neg m) = (if neg then 2 ^ 63 + m else m)"
    using assms by (auto simp: f_make_def unat_of_nat)
  with assms show "f_neg (f_make neg m) = neg" and "f_mag (f_make neg m) = m"
    by (auto simp: f_neg_def f_mag_def)
qed

lemma f_trunc_of_int: "\<bar>i\<bar> \<le> 2 ^ 53 \<Longrightarrow> f_trunc (f_of_int i) = i"
proof -
  assume "\<bar>i\<bar> \<le> 2 ^ 53"
  then have n: "nat \<bar>i\<bar> \<le> 2 ^ 53" by simp
  note r = f_round_small[OF n]
  show ?thesis
    unfolding f_of_int_def f_trunc_def f_make_parts[OF r(1)] r(2)
    by simp
qed

end
