(* ===== verification/OcsfCoerce.thy ===== *)
theory OcsfCoerce
  imports RestTime GoFloat
begin

text \<open>
  The values of the OCSF processor (\<open>processor/ocsfstandardizationprocessor\<close>) and the coercion of a
  value to the type the schema gives its field (\<open>type_coerce.go\<close>), with the pieces of \<open>strconv\<close> and
  \<open>time\<close> it uses. A \<open>map[string]any\<close> is a reference into the heap of maps (\<open>OcsfBody\<close>); a slice is
  the list of its elements, since nothing here writes into one. An \<open>int\<close> has 64 bits.

  Parameters (\<open>coerce_lib\<close>): \<open>strconv.ParseFloat\<close>, \<open>time.Parse\<close> with the RFC 3339 layouts, and what the
  implementation makes of a float beyond the range of \<open>int64\<close>.
\<close>

section \<open>Values\<close>

datatype goval =
    GNil
  | GString string
  | GBool bool
  | GInt i64
  | GInt64 i64
  | GInt32 "32 word"
  | GFloat f64
  | GBytes bytes
  | GTime gotime
  | GMap nat
  | GSlice "goval list"
  | GOther string

text \<open>\<open>GInt\<close> is an \<open>int\<close>, \<open>GInt32\<close> and \<open>GTime\<close> are the severity number and the timestamp of a record,
  \<open>GOther\<close> a value of any other Go type, by its name.\<close>

section \<open>\<open>strconv.ParseInt\<close> with base 0\<close>

definition lower_char :: "char \<Rightarrow> char" where
  "lower_char c = (let n = of_char c :: nat in if 65 \<le> n \<and> n \<le> 90 then char_of (n + 32) else c)"

definition digit_value :: "char \<Rightarrow> nat option" where
  "digit_value c =
     (let n = of_char c :: nat; l = of_char (lower_char c) :: nat
      in if 48 \<le> n \<and> n \<le> 57 then Some (n - 48)
         else if 97 \<le> l \<and> l \<le> 122 then Some (l - 87)
         else None)"

text \<open>The loop of \<open>ParseUint\<close>: the value, and whether an underscore was seen; an overflow of \<open>uint64\<close> is
  an error as a bad digit is.\<close>

fun parse_digits :: "nat \<Rightarrow> string \<Rightarrow> nat \<Rightarrow> bool \<Rightarrow> (nat \<times> bool) option" where
  "parse_digits base [] n u = Some (n, u)"
| "parse_digits base (c # s) n u =
     (if c = CHR ''_'' then parse_digits base s n True
      else case digit_value c of
             None \<Rightarrow> None
           | Some d \<Rightarrow> if base \<le> d then None
                       else if 2 ^ 64 \<le> n * base + d then None
                       else parse_digits base s (n * base + d) u)"

datatype saw = SawStart | SawDigit | SawUnderscore | SawOther

fun underscores_ok :: "bool \<Rightarrow> string \<Rightarrow> saw \<Rightarrow> bool" where
  "underscores_ok hex [] w = (w \<noteq> SawUnderscore)"
| "underscores_ok hex (c # s) w =
     (if is_digit c \<or> hex \<and> (97 \<le> (of_char (lower_char c) :: nat) \<and> (of_char (lower_char c) :: nat) \<le> 102)
      then underscores_ok hex s SawDigit
      else if c = CHR ''_'' then (if w \<noteq> SawDigit then False else underscores_ok hex s SawUnderscore)
      else if w = SawUnderscore then False
      else underscores_ok hex s SawOther)"

definition underscoreOK :: "string \<Rightarrow> bool" where
  "underscoreOK s =
     (case s of
        c # d # r \<Rightarrow>
          if c = CHR ''0'' \<and> lower_char d \<in> {CHR ''b'', CHR ''o'', CHR ''x''}
          then underscores_ok (lower_char d = CHR ''x'') r SawDigit
          else underscores_ok False s SawStart
      | _ \<Rightarrow> underscores_ok False s SawStart)"

definition base_prefix :: "string \<Rightarrow> nat \<times> string" where
  "base_prefix s =
     (case s of
        c # r \<Rightarrow>
          if c \<noteq> CHR ''0'' then (10, s)
          else (case r of
                  d # x # y \<Rightarrow>
                    if lower_char d = CHR ''b'' then (2, x # y)
                    else if lower_char d = CHR ''o'' then (8, x # y)
                    else if lower_char d = CHR ''x'' then (16, x # y)
                    else (8, r)
                | _ \<Rightarrow> (8, r))
      | [] \<Rightarrow> (10, s))"

definition parseUint0 :: "string \<Rightarrow> nat option" where
  "parseUint0 s =
     (if s = [] then None
      else case base_prefix s of (base, r) \<Rightarrow>
             (case parse_digits base r 0 False of
                None \<Rightarrow> None
              | Some (n, u) \<Rightarrow> if u \<and> \<not> underscoreOK s then None else Some n))"

definition parseInt0 :: "string \<Rightarrow> int option" where
  "parseInt0 s =
     (case s of
        [] \<Rightarrow> None
      | c # r \<Rightarrow>
          let neg = (c = CHR ''-''); s' = (if c = CHR ''+'' \<or> c = CHR ''-'' then r else s)
          in case parseUint0 s' of
               None \<Rightarrow> None
             | Some un \<Rightarrow> if \<not> neg \<and> 2 ^ 63 \<le> un then None
                          else if neg \<and> 2 ^ 63 < un then None
                          else Some (if neg then - int un else int un))"

definition parseBool :: "string \<Rightarrow> bool option" where
  "parseBool s =
     (if s \<in> {''1'', ''t'', ''T'', ''true'', ''TRUE'', ''True''} then Some True
      else if s \<in> {''0'', ''f'', ''F'', ''false'', ''FALSE'', ''False''} then Some False
      else None)"

section \<open>Dates\<close>

text \<open>Year, month and day of a number of days since 1970-01-01, in the Gregorian calendar extended both
  ways. The computation counts in eras of 400 years that begin in March.\<close>

definition civil :: "int \<Rightarrow> int \<times> int \<times> int" where
  "civil days =
     (let z = days + 719468;
          era = z div 146097;
          doe = z mod 146097;
          yoe = (doe - doe div 1460 + doe div 36524 - doe div 146096) div 365;
          doy = doe - (365 * yoe + yoe div 4 - yoe div 100);
          mp = (5 * doy + 2) div 153;
          d = doy - (153 * mp + 2) div 5 + 1;
          m = (if mp < 10 then mp + 3 else mp - 9);
          y = yoe + era * 400
      in (if m \<le> 2 then y + 1 else y, m, d))"

definition pad_int :: "nat \<Rightarrow> int \<Rightarrow> string" where
  "pad_int w i =
     (let ds = dec_nat (nat \<bar>i\<bar>)
      in (if i < 0 then ''-'' else []) @ replicate (w - length ds) (CHR ''0'') @ ds)"

text \<open>\<open>time.UnixMilli(ms).UTC().Format(time.RFC3339)\<close>.\<close>

definition format_rfc3339_milli :: "int \<Rightarrow> string" where
  "format_rfc3339_milli ms =
     (let sec = ms div 1000; sod = sec mod 86400
      in case civil (sec div 86400) of (y, m, d) \<Rightarrow>
           pad_int 4 y @ ''-'' @ pad_int 2 m @ ''-'' @ pad_int 2 d @ ''T''
             @ pad_int 2 (sod div 3600) @ '':'' @ pad_int 2 (sod mod 3600 div 60) @ '':''
             @ pad_int 2 (sod mod 60) @ ''Z'')"

section \<open>Coercion\<close>

record coerce_lib =
  cl_ParseFloat :: "string \<Rightarrow> f64 option"
  cl_RFC3339 :: "string \<Rightarrow> gotime option"
  cl_RFC3339Nano :: "string \<Rightarrow> gotime option"
  cl_beyond :: "f64 \<Rightarrow> i64"

definition to_i64 :: "coerce_lib \<Rightarrow> f64 \<Rightarrow> i64" where
  "to_i64 lib = int64_of_float64 (cl_beyond lib)"

definition f_zero :: "f64 \<Rightarrow> bool" where
  "f_zero f = f_eq f (f_of_int 0)"

definition coerceToInt :: "coerce_lib \<Rightarrow> goval \<Rightarrow> goval" where
  "coerceToInt lib value =
     (case value of
        GInt v \<Rightarrow> GInt v
      | GInt64 v \<Rightarrow> GInt v
      | GFloat v \<Rightarrow> GInt (to_i64 lib v)
      | GString v \<Rightarrow> (case parseInt0 v of Some i \<Rightarrow> GInt (word_of_int i) | None \<Rightarrow> value)
      | GBool v \<Rightarrow> GInt (if v then 1 else 0)
      | _ \<Rightarrow> value)"

definition coerceToInt64 :: "coerce_lib \<Rightarrow> goval \<Rightarrow> goval" where
  "coerceToInt64 lib value =
     (case value of
        GInt64 v \<Rightarrow> GInt64 v
      | GInt v \<Rightarrow> GInt64 v
      | GFloat v \<Rightarrow> GInt64 (to_i64 lib v)
      | GString v \<Rightarrow> (case parseInt0 v of Some i \<Rightarrow> GInt64 (word_of_int i) | None \<Rightarrow> value)
      | GBool v \<Rightarrow> GInt64 (if v then 1 else 0)
      | _ \<Rightarrow> value)"

definition coerceToFloat64 :: "coerce_lib \<Rightarrow> goval \<Rightarrow> goval" where
  "coerceToFloat64 lib value =
     (case value of
        GFloat v \<Rightarrow> GFloat v
      | GInt v \<Rightarrow> GFloat (float64_of_int64 v)
      | GInt64 v \<Rightarrow> GFloat (float64_of_int64 v)
      | GString v \<Rightarrow> (case cl_ParseFloat lib v of Some f \<Rightarrow> GFloat f | None \<Rightarrow> value)
      | _ \<Rightarrow> value)"

definition coerceToBool :: "goval \<Rightarrow> goval" where
  "coerceToBool value =
     (case value of
        GBool v \<Rightarrow> GBool v
      | GString v \<Rightarrow> (case parseBool v of Some b \<Rightarrow> GBool b | None \<Rightarrow> value)
      | GInt v \<Rightarrow> GBool (v \<noteq> 0)
      | GInt64 v \<Rightarrow> GBool (v \<noteq> 0)
      | GFloat v \<Rightarrow> GBool (\<not> f_zero v)
      | _ \<Rightarrow> value)"

definition coerceToTimestamp :: "coerce_lib \<Rightarrow> goval \<Rightarrow> goval" where
  "coerceToTimestamp lib value =
     (case value of
        GInt64 v \<Rightarrow> GInt64 v
      | GInt v \<Rightarrow> GInt64 v
      | GFloat v \<Rightarrow> GInt64 (to_i64 lib v)
      | GString v \<Rightarrow>
          (case parseInt64 v of
             Some i \<Rightarrow> GInt64 (word_of_int i)
           | None \<Rightarrow>
               (case cl_RFC3339 lib v of
                  Some t \<Rightarrow> GInt64 (word_of_int (unix_units (10 ^ 6) t))
                | None \<Rightarrow>
                    (case cl_RFC3339Nano lib v of
                       Some t \<Rightarrow> GInt64 (word_of_int (unix_units (10 ^ 6) t))
                     | None \<Rightarrow> value)))
      | _ \<Rightarrow> value)"

definition coerceToDatetime :: "coerce_lib \<Rightarrow> goval \<Rightarrow> goval" where
  "coerceToDatetime lib value =
     (case value of
        GString v \<Rightarrow> GString v
      | GInt64 v \<Rightarrow> GString (format_rfc3339_milli (sint v))
      | GInt v \<Rightarrow> GString (format_rfc3339_milli (sint v))
      | GFloat v \<Rightarrow> GString (format_rfc3339_milli (sint (to_i64 lib v)))
      | _ \<Rightarrow> value)"

definition coerceType :: "coerce_lib \<Rightarrow> goval \<Rightarrow> string \<Rightarrow> goval" where
  "coerceType lib value typeName =
     (if typeName = ''integer'' then coerceToInt lib value
      else if typeName = ''long'' then coerceToInt64 lib value
      else if typeName = ''float'' then coerceToFloat64 lib value
      else if typeName = ''boolean'' then coerceToBool value
      else if typeName = ''datetime'' then coerceToDatetime lib value
      else if typeName = ''timestamp'' then coerceToTimestamp lib value
      else value)"

lemmas coerce_defs = coerceType_def coerceToInt_def coerceToInt64_def coerceToFloat64_def coerceToBool_def
  coerceToTimestamp_def coerceToDatetime_def

end
