(* ===== verification/Ocsf.thy ===== *)
theory Ocsf
  imports OcsfSchema OcsfCoerce
begin

text \<open>
  The OCSF processor (\<open>processor.go\<close>, \<open>config.go\<close>, \<open>utils.go\<close> of \<open>processor/ocsfstandardizationprocessor\<close>,
  \<open>record.go\<close> and \<open>expression.go\<close> of \<open>pkg/expr\<close>): a record is matched, its fields are mapped into a new body,
  the body is checked against the schema with the code \<open>ocsf/gen.go\<close> generates, and replaces the old one.

  Go maps are references and the processor writes into maps it reaches from the body, also into those
  that came from an expression or from the configuration. So the maps live in a heap: the list of all
  maps ever made, a reference being an index.

  Parameters (\<open>log_lib\<close>): the collector's log records and the library of expressions. Evaluation gets the
  heap, because the values of a record are maps, and may allocate; that it does not write into existing
  maps is the hypothesis \<open>appends\<close> where a property needs it.
\<close>

section \<open>The heap of maps\<close>

type_synonym gomap = "(string \<times> goval) list"
type_synonym gheap = "gomap list"

definition h_get :: "gheap \<Rightarrow> nat \<Rightarrow> string \<Rightarrow> goval option" where
  "h_get h l k = (if l < length h then map_of (h ! l) k else None)"

definition h_set :: "gheap \<Rightarrow> nat \<Rightarrow> string \<Rightarrow> goval \<Rightarrow> gheap" where
  "h_set h l k v = h[l := AList.update k v (h ! l)]"

text \<open>\<open>strings.Split(path, ".")\<close>.\<close>

fun split_dots :: "string \<Rightarrow> string list" where
  "split_dots [] = [[]]"
| "split_dots (c # s) =
     (if c = CHR ''.'' then [] # split_dots s
      else case split_dots s of p # ps \<Rightarrow> (c # p) # ps | [] \<Rightarrow> [[c]])"

fun setNestedValue :: "gheap \<Rightarrow> nat \<Rightarrow> string list \<Rightarrow> goval \<Rightarrow> gheap" where
  "setNestedValue h body [] value = h"
| "setNestedValue h body [part] value = h_set h body part value"
| "setNestedValue h body (part # p # ps) value =
     (case h_get h body part of
        Some (GMap n) \<Rightarrow> setNestedValue h n (p # ps) value
      | _ \<Rightarrow> setNestedValue (h_set (h @ [[]]) body part (GMap (length h))) (length h) (p # ps) value)"

section \<open>Validation\<close>

datatype validation_error =
    FieldRequired string
  | NoneSet "string list"
  | NotOneSet "string list" nat
  | InvalidInt string int
  | InvalidString string string
  | OutOfRange string int
  | TooLong string nat
  | InField string "validation_error list"
  | InElem string nat "validation_error list"
  | NotAMap
  | UnknownClassUID int

definition toInt64 :: "coerce_lib \<Rightarrow> goval \<Rightarrow> int option" where
  "toInt64 lib v =
     (case v of
        GInt64 n \<Rightarrow> Some (sint n)
      | GInt n \<Rightarrow> Some (sint n)
      | GFloat n \<Rightarrow> Some (sint (to_i64 lib n))
      | _ \<Rightarrow> None)"

text \<open>What the generated code checks with: the version's regular expression overrides by type, and
  \<open>regexp.MatchString\<close>.\<close>

record check_lib = coerce_lib +
  ck_overrides :: "(string \<times> string) list"
  ck_match :: "string \<Rightarrow> string \<Rightarrow> bool"

record typeConstraint =
  tc_Regex :: string
  tc_MaxLen :: int
  tc_Range :: "int list"

definition type_constraint :: "'z check_lib_scheme \<Rightarrow> schema \<Rightarrow> string \<Rightarrow> typeConstraint option" where
  "type_constraint ck sc typeName =
     (case map_of (sc_Types sc) typeName of
        None \<Rightarrow> None
      | Some t \<Rightarrow>
          (let over = (case map_of (ck_overrides ck) typeName of None \<Rightarrow> [] | Some p \<Rightarrow> p);
               regex = (if over = [] then ty_Regex t else over);
               maxlen = (case ty_MaxLen t of None \<Rightarrow> 0 | Some n \<Rightarrow> n);
               range = (if length (ty_Range t) = 2 then ty_Range t else [])
           in if regex \<noteq> [] \<or> maxlen > 0 \<or> length range = 2
              then Some \<lparr>tc_Regex = regex, tc_MaxLen = maxlen, tc_Range = range\<rparr> else None))"

definition parseIntEnumKeys :: "string list \<Rightarrow> int list" where
  "parseIntEnumKeys keys = sort (List.map_filter parseInt64 keys)"

definition has_suffix :: "string \<Rightarrow> string \<Rightarrow> bool" where
  "has_suffix s suf = (length suf \<le> length s \<and> drop (length s - length suf) s = suf)"

definition enum_check :: "coerce_lib \<Rightarrow> gomap \<Rightarrow> string \<Rightarrow> attribute \<Rightarrow> validation_error list" where
  "enum_check lib data name a =
     (if at_Enum a = [] \<or> at_IsArray a then []
      else if at_Type a \<in> {''long_t'', ''integer_t''} then
        (let vals = parseIntEnumKeys (at_Enum a)
         in if vals = [] then []
            else case map_of data name of
                   None \<Rightarrow> []
                 | Some v \<Rightarrow> (case toInt64 lib v of
                                None \<Rightarrow> []
                              | Some i \<Rightarrow> if i \<in> set vals then [] else [InvalidInt name i]))
      else if \<not> has_suffix (at_Type a) ''_t'' then []
      else case map_of data name of
             Some (GString s) \<Rightarrow> if s \<in> set (at_Enum a) then [] else [InvalidString name s]
           | _ \<Rightarrow> [])"

definition range_check :: "coerce_lib \<Rightarrow> gomap \<Rightarrow> string \<Rightarrow> int list \<Rightarrow> validation_error list" where
  "range_check lib data name rangeVals =
     (case map_of data name of
        None \<Rightarrow> []
      | Some v \<Rightarrow> (case toInt64 lib v of
                     None \<Rightarrow> []
                   | Some i \<Rightarrow> if i < rangeVals ! 0 \<or> i > rangeVals ! 1 then [OutOfRange name i] else []))"

definition maxlen_check :: "gomap \<Rightarrow> string \<Rightarrow> int \<Rightarrow> validation_error list" where
  "maxlen_check data name maxLen =
     (case map_of data name of
        Some (GString s) \<Rightarrow> if int (length s) > maxLen then [TooLong name (length s)] else []
      | _ \<Rightarrow> [])"

definition regex_check :: "'z check_lib_scheme \<Rightarrow> gomap \<Rightarrow> string \<Rightarrow> string \<Rightarrow> validation_error list" where
  "regex_check ck data name regex =
     (case map_of data name of
        Some (GString s) \<Rightarrow> if \<not> ck_match ck regex s then [InvalidString name s] else []
      | _ \<Rightarrow> [])"

definition type_check :: "'z check_lib_scheme \<Rightarrow> schema \<Rightarrow> gomap \<Rightarrow> string \<Rightarrow> attribute \<Rightarrow> validation_error list" where
  "type_check ck sc data name a =
     (if at_IsArray a then []
      else case type_constraint ck sc (at_Type a) of
             None \<Rightarrow> []
           | Some tc \<Rightarrow>
               (if tc_Range tc \<noteq> [] then range_check (coerce_lib.truncate ck) data name (tc_Range tc) else [])
               @ (if tc_MaxLen tc > 0 then maxlen_check data name (tc_MaxLen tc) else [])
               @ (if tc_Regex tc \<noteq> [] then regex_check ck data name (tc_Regex tc) else []))"

text \<open>The checks for fields that are missing.\<close>

definition missing_checks :: "attributes \<Rightarrow> constraints \<Rightarrow> gomap \<Rightarrow> validation_error list" where
  "missing_checks attrs con data =
     (let present = (\<lambda>f. map_of data f \<noteq> None);
          alo = filterFieldsInAttrs (AtLeastOne con) attrs;
          jo = filterFieldsInAttrs (JustOne con) attrs;
          count = length (filter present jo)
      in map (\<lambda>(n, a). FieldRequired n)
           (filter (\<lambda>(n, a). at_Requirement a = ''required'' \<and> \<not> present n) (sorted_entries attrs))
         @ (if alo \<noteq> [] \<and> \<not> list_ex present alo then [NoneSet alo] else [])
         @ (if jo \<noteq> [] \<and> count \<noteq> 1 then [NotOneSet jo count] else []))"

text \<open>The recursion into a nested object or an array of them; \<open>deep\<close> is the validation of the map at a
  place as an object of a type.\<close>

definition in_field :: "string \<Rightarrow> validation_error list \<Rightarrow> validation_error list" where
  "in_field name es = (if es = [] then [] else [InField name es])"

definition in_elem :: "string \<Rightarrow> nat \<Rightarrow> validation_error list \<Rightarrow> validation_error list" where
  "in_elem name i es = (if es = [] then [] else [InElem name i es])"

definition nested_elem ::
  "(string \<Rightarrow> nat \<Rightarrow> validation_error list option) \<Rightarrow> string \<Rightarrow> attribute \<Rightarrow> nat \<times> goval \<Rightarrow> validation_error list option"
where
  "nested_elem deep name a ie =
     (case snd ie of
        GMap m \<Rightarrow> map_option (in_elem name (fst ie)) (deep (at_ObjectType a) m)
      | _ \<Rightarrow> Some [])"

definition nested_check ::
  "(string \<Rightarrow> nat \<Rightarrow> validation_error list option) \<Rightarrow> gomap \<Rightarrow> string \<times> attribute \<Rightarrow> validation_error list option"
where
  "nested_check deep data na =
     (case na of (name, a) \<Rightarrow>
        if at_Type a \<noteq> ''object_t'' \<or> at_ObjectType a = [] then Some []
        else (case map_of data name of
                None \<Rightarrow> Some []
              | Some v \<Rightarrow>
                  if at_IsArray a then
                    (case v of
                       GSlice arr \<Rightarrow> map_option concat (those (map (nested_elem deep name a) (List.enumerate 0 arr)))
                     | _ \<Rightarrow> Some [])
                  else
                    (case v of
                       GMap m \<Rightarrow> map_option (in_field name) (deep (at_ObjectType a) m)
                     | _ \<Rightarrow> Some [])))"

text \<open>The checks of the values of single fields.\<close>

definition value_checks ::
  "'z check_lib_scheme \<Rightarrow> schema \<Rightarrow> attributes \<Rightarrow> gomap \<Rightarrow> validation_error list" where
  "value_checks ck sc attrs data =
     concat (map (\<lambda>(name, a). enum_check (coerce_lib.truncate ck) data name a) (sorted_entries attrs))
     @ concat (map (\<lambda>(name, a). type_check ck sc data name a) (sorted_entries attrs))"

text \<open>The function \<open>validate...\<close> that \<open>writeValidation\<close> generates for the attributes of an object, a class or a
  profile. The depth of the recursion is bounded by the first argument, and \<open>None\<close> is a validation that
  goes deeper.\<close>

fun validate ::
  "nat \<Rightarrow> 'z check_lib_scheme \<Rightarrow> schema \<Rightarrow> gheap \<Rightarrow> attributes \<Rightarrow> constraints \<Rightarrow> gomap \<Rightarrow> validation_error list option"
where
  "validate 0 ck sc h attrs con data = None"
| "validate (Suc n) ck sc h attrs con data =
     map_option (\<lambda>deep. missing_checks attrs con data @ value_checks ck sc attrs data @ concat deep)
       (those (map
          (nested_check
             (\<lambda>objType m. case map_of (sc_Objects sc) objType of
                None \<Rightarrow> Some []
              | Some ob \<Rightarrow> validate n ck sc h (filterOutProfileAttrs (ob_Attributes ob)) (ob_Constraints ob) (h ! m))
             data)
          (sorted_entries attrs)))"

text \<open>\<open>ValidateClass\<close>. Its switch over the profiles has the profiles of the classes.\<close>

definition class_profiles :: "schema \<Rightarrow> string list" where
  "class_profiles sc =
     concat (map (\<lambda>(n, cls). filter (\<lambda>p. p \<noteq> []) (map (at_Profile \<circ> snd) (ob_Attributes cls))) (sc_Classes sc))"

definition profile_attributes :: "schema \<Rightarrow> string \<Rightarrow> attributes" where
  "profile_attributes sc p = (case map_of (collectProfileAttrs sc) p of None \<Rightarrow> [] | Some as \<Rightarrow> as)"

definition ValidateClass ::
  "nat \<Rightarrow> 'z check_lib_scheme \<Rightarrow> schema \<Rightarrow> gheap \<Rightarrow> int \<Rightarrow> string list \<Rightarrow> goval \<Rightarrow> validation_error list option"
where
  "ValidateClass n ck sc h classUID profiles data =
     (case data of
        GMap l \<Rightarrow>
          (case find_class sc classUID of
             None \<Rightarrow> Some [UnknownClassUID classUID]
           | Some (name, cls) \<Rightarrow>
               map_option concat (those
                 (validate n ck sc h (filterOutProfileAttrs (ob_Attributes cls)) (ob_Constraints cls) (h ! l)
                  # map (\<lambda>p. if p \<in> set (class_profiles sc)
                              then validate n ck sc h (profile_attributes sc p) no_constraints (h ! l)
                              else Some []) profiles)))
      | _ \<Rightarrow> Some [NotAMap])"

section \<open>The processor\<close>

record ('log, 'res, 'e) log_lib = check_lib +
  lg_resource_raw :: "'res \<Rightarrow> gheap \<Rightarrow> gheap \<times> goval"
  lg_attributes_raw :: "'log \<Rightarrow> gheap \<Rightarrow> gheap \<times> goval"
  lg_body_raw :: "'log \<Rightarrow> gheap \<Rightarrow> gheap \<times> goval"
  lg_severity :: "'log \<Rightarrow> 32 word"
  lg_severity_text :: "'log \<Rightarrow> string"
  lg_time :: "'log \<Rightarrow> gotime"
  lg_set_body :: "gheap \<Rightarrow> nat \<Rightarrow> 'log \<Rightarrow> 'log option"
  lg_put_int :: "string \<Rightarrow> i64 \<Rightarrow> 'log \<Rightarrow> 'log"
  lg_evaluate :: "'e \<Rightarrow> gheap \<Rightarrow> nat \<Rightarrow> gheap \<times> (string + goval)"
  lg_compile_bool :: "string \<Rightarrow> 'e option"
  lg_compile_value :: "string \<Rightarrow> 'e option"

record 'e compiledFieldMapping =
  fm_from :: "'e option"
  fm_to :: string
  fm_default :: goval

record 'e compiledEventMapping =
  em_filter :: "'e option"
  em_classID :: i64
  em_profiles :: "string list"
  em_fieldMappings :: "'e compiledFieldMapping list"
  em_categoryUID :: i64

record 'e ocsf_processor =
  op_version :: string
  op_eventMappings :: "'e compiledEventMapping list"
  op_runtimeValidation :: bool
  op_schema :: schema

text \<open>\<open>ConvertToRecord\<close>: the record is a fresh map; the resource attributes in it are shared.\<close>

definition ConvertToRecord ::
  "('log, 'res, 'e) log_lib \<Rightarrow> gheap \<Rightarrow> 'log \<Rightarrow> goval \<Rightarrow> gheap \<times> nat" where
  "ConvertToRecord lib h lg resource =
     (case lg_attributes_raw lib lg h of (h1, attrs) \<Rightarrow>
      case lg_body_raw lib lg h1 of (h2, body) \<Rightarrow>
        (h2 @ [[(''resource'', resource), (''attributes'', attrs), (''body'', body),
                (''severity_enum'', GString (lg_severity_text lib lg)),
                (''severity_number'', GInt32 (lg_severity lib lg)),
                (''timestamp'', GTime (lg_time lib lg))]],
         length h2))"

definition MatchRecord :: "('log, 'res, 'e) log_lib \<Rightarrow> 'e \<Rightarrow> gheap \<Rightarrow> nat \<Rightarrow> gheap \<times> bool" where
  "MatchRecord lib e h rec =
     (case lg_evaluate lib e h rec of (h', r) \<Rightarrow> (h', r = Inr (GBool True)))"

definition getTypeUID :: "i64 \<Rightarrow> i64 \<Rightarrow> i64" where
  "getTypeUID classID activityID = classID * 100 + activityID"

text \<open>The value of a field before coercion.\<close>

definition mapping_value ::
  "('log, 'res, 'e) log_lib \<Rightarrow> 'e compiledFieldMapping \<Rightarrow> gheap \<Rightarrow> nat \<Rightarrow> gheap \<times> goval" where
  "mapping_value lib fm h rec =
     (case fm_from fm of
        None \<Rightarrow> (h, fm_default fm)
      | Some e \<Rightarrow>
          (case lg_evaluate lib e h rec of
             (h', Inl err) \<Rightarrow> (h', fm_default fm)
           | (h', Inr val) \<Rightarrow> (h', if val = GNil then fm_default fm else val)))"

definition coerced ::
  "('log, 'res, 'e) log_lib \<Rightarrow> schema \<Rightarrow> 'e compiledEventMapping \<Rightarrow> string \<Rightarrow> goval \<Rightarrow> goval" where
  "coerced lib sc em to value =
     (let typeName = LookupFieldType sc (sint (em_classID em)) (em_profiles em) to
      in if typeName \<noteq> [] then coerceType (coerce_lib.truncate lib) value typeName else value)"

definition apply_mapping ::
  "('log, 'res, 'e) log_lib \<Rightarrow> schema \<Rightarrow> 'e compiledEventMapping \<Rightarrow> nat \<Rightarrow> nat \<Rightarrow> 'e compiledFieldMapping \<Rightarrow> gheap \<Rightarrow> gheap"
where
  "apply_mapping lib sc em rec body fm h =
     (case mapping_value lib fm h rec of (h1, value) \<Rightarrow>
        if value = GNil then h1
        else (let v = coerced lib sc em (fm_to fm) value;
                  h2 = (if fm_to fm = ''activity_id''
                        then (case v of
                                GInt a \<Rightarrow> h_set h1 body ''type_uid'' (GInt64 (getTypeUID (em_classID em) a))
                              | _ \<Rightarrow> h1)
                        else h1)
              in setNestedValue h2 body (split_dots (fm_to fm)) v))"

definition new_body :: "string \<Rightarrow> 'e compiledEventMapping \<Rightarrow> gheap \<Rightarrow> gheap \<times> nat" where
  "new_body version em h =
     (h @ [[(''version'', GString version)]
             @ (if em_profiles em \<noteq> [] then [(''profiles'', GSlice (map GString (em_profiles em)))] else []),
           [(''class_uid'', GInt (em_classID em)), (''metadata'', GMap (length h)),
            (''category_uid'', GInt (em_categoryUID em))]],
      Suc (length h))"

definition build_body ::
  "('log, 'res, 'e) log_lib \<Rightarrow> 'e ocsf_processor \<Rightarrow> 'e compiledEventMapping \<Rightarrow> gheap \<Rightarrow> nat \<Rightarrow> gheap \<times> nat"
where
  "build_body lib osp em h rec =
     (case new_body (op_version osp) em h of (h1, body) \<Rightarrow>
        (fold (apply_mapping lib (op_schema osp) em rec body) (em_fieldMappings em) h1, body))"

text \<open>The outcome for a record: dropped or kept, or the validation went deeper than \<open>n\<close>.\<close>

datatype 'log outcome = Drop | Keep 'log | Deeper

definition finish_record ::
  "nat \<Rightarrow> ('log, 'res, 'e) log_lib \<Rightarrow> 'e ocsf_processor \<Rightarrow> 'e compiledEventMapping \<Rightarrow> gheap \<Rightarrow> nat \<Rightarrow> 'log \<Rightarrow> 'log outcome"
where
  "finish_record n lib osp em h body lg =
     (let verdict = (if op_runtimeValidation osp
                     then ValidateClass n lib (op_schema osp) h (sint (em_classID em)) (em_profiles em) (GMap body)
                     else Some [])
      in case verdict of
           None \<Rightarrow> Deeper
         | Some errs \<Rightarrow>
             if errs \<noteq> [] then Drop
             else (case lg_set_body lib h body lg of
                     None \<Rightarrow> Drop
                   | Some lg' \<Rightarrow> Keep (lg_put_int lib ''ocsf.class_uid'' (em_classID em) lg')))"

fun try_mappings ::
  "nat \<Rightarrow> ('log, 'res, 'e) log_lib \<Rightarrow> 'e ocsf_processor \<Rightarrow> 'e compiledEventMapping list \<Rightarrow> gheap \<Rightarrow> nat \<Rightarrow> 'log
     \<Rightarrow> gheap \<times> 'log outcome"
where
  "try_mappings n lib osp [] h rec lg = (h, Drop)"
| "try_mappings n lib osp (em # ems) h rec lg =
     (case (case em_filter em of None \<Rightarrow> (h, True) | Some e \<Rightarrow> MatchRecord lib e h rec) of (h1, matched) \<Rightarrow>
        if \<not> matched then try_mappings n lib osp ems h1 rec lg
        else (case build_body lib osp em h1 rec of (h2, body) \<Rightarrow>
                (h2, finish_record n lib osp em h2 body lg)))"

definition processLogRecord ::
  "nat \<Rightarrow> ('log, 'res, 'e) log_lib \<Rightarrow> 'e ocsf_processor \<Rightarrow> gheap \<Rightarrow> 'log \<Rightarrow> goval \<Rightarrow> gheap \<times> 'log outcome" where
  "processLogRecord n lib osp h lg resourceAttrs =
     (case ConvertToRecord lib h lg resourceAttrs of (h1, rec) \<Rightarrow>
        try_mappings n lib osp (op_eventMappings osp) h1 rec lg)"

text \<open>\<open>RemoveIf\<close> over the records of a scope; \<open>None\<close> when a validation went deeper.\<close>

fun process_scope ::
  "nat \<Rightarrow> ('log, 'res, 'e) log_lib \<Rightarrow> 'e ocsf_processor \<Rightarrow> gheap \<Rightarrow> goval \<Rightarrow> 'log list \<Rightarrow> gheap \<times> 'log list option"
where
  "process_scope n lib osp h res [] = (h, Some [])"
| "process_scope n lib osp h res (lg # lgs) =
     (case processLogRecord n lib osp h lg res of
        (h1, Deeper) \<Rightarrow> (h1, None)
      | (h1, Drop) \<Rightarrow> process_scope n lib osp h1 res lgs
      | (h1, Keep lg') \<Rightarrow> (case process_scope n lib osp h1 res lgs of (h2, r) \<Rightarrow> (h2, map_option ((#) lg') r)))"

fun process_scopes ::
  "nat \<Rightarrow> ('log, 'res, 'e) log_lib \<Rightarrow> 'e ocsf_processor \<Rightarrow> gheap \<Rightarrow> goval \<Rightarrow> 'log list list \<Rightarrow> gheap \<times> 'log list list option"
where
  "process_scopes n lib osp h res [] = (h, Some [])"
| "process_scopes n lib osp h res (s # ss) =
     (case process_scope n lib osp h res s of
        (h1, None) \<Rightarrow> (h1, None)
      | (h1, Some s') \<Rightarrow>
          (case process_scopes n lib osp h1 res ss of (h2, r) \<Rightarrow>
             (h2, map_option (\<lambda>ss'. if s' = [] then ss' else s' # ss') r)))"

fun processLogs ::
  "nat \<Rightarrow> ('log, 'res, 'e) log_lib \<Rightarrow> 'e ocsf_processor \<Rightarrow> gheap \<Rightarrow> ('res \<times> 'log list list) list
     \<Rightarrow> gheap \<times> ('res \<times> 'log list list) list option"
where
  "processLogs n lib osp h [] = (h, Some [])"
| "processLogs n lib osp h ((r, ss) # rs) =
     (case lg_resource_raw lib r h of (h0, res) \<Rightarrow>
      case process_scopes n lib osp h0 res ss of
        (h1, None) \<Rightarrow> (h1, None)
      | (h1, Some ss') \<Rightarrow>
          (case processLogs n lib osp h1 rs of (h2, q) \<Rightarrow>
             (h2, map_option (\<lambda>rs'. if ss' = [] then rs' else (r, ss') # rs') q)))"

section \<open>Configuration\<close>

record FieldMapping =
  FM_From :: string
  FM_To :: string
  FM_Default :: goval

record EventMapping =
  EM_Filter :: string
  EM_ClassID :: i64
  EM_Profiles :: "string list"
  EM_FieldMappings :: "FieldMapping list"

record ocsf_Config =
  OCSFVersion :: string
  EventMappings :: "EventMapping list"
  RuntimeValidation :: "bool option"

definition OCSFVersions :: "string list" where
  "OCSFVersions = [''1.0.0'', ''1.1.0'', ''1.2.0'', ''1.3.0'', ''1.4.0'', ''1.5.0'', ''1.6.0'', ''1.7.0'']"

datatype config_error =
    NoVersion
  | InvalidVersion string
  | ClassZero
  | BadFilter
  | BadProfile string
  | NoTo
  | NoSource
  | BadFrom
  | Coverage "coverage_error list"

definition default_paths :: "string list" where
  "default_paths = [''class_uid'', ''metadata.version'', ''category_uid'', ''type_uid'']"

fun check_fields :: "('log, 'res, 'e) log_lib \<Rightarrow> FieldMapping list \<Rightarrow> config_error option" where
  "check_fields lib [] = None"
| "check_fields lib (fm # fms) =
     (if FM_To fm = [] then Some NoTo
      else if FM_From fm = [] \<and> FM_Default fm = GNil then Some NoSource
      else if FM_From fm \<noteq> [] \<and> lg_compile_value lib (FM_From fm) = None then Some BadFrom
      else check_fields lib fms)"

definition check_event :: "('log, 'res, 'e) log_lib \<Rightarrow> schema \<Rightarrow> EventMapping \<Rightarrow> config_error option" where
  "check_event lib sc em =
     (if EM_ClassID em = 0 then Some ClassZero
      else if EM_Filter em \<noteq> [] \<and> lg_compile_bool lib (EM_Filter em) = None then Some BadFilter
      else case find (\<lambda>p. \<not> ValidateProfile sc (sint (EM_ClassID em)) p) (EM_Profiles em) of
             Some p \<Rightarrow> Some (BadProfile p)
           | None \<Rightarrow>
               (case check_fields lib (EM_FieldMappings em) of
                  Some e \<Rightarrow> Some e
                | None \<Rightarrow>
                    (case ValidateFieldCoverage sc (sint (EM_ClassID em)) (EM_Profiles em)
                            (default_paths @ map FM_To (EM_FieldMappings em)) of
                       [] \<Rightarrow> None
                     | es \<Rightarrow> Some (Coverage es))))"

text \<open>\<open>Config.Validate\<close>; \<open>schemas\<close> are the tables of \<open>getOCSFSchema\<close>.\<close>

definition Config_Validate :: "('log, 'res, 'e) log_lib \<Rightarrow> (string \<Rightarrow> schema) \<Rightarrow> ocsf_Config \<Rightarrow> config_error option" where
  "Config_Validate lib schemas cfg =
     (if OCSFVersion cfg = [] then Some NoVersion
      else if OCSFVersion cfg \<notin> set OCSFVersions then Some (InvalidVersion (OCSFVersion cfg))
      else case find (\<lambda>em. check_event lib (schemas (OCSFVersion cfg)) em \<noteq> None) (EventMappings cfg) of
             None \<Rightarrow> None
           | Some em \<Rightarrow> check_event lib (schemas (OCSFVersion cfg)) em)"

text \<open>\<open>newOCSFStandardizationProcessor\<close>. Go divides towards zero.\<close>

definition compile_field :: "('log, 'res, 'e) log_lib \<Rightarrow> FieldMapping \<Rightarrow> 'e compiledFieldMapping option" where
  "compile_field lib fm =
     (if FM_From fm = [] then Some \<lparr>fm_from = None, fm_to = FM_To fm, fm_default = FM_Default fm\<rparr>
      else case lg_compile_value lib (FM_From fm) of
             None \<Rightarrow> None
           | Some e \<Rightarrow> Some \<lparr>fm_from = Some e, fm_to = FM_To fm, fm_default = FM_Default fm\<rparr>)"

definition category_of :: "i64 \<Rightarrow> i64" where
  "category_of classID =
     word_of_int (if sint classID < 0 then - (- sint classID div 1000) else sint classID div 1000)"

definition compile_event :: "('log, 'res, 'e) log_lib \<Rightarrow> EventMapping \<Rightarrow> 'e compiledEventMapping option" where
  "compile_event lib em =
     (case those (map (compile_field lib) (EM_FieldMappings em)) of
        None \<Rightarrow> None
      | Some fms \<Rightarrow>
          (let cem = (\<lambda>f. \<lparr>em_filter = f, em_classID = EM_ClassID em, em_profiles = EM_Profiles em,
                           em_fieldMappings = fms, em_categoryUID = category_of (EM_ClassID em)\<rparr>)
           in if EM_Filter em = [] then Some (cem None)
              else map_option (\<lambda>f. cem (Some f)) (lg_compile_bool lib (EM_Filter em))))"

definition newOCSFStandardizationProcessor ::
  "('log, 'res, 'e) log_lib \<Rightarrow> (string \<Rightarrow> schema) \<Rightarrow> ocsf_Config \<Rightarrow> 'e ocsf_processor option" where
  "newOCSFStandardizationProcessor lib schemas cfg =
     map_option (\<lambda>ems. \<lparr>op_version = OCSFVersion cfg, op_eventMappings = ems,
         op_runtimeValidation = (case RuntimeValidation cfg of None \<Rightarrow> True | Some b \<Rightarrow> b),
         op_schema = schemas (OCSFVersion cfg)\<rparr>)
       (those (map (compile_event lib) (EventMappings cfg)))"

end
