(* ===== verification/OcsfTree.thy ===== *)
theory OcsfTree
  imports Ocsf "HOL-Library.Sublist"
begin

text \<open>
  The body the OCSF processor builds, as a tree. A node is a map the processor made itself, with its
  place in the heap; a leaf is a value that was mapped or set. \<open>holds\<close> relates a tree to the heap, \<open>tset\<close>
  is what \<open>setNestedValue\<close> does to the tree as long as the path does not lead through a map that is a leaf
  (\<open>tset_refines\<close>), and then no other map is written.
\<close>

datatype node = Leaf goval | Node nat "(string \<times> node) list"

fun entry :: "node \<Rightarrow> goval" where
  "entry (Leaf v) = v"
| "entry (Node l es) = GMap l"

fun locs :: "node \<Rightarrow> nat list" where
  "locs (Leaf v) = []"
| "locs (Node l es) = l # concat (map (\<lambda>e. locs (snd e)) es)"

fun holds :: "gheap \<Rightarrow> node \<Rightarrow> bool" where
  "holds h (Leaf v) = True"
| "holds h (Node l es) =
     (l < length h \<and> h ! l = map (\<lambda>(k, t). (k, entry t)) es \<and> (\<forall>e\<in>set es. holds h (snd e)))"

fun leaves :: "node \<Rightarrow> (string list \<times> goval) set" where
  "leaves (Leaf v) = {([], v)}"
| "leaves (Node l es) = (\<Union>e\<in>set es. (\<lambda>(p, v). (fst e # p, v)) ` leaves (snd e))"

text \<open>Keys are distinct and no node is empty.\<close>

fun proper :: "node \<Rightarrow> bool" where
  "proper (Leaf v) = True"
| "proper (Node l es) = (es \<noteq> [] \<and> distinct (map fst es) \<and> (\<forall>e\<in>set es. proper (snd e)))"

fun height :: "node \<Rightarrow> nat" where
  "height (Leaf v) = 0"
| "height (Node l es) = Suc (fold max (map (\<lambda>e. height (snd e)) es) 0)"

fun fresh :: "nat \<Rightarrow> string list \<Rightarrow> goval \<Rightarrow> node" where
  "fresh n [] v = Leaf v"
| "fresh n (k # ks) v = Node n [(k, fresh (Suc n) ks v)]"

fun tset :: "nat \<Rightarrow> string list \<Rightarrow> goval \<Rightarrow> node \<Rightarrow> node" where
  "tset n [] v t = Leaf v"
| "tset n (k # ks) v (Leaf w) = Leaf w"
| "tset n (k # ks) v (Node l es) =
     Node l (AList.update k (case map_of es k of
                               Some (Node l' es') \<Rightarrow> tset n ks v (Node l' es')
                             | _ \<Rightarrow> fresh n ks v) es)"

section \<open>Updates of entries\<close>

lemma update_cases:
  obtains (new) "k \<notin> fst ` set es" "AList.update k x es = es @ [(k, x)]"
  | (old) es1 y es2 where "es = es1 @ (k, y) # es2" "k \<notin> fst ` set es1" "map_of es k = Some y"
      "AList.update k x es = es1 @ (k, x) # es2"
proof (induction es arbitrary: thesis)
  case Nil
  then show ?case by simp
next
  case (Cons e es)
  obtain a b where e: "e = (a, b)" by (cases e)
  show ?case
  proof (cases "a = k")
    case True
    then show ?thesis using Cons(3)[of "[]" b es] by (simp add: e)
  next
    case False
    show ?thesis
    proof (rule Cons(1))
      assume "k \<notin> fst ` set es" "AList.update k x es = es @ [(k, x)]"
      then show thesis using Cons(2) False by (simp add: e)
    next
      fix es1 y es2
      assume "es = es1 @ (k, y) # es2" "k \<notin> fst ` set es1" "map_of es k = Some y"
        "AList.update k x es = es1 @ (k, x) # es2"
      then show thesis using Cons(3)[of "e # es1" y es2] False by (simp add: e)
    qed
  qed
qed

lemma update_map_entries:
  "AList.update k (f t) (map (\<lambda>(k, t). (k, f t)) es) = map (\<lambda>(k, t). (k, f t)) (AList.update k t es)"
  by (induction es) auto

lemma map_of_entries: "map_of (map (\<lambda>(k, t). (k, f t)) es) k = map_option f (map_of es k)"
  by (induction es) auto

lemma locs_update:
  "set (concat (map (\<lambda>e. locs (snd e)) (AList.update k x es)))
     \<subseteq> set (locs x) \<union> set (concat (map (\<lambda>e. locs (snd e)) es))"
  by (cases rule: update_cases[of k es x]) auto

text \<open>Replacing the node at a key keeps the places distinct when the new node takes only old places of
  that key or new ones.\<close>

lemma distinct_update:
  assumes "distinct (concat (map (\<lambda>e. locs (snd e)) es))" and "distinct (locs x)"
    and "\<And>j. j \<in> set (locs x) \<Longrightarrow>
           (case map_of es k of None \<Rightarrow> False | Some y \<Rightarrow> j \<in> set (locs y)) \<or> (\<forall>e\<in>set es. j \<notin> set (locs (snd e)))"
  shows "distinct (concat (map (\<lambda>e. locs (snd e)) (AList.update k x es)))"
proof (cases rule: update_cases[of k es x])
  case new
  then have "map_of es k = None" by (simp add: map_of_eq_None_iff)
  with assms(3) have "set (locs x) \<inter> set (concat (map (\<lambda>e. locs (snd e)) es)) = {}" by auto
  with new assms(1,2) show ?thesis by (simp add: Int_commute)
next
  case (old es1 y es2)
  define A where "A = concat (map (\<lambda>e. locs (snd e)) es1)"
  define B where "B = concat (map (\<lambda>e. locs (snd e)) es2)"
  have d: "distinct (A @ locs y @ B)" using assms(1) old(1) by (simp add: A_def B_def)
  have "j \<in> set (locs y) \<or> j \<notin> set A \<and> j \<notin> set B" if "j \<in> set (locs x)" for j
    using assms(3)[OF that] old(1,3) by (auto simp: A_def B_def)
  with d have "set (locs x) \<inter> set A = {}" "set (locs x) \<inter> set B = {}" by auto
  with d assms(2) have "distinct (A @ locs x @ B)" by auto
  then show ?thesis by (simp add: old(4) A_def B_def)
qed

lemma holds_frame:
  "holds h t \<Longrightarrow> (\<And>l. l \<in> set (locs t) \<Longrightarrow> l < length h' \<and> h' ! l = h ! l) \<Longrightarrow> holds h' t"
proof (induction h t rule: holds.induct)
  case (2 h l es)
  have "holds h' (snd e)" if "e \<in> set es" for e
    using 2(1)[OF that] 2(2,3) that by auto
  with 2(2,3) show ?case by simp
qed simp

lemma locs_bound: "holds h t \<Longrightarrow> l \<in> set (locs t) \<Longrightarrow> l < length h"
  by (induction h t rule: holds.induct) auto

section \<open>Writing into the tree\<close>

lemma holds_fresh:
  assumes "ks \<noteq> []" and "h' = setNestedValue (h @ [[]]) (length h) ks v"
  shows "holds h' (fresh (length h) ks v)"
    and "length h < length h'" and "take (length h) h' = h"
    and "set (locs (fresh (length h) ks v)) = {length h..<length h'}"
    and "distinct (locs (fresh (length h) ks v))"
proof -
  have "holds h' (fresh (length h) ks v) \<and> length h < length h' \<and> take (length h) h' = h
      \<and> set (locs (fresh (length h) ks v)) = {length h..<length h'} \<and> distinct (locs (fresh (length h) ks v))"
    using assms
  proof (induction ks arbitrary: h h')
    case Nil
    then show ?case by simp
  next
    case (Cons k ks)
    show ?case
    proof (cases ks)
      case Nil
      then have "h' = h @ [[(k, v)]]" using Cons(3) by (simp add: h_set_def)
      then show ?thesis using Nil by auto
    next
      case (Cons k2 ks2)
      define h1 where "h1 = h @ [[(k, GMap (Suc (length h)))]]"
      have "h' = setNestedValue (h1 @ [[]]) (length h1) ks v"
        using Cons.prems(2) Cons by (simp add: h_get_def h_set_def h1_def list_update_append)
      from Cons.IH[OF _ this] Cons
      have IH: "holds h' (fresh (length h1) ks v)" "length h1 < length h'" "take (length h1) h' = h1"
        "set (locs (fresh (length h1) ks v)) = {length h1..<length h'}" "distinct (locs (fresh (length h1) ks v))"
        by auto
      have "h' ! length h = h1 ! length h"
        using IH(2,3) by (metis h1_def length_append_singleton lessI nth_take)
      moreover have "take (length h) h' = h"
        using arg_cong[OF IH(3), of "take (length h)"] by (simp add: h1_def min_def)
      moreover have "entry (fresh (length h1) ks v) = GMap (length h1)" using Cons by simp
      ultimately show ?thesis using IH(1,2,4,5) by (auto simp: h1_def)
    qed
  qed
  then show "holds h' (fresh (length h) ks v)"
    and "length h < length h'" and "take (length h) h' = h"
    and "set (locs (fresh (length h) ks v)) = {length h..<length h'}"
    and "distinct (locs (fresh (length h) ks v))" by auto
qed

text \<open>The path does not lead through a map that is a leaf.\<close>

fun clear :: "node \<Rightarrow> string list \<Rightarrow> bool" where
  "clear (Node l es) (k # k2 # ks) =
     (case map_of es k of
        Some (Leaf (GMap m)) \<Rightarrow> False
      | Some (Node l' es') \<Rightarrow> clear (Node l' es') (k2 # ks)
      | _ \<Rightarrow> True)"
| "clear t ks = True"

definition written :: "gheap \<Rightarrow> gheap \<Rightarrow> node \<Rightarrow> node \<Rightarrow> bool" where
  "written h h' t t' \<longleftrightarrow>
     holds h' t' \<and> distinct (locs t') \<and> length h \<le> length h'
     \<and> set (locs t') \<subseteq> set (locs t) \<union> {length h..<length h'}
     \<and> (\<forall>j<length h. j \<notin> set (locs t) \<longrightarrow> h' ! j = h ! j)"

text \<open>The places below a key, and the entries an update leaves alone.\<close>

abbreviation below :: "(string \<times> node) list \<Rightarrow> nat list" where
  "below es \<equiv> concat (map (\<lambda>e. locs (snd e)) es)"

lemma locs_at: "map_of es k = Some y \<Longrightarrow> set (locs y) \<subseteq> set (below es)"
  by (drule map_of_SomeD) force

lemma locs_in: "e \<in> set es \<Longrightarrow> set (locs (snd e)) \<subseteq> set (below es)"
  by auto

lemma kept_entry:
  assumes "e \<in> set (AList.update k x es)" and "snd e \<noteq> x" and "distinct (below es)"
  shows "e \<in> set es" and "map_of es k = Some y \<Longrightarrow> set (locs (snd e)) \<inter> set (locs y) = {}"
proof -
  have "e \<in> set es \<and> (map_of es k = Some y \<longrightarrow> set (locs (snd e)) \<inter> set (locs y) = {})"
  proof (cases rule: update_cases[of k es x])
    case new
    then have "map_of es k = None" by (simp add: map_of_eq_None_iff)
    with new assms(1,2) show ?thesis by auto
  next
    case (old es1 y' es2)
    then have "e \<in> set es1 \<or> e \<in> set es2" using assms(1,2) by auto
    moreover have "distinct (below es1 @ locs y' @ below es2)" using assms(3) old(1) by simp
    then have "set (below es1) \<inter> set (locs y') = {}" "set (locs y') \<inter> set (below es2) = {}" by auto
    moreover note locs_in[of e es1] locs_in[of e es2]
    ultimately show ?thesis unfolding old(3) unfolding old(1) by (simp, blast)
  qed
  then show "e \<in> set es" and "map_of es k = Some y \<Longrightarrow> set (locs (snd e)) \<inter> set (locs y) = {}"
    by blast+
qed

text \<open>What a step below a key may have done: a new node for the key, of old places of that key and of
  new ones, everything else as it was.\<close>

definition replaces :: "gheap \<Rightarrow> gheap \<Rightarrow> (string \<times> node) list \<Rightarrow> string \<Rightarrow> node \<Rightarrow> bool" where
  "replaces h h1 es k x \<longleftrightarrow>
     holds h1 x \<and> distinct (locs x) \<and> length h \<le> length h1
     \<and> (\<forall>j\<in>set (locs x). (\<exists>y. map_of es k = Some y \<and> j \<in> set (locs y)) \<or> length h \<le> j)
     \<and> (\<forall>j<length h. (\<forall>y. map_of es k = Some y \<longrightarrow> j \<notin> set (locs y)) \<longrightarrow> h1 ! j = h ! j)"

lemma replaces_apart:
  assumes "replaces h h1 es k x" and "distinct (l # below es)" and "l < length h"
    and bound: "\<forall>j\<in>set (below es). j < length h"
  shows "l \<notin> set (locs x)" and "h1 ! l = h ! l" and "distinct (l # below (AList.update k x es))"
proof -
  show lx: "l \<notin> set (locs x)"
  proof
    assume "l \<in> set (locs x)"
    with assms(1,3) obtain y where y: "map_of es k = Some y" "l \<in> set (locs y)"
      unfolding replaces_def by (metis not_le)
    with assms(2) locs_at[OF y(1)] show False by (simp, blast)
  qed
  have "l \<notin> set (locs y)" if "map_of es k = Some y" for y
    using assms(2) locs_at[OF that] by (simp, blast)
  with assms(1,3) show "h1 ! l = h ! l" unfolding replaces_def by blast
  have "distinct (below (AList.update k x es))"
  proof (rule distinct_update)
    show "distinct (below es)" "distinct (locs x)" using assms(1,2) unfolding replaces_def by simp_all
    fix j
    assume "j \<in> set (locs x)"
    with assms(1) consider y where "map_of es k = Some y" "j \<in> set (locs y)" | "length h \<le> j"
      unfolding replaces_def by blast
    then show "(case map_of es k of None \<Rightarrow> False | Some y \<Rightarrow> j \<in> set (locs y)) \<or> (\<forall>e\<in>set es. j \<notin> set (locs (snd e)))"
    proof cases
      case 2
      have "j \<notin> set (locs (snd e))" if "e \<in> set es" for e
        using locs_in[OF that] bound 2 by (meson not_le subsetD)
      then show ?thesis by blast
    qed simp
  qed
  moreover have "l \<notin> set (below (AList.update k x es))"
    using locs_update[of k x es] lx assms(2) by (meson Un_iff distinct.simps(2) subsetD)
  ultimately show "distinct (l # below (AList.update k x es))" by simp
qed

lemma below_bound: "holds h (Node l es) \<Longrightarrow> \<forall>j\<in>set (below es). j < length h"
  using locs_bound[of h "Node l es"] by simp

text \<open>The step all cases share: the entry of the map is set to the new node.\<close>

lemma holds_entry:
  assumes t: "holds h (Node l es)" "distinct (l # below es)" and r: "replaces h h1 es k x"
    and e: "e \<in> set (AList.update k x es)"
  shows "holds (h_set h1 l k (entry x)) (snd e)"
proof -
  have l: "l < length h" using t(1) by simp
  note apart = replaces_apart[OF r t(2) l below_bound[OF t(1)]]
  have x: "holds h1 x" and len: "length h \<le> length h1" using r by (simp_all add: replaces_def)
  have set: "j < length (h_set h1 l k (entry x)) \<and> h_set h1 l k (entry x) ! j = h1 ! j"
    if "j < length h1" "j \<noteq> l" for j
    using that by (simp add: h_set_def)
  show ?thesis
  proof (cases "snd e = x")
    case True
    show ?thesis unfolding True
    proof (rule holds_frame[OF x])
      fix j
      assume "j \<in> set (locs x)"
      with apart(1) locs_bound[OF x] show "j < length (h_set h1 l k (entry x)) \<and> h_set h1 l k (entry x) ! j = h1 ! j"
        by (intro set) auto
    qed
  next
    case False
    have dist: "distinct (below es)" using t(2) by simp
    note kept = kept_entry[OF e False dist]
    have he: "holds h (snd e)" using t(1) kept(1) by simp
    show ?thesis
    proof (rule holds_frame[OF he])
      fix j
      assume j: "j \<in> set (locs (snd e))"
      have lt: "j < length h" using locs_bound[OF he j] .
      have "j \<noteq> l" using t(2) locs_in[OF kept(1)] j by (meson distinct.simps(2) subsetD)
      moreover have "h1 ! j = h ! j"
        using r lt kept(2) j unfolding replaces_def by blast
      ultimately show "j < length (h_set h1 l k (entry x)) \<and> h_set h1 l k (entry x) ! j = h ! j"
        using set[of j] lt len by simp
    qed
  qed
qed

lemma written_entry:
  assumes t: "holds h (Node l es)" "distinct (locs (Node l es))" and r: "replaces h h1 es k x"
  shows "written h (h_set h1 l k (entry x)) (Node l es) (Node l (AList.update k x es))"
proof -
  have d: "distinct (l # below es)" using t(2) by simp
  have l: "l < length h" and hl: "h ! l = map (\<lambda>(k, t). (k, entry t)) es" using t(1) by simp_all
  note apart = replaces_apart[OF r d l below_bound[OF t(1)]]
  have x: "holds h1 x" and len: "length h \<le> length h1" using r by (simp_all add: replaces_def)
  have "h_set h1 l k (entry x) ! l = map (\<lambda>(k, t). (k, entry t)) (AList.update k x es)"
    using l hl len apart(2) by (simp add: h_set_def update_map_entries)
  then have "holds (h_set h1 l k (entry x)) (Node l (AList.update k x es))"
    using holds_entry[OF t(1) d r] l len by (simp add: h_set_def)
  moreover have "set (locs (Node l (AList.update k x es))) \<subseteq> set (locs (Node l es)) \<union> {length h..<length (h_set h1 l k (entry x))}"
  proof -
    have "set (locs x) \<subseteq> set (below es) \<union> {length h..<length h1}"
    proof
      fix j
      assume j: "j \<in> set (locs x)"
      with r consider y where "map_of es k = Some y" "j \<in> set (locs y)" | "length h \<le> j"
        unfolding replaces_def by blast
      then show "j \<in> set (below es) \<union> {length h..<length h1}"
      proof cases
        case 1
        then show ?thesis using locs_at[OF 1(1)] by blast
      next
        case 2
        then show ?thesis using locs_bound[OF x j] by simp
      qed
    qed
    with locs_update[of k x es] show ?thesis by (simp add: h_set_def, blast)
  qed
  moreover have "h_set h1 l k (entry x) ! j = h ! j" if "j < length h" "j \<notin> set (locs (Node l es))" for j
  proof -
    have "h1 ! j = h ! j"
    proof -
      have "j \<notin> set (locs y)" if "map_of es k = Some y" for y
        using locs_at[OF that] \<open>j \<notin> set (locs (Node l es))\<close> by (simp, blast)
      with r that(1) show ?thesis unfolding replaces_def by blast
    qed
    with that show ?thesis by (simp add: h_set_def)
  qed
  ultimately show ?thesis using apart(3) len by (simp add: written_def h_set_def)
qed

lemma update_same: "map_of m k = Some v \<Longrightarrow> AList.update k v m = m"
  by (induction m) auto

lemma h_set_same: "h_get h l k = Some v \<Longrightarrow> h_set h l k v = h"
  by (auto simp: h_get_def h_set_def update_same split: if_splits)

lemma h_get_entry: "holds h (Node l es) \<Longrightarrow> h_get h l k = map_option entry (map_of es k)"
  by (simp add: h_get_def map_of_entries)

text \<open>A new branch below a key that holds no map.\<close>

lemma written_fresh:
  assumes t: "holds h (Node l es)" "distinct (locs (Node l es))" and ks: "ks \<noteq> []"
  shows "written h (setNestedValue (h_set (h @ [[]]) l k (GMap (length h))) (length h) ks v) (Node l es)
           (Node l (AList.update k (fresh (length h) ks v) es))"
proof -
  define hs where "hs = h_set h l k (GMap (length h))"
  define h' where "h' = setNestedValue (hs @ [[]]) (length hs) ks v"
  define h1 where "h1 = h'[l := h ! l]"
  have l: "l < length h" using t(1) by simp
  have len: "length hs = length h" by (simp add: hs_def h_set_def)
  have "h_set (h @ [[]]) l k (GMap (length h)) = hs @ [[]]"
    using l by (simp add: hs_def h_set_def nth_append list_update_append1)
  then have eq: "setNestedValue (h_set (h @ [[]]) l k (GMap (length h))) (length h) ks v = h'"
    by (simp add: h'_def len)
  note fr = holds_fresh[OF ks h'_def, unfolded len]
  have pre: "h' ! j = hs ! j" if "j < length h" for j
    using that fr(3) by (metis nth_take)
  have x: "holds h1 (fresh (length h) ks v)"
  proof (rule holds_frame[OF fr(1)])
    fix j
    assume "j \<in> set (locs (fresh (length h) ks v))"
    then have "length h \<le> j" "j < length h'" using fr(4) by simp_all
    with l show "j < length h1 \<and> h1 ! j = h' ! j" by (simp add: h1_def)
  qed
  have "h1 ! j = h ! j" if "j < length h" for j
    using that l pre[OF that] fr(2) by (cases "j = l") (simp_all add: h1_def hs_def h_set_def)
  then have "replaces h h1 es k (fresh (length h) ks v)"
    using x fr(2,4,5) by (simp add: replaces_def h1_def)
  from written_entry[OF t this] have "written h (h_set h1 l k (entry (fresh (length h) ks v))) (Node l es)
      (Node l (AList.update k (fresh (length h) ks v) es))" .
  moreover have "entry (fresh (length h) ks v) = GMap (length h)" using ks by (cases ks) simp_all
  moreover have "h_set h1 l k (GMap (length h)) = h'"
  proof -
    have "AList.update k (GMap (length h)) (h ! l) = h' ! l"
      using l pre[OF l] by (simp add: hs_def h_set_def)
    then show ?thesis using l fr(2) by (simp add: h_set_def h1_def)
  qed
  ultimately show ?thesis by (simp add: eq)
qed

lemma tset_refines:
  assumes "holds h (Node l es)" and "distinct (locs (Node l es))" and "ks \<noteq> []" and "clear (Node l es) ks"
  shows "written h (setNestedValue h l ks v) (Node l es) (tset (length h) ks v (Node l es))"
  using assms
proof (induction ks arbitrary: l es)
  case Nil
  then show ?case by simp
next
  case (Cons k ks)
  note t = Cons.prems(1,2)
  show ?case
  proof (cases ks)
    case Nil
    have "replaces h h es k (Leaf v)" by (simp add: replaces_def)
    from written_entry[OF t this] show ?thesis
      using Nil by (simp split: option.split node.split)
  next
    case ks: (Cons k2 ks2)
    then have ne: "ks \<noteq> []" by simp
    note get = h_get_entry[OF t(1), of k]
    show ?thesis
    proof (cases "map_of es k")
      case None
      with get written_fresh[OF t ne, of k v] ks show ?thesis by simp
    next
      case (Some x)
      show ?thesis
      proof (cases x)
        case (Leaf w)
        have "\<not> (\<exists>m. w = GMap m)" using Cons.prems(4) Some Leaf ks by auto
        with get Some Leaf written_fresh[OF t ne, of k v] ks show ?thesis
          by (simp split: goval.split)
      next
        case (Node l' es')
        have x: "holds h (Node l' es')" "distinct (locs (Node l' es'))"
        proof -
          have "(k, x) \<in> set es" using Some by (rule map_of_SomeD)
          with t(1) have "holds h (snd (k, x))" unfolding holds.simps by blast
          with Node show "holds h (Node l' es')" by simp
          from \<open>(k, x) \<in> set es\<close> obtain a b where "es = a @ (k, x) # b" by (meson split_list)
          with t(2) Node show "distinct (locs (Node l' es'))" by simp
        qed
        have "clear (Node l' es') ks" using Cons.prems(4) Some Node ks by simp
        from Cons.IH[OF x ne this]
        have IH: "written h (setNestedValue h l' ks v) (Node l' es') (tset (length h) ks v (Node l' es'))" .
        define h1 where "h1 = setNestedValue h l' ks v"
        have r: "replaces h h1 es k (tset (length h) ks v (Node l' es'))"
          using IH Some Node unfolding written_def replaces_def h1_def[symmetric] by (fastforce simp: Ball_def)
        have d: "distinct (l # below es)" using t(2) by simp
        have l: "l < length h" using t(1) by simp
        have same: "h1 ! l = h ! l" by (rule replaces_apart(2)[OF r d l below_bound[OF t(1)]])
        have "entry (tset (length h) ks v (Node l' es')) = GMap l'" using ks by simp
        moreover have "h_get h1 l k = Some (GMap l')"
          using get Some Node same l r by (simp add: h_get_def replaces_def)
        ultimately have "h_set h1 l k (entry (tset (length h) ks v (Node l' es'))) = h1"
          by (simp add: h_set_same)
        with written_entry[OF t r] have "written h h1 (Node l es) (Node l (AList.update k (tset (length h) ks v (Node l' es')) es))"
          by simp
        then show ?thesis using get Some Node ks by (simp add: h1_def)
      qed
    qed
  qed
qed

section \<open>The leaves of the tree\<close>

definition sub_leaves :: "string \<Rightarrow> (string list \<times> goval) set \<Rightarrow> (string list \<times> goval) set" where
  "sub_leaves k L = {(p, v). (k # p, v) \<in> L}"

lemma in_sub_leaves [simp]: "(p, v) \<in> sub_leaves k L \<longleftrightarrow> (k # p, v) \<in> L"
  by (simp add: sub_leaves_def)

lemma in_leaves: "(q, v) \<in> leaves (Node l es) \<longleftrightarrow> (\<exists>e\<in>set es. \<exists>p. q = fst e # p \<and> (p, v) \<in> leaves (snd e))"
proof -
  have "(q, v) \<in> (\<lambda>(p, v). (k # p, v)) ` L \<longleftrightarrow> (\<exists>p. q = k # p \<and> (p, v) \<in> L)" for k :: string and L :: "(string list \<times> goval) set"
    by force
  then show ?thesis unfolding leaves.simps UN_iff by blast
qed

declare leaves.simps(2) [simp del]

lemma leaves_child:
  assumes "distinct (map fst es)"
  shows "sub_leaves k (leaves (Node l es)) = (case map_of es k of None \<Rightarrow> {} | Some y \<Rightarrow> leaves y)"
proof (cases "map_of es k")
  case None
  then have "k \<notin> fst ` set es" by (simp add: map_of_eq_None_iff)
  then have "(p, v) \<notin> sub_leaves k (leaves (Node l es))" for p v
    unfolding in_sub_leaves in_leaves by blast
  then show ?thesis using None by auto
next
  case (Some y)
  have "snd e = y" if "e \<in> set es" "fst e = k" for e
    using that Some assms by (metis map_of_is_SomeI option.inject prod.collapse)
  moreover have "(k, y) \<in> set es" using Some by (rule map_of_SomeD)
  ultimately have "(p, v) \<in> sub_leaves k (leaves (Node l es)) \<longleftrightarrow> (p, v) \<in> leaves y" for p v
    unfolding in_sub_leaves in_leaves by (metis fst_conv list.inject snd_conv)
  then show ?thesis using Some by auto
qed

lemma leaves_nonempty: "(p, v) \<in> leaves (Node l es) \<Longrightarrow> p \<noteq> []"
  by (auto simp: in_leaves)

lemma proper_leaves: "proper t \<Longrightarrow> leaves t \<noteq> {}"
proof (induction t rule: proper.induct)
  case (2 l es)
  then obtain e where e: "e \<in> set es" "proper (snd e)" by (cases es) auto
  with 2(1) obtain p v where "(p, v) \<in> leaves (snd e)" by fastforce
  with e have "(fst e # p, v) \<in> leaves (Node l es)" unfolding in_leaves by blast
  then show ?case by blast
qed simp

lemma leaves_update:
  assumes "distinct (map fst es)"
  shows "leaves (Node l (AList.update k x es)) =
    {(p, v) \<in> leaves (Node l es). hd p \<noteq> k} \<union> (\<lambda>(p, v). (k # p, v)) ` leaves x"
proof (cases rule: update_cases[of k es x])
  case new
  then show ?thesis by (force simp: leaves.simps(2))
next
  case (old es1 y es2)
  then have "k \<notin> fst ` set es2" using assms by auto
  with old show ?thesis by (force simp: leaves.simps(2))
qed

lemma proper_update:
  "proper (Node l es) \<Longrightarrow> proper x \<Longrightarrow> proper (Node l (AList.update k x es))"
  by (cases rule: update_cases[of k es x]) auto

lemma fresh_leaves [simp]: "leaves (fresh n ks v) = {(ks, v)}" and fresh_proper [simp]: "proper (fresh n ks v)"
  by (induction ks arbitrary: n) (auto simp: leaves.simps(2))

lemma strict_prefix_Cons_same [simp]: "strict_prefix (k # p) (k # q) = strict_prefix p q"
  by (auto simp: strict_prefix_def)

lemma strict_prefix_Nil_left: "strict_prefix [] q \<longleftrightarrow> q \<noteq> []"
  by (auto simp: strict_prefix_def)

lemma clear_leaves:
  assumes "proper t" and "\<And>p m. (p, GMap m) \<in> leaves t \<Longrightarrow> \<not> strict_prefix p ks"
  shows "clear t ks"
  using assms
proof (induction t ks rule: clear.induct)
  case (1 l es k k2 ks)
  show ?case
  proof (cases "map_of es k")
    case None
    then show ?thesis by simp
  next
    case (Some x)
    from 1(2) have d: "distinct (map fst es)" by simp
    have sub: "(k # p, v) \<in> leaves (Node l es)" if "(p, v) \<in> leaves x" for p v
      using leaves_child[OF d, of k l] Some that unfolding in_sub_leaves[symmetric] by simp
    show ?thesis
    proof (cases x)
      case (Leaf w)
      have "\<not> (\<exists>m. w = GMap m)"
      proof
        assume "\<exists>m. w = GMap m"
        then obtain m where "([k], GMap m) \<in> leaves (Node l es)" using sub[of "[]"] Leaf by auto
        from 1(3)[OF this] show False by (simp add: strict_prefix_Nil_left)
      qed
      with Some Leaf show ?thesis by (simp split: goval.split)
    next
      case (Node l' es')
      have "proper (Node l' es')" using 1(2) map_of_SomeD[OF Some] Node by (metis proper.simps(2) snd_conv)
      moreover have "\<not> strict_prefix p (k2 # ks)" if "(p, GMap m) \<in> leaves (Node l' es')" for p m
        using 1(3)[OF sub[of p "GMap m"]] that Node by simp
      ultimately have "clear (Node l' es') (k2 # ks)" using 1(1)[OF Some Node] by blast
      with Some Node show ?thesis by simp
    qed
  qed
qed auto

text \<open>Setting a path that neither extends nor is extended by another leaf.\<close>

lemma tset_leaves:
  assumes "proper (Node l es)" and "ks \<noteq> []"
    and "\<And>p w. (p, w) \<in> leaves (Node l es) \<Longrightarrow> \<not> strict_prefix p ks \<and> \<not> strict_prefix ks p"
  shows "leaves (tset n ks v (Node l es)) = {(p, w) \<in> leaves (Node l es). p \<noteq> ks} \<union> {(ks, v)}"
    and "proper (tset n ks v (Node l es))"
proof -
  have "leaves (tset n ks v (Node l es)) = {(p, w) \<in> leaves (Node l es). p \<noteq> ks} \<union> {(ks, v)}
      \<and> proper (tset n ks v (Node l es))"
    using assms
  proof (induction ks arbitrary: l es)
    case Nil
    then show ?case by simp
  next
    case (Cons k ks)
    from Cons.prems(1) have d: "distinct (map fst es)" by simp
    note child = leaves_child[OF d, of k l]
    define x where "x = (case map_of es k of Some (Node l' es') \<Rightarrow> tset n ks v (Node l' es') | _ \<Rightarrow> fresh n ks v)"
    have t: "tset n (k # ks) v (Node l es) = Node l (AList.update k x es)" by (simp add: x_def)
    have sub: "\<not> strict_prefix p ks \<and> \<not> strict_prefix ks p"
      if "(p, w) \<in> sub_leaves k (leaves (Node l es))" for p w
      using Cons.prems(3)[of "k # p" w] that by simp
    have "leaves x = {(p, w) \<in> sub_leaves k (leaves (Node l es)). p \<noteq> ks} \<union> {(ks, v)} \<and> proper x"
    proof (cases "map_of es k")
      case None
      then show ?thesis using child by (simp add: x_def)
    next
      case (Some y)
      have y: "proper y" using Cons.prems(1) map_of_SomeD[OF Some] by (metis proper.simps(2) snd_conv)
      show ?thesis
      proof (cases y)
        case (Leaf w)
        then have "ks = []" using sub[of "[]" w] child Some by (simp add: strict_prefix_Nil_left)
        then show ?thesis using child Some Leaf by (auto simp: x_def)
      next
        case (Node l' es')
        have "ks \<noteq> []"
        proof
          assume "ks = []"
          obtain p w where pw: "(p, w) \<in> leaves y" using proper_leaves[OF y] by auto
          then have "p \<noteq> []" using Node leaves_nonempty by blast
          with sub[of p w] pw child Some \<open>ks = []\<close> show False by (simp add: strict_prefix_Nil_left)
        qed
        with Cons.IH[of l' es'] sub y child Some Node show ?thesis by (simp add: x_def)
      qed
    qed
    then have lx: "leaves x = {(p, w) \<in> sub_leaves k (leaves (Node l es)). p \<noteq> ks} \<union> {(ks, v)}" and px: "proper x"
      by blast+
    have "leaves (Node l (AList.update k x es)) =
        {(p, w) \<in> leaves (Node l es). p \<noteq> k # ks} \<union> {(k # ks, v)}"
    proof (rule set_eqI)
      fix pw :: "string list \<times> goval"
      obtain p w where pw: "pw = (p, w)" by (cases pw)
      show "pw \<in> leaves (Node l (AList.update k x es)) \<longleftrightarrow>
          pw \<in> {(p, w) \<in> leaves (Node l es). p \<noteq> k # ks} \<union> {(k # ks, v)}"
      proof (cases p)
        case Nil
        with leaves_nonempty[of p w l es] show ?thesis unfolding leaves_update[OF d] by (auto simp: pw)
      next
        case (Cons k' p')
        then show ?thesis unfolding leaves_update[OF d] lx by (auto simp: pw image_iff)
      qed
    qed
    then show ?case unfolding t using proper_update[OF Cons.prems(1) px] by simp
  qed
  then show "leaves (tset n ks v (Node l es)) = {(p, w) \<in> leaves (Node l es). p \<noteq> ks} \<union> {(ks, v)}"
    and "proper (tset n ks v (Node l es))" by blast+
qed

end
