(* ===== verification/OcsfRecords.thy ===== *)
theory OcsfRecords
  imports OcsfTree
begin

text \<open>
  What the OCSF processor does to the heap of maps and what it puts into a body: as long as no mapped path
  leads through another one, only maps the processor made are written, and every value in the body is one
  the processor sets itself or a mapped one of the type the schema gives the field.
\<close>

section \<open>Paths\<close>

fun join_dots :: "string list \<Rightarrow> string" where
  "join_dots [] = []"
| "join_dots [p] = p"
| "join_dots (p # q # ps) = p @ CHR ''.'' # join_dots (q # ps)"

lemma split_dots_nonempty [simp]: "split_dots s \<noteq> []"
  by (induction s) (auto split: list.split)

lemma join_split: "join_dots (split_dots s) = s"
proof (induction s)
  case (Cons c s)
  obtain p ps where "split_dots s = p # ps" by (meson neq_Nil_conv split_dots_nonempty)
  with Cons show ?case by (cases ps) auto
qed simp

lemma split_dots_inject [simp]: "split_dots a = split_dots b \<longleftrightarrow> a = b"
  by (metis join_split)

lemma splitFirst_split:
  "split_dots s = fst (splitFirst s) # (if CHR ''.'' \<in> set s then split_dots (snd (splitFirst s)) else [])"
proof (induction s)
  case (Cons c s)
  then show ?case by (auto simp: splitFirst_def)
qed (simp add: splitFirst_def)

definition prefix_free :: "string list list \<Rightarrow> bool" where
  "prefix_free ps = list_all (\<lambda>p. list_all (\<lambda>q. \<not> strict_prefix p q) ps) ps"

lemma prefix_free_apart: "prefix_free ps \<Longrightarrow> p \<in> set ps \<Longrightarrow> q \<in> set ps \<Longrightarrow> \<not> strict_prefix p q"
  by (simp add: prefix_free_def list_all_iff)

text \<open>The paths the processor sets itself.\<close>

definition own_paths :: "string list list" where
  "own_paths = [[''class_uid''], [''metadata'', ''version''], [''metadata'', ''profiles''], [''category_uid''],
                [''type_uid'']]"

definition well_mapped :: "'e compiledEventMapping \<Rightarrow> bool" where
  "well_mapped em = prefix_free (own_paths @ map (\<lambda>fm. split_dots (fm_to fm)) (em_fieldMappings em))"

text \<open>The libraries allocate maps and write into none.\<close>

definition appends :: "('log, 'res, 'e) log_lib \<Rightarrow> bool" where
  "appends lib \<longleftrightarrow>
     (\<forall>e h rec. \<exists>x. fst (lg_evaluate lib e h rec) = h @ x)
     \<and> (\<forall>r h. \<exists>x. fst (lg_resource_raw lib r h) = h @ x)
     \<and> (\<forall>lg h. \<exists>x. fst (lg_attributes_raw lib lg h) = h @ x)
     \<and> (\<forall>lg h. \<exists>x. fst (lg_body_raw lib lg h) = h @ x)"

lemma holds_append: "holds h t \<Longrightarrow> holds (h @ x) t"
proof -
  assume t: "holds h t"
  show ?thesis
    by (rule holds_frame[OF t]) (use locs_bound[OF t] in \<open>auto simp: nth_append intro: trans_less_add1\<close>)
qed

section \<open>The body while it is built\<close>

text \<open>The body is a tree on maps made since \<open>h0\<close>, whose maps are as they were; its leaves are at the paths
  \<open>ps\<close>.\<close>

definition building :: "gheap \<Rightarrow> string list list \<Rightarrow> nat \<Rightarrow> gheap \<Rightarrow> node \<Rightarrow> bool" where
  "building h0 ps body h t \<longleftrightarrow>
     holds h t \<and> distinct (locs t) \<and> proper t \<and> (\<exists>es. t = Node body es)
     \<and> (\<forall>l\<in>set (locs t). length h0 \<le> l) \<and> length h0 \<le> length h \<and> take (length h0) h = h0
     \<and> fst ` leaves t \<subseteq> set ps"

definition put :: "string list \<Rightarrow> goval \<Rightarrow> (string list \<times> goval) set \<Rightarrow> (string list \<times> goval) set" where
  "put p v L = {(q, w) \<in> L. q \<noteq> p} \<union> {(p, v)}"

lemma building_leaf: "building h0 ps body h t \<Longrightarrow> (p, w) \<in> leaves t \<Longrightarrow> p \<in> set ps"
  unfolding building_def by (metis fst_conv image_eqI subsetD)

lemma building_append:
  "building h0 ps body h t \<Longrightarrow> building h0 ps body (h @ x) t"
  by (auto simp: building_def holds_append)

lemma building_set:
  assumes b: "building h0 ps body h t" and pf: "prefix_free ps" and ks: "ks \<in> set ps" "ks \<noteq> []"
  obtains t' where "building h0 ps body (setNestedValue h body ks v) t'" and "leaves t' = put ks v (leaves t)"
proof -
  from b obtain es where t: "t = Node body es" unfolding building_def by blast
  have apart: "\<not> strict_prefix p ks \<and> \<not> strict_prefix ks p" if "(p, w) \<in> leaves t" for p w
    using building_leaf[OF b that] prefix_free_apart[OF pf] ks(1) by blast
  have pt: "proper (Node body es)" using b t by (simp add: building_def)
  have cl: "clear (Node body es) ks" using clear_leaves[OF pt] apart t by blast
  have h: "holds h (Node body es)" "distinct (locs (Node body es))" using b t by (simp_all add: building_def)
  define t' where "t' = tset (length h) ks v (Node body es)"
  define h' where "h' = setNestedValue h body ks v"
  have w: "written h h' (Node body es) t'"
    unfolding h'_def t'_def by (rule tset_refines[OF h ks(2) cl])
  have lv: "leaves t' = put ks v (leaves t)" and pt': "proper t'"
    using tset_leaves[OF pt ks(2), of "length h" v] apart t by (simp_all add: t'_def put_def)
  have w1: "holds h' t'" "distinct (locs t')" "length h \<le> length h'"
    and w2: "set (locs t') \<subseteq> set (locs (Node body es)) \<union> {length h..<length h'}"
    and w3: "\<And>j. j < length h \<Longrightarrow> j \<notin> set (locs (Node body es)) \<Longrightarrow> h' ! j = h ! j"
    using w unfolding written_def by blast+
  have b1: "\<And>l. l \<in> set (locs (Node body es)) \<Longrightarrow> length h0 \<le> l" and b2: "length h0 \<le> length h"
    and b3: "take (length h0) h = h0" and b4: "fst ` leaves t \<subseteq> set ps"
    using b t unfolding building_def by blast+
  have "take (length h0) h' = h0"
  proof (rule nth_equalityI)
    show "length (take (length h0) h') = length h0" using w1(3) b2 by simp
    fix i
    assume "i < length (take (length h0) h')"
    then have i: "i < length h0" by simp
    then have "i \<notin> set (locs (Node body es))" using b1 not_le by blast
    then have "h' ! i = h ! i" using w3 i b2 by simp
    also have "\<dots> = h0 ! i" using b3 i by (metis nth_take)
    finally show "take (length h0) h' ! i = h0 ! i" using i by simp
  qed
  moreover have "fst ` leaves t' \<subseteq> set ps"
    using b4 ks(1) unfolding lv put_def by auto
  moreover have "\<forall>l\<in>set (locs t'). length h0 \<le> l"
  proof
    fix l
    assume "l \<in> set (locs t')"
    with w2 have "l \<in> set (locs (Node body es)) \<or> length h \<le> l" by (meson UnE atLeastLessThan_iff subsetD)
    with b1 b2 show "length h0 \<le> l" by (meson le_trans)
  qed
  moreover have "\<exists>es'. t' = Node body es'" using ks(2) by (cases ks) (simp_all add: t'_def)
  moreover have "length h0 \<le> length h'" using b2 w1(3) by simp
  ultimately have "building h0 ps body h' t'"
    unfolding building_def using w1(1,2) pt' by blast
  with lv show thesis using that unfolding h'_def by blast
qed

lemma h_set_setNested: "h_set h body k v = setNestedValue h body [k] v"
  by simp

text \<open>A mapping leaves the tree alone or puts the coerced value at its path, and the type id before an
  activity.\<close>

lemma mapping_value_append:
  assumes "appends lib"
  shows "\<exists>x. fst (mapping_value lib fm h rec) = h @ x"
proof (cases "fm_from fm")
  case None
  then show ?thesis by (simp add: mapping_value_def)
next
  case (Some e)
  have "fst (mapping_value lib fm h rec) = fst (lg_evaluate lib e h rec)"
    by (simp add: mapping_value_def Some split: prod.split sum.split)
  with assms show ?thesis by (simp add: appends_def)
qed

definition activity_leaves ::
  "'e compiledEventMapping \<Rightarrow> string \<Rightarrow> goval \<Rightarrow> (string list \<times> goval) set \<Rightarrow> (string list \<times> goval) set" where
  "activity_leaves em to v L =
     (case v of
        GInt a \<Rightarrow> if to = ''activity_id'' then put [''type_uid''] (GInt64 (getTypeUID (em_classID em) a)) L else L
      | _ \<Rightarrow> L)"

definition put_mapping ::
  "('log, 'res, 'e) log_lib \<Rightarrow> schema \<Rightarrow> 'e compiledEventMapping \<Rightarrow> 'e compiledFieldMapping \<Rightarrow> goval
     \<Rightarrow> (string list \<times> goval) set \<Rightarrow> (string list \<times> goval) set" where
  "put_mapping lib sc em fm w L =
     (if w = GNil then L
      else put (split_dots (fm_to fm)) (coerced lib sc em (fm_to fm) w)
             (activity_leaves em (fm_to fm) (coerced lib sc em (fm_to fm) w) L))"

lemma building_mapping:
  assumes b: "building h0 ps body h t" and pf: "prefix_free ps" and lib: "appends lib"
    and to: "split_dots (fm_to fm) \<in> set ps" and ty: "[''type_uid''] \<in> set ps"
    and v: "value = snd (mapping_value lib fm h rec)"
  obtains t' where "building h0 ps body (apply_mapping lib sc em rec body fm h) t'"
    and "leaves t' = put_mapping lib sc em fm value (leaves t)"
proof -
  obtain h1 where mv: "mapping_value lib fm h rec = (h1, value)" using v by (metis prod.collapse)
  obtain x where "h1 = h @ x" using mapping_value_append[OF lib, of fm h rec] mv by auto
  then have b1: "building h0 ps body h1 t" using building_append[OF b] by simp
  define c where "c = coerced lib sc em (fm_to fm) value"
  show thesis
  proof (cases "value = GNil")
    case True
    with b1 mv show thesis by (intro that[of t]) (simp_all add: apply_mapping_def put_mapping_def)
  next
    case False
    define h2 where "h2 = (if fm_to fm = ''activity_id''
        then (case c of GInt a \<Rightarrow> h_set h1 body ''type_uid'' (GInt64 (getTypeUID (em_classID em) a)) | _ \<Rightarrow> h1)
        else h1)"
    obtain t2 where t2: "building h0 ps body h2 t2" "leaves t2 = activity_leaves em (fm_to fm) c (leaves t)"
    proof (cases "\<exists>a. c = GInt a \<and> fm_to fm = ''activity_id''")
      case True
      then obtain a where a: "c = GInt a" "fm_to fm = ''activity_id''" by blast
      obtain t2 where "building h0 ps body (setNestedValue h1 body [''type_uid''] (GInt64 (getTypeUID (em_classID em) a))) t2"
        and "leaves t2 = put [''type_uid''] (GInt64 (getTypeUID (em_classID em) a)) (leaves t)"
        using building_set[OF b1 pf ty] by blast
      with a show thesis by (intro that[of t2]) (simp_all add: h2_def activity_leaves_def)
    next
      case False
      with b1 show thesis
        by (intro that[of t]) (auto simp: h2_def activity_leaves_def split: goval.split)
    qed
    obtain t3 where "building h0 ps body (setNestedValue h2 body (split_dots (fm_to fm)) c) t3"
      and "leaves t3 = put (split_dots (fm_to fm)) c (leaves t2)"
      using building_set[OF t2(1) pf to split_dots_nonempty] by blast
    moreover have "apply_mapping lib sc em rec body fm h = setNestedValue h2 body (split_dots (fm_to fm)) c"
      using mv False by (simp add: apply_mapping_def h2_def c_def Let_def)
    ultimately show thesis using False t2(2) by (intro that[of t3]) (simp_all add: c_def put_mapping_def)
  qed
qed

section \<open>A whole body\<close>

lemma in_put: "(p, v) \<in> put q w L \<longleftrightarrow> (if p = q then v = w else (p, v) \<in> L)"
  by (auto simp: put_def)

lemma in_activity_leaves: "(p, v) \<in> activity_leaves em to c L \<Longrightarrow> (p, v) \<in> L \<or> p = [''type_uid'']"
  by (cases c) (simp_all add: activity_leaves_def in_put split: if_splits)

lemma put_mapping_origin:
  assumes "(p, v) \<in> put_mapping lib sc em fm w L"
  shows "(p, v) \<in> L \<or> p = [''type_uid'']
    \<or> (w \<noteq> GNil \<and> p = split_dots (fm_to fm) \<and> v = coerced lib sc em (fm_to fm) w)"
proof (cases "w = GNil \<or> p = split_dots (fm_to fm)")
  case True
  with assms show ?thesis by (cases "w = GNil") (simp_all add: in_put put_mapping_def)
next
  case False
  with assms have "(p, v) \<in> activity_leaves em (fm_to fm) (coerced lib sc em (fm_to fm) w) L"
    by (simp add: in_put put_mapping_def)
  from in_activity_leaves[OF this] show ?thesis by blast
qed

abbreviation put_all ::
  "('log, 'res, 'e) log_lib \<Rightarrow> schema \<Rightarrow> 'e compiledEventMapping \<Rightarrow> 'e compiledFieldMapping list \<Rightarrow> goval list
     \<Rightarrow> (string list \<times> goval) set \<Rightarrow> (string list \<times> goval) set" where
  "put_all lib sc em fms ws \<equiv> fold (\<lambda>(fm, w). put_mapping lib sc em fm w) (zip fms ws)"

lemma put_all_origin:
  assumes "length fms = length ws" and "(p, v) \<in> put_all lib sc em fms ws L"
  shows "(p, v) \<in> L \<or> p = [''type_uid'']
    \<or> (\<exists>(fm, w)\<in>set (zip fms ws). w \<noteq> GNil \<and> p = split_dots (fm_to fm) \<and> v = coerced lib sc em (fm_to fm) w)"
  using assms
proof (induction fms ws arbitrary: L rule: list_induct2)
  case Nil
  then show ?case by simp
next
  case (Cons fm fms w ws)
  then have "(p, v) \<in> put_all lib sc em fms ws (put_mapping lib sc em fm w L)" by simp
  with Cons.IH[of "put_mapping lib sc em fm w L"] Cons.hyps put_mapping_origin[of p v lib sc em fm w L]
  show ?case by auto
qed

text \<open>The values the mappings found, each in the heap of its turn.\<close>

definition found :: "('log, 'res, 'e) log_lib \<Rightarrow> nat \<Rightarrow> 'e compiledFieldMapping \<Rightarrow> goval \<Rightarrow> bool" where
  "found lib rec fm w \<longleftrightarrow> (\<exists>h. w = snd (mapping_value lib fm h rec))"

lemma fold_building:
  assumes "building h0 ps body h t" and "prefix_free ps" and "appends lib" and "[''type_uid''] \<in> set ps"
    and "\<And>fm. fm \<in> set fms \<Longrightarrow> split_dots (fm_to fm) \<in> set ps"
  obtains t' ws where "building h0 ps body (fold (apply_mapping lib sc em rec body) fms h) t'"
    and "list_all2 (found lib rec) fms ws" and "leaves t' = put_all lib sc em fms ws (leaves t)"
  using assms
proof (induction fms arbitrary: h t thesis)
  case Nil
  then show ?case by (simp add: Nil(1)[of t "[]"])
next
  case (Cons fm fms)
  define val where "val = snd (mapping_value lib fm h rec)"
  have to: "split_dots (fm_to fm) \<in> set ps" using Cons.prems(6) by simp
  obtain t1 where t1: "building h0 ps body (apply_mapping lib sc em rec body fm h) t1"
    and l1: "leaves t1 = put_mapping lib sc em fm val (leaves t)"
    using building_mapping[OF Cons.prems(2,3,4) to Cons.prems(5) val_def] by blast
  have rest: "split_dots (fm_to f) \<in> set ps" if "f \<in> set fms" for f using Cons.prems(6) that by simp
  show ?case
  proof (rule Cons.IH[OF _ t1 Cons.prems(3,4,5) rest])
    fix t' ws
    assume t': "building h0 ps body (fold (apply_mapping lib sc em rec body) fms (apply_mapping lib sc em rec body fm h)) t'"
      and ws: "list_all2 (found lib rec) fms ws" and l': "leaves t' = put_all lib sc em fms ws (leaves t1)"
    show thesis
    proof (rule Cons.prems(1)[of t' "val # ws"])
      show "building h0 ps body (fold (apply_mapping lib sc em rec body) (fm # fms) h) t'" using t' by simp
      show "list_all2 (found lib rec) (fm # fms) (val # ws)" using ws by (auto simp: found_def val_def)
      show "leaves t' = put_all lib sc em (fm # fms) (val # ws) (leaves t)" using l' l1 by simp
    qed
  qed
qed

definition first_body :: "string \<Rightarrow> 'e compiledEventMapping \<Rightarrow> nat \<Rightarrow> node" where
  "first_body version em n =
     Node (Suc n)
       [(''class_uid'', Leaf (GInt (em_classID em))),
        (''metadata'', Node n ((''version'', Leaf (GString version))
           # (if em_profiles em \<noteq> [] then [(''profiles'', Leaf (GSlice (map GString (em_profiles em))))] else []))),
        (''category_uid'', Leaf (GInt (em_categoryUID em)))]"

definition body_paths :: "'e compiledEventMapping \<Rightarrow> string list list" where
  "body_paths em = own_paths @ map (\<lambda>fm. split_dots (fm_to fm)) (em_fieldMappings em)"

lemma first_leaves: "fst ` leaves (first_body version em n) \<subseteq> set own_paths"
  by (auto simp: first_body_def own_paths_def leaves.simps(2))

lemma building_first:
  "building h (body_paths em) (Suc (length h)) (fst (new_body version em h)) (first_body version em (length h))"
proof -
  have "fst ` leaves (first_body version em (length h)) \<subseteq> set (body_paths em)"
    using first_leaves by (fastforce simp: body_paths_def)
  then show ?thesis by (simp add: building_def first_body_def new_body_def nth_append)
qed

lemma body_building:
  assumes "appends lib" and "well_mapped em"
  obtains t ws where "building h (body_paths em) (snd (build_body lib osp em h rec)) (fst (build_body lib osp em h rec)) t"
    and "list_all2 (found lib rec) (em_fieldMappings em) ws"
    and "leaves t = put_all lib (op_schema osp) em (em_fieldMappings em) ws
           (leaves (first_body (op_version osp) em (length h)))"
proof -
  obtain h1 body where nb: "new_body (op_version osp) em h = (h1, body)" by fastforce
  then have body: "body = Suc (length h)" by (simp add: new_body_def)
  have b: "building h (body_paths em) body h1 (first_body (op_version osp) em (length h))"
    using building_first[of h em "op_version osp"] nb body by simp
  have pf: "prefix_free (body_paths em)" using assms(2) by (simp add: well_mapped_def body_paths_def)
  have ty: "[''type_uid''] \<in> set (body_paths em)" by (simp add: body_paths_def own_paths_def)
  have to: "split_dots (fm_to fm) \<in> set (body_paths em)" if "fm \<in> set (em_fieldMappings em)" for fm
    using that by (simp add: body_paths_def)
  have bb: "build_body lib osp em h rec =
      (fold (apply_mapping lib (op_schema osp) em rec body) (em_fieldMappings em) h1, body)"
    by (simp add: build_body_def nb)
  show thesis
    by (rule fold_building[OF b pf assms(1) ty to, of "em_fieldMappings em" "op_schema osp" em rec], assumption,
        rule that, unfold bb fst_conv snd_conv)
qed

section \<open>Nothing else is written\<close>

lemma building_prefix: "building h0 ps body h t \<Longrightarrow> prefix h0 h"
  unfolding building_def by (metis take_is_prefix)

lemma MatchRecord_prefix: "appends lib \<Longrightarrow> prefix h (fst (MatchRecord lib e h rec))"
  unfolding appends_def MatchRecord_def by (metis (no_types, lifting) case_prod_unfold fst_conv prefixI)

lemma ConvertToRecord_prefix: "appends lib \<Longrightarrow> prefix h (fst (ConvertToRecord lib h lg res))"
proof -
  assume a: "appends lib"
  obtain h1 attrs where 1: "lg_attributes_raw lib lg h = (h1, attrs)" by fastforce
  obtain h2 body where 2: "lg_body_raw lib lg h1 = (h2, body)" by fastforce
  from a have "prefix h h1" unfolding appends_def by (metis 1 fst_conv prefixI)
  moreover from a have "prefix h1 h2" unfolding appends_def by (metis 2 fst_conv prefixI)
  ultimately show ?thesis by (simp add: ConvertToRecord_def 1 2) (metis prefix_order.trans prefix_prefix)
qed

definition config_well_mapped :: "'e ocsf_processor \<Rightarrow> bool" where
  "config_well_mapped osp = list_all well_mapped (op_eventMappings osp)"

lemma try_mappings_prefix:
  assumes "appends lib" and "list_all well_mapped ems"
  shows "prefix h (fst (try_mappings n lib osp ems h rec lg))"
  using assms(2)
proof (induction ems arbitrary: h)
  case Nil
  then show ?case by simp
next
  case (Cons em ems)
  obtain h1 m where m: "(case em_filter em of None \<Rightarrow> (h, True) | Some e \<Rightarrow> MatchRecord lib e h rec) = (h1, m)"
    by fastforce
  have "prefix h h1"
    using m MatchRecord_prefix[OF assms(1), of h "the (em_filter em)" rec] by (cases "em_filter em") auto
  moreover have "prefix h1 (fst (try_mappings n lib osp ems h1 rec lg))" using Cons by simp
  moreover have "prefix h1 (fst (build_body lib osp em h1 rec))"
    using body_building[OF assms(1), of em h1 osp rec] building_prefix Cons.prems
    by (metis list.pred_inject(2))
  ultimately show ?case
    using m by (auto split: prod.split intro: prefix_order.trans)
qed

lemma processLogRecord_prefix:
  assumes "appends lib" and "config_well_mapped osp"
  shows "prefix h (fst (processLogRecord n lib osp h lg res))"
proof -
  obtain h1 rec where c: "ConvertToRecord lib h lg res = (h1, rec)" by fastforce
  have "prefix h h1" using ConvertToRecord_prefix[OF assms(1), of h lg res] c by simp
  moreover have "prefix h1 (fst (try_mappings n lib osp (op_eventMappings osp) h1 rec lg))"
    using try_mappings_prefix[OF assms(1)] assms(2) by (simp add: config_well_mapped_def)
  ultimately show ?thesis by (simp add: processLogRecord_def c)
qed

lemma process_scope_prefix:
  assumes "appends lib" and "config_well_mapped osp"
  shows "prefix h (fst (process_scope n lib osp h res lgs))"
proof (induction lgs arbitrary: h)
  case (Cons lg lgs)
  obtain h1 r where r: "processLogRecord n lib osp h lg res = (h1, r)" by fastforce
  have "prefix h h1" using processLogRecord_prefix[OF assms, of h n lg res] r by simp
  moreover note Cons.IH[of h1]
  ultimately show ?case
    using r by (cases r) (auto split: prod.split intro: prefix_order.trans dest: arg_cong[where f = fst])
qed simp

lemma process_scopes_prefix:
  assumes "appends lib" and "config_well_mapped osp"
  shows "prefix h (fst (process_scopes n lib osp h res ss))"
proof (induction ss arbitrary: h)
  case (Cons s ss)
  obtain h1 r where r: "process_scope n lib osp h res s = (h1, r)" by fastforce
  have "prefix h h1" using process_scope_prefix[OF assms, of h n res s] r by simp
  moreover note Cons.IH[of h1]
  ultimately show ?case
    using r by (cases r) (auto split: prod.split intro: prefix_order.trans dest: arg_cong[where f = fst])
qed simp

lemma processLogs_prefix:
  assumes "appends lib" and "config_well_mapped osp"
  shows "prefix h (fst (processLogs n lib osp h rs))"
proof (induction rs arbitrary: h)
  case (Cons q rs)
  obtain r ss where q: "q = (r, ss)" by fastforce
  obtain h0 res where h0: "lg_resource_raw lib r h = (h0, res)" by fastforce
  obtain h1 x where h1: "process_scopes n lib osp h0 res ss = (h1, x)" by fastforce
  have "prefix h h0" using assms(1) h0 unfolding appends_def by (metis fst_conv prefixI)
  moreover have "prefix h0 h1" using process_scopes_prefix[OF assms, of h0 n res ss] h1 by simp
  moreover note Cons.IH[of h1]
  ultimately show ?case
    using h0 h1 q by (cases x) (auto split: prod.split intro: prefix_order.trans dest: arg_cong[where f = fst])
qed simp

end
