(* ===== verification/OcsfTypes.thy ===== *)
theory OcsfTypes
  imports OcsfRecords
begin

text \<open>
  The types of the values in a body. A value of another kind than the schema wants is one that coercion
  refuses: text that does not parse, a truth value for a float or a time, or a kind no coercion knows, among
  them the record's own severity number and timestamp.
\<close>

definition has_type :: "string \<Rightarrow> goval \<Rightarrow> bool" where
  "has_type t v =
     (if t = ''integer'' then (case v of GInt _ \<Rightarrow> True | _ \<Rightarrow> False)
      else if t = ''long'' \<or> t = ''timestamp'' then (case v of GInt64 _ \<Rightarrow> True | _ \<Rightarrow> False)
      else if t = ''float'' then (case v of GFloat _ \<Rightarrow> True | _ \<Rightarrow> False)
      else if t = ''boolean'' then (case v of GBool _ \<Rightarrow> True | _ \<Rightarrow> False)
      else if t = ''datetime'' then (case v of GString _ \<Rightarrow> True | _ \<Rightarrow> False)
      else True)"

definition refused :: "coerce_lib \<Rightarrow> string \<Rightarrow> goval \<Rightarrow> bool" where
  "refused lib t v =
     (case v of
        GString s \<Rightarrow>
          (t = ''integer'' \<or> t = ''long'') \<and> parseInt0 s = None
          \<or> t = ''float'' \<and> cl_ParseFloat lib s = None
          \<or> t = ''boolean'' \<and> parseBool s = None
          \<or> t = ''timestamp'' \<and> parseInt64 s = None \<and> cl_RFC3339 lib s = None \<and> cl_RFC3339Nano lib s = None
      | GBool b \<Rightarrow> t \<in> {''float'', ''datetime'', ''timestamp''}
      | GInt _ \<Rightarrow> False
      | GInt64 _ \<Rightarrow> False
      | GFloat _ \<Rightarrow> False
      | _ \<Rightarrow> True)"

lemma coerce_refused:
  "\<not> has_type t (coerceType lib v t) \<Longrightarrow> coerceType lib v t = v \<and> refused lib t v"
  by (cases v) (auto simp: coerce_defs has_type_def refused_def split: if_splits option.splits)

lemma coerce_typed_same: "has_type t v \<Longrightarrow> coerceType lib v t = v"
  by (cases v) (auto simp: coerce_defs has_type_def split: if_splits)

lemma coerce_idempotent: "coerceType lib (coerceType lib v t) t = coerceType lib v t"
  by (metis coerce_refused coerce_typed_same)

text \<open>No whole number of up to 53 bits is changed on the way through a float.\<close>

lemma coerce_whole_exact:
  assumes "\<bar>sint i\<bar> \<le> 2 ^ 53"
  shows "coerceType lib (coerceType lib (GInt i) ''float'') ''integer'' = GInt i"
proof -
  have "f_trunc (f_of_int (sint i)) = sint i" using assms by (rule f_trunc_of_int)
  moreover have "\<not> f_nan (f_of_int (sint i))"
  proof -
    have n: "nat \<bar>sint i\<bar> \<le> 2 ^ 53" using assms by simp
    have "f_round (nat \<bar>sint i\<bar> * 2 ^ 1074) 1 \<le> f_top" by (simp add: f_round_def Let_def)
    then show ?thesis
      unfolding f_nan_def f_of_int_def f_make_parts[OF f_round_small(1)[OF n]] by simp
  qed
  moreover have "- (2 ^ 63) \<le> sint i" "sint i < 2 ^ 63"
    using assms by (auto simp: abs_le_iff)
  ultimately show ?thesis
    by (simp add: coerce_defs to_i64_def int64_of_float64_def float64_of_int64_def)
qed

section \<open>Reading the body\<close>

fun at_path :: "gheap \<Rightarrow> nat \<Rightarrow> string list \<Rightarrow> goval option" where
  "at_path h l [] = Some (GMap l)"
| "at_path h l [k] = h_get h l k"
| "at_path h l (k # k2 # ks) = (case h_get h l k of Some (GMap m) \<Rightarrow> at_path h m (k2 # ks) | _ \<Rightarrow> None)"

lemma at_path_leaf:
  assumes "holds h (Node l es)" and "proper (Node l es)" and "ks \<noteq> []"
    and "\<And>p w. (p, w) \<in> leaves (Node l es) \<Longrightarrow> \<not> strict_prefix p ks \<and> \<not> strict_prefix ks p"
    and "at_path h l ks = Some v"
  shows "(ks, v) \<in> leaves (Node l es)"
  using assms
proof (induction ks arbitrary: l es)
  case Nil
  then show ?case by simp
next
  case (Cons k ks)
  note get = h_get_entry[OF Cons.prems(1), of k]
  from Cons.prems(2) have d: "distinct (map fst es)" by simp
  note child = leaves_child[OF d, of k l]
  have "h_get h l k \<noteq> None" using Cons.prems(5) by (cases ks) (auto split: option.splits)
  then have "map_of es k \<noteq> None" using get by auto
  then obtain x where x: "map_of es k = Some x" by blast
  then have xin: "(k, x) \<in> set es" by (rule map_of_SomeD)
  have sub: "(p, w) \<in> leaves x \<Longrightarrow> (k # p, w) \<in> leaves (Node l es)" for p w
    using child x unfolding in_sub_leaves[symmetric] by simp
  show ?case
  proof (cases x)
    case (Leaf w)
    then have "ks = []" using sub[of "[]" w] Cons.prems(4)[of "[k]" w] by (simp add: strict_prefix_Nil_left)
    with Cons.prems(5) get x Leaf have "v = w" by simp
    with sub[of "[]" w] Leaf \<open>ks = []\<close> show ?thesis by simp
  next
    case (Node l' es')
    have px: "proper x" using Cons.prems(2) xin by (metis proper.simps(2) snd_conv)
    have hx: "holds h x" using Cons.prems(1) xin by (metis holds.simps(2) snd_conv)
    obtain p w where pw: "(p, w) \<in> leaves x" using proper_leaves[OF px] by auto
    have "ks \<noteq> []"
    proof
      assume "ks = []"
      have "p \<noteq> []" using pw Node leaves_nonempty by blast
      with Cons.prems(4)[OF sub[OF pw]] \<open>ks = []\<close> show False by (simp add: strict_prefix_Nil_left)
    qed
    moreover have "at_path h l' ks = Some v"
      using Cons.prems(5) get x Node \<open>ks \<noteq> []\<close> by (cases ks) simp_all
    moreover have "\<not> strict_prefix p ks \<and> \<not> strict_prefix ks p" if "(p, w) \<in> leaves x" for p w
      using Cons.prems(4)[OF sub[OF that]] by simp
    ultimately have "(ks, v) \<in> leaves x" using Cons.IH[of l' es'] px hx Node by simp
    then show ?thesis by (rule sub)
  qed
qed

lemma body_value:
  assumes "appends lib" and "well_mapped em" and "fm \<in> set (em_fieldMappings em)"
    and "split_dots (fm_to fm) \<notin> set own_paths"
    and "at_path (fst (build_body lib osp em h rec)) (snd (build_body lib osp em h rec)) (split_dots (fm_to fm)) = Some v"
  obtains w where "w \<noteq> GNil" and "v = coerced lib (op_schema osp) em (fm_to fm) w"
proof (rule body_building[OF assms(1,2), of h osp rec])
  let ?p = "split_dots (fm_to fm)" and ?b = "snd (build_body lib osp em h rec)"
  fix t ws
  assume b: "building h (body_paths em) ?b (fst (build_body lib osp em h rec)) t"
    and ws: "list_all2 (found lib rec) (em_fieldMappings em) ws"
    and lv: "leaves t = put_all lib (op_schema osp) em (em_fieldMappings em) ws
           (leaves (first_body (op_version osp) em (length h)))"
  obtain es where t: "t = Node ?b es" using b unfolding building_def by blast
  have pin: "?p \<in> set (body_paths em)" using assms(3) by (simp add: body_paths_def)
  have pf: "prefix_free (body_paths em)" using assms(2) by (simp add: well_mapped_def body_paths_def)
  have apart: "\<not> strict_prefix p ?p \<and> \<not> strict_prefix ?p p" if "(p, w) \<in> leaves (Node ?b es)" for p w
  proof -
    have "p \<in> set (body_paths em)" by (rule building_leaf[OF b]) (use that t in simp)
    with prefix_free_apart[OF pf _ pin] prefix_free_apart[OF pf pin] show ?thesis by blast
  qed
  have hp: "holds (fst (build_body lib osp em h rec)) (Node ?b es)" "proper (Node ?b es)"
    using b t by (simp_all add: building_def)
  have "(?p, v) \<in> leaves (Node ?b es)"
    by (rule at_path_leaf[OF hp split_dots_nonempty apart assms(5)])
  then have in_all: "(?p, v) \<in> put_all lib (op_schema osp) em (em_fieldMappings em) ws
      (leaves (first_body (op_version osp) em (length h)))" using t lv by simp
  have "(?p, v) \<notin> leaves (first_body (op_version osp) em (length h))"
  proof
    assume "(?p, v) \<in> leaves (first_body (op_version osp) em (length h))"
    then have "?p \<in> set own_paths"
      using first_leaves[of "op_version osp" em "length h"] by (metis fst_conv image_eqI subsetD)
    with assms(4) show False by simp
  qed
  moreover have "?p \<noteq> [''type_uid'']" using assms(4) by (auto simp: own_paths_def)
  ultimately obtain fm' w where "(fm', w) \<in> set (zip (em_fieldMappings em) ws)" and w: "w \<noteq> GNil"
    and p: "?p = split_dots (fm_to fm')" and v: "v = coerced lib (op_schema osp) em (fm_to fm') w"
    using put_all_origin[OF list_all2_lengthD[OF ws] in_all] by blast
  from p have "fm_to fm' = fm_to fm" by simp
  with v have "v = coerced lib (op_schema osp) em (fm_to fm) w" by simp
  with w show thesis by (rule that)
qed

end
