(* ===== verification/OcsfCoverage.thy ===== *)
theory OcsfCoverage
  imports OcsfTypes
begin

text \<open>
  The check of a configuration against the check of a body: both come from the same schema, and a
  configuration whose field paths are accepted gives bodies in which the validator misses nothing.
\<close>

section \<open>The tables\<close>

lemma set_sortedKeys [simp]: "set (sortedKeys m) = fst ` set m"
  by (simp add: sortedKeys_def)

lemma distinct_sortedKeys [simp]: "distinct (sortedKeys m)"
  by (simp add: sortedKeys_def)

lemma distinct_sorted_entries [simp]: "distinct (map fst (sorted_entries m))"
  by (simp add: sorted_entries_def comp_def)

lemma map_of_objectFields:
  assumes "requirements attrs con types = Some reqs" and "(f, a) \<in> set (sorted_entries attrs)"
    and "at_Type a = ''object_t''" and "at_ObjectType a \<noteq> []"
  shows "map_of (fr_objectFields reqs) f = Some (at_ObjectType a)"
proof -
  let ?P = "\<lambda>(n :: string, a). at_Type a = ''object_t'' \<and> at_ObjectType a \<noteq> []"
  let ?fs = "map (\<lambda>(n, a). (n, at_ObjectType a)) (filter ?P (sorted_entries attrs))"
  have r: "fr_objectFields reqs = ?fs"
    using assms(1) by (auto simp: requirements_def Let_def split: if_splits)
  have fst_fs: "map fst ?fs = map fst (filter ?P (sorted_entries attrs))" by (simp add: case_prod_beta comp_def)
  have "distinct (map fst ?fs)" unfolding fst_fs
    by (rule distinct_map_filter) simp
  moreover have "(f, at_ObjectType a) \<in> set ?fs" using assms(2-4) by force
  ultimately show ?thesis unfolding r by (rule map_of_is_SomeI)
qed

lemma no_requirements:
  assumes "requirements attrs con types = None"
  shows "filter (\<lambda>(n, a). at_Requirement a = ''required'') (sorted_entries attrs) = []"
    and "filterFieldsInAttrs (AtLeastOne con) attrs = []" and "filterFieldsInAttrs (JustOne con) attrs = []"
    and "(f, a) \<in> set (sorted_entries attrs) \<Longrightarrow> at_Type a = ''object_t'' \<Longrightarrow> at_ObjectType a = []"
  using assms by (auto simp: requirements_def Let_def filter_empty_conv split: if_splits)

section \<open>Paths and trees\<close>

text \<open>A tree fits paths when its leaves are at them.\<close>

definition fits :: "node \<Rightarrow> string list \<Rightarrow> bool" where
  "fits t ps \<longleftrightarrow> fst ` leaves t = split_dots ` set ps"

definition whole_path :: "string \<Rightarrow> bool" where
  "whole_path p \<longleftrightarrow> [] \<notin> set (split_dots p)"

lemma whole_sub:
  assumes "whole_path p"
  shows "split_dots p = fst (splitFirst p) # (if snd (splitFirst p) = [] then [] else split_dots (snd (splitFirst p)))"
    and "snd (splitFirst p) \<noteq> [] \<Longrightarrow> whole_path (snd (splitFirst p))"
proof -
  have no: "CHR ''.'' \<notin> set p \<Longrightarrow> snd (splitFirst p) = []"
    by (induction p) (auto simp: splitFirst_def)
  have "snd (splitFirst p) \<noteq> []" if "CHR ''.'' \<in> set p"
  proof
    assume "snd (splitFirst p) = []"
    with that have "split_dots p = [fst (splitFirst p), []]"
      using splitFirst_split[of p] by simp
    with assms show False by (simp add: whole_path_def)
  qed
  then show eq: "split_dots p = fst (splitFirst p) # (if snd (splitFirst p) = [] then [] else split_dots (snd (splitFirst p)))"
    using splitFirst_split[of p] no by auto
  show "whole_path (snd (splitFirst p))" if "snd (splitFirst p) \<noteq> []"
    using assms eq that by (simp add: whole_path_def)
qed

lemma in_fst: "q \<in> fst ` S \<longleftrightarrow> (\<exists>w. (q, w) \<in> S)"
  by force

lemma keys_leaves:
  assumes "proper (Node l es)"
  shows "fst ` set es = (\<lambda>p. hd (fst p)) ` leaves (Node l es)"
proof
  show "fst ` set es \<subseteq> (\<lambda>p. hd (fst p)) ` leaves (Node l es)"
  proof
    fix k
    assume "k \<in> fst ` set es"
    then obtain x where x: "(k, x) \<in> set es" by auto
    then have "proper x" using assms by (metis proper.simps(2) snd_conv)
    then obtain p w where "(p, w) \<in> leaves x" using proper_leaves by fastforce
    then have "(k # p, w) \<in> leaves (Node l es)" using x unfolding in_leaves by force
    then show "k \<in> (\<lambda>p. hd (fst p)) ` leaves (Node l es)" by force
  qed
next
  show "(\<lambda>p. hd (fst p)) ` leaves (Node l es) \<subseteq> fst ` set es"
  proof
    fix k
    assume "k \<in> (\<lambda>p. hd (fst p)) ` leaves (Node l es)"
    then obtain p w where "(p, w) \<in> leaves (Node l es)" "k = hd p" by auto
    then obtain e where "e \<in> set es" "k = fst e" unfolding in_leaves by auto
    then show "k \<in> fst ` set es" by blast
  qed
qed

lemma fits_keys:
  assumes "proper (Node l es)" and "fits (Node l es) ps" and "\<And>p. p \<in> set ps \<Longrightarrow> whole_path p"
  shows "fst ` set es = set (covered ps)"
proof -
  have "fst ` set es = hd ` fst ` leaves (Node l es)" using keys_leaves[OF assms(1)] by (simp add: image_image)
  also have "\<dots> = (\<lambda>p. hd (split_dots p)) ` set ps" using assms(2) by (simp add: fits_def image_image)
  also have "\<dots> = (\<lambda>p. fst (splitFirst p)) ` set ps"
    by (rule image_cong[OF refl]) (simp add: whole_sub(1)[OF assms(3)])
  finally show ?thesis by (simp add: covered_def comp_def)
qed

text \<open>A node below fits the paths below.\<close>

lemma fits_child:
  assumes "proper (Node l es)" and "fits (Node l es) ps" and "\<And>p. p \<in> set ps \<Longrightarrow> whole_path p"
    and "map_of es f = Some (Node l' es')"
  shows "fits (Node l' es') (sub_paths ps f)" and "f \<in> set (grouped ps)"
    and "\<And>p. p \<in> set (sub_paths ps f) \<Longrightarrow> whole_path p" and "proper (Node l' es')"
proof -
  have d: "distinct (map fst es)" using assms(1) by simp
  have child: "sub_leaves f (leaves (Node l es)) = leaves (Node l' es')"
    using leaves_child[OF d, of f l] assms(4) by simp
  show pr: "proper (Node l' es')"
    using assms(1) map_of_SomeD[OF assms(4)] by (metis proper.simps(2) snd_conv)
  have mem: "q \<in> fst ` leaves (Node l' es') \<longleftrightarrow> f # q \<in> split_dots ` set ps" for q
  proof -
    have "q \<in> fst ` leaves (Node l' es') \<longleftrightarrow> f # q \<in> fst ` leaves (Node l es)"
      unfolding child[symmetric] in_fst in_sub_leaves ..
    then show ?thesis using assms(2) by (simp add: fits_def)
  qed
  have nonempty: "q \<noteq> []" if "q \<in> fst ` leaves (Node l' es')" for q
    using that leaves_nonempty by force
  have paths: "f # q \<in> split_dots ` set ps \<and> q \<noteq> [] \<longleftrightarrow> q \<in> split_dots ` set (sub_paths ps f)" for q
  proof
    assume "f # q \<in> split_dots ` set ps \<and> q \<noteq> []"
    then obtain p where p: "p \<in> set ps" "f # q = split_dots p" "q \<noteq> []" by blast
    with whole_sub(1)[OF assms(3)[OF p(1)]] have "fst (splitFirst p) = f" "snd (splitFirst p) \<noteq> []"
      "q = split_dots (snd (splitFirst p))" by (auto split: if_splits)
    with p(1) show "q \<in> split_dots ` set (sub_paths ps f)" by (auto simp: sub_paths_def)
  next
    assume "q \<in> split_dots ` set (sub_paths ps f)"
    then obtain p where p: "p \<in> set ps" "fst (splitFirst p) = f" "snd (splitFirst p) \<noteq> []"
      "q = split_dots (snd (splitFirst p))" by (auto simp: sub_paths_def)
    with whole_sub(1)[OF assms(3)[OF p(1)]] have "split_dots p = f # q" by simp
    with p show "f # q \<in> split_dots ` set ps \<and> q \<noteq> []" by (metis imageI split_dots_nonempty)
  qed
  show "fits (Node l' es') (sub_paths ps f)"
    unfolding fits_def by (rule set_eqI) (metis mem paths nonempty)
  obtain q w where "(q, w) \<in> leaves (Node l' es')" using proper_leaves[OF pr] by fastforce
  then have "q \<in> fst ` leaves (Node l' es')" by force
  then have "q \<in> split_dots ` set (sub_paths ps f)" by (metis mem nonempty paths)
  then have "sub_paths ps f \<noteq> []" by auto
  then obtain p where "p \<in> set ps" "fst (splitFirst p) = f" "snd (splitFirst p) \<noteq> []"
    by (auto simp: sub_paths_def filter_empty_conv)
  then show "f \<in> set (grouped ps)" by (auto simp: grouped_def)
  show "whole_path p" if "p \<in> set (sub_paths ps f)" for p
    using that whole_sub(2) assms(3) by (auto simp: sub_paths_def)
qed

section \<open>Errors about missing fields\<close>

fun reports_missing :: "validation_error \<Rightarrow> bool" where
  "reports_missing (FieldRequired f) = True"
| "reports_missing (NoneSet fs) = True"
| "reports_missing (NotOneSet fs n) = True"
| "reports_missing (InField f es) = list_ex reports_missing es"
| "reports_missing (InElem f i es) = list_ex reports_missing es"
| "reports_missing e = False"

lemma enum_check_missing [simp]: "\<not> list_ex reports_missing (enum_check lib data name a)"
  by (simp add: enum_check_def Let_def split: option.splits goval.splits)

lemma type_check_missing [simp]: "\<not> list_ex reports_missing (type_check ck sc data name a)"
  by (simp add: type_check_def range_check_def maxlen_check_def regex_check_def split: option.splits goval.splits)

lemma concat_missing:
  "(\<And>x. x \<in> set xs \<Longrightarrow> \<not> list_ex reports_missing x) \<Longrightarrow> \<not> list_ex reports_missing (concat xs)"
  by (induction xs) auto

lemma missing_checks_empty:
  assumes cov: "case requirements attrs con types of None \<Rightarrow> True | Some r \<Rightarrow> own_coverage r ps pre = []"
    and keys: "\<And>f. map_of data f \<noteq> None \<longleftrightarrow> f \<in> set (covered ps)"
  shows "missing_checks attrs con data = []"
proof (cases "requirements attrs con types")
  case None
  note none = no_requirements[OF None]
  have "filter (\<lambda>(n, a). at_Requirement a = ''required'' \<and> map_of data n = None) (sorted_entries attrs) = []"
    using none(1) by (auto simp: filter_empty_conv)
  then show ?thesis using none(2,3) by (simp add: missing_checks_def)
next
  case (Some r)
  then have own: "own_coverage r ps pre = []" using cov by simp
  have r: "fr_required r = map fst (filter (\<lambda>(n, a). at_Requirement a = ''required'') (sorted_entries attrs))"
    "fr_atLeastOne r = (let alo = filterFieldsInAttrs (AtLeastOne con) attrs in if alo = [] then [] else [alo])"
    "fr_justOne r = (let jo = filterFieldsInAttrs (JustOne con) attrs in if jo = [] then [] else [jo])"
    using Some by (auto simp: requirements_def Let_def split: if_splits)
  have "filter (\<lambda>(n, a). at_Requirement a = ''required'' \<and> map_of data n = None) (sorted_entries attrs) = []"
  proof -
    have "n \<in> set (covered ps)" if "(n, a) \<in> set (sorted_entries attrs)" "at_Requirement a = ''required''" for n a
      using own that unfolding own_coverage_def r(1) by (force simp: filter_empty_conv)
    with keys have "map_of data n \<noteq> None"
      if "(n, a) \<in> set (sorted_entries attrs)" "at_Requirement a = ''required''" for n a
      using that by blast
    then show ?thesis unfolding filter_empty_conv by blast
  qed
  moreover have "filterFieldsInAttrs (AtLeastOne con) attrs = []
      \<or> list_ex (\<lambda>f. map_of data f \<noteq> None) (filterFieldsInAttrs (AtLeastOne con) attrs)"
    using own unfolding own_coverage_def r(2) keys by (auto simp: Let_def split: if_splits)
  moreover have "filterFieldsInAttrs (JustOne con) attrs = []
      \<or> length (filter (\<lambda>f. map_of data f \<noteq> None) (filterFieldsInAttrs (JustOne con) attrs)) = 1"
    using own unfolding own_coverage_def r(3) keys by (auto simp: Let_def split: if_splits)
  ultimately show ?thesis by (auto simp: missing_checks_def Let_def)
qed

section \<open>A covered tree\<close>

fun scalar :: "goval \<Rightarrow> bool" where
  "scalar (GMap m) = False"
| "scalar (GSlice s) = False"
| "scalar v = True"

lemma scalar_cases: "scalar v \<longleftrightarrow> (\<forall>m. v \<noteq> GMap m) \<and> (\<forall>s. v \<noteq> GSlice s)"
  by (cases v) simp_all

lemma fold_max_ge: "(a :: nat) \<le> fold max xs a"
  by (induction xs arbitrary: a) (simp, metis fold_simps(2) max.bounded_iff)

lemma fold_max_mem: "x \<in> set xs \<Longrightarrow> (x :: nat) \<le> fold max xs a"
proof (induction xs arbitrary: a)
  case (Cons y ys)
  then show ?case using fold_max_ge[of "max y a" ys] by auto
qed simp

lemma height_child: "e \<in> set es \<Longrightarrow> height (snd e) < height (Node l es)"
  using fold_max_mem[of "height (snd e)" "map (\<lambda>e. height (snd e)) es" 0] by (auto simp: less_Suc_eq_le)

lemma those_all:
  "(\<And>x. x \<in> set xs \<Longrightarrow> \<exists>y. f x = Some y \<and> P y) \<Longrightarrow> \<exists>ys. those (map f xs) = Some ys \<and> (\<forall>y\<in>set ys. P y)"
proof (induction xs)
  case (Cons x xs)
  obtain y where "f x = Some y" "P y" using Cons(2)[of x] by auto
  moreover obtain ys where "those (map f xs) = Some ys" "\<forall>y\<in>set ys. P y" using Cons by auto
  ultimately show ?case by simp
qed simp

lemma leaf_below: "(f, x) \<in> set es \<Longrightarrow> (p, v) \<in> leaves x \<Longrightarrow> (f # p, v) \<in> leaves (Node l es)"
  unfolding in_leaves by force

lemma coverage_own: "validateCoverage sc r profiles ps pre = [] \<Longrightarrow> own_coverage r ps pre = []"
  by (simp add: validateCoverage.simps[of sc r profiles ps pre])

lemma coverage_child:
  assumes "validateCoverage sc r profiles ps pre = []" and "f \<in> set (grouped ps)"
    and "map_of (fr_objectFields r) f = Some T" and "objectFieldReqs sc T = Some r'"
  shows "validateCoverage sc r' profiles (sub_paths ps f) (pre @ f @ ''.'') = []"
  using assms(1) unfolding validateCoverage.simps[of sc r profiles ps pre]
  by (auto simp: assms(3,4) dest!: bspec[OF _ assms(2)])

lemma value_checks_missing [simp]: "\<not> list_ex reports_missing (value_checks ck sc attrs data)"
proof -
  have "\<not> list_ex reports_missing (concat (map (\<lambda>(name, a). enum_check (coerce_lib.truncate ck) data name a) (sorted_entries attrs)))"
    by (intro concat_missing) auto
  moreover have "\<not> list_ex reports_missing (concat (map (\<lambda>(name, a). type_check ck sc data name a) (sorted_entries attrs)))"
    by (intro concat_missing) auto
  ultimately show ?thesis by (simp add: value_checks_def)
qed

lemma in_field_missing [simp]: "list_ex reports_missing (in_field f es) = list_ex reports_missing es"
  by (simp add: in_field_def)

text \<open>A field of a tree, when the nodes below pass.\<close>

lemma nested_check_tree:
  assumes h: "holds h (Node l es)" and lv: "\<And>p v. (p, v) \<in> leaves (Node l es) \<Longrightarrow> scalar v"
    and deep: "\<And>l' es'. map_of es f = Some (Node l' es') \<Longrightarrow> at_Type a = ''object_t'' \<Longrightarrow> at_ObjectType a \<noteq> []
       \<Longrightarrow> \<exists>errs. deep (at_ObjectType a) l' = Some errs \<and> \<not> list_ex reports_missing errs"
  shows "\<exists>x. nested_check deep (h ! l) (f, a) = Some x \<and> \<not> list_ex reports_missing x"
proof (cases "at_Type a = ''object_t'' \<and> at_ObjectType a \<noteq> []")
  case False
  then show ?thesis by (auto simp: nested_check_def)
next
  case obj: True
  have get: "map_of (h ! l) f = map_option entry (map_of es f)"
    using h by (simp add: map_of_entries)
  show ?thesis
  proof (cases "map_of es f")
    case None
    with get show ?thesis by (simp add: nested_check_def)
  next
    case (Some x)
    show ?thesis
    proof (cases x)
      case (Leaf w)
      have "([f], w) \<in> leaves (Node l es)" using leaf_below[OF map_of_SomeD[OF Some]] Leaf by simp
      then have "scalar w" by (rule lv)
      with get Some Leaf show ?thesis by (cases w) (simp_all add: nested_check_def)
    next
      case (Node l' es')
      obtain errs where errs: "deep (at_ObjectType a) l' = Some errs" "\<not> list_ex reports_missing errs"
        using deep[OF Some[unfolded Node]] obj by blast
      with get Some Node obj show ?thesis by (cases "at_IsArray a") (simp_all add: nested_check_def)
    qed
  qed
qed

text \<open>The requirements of an object below are covered as well.\<close>

lemma nested_coverage:
  assumes cov: "case requirements attrs con (sc_Types sc) of None \<Rightarrow> True | Some r \<Rightarrow> validateCoverage sc r [] ps pre = []"
    and fa: "(f, a) \<in> set (sorted_entries attrs)" "at_Type a = ''object_t''" "at_ObjectType a \<noteq> []"
    and g: "f \<in> set (grouped ps)" and ob: "map_of (sc_Objects sc) (at_ObjectType a) = Some ob"
  shows "case requirements (filterOutProfileAttrs (ob_Attributes ob)) (ob_Constraints ob) (sc_Types sc) of
     None \<Rightarrow> True | Some r \<Rightarrow> validateCoverage sc r [] (sub_paths ps f) (pre @ f @ ''.'') = []"
proof (cases "requirements (filterOutProfileAttrs (ob_Attributes ob)) (ob_Constraints ob) (sc_Types sc)")
  case None
  then show ?thesis by simp
next
  case r': (Some r')
  then have ofr: "objectFieldReqs sc (at_ObjectType a) = Some r'" by (simp add: objectFieldReqs_def ob)
  have "requirements attrs con (sc_Types sc) \<noteq> None" using no_requirements(4)[OF _ fa(1,2)] fa(3) by blast
  then obtain r where r: "requirements attrs con (sc_Types sc) = Some r" by blast
  with cov have c: "validateCoverage sc r [] ps pre = []" by simp
  from coverage_child[OF c g map_of_objectFields[OF r fa] ofr] show ?thesis by (simp add: r')
qed

lemma validate_no_missing:
  assumes "height (Node l es) \<le> n" and "holds h (Node l es)" and "proper (Node l es)"
    and "fits (Node l es) ps" and "\<And>p. p \<in> set ps \<Longrightarrow> whole_path p"
    and "\<And>p v. (p, v) \<in> leaves (Node l es) \<Longrightarrow> scalar v"
    and "case requirements attrs con (sc_Types sc) of None \<Rightarrow> True | Some r \<Rightarrow> validateCoverage sc r [] ps pre = []"
  shows "\<exists>errs. validate n ck sc h attrs con (h ! l) = Some errs \<and> \<not> list_ex reports_missing errs"
  using assms
proof (induction n arbitrary: l es attrs con ps pre)
  case 0
  then show ?case by simp
next
  case (Suc n)
  define deep where "deep = (\<lambda>objType m. case map_of (sc_Objects sc) objType of
                None \<Rightarrow> Some []
              | Some ob \<Rightarrow> validate n ck sc h (filterOutProfileAttrs (ob_Attributes ob)) (ob_Constraints ob) (h ! m))"
  have keys: "map_of (h ! l) f \<noteq> None \<longleftrightarrow> f \<in> set (covered ps)" for f
    using fits_keys[OF Suc.prems(3,4,5)] Suc.prems(2)
    by (simp add: map_of_entries map_of_eq_None_iff flip: not_None_eq)
  have below: "\<exists>errs. deep (at_ObjectType a) l' = Some errs \<and> \<not> list_ex reports_missing errs"
    if fa: "(f, a) \<in> set (sorted_entries attrs)" and x: "map_of es f = Some (Node l' es')"
      and obj: "at_Type a = ''object_t''" "at_ObjectType a \<noteq> []" for f a l' es'
  proof (cases "map_of (sc_Objects sc) (at_ObjectType a)")
    case None
    then show ?thesis by (simp add: deep_def)
  next
    case (Some ob)
    note child = fits_child[OF Suc.prems(3,4,5) x] and xin = map_of_SomeD[OF x]
    have 1: "height (Node l' es') \<le> n" using height_child[OF xin, of l] Suc.prems(1) by simp
    have 2: "holds h (Node l' es')" using Suc.prems(2) xin by (metis holds.simps(2) snd_conv)
    have 3: "scalar v" if "(p, v) \<in> leaves (Node l' es')" for p v
      using Suc.prems(6)[OF leaf_below[OF xin that]] .
    note cov = nested_coverage[OF Suc.prems(7) fa obj child(2) Some]
    from Suc.IH[OF 1 2 child(4,1,3) 3 cov] show ?thesis by (simp add: deep_def Some)
  qed
  have field: "\<exists>x. nested_check deep (h ! l) e = Some x \<and> \<not> list_ex reports_missing x"
    if "e \<in> set (sorted_entries attrs)" for e
  proof -
    obtain f a where e: "e = (f, a)" by (cases e)
    show ?thesis unfolding e
      by (rule nested_check_tree[OF Suc.prems(2,6)]) (use below that e in blast)+
  qed
  obtain ys where ys: "those (map (nested_check deep (h ! l)) (sorted_entries attrs)) = Some ys"
    and dm: "\<forall>x\<in>set ys. \<not> list_ex reports_missing x"
    using those_all[of "sorted_entries attrs" "nested_check deep (h ! l)" "\<lambda>x. \<not> list_ex reports_missing x"] field
    by blast
  have "missing_checks attrs con (h ! l) = []"
  proof (rule missing_checks_empty[OF _ keys])
    show "case requirements attrs con (sc_Types sc) of None \<Rightarrow> True | Some r \<Rightarrow> own_coverage r ps pre = []"
      using Suc.prems(7) coverage_own[of sc _ "[]" ps pre] by (simp split: option.splits)
  qed
  moreover have "validate (Suc n) ck sc h attrs con (h ! l) =
      Some (missing_checks attrs con (h ! l) @ value_checks ck sc attrs (h ! l) @ concat ys)"
    using ys unfolding deep_def by simp
  moreover have "\<not> list_ex reports_missing (concat ys)" using dm by (intro concat_missing) blast
  ultimately show ?case
    by (intro exI[of _ "missing_checks attrs con (h ! l) @ value_checks ck sc attrs (h ! l) @ concat ys"] conjI)
       (assumption, simp del: validate.simps)
qed

section \<open>Bodies of an accepted configuration\<close>

text \<open>The mapping finds a value that is no map and no slice, whatever else is in the heap.\<close>

definition delivers :: "('log, 'res, 'e) log_lib \<Rightarrow> nat \<Rightarrow> 'e compiledFieldMapping \<Rightarrow> bool" where
  "delivers lib rec fm \<longleftrightarrow>
     (\<forall>h. snd (mapping_value lib fm h rec) \<noteq> GNil \<and> scalar (snd (mapping_value lib fm h rec)))"

text \<open>The activity is mapped to an integer.\<close>

definition has_activity ::
  "('log, 'res, 'e) log_lib \<Rightarrow> schema \<Rightarrow> 'e compiledEventMapping \<Rightarrow> nat \<Rightarrow> bool" where
  "has_activity lib sc em rec \<longleftrightarrow>
     (\<exists>fm\<in>set (em_fieldMappings em). fm_to fm = ''activity_id''
        \<and> (\<forall>h. \<exists>a. coerced lib sc em (fm_to fm) (snd (mapping_value lib fm h rec)) = GInt a))"

lemma coerceType_scalar: "scalar w \<Longrightarrow> scalar (coerceType lib w t)"
  by (cases w) (auto simp: coerce_defs split: option.split)

lemma coerced_scalar: "scalar w \<Longrightarrow> scalar (coerced lib sc em to w)"
  by (simp add: coerced_def Let_def coerceType_scalar)

lemma put_paths: "fst ` put p v L = insert p (fst ` L)"
  by (force simp: put_def)

definition sets_type :: "('log, 'res, 'e) log_lib \<Rightarrow> schema \<Rightarrow> 'e compiledEventMapping \<Rightarrow> 'e compiledFieldMapping \<Rightarrow> goval \<Rightarrow> bool"
  where
  "sets_type lib sc em fm w \<longleftrightarrow> fm_to fm = ''activity_id'' \<and> (\<exists>a. coerced lib sc em (fm_to fm) w = GInt a)"

lemma put_mapping_paths:
  "w \<noteq> GNil \<Longrightarrow> fst ` put_mapping lib sc em fm w L =
     insert (split_dots (fm_to fm)) (if sets_type lib sc em fm w then insert [''type_uid''] (fst ` L) else fst ` L)"
  by (cases "coerced lib sc em (fm_to fm) w")
     (simp_all add: put_mapping_def put_paths activity_leaves_def sets_type_def)

lemma put_all_paths:
  assumes "length fms = length ws" and "list_all (\<lambda>w. w \<noteq> GNil) ws"
  shows "fst ` put_all lib sc em fms ws L =
    fst ` L \<union> (\<lambda>fm. split_dots (fm_to fm)) ` set fms
      \<union> (if list_ex (\<lambda>(fm, w). sets_type lib sc em fm w) (zip fms ws) then {[''type_uid'']} else {})"
  using assms
proof (induction fms ws arbitrary: L rule: list_induct2)
  case (Cons fm fms w ws)
  then have "w \<noteq> GNil" by simp
  from Cons put_mapping_paths[OF this, of lib sc em fm L] show ?case by auto
qed simp

lemma put_scalar: "(p, v) \<in> put q w L \<Longrightarrow> scalar w \<Longrightarrow> (p, v) \<in> L \<or> scalar v"
  by (auto simp: put_def)

lemma put_all_scalar:
  assumes "length fms = length ws" and "list_all scalar ws" and "\<And>p v. (p, v) \<in> L \<Longrightarrow> scalar v"
    and "(p, v) \<in> put_all lib sc em fms ws L"
  shows "scalar v"
  using assms
proof (induction fms ws arbitrary: L rule: list_induct2)
  case (Cons fm fms w ws)
  have w: "scalar (coerced lib sc em (fm_to fm) w)" using Cons.prems(1) by (simp add: coerced_scalar)
  have "scalar v'" if "(p', v') \<in> put_mapping lib sc em fm w L" for p' v'
  proof -
    have "scalar v'" if "(p', v') \<in> activity_leaves em (fm_to fm) (coerced lib sc em (fm_to fm) w) L"
    proof -
      have "(p', v') \<in> L \<or> scalar v'"
        using that by (cases "coerced lib sc em (fm_to fm) w")
          (auto simp: activity_leaves_def dest: put_scalar split: if_splits)
      with Cons.prems(2) show ?thesis by blast
    qed
    with that w Cons.prems(2) show ?thesis
      unfolding put_mapping_def by (auto dest: put_scalar split: if_splits)
  qed
  note step = this
  have m: "(p, v) \<in> put_all lib sc em fms ws (put_mapping lib sc em fm w L)" using Cons.prems(3) by simp
  show ?case
  proof (rule Cons.IH[OF _ _ m])
    show "list_all scalar ws" using Cons.prems(1) by simp
  qed (rule step)
qed simp

lemma found_values:
  assumes "list_all2 (found lib rec) fms ws" and "list_all (delivers lib rec) fms"
  shows "list_all (\<lambda>w. w \<noteq> GNil) ws" and "list_all scalar ws"
  using assms by (induction rule: list_all2_induct) (auto simp: found_def delivers_def)

lemma found_activity:
  assumes "list_all2 (found lib rec) (em_fieldMappings em) ws" and "has_activity lib sc em rec"
  shows "list_ex (\<lambda>(fm, w). sets_type lib sc em fm w) (zip (em_fieldMappings em) ws)"
proof -
  obtain fm where fm: "fm \<in> set (em_fieldMappings em)" "fm_to fm = ''activity_id''"
    and c: "\<And>h. \<exists>a. coerced lib sc em (fm_to fm) (snd (mapping_value lib fm h rec)) = GInt a"
    using assms(2) unfolding has_activity_def by blast
  obtain i where i: "i < length (em_fieldMappings em)" "em_fieldMappings em ! i = fm"
    using fm(1) by (auto simp: in_set_conv_nth)
  with assms(1) have "found lib rec fm (ws ! i)" by (auto simp: list_all2_conv_all_nth)
  then have "sets_type lib sc em fm (ws ! i)" using fm(2) c unfolding found_def sets_type_def by metis
  moreover have "(fm, ws ! i) \<in> set (zip (em_fieldMappings em) ws)"
    using i list_all2_lengthD[OF assms(1)] by (auto simp: in_set_zip)
  ultimately show ?thesis by (auto simp: list_ex_iff)
qed

lemma first_body_paths:
  "em_profiles em = [] \<Longrightarrow>
     fst ` leaves (first_body version em n) = {[''class_uid''], [''metadata'', ''version''], [''category_uid'']}"
  "(p, v) \<in> leaves (first_body version em n) \<Longrightarrow> em_profiles em = [] \<Longrightarrow> scalar v"
  by (auto simp: first_body_def leaves.simps(2))

lemma body_fits:
  assumes "appends lib" and "well_mapped em" and "em_profiles em = []"
    and "list_all (delivers lib rec) (em_fieldMappings em)" and "has_activity lib (op_schema osp) em rec"
  obtains es where "holds (fst (build_body lib osp em h rec)) (Node (snd (build_body lib osp em h rec)) es)"
    and "proper (Node (snd (build_body lib osp em h rec)) es)"
    and "fits (Node (snd (build_body lib osp em h rec)) es) (default_paths @ map fm_to (em_fieldMappings em))"
    and "\<And>p v. (p, v) \<in> leaves (Node (snd (build_body lib osp em h rec)) es) \<Longrightarrow> scalar v"
proof (rule body_building[OF assms(1,2), of h osp rec])
  let ?b = "snd (build_body lib osp em h rec)" and ?fms = "em_fieldMappings em" and ?sc = "op_schema osp"
  fix t ws
  assume b: "building h (body_paths em) ?b (fst (build_body lib osp em h rec)) t"
    and ws: "list_all2 (found lib rec) ?fms ws"
    and lv: "leaves t = put_all lib ?sc em ?fms ws (leaves (first_body (op_version osp) em (length h)))"
  obtain es where t: "t = Node ?b es" using b unfolding building_def by blast
  note vals = found_values[OF ws assms(4)] and len = list_all2_lengthD[OF ws]
  have "fst ` leaves t = split_dots ` set (default_paths @ map fm_to ?fms)"
  proof -
    have "fst ` leaves t = {[''class_uid''], [''metadata'', ''version''], [''category_uid'']}
        \<union> (\<lambda>fm. split_dots (fm_to fm)) ` set ?fms \<union> {[''type_uid'']}"
      unfolding lv put_all_paths[OF len vals(1)] first_body_paths(1)[OF assms(3)]
      using found_activity[OF ws assms(5)] by simp
    moreover have "split_dots ` set default_paths =
        {[''class_uid''], [''metadata'', ''version''], [''category_uid''], [''type_uid'']}"
      by (simp add: default_paths_def)
    ultimately show ?thesis by (simp add: image_Un image_image insert_commute)
  qed
  then have fits: "fits (Node ?b es) (default_paths @ map fm_to ?fms)" using t by (simp add: fits_def)
  have type: "scalar v" if "(p, v) \<in> leaves t" for p v
    by (rule put_all_scalar[OF len vals(2) first_body_paths(2)[OF _ assms(3)]], assumption)
      (use that lv in simp)
  show thesis
    by (rule that[of es]) (use b t fits type in \<open>simp_all add: building_def\<close>)
qed

end
