(* ===== verification/OcsfProps.thy ===== *)
theory OcsfProps
  imports OcsfCoverage
begin

text \<open>
  What the OCSF processor promises, with a concrete library, schema and configuration at which the
  properties are evaluated.
\<close>

section \<open>A concrete library and configuration\<close>

text \<open>A record is its attributes, an expression the name of one of them.\<close>

definition attr_lib :: "(gomap, gomap, string) log_lib" where
  "attr_lib =
     \<lparr>cl_ParseFloat = (\<lambda>s. None), cl_RFC3339 = (\<lambda>s. None), cl_RFC3339Nano = (\<lambda>s. None), cl_beyond = (\<lambda>f. 0),
      ck_overrides = [], ck_match = (\<lambda>p s. True),
      lg_resource_raw = (\<lambda>r h. (h @ [r], GMap (length h))),
      lg_attributes_raw = (\<lambda>lg h. (h @ [lg], GMap (length h))),
      lg_body_raw = (\<lambda>lg h. (h, GNil)), lg_severity = (\<lambda>lg. 9), lg_severity_text = (\<lambda>lg. ''Info''),
      lg_time = (\<lambda>lg. 0), lg_set_body = (\<lambda>h l lg. Some (h ! l)), lg_put_int = (\<lambda>k i lg. lg),
      lg_evaluate = (\<lambda>e h rec.
         (h, case h_get h rec ''attributes'' of
               Some (GMap a) \<Rightarrow> (case h_get h a e of Some v \<Rightarrow> Inr v | None \<Rightarrow> Inr GNil)
             | _ \<Rightarrow> Inr GNil)),
      lg_compile_bool = Some, lg_compile_value = Some\<rparr>"

lemma attr_lib_appends [simp]: "appends attr_lib"
  by (auto simp: appends_def attr_lib_def)

definition attr :: "string \<Rightarrow> string \<Rightarrow> string \<Rightarrow> attribute" where
  "attr ty obj req = \<lparr>at_Type = ty, at_IsArray = False, at_Requirement = req, at_ObjectType = obj,
     at_Enum = [], at_Profile = []\<rparr>"

definition small_schema :: schema where
  "small_schema =
     \<lparr>sc_Objects =
        [(''metadata'', \<lparr>ob_Attributes = [(''version'', attr ''string_t'' [] ''required'')], ob_Constraints = no_constraints\<rparr>),
         (''user'', \<lparr>ob_Attributes = [(''name'', attr ''string_t'' [] []), (''uid'', attr ''string_t'' [] [])],
                    ob_Constraints = \<lparr>AtLeastOne = [''name'', ''uid''], JustOne = []\<rparr>\<rparr>)],
      sc_Types = [],
      sc_Classes =
        [(''file_activity'',
          \<lparr>ob_Attributes =
             [(''class_uid'', attr ''integer_t'' [] ''required''),
              (''activity_id'', attr ''integer_t'' [] ''required''),
              (''metadata'', attr ''object_t'' ''metadata'' ''required''),
              (''type_uid'', attr ''long_t'' [] ''required''),
              (''time'', attr ''timestamp_t'' [] []),
              (''user'', attr ''object_t'' ''user'' ''required'')],
           ob_Constraints = no_constraints, cl_UID = 1001\<rparr>)]\<rparr>"

definition mapped_default :: "string \<Rightarrow> goval \<Rightarrow> string compiledFieldMapping" where
  "mapped_default to v = \<lparr>fm_from = None, fm_to = to, fm_default = v\<rparr>"

definition file_events :: "string compiledFieldMapping list \<Rightarrow> string compiledEventMapping" where
  "file_events fms = \<lparr>em_filter = None, em_classID = 1001, em_profiles = [], em_fieldMappings = fms,
     em_categoryUID = 1\<rparr>"

definition small_processor :: "string compiledFieldMapping list \<Rightarrow> string ocsf_processor" where
  "small_processor fms = \<lparr>op_version = ''1.0.0'', op_eventMappings = [file_events fms],
     op_runtimeValidation = True, op_schema = small_schema\<rparr>"

definition plain_fields :: "string compiledFieldMapping list" where
  "plain_fields = [mapped_default ''activity_id'' (GString ''0x2''), mapped_default ''user.name'' (GString ''ann'')]"

lemmas example_defs = small_processor_def file_events_def plain_fields_def mapped_default_def attr_lib_def
  build_body_def new_body_def apply_mapping_def mapping_value_def coerced_def h_set_def h_get_def

lemma small_types [simp]:
  "LookupFieldType small_schema 1001 [] ''activity_id'' = ''integer''"
  "LookupFieldType small_schema 1001 [] ''user.name'' = ''string''"
  by code_simp+

lemma parse_0x2 [simp]: "parseInt0 ''0x2'' = Some 2"
  by (simp add: parseInt0_def parseUint0_def base_prefix_def digit_value_def lower_char_def Let_def)

lemma plain_body:
  "build_body attr_lib (small_processor plain_fields) (file_events plain_fields) [] 0 =
    ([[(''version'', GString ''1.0.0'')],
      [(''class_uid'', GInt 1001), (''metadata'', GMap 0), (''category_uid'', GInt 1),
       (''type_uid'', GInt64 100102), (''activity_id'', GInt 2), (''user'', GMap 2)],
      [(''name'', GString ''ann'')]], 1)"
  by (simp add: example_defs coerce_defs getTypeUID_def)

lemma plain_well_mapped [simp]: "well_mapped (file_events plain_fields)"
  by (simp add: well_mapped_def prefix_free_def own_paths_def file_events_def plain_fields_def mapped_default_def)

section \<open>Types\<close>

text \<open>
  C8. In a body whose mapped paths do not lead through each other every mapped field holds a value of the
  type the schema gives it, unless its value is one that the coercion refuses and leaves as it was; and
  coercing a value twice is coercing it once.
\<close>

theorem mapped_fields_typed:
  assumes "appends lib" and "well_mapped em" and "fm \<in> set (em_fieldMappings em)"
    and "split_dots (fm_to fm) \<notin> set own_paths"
    and "at_path (fst (build_body lib osp em h rec)) (snd (build_body lib osp em h rec)) (split_dots (fm_to fm)) = Some v"
    and "LookupFieldType (op_schema osp) (sint (em_classID em)) (em_profiles em) (fm_to fm) = t" and "t \<noteq> []"
  shows "(has_type t v \<or> refused (coerce_lib.truncate lib) t v)
    \<and> coerceType (coerce_lib.truncate lib) v t = v"
proof
  from body_value[OF assms(1-5)] obtain w where "v = coerced lib (op_schema osp) em (fm_to fm) w" by blast
  with assms(6,7) have v: "v = coerceType (coerce_lib.truncate lib) w t" by (simp add: coerced_def)
  show "has_type t v \<or> refused (coerce_lib.truncate lib) t v"
    using coerce_refused[of t "coerce_lib.truncate lib" w] v by metis
  show "coerceType (coerce_lib.truncate lib) v t = v" unfolding v by (rule coerce_idempotent)
qed

theorem mapped_fields_typed_witness:
  "(has_type ''integer'' (GInt 2) \<or> refused (coerce_lib.truncate attr_lib) ''integer'' (GInt 2))
     \<and> coerceType (coerce_lib.truncate attr_lib) (GInt 2) ''integer'' = GInt 2"
proof (rule mapped_fields_typed[OF attr_lib_appends plain_well_mapped])
  show "mapped_default ''activity_id'' (GString ''0x2'') \<in> set (em_fieldMappings (file_events plain_fields))"
    by (simp add: file_events_def plain_fields_def)
  show "split_dots (fm_to (mapped_default ''activity_id'' (GString ''0x2''))) \<notin> set own_paths"
    by (simp add: own_paths_def mapped_default_def)
  show "at_path (fst (build_body attr_lib (small_processor plain_fields) (file_events plain_fields) [] 0))
     (snd (build_body attr_lib (small_processor plain_fields) (file_events plain_fields) [] 0))
     (split_dots (fm_to (mapped_default ''activity_id'' (GString ''0x2'')))) = Some (GInt 2)"
    by (simp add: plain_body mapped_default_def h_get_def)
  show "LookupFieldType (op_schema (small_processor plain_fields)) (sint (em_classID (file_events plain_fields)))
     (em_profiles (file_events plain_fields)) (fm_to (mapped_default ''activity_id'' (GString ''0x2''))) = ''integer''"
    by (simp add: small_processor_def file_events_def mapped_default_def)
qed simp

section \<open>Completeness\<close>

text \<open>
  C6. Whatever configuration \<open>Validate\<close> accepts by its field paths alone, without profiles, produces bodies
  that lack nothing. This is so under four conditions: no profile is configured; for the record at hand
  every mapping delivers a plain value, be it from its source or from its default (one that delivers
  nothing leaves its field out, required or not); one mapping delivers the activity; and no mapped path
  leads through another. Then the validation of the body ends and reports no required field, no set of
  alternatives and no exclusive choice as missing, on any level.
\<close>

theorem accepted_config_complete:
  assumes "appends lib" and "well_mapped em" and "em_profiles em = []"
    and "list_all (\<lambda>fm. whole_path (fm_to fm)) (em_fieldMappings em)"
    and "list_all (delivers lib rec) (em_fieldMappings em)" and "has_activity lib (op_schema osp) em rec"
    and "ValidateFieldCoverage (op_schema osp) (sint (em_classID em)) [] (default_paths @ map fm_to (em_fieldMappings em)) = []"
    and "build_body lib osp em h rec = (h', body)"
  shows "\<exists>N. \<forall>n\<ge>N. \<exists>errs.
     ValidateClass n lib (op_schema osp) h' (sint (em_classID em)) (em_profiles em) (GMap body) = Some errs
     \<and> \<not> list_ex reports_missing errs"
proof (rule body_fits[OF assms(1,2,3,5,6), of h])
  let ?ps = "default_paths @ map fm_to (em_fieldMappings em)" and ?sc = "op_schema osp"
  fix es
  assume "holds (fst (build_body lib osp em h rec)) (Node (snd (build_body lib osp em h rec)) es)"
    and "proper (Node (snd (build_body lib osp em h rec)) es)"
    and "fits (Node (snd (build_body lib osp em h rec)) es) ?ps"
    and lv: "\<And>p v. (p, v) \<in> leaves (Node (snd (build_body lib osp em h rec)) es) \<Longrightarrow> scalar v"
  then have t: "holds h' (Node body es)" "proper (Node body es)" "fits (Node body es) ?ps"
    "\<And>p v. (p, v) \<in> leaves (Node body es) \<Longrightarrow> scalar v"
    using assms(8) by simp_all
  have whole: "whole_path p" if "p \<in> set ?ps" for p
    using that assms(4) by (auto simp: default_paths_def whole_path_def list_all_iff)
  obtain r where r: "classFieldReqs ?sc (sint (em_classID em)) = Some r" and c: "validateCoverage ?sc r [] ?ps [] = []"
    using assms(7) by (auto simp: ValidateFieldCoverage_def split: option.splits)
  then obtain name cls where cls: "find_class ?sc (sint (em_classID em)) = Some (name, cls)"
    and req: "requirements (filterOutProfileAttrs (ob_Attributes cls)) (ob_Constraints cls) (sc_Types ?sc) = Some r"
    by (auto simp: classFieldReqs_def split: option.splits if_splits)
  have cov: "case requirements (filterOutProfileAttrs (ob_Attributes cls)) (ob_Constraints cls) (sc_Types ?sc) of
      None \<Rightarrow> True | Some r \<Rightarrow> validateCoverage ?sc r [] ?ps [] = []" using req c by simp
  show ?thesis
  proof (rule exI[of _ "height (Node body es)"], intro allI impI)
    fix n
    assume n: "height (Node body es) \<le> n"
    have "\<exists>errs. validate n lib ?sc h' (filterOutProfileAttrs (ob_Attributes cls)) (ob_Constraints cls) (h' ! body) = Some errs
        \<and> \<not> list_ex reports_missing errs"
      by (rule validate_no_missing[OF n t(1,2,3) whole _ cov]) (assumption, rule t(4))
    then show "\<exists>errs. ValidateClass n lib ?sc h' (sint (em_classID em)) (em_profiles em) (GMap body) = Some errs
        \<and> \<not> list_ex reports_missing errs"
      by (auto simp: ValidateClass_def cls assms(3))
  qed
qed

lemma plain_coverage:
  "ValidateFieldCoverage small_schema 1001 [] (default_paths @ [''activity_id'', ''user.name'']) = []"
  by code_simp

theorem accepted_config_complete_witness:
  "\<exists>n errs. ValidateClass n attr_lib small_schema
     (fst (build_body attr_lib (small_processor plain_fields) (file_events plain_fields) [] 0)) 1001 [] (GMap 1) = Some errs
     \<and> \<not> list_ex reports_missing errs"
proof -
  have "\<exists>N. \<forall>n\<ge>N. \<exists>errs. ValidateClass n attr_lib (op_schema (small_processor plain_fields))
     (fst (build_body attr_lib (small_processor plain_fields) (file_events plain_fields) [] 0))
     (sint (em_classID (file_events plain_fields))) (em_profiles (file_events plain_fields)) (GMap 1) = Some errs
     \<and> \<not> list_ex reports_missing errs"
  proof (rule accepted_config_complete[OF attr_lib_appends plain_well_mapped])
    show "list_all (\<lambda>fm. whole_path (fm_to fm)) (em_fieldMappings (file_events plain_fields))"
      by (simp add: example_defs whole_path_def)
    show "list_all (delivers attr_lib 0) (em_fieldMappings (file_events plain_fields))"
      by (simp add: example_defs delivers_def)
    show "has_activity attr_lib (op_schema (small_processor plain_fields)) (file_events plain_fields) 0"
      by (simp add: has_activity_def example_defs coerce_defs)
    show "ValidateFieldCoverage (op_schema (small_processor plain_fields)) (sint (em_classID (file_events plain_fields))) []
       (default_paths @ map fm_to (em_fieldMappings (file_events plain_fields))) = []"
      using plain_coverage by (simp add: example_defs)
    show "build_body attr_lib (small_processor plain_fields) (file_events plain_fields) [] 0 =
       (fst (build_body attr_lib (small_processor plain_fields) (file_events plain_fields) [] 0), 1)"
      by (simp add: plain_body)
  qed (simp add: file_events_def)
  then obtain N where "\<forall>n\<ge>N. \<exists>errs. ValidateClass n attr_lib (op_schema (small_processor plain_fields))
     (fst (build_body attr_lib (small_processor plain_fields) (file_events plain_fields) [] 0))
     (sint (em_classID (file_events plain_fields))) (em_profiles (file_events plain_fields)) (GMap 1) = Some errs
     \<and> \<not> list_ex reports_missing errs" by blast
  from this[rule_format, OF order_refl] show ?thesis
    by (simp add: small_processor_def file_events_def) blast
qed

section \<open>Isolation\<close>

text \<open>
  C7. For a configuration in which no mapped path leads through another one, processing writes only into
  maps it made itself: the maps of the configuration's defaults, the attributes of the resource that all
  its records share, and every other map that existed before are as they were. (Without that condition
  it does not hold: lemma \<open>default_map_leaks\<close>.)
\<close>

theorem only_own_maps_written:
  assumes "appends lib" and "config_well_mapped osp"
  shows "prefix h (fst (processLogRecord n lib osp h lg res)) \<and> prefix h (fst (processLogs n lib osp h rs))"
  using processLogRecord_prefix[OF assms] processLogs_prefix[OF assms] by blast

definition default_map_fields :: "string compiledFieldMapping list" where
  "default_map_fields = [mapped_default ''activity_id'' (GString ''0x2''), mapped_default ''user'' (GMap 0)]"

theorem only_own_maps_written_witness:
  "prefix [[(''name'', GString ''ann'')]] (fst (processLogRecord 4 attr_lib (small_processor default_map_fields)
       [[(''name'', GString ''ann'')]] [] (GMap 0)))
   \<and> prefix [[(''name'', GString ''ann'')]] (fst (processLogs 4 attr_lib (small_processor default_map_fields)
       [[(''name'', GString ''ann'')]] [([], [[[]]])]))"
proof (rule only_own_maps_written[OF attr_lib_appends])
  show "config_well_mapped (small_processor default_map_fields)"
    by (simp add: config_well_mapped_def well_mapped_def prefix_free_def own_paths_def small_processor_def
        file_events_def default_map_fields_def mapped_default_def)
qed

text \<open>Without the condition on the paths a value leaks: a default that is a map, with a path below it that
  only some records fill, still holds the value of an earlier record when a later one is processed.\<close>

definition leaking_fields :: "string compiledFieldMapping list" where
  "leaking_fields =
     [mapped_default ''user'' (GMap 0), \<lparr>fm_from = Some ''who'', fm_to = ''user.name'', fm_default = GNil\<rparr>]"

lemma default_map_leaks:
  assumes "h1 = fst (build_body attr_lib (small_processor leaking_fields) (file_events leaking_fields)
      [[], [(''who'', GString ''ann'')], [(''attributes'', GMap 1)]] 2)"
    and "h2 = h1 @ [[], [(''attributes'', GMap (length h1))]]"
    and "(h3, body) = build_body attr_lib (small_processor leaking_fields) (file_events leaking_fields) h2 (Suc (length h1))"
  shows "at_path h3 body [''user'', ''name''] = Some (GString ''ann'')"
proof -
  have t: "LookupFieldType small_schema 1001 [] ''user'' = []" by code_simp
  show ?thesis
    using assms by (simp add: example_defs leaking_fields_def t coerce_defs)
qed

text \<open>The record's own timestamp and severity number pass every coercion unchanged, and the checks of
  ranges and enumerations do not look at them.\<close>

lemma record_fields_uncoerced:
  "coerceType lib (GTime t) ty = GTime t" "coerceType lib (GInt32 w) ty = GInt32 w"
  "toInt64 lib (GTime t) = None" "toInt64 lib (GInt32 w) = None"
  by (simp_all add: coerce_defs toInt64_def)


text \<open>Two mappings of one map, to a field and to a field below it, put the map into itself: here the
  attribute \<open>raw\<close>, the empty map 2 of the heap, which becomes a field of its own.\<close>

definition looping_fields :: "string compiledFieldMapping list" where
  "looping_fields =
     [\<lparr>fm_from = Some ''raw'', fm_to = ''unmapped'', fm_default = GNil\<rparr>,
      \<lparr>fm_from = Some ''raw'', fm_to = ''unmapped.raw'', fm_default = GNil\<rparr>]"

lemma map_below_itself:
  assumes "(h, body) = build_body attr_lib (small_processor looping_fields) (file_events looping_fields)
      [[(''attributes'', GMap (Suc 0))], [(''raw'', GMap (Suc (Suc 0)))], []] 0"
  shows "h_get h body ''unmapped'' = Some (GMap (Suc (Suc 0)))"
    and "h_get h (Suc (Suc 0)) ''raw'' = Some (GMap (Suc (Suc 0)))"
proof -
  have t: "LookupFieldType small_schema 1001 [] ''unmapped'' = []"
    "LookupFieldType small_schema 1001 [] ''unmapped.raw'' = []" by code_simp+
  have "h_get (fst r) (snd r) ''unmapped'' = Some (GMap (Suc (Suc 0)))
      \<and> h_get (fst r) (Suc (Suc 0)) ''raw'' = Some (GMap (Suc (Suc 0)))"
    if "r = build_body attr_lib (small_processor looping_fields) (file_events looping_fields)
      [[(''attributes'', GMap (Suc 0))], [(''raw'', GMap (Suc (Suc 0)))], []] 0" for r
    unfolding that by (simp add: example_defs looping_fields_def t coerce_defs Let_def)
  from this[OF assms] show "h_get h body ''unmapped'' = Some (GMap (Suc (Suc 0)))"
    and "h_get h (Suc (Suc 0)) ''raw'' = Some (GMap (Suc (Suc 0)))" by simp_all
qed

end
