(* ===== verification/MetricStats.thy ===== *)
theory MetricStats
  imports PData GoFloat "HOL-Library.AList"
begin

text \<open>
  The metric statistics processor (\<open>processor/metricstatsprocessor\<close>): gauges and cumulative sums whose name
  matches are taken out of the stream, their datapoints go into statistics by resource, metric name and
  attributes (\<open>internal/stats\<close>), and every interval the statistics are sent on and forgotten.

  Parameters: the hash of a map (\<open>pdatautil.MapHash\<close>, as its two halves), the match of the \<open>include\<close>
  expression, the consumer. The maps of the state are lists of entries; the order in which Go ranges over
  them is that of the list.
\<close>

section \<open>Datapoints and metrics\<close>

datatype number = NEmpty | NInt i64 | NDouble f64

record datapoint =
  dp_attributes :: pmap
  dp_start :: "64 word"
  dp_time :: "64 word"
  dp_value :: number

text \<open>
  A sum is cumulative or not, and monotonic or not. The histograms, exponential histograms and summaries
  have their kind and their datapoints, of which the processor looks at nothing: they are their attributes
  and what else they hold.
\<close>

record other_datapoint =
  ot_attributes :: pmap
  ot_content :: nat

datatype metric_data =
    Gauge "datapoint list"
  | Sum bool bool "datapoint list"
  | OtherMetric nat "other_datapoint list"

record metric =
  me_name :: string
  me_desc :: string
  me_unit :: string
  me_data :: metric_data

record scope_metrics =
  sm_scope :: nat
  sm_metrics :: "metric list"

record resource_metrics =
  rm_resource :: pmap
  rm_scopes :: "scope_metrics list"

fun datapointsFromMetric :: "metric_data \<Rightarrow> datapoint list" where
  "datapointsFromMetric (Gauge ds) = ds"
| "datapointsFromMetric (Sum c m ds) = ds"
| "datapointsFromMetric (OtherMetric n os) = []"

fun set_datapoints :: "metric_data \<Rightarrow> datapoint list \<Rightarrow> metric_data" where
  "set_datapoints (Gauge _) ds = Gauge ds"
| "set_datapoints (Sum c m _) ds = Sum c m ds"
| "set_datapoints (OtherMetric n os) ds = OtherMetric n os"

fun canAddMetricToStats :: "metric_data \<Rightarrow> bool" where
  "canAddMetricToStats (Gauge _) = True"
| "canAddMetricToStats (Sum cumulative m ds) = cumulative"
| "canAddMetricToStats (OtherMetric n os) = False"

fun isMonotonic :: "metric_data \<Rightarrow> bool" where
  "isMonotonic (Sum c m ds) = m"
| "isMonotonic _ = False"

definition removeEmptyMetrics :: "metric list \<Rightarrow> metric list" where
  "removeEmptyMetrics ms =
     filter (\<lambda>m. case me_data m of Gauge ds \<Rightarrow> ds \<noteq> [] | Sum c mo ds \<Rightarrow> ds \<noteq> [] | OtherMetric n os \<Rightarrow> True) ms"

definition removeEmptyScopeMetrics :: "scope_metrics list \<Rightarrow> scope_metrics list" where
  "removeEmptyScopeMetrics sms = filter (\<lambda>sm. sm_metrics sm \<noteq> []) sms"

definition removeEmptyResourceMetrics :: "resource_metrics list \<Rightarrow> resource_metrics list" where
  "removeEmptyResourceMetrics rms = filter (\<lambda>rm. rm_scopes rm \<noteq> []) rms"

section \<open>Statistics\<close>

definition getDatapointValueDouble :: "number \<Rightarrow> f64" where
  "getDatapointValueDouble v =
     (case v of NInt i \<Rightarrow> float64_of_int64 i | NDouble f \<Rightarrow> f | NEmpty \<Rightarrow> f_of_int 0)"

definition getDatapointValueInt :: "(f64 \<Rightarrow> i64) \<Rightarrow> number \<Rightarrow> i64" where
  "getDatapointValueInt beyond v =
     (case v of NInt i \<Rightarrow> i | NDouble f \<Rightarrow> int64_of_float64 beyond f | NEmpty \<Rightarrow> 0)"

datatype StatType = MinType | MaxType | FirstType | LastType | AvgType | OtherType string

record extremeStatistic =
  ex_int :: i64
  ex_double :: f64
  ex_isInt :: bool

record avgStatistic =
  av_totalInt :: i64
  av_totalDouble :: f64
  av_isInt :: bool
  av_count :: i64

record timedStatistic =
  tm_valInt :: i64
  tm_valDouble :: f64
  tm_timestamp :: "64 word"
  tm_isInt :: bool

text \<open>\<open>minStatistic\<close> and \<open>maxStatistic\<close> have the same fields, and so have \<open>firstStatistic\<close> and \<open>lastStatistic\<close>.\<close>

datatype statistic =
    MinStat extremeStatistic
  | MaxStat extremeStatistic
  | FirstStat timedStatistic
  | LastStat timedStatistic
  | AvgStat avgStatistic

definition new_extreme :: "number \<Rightarrow> extremeStatistic option" where
  "new_extreme v =
     (case v of
        NInt i \<Rightarrow> Some \<lparr>ex_int = i, ex_double = f_of_int 0, ex_isInt = True\<rparr>
      | NDouble f \<Rightarrow> Some \<lparr>ex_int = 0, ex_double = f, ex_isInt = False\<rparr>
      | NEmpty \<Rightarrow> None)"

definition new_timed :: "datapoint \<Rightarrow> timedStatistic option" where
  "new_timed d =
     (case dp_value d of
        NInt i \<Rightarrow> Some \<lparr>tm_valInt = i, tm_valDouble = f_of_int 0, tm_timestamp = dp_time d, tm_isInt = True\<rparr>
      | NDouble f \<Rightarrow> Some \<lparr>tm_valInt = 0, tm_valDouble = f, tm_timestamp = dp_time d, tm_isInt = False\<rparr>
      | NEmpty \<Rightarrow> None)"

definition newAvgStatistic :: "number \<Rightarrow> avgStatistic option" where
  "newAvgStatistic v =
     (case v of
        NInt i \<Rightarrow> Some \<lparr>av_totalInt = i, av_totalDouble = f_of_int 0, av_isInt = True, av_count = 1\<rparr>
      | NDouble f \<Rightarrow> Some \<lparr>av_totalInt = 0, av_totalDouble = f, av_isInt = False, av_count = 1\<rparr>
      | NEmpty \<Rightarrow> None)"

definition New :: "StatType \<Rightarrow> datapoint \<Rightarrow> statistic option" where
  "New t d =
     (case t of
        MinType \<Rightarrow> map_option MinStat (new_extreme (dp_value d))
      | MaxType \<Rightarrow> map_option MaxStat (new_extreme (dp_value d))
      | FirstType \<Rightarrow> map_option FirstStat (new_timed d)
      | LastType \<Rightarrow> map_option LastStat (new_timed d)
      | AvgType \<Rightarrow> map_option AvgStat (newAvgStatistic (dp_value d))
      | OtherType s \<Rightarrow> None)"

definition min_add :: "(f64 \<Rightarrow> i64) \<Rightarrow> extremeStatistic \<Rightarrow> datapoint \<Rightarrow> extremeStatistic" where
  "min_add beyond m d =
     (if ex_isInt m then
        (let i = getDatapointValueInt beyond (dp_value d)
         in if i <s ex_int m then m\<lparr>ex_int := i\<rparr> else m)
      else
        (let f = getDatapointValueDouble (dp_value d)
         in if f_lt f (ex_double m) then m\<lparr>ex_double := f\<rparr> else m))"

definition max_add :: "(f64 \<Rightarrow> i64) \<Rightarrow> extremeStatistic \<Rightarrow> datapoint \<Rightarrow> extremeStatistic" where
  "max_add beyond m d =
     (if ex_isInt m then
        (let i = getDatapointValueInt beyond (dp_value d)
         in if ex_int m <s i then m\<lparr>ex_int := i\<rparr> else m)
      else
        (let f = getDatapointValueDouble (dp_value d)
         in if f_lt (ex_double m) f then m\<lparr>ex_double := f\<rparr> else m))"

definition avg_add :: "(f64 \<Rightarrow> i64) \<Rightarrow> avgStatistic \<Rightarrow> datapoint \<Rightarrow> avgStatistic" where
  "avg_add beyond m d =
     (let m' = (if av_isInt m then m\<lparr>av_totalInt := av_totalInt m + getDatapointValueInt beyond (dp_value d)\<rparr>
                else m\<lparr>av_totalDouble := f_add (av_totalDouble m) (getDatapointValueDouble (dp_value d))\<rparr>)
      in m'\<lparr>av_count := av_count m + 1\<rparr>)"

definition timed_set :: "(f64 \<Rightarrow> i64) \<Rightarrow> timedStatistic \<Rightarrow> datapoint \<Rightarrow> timedStatistic" where
  "timed_set beyond m d =
     (if tm_isInt m then m\<lparr>tm_valInt := getDatapointValueInt beyond (dp_value d)\<rparr>
      else m\<lparr>tm_valDouble := getDatapointValueDouble (dp_value d)\<rparr>)"

text \<open>\<open>AsTime\<close> takes a timestamp as an \<open>int64\<close> of nanoseconds. The statistic of the first value keeps the
  timestamp it began with.\<close>

definition first_add :: "(f64 \<Rightarrow> i64) \<Rightarrow> timedStatistic \<Rightarrow> datapoint \<Rightarrow> timedStatistic" where
  "first_add beyond m d =
     (if dp_time d = 0 then m
      else if dp_time d <s tm_timestamp m then timed_set beyond m d
      else m)"

definition last_add :: "(f64 \<Rightarrow> i64) \<Rightarrow> timedStatistic \<Rightarrow> datapoint \<Rightarrow> timedStatistic" where
  "last_add beyond m d =
     (if tm_timestamp m <s dp_time d \<or> dp_time d = tm_timestamp m
      then (timed_set beyond m d)\<lparr>tm_timestamp := dp_time d\<rparr> else m)"

fun AddDatapoint :: "(f64 \<Rightarrow> i64) \<Rightarrow> datapoint \<Rightarrow> statistic \<Rightarrow> statistic" where
  "AddDatapoint beyond d (MinStat m) = MinStat (min_add beyond m d)"
| "AddDatapoint beyond d (MaxStat m) = MaxStat (max_add beyond m d)"
| "AddDatapoint beyond d (FirstStat m) = FirstStat (first_add beyond m d)"
| "AddDatapoint beyond d (LastStat m) = LastStat (last_add beyond m d)"
| "AddDatapoint beyond d (AvgStat m) = AvgStat (avg_add beyond m d)"

text \<open>\<open>SetDatapointValue\<close>; the division of integers is towards zero and its one overflow wraps.\<close>

definition go_div :: "i64 \<Rightarrow> i64 \<Rightarrow> i64" where
  "go_div a b = word_of_int (sgn (sint a) * sgn (sint b) * (\<bar>sint a\<bar> div \<bar>sint b\<bar>))"

fun SetDatapointValue :: "statistic \<Rightarrow> number" where
  "SetDatapointValue (MinStat m) = (if ex_isInt m then NInt (ex_int m) else NDouble (ex_double m))"
| "SetDatapointValue (MaxStat m) = (if ex_isInt m then NInt (ex_int m) else NDouble (ex_double m))"
| "SetDatapointValue (FirstStat m) = (if tm_isInt m then NInt (tm_valInt m) else NDouble (tm_valDouble m))"
| "SetDatapointValue (LastStat m) = (if tm_isInt m then NInt (tm_valInt m) else NDouble (tm_valDouble m))"
| "SetDatapointValue (AvgStat m) =
     (if av_isInt m then NInt (go_div (av_totalInt m) (av_count m))
      else NDouble (f_div (av_totalDouble m) (float64_of_int64 (av_count m))))"

section \<open>The processor\<close>

record datapointMetadata =
  dm_attributes :: pmap
  dm_statistics :: "(StatType \<times> statistic) list"

record metricMetadata =
  mm_desc :: string
  mm_unit :: string
  mm_sum :: bool
  mm_monotonic :: bool
  mm_datapoints :: "(64 word \<times> datapointMetadata) list"

record resourceMetadata =
  rd_resource :: pmap
  rd_metrics :: "(string \<times> metricMetadata) list"

record stats_config =
  sc_hash :: "pmap \<Rightarrow> 64 word \<times> 64 word"
  sc_include :: "string \<Rightarrow> bool"
  sc_statTypes :: "StatType list"
  sc_beyond :: "f64 \<Rightarrow> i64"

record stats_state =
  ss_statMap :: "(64 word \<times> resourceMetadata) list"
  ss_calcPeriodStart :: "64 word"

definition mapKey :: "stats_config \<Rightarrow> pmap \<Rightarrow> 64 word" where
  "mapKey cfg m = (case sc_hash cfg m of (upper, lower) \<Rightarrow> xor lower upper)"

definition createStatistics :: "StatType list \<Rightarrow> datapoint \<Rightarrow> (StatType \<times> statistic) list" where
  "createStatistics ts d =
     fold (\<lambda>t m. case New t d of None \<Rightarrow> m | Some s \<Rightarrow> AList.update t s m) ts []"

definition addDatapointToStats :: "stats_config \<Rightarrow> datapoint \<Rightarrow> metricMetadata \<Rightarrow> metricMetadata" where
  "addDatapointToStats cfg d ma =
     (let key = mapKey cfg (dp_attributes d)
      in ma\<lparr>mm_datapoints :=
           AList.update key
             (case map_of (mm_datapoints ma) key of
                None \<Rightarrow> \<lparr>dm_attributes = dp_attributes d, dm_statistics = createStatistics (sc_statTypes cfg) d\<rparr>
              | Some dpa \<Rightarrow> dpa\<lparr>dm_statistics := map (\<lambda>(t, s). (t, AddDatapoint (sc_beyond cfg) d s)) (dm_statistics dpa)\<rparr>)
             (mm_datapoints ma)\<rparr>)"

definition metricMetadata_of :: "metric \<Rightarrow> (string \<times> metricMetadata) list \<Rightarrow> metricMetadata" where
  "metricMetadata_of m ms =
     (case map_of ms (me_name m) of
        Some ma \<Rightarrow> ma
      | None \<Rightarrow> \<lparr>mm_desc = me_desc m, mm_unit = me_unit m,
                  mm_sum = (case me_data m of Sum _ _ _ \<Rightarrow> True | _ \<Rightarrow> False),
                  mm_monotonic = isMonotonic (me_data m), mm_datapoints = []\<rparr>)"

definition resourceMetadata_of :: "64 word \<Rightarrow> pmap \<Rightarrow> (64 word \<times> resourceMetadata) list \<Rightarrow> resourceMetadata" where
  "resourceMetadata_of resKey resAttrs sm =
     (case map_of sm resKey of
        Some rma \<Rightarrow> rma
      | None \<Rightarrow> \<lparr>rd_resource = resAttrs, rd_metrics = []\<rparr>)"

definition has_number :: "datapoint \<Rightarrow> bool" where
  "has_number d = (dp_value d \<noteq> NEmpty)"

definition takes :: "stats_config \<Rightarrow> metric \<Rightarrow> bool" where
  "takes cfg m = (canAddMetricToStats (me_data m) \<and> sc_include cfg (me_name m))"

text \<open>One metric of a resource: its numbers go into the statistics and are removed from it.\<close>

definition add_metric ::
  "stats_config \<Rightarrow> 64 word \<Rightarrow> pmap \<Rightarrow> metric \<Rightarrow> (64 word \<times> resourceMetadata) list
     \<Rightarrow> (64 word \<times> resourceMetadata) list \<times> metric" where
  "add_metric cfg resKey resAttrs m sm =
     (if \<not> takes cfg m then (sm, m)
      else (let rma = resourceMetadata_of resKey resAttrs sm;
                ma = metricMetadata_of m (rd_metrics rma);
                dps = datapointsFromMetric (me_data m);
                ma' = fold (addDatapointToStats cfg) (filter has_number dps) ma;
                rma' = rma\<lparr>rd_metrics := AList.update (me_name m) ma' (rd_metrics rma)\<rparr>
            in (AList.update resKey rma' sm,
                m\<lparr>me_data := set_datapoints (me_data m) (filter (\<lambda>d. \<not> has_number d) dps)\<rparr>)))"

text \<open>The loops of \<open>addMetricsToCalculations\<close>.\<close>

fun add_metrics where
  "add_metrics cfg resKey resAttrs [] sm = (sm, [])"
| "add_metrics cfg resKey resAttrs (m # ms) sm =
     (case add_metric cfg resKey resAttrs m sm of (sm1, m') \<Rightarrow>
      case add_metrics cfg resKey resAttrs ms sm1 of (sm2, ms') \<Rightarrow> (sm2, m' # ms'))"

fun add_scopes where
  "add_scopes cfg resKey resAttrs [] sm = (sm, [])"
| "add_scopes cfg resKey resAttrs (s # ss) sm =
     (case add_metrics cfg resKey resAttrs (sm_metrics s) sm of (sm1, ms) \<Rightarrow>
      case add_scopes cfg resKey resAttrs ss sm1 of (sm2, ss') \<Rightarrow>
        (sm2, s\<lparr>sm_metrics := removeEmptyMetrics ms\<rparr> # ss'))"

fun add_resources where
  "add_resources cfg [] sm = (sm, [])"
| "add_resources cfg (r # rs) sm =
     (case add_scopes cfg (mapKey cfg (rm_resource r)) (rm_resource r) (rm_scopes r) sm of (sm1, ss) \<Rightarrow>
      case add_resources cfg rs sm1 of (sm2, rs') \<Rightarrow>
        (sm2, r\<lparr>rm_scopes := removeEmptyScopeMetrics ss\<rparr> # rs'))"

definition addMetricsToCalculations ::
  "stats_config \<Rightarrow> resource_metrics list \<Rightarrow> stats_state \<Rightarrow> stats_state \<times> resource_metrics list" where
  "addMetricsToCalculations cfg md st =
     (case add_resources cfg md (ss_statMap st) of (sm, rms) \<Rightarrow>
        (st\<lparr>ss_statMap := sm\<rparr>, removeEmptyResourceMetrics rms))"

text \<open>\<open>ConsumeMetrics\<close>: what is left is handed to the next consumer, if anything is. The error that
  consumer may give is the result of the call; it changes nothing here and is left out.\<close>

definition ConsumeMetrics ::
  "stats_config \<Rightarrow> resource_metrics list \<Rightarrow> stats_state \<Rightarrow> stats_state \<times> resource_metrics list option" where
  "ConsumeMetrics cfg md st =
     (case addMetricsToCalculations cfg md st of (st', rest) \<Rightarrow>
        (st', if rest \<noteq> [] then Some rest else None))"

definition stat_name :: "StatType \<Rightarrow> string" where
  "stat_name t = (case t of MinType \<Rightarrow> ''min'' | MaxType \<Rightarrow> ''max'' | FirstType \<Rightarrow> ''first'' | LastType \<Rightarrow> ''last''
     | AvgType \<Rightarrow> ''avg'' | OtherType s \<Rightarrow> s)"

definition calculated_datapoints ::
  "64 word \<Rightarrow> 64 word \<Rightarrow> StatType \<Rightarrow> (64 word \<times> datapointMetadata) list \<Rightarrow> datapoint list" where
  "calculated_datapoints start now t dpas =
     List.map_filter (\<lambda>(key, dpa). map_option (\<lambda>s. \<lparr>dp_attributes = dm_attributes dpa, dp_start = start, dp_time = now,
         dp_value = SetDatapointValue s\<rparr>) (map_of (dm_statistics dpa) t)) dpas"

definition addCalculatedMetric ::
  "64 word \<Rightarrow> 64 word \<Rightarrow> StatType \<Rightarrow> string \<times> metricMetadata \<Rightarrow> metric" where
  "addCalculatedMetric start now t nm =
     (case nm of (name, ma) \<Rightarrow>
        (let dps = calculated_datapoints start now t (mm_datapoints ma)
         in \<lparr>me_name = name @ ''.'' @ stat_name t, me_desc = mm_desc ma, me_unit = mm_unit ma,
             me_data = (if mm_sum ma then Sum True (mm_monotonic ma) dps else Gauge dps)\<rparr>))"

definition flush_resource :: "stats_config \<Rightarrow> 64 word \<Rightarrow> 64 word \<Rightarrow> resourceMetadata \<Rightarrow> resource_metrics" where
  "flush_resource cfg start now ra =
     \<lparr>rm_resource = rd_resource ra,
      rm_scopes = [\<lparr>sm_scope = 0,
        sm_metrics = concat (map (\<lambda>t. map (addCalculatedMetric start now t) (rd_metrics ra)) (sc_statTypes cfg))\<rparr>]\<rparr>"

definition DataPointCount :: "resource_metrics list \<Rightarrow> nat" where
  "DataPointCount md = sum_list (map (\<lambda>r. sum_list (map (\<lambda>s.
     sum_list (map (\<lambda>m. length (datapointsFromMetric (me_data m))) (sm_metrics s))) (rm_scopes r))) md)"

text \<open>\<open>flush\<close>: the next consumer gets the statistics if there are any; whether it takes them or not, they are
  forgotten and the next period begins.\<close>

definition flush_stats :: "stats_config \<Rightarrow> 64 word \<Rightarrow> stats_state \<Rightarrow> stats_state \<times> resource_metrics list option" where
  "flush_stats cfg now st =
     (let md = map (\<lambda>(k, ra). flush_resource cfg (ss_calcPeriodStart st) now ra) (ss_statMap st)
      in (\<lparr>ss_statMap = [], ss_calcPeriodStart = now\<rparr>,
          if DataPointCount md \<noteq> 0 then Some md else None))"

section \<open>Configuration\<close>

record stats_Config =
  sC_Interval :: duration
  sC_Stats :: "StatType list option"

fun stats_seen :: "StatType list \<Rightarrow> StatType list \<Rightarrow> bool" where
  "stats_seen [] seen = True"
| "stats_seen (t # ts) seen =
     (case t of OtherType s \<Rightarrow> False | _ \<Rightarrow> t \<notin> set seen \<and> stats_seen ts (t # seen))"

text \<open>\<open>Config.Validate\<close>, given whether the \<open>include\<close> expression compiles.\<close>

definition stats_Validate :: "bool \<Rightarrow> stats_Config \<Rightarrow> bool" where
  "stats_Validate include_ok c =
     (include_ok \<and> 0 < sC_Interval c
      \<and> (case sC_Stats c of None \<Rightarrow> True | Some ts \<Rightarrow> ts \<noteq> [] \<and> stats_seen ts []))"

definition StatTypes :: "stats_Config \<Rightarrow> StatType list" where
  "StatTypes c = (case sC_Stats c of None \<Rightarrow> [MinType, MaxType, AvgType] | Some ts \<Rightarrow> ts)"

end
