(* ===== verification/MetricWindows.thy ===== *)
theory MetricWindows
  imports MetricStats "HOL-Library.Multiset"
begin

text \<open>
  What the metric statistics processor keeps and sends: the statistics of a window are those of the series
  that arrived in it, key by key; the values they give for integers; and no datapoint gets lost.
\<close>

section \<open>Series\<close>

text \<open>The datapoints a batch gives to the statistics, with the keys of resource and metric.\<close>

definition taken_metric :: "stats_config \<Rightarrow> 64 word \<Rightarrow> metric \<Rightarrow> (64 word \<times> string \<times> datapoint) list" where
  "taken_metric cfg rk m =
     (if takes cfg m then map (\<lambda>d. (rk, me_name m, d)) (filter has_number (datapointsFromMetric (me_data m))) else [])"

definition taken_resource :: "stats_config \<Rightarrow> resource_metrics \<Rightarrow> (64 word \<times> string \<times> datapoint) list" where
  "taken_resource cfg r =
     concat (map (\<lambda>s. concat (map (taken_metric cfg (mapKey cfg (rm_resource r))) (sm_metrics s))) (rm_scopes r))"

definition taken :: "stats_config \<Rightarrow> resource_metrics list \<Rightarrow> (64 word \<times> string \<times> datapoint) list" where
  "taken cfg md = concat (map (taken_resource cfg) md)"

definition in_series :: "stats_config \<Rightarrow> 64 word \<Rightarrow> string \<Rightarrow> 64 word \<Rightarrow> 64 word \<times> string \<times> datapoint \<Rightarrow> bool" where
  "in_series cfg r n a e = (case e of (r', n', d) \<Rightarrow> r' = r \<and> n' = n \<and> mapKey cfg (dp_attributes d) = a)"

definition series ::
  "stats_config \<Rightarrow> (64 word \<times> string \<times> datapoint) list \<Rightarrow> 64 word \<Rightarrow> string \<Rightarrow> 64 word \<Rightarrow> datapoint list" where
  "series cfg hist r n a = map (\<lambda>e. snd (snd e)) (filter (in_series cfg r n a) hist)"

text \<open>The entry a series has: statistics begun with its first datapoint and fed the others in order.\<close>

definition series_entry :: "stats_config \<Rightarrow> datapoint list \<Rightarrow> datapointMetadata option" where
  "series_entry cfg ds =
     (case ds of
        [] \<Rightarrow> None
      | d # rest \<Rightarrow> Some \<lparr>dm_attributes = dp_attributes d,
          dm_statistics = map (\<lambda>(t, s). (t, fold (AddDatapoint (sc_beyond cfg)) rest s))
            (createStatistics (sc_statTypes cfg) d)\<rparr>)"

definition find_entry :: "(64 word \<times> resourceMetadata) list \<Rightarrow> 64 word \<Rightarrow> string \<Rightarrow> 64 word \<Rightarrow> datapointMetadata option" where
  "find_entry sm r n a =
     (case map_of sm r of
        None \<Rightarrow> None
      | Some rd \<Rightarrow> (case map_of (rd_metrics rd) n of
                     None \<Rightarrow> None
                   | Some mm \<Rightarrow> map_of (mm_datapoints mm) a))"

section \<open>One datapoint more\<close>

definition extend :: "stats_config \<Rightarrow> datapoint \<Rightarrow> datapointMetadata option \<Rightarrow> datapointMetadata option" where
  "extend cfg d e = Some
     (case e of
        None \<Rightarrow> \<lparr>dm_attributes = dp_attributes d, dm_statistics = createStatistics (sc_statTypes cfg) d\<rparr>
      | Some dpa \<Rightarrow> dpa\<lparr>dm_statistics := map (\<lambda>(t, s). (t, AddDatapoint (sc_beyond cfg) d s)) (dm_statistics dpa)\<rparr>)"

lemma series_entry_snoc: "series_entry cfg (ds @ [d]) = extend cfg d (series_entry cfg ds)"
  by (cases ds) (auto simp: series_entry_def extend_def)

lemma series_entry_append: "fold (extend cfg) ds (series_entry cfg xs) = series_entry cfg (xs @ ds)"
proof (induction ds arbitrary: xs)
  case (Cons d ds)
  from Cons[of "xs @ [d]"] show ?case by (simp add: series_entry_snoc)
qed simp

lemma map_of_update: "map_of (AList.update k v m) k' = (if k' = k then Some v else map_of m k')"
  by (simp add: update_conv')

lemma addDatapoint_entry:
  "map_of (mm_datapoints (addDatapointToStats cfg d ma)) a =
     (if mapKey cfg (dp_attributes d) = a then extend cfg d (map_of (mm_datapoints ma) a)
      else map_of (mm_datapoints ma) a)"
  by (simp add: addDatapointToStats_def Let_def map_of_update extend_def)

lemma addDatapoints_entry:
  "map_of (mm_datapoints (fold (addDatapointToStats cfg) ds ma)) a =
     fold (extend cfg) (filter (\<lambda>d. mapKey cfg (dp_attributes d) = a) ds) (map_of (mm_datapoints ma) a)"
  by (induction ds arbitrary: ma) (simp_all add: addDatapoint_entry)

lemma series_append: "series cfg (xs @ ys) r n a = series cfg xs r n a @ series cfg ys r n a"
  by (simp add: series_def)

lemma series_taken_metric:
  "series cfg (taken_metric cfg rk m) r n a =
     (if takes cfg m \<and> rk = r \<and> me_name m = n
      then filter (\<lambda>d. mapKey cfg (dp_attributes d) = a) (filter has_number (datapointsFromMetric (me_data m))) else [])"
  by (auto simp: series_def taken_metric_def in_series_def filter_map comp_def)

lemma find_entry_update:
  "find_entry (AList.update rk (rma\<lparr>rd_metrics := AList.update nm ma (rd_metrics rma)\<rparr>) sm) r n a =
     (if r = rk then if n = nm then map_of (mm_datapoints ma) a
                     else (case map_of (rd_metrics rma) n of None \<Rightarrow> None | Some mm \<Rightarrow> map_of (mm_datapoints mm) a)
      else find_entry sm r n a)"
  by (simp add: find_entry_def map_of_update)

lemma add_metric_entry:
  "find_entry (fst (add_metric cfg rk attrs m sm)) r n a =
     fold (extend cfg) (series cfg (taken_metric cfg rk m) r n a) (find_entry sm r n a)"
  unfolding series_taken_metric
  by (cases "map_of sm r")
    (auto simp: add_metric_def Let_def find_entry_update addDatapoints_entry resourceMetadata_of_def
      metricMetadata_of_def find_entry_def map_of_update split: option.splits)

lemma add_metrics_entry:
  "find_entry (fst (add_metrics cfg rk attrs ms sm)) r n a =
     fold (extend cfg) (series cfg (concat (map (taken_metric cfg rk) ms)) r n a) (find_entry sm r n a)"
proof (induction ms arbitrary: sm)
  case (Cons m ms)
  then show ?case by (simp add: series_append add_metric_entry split: prod.split) (metis add_metric_entry fst_conv)
qed (simp add: series_def)

lemma add_scopes_entry:
  "find_entry (fst (add_scopes cfg rk attrs ss sm)) r n a =
     fold (extend cfg) (series cfg (concat (map (\<lambda>s. concat (map (taken_metric cfg rk) (sm_metrics s))) ss)) r n a)
       (find_entry sm r n a)"
proof (induction ss arbitrary: sm)
  case (Cons s ss)
  then show ?case by (simp add: series_append split: prod.split) (metis add_metrics_entry fst_conv)
qed (simp add: series_def)

lemma add_resources_entry:
  "find_entry (fst (add_resources cfg rs sm)) r n a =
     fold (extend cfg) (series cfg (taken cfg rs) r n a) (find_entry sm r n a)"
proof (induction rs arbitrary: sm)
  case (Cons q rs)
  then show ?case
    by (simp add: series_append taken_def taken_resource_def split: prod.split) (metis add_scopes_entry fst_conv)
qed (simp add: series_def taken_def)

lemma consume_entry:
  "find_entry (ss_statMap (fst (ConsumeMetrics cfg md st))) r n a =
     fold (extend cfg) (series cfg (taken cfg md) r n a) (find_entry (ss_statMap st) r n a)"
  using add_resources_entry[of cfg md "ss_statMap st" r n a]
  by (cases "add_resources cfg md (ss_statMap st)")
    (simp add: ConsumeMetrics_def addMetricsToCalculations_def)

definition consume_all :: "stats_config \<Rightarrow> resource_metrics list list \<Rightarrow> stats_state \<Rightarrow> stats_state" where
  "consume_all cfg mds st = fold (\<lambda>md st. fst (ConsumeMetrics cfg md st)) mds st"

lemma consume_all_entry:
  "find_entry (ss_statMap (consume_all cfg mds st)) r n a =
     fold (extend cfg) (series cfg (concat (map (taken cfg) mds)) r n a) (find_entry (ss_statMap st) r n a)"
  unfolding consume_all_def
  by (induction mds arbitrary: st) (simp_all add: series_append consume_entry series_def[of cfg "[]"])

text \<open>
  C26. Between two flushes the state holds, for every resource key, metric name and attribute key, the
  statistics of exactly the datapoints of that series that arrived since, in their order of arrival,
  whatever batches they came in; and nothing of the window before.
\<close>

theorem window_is_its_series:
  "find_entry (ss_statMap (consume_all cfg mds (fst (flush_stats cfg now st)))) r n a =
     series_entry cfg (series cfg (concat (map (taken cfg) mds)) r n a)"
proof -
  have "find_entry (ss_statMap (fst (flush_stats cfg now st))) r n a = series_entry cfg []"
    by (simp add: flush_stats_def Let_def find_entry_def series_entry_def)
  then show ?thesis by (simp add: consume_all_entry series_entry_append)
qed

section \<open>The values of integers\<close>

definition is_int :: "datapoint \<Rightarrow> bool" where
  "is_int d = (case dp_value d of NInt i \<Rightarrow> True | _ \<Rightarrow> False)"

definition int_value :: "datapoint \<Rightarrow> int" where
  "int_value d = (case dp_value d of NInt i \<Rightarrow> sint i | _ \<Rightarrow> 0)"

text \<open>What a statistic of a type sends for a series.\<close>

definition sent_value :: "(f64 \<Rightarrow> i64) \<Rightarrow> StatType \<Rightarrow> datapoint list \<Rightarrow> number option" where
  "sent_value beyond t ds =
     (case ds of [] \<Rightarrow> None
      | d # rest \<Rightarrow> map_option (\<lambda>s. SetDatapointValue (fold (AddDatapoint beyond) rest s)) (New t d))"

lemma is_int_value: "is_int d \<Longrightarrow> dp_value d = NInt (word_of_int (int_value d))"
  by (auto simp: is_int_def int_value_def split: number.splits)

lemma sint_int_value: "is_int d \<Longrightarrow> sint (word_of_int (int_value d) :: i64) = int_value d"
  by (auto simp: is_int_def int_value_def split: number.splits)

lemma fold_Min: "fold (AddDatapoint b) ds (MinStat m) = MinStat (fold (\<lambda>d m. min_add b m d) ds m)"
  and fold_Max: "fold (AddDatapoint b) ds (MaxStat m) = MaxStat (fold (\<lambda>d m. max_add b m d) ds m)"
  and fold_Last: "fold (AddDatapoint b) ds (LastStat t) = LastStat (fold (\<lambda>d m. last_add b m d) ds t)"
  and fold_Avg: "fold (AddDatapoint b) ds (AvgStat v) = AvgStat (fold (\<lambda>d m. avg_add b m d) ds v)"
  by (induction ds arbitrary: m t v) simp_all

lemma sint_in_range: "- (2 ^ 63) \<le> i \<Longrightarrow> i < 2 ^ 63 \<Longrightarrow> sint (word_of_int i :: i64) = i"
  by (simp add: sint_sbintrunc' signed_take_bit_int_eq_self)

lemma of_int_sint: "word_of_int (sint w) = (w :: i64)"
  by simp

text \<open>Every statistic of integers is a fold over their values.\<close>

lemma min_fold:
  assumes "list_all is_int ds" and "ex_isInt m"
  shows "ex_isInt (fold (\<lambda>d m. min_add b m d) ds m)
    \<and> sint (ex_int (fold (\<lambda>d m. min_add b m d) ds m)) = fold min (map int_value ds) (sint (ex_int m))"
  using assms
proof (induction ds arbitrary: m)
  case (Cons d ds)
  have d: "dp_value d = NInt (word_of_int (int_value d))" and s: "sint (word_of_int (int_value d) :: i64) = int_value d"
    using Cons.prems(1) by (simp_all add: is_int_value sint_int_value)
  have "ex_isInt (min_add b m d)" "sint (ex_int (min_add b m d)) = min (int_value d) (sint (ex_int m))"
    using Cons.prems(2) by (auto simp: min_add_def getDatapointValueInt_def d Let_def word_sless_alt s)
  with Cons.IH[of "min_add b m d"] Cons.prems(1) show ?case by simp
qed simp

lemma max_fold:
  assumes "list_all is_int ds" and "ex_isInt m"
  shows "ex_isInt (fold (\<lambda>d m. max_add b m d) ds m)
    \<and> sint (ex_int (fold (\<lambda>d m. max_add b m d) ds m)) = fold max (map int_value ds) (sint (ex_int m))"
  using assms
proof (induction ds arbitrary: m)
  case (Cons d ds)
  have d: "dp_value d = NInt (word_of_int (int_value d))" and s: "sint (word_of_int (int_value d) :: i64) = int_value d"
    using Cons.prems(1) by (simp_all add: is_int_value sint_int_value)
  have "ex_isInt (max_add b m d)" "sint (ex_int (max_add b m d)) = max (int_value d) (sint (ex_int m))"
    using Cons.prems(2) by (auto simp: max_add_def getDatapointValueInt_def d Let_def word_sless_alt s)
  with Cons.IH[of "max_add b m d"] Cons.prems(1) show ?case by simp
qed simp

lemma avg_fold:
  assumes "list_all is_int ds" and "av_isInt m"
  shows "av_isInt (fold (\<lambda>d m. avg_add b m d) ds m)
    \<and> av_totalInt (fold (\<lambda>d m. avg_add b m d) ds m) = av_totalInt m + word_of_int (sum_list (map int_value ds))
    \<and> av_count (fold (\<lambda>d m. avg_add b m d) ds m) = av_count m + of_nat (length ds)"
  using assms
proof (induction ds arbitrary: m)
  case (Cons d ds)
  have d: "dp_value d = NInt (word_of_int (int_value d))"
    using Cons.prems(1) by (simp add: is_int_value)
  have "av_isInt (avg_add b m d)" "av_totalInt (avg_add b m d) = av_totalInt m + word_of_int (int_value d)"
    "av_count (avg_add b m d) = av_count m + 1"
    using Cons.prems(2) by (simp_all add: avg_add_def getDatapointValueInt_def d Let_def)
  with Cons.IH[of "avg_add b m d"] Cons.prems(1) show ?case by simp
qed simp

text \<open>The last value is that of a datapoint no other one is later than, the last such in the series.\<close>

definition latest :: "datapoint list \<Rightarrow> datapoint \<Rightarrow> bool" where
  "latest ds x \<longleftrightarrow> (\<exists>us vs. ds = us @ x # vs
     \<and> list_all (\<lambda>u. sint (dp_time u) \<le> sint (dp_time x)) us
     \<and> list_all (\<lambda>v. sint (dp_time v) < sint (dp_time x)) vs)"

lemma latest_snoc:
  assumes "latest ds x"
  shows "latest (ds @ [d]) (if sint (dp_time x) \<le> sint (dp_time d) then d else x)"
proof -
  obtain us vs where ds: "ds = us @ x # vs" and u: "list_all (\<lambda>u. sint (dp_time u) \<le> sint (dp_time x)) us"
    and v: "list_all (\<lambda>v. sint (dp_time v) < sint (dp_time x)) vs"
    using assms unfolding latest_def by blast
  show ?thesis
  proof (cases "sint (dp_time x) \<le> sint (dp_time d)")
    case True
    with u v have "list_all (\<lambda>u. sint (dp_time u) \<le> sint (dp_time d)) ds"
      unfolding ds by (auto simp: list_all_iff)
    with True show ?thesis unfolding latest_def by (intro exI[of _ ds] exI[of _ "[]"]) simp
  next
    case False
    with u v show ?thesis unfolding latest_def ds by (intro exI[of _ us] exI[of _ "vs @ [d]"]) simp
  qed
qed

lemma last_fold:
  assumes "list_all is_int ds" and "tm_isInt m" and "latest xs x" and "is_int x"
    and "tm_timestamp m = dp_time x" and "NInt (tm_valInt m) = dp_value x"
  shows "\<exists>y. latest (xs @ ds) y \<and> is_int y \<and> tm_isInt (fold (\<lambda>d m. last_add b m d) ds m)
    \<and> NInt (tm_valInt (fold (\<lambda>d m. last_add b m d) ds m)) = dp_value y"
  using assms
proof (induction ds arbitrary: xs x m)
  case Nil
  then show ?case by auto
next
  case (Cons d ds)
  have d: "dp_value d = NInt (word_of_int (int_value d))" "is_int d"
    using Cons.prems(1) by (simp_all add: is_int_value)
  define y where "y = (if sint (dp_time x) \<le> sint (dp_time d) then d else x)"
  have le: "tm_timestamp m <s dp_time d \<or> dp_time d = tm_timestamp m \<longleftrightarrow> sint (dp_time x) \<le> sint (dp_time d)"
    using Cons.prems(5) by (auto simp: word_sless_alt less_le dest: signed_word_eqI)
  have 1: "latest (xs @ [d]) y" using latest_snoc[OF Cons.prems(3), of d] by (simp add: y_def)
  have 2: "tm_isInt (last_add b m d)" "tm_timestamp (last_add b m d) = dp_time y"
    "NInt (tm_valInt (last_add b m d)) = dp_value y" "is_int y"
    using Cons.prems(2,4,5,6) d unfolding last_add_def le
    by (simp_all add: y_def timed_set_def getDatapointValueInt_def)
  from Cons.IH[OF _ 2(1) 1 2(4,2,3)] Cons.prems(1) show ?case by simp
qed

text \<open>
  C27. For a series of integers that the sum of does not leave the range of \<open>int64\<close> the minimum and the maximum
  sent are those of the series, the average is the mean cut towards zero, and the last value is that of
  the latest datapoint, of the last one to arrive among several.
\<close>

theorem int_statistics_exact:
  assumes "list_all is_int ds" and "ds \<noteq> []" and "length ds < 2 ^ 63"
    and "- (2 ^ 63) < sum_list (map int_value ds)" and "sum_list (map int_value ds) < 2 ^ 63"
  shows "sent_value b MinType ds = Some (NInt (word_of_int (Min (set (map int_value ds)))))
    \<and> sent_value b MaxType ds = Some (NInt (word_of_int (Max (set (map int_value ds)))))
    \<and> sent_value b AvgType ds =
        Some (NInt (word_of_int (sgn (sum_list (map int_value ds)) * (\<bar>sum_list (map int_value ds)\<bar> div int (length ds)))))
    \<and> (\<exists>x. latest ds x \<and> sent_value b LastType ds = Some (dp_value x))"
proof -
  obtain d rest where ds: "ds = d # rest" using assms(2) by (cases ds) auto
  have d: "dp_value d = NInt (word_of_int (int_value d))" "is_int d" and rest: "list_all is_int rest"
    using assms(1) by (simp_all add: ds is_int_value)
  have sd: "sint (word_of_int (int_value d) :: i64) = int_value d" using d(2) by (rule sint_int_value)
  define e where "e = \<lparr>ex_int = word_of_int (int_value d) :: i64, ex_double = f_of_int 0, ex_isInt = True\<rparr>"
  have e: "ex_isInt e" "sint (ex_int e) = int_value d" by (simp_all add: e_def sd)
  have "sent_value b MinType ds = Some (NInt (word_of_int (Min (set (map int_value ds)))))"
  proof -
    have "sint (ex_int (fold (\<lambda>d m. min_add b m d) rest e)) = Min (set (map int_value ds))"
      using min_fold[OF rest e(1), of b] Min.set_eq_fold[of "int_value d" "map int_value rest"]
      by (simp add: e(2) ds)
    then show ?thesis using min_fold[OF rest e(1), of b]
      by (simp add: sent_value_def ds New_def new_extreme_def d(1) fold_Min e_def[symmetric]) (metis of_int_sint)
  qed
  moreover have "sent_value b MaxType ds = Some (NInt (word_of_int (Max (set (map int_value ds)))))"
  proof -
    have "sint (ex_int (fold (\<lambda>d m. max_add b m d) rest e)) = Max (set (map int_value ds))"
      using max_fold[OF rest e(1), of b] Max.set_eq_fold[of "int_value d" "map int_value rest"]
      by (simp add: e(2) ds)
    then show ?thesis using max_fold[OF rest e(1), of b]
      by (simp add: sent_value_def ds New_def new_extreme_def d(1) fold_Max e_def[symmetric]) (metis of_int_sint)
  qed
  moreover have "sent_value b AvgType ds =
      Some (NInt (word_of_int (sgn (sum_list (map int_value ds)) * (\<bar>sum_list (map int_value ds)\<bar> div int (length ds)))))"
  proof -
    define v where "v = \<lparr>av_totalInt = word_of_int (int_value d) :: i64, av_totalDouble = f_of_int 0,
      av_isInt = True, av_count = 1\<rparr>"
    have v: "av_isInt v" by (simp add: v_def)
    note f = avg_fold[OF rest v, of b]
    define s where "s = sum_list (map int_value ds)"
    have "av_totalInt (fold (\<lambda>d m. avg_add b m d) rest v) = word_of_int s"
      using f by (simp add: v_def s_def ds)
    moreover have "av_count (fold (\<lambda>d m. avg_add b m d) rest v) = word_of_int (int (length ds))"
      using f by (simp add: v_def ds)
    moreover have "sint (word_of_int s :: i64) = s"
      by (rule sint_in_range) (use assms(4,5) in \<open>simp_all add: s_def\<close>)
    moreover have "sint (word_of_int (int (length ds)) :: i64) = int (length ds)"
      by (rule sint_in_range) (use assms(3) in simp_all)
    ultimately have "SetDatapointValue (AvgStat (fold (\<lambda>d m. avg_add b m d) rest v)) =
        NInt (word_of_int (sgn s * (\<bar>s\<bar> div int (length ds))))"
      using f by (simp add: go_div_def ds)
    moreover have "sent_value b AvgType ds = Some (SetDatapointValue (AvgStat (fold (\<lambda>d m. avg_add b m d) rest v)))"
      by (simp add: sent_value_def ds New_def newAvgStatistic_def d(1) fold_Avg v_def[symmetric])
    ultimately show ?thesis unfolding s_def by simp
  qed
  moreover have "\<exists>x. latest ds x \<and> sent_value b LastType ds = Some (dp_value x)"
  proof -
    define m where "m = \<lparr>tm_valInt = word_of_int (int_value d) :: i64, tm_valDouble = f_of_int 0,
      tm_timestamp = dp_time d, tm_isInt = True\<rparr>"
    have "latest [d] d" unfolding latest_def by (intro exI[of _ "[]"]) simp
    from last_fold[OF rest _ this d(2), of m b]
    obtain y where "latest ds y" "tm_isInt (fold (\<lambda>d m. last_add b m d) rest m)"
      "NInt (tm_valInt (fold (\<lambda>d m. last_add b m d) rest m)) = dp_value y"
      by (auto simp: m_def d(1) ds)
    then show ?thesis
      by (intro exI[of _ y]) (simp add: sent_value_def ds New_def new_timed_def d(1) fold_Last m_def[symmetric])
  qed
  ultimately show ?thesis by blast
qed

theorem int_statistics_exact_witness:
  "sent_value (\<lambda>f. 0) MinType
     [\<lparr>dp_attributes = [], dp_start = 0, dp_time = 5, dp_value = NInt 7\<rparr>,
      \<lparr>dp_attributes = [], dp_start = 0, dp_time = 5, dp_value = NInt (- 2)\<rparr>] = Some (NInt (- 2))"
  using int_statistics_exact[of "[\<lparr>dp_attributes = [], dp_start = 0, dp_time = 5, dp_value = NInt 7\<rparr>,
      \<lparr>dp_attributes = [], dp_start = 0, dp_time = 5, dp_value = NInt (- 2)\<rparr>]" "\<lambda>f. 0"]
  by (simp add: is_int_def int_value_def)

text \<open>The first value is not always that of the first datapoint: once an earlier datapoint came, any later
  one before the initial timestamp takes its place. And the sum of an average wraps around.\<close>

lemma first_is_replaced:
  assumes "ds = [\<lparr>dp_attributes = [], dp_start = 0, dp_time = 10, dp_value = NInt 1\<rparr>,
                 \<lparr>dp_attributes = [], dp_start = 0, dp_time = 5, dp_value = NInt 2\<rparr>,
                 \<lparr>dp_attributes = [], dp_start = 0, dp_time = 7, dp_value = NInt 3\<rparr>]"
  shows "sent_value b FirstType ds = Some (NInt 3)"
  by (simp add: assms sent_value_def New_def new_timed_def first_add_def timed_set_def getDatapointValueInt_def
      word_sless_alt)

lemma average_wraps:
  assumes "d = \<lparr>dp_attributes = [], dp_start = 0, dp_time = 1, dp_value = NInt 5000000000000000000\<rparr>"
  shows "sent_value b AvgType [d, d] = Some (NInt (- 4223372036854775808))"
  by (simp add: assms sent_value_def New_def newAvgStatistic_def avg_add_def getDatapointValueInt_def go_div_def)

section \<open>No datapoint gets lost\<close>

text \<open>
  The contents of a batch: every datapoint, be it a number or of another kind, with its resource, its
  scope and the head of its metric (the metric without its datapoints), in order.
\<close>

datatype point = Number datapoint | Other other_datapoint

fun points :: "metric_data \<Rightarrow> point list" where
  "points (Gauge ds) = map Number ds"
| "points (Sum c m ds) = map Number ds"
| "points (OtherMetric n os) = map Other os"

fun kind_of :: "metric_data \<Rightarrow> metric_data" where
  "kind_of (Gauge ds) = Gauge []"
| "kind_of (Sum c m ds) = Sum c m []"
| "kind_of (OtherMetric n os) = OtherMetric n []"

definition metric_contents :: "metric \<Rightarrow> (metric \<times> point) list" where
  "metric_contents m = map (\<lambda>p. (m\<lparr>me_data := kind_of (me_data m)\<rparr>, p)) (points (me_data m))"

definition scope_contents :: "scope_metrics \<Rightarrow> (nat \<times> metric \<times> point) list" where
  "scope_contents s = map (Pair (sm_scope s)) (concat (map metric_contents (sm_metrics s)))"

definition resource_contents :: "resource_metrics \<Rightarrow> (pmap \<times> nat \<times> metric \<times> point) list" where
  "resource_contents r = map (Pair (rm_resource r)) (concat (map scope_contents (rm_scopes r)))"

definition contents :: "resource_metrics list \<Rightarrow> (pmap \<times> nat \<times> metric \<times> point) list" where
  "contents md = concat (map resource_contents md)"

text \<open>The datapoints for the statistics: the numbers of the gauges and cumulative sums that are included.\<close>

definition for_stats :: "stats_config \<Rightarrow> metric \<times> point \<Rightarrow> bool" where
  "for_stats cfg e = (case e of (m, p) \<Rightarrow> takes cfg m \<and> (case p of Number d \<Rightarrow> has_number d | Other q \<Rightarrow> False))"

definition goes_to_stats :: "stats_config \<Rightarrow> pmap \<times> nat \<times> metric \<times> point \<Rightarrow> bool" where
  "goes_to_stats cfg e = for_stats cfg (snd (snd e))"

definition stat_event :: "stats_config \<Rightarrow> pmap \<times> nat \<times> metric \<times> point \<Rightarrow> 64 word \<times> string \<times> datapoint" where
  "stat_event cfg e =
     (case e of (r, s, m, p) \<Rightarrow> (mapKey cfg r, me_name m, case p of Number d \<Rightarrow> d | Other q \<Rightarrow> undefined))"

lemma takes_kind [simp]: "takes cfg (m\<lparr>me_data := kind_of (me_data m)\<rparr>) = takes cfg m"
  by (cases "me_data m") (simp_all add: takes_def)

lemma add_metric_passes:
  "metric_contents (snd (add_metric cfg rk attrs m sm)) = filter (\<lambda>e. \<not> for_stats cfg e) (metric_contents m)"
proof (cases "takes cfg m")
  case True
  then show ?thesis
    by (cases "me_data m")
       (simp_all add: add_metric_def metric_contents_def Let_def takes_def for_stats_def filter_map comp_def)
next
  case False
  then show ?thesis
    by (auto simp: add_metric_def metric_contents_def for_stats_def filter_map comp_def intro!: filter_True [symmetric])
qed

lemma concat_removeEmpty [simp]: "concat (map metric_contents (removeEmptyMetrics ms)) = concat (map metric_contents ms)"
  by (induction ms) (auto simp: removeEmptyMetrics_def metric_contents_def split: metric_data.split)

lemma add_metrics_passes:
  "concat (map metric_contents (snd (add_metrics cfg rk attrs ms sm)))
     = filter (\<lambda>e. \<not> for_stats cfg e) (concat (map metric_contents ms))"
proof (induction ms arbitrary: sm)
  case (Cons m ms)
  obtain sm1 m' where 1: "add_metric cfg rk attrs m sm = (sm1, m')" by fastforce
  obtain sm2 ms' where 2: "add_metrics cfg rk attrs ms sm1 = (sm2, ms')" by fastforce
  from Cons.IH[of sm1] add_metric_passes[of cfg rk attrs m sm] 1 2 show ?case by simp
qed simp

lemma concat_removeEmptyScope [simp]:
  "concat (map scope_contents (removeEmptyScopeMetrics ss)) = concat (map scope_contents ss)"
  by (induction ss) (auto simp: removeEmptyScopeMetrics_def scope_contents_def)

lemma add_scopes_passes:
  "concat (map scope_contents (snd (add_scopes cfg rk attrs ss sm)))
     = filter (\<lambda>e. \<not> for_stats cfg (snd e)) (concat (map scope_contents ss))"
proof (induction ss arbitrary: sm)
  case (Cons s ss)
  obtain sm1 ms where 1: "add_metrics cfg rk attrs (sm_metrics s) sm = (sm1, ms)" by fastforce
  obtain sm2 ss' where 2: "add_scopes cfg rk attrs ss sm1 = (sm2, ss')" by fastforce
  have "scope_contents (s\<lparr>sm_metrics := removeEmptyMetrics ms\<rparr>)
      = filter (\<lambda>e. \<not> for_stats cfg (snd e)) (scope_contents s)"
    using add_metrics_passes[of cfg rk attrs "sm_metrics s" sm] 1
    by (simp add: scope_contents_def filter_map comp_def)
  with Cons.IH[of sm1] 1 2 show ?case by simp
qed simp

lemma concat_removeEmptyResource [simp]:
  "contents (removeEmptyResourceMetrics md) = contents md"
  by (induction md) (auto simp: removeEmptyResourceMetrics_def resource_contents_def contents_def)

lemma add_resources_passes:
  "contents (snd (add_resources cfg md sm)) = filter (\<lambda>e. \<not> goes_to_stats cfg e) (contents md)"
proof (induction md arbitrary: sm)
  case (Cons q md)
  obtain sm1 ss where 1: "add_scopes cfg (mapKey cfg (rm_resource q)) (rm_resource q) (rm_scopes q) sm = (sm1, ss)" by fastforce
  obtain sm2 md' where 2: "add_resources cfg md sm1 = (sm2, md')" by fastforce
  have "resource_contents (q\<lparr>rm_scopes := removeEmptyScopeMetrics ss\<rparr>)
      = filter (\<lambda>e. \<not> goes_to_stats cfg e) (resource_contents q)"
    using add_scopes_passes[of cfg "mapKey cfg (rm_resource q)" "rm_resource q" "rm_scopes q" sm] 1
    by (simp add: resource_contents_def goes_to_stats_def filter_map comp_def)
  with Cons.IH[of sm1] 1 2 show ?case by (simp add: contents_def)
qed (simp add: contents_def)

text \<open>What the statistics are fed is the other part of the batch.\<close>

lemma taken_metric_contents:
  "taken_metric cfg (mapKey cfg r) m
     = map (\<lambda>e. stat_event cfg (r, s, e)) (filter (for_stats cfg) (metric_contents m))"
  by (cases "me_data m")
     (auto simp: taken_metric_def metric_contents_def for_stats_def stat_event_def takes_def filter_map comp_def)

lemma taken_contents: "taken cfg md = map (stat_event cfg) (filter (goes_to_stats cfg) (contents md))"
proof -
  have "concat (map (taken_metric cfg (mapKey cfg r)) ms)
      = map (\<lambda>e. stat_event cfg (r, s, e)) (filter (for_stats cfg) (concat (map metric_contents ms)))" for r s ms
    by (induction ms) (simp_all add: taken_metric_contents [of cfg r _ s])
  then have "concat (map (taken_metric cfg (mapKey cfg r)) (sm_metrics s))
      = map (\<lambda>e. stat_event cfg (r, e)) (filter (\<lambda>e. for_stats cfg (snd e)) (scope_contents s))" for r s
    by (simp add: scope_contents_def filter_map comp_def)
  then have "taken_resource cfg = (\<lambda>r. map (stat_event cfg) (filter (goes_to_stats cfg) (resource_contents r)))"
    by (simp add: fun_eq_iff taken_resource_def resource_contents_def goes_to_stats_def filter_map filter_concat
        map_concat comp_def)
  then show ?thesis by (simp add: taken_def contents_def filter_concat map_concat comp_def)
qed

text \<open>
  C28. A batch is split without loss, and both parts get where they belong. What is passed on is, datapoint
  by datapoint and each under its resource, scope and metric, in order, the batch without the numbers of
  the included gauges and cumulative sums: histograms, summaries, other metrics and datapoints without a
  value are all there; a batch that is not passed on has none of these. And the statistics of every
  resource key, metric name and attribute key went on from where they were by exactly the numbers of that
  series that were taken out, in order.
\<close>

theorem datapoints_conserved:
  "(case snd (ConsumeMetrics cfg md st) of None \<Rightarrow> [] | Some rest \<Rightarrow> contents rest)
     = filter (\<lambda>e. \<not> goes_to_stats cfg e) (contents md)
   \<and> find_entry (ss_statMap (fst (ConsumeMetrics cfg md st))) r n a
     = fold (extend cfg) (series cfg (map (stat_event cfg) (filter (goes_to_stats cfg) (contents md))) r n a)
         (find_entry (ss_statMap st) r n a)"
proof -
  obtain sm rms where a: "add_resources cfg md (ss_statMap st) = (sm, rms)" by fastforce
  have "snd (ConsumeMetrics cfg md st) =
      (if removeEmptyResourceMetrics rms \<noteq> [] then Some (removeEmptyResourceMetrics rms) else None)"
    by (simp add: ConsumeMetrics_def addMetricsToCalculations_def a)
  then have "(case snd (ConsumeMetrics cfg md st) of None \<Rightarrow> [] | Some rest \<Rightarrow> contents rest)
      = contents (removeEmptyResourceMetrics rms)"
    by (auto simp: contents_def)
  with add_resources_passes[of cfg md "ss_statMap st"] a show ?thesis
    by (simp only: concat_removeEmptyResource snd_conv consume_entry taken_contents)
qed

end
