(* ===== verification/Snapshot.thy ===== *)
theory Snapshot
  imports PData
begin

text \<open>
  \<open>pkg/snapshot\<close> and the snapshot processor: the buffers of recent telemetry, the search over them, the
  samples of growing size from which the payload of a report is taken, and the answer to a request.

  A payload is a list of resources with scopes with items; an item is a log record, a span or a metric,
  of which the fields the code looks at are modelled and the others are one value that is copied with it.
  How a scalar is written as text, the marshalers, gzip and the shuffle are parameters.
\<close>

section \<open>Payloads\<close>

record snap_scope =
  sco_name :: string
  sco_version :: string
  sco_attributes :: pmap

definition empty_scope :: snap_scope where
  "empty_scope = \<lparr>sco_name = [], sco_version = [], sco_attributes = []\<rparr>"

record 'i scope_items =
  si_scope :: snap_scope
  si_schema :: string
  si_items :: "'i list"

record 'i resource_items =
  ri_attributes :: pmap
  ri_schema :: string
  ri_scopes :: "'i scope_items list"

type_synonym 'i payload = "'i resource_items list"

record 'x snap_log =
  sl_attributes :: pmap
  sl_body :: pvalue
  sl_observed :: "64 word"
  sl_rest :: 'x

record 'x snap_span =
  sp_attributes :: pmap
  sp_name :: string
  sp_trace :: bytes
  sp_span :: bytes
  sp_parent :: bytes
  sp_kind :: int
  sp_end :: "64 word"
  sp_rest :: 'x

record 'x snap_point =
  po_attributes :: pmap
  po_time :: "64 word"
  po_rest :: 'x

datatype 'x snap_data =
    SGauge "'x snap_point list"
  | SSum (s_temporality: int) (s_monotonic: bool) "'x snap_point list"
  | SHistogram int "'x snap_point list"
  | SExponential int "'x snap_point list"
  | SSummary "'x snap_point list"
  | SEmpty

record 'x snap_metric =
  sm_name :: string
  sm_description :: string
  sm_unit :: string
  sm_metadata :: pmap
  sm_data :: "'x snap_data"

record snap_lib =
  sb_AsString :: "pvalue \<Rightarrow> string"
  sb_TraceID :: "bytes \<Rightarrow> string"
  sb_SpanID :: "bytes \<Rightarrow> string"
  sb_Kind :: "int \<Rightarrow> string"
  sb_gzip :: "bytes \<Rightarrow> string + bytes"

definition item_count :: "'i payload \<Rightarrow> nat" where
  "item_count p = sum_list (map (\<lambda>r. sum_list (map (\<lambda>s. length (si_items s)) (ri_scopes r))) p)"

fun data_points :: "'x snap_data \<Rightarrow> 'x snap_point list" where
  "data_points (SGauge ps) = ps"
| "data_points (SSum t m ps) = ps"
| "data_points (SHistogram t ps) = ps"
| "data_points (SExponential t ps) = ps"
| "data_points (SSummary ps) = ps"
| "data_points SEmpty = []"

definition getDataPointCount :: "'x snap_metric \<Rightarrow> nat" where
  "getDataPointCount m = length (data_points (sm_data m))"

definition point_count :: "'x snap_metric payload \<Rightarrow> nat" where
  "point_count p =
     sum_list (map (\<lambda>r. sum_list (map (\<lambda>s. sum_list (map getDataPointCount (si_items s))) (ri_scopes r))) p)"

section \<open>Search\<close>

fun queryMatchesValue :: "(pvalue \<Rightarrow> string) \<Rightarrow> string \<Rightarrow> pvalue \<Rightarrow> bool"
  and queryMatchesMap :: "(pvalue \<Rightarrow> string) \<Rightarrow> string \<Rightarrow> pmap \<Rightarrow> bool"
  and queryMatchesSlice :: "(pvalue \<Rightarrow> string) \<Rightarrow> string \<Rightarrow> pvalue list \<Rightarrow> bool" where
  "queryMatchesValue asString q (VMap m) = queryMatchesMap asString q m"
| "queryMatchesValue asString q (VSlice s) = queryMatchesSlice asString q s"
| "queryMatchesValue asString q VEmpty = False"
| "queryMatchesValue asString q v = str_contains (asString v) q"
| "queryMatchesMap asString q [] = False"
| "queryMatchesMap asString q ((k, v) # m) =
     (str_contains k q \<or> queryMatchesValue asString q v \<or> queryMatchesMap asString q m)"
| "queryMatchesSlice asString q [] = False"
| "queryMatchesSlice asString q (v # s) = (queryMatchesValue asString q v \<or> queryMatchesSlice asString q s)"

text \<open>The walk that the filters of all three signals share. \<open>f\<close> filters an item, given whether the query
  matches the resource; what is left empty is left out; the scope and the schema URLs are not copied.\<close>

definition filter_scope :: "(bool \<Rightarrow> 'i \<Rightarrow> 'i option) \<Rightarrow> bool \<Rightarrow> 'i scope_items \<Rightarrow> 'i scope_items" where
  "filter_scope f qr s = \<lparr>si_scope = empty_scope, si_schema = [], si_items = List.map_filter (f qr) (si_items s)\<rparr>"

definition filter_resource ::
  "snap_lib \<Rightarrow> (bool \<Rightarrow> 'i \<Rightarrow> 'i option) \<Rightarrow> string option \<Rightarrow> 'i resource_items \<Rightarrow> 'i resource_items" where
  "filter_resource lib f q r =
     (let queryMatchesResource = (case q of None \<Rightarrow> True | Some s \<Rightarrow> queryMatchesMap (sb_AsString lib) s (ri_attributes r))
      in \<lparr>ri_attributes = ri_attributes r, ri_schema = [],
          ri_scopes = filter (\<lambda>s. si_items s \<noteq> []) (map (filter_scope f queryMatchesResource) (ri_scopes r))\<rparr>)"

definition filter_payload ::
  "snap_lib \<Rightarrow> (bool \<Rightarrow> 'i \<Rightarrow> 'i option) \<Rightarrow> string option \<Rightarrow> int option \<Rightarrow> 'i payload \<Rightarrow> 'i payload" where
  "filter_payload lib f q t p =
     (if q = None \<and> t = None then p
      else filter (\<lambda>r. ri_scopes r \<noteq> []) (map (filter_resource lib f q) p))"

text \<open>A timestamp is an unsigned number of nanoseconds, the minimum an instant in nanoseconds.\<close>

definition after_minimum :: "64 word \<Rightarrow> int option \<Rightarrow> bool" where
  "after_minimum ts t = (case t of None \<Rightarrow> True | Some u \<Rightarrow> word_of_int u < ts)"

definition logMatchesQuery :: "snap_lib \<Rightarrow> 'x snap_log \<Rightarrow> string \<Rightarrow> bool" where
  "logMatchesQuery lib l q =
     (queryMatchesMap (sb_AsString lib) q (sl_attributes l) \<or> queryMatchesValue (sb_AsString lib) q (sl_body l))"

definition logMatches :: "snap_lib \<Rightarrow> string option \<Rightarrow> int option \<Rightarrow> bool \<Rightarrow> 'x snap_log \<Rightarrow> bool" where
  "logMatches lib q t queryMatchesResource l =
     (let queryMatchesLog = (if \<not> queryMatchesResource \<and> q \<noteq> None then logMatchesQuery lib l (the q) else True)
      in (queryMatchesResource \<or> queryMatchesLog) \<and> after_minimum (sl_observed l) t)"

definition if_matches :: "('a \<Rightarrow> bool) \<Rightarrow> 'a \<Rightarrow> 'a option" where
  "if_matches P x = (if P x then Some x else None)"

definition filterLogs ::
  "snap_lib \<Rightarrow> string option \<Rightarrow> int option \<Rightarrow> 'x snap_log payload \<Rightarrow> 'x snap_log payload" where
  "filterLogs lib q t = filter_payload lib (\<lambda>qr. if_matches (logMatches lib q t qr)) q t"

definition spanMatchesQuery :: "snap_lib \<Rightarrow> 'x snap_span \<Rightarrow> string \<Rightarrow> bool" where
  "spanMatchesQuery lib s q =
     (queryMatchesMap (sb_AsString lib) q (sp_attributes s) \<or> str_contains (sp_name s) q
      \<or> str_contains (sb_TraceID lib (sp_trace s)) q \<or> str_contains (sb_SpanID lib (sp_span s)) q
      \<or> str_contains (sb_SpanID lib (sp_parent s)) q \<or> str_contains (sb_Kind lib (sp_kind s)) q)"

definition spanMatches :: "snap_lib \<Rightarrow> string option \<Rightarrow> int option \<Rightarrow> bool \<Rightarrow> 'x snap_span \<Rightarrow> bool" where
  "spanMatches lib q t queryMatchesResource s =
     (let queryMatchesSpan = (if \<not> queryMatchesResource \<and> q \<noteq> None then spanMatchesQuery lib s (the q) else True)
      in (queryMatchesResource \<or> queryMatchesSpan) \<and> after_minimum (sp_end s) t)"

definition filterTraces ::
  "snap_lib \<Rightarrow> string option \<Rightarrow> int option \<Rightarrow> 'x snap_span payload \<Rightarrow> 'x snap_span payload" where
  "filterTraces lib q t = filter_payload lib (\<lambda>qr. if_matches (spanMatches lib q t qr)) q t"

definition datapointMatches ::
  "snap_lib \<Rightarrow> string option \<Rightarrow> int option \<Rightarrow> bool \<Rightarrow> bool \<Rightarrow> 'x snap_point \<Rightarrow> bool" where
  "datapointMatches lib q t queryMatchesResource queryMatchesName dp =
     (let queryAlreadyMatched = queryMatchesResource \<or> queryMatchesName;
          queryMatchesDatapoint =
            (if \<not> queryAlreadyMatched \<and> q \<noteq> None then queryMatchesMap (sb_AsString lib) (the q) (po_attributes dp)
             else True)
      in (queryMatchesResource \<or> queryMatchesName \<or> queryMatchesDatapoint) \<and> after_minimum (po_time dp) t)"

text \<open>A metric with some of its data points: \<open>filterGauge\<close> to \<open>filterSummary\<close> and \<open>initMetricDataPoints\<close>
  keep the type, the temporality and the monotonic flag.\<close>

fun with_points :: "('x snap_point list \<Rightarrow> 'x snap_point list) \<Rightarrow> 'x snap_data \<Rightarrow> 'x snap_data" where
  "with_points f (SGauge ps) = SGauge (f ps)"
| "with_points f (SSum t m ps) = SSum t m (f ps)"
| "with_points f (SHistogram t ps) = SHistogram t (f ps)"
| "with_points f (SExponential t ps) = SExponential t (f ps)"
| "with_points f (SSummary ps) = SSummary (f ps)"
| "with_points f SEmpty = SEmpty"

definition metricIsEmpty :: "'x snap_metric \<Rightarrow> bool" where
  "metricIsEmpty m = (data_points (sm_data m) = [])"

definition filterMetric ::
  "snap_lib \<Rightarrow> string option \<Rightarrow> int option \<Rightarrow> bool \<Rightarrow> 'x snap_metric \<Rightarrow> 'x snap_metric" where
  "filterMetric lib q t queryMatchesResource m =
     (let queryMatchesMetric = (if \<not> queryMatchesResource \<and> q \<noteq> None then str_contains (sm_name m) (the q) else True)
      in \<lparr>sm_name = sm_name m, sm_description = sm_description m, sm_unit = sm_unit m, sm_metadata = [],
          sm_data = with_points (filter (datapointMatches lib q t queryMatchesResource queryMatchesMetric)) (sm_data m)\<rparr>)"

definition filter_metric ::
  "snap_lib \<Rightarrow> string option \<Rightarrow> int option \<Rightarrow> bool \<Rightarrow> 'x snap_metric \<Rightarrow> 'x snap_metric option" where
  "filter_metric lib q t qr m = (let fm = filterMetric lib q t qr m in if metricIsEmpty fm then None else Some fm)"

definition filterMetrics ::
  "snap_lib \<Rightarrow> string option \<Rightarrow> int option \<Rightarrow> 'x snap_metric payload \<Rightarrow> 'x snap_metric payload" where
  "filterMetrics lib q t = filter_payload lib (filter_metric lib q t) q t"


section \<open>Samples\<close>

text \<open>The positions of items and of data points, in order.\<close>

definition item_positions :: "'i payload \<Rightarrow> (nat \<times> nat \<times> nat) list" where
  "item_positions p =
     concat (map (\<lambda>(ri, r). concat (map (\<lambda>(si, s). map (\<lambda>(li, x). (ri, si, li)) (List.enumerate 0 (si_items s)))
       (List.enumerate 0 (ri_scopes r)))) (List.enumerate 0 p))"

definition generateLogPositions :: "'x snap_log payload \<Rightarrow> (nat \<times> nat \<times> nat) list" where
  "generateLogPositions = item_positions"

definition generateSpanPositions :: "'x snap_span payload \<Rightarrow> (nat \<times> nat \<times> nat) list" where
  "generateSpanPositions = item_positions"

definition generateDataPointPositions :: "'x snap_metric payload \<Rightarrow> (nat \<times> nat \<times> nat \<times> nat) list" where
  "generateDataPointPositions p =
     concat (map (\<lambda>(ri, r). concat (map (\<lambda>(si, s). concat (map (\<lambda>(mi, m).
         map (\<lambda>di. (ri, si, mi, di)) [0..<getDataPointCount m])
       (List.enumerate 0 (si_items s)))) (List.enumerate 0 (ri_scopes r)))) (List.enumerate 0 p))"

text \<open>The items that \<open>f\<close> keeps, in resources and scopes that are made for the first of them.\<close>

definition select_scope :: "(nat \<Rightarrow> 'i \<Rightarrow> 'i option) \<Rightarrow> 'i scope_items \<Rightarrow> 'i scope_items option" where
  "select_scope f s =
     (let items = List.map_filter (\<lambda>(li, x). f li x) (List.enumerate 0 (si_items s))
      in if items = [] then None else Some \<lparr>si_scope = si_scope s, si_schema = [], si_items = items\<rparr>)"

definition select_resource :: "(nat \<Rightarrow> nat \<Rightarrow> 'i \<Rightarrow> 'i option) \<Rightarrow> 'i resource_items \<Rightarrow> 'i resource_items option" where
  "select_resource f r =
     (let scopes = List.map_filter (\<lambda>(si, s). select_scope (f si) s) (List.enumerate 0 (ri_scopes r))
      in if scopes = [] then None
         else Some \<lparr>ri_attributes = ri_attributes r, ri_schema = [], ri_scopes = scopes\<rparr>)"

definition select_items :: "(nat \<Rightarrow> nat \<Rightarrow> nat \<Rightarrow> 'i \<Rightarrow> 'i option) \<Rightarrow> 'i payload \<Rightarrow> 'i payload" where
  "select_items f p = List.map_filter (\<lambda>(ri, r). select_resource (f ri) r) (List.enumerate 0 p)"

text \<open>A sample of \<open>r\<close> per cent; the positions are shuffled in place. None: an index out of range.\<close>

definition random_sample ::
  "(nat \<Rightarrow> 'p list \<Rightarrow> 'p list) \<Rightarrow> ('b \<Rightarrow> nat) \<Rightarrow> ('p list \<Rightarrow> 'b \<Rightarrow> 'b) \<Rightarrow> 'b \<Rightarrow> 'p list \<Rightarrow> nat \<Rightarrow> ('b \<times> 'p list) option"
where
  "random_sample shuffle count rebuild original positions retentionPercent =
     (if retentionPercent = 100 then Some (original, positions)
      else (let percent = (if retentionPercent = 0 then 1 else retentionPercent);
                positions' = shuffle retentionPercent positions;
                targetCount = count original * percent div 100
            in if length positions' < targetCount then None
               else Some (rebuild (take targetCount positions') original, positions')))"

definition keep_items :: "(nat \<times> nat \<times> nat) list \<Rightarrow> 'i payload \<Rightarrow> 'i payload" where
  "keep_items keep = select_items (\<lambda>ri si li. if_matches (\<lambda>x. (ri, si, li) \<in> set keep))"

definition randomSampleLogs where
  "randomSampleLogs shuffle (logs :: 'x snap_log payload) = random_sample shuffle item_count keep_items logs"

definition randomSampleTraces where
  "randomSampleTraces shuffle (traces :: 'x snap_span payload) = random_sample shuffle item_count keep_items traces"

definition keep_metric :: "(nat \<Rightarrow> bool) \<Rightarrow> 'x snap_metric \<Rightarrow> 'x snap_metric option" where
  "keep_metric P m =
     (let data = with_points (\<lambda>ps. map snd (filter (\<lambda>(di, p). P di) (List.enumerate 0 ps))) (sm_data m)
      in if data_points data = [] then None
         else Some \<lparr>sm_name = sm_name m, sm_description = sm_description m, sm_unit = sm_unit m, sm_metadata = [],
                    sm_data = data\<rparr>)"

definition keep_points :: "(nat \<times> nat \<times> nat \<times> nat) list \<Rightarrow> 'x snap_metric payload \<Rightarrow> 'x snap_metric payload" where
  "keep_points keep = select_items (\<lambda>ri si mi. keep_metric (\<lambda>di. (ri, si, mi, di) \<in> set keep))"

definition randomSampleMetrics where
  "randomSampleMetrics shuffle (metrics :: 'x snap_metric payload) = random_sample shuffle point_count keep_points metrics"

section \<open>Buffers\<close>

text \<open>A buffer is the list of the payloads in it, the oldest first. None: the oldest of an empty buffer
  is accessed, which panics.\<close>

definition buffer_len :: "('b \<Rightarrow> nat) \<Rightarrow> 'b list \<Rightarrow> nat" where
  "buffer_len count buffer = sum_list (map count buffer)"

fun drop_oldest :: "('b \<Rightarrow> nat) \<Rightarrow> int \<Rightarrow> 'b list \<Rightarrow> 'b list option" where
  "drop_oldest count idealSize [] = None"
| "drop_oldest count idealSize (oldest # buffer) =
     (if int (buffer_len count (oldest # buffer)) - int (count oldest) < idealSize then Some (oldest # buffer)
      else drop_oldest count idealSize buffer)"

definition buffer_add :: "('b \<Rightarrow> nat) \<Rightarrow> int \<Rightarrow> 'b \<Rightarrow> 'b list \<Rightarrow> 'b list option" where
  "buffer_add count idealSize ld buffer =
     (let logSize = int (count ld); bufferSize = int (buffer_len count buffer)
      in if logSize > idealSize then Some [ld]
         else if logSize + bufferSize < idealSize then Some (buffer @ [ld])
         else drop_oldest count idealSize (buffer @ [ld]))"

datatype snap_error = MarshalFailed string | CompressFailed string | TooLarge

text \<open>The attempts with growing retention: the last payload that fits and the last error.\<close>

fun retentions ::
  "('p list \<Rightarrow> nat \<Rightarrow> ('b \<times> 'p list) option) \<Rightarrow> ('b \<Rightarrow> string + bytes) \<Rightarrow> (bytes \<Rightarrow> string + bytes) \<Rightarrow> int
     \<Rightarrow> nat list \<Rightarrow> 'p list \<Rightarrow> bytes \<Rightarrow> (bytes \<times> snap_error option) option"
where
  "retentions sample marshal compress maximum [] positions lastPayload = Some (lastPayload, None)"
| "retentions sample marshal compress maximum (r # rs) positions lastPayload =
     (case sample positions r of
        None \<Rightarrow> None
      | Some (toMarshal, positions') \<Rightarrow>
          (case marshal toMarshal of
             Inl e \<Rightarrow> Some (lastPayload, Some (MarshalFailed e))
           | Inr payload \<Rightarrow>
               (case compress payload of
                  Inl e \<Rightarrow> Some (lastPayload, Some (CompressFailed e))
                | Inr compressed \<Rightarrow>
                    if int (length compressed) > maximum then Some (lastPayload, Some TooLarge)
                    else retentions sample marshal compress maximum rs positions' payload)))"

text \<open>\<open>ConstructPayload\<close>: the payload or the error, and the buffer.\<close>

definition construct_payload ::
  "('r list \<Rightarrow> 'r list) \<Rightarrow> ('r list \<Rightarrow> 'p list) \<Rightarrow> ('r list \<Rightarrow> 'p list \<Rightarrow> nat \<Rightarrow> ('r list \<times> 'p list) option)
     \<Rightarrow> ('r list \<Rightarrow> string + bytes) \<Rightarrow> (bytes \<Rightarrow> string + bytes) \<Rightarrow> int \<Rightarrow> 'r list list
     \<Rightarrow> ((bytes \<times> snap_error option) \<times> 'r list list) option"
where
  "construct_payload filt positions sample marshal compress maximum buffer =
     (let payload = concat buffer; filtered = filt payload
      in case retentions (sample filtered) marshal compress maximum [0, 25, 50, 75, 100] (positions filtered) [] of
           None \<Rightarrow> None
         | Some (lastPayload, lastError) \<Rightarrow>
             Some (if lastPayload \<noteq> [] then ((lastPayload, None), [payload]) else (([], lastError), [])))"

definition LogBuffer_Add :: "int \<Rightarrow> 'x snap_log payload \<Rightarrow> 'x snap_log payload list \<Rightarrow> 'x snap_log payload list option" where
  "LogBuffer_Add = buffer_add item_count"

definition MetricBuffer_Add ::
  "int \<Rightarrow> 'x snap_metric payload \<Rightarrow> 'x snap_metric payload list \<Rightarrow> 'x snap_metric payload list option" where
  "MetricBuffer_Add = buffer_add point_count"

definition TraceBuffer_Add ::
  "int \<Rightarrow> 'x snap_span payload \<Rightarrow> 'x snap_span payload list \<Rightarrow> 'x snap_span payload list option" where
  "TraceBuffer_Add = buffer_add item_count"

definition LogBuffer_ConstructPayload where
  "LogBuffer_ConstructPayload lib shuffle marshal searchQuery minimumTimestamp maximum buffer =
     construct_payload (filterLogs lib searchQuery minimumTimestamp) generateLogPositions
       (randomSampleLogs shuffle) marshal (sb_gzip lib) maximum buffer"

definition MetricBuffer_ConstructPayload where
  "MetricBuffer_ConstructPayload lib shuffle marshal searchQuery minimumTimestamp maximum buffer =
     construct_payload (filterMetrics lib searchQuery minimumTimestamp) generateDataPointPositions
       (randomSampleMetrics shuffle) marshal (sb_gzip lib) maximum buffer"

definition TraceBuffer_ConstructPayload where
  "TraceBuffer_ConstructPayload lib shuffle marshal searchQuery minimumTimestamp maximum buffer =
     construct_payload (filterTraces lib searchQuery minimumTimestamp) generateSpanPositions
       (randomSampleTraces shuffle) marshal (sb_gzip lib) maximum buffer"


section \<open>The processor\<close>

record snapshotRequest =
  sq_Processor :: string
  sq_PipelineType :: string
  sq_SessionID :: string
  sq_SearchQuery :: "string option"
  sq_MinimumTimestamp :: "int option"
  sq_MaximumPayloadSizeBytes :: int

record snapshotReport =
  sr_SessionID :: string
  sr_TelemetryType :: string
  sr_TelemetryPayload :: bytes

record ('x, 'y, 'z) snap_outside =
  so_lib :: snap_lib
  so_shuffle :: "nat \<Rightarrow> (nat \<times> nat \<times> nat) list \<Rightarrow> (nat \<times> nat \<times> nat) list"
  so_shuffle_points :: "nat \<Rightarrow> (nat \<times> nat \<times> nat \<times> nat) list \<Rightarrow> (nat \<times> nat \<times> nat \<times> nat) list"
  so_logs :: "'x snap_log payload \<Rightarrow> string + bytes"
  so_metrics :: "'y snap_metric payload \<Rightarrow> string + bytes"
  so_traces :: "'z snap_span payload \<Rightarrow> string + bytes"
  so_yaml :: "bytes \<Rightarrow> string + snapshotRequest"
  so_json :: "snapshotReport \<Rightarrow> string + bytes"

record ('x, 'y, 'z) snap_state =
  sn_logs :: "'x snap_log payload list"
  sn_metrics :: "'y snap_metric payload list"
  sn_traces :: "'z snap_span payload list"

record snap_processor =
  sp_enabled :: bool
  sp_processorID :: string

definition snap_size :: int where
  "snap_size = 100"

definition newSnapshotProcessor :: "('x, 'y, 'z) snap_state" where
  "newSnapshotProcessor = \<lparr>sn_logs = [], sn_metrics = [], sn_traces = []\<rparr>"

definition snap_processLogs where
  "snap_processLogs sp ld st =
     (if sp_enabled sp then map_option (\<lambda>b. sn_logs_update (\<lambda>_. b) st) (LogBuffer_Add snap_size ld (sn_logs st))
      else Some st)"

definition snap_processMetrics where
  "snap_processMetrics sp md st =
     (if sp_enabled sp then map_option (\<lambda>b. sn_metrics_update (\<lambda>_. b) st) (MetricBuffer_Add snap_size md (sn_metrics st))
      else Some st)"

definition snap_processTraces where
  "snap_processTraces sp td st =
     (if sp_enabled sp then map_option (\<lambda>b. sn_traces_update (\<lambda>_. b) st) (TraceBuffer_Add snap_size td (sn_traces st))
      else Some st)"

text \<open>The report of a request, if it comes to one, and the buffers after it.\<close>

definition snapshot_report ::
  "('x, 'y, 'z) snap_outside \<Rightarrow> snapshotRequest \<Rightarrow> ('x, 'y, 'z) snap_state
     \<Rightarrow> (snapshotReport option \<times> ('x, 'y, 'z) snap_state) option"
where
  "snapshot_report out req st =
     (let maximum = (if sq_MaximumPayloadSizeBytes req \<le> 0 then 10485760 else sq_MaximumPayloadSizeBytes req);
          report = (\<lambda>ty (p, e). if e = None
                      then Some \<lparr>sr_SessionID = sq_SessionID req, sr_TelemetryType = ty, sr_TelemetryPayload = p\<rparr>
                      else None)
      in if sq_PipelineType req = ''logs'' then
           map_option (\<lambda>(r, b). (report ''logs'' r, sn_logs_update (\<lambda>_. b) st))
             (LogBuffer_ConstructPayload (so_lib out) (so_shuffle out) (so_logs out)
                (sq_SearchQuery req) (sq_MinimumTimestamp req) maximum (sn_logs st))
         else if sq_PipelineType req = ''metrics'' then
           map_option (\<lambda>(r, b). (report ''metrics'' r, sn_metrics_update (\<lambda>_. b) st))
             (MetricBuffer_ConstructPayload (so_lib out) (so_shuffle_points out) (so_metrics out)
                (sq_SearchQuery req) (sq_MinimumTimestamp req) maximum (sn_metrics st))
         else if sq_PipelineType req = ''traces'' then
           map_option (\<lambda>(r, b). (report ''traces'' r, sn_traces_update (\<lambda>_. b) st))
             (TraceBuffer_ConstructPayload (so_lib out) (so_shuffle out) (so_traces out)
                (sq_SearchQuery req) (sq_MinimumTimestamp req) maximum (sn_traces st))
         else Some (None, st))"

text \<open>What is handed to the OpAMP extension for a message.\<close>

definition processSnapshotRequest ::
  "('x, 'y, 'z) snap_outside \<Rightarrow> snap_processor \<Rightarrow> bytes \<Rightarrow> ('x, 'y, 'z) snap_state
     \<Rightarrow> (bytes option \<times> ('x, 'y, 'z) snap_state) option"
where
  "processSnapshotRequest out sp data st =
     (case so_yaml out data of
        Inl e \<Rightarrow> Some (None, st)
      | Inr req \<Rightarrow>
          if sq_Processor req \<noteq> sp_processorID sp then Some (None, st)
          else map_option (\<lambda>(r, st').
                 (case r of
                    None \<Rightarrow> None
                  | Some report \<Rightarrow>
                      (case so_json out report of
                         Inl e \<Rightarrow> None
                       | Inr response \<Rightarrow>
                           (case sb_gzip (so_lib out) response of Inl e \<Rightarrow> None | Inr c \<Rightarrow> Some c)), st'))
               (snapshot_report out req st))"

definition snapshotRequestType :: string where
  "snapshotRequestType = ''requestSnapshot''"

definition processOpAMPMessage where
  "processOpAMPMessage out sp ty data st =
     (if ty = snapshotRequestType then processSnapshotRequest out sp data st else Some (None, st))"

text \<open>The loop that sends the response, over what the extension answers; True when it was accepted.\<close>

datatype send_answer = Scheduled | Pending | SendFailed

fun send_snapshot :: "send_answer list \<Rightarrow> bool option" where
  "send_snapshot [] = None"
| "send_snapshot (Scheduled # as) = Some True"
| "send_snapshot (Pending # as) = send_snapshot as"
| "send_snapshot (SendFailed # as) = Some False"

end
