(* ===== verification/SnapshotProps.thy ===== *)
theory SnapshotProps
  imports Snapshot "HOL-Library.Sublist" "HOL-Library.Multiset"
begin

text \<open>
  What the snapshots promise: a buffer holds the most recent telemetry, a report holds only what the
  request asks for, and no index of the sampling is out of range.
\<close>

section \<open>Search\<close>

text \<open>The texts a query is compared with: the keys and the scalars of a value, on all levels.\<close>

fun value_texts :: "(pvalue \<Rightarrow> string) \<Rightarrow> pvalue \<Rightarrow> string list"
  and map_texts :: "(pvalue \<Rightarrow> string) \<Rightarrow> pmap \<Rightarrow> string list"
  and slice_texts :: "(pvalue \<Rightarrow> string) \<Rightarrow> pvalue list \<Rightarrow> string list" where
  "value_texts asString (VMap m) = map_texts asString m"
| "value_texts asString (VSlice s) = slice_texts asString s"
| "value_texts asString VEmpty = []"
| "value_texts asString v = [asString v]"
| "map_texts asString [] = []"
| "map_texts asString ((k, v) # m) = k # value_texts asString v @ map_texts asString m"
| "slice_texts asString [] = []"
| "slice_texts asString (v # s) = value_texts asString v @ slice_texts asString s"

lemma query_matches:
  "queryMatchesValue asString q v = list_ex (\<lambda>t. str_contains t q) (value_texts asString v)"
  "queryMatchesMap asString q m = list_ex (\<lambda>t. str_contains t q) (map_texts asString m)"
  "queryMatchesSlice asString q s = list_ex (\<lambda>t. str_contains t q) (slice_texts asString s)"
  by (induction asString q v and asString q m and asString q s
      rule: queryMatchesValue_queryMatchesMap_queryMatchesSlice.induct) auto

text \<open>The items of a payload with the attributes of their resources.\<close>

definition entries :: "'i payload \<Rightarrow> (pmap \<times> 'i) list" where
  "entries p = concat (map (\<lambda>r. concat (map (\<lambda>s. map (Pair (ri_attributes r)) (si_items s)) (ri_scopes r))) p)"

lemma entries_simps [simp]: "entries [] = []" "entries (p @ p') = entries p @ entries p'"
  "entries (r # p) = concat (map (\<lambda>s. map (Pair (ri_attributes r)) (si_items s)) (ri_scopes r)) @ entries p"
  by (simp_all add: entries_def)

lemma item_count_entries: "item_count p = length (entries p)"
  by (simp add: item_count_def entries_def length_concat comp_def cong: map_cong)

lemma map_filter_concat: "List.map_filter f (concat xss) = concat (map (List.map_filter f) xss)"
  by (induction xss) (auto simp: List.map_filter_def)

lemma map_filter_map: "List.map_filter f (map g xs) = List.map_filter (f \<circ> g) xs"
  by (induction xs) (auto simp: List.map_filter_def)

lemma map_filter_append [simp]: "List.map_filter f (xs @ ys) = List.map_filter f xs @ List.map_filter f ys"
  by (simp add: List.map_filter_def)

lemma map_filter_Some: "List.map_filter (\<lambda>x. Some (f x)) xs = map f xs"
  by (induction xs) (simp_all add: List.map_filter_simps)

lemma map_filter_if: "List.map_filter (\<lambda>x. if P x then Some (f x) else None) xs = map f (filter P xs)"
  by (induction xs) (simp_all add: List.map_filter_simps)

lemma map_pair_map_filter:
  "map (Pair a) (List.map_filter f xs) = List.map_filter (\<lambda>x. map_option (Pair a) (f x)) xs"
  by (induction xs) (auto simp: List.map_filter_simps split: option.split)

definition query_matches_resource :: "snap_lib \<Rightarrow> string option \<Rightarrow> pmap \<Rightarrow> bool" where
  "query_matches_resource lib q a =
     (case q of None \<Rightarrow> True | Some s \<Rightarrow> queryMatchesMap (sb_AsString lib) s a)"

lemma nonempty_scopes:
  "concat (map (\<lambda>s. map (Pair a) (si_items s)) (filter (\<lambda>s. si_items s \<noteq> []) ss))
     = concat (map (\<lambda>s. map (Pair a) (si_items s)) ss)"
  by (induction ss) auto

lemma entries_filter_resource:
  "entries [filter_resource lib f q r] =
     List.map_filter (\<lambda>(a, x). map_option (Pair a) (f (query_matches_resource lib q a) x)) (entries [r])"
proof -
  let ?qr = "query_matches_resource lib q (ri_attributes r)" and ?a = "ri_attributes r"
  have "concat (map (\<lambda>s. map (Pair ?a) (si_items s)) (map (filter_scope f ?qr) ss))
      = List.map_filter (\<lambda>(a, x). map_option (Pair a) (f (query_matches_resource lib q a) x))
          (concat (map (\<lambda>s. map (Pair ?a) (si_items s)) ss))" for ss
    by (induction ss)
      (simp_all add: filter_scope_def map_pair_map_filter map_filter_map comp_def List.map_filter_simps concat_map_filter_empty)
  then show ?thesis
    unfolding filter_resource_def query_matches_resource_def Let_def
    by (subst entries_simps(3)) (simp add: nonempty_scopes del: map_map)
qed

lemma entries_filter_payload:
  assumes none: "q = None \<Longrightarrow> t = None \<Longrightarrow> f True = Some"
  shows "entries (filter_payload lib f q t p) =
     List.map_filter (\<lambda>(a, x). map_option (Pair a) (f (query_matches_resource lib q a) x)) (entries p)"
proof (cases "q = None \<and> t = None")
  case True
  then show ?thesis using none
    by (simp add: filter_payload_def query_matches_resource_def map_filter_Some case_prod_unfold)
next
  case False
  have "entries (filter (\<lambda>r. ri_scopes r \<noteq> []) (map (filter_resource lib f q) p)) =
     List.map_filter (\<lambda>(a, x). map_option (Pair a) (f (query_matches_resource lib q a) x)) (entries p)"
  proof (induction p)
    case (Cons r p)
    have "entries (r # p) = entries [r] @ entries p" by simp
    moreover have "entries (filter (\<lambda>r. ri_scopes r \<noteq> []) (filter_resource lib f q r # ps))
        = entries [filter_resource lib f q r] @ entries (filter (\<lambda>r. ri_scopes r \<noteq> []) ps)" for ps by auto
    ultimately show ?case using Cons entries_filter_resource[of lib f q r] by simp
  qed (simp add: List.map_filter_simps)
  with False show ?thesis by (simp only: filter_payload_def if_False)
qed


text \<open>What a request asks for, in terms of these texts.\<close>

definition asked :: "string option \<Rightarrow> int option \<Rightarrow> string list \<Rightarrow> 64 word \<Rightarrow> bool" where
  "asked q t texts ts =
     ((case q of None \<Rightarrow> True | Some s \<Rightarrow> \<exists>x\<in>set texts. \<exists>us vs. x = us @ s @ vs)
      \<and> (case t of None \<Rightarrow> True | Some u \<Rightarrow> word_of_int u < ts))"

definition log_asked :: "snap_lib \<Rightarrow> string option \<Rightarrow> int option \<Rightarrow> pmap \<times> 'x snap_log \<Rightarrow> bool" where
  "log_asked lib q t = (\<lambda>(a, l). asked q t
     (map_texts (sb_AsString lib) a @ map_texts (sb_AsString lib) (sl_attributes l)
        @ value_texts (sb_AsString lib) (sl_body l)) (sl_observed l))"

definition span_asked :: "snap_lib \<Rightarrow> string option \<Rightarrow> int option \<Rightarrow> pmap \<times> 'x snap_span \<Rightarrow> bool" where
  "span_asked lib q t = (\<lambda>(a, s). asked q t
     (map_texts (sb_AsString lib) a @ map_texts (sb_AsString lib) (sp_attributes s)
        @ [sp_name s, sb_TraceID lib (sp_trace s), sb_SpanID lib (sp_span s), sb_SpanID lib (sp_parent s),
           sb_Kind lib (sp_kind s)]) (sp_end s))"

type_synonym 'x metric_head = "string \<times> string \<times> string \<times> 'x snap_data"

definition metric_head :: "'x snap_metric \<Rightarrow> 'x metric_head" where
  "metric_head m = (sm_name m, sm_description m, sm_unit m, with_points (\<lambda>ps. []) (sm_data m))"

definition metric_points :: "pmap \<times> 'x snap_metric \<Rightarrow> (pmap \<times> 'x metric_head \<times> 'x snap_point) list" where
  "metric_points = (\<lambda>(a, m). map (\<lambda>d. (a, metric_head m, d)) (data_points (sm_data m)))"

definition points :: "'x snap_metric payload \<Rightarrow> (pmap \<times> 'x metric_head \<times> 'x snap_point) list" where
  "points p = concat (map metric_points (entries p))"

definition point_asked ::
  "snap_lib \<Rightarrow> string option \<Rightarrow> int option \<Rightarrow> pmap \<times> 'x metric_head \<times> 'x snap_point \<Rightarrow> bool" where
  "point_asked lib q t = (\<lambda>(a, (name, rest), d). asked q t
     (map_texts (sb_AsString lib) a @ [name] @ map_texts (sb_AsString lib) (po_attributes d)) (po_time d))"

lemma point_count_points: "point_count p = length (points p)"
proof -
  have eq: "sum_list (map (\<lambda>s. sum_list (map getDataPointCount (si_items s))) ss)
      = length (concat (map metric_points (concat (map (\<lambda>s. map (Pair a) (si_items s)) ss))))" for a ss
    by (induction ss) (simp_all add: metric_points_def getDataPointCount_def length_concat comp_def)
  show ?thesis
  proof (induction p)
    case (Cons r p)
    then show ?case
      using eq[of "ri_scopes r" "ri_attributes r"] by (simp add: point_count_def points_def)
  qed (simp add: point_count_def points_def)
qed

lemma asked_simps:
  "asked None t texts ts = after_minimum ts t"
  "asked (Some s) t texts ts = (list_ex (\<lambda>x. str_contains x s) texts \<and> after_minimum ts t)"
  by (auto simp: asked_def after_minimum_def list_ex_iff str_contains_iff split: option.splits)

lemma logMatches_asked:
  "logMatches lib q t (query_matches_resource lib q a) l = log_asked lib q t (a, l)"
  by (cases q) (auto simp: logMatches_def log_asked_def query_matches_resource_def asked_simps logMatchesQuery_def
      query_matches Let_def)

lemma spanMatches_asked:
  "spanMatches lib q t (query_matches_resource lib q a) s = span_asked lib q t (a, s)"
  by (cases q) (auto simp: spanMatches_def span_asked_def query_matches_resource_def asked_simps spanMatchesQuery_def
      query_matches Let_def)

lemma map_filter_if_matches:
  "List.map_filter (\<lambda>(a, x). map_option (Pair a) (if_matches (P a) x)) xs = filter (\<lambda>(a, x). P a x) xs"
  by (induction xs) (auto simp: List.map_filter_simps if_matches_def)

lemma filter_logs_exact: "entries (filterLogs lib q t p) = filter (log_asked lib q t) (entries p)"
proof -
  have "entries (filterLogs lib q t p) = filter (\<lambda>(a, l). logMatches lib q t (query_matches_resource lib q a) l) (entries p)"
  proof -
    have "entries (filterLogs lib q t p) = List.map_filter
        (\<lambda>(a, x). map_option (Pair a) (if_matches (logMatches lib q t (query_matches_resource lib q a)) x)) (entries p)"
      unfolding filterLogs_def
      by (rule entries_filter_payload) (simp add: if_matches_def fun_eq_iff logMatches_def after_minimum_def)
    then show ?thesis by (simp add: map_filter_if_matches)
  qed
  then show ?thesis by (simp add: logMatches_asked case_prod_unfold)
qed

lemma filter_traces_exact: "entries (filterTraces lib q t p) = filter (span_asked lib q t) (entries p)"
proof -
  have "entries (filterTraces lib q t p) = filter (\<lambda>(a, s). spanMatches lib q t (query_matches_resource lib q a) s) (entries p)"
  proof -
    have "entries (filterTraces lib q t p) = List.map_filter
        (\<lambda>(a, x). map_option (Pair a) (if_matches (spanMatches lib q t (query_matches_resource lib q a)) x)) (entries p)"
      unfolding filterTraces_def
      by (rule entries_filter_payload) (simp add: if_matches_def fun_eq_iff spanMatches_def after_minimum_def)
    then show ?thesis by (simp add: map_filter_if_matches)
  qed
  then show ?thesis by (simp add: spanMatches_asked case_prod_unfold)
qed

lemma data_points_with [simp]: "data_points (with_points f d) = (if d = SEmpty then [] else f (data_points d))"
  by (cases d) simp_all

lemma with_points_with [simp]: "with_points f (with_points g d) = with_points (\<lambda>ps. f (g ps)) d"
  by (cases d) simp_all

lemma metric_points_filterMetric:
  "metric_points (a, filterMetric lib q t (query_matches_resource lib q a) m) =
     filter (point_asked lib q t) (metric_points (a, m))"
proof -
  have eq: "datapointMatches lib q t (query_matches_resource lib q a)
          (if \<not> query_matches_resource lib q a \<and> q \<noteq> None then str_contains (sm_name m) (the q) else True) d
        \<longleftrightarrow> point_asked lib q t (a, metric_head m, d)" for d
    by (cases q) (auto simp: datapointMatches_def point_asked_def metric_head_def query_matches_resource_def asked_simps
        query_matches Let_def)
  have data: "sm_data (filterMetric lib q t (query_matches_resource lib q a) m)
      = with_points (filter (\<lambda>d. point_asked lib q t (a, metric_head m, d))) (sm_data m)"
    by (simp only: filterMetric_def Let_def snap_metric.select_convs eq[abs_def])
  have "metric_head (filterMetric lib q t (query_matches_resource lib q a) m) = metric_head m"
    unfolding metric_head_def data by (simp add: filterMetric_def Let_def)
  then show ?thesis
    by (auto simp: metric_points_def data filter_map comp_def)
qed

lemma filter_metrics_exact: "points (filterMetrics lib q t p) = filter (point_asked lib q t) (points p)"
proof (cases "q = None \<and> t = None")
  case True
  then have "point_asked lib q t = (\<lambda>x. True)"
    by (auto simp: point_asked_def asked_simps after_minimum_def fun_eq_iff)
  with True show ?thesis by (metis filterMetrics_def filter_payload_def filter_True)
next
  case False
  have "entries (filter_payload lib (filter_metric lib q t) q t p) = List.map_filter
      (\<lambda>(a, m). map_option (Pair a) (filter_metric lib q t (query_matches_resource lib q a) m)) (entries p)"
    by (rule entries_filter_payload) (use False in auto)
  moreover have "concat (map metric_points (List.map_filter
      (\<lambda>(a, m). map_option (Pair a) (filter_metric lib q t (query_matches_resource lib q a) m)) es))
     = filter (point_asked lib q t) (concat (map metric_points es))" for es
  proof (induction es)
    case (Cons e es)
    obtain a m where e: "e = (a, m)" by force
    show ?case
      using Cons metric_points_filterMetric[of a lib q t m]
      by (auto simp: e List.map_filter_simps filter_metric_def Let_def metricIsEmpty_def metric_points_def)
  qed (simp add: List.map_filter_simps)
  ultimately show ?thesis by (simp add: filterMetrics_def points_def)
qed


section \<open>Positions\<close>

lemma concat_map_concat_map: "concat (map f (concat (map g xs))) = concat (map (\<lambda>x. concat (map f (g x))) xs)"
  by (induction xs) simp_all

lemma filter_map_filter_snd:
  "map snd (filter (\<lambda>(i, x). P i) xs) = List.map_filter (\<lambda>(i, x). if P i then Some x else None) xs"
  by (induction xs) (auto simp: List.map_filter_simps)

text \<open>Indexing the parts of a list of lists of distinct elements keeps them distinct.\<close>

lemma distinct_indexed:
  assumes "\<And>x. x \<in> set xs \<Longrightarrow> distinct (f x)"
  shows "distinct (concat (map (\<lambda>(i, x). map (Pair i) (f x)) (List.enumerate n xs)))"
  using assms
proof (induction xs arbitrary: n)
  case (Cons x xs)
  have "fst y \<ge> Suc n" if "y \<in> set (concat (map (\<lambda>(i, x). map (Pair i) (f x)) (List.enumerate (Suc n) xs)))" for y
    using that by (auto simp: in_set_enumerate_eq)
  then have "set (map (Pair n) (f x)) \<inter> set (concat (map (\<lambda>(i, x). map (Pair i) (f x)) (List.enumerate (Suc n) xs))) = {}"
    by fastforce
  with Cons show ?case by (simp add: distinct_map inj_on_def)
qed simp

lemma length_filter_keep:
  assumes "distinct ps" and "distinct keep" and "set keep \<subseteq> set ps"
  shows "length (filter (\<lambda>x. x \<in> set keep) ps) = length keep"
proof -
  have "length (filter (\<lambda>x. x \<in> set keep) ps) = card (set (filter (\<lambda>x. x \<in> set keep) ps))"
    using assms(1) by (simp add: distinct_card del: set_filter)
  also have "set (filter (\<lambda>x. x \<in> set keep) ps) = set keep" using assms(3) by auto
  finally show ?thesis using assms(2) by (simp add: distinct_card)
qed

lemma map_snd_enumerate_pair: "map (\<lambda>(i, x). f x) (List.enumerate n xs) = map f xs"
  by (induction xs arbitrary: n) simp_all

text \<open>The items with their positions.\<close>

definition positioned :: "'i payload \<Rightarrow> ((nat \<times> nat \<times> nat) \<times> pmap \<times> 'i) list" where
  "positioned p =
     concat (map (\<lambda>(ri, r). concat (map (\<lambda>(si, s).
         map (\<lambda>(li, x). ((ri, si, li), (ri_attributes r, x))) (List.enumerate 0 (si_items s)))
       (List.enumerate 0 (ri_scopes r)))) (List.enumerate 0 p))"

lemma fst_positioned: "map fst (positioned p) = item_positions p"
  by (simp add: positioned_def item_positions_def map_concat case_prod_unfold comp_def)

lemma snd_positioned: "map snd (positioned p) = entries p"
proof -
  have "map snd (positioned p) = concat (map (\<lambda>(ri, r). concat (map (\<lambda>(si, s).
         map (\<lambda>(li, x). (ri_attributes r, x)) (List.enumerate 0 (si_items s)))
       (List.enumerate 0 (ri_scopes r)))) (List.enumerate 0 p))"
    by (simp add: positioned_def map_concat case_prod_unfold comp_def)
  then show ?thesis by (simp add: entries_def map_snd_enumerate_pair)
qed

lemma distinct_positions: "distinct (item_positions p)"
proof -
  have "item_positions p = concat (map (\<lambda>(ri, r). map (Pair ri) (concat (map (\<lambda>(si, s). map (Pair si)
      (map fst (List.enumerate 0 (si_items s)))) (List.enumerate 0 (ri_scopes r))))) (List.enumerate 0 p))"
    by (simp add: item_positions_def map_concat case_prod_unfold comp_def del: map_fst_enumerate)
  then show ?thesis by (simp add: distinct_indexed del: map_map)
qed

lemma entries_select_items:
  "entries (select_items f p) =
     List.map_filter (\<lambda>((ri, si, li), (a, x)). map_option (Pair a) (f ri si li x)) (positioned p)"
proof -
  let ?g = "\<lambda>((ri, si, li), (a, x)). map_option (Pair a) (f ri si li x)"
  have scope: "(case select_scope (f ri si) s of None \<Rightarrow> [] | Some s' \<Rightarrow> map (Pair a) (si_items s'))
      = List.map_filter ?g (map (\<lambda>(li, x). ((ri, si, li), (a, x))) (List.enumerate 0 (si_items s)))" for ri si a s
  proof -
    have "map (Pair a) (List.map_filter (\<lambda>(li, x). f ri si li x) (List.enumerate 0 (si_items s)))
      = List.map_filter ?g (map (\<lambda>(li, x). ((ri, si, li), (a, x))) (List.enumerate 0 (si_items s)))"
      by (simp add: map_pair_map_filter map_filter_map comp_def case_prod_unfold)
    from this[symmetric] show ?thesis by (auto simp: select_scope_def Let_def)
  qed
  have scopes: "concat (map (\<lambda>s. map (Pair a) (si_items s)) (List.map_filter (\<lambda>(si, s). select_scope (f ri si) s) ss))
      = List.map_filter ?g (concat (map (\<lambda>(si, s). map (\<lambda>(li, x). ((ri, si, li), (a, x)))
          (List.enumerate 0 (si_items s))) ss))" for ri a ss
    by (induction ss) (auto simp: List.map_filter_simps(1) List.map_filter_simps(2) scope[symmetric] split: option.split)
  have resource: "entries (case select_resource (f ri) r of None \<Rightarrow> [] | Some r' \<Rightarrow> [r'])
      = List.map_filter ?g (concat (map (\<lambda>(si, s). map (\<lambda>(li, x). ((ri, si, li), (ri_attributes r, x)))
          (List.enumerate 0 (si_items s))) (List.enumerate 0 (ri_scopes r))))" for ri r
    unfolding scopes[symmetric] by (auto simp: select_resource_def Let_def)
  have "entries (List.map_filter (\<lambda>(ri, r). select_resource (f ri) r) rs)
      = List.map_filter ?g (concat (map (\<lambda>(ri, r). concat (map (\<lambda>(si, s).
          map (\<lambda>(li, x). ((ri, si, li), (ri_attributes r, x))) (List.enumerate 0 (si_items s)))
        (List.enumerate 0 (ri_scopes r)))) rs))" for rs
  proof (induction rs)
    case (Cons q rs)
    obtain ri r where q: "q = (ri, r)" by force
    have "entries (List.map_filter (\<lambda>(ri, r). select_resource (f ri) r) (q # rs))
        = entries (case select_resource (f ri) r of None \<Rightarrow> [] | Some r' \<Rightarrow> [r'])
          @ entries (List.map_filter (\<lambda>(ri, r). select_resource (f ri) r) rs)"
      by (auto simp: q List.map_filter_simps split: option.split)
    with Cons show ?case by (simp add: q resource)
  qed (simp add: List.map_filter_simps)
  then show ?thesis by (simp add: select_items_def positioned_def)
qed


lemma entries_keep_items:
  "entries (keep_items keep p) = map snd (filter (\<lambda>(i, e). i \<in> set keep) (positioned p))"
proof -
  have "List.map_filter (\<lambda>((ri, si, li), (a, x)). map_option (Pair a) (if_matches (\<lambda>x. (ri, si, li) \<in> set keep) x)) xs
      = map snd (filter (\<lambda>(i, e). i \<in> set keep) xs)" for xs :: "((nat \<times> nat \<times> nat) \<times> pmap \<times> 'a) list"
    by (induction xs) (auto simp: List.map_filter_simps if_matches_def)
  then show ?thesis by (simp add: keep_items_def entries_select_items)
qed

text \<open>The data points with their positions.\<close>

definition point_entry ::
  "(nat \<times> nat \<times> nat) \<times> pmap \<times> 'x snap_metric
     \<Rightarrow> ((nat \<times> nat \<times> nat \<times> nat) \<times> pmap \<times> 'x metric_head \<times> 'x snap_point) list" where
  "point_entry e = (case e of ((ri, si, mi), (a, m)) \<Rightarrow>
     map (\<lambda>(di, d). ((ri, si, mi, di), (a, metric_head m, d))) (List.enumerate 0 (data_points (sm_data m))))"

definition positioned_points ::
  "'x snap_metric payload \<Rightarrow> ((nat \<times> nat \<times> nat \<times> nat) \<times> pmap \<times> 'x metric_head \<times> 'x snap_point) list" where
  "positioned_points p = concat (map point_entry (positioned p))"

lemma fst_positioned_points: "map fst (positioned_points p) = generateDataPointPositions p"
proof -
  have "map fst (point_entry ((ri, si, mi), (a, m))) = map (\<lambda>di. (ri, si, mi, di)) [0..<getDataPointCount m]"
    for ri si mi a and m :: "'a snap_metric"
  proof -
    have "map fst (point_entry ((ri, si, mi), (a, m)))
        = map (\<lambda>di. (ri, si, mi, di)) (map fst (List.enumerate 0 (data_points (sm_data m))))"
      by (simp add: point_entry_def comp_def case_prod_unfold del: map_fst_enumerate)
    then show ?thesis by (simp add: getDataPointCount_def)
  qed
  then have entry: "(map fst \<circ> point_entry) = (\<lambda>((ri, si, mi), (a, m :: 'a snap_metric)).
      map (\<lambda>di. (ri, si, mi, di)) [0..<getDataPointCount m])"
    by (simp add: fun_eq_iff)
  have "map fst (positioned_points p) = concat (map (map fst \<circ> point_entry) (positioned p))"
    by (simp add: positioned_points_def map_concat comp_def)
  also have "\<dots> = generateDataPointPositions p"
    unfolding entry positioned_def generateDataPointPositions_def
    by (simp add: concat_map_concat_map case_prod_unfold comp_def)
  finally show ?thesis .
qed

lemma snd_positioned_points: "map snd (positioned_points p) = points p"
proof -
  have "map snd (point_entry e) = metric_points (snd e)" for e :: "(nat \<times> nat \<times> nat) \<times> pmap \<times> 'a snap_metric"
    by (cases e) (auto simp: point_entry_def metric_points_def comp_def case_prod_unfold map_snd_enumerate_pair
        intro: map_snd_enumerate_pair[unfolded case_prod_unfold])
  then show ?thesis
    by (simp add: positioned_points_def points_def map_concat snd_positioned[symmetric] comp_def)
qed

lemma distinct_point_positions: "distinct (generateDataPointPositions p)"
proof -
  have "generateDataPointPositions p = concat (map (\<lambda>(ri, r). map (Pair ri) (concat (map (\<lambda>(si, s). map (Pair si)
      (concat (map (\<lambda>(mi, m). map (Pair mi) [0..<getDataPointCount m]) (List.enumerate 0 (si_items s)))))
      (List.enumerate 0 (ri_scopes r))))) (List.enumerate 0 p))"
    by (simp add: generateDataPointPositions_def map_concat case_prod_unfold comp_def)
  then show ?thesis by (simp add: distinct_indexed del: map_map)
qed

lemma metric_points_keep:
  "(case keep_metric P m of None \<Rightarrow> [] | Some m' \<Rightarrow> metric_points (a, m'))
     = map snd (filter (\<lambda>((ri, si, mi, di), e). P di) (point_entry ((ri0, si0, mi0), (a, m))))"
proof -
  let ?sel = "\<lambda>ps. map snd (filter (\<lambda>(di, p). P di) (List.enumerate 0 ps))"
  have "map snd (filter (\<lambda>((ri, si, mi, di), e). P di) (point_entry ((ri0, si0, mi0), (a, m))))
      = map (\<lambda>d. (a, metric_head m, d)) (?sel (data_points (sm_data m)))"
    by (simp add: point_entry_def filter_map comp_def case_prod_unfold)
  then show ?thesis
    by (auto simp: keep_metric_def Let_def metric_points_def metric_head_def)
qed

lemma points_keep_points:
  "points (keep_points keep p) = map snd (filter (\<lambda>(i, e). i \<in> set keep) (positioned_points p))"
proof -
  have entry: "(case keep_metric (\<lambda>di. (ri, si, mi, di) \<in> set keep) m of None \<Rightarrow> [] | Some m' \<Rightarrow> metric_points (a, m'))
      = map snd (filter (\<lambda>(i, e). i \<in> set keep) (point_entry ((ri, si, mi), (a, m))))" for ri si mi a m
  proof -
    have "filter (\<lambda>(i, e). i \<in> set keep) (point_entry ((ri, si, mi), (a, m)))
        = filter (\<lambda>((r, s, k, di), e). (ri, si, mi, di) \<in> set keep) (point_entry ((ri, si, mi), (a, m)))"
      by (rule filter_cong) (auto simp: point_entry_def)
    then show ?thesis by (simp only: metric_points_keep)
  qed
  have "concat (map metric_points (List.map_filter
      (\<lambda>((ri, si, mi), (a, m)). map_option (Pair a) (keep_metric (\<lambda>di. (ri, si, mi, di) \<in> set keep) m)) es))
    = map snd (filter (\<lambda>(i, e). i \<in> set keep) (concat (map point_entry es)))" for es
  proof (induction es)
    case (Cons e es)
    obtain ri si mi a m where e: "e = ((ri, si, mi), (a, m))" by (metis prod.exhaust)
    have "(case keep_metric (\<lambda>di. (ri, si, mi, di) \<in> set keep) m of None \<Rightarrow> [] | Some m' \<Rightarrow> metric_points (a, m'))
        = map snd (filter (\<lambda>(i, e). i \<in> set keep) (point_entry e))" unfolding e by (rule entry)
    with Cons show ?case by (auto simp: e List.map_filter_simps split: option.splits)
  qed (simp add: List.map_filter_simps)
  then show ?thesis by (simp add: points_def keep_points_def entries_select_items positioned_points_def)
qed


section \<open>Buffers and samples of a signal\<close>

text \<open>What the buffers need of a signal: a count that adds up.\<close>

locale counted =
  fixes count :: "'r list \<Rightarrow> nat"
  assumes count_append: "count (p @ q) = count p + count q"
begin

lemma count_Nil [simp]: "count [] = 0"
  using count_append[of "[]" "[]"] by simp

lemma count_concat: "count (concat ps) = sum_list (map count ps)"
  by (induction ps) (simp_all add: count_append)

lemma len_concat: "buffer_len count buffer = count (concat buffer)"
  by (simp add: buffer_len_def count_concat)

lemma drop_oldest_keeps:
  assumes "0 < ideal" and "ideal \<le> int (buffer_len count buffer)"
  shows "\<exists>buffer'. drop_oldest count ideal buffer = Some buffer' \<and> suffix buffer' buffer
    \<and> ideal \<le> int (buffer_len count buffer') \<and> buffer' \<noteq> []
    \<and> int (buffer_len count (tl buffer')) < ideal"
  using assms(2)
proof (induction buffer)
  case Nil
  with assms(1) show ?case by (simp add: buffer_len_def)
next
  case (Cons x buffer)
  show ?case
  proof (cases "int (buffer_len count buffer) < ideal")
    case True
    with Cons.prems show ?thesis by (simp add: buffer_len_def)
  next
    case False
    then obtain buffer' where "drop_oldest count ideal buffer = Some buffer'" "suffix buffer' buffer"
      "ideal \<le> int (buffer_len count buffer')" "buffer' \<noteq> []" "int (buffer_len count (tl buffer')) < ideal"
      using Cons.IH by auto
    with False show ?thesis by (auto simp: buffer_len_def intro: suffix_ConsI)
  qed
qed

text \<open>Adding keeps whole payloads, the newest, and at least \<open>ideal\<close> records of them if there are as many;
  it drops all it can.\<close>

lemma buffer_add_keeps:
  assumes "0 < ideal"
  shows "\<exists>buffer'. buffer_add count ideal ld buffer = Some buffer' \<and> suffix buffer' (buffer @ [ld]) \<and> buffer' \<noteq> []
    \<and> min ideal (int (buffer_len count (buffer @ [ld]))) \<le> int (buffer_len count buffer')
    \<and> (buffer' = buffer @ [ld] \<or> int (buffer_len count (tl buffer')) < ideal)"
proof -
  have [simp]: "buffer_len count (buffer @ [ld]) = buffer_len count buffer + count ld"
    by (simp add: buffer_len_def)
  consider "ideal < int (count ld)" | "int (count ld) + int (buffer_len count buffer) < ideal"
    | "\<not> ideal < int (count ld)" "ideal \<le> int (buffer_len count (buffer @ [ld]))" by fastforce
  then show ?thesis
  proof cases
    case 1
    with assms show ?thesis by (simp add: buffer_add_def buffer_len_def suffix_def)
  next
    case 2
    then show ?thesis by (auto simp: buffer_add_def)
  next
    case 3
    then have "buffer_add count ideal ld buffer = drop_oldest count ideal (buffer @ [ld])"
      by (simp add: buffer_add_def Let_def)
    with drop_oldest_keeps[OF assms 3(2)] 3(2) show ?thesis by (metis (no_types, lifting) min.absorb1)
  qed
qed

end

text \<open>The payload of a sample, if it can be written and is small enough when compressed.\<close>

definition fits :: "('r list \<Rightarrow> string + bytes) \<Rightarrow> (bytes \<Rightarrow> string + bytes) \<Rightarrow> int \<Rightarrow> 'r list \<Rightarrow> bytes option" where
  "fits marshal compress maximum b =
     (case marshal b of
        Inl e \<Rightarrow> None
      | Inr payload \<Rightarrow>
          (case compress payload of
             Inl e \<Rightarrow> None
           | Inr c \<Rightarrow> if int (length c) \<le> maximum then Some payload else None))"

text \<open>What the samples need: positions, and a selection by positions that keeps what stands there.\<close>

locale sampled = counted count
  for count :: "'r list \<Rightarrow> nat" +
  fixes flat :: "'r list \<Rightarrow> 'e list"
    and positions :: "'r list \<Rightarrow> 'p list"
    and rebuild :: "'p list \<Rightarrow> 'r list \<Rightarrow> 'r list"
  assumes count_flat: "count p = length (flat p)"
    and positions_count: "length (positions p) = count p"
    and positions_distinct: "distinct (positions p)"
    and rebuild_order: "subseq (flat (rebuild keep p)) (flat p)"
    and rebuild_count: "distinct keep \<Longrightarrow> set keep \<subseteq> set (positions p) \<Longrightarrow> length (flat (rebuild keep p)) = length keep"

definition sample_size :: "nat \<Rightarrow> nat \<Rightarrow> nat" where
  "sample_size n r = n * (if r = 0 then 1 else r) div 100"

lemma sample_size_le: "r \<le> 100 \<Longrightarrow> sample_size n r \<le> n"
proof -
  assume "r \<le> 100"
  then have "n * (if r = 0 then 1 else r) \<le> n * 100" by simp
  then have "n * (if r = 0 then 1 else r) div 100 \<le> n * 100 div 100" by (rule div_le_mono)
  then show ?thesis by (simp add: sample_size_def)
qed

context sampled
begin

text \<open>A sample of \<open>p\<close> of \<open>r\<close> per cent.\<close>

definition is_sample :: "'r list \<Rightarrow> nat \<Rightarrow> 'r list \<Rightarrow> bool" where
  "is_sample p r b = (subseq (flat b) (flat p) \<and> length (flat b) = sample_size (count p) r)"

lemma sample_ok:
  assumes "mset ps = mset (positions p)" and "\<And>r xs. mset (shuffle r xs) = mset xs" and "r \<le> 100"
  obtains b ps' where "random_sample shuffle count rebuild p ps r = Some (b, ps')"
    "mset ps' = mset (positions p)" "is_sample p r b"
proof (cases "r = 100")
  case True
  with assms(1) show thesis
    by (intro that[of p ps]) (simp_all add: random_sample_def is_sample_def sample_size_def count_flat)
next
  case False
  let ?ps = "shuffle r ps" and ?n = "sample_size (count p) r"
  have m: "mset ?ps = mset (positions p)" using assms(1,2) by simp
  have n: "?n \<le> length ?ps"
    using sample_size_le[OF assms(3)] mset_eq_length[OF m] positions_count by simp
  have d: "distinct ?ps" "set ?ps = set (positions p)"
    using m positions_distinct mset_eq_imp_distinct_iff mset_eq_setD by blast+
  have "length (flat (rebuild (take ?n ?ps) p)) = ?n"
    using n d set_take_subset[of ?n ?ps] by (subst rebuild_count) auto
  with n m False show thesis
    by (intro that[of "rebuild (take ?n ?ps) p" ?ps])
      (simp_all add: random_sample_def is_sample_def sample_size_def rebuild_order Let_def)
qed

text \<open>
  The attempts at a payload go through the retentions \<open>rs\<close>: \<open>n\<close> of them fit and give the last payload, the
  next one, if there is any, does not fit.
\<close>

lemma retentions_ok:
  assumes "mset ps = mset (positions p)" and "\<And>r xs. mset (shuffle r xs) = mset xs" and "list_all (\<lambda>r. r \<le> 100) rs"
  shows "\<exists>payload err bs n.
     retentions (random_sample shuffle count rebuild p) marshal compress maximum rs ps payload0 = Some (payload, err)
     \<and> n \<le> length rs \<and> length bs = min (length rs) (Suc n) \<and> (\<forall>i<length bs. is_sample p (rs ! i) (bs ! i))
     \<and> (\<forall>i<n. fits marshal compress maximum (bs ! i) \<noteq> None)
     \<and> (n < length rs \<longrightarrow> fits marshal compress maximum (bs ! n) = None)
     \<and> payload = (if n = 0 then payload0 else the (fits marshal compress maximum (bs ! (n - 1))))
     \<and> (err = None \<longleftrightarrow> n = length rs)"
  using assms(1,3)
proof (induction rs arbitrary: ps payload0)
  case Nil
  show ?case by (intro exI[of _ payload0] exI[of _ None] exI[of _ "[]"] exI[of _ 0]) simp
next
  case (Cons r rs)
  then have r: "r \<le> 100" and rs: "list_all (\<lambda>r. r \<le> 100) rs" by simp_all
  obtain b ps' where s: "random_sample shuffle count rebuild p ps r = Some (b, ps')"
    and m: "mset ps' = mset (positions p)" and b: "is_sample p r b"
    by (rule sample_ok[where shuffle = shuffle, OF Cons.prems(1) assms(2) r])
  show ?case
  proof (cases "fits marshal compress maximum b")
    case (Some payload)
    then have step: "retentions (random_sample shuffle count rebuild p) marshal compress maximum (r # rs) ps payload0
        = retentions (random_sample shuffle count rebuild p) marshal compress maximum rs ps' payload"
      using s by (auto simp: fits_def split: sum.splits if_splits)
    obtain payload1 err bs n where
      i: "retentions (random_sample shuffle count rebuild p) marshal compress maximum rs ps' payload = Some (payload1, err)"
      "n \<le> length rs" "length bs = min (length rs) (Suc n)" "\<forall>i<length bs. is_sample p (rs ! i) (bs ! i)"
      "\<forall>i<n. fits marshal compress maximum (bs ! i) \<noteq> None" "n < length rs \<longrightarrow> fits marshal compress maximum (bs ! n) = None"
      "payload1 = (if n = 0 then payload else the (fits marshal compress maximum (bs ! (n - 1))))"
      "err = None \<longleftrightarrow> n = length rs"
      using Cons.IH[OF m rs, of payload] by blast
    have "\<forall>i<length (b # bs). is_sample p ((r # rs) ! i) ((b # bs) ! i)" using i(4) b by (simp add: All_less_Suc2)
    moreover have "\<forall>i<Suc n. fits marshal compress maximum ((b # bs) ! i) \<noteq> None"
      using i(5) Some by (simp add: All_less_Suc2)
    moreover have "payload1 = the (fits marshal compress maximum ((b # bs) ! n))"
      using i(7) Some by (cases n) simp_all
    ultimately show ?thesis unfolding step i(1)
      by (intro exI[of _ payload1] exI[of _ err] exI[of _ "b # bs"] exI[of _ "Suc n"]) (use i(2,3,6,8) in simp)
  next
    case None
    then obtain e where
      "retentions (random_sample shuffle count rebuild p) marshal compress maximum (r # rs) ps payload0 = Some (payload0, Some e)"
      using s by (auto simp: fits_def split: sum.splits if_splits)
    then show ?thesis
      by (intro exI[of _ payload0] exI[of _ "Some e"] exI[of _ "[b]"] exI[of _ 0]) (use None b in simp)
  qed
qed

end


text \<open>What a buffer holds of the telemetry \<open>h\<close> it was given since it was last cleared: the newest part,
  and as many records as it is meant to hold.\<close>

definition holds_recent :: "('r list \<Rightarrow> nat) \<Rightarrow> int \<Rightarrow> 'r list list \<Rightarrow> 'r list \<Rightarrow> bool" where
  "holds_recent cnt ideal buffer h \<longleftrightarrow>
     suffix (concat buffer) h \<and> min ideal (int (cnt h)) \<le> int (cnt (concat buffer))"

lemma suffix_concat: "suffix xs ys \<Longrightarrow> suffix (concat xs) (concat ys)"
  by (auto simp: suffix_def)

context counted
begin

lemma holds_recent_add:
  assumes "0 < ideal" and "holds_recent count ideal buffer h"
  obtains buffer' where "buffer_add count ideal ld buffer = Some buffer'" "holds_recent count ideal buffer' (h @ ld)"
proof -
  obtain buffer' where b: "buffer_add count ideal ld buffer = Some buffer'" "suffix buffer' (buffer @ [ld])"
    "min ideal (int (buffer_len count (buffer @ [ld]))) \<le> int (buffer_len count buffer')"
    using buffer_add_keeps[OF assms(1), of ld buffer] by blast
  have "suffix (concat buffer') (concat buffer @ ld)" using suffix_concat[OF b(2)] by simp
  moreover have "suffix (concat buffer @ ld) (h @ ld)" using assms(2) by (auto simp: holds_recent_def suffix_def)
  ultimately have "suffix (concat buffer') (h @ ld)" by (rule suffix_order.trans)
  moreover have "min ideal (int (count (h @ ld))) \<le> int (count (concat buffer'))"
    using assms(2) b(3) by (auto simp: holds_recent_def len_concat count_append)
  ultimately show thesis using that b(1) by (simp add: holds_recent_def)
qed

lemma holds_recent_merge:
  "holds_recent count ideal [concat buffer] h = holds_recent count ideal buffer h"
  by (simp add: holds_recent_def)

lemma holds_recent_Nil: "holds_recent count ideal [] []"
  by (simp add: holds_recent_def)

end

text \<open>
  What \<open>ConstructPayload\<close> answers, given the telemetry that was asked for: the attempts are samples of it of
  1, 25, 50, 75 and 100 per cent, up to the first that does not fit. The payload is the last that fits, and the
  buffer holds what it held. Only if none fits, or the last that does is written as nothing at all, there is
  no payload and the buffer is cleared; it is an error if some attempt did not fit.
\<close>

definition answers ::
  "'e list \<Rightarrow> ('r list \<Rightarrow> 'e list) \<Rightarrow> ('r list \<Rightarrow> string + bytes) \<Rightarrow> (bytes \<Rightarrow> string + bytes) \<Rightarrow> int \<Rightarrow> 'r list list
     \<Rightarrow> ((bytes \<times> snap_error option) \<times> 'r list list) option \<Rightarrow> bool" where
  "answers wanted flat marshal gzip maximum buffer result \<longleftrightarrow>
     (\<exists>bs n payload err. n \<le> 5 \<and> length bs = min 5 (Suc n)
        \<and> (\<forall>i<length bs. subseq (flat (bs ! i)) wanted \<and> length (flat (bs ! i)) = sample_size (length wanted) (25 * i))
        \<and> (\<forall>i<n. fits marshal gzip maximum (bs ! i) \<noteq> None) \<and> (n < 5 \<longrightarrow> fits marshal gzip maximum (bs ! n) = None)
        \<and> payload = (if n = 0 then [] else the (fits marshal gzip maximum (bs ! (n - 1))))
        \<and> (err = None \<longleftrightarrow> n = 5)
        \<and> result = Some (if payload \<noteq> [] then ((payload, None), [concat buffer]) else (([], err), [])))"

context sampled
begin

lemma construct_payload_answers:
  assumes "\<And>r xs. mset (shuffle r xs) = mset xs" and "flat (filt (concat buffer)) = wanted"
  shows "answers wanted flat marshal compress maximum buffer
    (construct_payload filt positions (\<lambda>p. random_sample shuffle count rebuild p) marshal compress maximum buffer)"
proof -
  let ?p = "filt (concat buffer)" and ?rs = "[0, 25, 50, 75, 100] :: nat list"
  have rs: "?rs ! i = 25 * i" if "i < 5" for i
    using that by (simp add: numeral_eq_Suc less_Suc_eq, elim disjE) simp_all
  have le: "list_all (\<lambda>r. r \<le> 100) ?rs" by simp
  obtain payload err bs n where
    r: "retentions (random_sample shuffle count rebuild ?p) marshal compress maximum ?rs (positions ?p) []
        = Some (payload, err)"
    and n: "n \<le> length ?rs" "length bs = min (length ?rs) (Suc n)"
    and b: "\<forall>i<length bs. is_sample ?p (?rs ! i) (bs ! i)"
    and f: "\<forall>i<n. fits marshal compress maximum (bs ! i) \<noteq> None"
      "n < length ?rs \<longrightarrow> fits marshal compress maximum (bs ! n) = None"
    and pl: "payload = (if n = 0 then [] else the (fits marshal compress maximum (bs ! (n - 1))))"
    and err: "err = None \<longleftrightarrow> n = length ?rs"
    using retentions_ok[where ps = "positions ?p" and p = ?p and shuffle = shuffle and rs = ?rs
        and marshal = marshal and compress = compress and maximum = maximum and ?payload0.0 = "[]", OF refl assms(1) le]
    by (elim exE conjE) (rule that)
  have five: "length ?rs = 5" by simp
  have "\<forall>i<length bs. subseq (flat (bs ! i)) wanted \<and> length (flat (bs ! i)) = sample_size (length wanted) (25 * i)"
  proof (intro allI impI)
    fix i assume i: "i < length bs"
    with n(2) have "i < 5" unfolding five by simp
    then show "subseq (flat (bs ! i)) wanted \<and> length (flat (bs ! i)) = sample_size (length wanted) (25 * i)"
      using b i rs[of i] by (simp add: is_sample_def count_flat assms(2) del: nth_Cons')
  qed
  moreover have "construct_payload filt positions (\<lambda>p. random_sample shuffle count rebuild p) marshal compress maximum buffer
      = Some (if payload \<noteq> [] then ((payload, None), [concat buffer]) else (([], err), []))"
    unfolding construct_payload_def Let_def r by simp
  ultimately show ?thesis
    unfolding answers_def using n f pl err unfolding five by blast
qed

end

text \<open>Records and spans are counted and sampled as items, metrics by their data points.\<close>

interpretation counted_items: counted item_count
  by unfold_locales (simp add: item_count_def)

interpretation items: sampled item_count entries item_positions keep_items
proof
  fix p :: "'i payload" and keep
  show "item_count p = length (entries p)" by (rule item_count_entries)
  show "length (item_positions p) = item_count p"
    unfolding item_count_entries by (metis length_map fst_positioned snd_positioned)
  show "distinct (item_positions p)" by (rule distinct_positions)
  show "subseq (entries (keep_items keep p)) (entries p)"
    unfolding entries_keep_items snd_positioned[of p, symmetric] by (intro subseq_map subseq_filter_left)
  show "length (entries (keep_items keep p)) = length keep" if "distinct keep" "set keep \<subseteq> set (item_positions p)"
  proof -
    have "length (entries (keep_items keep p)) = length (filter (\<lambda>i. i \<in> set keep) (map fst (positioned p)))"
      by (simp add: entries_keep_items filter_map comp_def case_prod_unfold)
    then show ?thesis using length_filter_keep[OF distinct_positions that] by (simp add: fst_positioned)
  qed
qed

interpretation data_points: sampled point_count points generateDataPointPositions keep_points
proof
  fix p q :: "'x snap_metric payload" and keep
  show "point_count (p @ q) = point_count p + point_count q" by (simp add: point_count_def)
  show "point_count p = length (points p)" by (rule point_count_points)
  show "length (generateDataPointPositions p) = point_count p"
    unfolding point_count_points by (metis length_map fst_positioned_points snd_positioned_points)
  show "distinct (generateDataPointPositions p)" by (rule distinct_point_positions)
  show "subseq (points (keep_points keep p)) (points p)"
    unfolding points_keep_points snd_positioned_points[of p, symmetric] by (intro subseq_map subseq_filter_left)
  show "length (points (keep_points keep p)) = length keep"
    if "distinct keep" "set keep \<subseteq> set (generateDataPointPositions p)"
  proof -
    have "length (points (keep_points keep p)) = length (filter (\<lambda>i. i \<in> set keep) (map fst (positioned_points p)))"
      by (simp add: points_keep_points filter_map comp_def case_prod_unfold)
    then show ?thesis using length_filter_keep[OF distinct_point_positions that] by (simp add: fst_positioned_points)
  qed
qed


section \<open>Reports\<close>

text \<open>
  C30. A request for a snapshot never fails on an index. Its attempts are samples, in order, of exactly the
  records, spans or data points of the buffer that the query and the minimum timestamp ask for: of 1, 25,
  50, 75 and 100 per cent of them, up to the first that cannot be written or is too large when compressed.
  The answer is the last one that fits (all that was asked for, if all fit), and the buffer then holds what
  it held. Only if none fits, or the last that fits is written as no bytes at all, there is no payload and
  the buffer is cleared.
\<close>

theorem snapshot_answers:
  assumes "\<And>r xs. mset (shuffle r xs) = mset xs" and "\<And>r xs. mset (shuffle_points r xs) = mset xs"
  shows "answers (filter (log_asked lib q t) (entries (concat logs))) entries marshal_logs (sb_gzip lib) maximum logs
       (LogBuffer_ConstructPayload lib shuffle marshal_logs q t maximum logs)
    \<and> answers (filter (point_asked lib q t) (points (concat metrics))) points marshal_metrics (sb_gzip lib) maximum metrics
       (MetricBuffer_ConstructPayload lib shuffle_points marshal_metrics q t maximum metrics)
    \<and> answers (filter (span_asked lib q t) (entries (concat spans))) entries marshal_spans (sb_gzip lib) maximum spans
       (TraceBuffer_ConstructPayload lib shuffle marshal_spans q t maximum spans)"
  unfolding LogBuffer_ConstructPayload_def MetricBuffer_ConstructPayload_def TraceBuffer_ConstructPayload_def
    randomSampleLogs_def[abs_def] randomSampleMetrics_def[abs_def] randomSampleTraces_def[abs_def]
    generateLogPositions_def generateSpanPositions_def
  by (intro conjI; rule items.construct_payload_answers data_points.construct_payload_answers, rule assms,
      simp only: filter_logs_exact filter_metrics_exact filter_traces_exact)

text \<open>A library and records for examples: scalars are written as they stand, gzip and the marshalers write a
  byte per item, the shuffle turns the list around.\<close>

definition snap_example_lib :: snap_lib where
  "snap_example_lib = \<lparr>sb_AsString = (\<lambda>v. case v of VStr s \<Rightarrow> s | _ \<Rightarrow> []), sb_TraceID = id, sb_SpanID = id,
     sb_Kind = (\<lambda>k. []), sb_gzip = Inr\<rparr>"

definition one_log :: "string \<Rightarrow> unit snap_log payload" where
  "one_log s = [\<lparr>ri_attributes = [], ri_schema = [], ri_scopes = [\<lparr>si_scope = \<lparr>sco_name = ''app'', sco_version = [],
     sco_attributes = []\<rparr>, si_schema = [], si_items = [\<lparr>sl_attributes = [], sl_body = VStr s, sl_observed = 1,
     sl_rest = ()\<rparr>]\<rparr>]\<rparr>]"

definition marshal_example :: "'i payload \<Rightarrow> string + bytes" where
  "marshal_example p = Inr (''{}'' @ replicate (item_count p) CHR ''.'')"

lemmas snap_example_defs = snap_example_lib_def one_log_def marshal_example_def

theorem snapshot_answers_witness:
  "answers (filter (log_asked snap_example_lib (Some ''b'') None) (entries (one_log ''abc'' @ one_log ''d'')))
     entries marshal_example Inr 10 [one_log ''abc'', one_log ''d'']
     (LogBuffer_ConstructPayload snap_example_lib (\<lambda>r. rev) marshal_example (Some ''b'') None 10 [one_log ''abc'', one_log ''d''])"
proof -
  have "mset (rev xs) = mset xs" for xs :: "(nat \<times> nat \<times> nat) list" by simp
  moreover have "mset (rev xs) = mset xs" for xs :: "(nat \<times> nat \<times> nat \<times> nat) list" by simp
  ultimately show ?thesis
    using snapshot_answers[where shuffle = "\<lambda>r. rev" and ?shuffle_points = "\<lambda>r. rev" and lib = snap_example_lib
        and q = "Some ''b''" and t = None and logs = "[one_log ''abc'', one_log ''d'']" and maximum = 10
        and marshal_logs = marshal_example, THEN conjunct1] by (simp add: snap_example_lib_def)
qed

text \<open>The scope is lost when a request filters, and kept when it does not.\<close>

lemma filter_drops_scope:
  "map (map si_scope \<circ> ri_scopes) (filterLogs snap_example_lib (Some ''b'') None (one_log ''abc'')) = [[empty_scope]]"
  "map (map (sco_name \<circ> si_scope) \<circ> ri_scopes) (filterLogs snap_example_lib None None (one_log ''abc'')) = [[''app'']]"
  by (simp_all add: filterLogs_def filter_payload_def filter_resource_def filter_scope_def snap_example_defs
      if_matches_def logMatches_def logMatchesQuery_def after_minimum_def List.map_filter_simps has_prefix_def Let_def)

text \<open>The smallest sample of fewer than a hundred records is empty.\<close>

lemma small_samples_empty: "n < 100 \<Longrightarrow> sample_size n 0 = 0"
  by (simp add: sample_size_def)


section \<open>What the buffers hold\<close>

text \<open>
  Any sequence of telemetry and messages, with the telemetry each buffer was given since it was last
  cleared. A buffer is cleared by a request for a snapshot of that very buffer, addressed to this processor,
  that was answered without a payload; what a buffer loses in any other way stays in its history.
\<close>

definition clears :: "('x, 'y, 'z) snap_outside \<Rightarrow> snap_processor \<Rightarrow> string \<Rightarrow> bytes \<Rightarrow> string \<Rightarrow> 'r list list \<Rightarrow> bool" where
  "clears out sp ty data pipeline buffer' \<longleftrightarrow> buffer' = [] \<and> ty = snapshotRequestType
     \<and> (\<exists>req. so_yaml out data = Inr req \<and> sq_Processor req = sp_processorID sp \<and> sq_PipelineType req = pipeline)"

inductive snap_reach ::
  "('x, 'y, 'z) snap_outside \<Rightarrow> snap_processor \<Rightarrow> ('x, 'y, 'z) snap_state
     \<Rightarrow> 'x snap_log payload \<Rightarrow> 'y snap_metric payload \<Rightarrow> 'z snap_span payload \<Rightarrow> bool"
  for out sp where
  new: "snap_reach out sp newSnapshotProcessor [] [] []"
| logs: "snap_reach out sp st hl hm ht \<Longrightarrow> snap_processLogs sp ld st = Some st' \<Longrightarrow>
     snap_reach out sp st' (if sp_enabled sp then hl @ ld else hl) hm ht"
| metrics: "snap_reach out sp st hl hm ht \<Longrightarrow> snap_processMetrics sp md st = Some st' \<Longrightarrow>
     snap_reach out sp st' hl (if sp_enabled sp then hm @ md else hm) ht"
| traces: "snap_reach out sp st hl hm ht \<Longrightarrow> snap_processTraces sp td st = Some st' \<Longrightarrow>
     snap_reach out sp st' hl hm (if sp_enabled sp then ht @ td else ht)"
| message: "snap_reach out sp st hl hm ht \<Longrightarrow> processOpAMPMessage out sp ty data st = Some (resp, st') \<Longrightarrow>
     snap_reach out sp st' (if clears out sp ty data ''logs'' (sn_logs st') then [] else hl)
       (if clears out sp ty data ''metrics'' (sn_metrics st') then [] else hm)
       (if clears out sp ty data ''traces'' (sn_traces st') then [] else ht)"

definition recent :: "('x, 'y, 'z) snap_state \<Rightarrow> 'x snap_log payload \<Rightarrow> 'y snap_metric payload \<Rightarrow> 'z snap_span payload \<Rightarrow> bool" where
  "recent st hl hm ht \<longleftrightarrow> holds_recent item_count snap_size (sn_logs st) hl
     \<and> holds_recent point_count snap_size (sn_metrics st) hm \<and> holds_recent item_count snap_size (sn_traces st) ht"

lemma snap_size_pos: "0 < snap_size"
  by (simp add: snap_size_def)

lemma holds_recent_hundred:
  "holds_recent cnt snap_size buffer h = (suffix (concat buffer) h \<and> min 100 (cnt h) \<le> cnt (concat buffer))"
proof -
  have "min 100 (int a) \<le> int b \<longleftrightarrow> min 100 a \<le> b" for a b :: nat by linarith
  then show ?thesis by (simp add: holds_recent_def snap_size_def)
qed

definition shuffles :: "('x, 'y, 'z) snap_outside \<Rightarrow> bool" where
  "shuffles out \<longleftrightarrow> (\<forall>r xs. mset (so_shuffle out r xs) = mset xs) \<and> (\<forall>r xs. mset (so_shuffle_points out r xs) = mset xs)"

text \<open>A message leaves each buffer alone or merges it, or, for the buffer asked for, clears it.\<close>

definition merged :: "bool \<Rightarrow> 'r list list \<Rightarrow> 'r list list \<Rightarrow> bool" where
  "merged chosen buffer buffer' \<longleftrightarrow> buffer' = buffer \<or> chosen \<and> (buffer' = [concat buffer] \<or> buffer' = [])"

lemma answers_merged:
  assumes "answers wanted flat marshal gzip maximum buffer result"
  obtains p e buffer' where "result = Some ((p, e), buffer')" "merged True buffer buffer'"
proof -
  obtain payload err where
    r: "result = Some (if payload \<noteq> [] then ((payload, None), [concat buffer]) else (([], err), []))"
    using assms unfolding answers_def by (elim exE conjE) (rule that)
  show thesis by (cases "payload = []") (simp_all add: r that merged_def)
qed

lemma merged_same [simp]: "merged chosen b b"
  by (simp add: merged_def)

lemma report_merges:
  assumes "shuffles out"
  obtains r st' where "snapshot_report out req st = Some (r, st')"
    "merged (sq_PipelineType req = ''logs'') (sn_logs st) (sn_logs st')"
    "merged (sq_PipelineType req = ''metrics'') (sn_metrics st) (sn_metrics st')"
    "merged (sq_PipelineType req = ''traces'') (sn_traces st) (sn_traces st')"
proof -
  have s: "\<And>r xs. mset (so_shuffle out r xs) = mset xs" "\<And>r xs. mset (so_shuffle_points out r xs) = mset xs"
    using assms by (auto simp: shuffles_def)
  define mx where "mx = (if sq_MaximumPayloadSizeBytes req \<le> 0 then 10485760 else sq_MaximumPayloadSizeBytes req)"
  let ?q = "sq_SearchQuery req" and ?t = "sq_MinimumTimestamp req" and ?lib = "so_lib out"
  obtain pl el bl where l: "LogBuffer_ConstructPayload ?lib (so_shuffle out) (so_logs out) ?q ?t mx (sn_logs st) = Some ((pl, el), bl)"
    "merged True (sn_logs st) bl"
    unfolding LogBuffer_ConstructPayload_def randomSampleLogs_def[abs_def] generateLogPositions_def
    by (rule answers_merged[OF items.construct_payload_answers[OF s(1) refl]])
  obtain pm em bm where m: "MetricBuffer_ConstructPayload ?lib (so_shuffle_points out) (so_metrics out) ?q ?t mx (sn_metrics st)
      = Some ((pm, em), bm)" "merged True (sn_metrics st) bm"
    unfolding MetricBuffer_ConstructPayload_def randomSampleMetrics_def[abs_def]
    by (rule answers_merged[OF data_points.construct_payload_answers[OF s(2) refl]])
  obtain pt et bt where t: "TraceBuffer_ConstructPayload ?lib (so_shuffle out) (so_traces out) ?q ?t mx (sn_traces st)
      = Some ((pt, et), bt)" "merged True (sn_traces st) bt"
    unfolding TraceBuffer_ConstructPayload_def randomSampleTraces_def[abs_def] generateSpanPositions_def
    by (rule answers_merged[OF items.construct_payload_answers[OF s(1) refl]])
  have report: "\<exists>r st'. snapshot_report out req st = Some (r, st')
      \<and> merged (sq_PipelineType req = ''logs'') (sn_logs st) (sn_logs st')
      \<and> merged (sq_PipelineType req = ''metrics'') (sn_metrics st) (sn_metrics st')
      \<and> merged (sq_PipelineType req = ''traces'') (sn_traces st) (sn_traces st')"
    unfolding snapshot_report_def mx_def[symmetric] l(1) m(1) t(1) Let_def
    using l(2) m(2) t(2) by simp
  then show thesis using that by blast
qed

text \<open>The buffers a message asks for.\<close>

definition asks_for :: "('x, 'y, 'z) snap_outside \<Rightarrow> snap_processor \<Rightarrow> string \<Rightarrow> bytes \<Rightarrow> string \<Rightarrow> bool" where
  "asks_for out sp ty data pipeline \<longleftrightarrow> ty = snapshotRequestType
     \<and> (\<exists>req. so_yaml out data = Inr req \<and> sq_Processor req = sp_processorID sp \<and> sq_PipelineType req = pipeline)"

lemma message_merges:
  assumes "shuffles out"
  obtains r st' where "processOpAMPMessage out sp ty data st = Some (r, st')"
    "merged (asks_for out sp ty data ''logs'') (sn_logs st) (sn_logs st')"
    "merged (asks_for out sp ty data ''metrics'') (sn_metrics st) (sn_metrics st')"
    "merged (asks_for out sp ty data ''traces'') (sn_traces st) (sn_traces st')"
proof (cases "so_yaml out data")
  case (Inl e)
  then show thesis using that[of None st]
    by (simp add: processOpAMPMessage_def processSnapshotRequest_def)
next
  case (Inr req)
  obtain r st' where m: "snapshot_report out req st = Some (r, st')"
    "merged (sq_PipelineType req = ''logs'') (sn_logs st) (sn_logs st')"
    "merged (sq_PipelineType req = ''metrics'') (sn_metrics st) (sn_metrics st')"
    "merged (sq_PipelineType req = ''traces'') (sn_traces st) (sn_traces st')"
    by (rule report_merges[OF assms])
  show thesis
  proof (cases "ty = snapshotRequestType \<and> sq_Processor req = sp_processorID sp")
    case True
    with Inr m show thesis
      by (intro that[of _ st']) (simp_all add: processOpAMPMessage_def processSnapshotRequest_def asks_for_def)
  next
    case False
    with Inr show thesis using that[of None st]
      by (auto simp: processOpAMPMessage_def processSnapshotRequest_def)
  qed
qed

lemma merged_recent_items:
  assumes "holds_recent item_count ideal buffer h" and "merged chosen buffer buffer'"
  shows "holds_recent item_count ideal buffer' (if buffer' = [] \<and> chosen then [] else h)"
  using assms by (auto simp: merged_def holds_recent_def item_count_def)

lemma merged_recent_points:
  assumes "holds_recent point_count ideal buffer h" and "merged chosen buffer buffer'"
  shows "holds_recent point_count ideal buffer' (if buffer' = [] \<and> chosen then [] else h)"
  using assms by (auto simp: merged_def holds_recent_def point_count_def)

lemma clears_asks: "clears out sp ty data pipeline buffer' \<longleftrightarrow> buffer' = [] \<and> asks_for out sp ty data pipeline"
  by (auto simp: clears_def asks_for_def)

lemma snap_adds:
  assumes "recent st hl hm ht"
  shows "\<exists>st'. snap_processLogs sp ld st = Some st' \<and> recent st' (if sp_enabled sp then hl @ ld else hl) hm ht"
    and "\<exists>st'. snap_processMetrics sp md st = Some st' \<and> recent st' hl (if sp_enabled sp then hm @ md else hm) ht"
    and "\<exists>st'. snap_processTraces sp td st = Some st' \<and> recent st' hl hm (if sp_enabled sp then ht @ td else ht)"
proof -
  have r: "holds_recent item_count snap_size (sn_logs st) hl" "holds_recent point_count snap_size (sn_metrics st) hm"
    "holds_recent item_count snap_size (sn_traces st) ht" using assms by (simp_all add: recent_def)
  show "\<exists>st'. snap_processLogs sp ld st = Some st' \<and> recent st' (if sp_enabled sp then hl @ ld else hl) hm ht"
  proof -
    obtain b where "buffer_add item_count snap_size ld (sn_logs st) = Some b" "holds_recent item_count snap_size b (hl @ ld)"
      by (rule counted_items.holds_recent_add[OF snap_size_pos r(1)])
    with r show ?thesis by (cases "sp_enabled sp") (simp_all add: snap_processLogs_def LogBuffer_Add_def recent_def)
  qed
  show "\<exists>st'. snap_processMetrics sp md st = Some st' \<and> recent st' hl (if sp_enabled sp then hm @ md else hm) ht"
  proof -
    obtain b where "buffer_add point_count snap_size md (sn_metrics st) = Some b" "holds_recent point_count snap_size b (hm @ md)"
      by (rule data_points.holds_recent_add[OF snap_size_pos r(2)])
    with r show ?thesis by (cases "sp_enabled sp") (simp_all add: snap_processMetrics_def MetricBuffer_Add_def recent_def)
  qed
  show "\<exists>st'. snap_processTraces sp td st = Some st' \<and> recent st' hl hm (if sp_enabled sp then ht @ td else ht)"
  proof -
    obtain b where "buffer_add item_count snap_size td (sn_traces st) = Some b" "holds_recent item_count snap_size b (ht @ td)"
      by (rule counted_items.holds_recent_add[OF snap_size_pos r(3)])
    with r show ?thesis by (cases "sp_enabled sp") (simp_all add: snap_processTraces_def TraceBuffer_Add_def recent_def)
  qed
qed

lemma snap_message:
  assumes "shuffles out" and "recent st hl hm ht" and "processOpAMPMessage out sp ty data st = Some (resp, st')"
  shows "recent st' (if clears out sp ty data ''logs'' (sn_logs st') then [] else hl)
     (if clears out sp ty data ''metrics'' (sn_metrics st') then [] else hm)
     (if clears out sp ty data ''traces'' (sn_traces st') then [] else ht)"
proof -
  have m: "merged (asks_for out sp ty data ''logs'') (sn_logs st) (sn_logs st')"
    "merged (asks_for out sp ty data ''metrics'') (sn_metrics st) (sn_metrics st')"
    "merged (asks_for out sp ty data ''traces'') (sn_traces st) (sn_traces st')"
    using message_merges[OF assms(1), of sp ty data st] assms(3) by (metis option.inject prod.inject)+
  from assms(2) show ?thesis unfolding recent_def clears_asks
    using merged_recent_items[OF _ m(1)] merged_recent_points[OF _ m(2)] merged_recent_items[OF _ m(3)] by blast
qed

lemma snap_reach_recent:
  assumes "shuffles out" and "snap_reach out sp st hl hm ht"
  shows "recent st hl hm ht"
  using assms(2)
proof induction
  case new
  show ?case
    by (simp add: recent_def newSnapshotProcessor_def counted_items.holds_recent_Nil data_points.holds_recent_Nil)
next
  case (logs st hl hm ht ld st')
  then show ?case using snap_adds(1)[OF logs.IH, of sp ld] by (metis option.inject)
next
  case (metrics st hl hm ht md st')
  then show ?case using snap_adds(2)[OF metrics.IH, of sp md] by (metis option.inject)
next
  case (traces st hl hm ht td st')
  then show ?case using snap_adds(3)[OF traces.IH, of sp td] by (metis option.inject)
next
  case (message st hl hm ht ty data resp st')
  then show ?case using snap_message[OF assms(1) message.IH message.hyps(2)] by blast
qed



definition snap_example :: "(unit, unit, unit) snap_outside" where
  "snap_example = \<lparr>so_lib = snap_example_lib, so_shuffle = (\<lambda>r. rev), so_shuffle_points = (\<lambda>r. rev),
     so_logs = marshal_example, so_metrics = marshal_example, so_traces = marshal_example, so_yaml = Inl,
     so_json = (\<lambda>r. Inr (sr_TelemetryPayload r))\<rparr>"

definition snap_example_state :: "(unit, unit, unit) snap_state" where
  "snap_example_state = \<lparr>sn_logs = [one_log ''abc''], sn_metrics = [], sn_traces = []\<rparr>"


text \<open>A snapshot merges the payloads of a buffer into one, which is only dropped as a whole. So a buffer that
  is asked for a snapshot before a hundred new records have come grows with every request.\<close>

lemma snapshots_grow_buffer:
  assumes "item_count ld < 100"
  shows "item_count (concat (((\<lambda>buffer. [concat (the (LogBuffer_Add snap_size ld buffer))]) ^^ n) []))
    = n * item_count ld"
proof -
  let ?round = "\<lambda>buffer. [concat (the (LogBuffer_Add snap_size ld buffer))]"
  have add: "LogBuffer_Add snap_size ld [p] = Some [p, ld]" for p
    using assms by (simp add: LogBuffer_Add_def buffer_add_def buffer_len_def snap_size_def Let_def)
  have first: "LogBuffer_Add snap_size ld [] = Some [ld]"
    using assms by (simp add: LogBuffer_Add_def buffer_add_def buffer_len_def snap_size_def Let_def)
  have "(?round ^^ Suc n) [] = [concat (replicate (Suc n) ld)]" for n
  proof (induction n)
    case (Suc n)
    have "(?round ^^ Suc (Suc n)) [] = ?round [concat (replicate (Suc n) ld)]" using Suc by simp
    also have "\<dots> = [concat (replicate (Suc n) ld) @ ld]" by (simp add: add)
    also have "concat (replicate (Suc n) ld) @ ld = concat (replicate (Suc (Suc n)) ld)"
      by (metis append_Cons append_Nil concat.simps(2) concat_append replicate_Suc replicate_append_same concat_eq_Nil_conv
          append_Nil2 concat.simps(1))
    finally show ?case .
  qed (simp add: first)
  moreover have "item_count (concat (replicate n ld)) = n * item_count ld" for n
    by (induction n) (simp_all add: item_count_def)
  ultimately show ?thesis by (cases n) (simp_all add: item_count_def)
qed

end
