(* ===== verification/JsonParser.thy ===== *)
theory JsonParser
  imports BlobDetect BlobTail
begin

text \<open>
  The JSON parser of \<open>internal/blobstream/json_parser.go\<close>: the shape of an object, the search for its
  \<open>Records\<close> array, the loop that yields one record after the other from an array, from wrapped arrays or
  from a sequence of values with text between them, and the ends of all of these.

  The decoder of \<open>encoding/json\<close> is the one of \<open>JsonScan\<close>, over all bytes the reader still delivers, here
  with the error of the reader behind the last of them. How far the decoder has read ahead depends on the
  reads of the source, so it is a parameter: whether the cap of a single value is reached and how many
  bytes behind a value are buffered.
\<close>

section \<open>The decoder over a reader that may fail\<close>

definition errJSONSyntax :: go_error where
  "errJSONSyntax = ErrOther ''invalid character''"

definition isJSONStructureError :: "go_error \<Rightarrow> bool" where
  "isJSONStructureError err = (errors_As (\<lambda>e. e = errJSONSyntax) err \<noteq> None)"

fun json_error :: "go_error \<Rightarrow> json_err \<Rightarrow> go_error" where
  "json_error e JEOF = e"
| "json_error e JUnexpectedEOF = (if e = ErrEOF then ErrUnexpectedEOF else e)"
| "json_error e JSyntax = errJSONSyntax"

text \<open>A number, a literal or a string at the very end of the source is complete only when the source ended
  without an error.\<close>

definition cut_literal :: "go_error \<Rightarrow> bytes \<Rightarrow> decoder \<Rightarrow> bool" where
  "cut_literal e raw d = (e \<noteq> ErrEOF \<and> dc_rest d = [] \<and> last raw \<noteq> CHR ''}'' \<and> last raw \<noteq> CHR '']'')"

definition src_Token :: "go_error \<Rightarrow> decoder \<Rightarrow> (go_error + token) \<times> decoder" where
  "src_Token e d =
     (case Token d of
        (Inl err, d1) \<Rightarrow> (Inl (json_error e err), d1)
      | (Inr (TDelim c), d1) \<Rightarrow> (Inr (TDelim c), d1)
      | (Inr (TString s), d1) \<Rightarrow> (if e \<noteq> ErrEOF \<and> dc_rest d1 = [] then (Inl e, d1) else (Inr (TString s), d1))
      | (Inr (TValue raw), d1) \<Rightarrow>
          (if cut_literal e raw d1 then (Inl e, d1)
           else if number_char (hd raw) \<and> \<not> float_fits raw then (Inl errJSONSyntax, d1)
           else (Inr (TValue raw), d1)))"

section \<open>The shape of an object\<close>

datatype jsonShape = ShapeArray | ShapeRecordsWrapper | ShapeValueSequence

definition maxRecordsSearchBytes :: nat where
  "maxRecordsSearchBytes = 4096"

definition opens :: "token \<Rightarrow> bool" where
  "opens t = (t = TDelim CHR ''{'' \<or> t = TDelim CHR ''['')"

text \<open>\<open>skipValue\<close>: the recursion into an object or array is the number of brackets still open.\<close>

lemma Token_less: "Token d = (Inr t, d1) \<Longrightarrow> length (dc_rest d1) < length (dc_rest d)"
proof (induction d arbitrary: t d1 rule: Token.induct)
  case (1 d)
  show ?case
  proof (cases "peek d")
    case (Pair c d2)
    show ?thesis
    proof (cases c)
      case None
      with Pair 1(4) show ?thesis by (simp add: Token.simps [of d])
    next
      case (Some ch)
      obtain cs where r: "dc_rest d2 = ch # cs" "length cs < length (dc_rest d)"
        using peek_rest Pair Some by blast
      then have skip: "length (dc_rest (dec_skip 1 d2)) < length (dc_rest d)" by (simp add: dec_skip_def)
      have dec: "Decode (d2\<lparr>dc_state := s\<rparr>) = (Inr raw, d3) \<Longrightarrow> length (dc_rest d3) < length (dc_rest d)" for s raw d3
        using Decode_less[of "d2\<lparr>dc_state := s\<rparr>" raw d3] r by simp
      have dec2: "Decode d2 = (Inr raw, d3) \<Longrightarrow> length (dc_rest d3) < length (dc_rest d)" for raw d3
        using Decode_less[of d2 raw d3] r by simp
      note IH = 1(1-3)[OF Pair[symmetric] Some]
      show ?thesis
        using 1(4) Pair Some skip IH
        by (auto simp: Token.simps [of d] open_bracket_def close_bracket_def
            dest: dec dec2 less_trans split: if_splits prod.splits sum.splits)
    qed
  qed
qed

lemma src_Token_less: "src_Token e d = (Inr t, d1) \<Longrightarrow> length (dc_rest d1) < length (dc_rest d)"
  by (auto simp: src_Token_def dest!: Token_less split: prod.splits sum.splits token.splits if_splits)

function skip_open :: "go_error \<Rightarrow> int \<Rightarrow> nat \<Rightarrow> decoder \<Rightarrow> go_error option \<times> decoder" where
  "skip_open e maxBytes depth d =
     (case More d of
        (True, d1) \<Rightarrow>
          if int (dc_off d1) > maxBytes then (Some ErrNotArrayOrKnownObject, d1)
          else (case src_Token e d1 of
                  (Inl err, d2) \<Rightarrow> (Some err, d2)
                | (Inr t, d2) \<Rightarrow> skip_open e maxBytes (if opens t then Suc depth else depth) d2)
      | (False, d1) \<Rightarrow>
          (case src_Token e d1 of
             (Inl err, d2) \<Rightarrow> (Some err, d2)
           | (Inr t, d2) \<Rightarrow> if depth \<le> 1 then (None, d2) else skip_open e maxBytes (depth - 1) d2))"
  by auto
termination
  by (relation "measure (\<lambda>(e, m, n, d). length (dc_rest d))")
    (auto dest!: sym [of _ "More _"] sym [of _ "src_Token _ _"] More_le src_Token_less)

declare skip_open.simps [simp del]

definition skipValue :: "go_error \<Rightarrow> int \<Rightarrow> decoder \<Rightarrow> go_error option \<times> decoder" where
  "skipValue e maxBytes d =
     (if int (dc_off d) > maxBytes then (Some ErrNotArrayOrKnownObject, d)
      else (case src_Token e d of
              (Inl err, d1) \<Rightarrow> (Some err, d1)
            | (Inr t, d1) \<Rightarrow> if opens t then skip_open e maxBytes 1 d1 else (None, d1)))"

lemma src_Token_le: "src_Token e d = (r, d1) \<Longrightarrow> length (dc_rest d1) \<le> length (dc_rest d)"
  by (auto simp: src_Token_def dest!: Token_le split: prod.splits sum.splits token.splits if_splits)

lemma skip_open_le: "skip_open e m n d = (r, d1) \<Longrightarrow> length (dc_rest d1) \<le> length (dc_rest d)"
proof (induction e m n d arbitrary: r d1 rule: skip_open.induct)
  case (1 e m n d)
  obtain b d2 where M: "More d = (b, d2)" by force
  obtain tk d3 where T: "src_Token e d2 = (tk, d3)" by force
  have le: "length (dc_rest d2) \<le> length (dc_rest d)" "length (dc_rest d3) \<le> length (dc_rest d2)"
    using More_le[OF M] src_Token_le[OF T] by auto
  show ?case
    using 1(3) 1(1)[OF M[symmetric]] 1(2)[OF M[symmetric]] le
    by (cases b; cases tk) (auto simp: skip_open.simps [of e m n d] M T split: if_splits, (fastforce dest: le_trans)+)
qed

lemma skipValue_le: "skipValue e m d = (r, d1) \<Longrightarrow> length (dc_rest d1) \<le> length (dc_rest d)"
  by (auto simp: skipValue_def dest: src_Token_le skip_open_le order_trans[OF skip_open_le]
      split: prod.splits sum.splits if_splits)

function opens_key :: "decoder \<Rightarrow> bool" where
  "opens_key d =
     (case src_Token ErrEOF d of
        (Inr (TString key), d1) \<Rightarrow>
          if key \<noteq> ''Records'' then
            (case skipValue ErrEOF (int maxRecordsSearchBytes) d1 of
               (Some err, d2) \<Rightarrow> False
             | (None, d2) \<Rightarrow> opens_key d2)
          else (case src_Token ErrEOF d1 of (Inl err, d2) \<Rightarrow> False | (Inr t, d2) \<Rightarrow> t = TDelim CHR ''['')
      | _ \<Rightarrow> False)"
  by auto
termination
  by (relation "measure (\<lambda>d. length (dc_rest d))")
    (auto dest!: sym [of _ "src_Token _ _"] sym [of _ "skipValue _ _ _"] src_Token_less skipValue_le)

declare opens_key.simps [simp del]

definition opensRecordsArray :: "bytes \<Rightarrow> bool" where
  "opensRecordsArray window =
     (case src_Token ErrEOF (NewDecoder window) of
        (Inr t, d) \<Rightarrow> t = TDelim CHR ''{'' \<and> opens_key d
      | _ \<Rightarrow> False)"

definition firstValue :: "bytes \<Rightarrow> bytes option" where
  "firstValue window = (case Decode (NewDecoder window) of (Inr first, d) \<Rightarrow> Some first | (Inl e, d) \<Rightarrow> None)"

definition classifyJSON :: "raw_status \<Rightarrow> bufferedReader \<Rightarrow> go_error + jsonShape" where
  "classifyJSON raw reader =
     (case bufferedReader_Peek maxRecordsSearchBytes reader of
        (window, err) \<Rightarrow>
          if (case err of Some e \<Rightarrow> \<not> errors_Is e ErrEOF | None \<Rightarrow> False) then Inl (classifyReadFailure raw (the err))
          else (case firstMeaningfulByte window of
                  None \<Rightarrow> Inl ErrNotArrayOrKnownObject
                | Some (first, _) \<Rightarrow>
                    if first = CHR ''['' then Inr ShapeArray
                    else if first = CHR ''{'' then
                      (case firstValue window of
                         Some v \<Rightarrow> Inr (if opensRecordsArray v then ShapeRecordsWrapper else ShapeValueSequence)
                       | None \<Rightarrow> if opensRecordsArray window then Inr ShapeRecordsWrapper
                                 else Inl ErrNotArrayOrKnownObject)
                    else Inl ErrNotArrayOrKnownObject))"

section \<open>The parser\<close>

text \<open>What the parser stands in: the raw source, the error behind the last byte, the size limit of a record,
  and by the offset where it is asked whether a single value, or one that is skipped, is over the cap of its
  reads, and how much is buffered.\<close>

record json_env =
  je_raw :: raw_status
  je_end :: go_error
  je_recordSize :: int
  je_tooLarge :: "int \<Rightarrow> bool"
  je_skipTooLarge :: "int \<Rightarrow> bool"
  je_buffered :: "int \<Rightarrow> nat"

record json_parser =
  js_base :: int
  js_dec :: decoder

definition js_Offset :: "json_parser \<Rightarrow> int" where
  "js_Offset p = js_base p + int (dc_off (js_dec p))"

definition js_rest :: "json_parser \<Rightarrow> bytes" where
  "js_rest p = dc_rest (js_dec p)"

text \<open>A record or a line of text between records.\<close>

datatype json_record = JsonRecord bytes | RawTextLine bytes

type_synonym json_item = "(go_error + json_record) \<times> int"

definition js_skip :: "json_env \<Rightarrow> int \<Rightarrow> json_parser \<Rightarrow> go_error option \<times> json_parser" where
  "js_skip env maxBytes p =
     (if je_skipTooLarge env (js_Offset p) then (Some errRecordTooLarge, p)
      else (case skipValue (je_end env) maxBytes (js_dec p) of (r, d) \<Rightarrow> (r, p\<lparr>js_dec := d\<rparr>)))"

definition js_Token :: "json_env \<Rightarrow> json_parser \<Rightarrow> (go_error + token) \<times> json_parser" where
  "js_Token env p = (case src_Token (je_end env) (js_dec p) of (r, d) \<Rightarrow> (r, p\<lparr>js_dec := d\<rparr>))"

definition js_More :: "json_parser \<Rightarrow> bool \<times> json_parser" where
  "js_More p = (case More (js_dec p) of (b, d) \<Rightarrow> (b, p\<lparr>js_dec := d\<rparr>))"

lemma js_Token_less: "js_Token env p = (Inr t, p1) \<Longrightarrow> length (js_rest p1) < length (js_rest p)"
  by (auto simp: js_Token_def js_rest_def dest: src_Token_less split: prod.splits)

lemma js_More_le: "js_More p = (b, p1) \<Longrightarrow> length (js_rest p1) \<le> length (js_rest p)"
  by (auto simp: js_More_def js_rest_def dest: More_le split: prod.splits)

lemma js_skip_le: "js_skip env m p = (r, p1) \<Longrightarrow> length (js_rest p1) \<le> length (js_rest p)"
  by (auto simp: js_skip_def js_rest_def dest: skipValue_le split: prod.splits if_splits)

text \<open>\<open>seekRecordsArray\<close>, from the opening bracket on.\<close>

function seek_key :: "json_env \<Rightarrow> int \<Rightarrow> json_parser \<Rightarrow> go_error option \<times> json_parser" where
  "seek_key env start p =
     (case js_More p of
        (False, p1) \<Rightarrow> (Some ErrNotArrayOrKnownObject, p1)
      | (True, p1) \<Rightarrow>
          (case js_Token env p1 of
             (Inl err, p2) \<Rightarrow> (Some (ErrWrapped ''read token'' err), p2)
           | (Inr t, p2) \<Rightarrow>
               if t \<noteq> TString ''Records'' then
                 (if int (dc_off (js_dec p2)) - start > int maxRecordsSearchBytes then (Some ErrNotArrayOrKnownObject, p2)
                  else (case js_skip env (start + int maxRecordsSearchBytes) p2 of
                          (Some err, p3) \<Rightarrow>
                            (Some (if errors_Is err errRecordTooLarge then ErrNotArrayOrKnownObject
                                   else ErrWrapped ''skip value'' err), p3)
                        | (None, p3) \<Rightarrow> seek_key env start p3))
               else (case js_Token env p2 of
                       (Inl err, p3) \<Rightarrow> (Some (ErrWrapped ''read token'' err), p3)
                     | (Inr t, p3) \<Rightarrow> (if t = TDelim CHR ''['' then None else Some ErrNotArrayOrKnownObject, p3))))"
  by auto
termination
  by (relation "measure (\<lambda>(env, s, p). length (js_rest p))")
    (auto dest!: sym [of _ "js_More _"] sym [of _ "js_Token _ _"] sym [of _ "js_skip _ _ _"] js_More_le js_Token_less
      js_skip_le)

declare seek_key.simps [simp del]

definition seekRecordsArray :: "json_env \<Rightarrow> json_parser \<Rightarrow> go_error option \<times> json_parser" where
  "seekRecordsArray env p =
     (case js_Token env p of
        (Inl err, p1) \<Rightarrow> (Some (ErrWrapped ''read first token'' err), p1)
      | (Inr t, p1) \<Rightarrow> seek_key env (int (dc_off (js_dec p))) p1)"

text \<open>\<open>finishObject\<close>.\<close>

function finish_keys :: "json_env \<Rightarrow> int \<Rightarrow> json_parser \<Rightarrow> go_error option \<times> json_parser" where
  "finish_keys env start p =
     (case js_More p of
        (True, p1) \<Rightarrow>
          (case js_Token env p1 of
             (Inl err, p2) \<Rightarrow> (Some err, p2)
           | (Inr t, p2) \<Rightarrow>
               (case js_skip env (start + int maxRecordsSearchBytes) p2 of
                  (Some err, p3) \<Rightarrow> (Some err, p3)
                | (None, p3) \<Rightarrow> finish_keys env start p3))
      | (False, p1) \<Rightarrow>
          (case js_Token env p1 of (Inl err, p2) \<Rightarrow> (Some err, p2) | (Inr t, p2) \<Rightarrow> (None, p2)))"
  by auto
termination
  by (relation "measure (\<lambda>(env, s, p). length (js_rest p))")
    (auto dest!: sym [of _ "js_More _"] sym [of _ "js_Token _ _"] sym [of _ "js_skip _ _ _"] js_More_le js_Token_less
      js_skip_le)

declare finish_keys.simps [simp del]

definition finishObject :: "json_env \<Rightarrow> json_parser \<Rightarrow> go_error option \<times> json_parser" where
  "finishObject env p = finish_keys env (int (dc_off (js_dec p))) p"


section \<open>Records\<close>

definition js_Decode :: "json_env \<Rightarrow> json_parser \<Rightarrow> (go_error + bytes) \<times> json_parser" where
  "js_Decode env p =
     (case tokenPrepareForDecode (js_dec p) of
        (Some err, d1) \<Rightarrow> (Inl (json_error (je_end env) err), p\<lparr>js_dec := d1\<rparr>)
      | (None, d1) \<Rightarrow>
          if je_tooLarge env (js_base p + int (dc_off d1)) then (Inl errRecordTooLarge, p\<lparr>js_dec := d1\<rparr>)
          else (case Decode (js_dec p) of
                  (Inl err, d2) \<Rightarrow> (Inl (json_error (je_end env) err), p\<lparr>js_dec := d2\<rparr>)
                | (Inr raw, d2) \<Rightarrow>
                    if cut_literal (je_end env) raw d2 then (Inl (je_end env), p\<lparr>js_dec := d1\<rparr>)
                    else (Inr raw, p\<lparr>js_dec := d2\<rparr>)))"

text \<open>\<open>resyncAfterNewline\<close>, with the new decoder.\<close>

definition js_resync :: "bool \<Rightarrow> json_parser \<Rightarrow> (bytes \<times> bool) \<times> json_parser" where
  "js_resync keepLeading p =
     (case resyncAfterNewline keepLeading
             \<lparr>jp_baseOffset = js_base p, jp_inputOffset = int (dc_off (js_dec p)), jp_rest = js_rest p\<rparr> of
        ((line, ok), q) \<Rightarrow>
          ((line, ok), if ok then \<lparr>js_base = jp_baseOffset q, js_dec = NewDecoder (jp_rest q)\<rparr> else p))"

definition closes :: "jsonShape \<Rightarrow> bool" where
  "closes shape = (shape \<noteq> ShapeValueSequence)"

definition errTrailingRecordsWrapper :: go_error where
  "errTrailingRecordsWrapper = ErrOther ''trailing document is not a records wrapper''"

definition decode_record :: "go_error \<Rightarrow> go_error" where
  "decode_record err = ErrWrapped ''decode record'' err"

definition exceeds_max_log_size :: go_error where
  "exceeds_max_log_size = ErrOther ''decode record: exceeds max_log_size''"

definition expected_object :: go_error where
  "expected_object = ErrOther ''decode record: expected a JSON object''"

definition trim_right_cr :: "bytes \<Rightarrow> bytes" where
  "trim_right_cr s = rev (dropWhile (\<lambda>c. c = CR) (rev s))"

text \<open>One turn of the loops of \<open>yieldValues\<close>: what is yielded, with \<open>Offset()\<close> at that time, and whether it
  goes on. \<open>gate\<close> holds an item back that stands before the offset to start from.\<close>

definition gate :: "int \<Rightarrow> int \<Rightarrow> 'a list \<Rightarrow> 'a list" where
  "gate startOffset currentOffset its = (if currentOffset \<ge> startOffset then its else [])"

definition stream_end :: "json_env \<Rightarrow> json_parser \<Rightarrow> json_item list" where
  "stream_end env p = (case boundaryStreamErr (je_raw env) of None \<Rightarrow> [] | Some serr \<Rightarrow> [(Inl serr, js_Offset p)])"

definition boundary_or :: "json_env \<Rightarrow> go_error \<Rightarrow> go_error" where
  "boundary_or env err = (case boundaryStreamErr (je_raw env) of None \<Rightarrow> err | Some serr \<Rightarrow> serr)"

text \<open>The end of the values: the closing delimiter, the rest of a wrapper, the next document.\<close>

definition end_of_values :: "json_env \<Rightarrow> jsonShape \<Rightarrow> json_parser \<Rightarrow> json_item list \<times> bool \<times> json_parser" where
  "end_of_values env shape p =
     (if \<not> closes shape then (stream_end env p, False, p)
      else case js_Token env p of
        (Inl err, p1) \<Rightarrow>
          ([(Inl (if raw_readErr (je_raw env) \<noteq> None \<or> RawTruncated (je_raw env) then ErrStreamRead err
                  else ErrTruncatedObject err), js_Offset p1)], False, p1)
      | (Inr t, p1) \<Rightarrow>
          (case (if shape = ShapeRecordsWrapper then finishObject env p1 else (None, p1)) of
             (Some err, p2) \<Rightarrow>
               ([(Inl (boundary_or env (ErrWrapped ''trailing'' errTrailingRecordsWrapper)), js_Offset p2)], False, p2)
           | (None, p2) \<Rightarrow>
               (case js_More p2 of
                  (False, p3) \<Rightarrow> (stream_end env p3, False, p3)
                | (True, p3) \<Rightarrow>
                    if shape = ShapeRecordsWrapper then
                      (case seekRecordsArray env p3 of
                         (Some err, p4) \<Rightarrow>
                           ([(Inl (boundary_or env (ErrWrapped ''trailing'' errTrailingRecordsWrapper)), js_Offset p4)], False, p4)
                       | (None, p4) \<Rightarrow> ([], True, p4))
                    else
                      (case js_Token env p3 of
                         (Inl err, p4) \<Rightarrow> ([(Inl (boundary_or env (decode_record err)), js_Offset p4)], False, p4)
                       | (Inr t, p4) \<Rightarrow> ([], True, p4)))))"

text \<open>Malformed bytes or a value over the cap.\<close>

definition malformed :: "json_env \<Rightarrow> jsonShape \<Rightarrow> int \<Rightarrow> int \<Rightarrow> go_error \<Rightarrow> json_parser \<Rightarrow> json_item list \<times> bool \<times> json_parser" where
  "malformed env shape startOffset currentOffset err p =
     (if closes shape then (gate startOffset currentOffset [(Inl (decode_record err), js_Offset p)], False, p)
      else (case js_resync False p of
              ((line, ok), p1) \<Rightarrow>
                (gate startOffset currentOffset
                   [(if isJSONStructureError err \<and> isTextLine line then Inr (RawTextLine (trim_right_cr line))
                     else Inl (decode_record err), js_Offset p1)]
                 @ (if ok then [] else stream_end env p1), ok, p1)))"

text \<open>A value that is not an object, in a sequence of values.\<close>

definition text_value :: "json_env \<Rightarrow> bytes \<Rightarrow> json_parser \<Rightarrow> json_item list \<times> bool \<times> json_parser" where
  "text_value env record p =
     (if \<not> lineHasTrailing (take (je_buffered env (js_Offset p)) (js_rest p)) then
        ([(Inr (if isJSONString record then JsonRecord record else RawTextLine record), js_Offset p)], True, p)
      else (case js_resync True p of
              ((trailing, ok), p1) \<Rightarrow>
                ([(if isTextLine (record @ trailing) then Inr (RawTextLine (bytes_TrimSpace (record @ trailing)))
                   else Inl expected_object, js_Offset p1)]
                 @ (if ok then [] else stream_end env p1), ok, p1)))"

definition value_step :: "json_env \<Rightarrow> jsonShape \<Rightarrow> int \<Rightarrow> json_parser \<Rightarrow> json_item list \<times> bool \<times> json_parser" where
  "value_step env shape startOffset p =
     (let currentOffset = js_Offset p
      in case js_Decode env p of
           (Inl err, p1) \<Rightarrow>
             if errors_Is err ErrEOF then end_of_values env shape p1
             else if isJSONStructureError err \<or> errors_Is err errRecordTooLarge then
               malformed env shape startOffset currentOffset err p1
             else ([(Inl (classifyReadFailure (je_raw env) err), js_Offset p1)], False, p1)
         | (Inr record, p1) \<Rightarrow>
             if currentOffset < startOffset then ([], True, p1)
             else if js_Offset p1 - currentOffset > je_recordSize env then
               ([(Inl exceeds_max_log_size, js_Offset p1)], True, p1)
             else if \<not> isJSONObject record then
               (if closes shape then ([(Inl expected_object, js_Offset p1)], True, p1) else text_value env record p1)
             else ([(Inr (JsonRecord record), js_Offset p1)], True, p1))"

definition json_step :: "json_env \<Rightarrow> jsonShape \<Rightarrow> int \<Rightarrow> json_parser \<Rightarrow> json_item list \<times> bool \<times> json_parser" where
  "json_step env shape startOffset p =
     (case js_More p of
        (True, p1) \<Rightarrow> value_step env shape startOffset p1
      | (False, p1) \<Rightarrow> end_of_values env shape p1)"


section \<open>The sequence of records\<close>

lemma js_Decode_less: "js_Decode env p = (Inr raw, p1) \<Longrightarrow> length (js_rest p1) < length (js_rest p)"
  by (auto simp: js_Decode_def js_rest_def dest: Decode_less split: prod.splits option.splits sum.splits if_splits)

lemma js_Decode_le: "js_Decode env p = (r, p1) \<Longrightarrow> length (js_rest p1) \<le> length (js_rest p)"
  by (auto simp: js_Decode_def js_rest_def dest: Decode_le prepare_le split: prod.splits option.splits sum.splits if_splits)

lemma resync_loop_less:
  "resync_loop b content d s = (line, Some (d', s')) \<Longrightarrow> length s' < length s"
  by (induction b content d s arbitrary: line d' s' rule: resync_loop.induct) (fastforce split: if_splits)+

lemma js_resync_less: "js_resync k p = ((line, True), p1) \<Longrightarrow> length (js_rest p1) < length (js_rest p)"
  by (auto simp: js_resync_def resyncAfterNewline_def js_rest_def NewDecoder_def Let_def dest: resync_loop_less
      split: prod.splits option.splits)

lemma seek_key_le: "seek_key env s p = (r, p1) \<Longrightarrow> length (js_rest p1) \<le> length (js_rest p)"
proof (induction env s p arbitrary: r p1 rule: seek_key.induct)
  case (1 env s p)
  obtain b p2 where M: "js_More p = (b, p2)" by force
  obtain tk p3 where T: "js_Token env p2 = (tk, p3)" by force
  obtain sk p4 where S: "js_skip env (s + int maxRecordsSearchBytes) p3 = (sk, p4)" by force
  obtain tk2 p5 where T2: "js_Token env p3 = (tk2, p5)" by force
  have tle: "js_Token env q = (x, q1) \<Longrightarrow> length (js_rest q1) \<le> length (js_rest q)" for q x q1
    by (auto simp: js_Token_def js_rest_def dest: src_Token_le split: prod.splits)
  have le: "length (js_rest p2) \<le> length (js_rest p)" "length (js_rest p3) \<le> length (js_rest p2)"
    "length (js_rest p4) \<le> length (js_rest p3)" "length (js_rest p5) \<le> length (js_rest p3)"
    using js_More_le[OF M] tle[OF T] js_skip_le[OF S] tle[OF T2] by auto
  show ?case
    using 1(2) 1(1)[OF M[symmetric] _ T[symmetric] _ _ _ S[symmetric]] le
    by (cases b; cases tk; cases sk; cases tk2) (auto simp: seek_key.simps [of env s p] M T S T2 split: if_splits, (fastforce dest: le_trans)+)
qed

lemma js_Token_le: "js_Token env p = (r, p1) \<Longrightarrow> length (js_rest p1) \<le> length (js_rest p)"
  by (auto simp: js_Token_def js_rest_def dest: src_Token_le split: prod.splits)

lemma seekRecordsArray_le: "seekRecordsArray env p = (r, p1) \<Longrightarrow> length (js_rest p1) \<le> length (js_rest p)"
  by (auto simp: seekRecordsArray_def dest: js_Token_le seek_key_le dest!: seek_key_le[THEN order_trans] js_Token_le
      split: prod.splits sum.splits)

lemma finish_keys_le: "finish_keys env s p = (r, p1) \<Longrightarrow> length (js_rest p1) \<le> length (js_rest p)"
proof (induction env s p arbitrary: r p1 rule: finish_keys.induct)
  case (1 env s p)
  obtain b p2 where M: "js_More p = (b, p2)" by force
  obtain tk p3 where T: "js_Token env p2 = (tk, p3)" by force
  obtain sk p4 where S: "js_skip env (s + int maxRecordsSearchBytes) p3 = (sk, p4)" by force
  have le: "length (js_rest p2) \<le> length (js_rest p)" "length (js_rest p3) \<le> length (js_rest p2)"
    "length (js_rest p4) \<le> length (js_rest p3)"
    using js_More_le[OF M] js_Token_le[OF T] js_skip_le[OF S] by auto
  show ?case
    using 1(2) 1(1)[OF M[symmetric] _ T[symmetric] _ S[symmetric]] le
    by (cases b; cases tk; cases sk) (auto simp: finish_keys.simps [of env s p] M T S split: if_splits, (fastforce dest: le_trans)+)
qed

lemma end_of_values_less:
  "end_of_values env shape p = (its, True, p1) \<Longrightarrow> length (js_rest p1) < length (js_rest p)"
  by (auto simp: end_of_values_def finishObject_def split: if_splits prod.splits sum.splits option.splits bool.splits
      dest!: js_Token_less finish_keys_le js_More_le seekRecordsArray_le)

lemma json_step_less: "json_step env shape start p = (its, True, p1) \<Longrightarrow> length (js_rest p1) < length (js_rest p)"
proof -
  assume st: "json_step env shape start p = (its, True, p1)"
  obtain b p2 where M: "js_More p = (b, p2)" by force
  have le: "length (js_rest p2) \<le> length (js_rest p)" by (rule js_More_le[OF M])
  show ?thesis
  proof (cases b)
    case False
    with st M le show ?thesis by (auto simp: json_step_def dest: end_of_values_less)
  next
    case True
    obtain r p3 where D: "js_Decode env p2 = (r, p3)" by force
    have v: "value_step env shape start p2 = (its, True, p1)" using st M True by (simp add: json_step_def)
    have le3: "length (js_rest p3) \<le> length (js_rest p2)" by (rule js_Decode_le[OF D])
    show ?thesis
    proof (cases r)
      case (Inl err)
      with v D le le3 show ?thesis
        by (auto simp: value_step_def malformed_def Let_def split: if_splits prod.splits
            dest!: end_of_values_less js_resync_less)
    next
      case (Inr raw)
      then have "length (js_rest p3) < length (js_rest p2)" using D js_Decode_less by blast
      with v D le Inr show ?thesis
        by (auto simp: value_step_def text_value_def Let_def split: if_splits prod.splits dest!: js_resync_less)
    qed
  qed
qed

text \<open>The items and the offset behind the last.\<close>

function json_run :: "json_env \<Rightarrow> jsonShape \<Rightarrow> int \<Rightarrow> json_parser \<Rightarrow> json_item list \<times> int" where
  "json_run env shape startOffset p =
     (case json_step env shape startOffset p of
        (its, False, p1) \<Rightarrow> (its, js_Offset p1)
      | (its, True, p1) \<Rightarrow> (case json_run env shape startOffset p1 of (rest, fin) \<Rightarrow> (its @ rest, fin)))"
  by auto
termination
  by (relation "measure (\<lambda>(env, sh, s, p). length (js_rest p))") (auto dest!: sym [of _ "json_step _ _ _ _"] json_step_less)

declare json_run.simps [simp del]

definition NewJSONParser :: "bufferedReader \<Rightarrow> json_parser" where
  "NewJSONParser reader = \<lparr>js_base = 0, js_dec = NewDecoder (br_rest reader)\<rparr>"

text \<open>\<open>Parse\<close>: the parser starts at the first byte whatever the offset.\<close>

definition jsonParser_Parse ::
    "json_env \<Rightarrow> bufferedReader \<Rightarrow> int \<Rightarrow> go_error + json_item list \<times> int" where
  "jsonParser_Parse env reader startOffset =
     (case classifyJSON (je_raw env) reader of
        Inl err \<Rightarrow> Inl err
      | Inr shape \<Rightarrow>
          (case (if shape = ShapeArray then
                   (case js_Token env (NewJSONParser reader) of
                      (Inl err, p) \<Rightarrow> (Some (ErrWrapped ''read first token'' err), p)
                    | (Inr t, p) \<Rightarrow> (None, p))
                 else if shape = ShapeRecordsWrapper then seekRecordsArray env (NewJSONParser reader)
                 else (None, NewJSONParser reader)) of
             (Some err, p) \<Rightarrow> Inl err
           | (None, p) \<Rightarrow> Inr (json_run env shape startOffset p)))"

end
