(* ===== verification/JsonResume.thy ===== *)
theory JsonResume
  imports JsonParser BlobDelta
begin

text \<open>
  What the JSON parser promises a worker: an object that is read again from the offset of any of its
  records gives the items behind that one. The operations of the decoder and of the parser keep the end of
  the source, so an offset grows by what is read; what a turn of the loop yields and where it stands behind
  it gives the law of the locale \<open>resumable\<close>, which is interpreted on the parser.
\<close>

section \<open>Offsets\<close>

text \<open>The end of the source in a decoder and in a parser, which no operation moves.\<close>

definition dec_end :: "decoder \<Rightarrow> nat" where
  "dec_end d = dc_off d + length (dc_rest d)"

definition js_end :: "json_parser \<Rightarrow> int" where
  "js_end p = js_Offset p + int (length (js_rest p))"

lemma js_end_dec: "js_end p = js_base p + int (dec_end (js_dec p))"
  by (simp add: js_end_def js_Offset_def js_rest_def dec_end_def)

lemma read_loop_le: "read_loop sc n s = Inr m \<Longrightarrow> m \<le> n + length s"
proof (induction s arbitrary: sc n)
  case (Cons c cs)
  obtain code sc1 where st: "scan_step sc c = (code, sc1)" by fastforce
  obtain code2 sc2 where e: "stateEndValue sc1 CHR '' '' = (code2, sc2)" by fastforce
  from Cons.prems Cons.IH [of sc1 "Suc n"] Cons.IH [of sc2 "Suc n"] st e show ?case
    by (auto split: if_splits)
qed (auto split: if_splits)

lemma readValue_le: "readValue s = Inr n \<Longrightarrow> n \<le> length s"
  by (auto simp: readValue_def dest: read_loop_le split: sum.splits json_err.splits)

lemma skip_end: "n \<le> length (dc_rest d) \<Longrightarrow> dec_end (dec_skip n d) = dec_end d"
  by (simp add: dec_skip_def dec_end_def)

lemma skip_end_1: "dc_rest d = c # cs \<Longrightarrow> dec_end (dec_skip 1 d) = dec_end d"
  by (simp add: skip_end)

lemma dec_end_update [simp]: "dec_end (d\<lparr>dc_state := s\<rparr>) = dec_end d" "dec_end (d\<lparr>dc_stack := st\<rparr>) = dec_end d"
  "dec_end (d\<lparr>dc_err := e\<rparr>) = dec_end d" "dec_end (tokenValueEnd d) = dec_end d"
  by (simp_all add: dec_end_def)

lemma peek_end: "peek d = (r, d1) \<Longrightarrow> dec_end d1 = dec_end d"
  by (auto simp: peek_def Let_def skip_end length_takeWhile_le split: list.splits)

lemma More_end: "More d = (r, d1) \<Longrightarrow> dec_end d1 = dec_end d"
  by (auto simp: More_def dest: peek_end split: prod.splits option.splits)

lemma peek_skip_end: "peek d = (Some c, d1) \<Longrightarrow> dec_end (dec_skip 1 d1) = dec_end d"
  using peek_rest[of d c d1] peek_end[of d "Some c" d1] skip_end_1 by metis

lemma prepare_end: "tokenPrepareForDecode d = (r, d1) \<Longrightarrow> dec_end d1 = dec_end d"
proof -
  assume t: "tokenPrepareForDecode d = (r, d1)"
  obtain c d2 where p: "peek d = (c, d2)" by force
  have e: "dec_end d2 = dec_end d" by (rule peek_end[OF p])
  have "c = Some x \<Longrightarrow> dec_end (dec_skip 1 d2) = dec_end d" for x using peek_skip_end p by simp
  with t p e show ?thesis by (auto simp: tokenPrepareForDecode_def split: if_splits option.splits)
qed

lemma Decode_end: "Decode d = (r, d1) \<Longrightarrow> dec_end d1 = dec_end d"
  by (auto simp: Decode_def dest!: prepare_end readValue_le simp: skip_end
      split: option.splits prod.splits sum.splits if_splits)

lemma Token_end_snd: "dec_end (snd (Token d)) = dec_end d"
proof (induction d rule: Token.induct)
  case (1 d)
  obtain c d2 where p: "peek d = (c, d2)" by fastforce
  show ?case
  proof (cases c)
    case None
    with p peek_end [OF p] show ?thesis by (simp add: Token.simps [of d])
  next
    case (Some k)
    have e: "dec_end d2 = dec_end d" by (rule peek_end [OF p])
    have s: "dec_end (dec_skip 1 d2) = dec_end d2" using peek_rest p Some skip_end_1 by blast
    obtain r1 d3 where D1: "Decode (d2\<lparr>dc_state := TokenTopValue\<rparr>) = (r1, d3)" by force
    obtain r2 d4 where D2: "Decode d2 = (r2, d4)" by force
    have d: "dec_end d3 = dec_end d" "dec_end d4 = dec_end d" using Decode_end [OF D1] Decode_end [OF D2] e by simp_all
    note IH = 1(1-3) [OF p [symmetric] Some]
    have t1: "dec_end (snd (Token ((dec_skip 1 d2)\<lparr>dc_state := TokenObjectValue\<rparr>))) = dec_end d"
      if "k = CHR '':''" "dc_state d2 = TokenObjectColon"
      using IH(1) [OF _ _ _ _ that] that s e by simp
    have u1: "dec_end (snd (Token ((dec_skip 1 d2)\<lparr>dc_state := TokenArrayValue\<rparr>))) = dec_end d"
      if "k = CHR '',''" "dc_state d2 = TokenArrayComma"
      using IH(2) [OF _ _ _ _ _ that] that s e by simp
    have u2: "dec_end (snd (Token ((dec_skip 1 d2)\<lparr>dc_state := TokenObjectKey\<rparr>))) = dec_end d"
      if "k = CHR '',''" "dc_state d2 = TokenObjectComma"
      using IH(3) [OF _ _ _ _ _ that(1) _ that(2)] that s e by simp
    have t: "k = CHR '':'' \<Longrightarrow> ?thesis" using t1 e by (simp add: Token.simps [of d] p Some)
    have u: "k = CHR '','' \<Longrightarrow> ?thesis" using u1 u2 e by (simp add: Token.simps [of d] p Some)
    have b: "k = CHR ''['' \<or> k = CHR '']'' \<or> k = CHR ''{'' \<or> k = CHR ''}'' \<Longrightarrow> ?thesis"
      by (elim disjE) (simp_all add: Token.simps [of d] p Some s [simplified] e open_bracket_def close_bracket_def)
    have r: "k \<noteq> CHR '':'' \<Longrightarrow> k \<noteq> CHR '','' \<Longrightarrow> k \<noteq> CHR ''['' \<Longrightarrow> k \<noteq> CHR '']'' \<Longrightarrow> k \<noteq> CHR ''{'' \<Longrightarrow> k \<noteq> CHR ''}'' \<Longrightarrow> ?thesis"
      by (simp add: Token.simps [of d] p Some D1 D2 d e split: sum.split)
    show ?thesis using t u b r by blast
  qed
qed

lemma Token_end: "Token d = (r, d1) \<Longrightarrow> dec_end d1 = dec_end d"
  using Token_end_snd [of d] by simp

lemma src_Token_end: "src_Token e d = (r, d1) \<Longrightarrow> dec_end d1 = dec_end d"
  by (auto simp: src_Token_def dest!: Token_end split: prod.splits sum.splits token.splits if_splits)

lemma skip_open_end: "skip_open e m n d = (r, d1) \<Longrightarrow> dec_end d1 = dec_end d"
proof (induction e m n d arbitrary: r d1 rule: skip_open.induct)
  case (1 e m n d)
  obtain b d2 where M: "More d = (b, d2)" by force
  obtain tk d3 where T: "src_Token e d2 = (tk, d3)" by force
  have eq: "dec_end d2 = dec_end d" "dec_end d3 = dec_end d2" using More_end[OF M] src_Token_end[OF T] by auto
  show ?case
    using 1(3) 1(1)[OF M[symmetric]] 1(2)[OF M[symmetric]] eq
    by (cases b; cases tk) (auto simp: skip_open.simps [of e m n d] M T split: if_splits)
qed

lemma js_Token_end: "js_Token env p = (r, p1) \<Longrightarrow> js_end p1 = js_end p"
  by (auto simp: js_Token_def js_end_dec dest: src_Token_end split: prod.splits)

lemma js_More_end: "js_More p = (r, p1) \<Longrightarrow> js_end p1 = js_end p"
  by (auto simp: js_More_def js_end_dec dest: More_end split: prod.splits)

lemma js_skip_end: "js_skip env m p = (r, p1) \<Longrightarrow> js_end p1 = js_end p"
  by (auto simp: js_skip_def skipValue_def js_end_dec dest!: src_Token_end skip_open_end split: prod.splits if_splits sum.splits)

lemma js_Decode_end: "js_Decode env p = (r, p1) \<Longrightarrow> js_end p1 = js_end p"
  by (auto simp: js_Decode_def js_end_dec dest!: prepare_end Decode_end split: option.splits prod.splits sum.splits if_splits)

lemma resync_loop_end:
  "resync_loop b content n s = (line, Some (n', s')) \<Longrightarrow> n' + int (length s') = n + int (length s)"
  by (induction b content n s arbitrary: line n' s' rule: resync_loop.induct) (auto split: if_splits)

lemma js_resync_end: "js_resync k p = (r, p1) \<Longrightarrow> js_end p1 = js_end p"
proof -
  assume r: "js_resync k p = (r, p1)"
  obtain line o' where l: "resync_loop k [] 0 (js_rest p) = (line, o')" by force
  show ?thesis
  proof (cases o')
    case None
    with r l show ?thesis by (auto simp: js_resync_def resyncAfterNewline_def Let_def)
  next
    case (Some x)
    obtain n s where x: "x = (n, s)" by force
    have "n + int (length s) = int (length (js_rest p))" using resync_loop_end l Some x by fastforce
    with r l Some x show ?thesis
      by (auto simp: js_resync_def resyncAfterNewline_def Let_def js_end_def js_Offset_def js_rest_def NewDecoder_def)
  qed
qed

lemma seek_key_end_snd: "js_end (snd (seek_key env s p)) = js_end p"
proof (induction env s p rule: seek_key.induct)
  case (1 env s p)
  obtain b p2 where M: "js_More p = (b, p2)" by force
  obtain tk p3 where T: "js_Token env p2 = (tk, p3)" by force
  obtain sk p4 where S: "js_skip env (s + int maxRecordsSearchBytes) p3 = (sk, p4)" by force
  obtain tk2 p5 where T2: "js_Token env p3 = (tk2, p5)" by force
  have eq: "js_end p2 = js_end p" "js_end p3 = js_end p" "js_end p4 = js_end p" "js_end p5 = js_end p"
    using js_More_end[OF M] js_Token_end[OF T] js_skip_end[OF S] js_Token_end[OF T2] by auto
  show ?case
    using 1(1)[OF M[symmetric] _ T[symmetric] _ _ _ S[symmetric]] eq
    by (cases b; cases tk; cases sk; cases tk2) (auto simp: seek_key.simps [of env s p] M T S T2 split: if_splits)
qed

lemma seek_key_end: "seek_key env s p = (r, p1) \<Longrightarrow> js_end p1 = js_end p"
  using seek_key_end_snd[of env s p] by simp

lemma finish_keys_end_snd: "js_end (snd (finish_keys env s p)) = js_end p"
proof (induction env s p rule: finish_keys.induct)
  case (1 env s p)
  obtain b p2 where M: "js_More p = (b, p2)" by force
  obtain tk p3 where T: "js_Token env p2 = (tk, p3)" by force
  obtain sk p4 where S: "js_skip env (s + int maxRecordsSearchBytes) p3 = (sk, p4)" by force
  have eq: "js_end p2 = js_end p" "js_end p3 = js_end p" "js_end p4 = js_end p"
    using js_More_end[OF M] js_Token_end[OF T] js_skip_end[OF S] by auto
  show ?case
    using 1(1)[OF M[symmetric] _ T[symmetric] _ S[symmetric]] eq
    by (cases b; cases tk; cases sk) (auto simp: finish_keys.simps [of env s p] M T S split: if_splits)
qed

lemma finish_keys_end: "finish_keys env s p = (r, p1) \<Longrightarrow> js_end p1 = js_end p"
  using finish_keys_end_snd[of env s p] by simp

lemma end_of_values_end: "end_of_values env shape p = (its, b, p1) \<Longrightarrow> js_end p1 = js_end p"
  by (auto simp: end_of_values_def finishObject_def seekRecordsArray_def
      split: if_splits prod.splits sum.splits option.splits bool.splits
      dest!: js_Token_end finish_keys_end js_More_end seek_key_end)

text \<open>So an offset grows by what is read.\<close>

lemma offset_le: "js_end p1 = js_end p \<Longrightarrow> length (js_rest p1) \<le> length (js_rest p) \<Longrightarrow> js_Offset p \<le> js_Offset p1"
  by (simp add: js_end_def)

lemma offset_less: "js_end p1 = js_end p \<Longrightarrow> length (js_rest p1) < length (js_rest p) \<Longrightarrow> js_Offset p < js_Offset p1"
  by (simp add: js_end_def)

section \<open>Reading again\<close>

text \<open>
  A turn is steady when it stands at the same place behind it whether its item is yielded or held back:
  no text line is read behind a value, and no text line ends with the object.
\<close>

definition steady_turn :: "json_env \<Rightarrow> jsonShape \<Rightarrow> json_parser \<Rightarrow> bool" where
  "steady_turn env shape p =
     (closes shape \<or>
      (case js_More p of
         (False, p1) \<Rightarrow> True
       | (True, p1) \<Rightarrow>
           (case js_Decode env p1 of
              (Inr record, p2) \<Rightarrow>
                isJSONObject record \<or> \<not> lineHasTrailing (take (je_buffered env (js_Offset p2)) (js_rest p2))
            | (Inl err, p2) \<Rightarrow>
                \<not> isJSONStructureError err
                \<or> (case js_resync False p2 of ((line, ok), p3) \<Rightarrow> ok \<or> \<not> isTextLine line))))"

function steady_run :: "json_env \<Rightarrow> jsonShape \<Rightarrow> json_parser \<Rightarrow> bool" where
  "steady_run env shape p =
     (steady_turn env shape p \<and>
      (case json_step env shape 0 p of (its, True, p1) \<Rightarrow> steady_run env shape p1 | (its, False, p1) \<Rightarrow> True))"
  by auto
termination
  by (relation "measure (\<lambda>(env, sh, p). length (js_rest p))") (auto dest!: sym [of _ "json_step _ _ _ _"] json_step_less)

declare steady_run.simps [simp del]

lemma value_step_end: "value_step env shape start p = (its, b, p1) \<Longrightarrow> js_end p1 = js_end p"
  by (auto simp: value_step_def malformed_def text_value_def Let_def split: if_splits prod.splits sum.splits
      dest!: js_Decode_end end_of_values_end js_resync_end)

lemma json_step_end: "json_step env shape start p = (its, b, p1) \<Longrightarrow> js_end p1 = js_end p"
  by (auto simp: json_step_def split: prod.splits bool.splits dest!: js_More_end value_step_end end_of_values_end)

lemma json_step_offset: "json_step env shape start p = (its, True, p1) \<Longrightarrow> js_Offset p < js_Offset p1"
  by (rule offset_less [OF json_step_end json_step_less])

text \<open>Only the offset of a value decides what is held back.\<close>

lemma More_offset_le: "js_More p = (b, p1) \<Longrightarrow> js_Offset p \<le> js_Offset p1"
  by (rule offset_le [OF js_More_end js_More_le])

lemma json_step_start:
  assumes "s \<le> js_Offset p" and "s' \<le> js_Offset p"
  shows "json_step env shape s p = json_step env shape s' p"
proof -
  obtain b p1 where M: "js_More p = (b, p1)" by force
  have "js_Offset p \<le> js_Offset p1" by (rule More_offset_le [OF M])
  then have "s \<le> js_Offset p1" "s' \<le> js_Offset p1" using assms by auto
  then show ?thesis
    by (auto simp: json_step_def M value_step_def malformed_def gate_def Let_def
        split: bool.splits sum.splits prod.splits)
qed

lemma json_run_start:
  "s \<le> js_Offset p \<Longrightarrow> s' \<le> js_Offset p \<Longrightarrow> json_run env shape s p = json_run env shape s' p"
proof (induction env shape s p rule: json_run.induct)
  case (1 env shape s p)
  obtain its b p1 where st: "json_step env shape s p = (its, b, p1)" using prod_cases3 by blast
  have st': "json_step env shape s' p = (its, b, p1)" using json_step_start [OF 1(2,3)] st by metis
  show ?case
  proof (cases b)
    case True
    then have "json_step env shape s p = (its, True, p1)" using st by simp
    then have "js_Offset p < js_Offset p1" by (rule json_step_offset)
    then have "json_run env shape s p1 = json_run env shape s' p1"
      using 1(1) [OF st [symmetric] refl] 1(2,3) True by auto
    then show ?thesis using st st' True by (simp add: json_run.simps [of env shape s p] json_run.simps [of env shape s' p])
  next
    case False
    then show ?thesis using st st' by (simp add: json_run.simps [of env shape s p] json_run.simps [of env shape s' p])
  qed
qed

text \<open>What a steady turn yields, and what it does when all of it is behind the offset to start from.\<close>

lemma end_of_values_items: "end_of_values env shape p = (its, True, p1) \<Longrightarrow> its = []"
  by (auto simp: end_of_values_def split: if_splits prod.splits sum.splits option.splits bool.splits)

lemma end_of_values_errors: "end_of_values env shape p = (its, b, p1) \<Longrightarrow> (Inr x, q) \<notin> set its"
  by (auto simp: end_of_values_def stream_end_def split: if_splits prod.splits sum.splits option.splits bool.splits)

lemma stream_end_errors: "(Inr x, q) \<notin> set (stream_end env p)"
  by (auto simp: stream_end_def split: option.splits)


text \<open>A turn that goes on yields at most one item, with the offset it stands at then; a turn that is
  steady and ends the run yields no record.\<close>

lemma turn_items:
  assumes "json_step env shape start p = (its, True, p1)"
  shows "its = [] \<or> start \<le> js_Offset p1 \<and> (\<exists>x. its = [(x, js_Offset p1)])"
proof -
  obtain b p2 where M: "js_More p = (b, p2)" by force
  obtain r p3 where D: "js_Decode env p2 = (r, p3)" by force
  have D3: "js_Offset p2 \<le> js_Offset p3" by (rule offset_le [OF js_Decode_end [OF D] js_Decode_le [OF D]])
  have R3: "js_Offset p3 \<le> js_Offset p4" if "js_resync k p3 = ((line, True), p4)" for k line p4
    using offset_less [OF js_resync_end [OF that] js_resync_less [OF that]] by simp
  show ?thesis
    using assms M D D3 end_of_values_items
    by (cases b; cases r)
       (auto simp: json_step_def value_step_def malformed_def text_value_def gate_def Let_def
         split: if_splits prod.splits dest!: R3)
qed

lemma last_turn_items:
  assumes "json_step env shape start p = (its, False, p1)" and "steady_turn env shape p"
  shows "(Inr x, q) \<notin> set its"
proof -
  obtain b p2 where M: "js_More p = (b, p2)" by force
  obtain r p3 where D: "js_Decode env p2 = (r, p3)" by force
  show ?thesis
    using assms M D end_of_values_errors stream_end_errors
    by (cases b; cases r)
       (auto simp: json_step_def value_step_def malformed_def text_value_def gate_def steady_turn_def Let_def
         split: if_splits prod.splits)
qed

lemma steady_turn_state:
  assumes "steady_turn env shape p"
  shows "snd (json_step env shape start p) = snd (json_step env shape q p)"
proof -
  obtain b p2 where M: "js_More p = (b, p2)" by force
  obtain r p3 where D: "js_Decode env p2 = (r, p3)" by force
  show ?thesis
    using assms M D
    by (cases b; cases r)
       (auto simp: json_step_def value_step_def malformed_def text_value_def steady_turn_def Let_def split: prod.splits)
qed

lemma steady_turn_behind:
  assumes "json_step env shape start p = (its, True, p1)" and "steady_turn env shape p" and "js_Offset p1 \<le> q"
  shows "json_step env shape q p = ([], True, p1)"
proof -
  obtain b p2 where M: "js_More p = (b, p2)" by force
  obtain r p3 where D: "js_Decode env p2 = (r, p3)" by force
  have D3: "js_Offset p2 \<le> js_Offset p3" by (rule offset_le [OF js_Decode_end [OF D] js_Decode_le [OF D]])
  show ?thesis
  proof (cases b)
    case False
    with assms(1) M end_of_values_items show ?thesis by (auto simp: json_step_def)
  next
    case b: True
    show ?thesis
    proof (cases r)
      case (Inl err)
      obtain line ok p4 where R: "js_resync False p3 = ((line, ok), p4)" by (metis surj_pair)
      have "ok \<Longrightarrow> js_Offset p3 < js_Offset p4"
        by (rule offset_less [OF js_resync_end [OF R] js_resync_less]) (use R in simp)
      then show ?thesis
        using assms(1,3) M D b Inl R D3 end_of_values_items
        by (auto simp: json_step_def value_step_def malformed_def gate_def Let_def split: if_splits)
    next
      case (Inr raw)
      have o: "js_Offset p2 < js_Offset p3"
        using D Inr js_Decode_end js_Decode_less offset_less by metis
      have "p1 = p3"
        using assms(1,2) M D b Inr
        by (auto simp: json_step_def value_step_def text_value_def steady_turn_def closes_def Let_def split: if_splits)
      then show ?thesis using assms(3) M D b Inr o by (auto simp: json_step_def value_step_def Let_def)
    qed
  qed
qed

lemma steady_run_step:
  assumes "steady_run env shape p" and "json_step env shape start p = (its, b, p1)"
  shows "steady_turn env shape p" and "b \<Longrightarrow> steady_run env shape p1"
proof -
  show t: "steady_turn env shape p" using assms(1) by (simp add: steady_run.simps [of env shape p])
  obtain its0 where "json_step env shape 0 p = (its0, b, p1)"
    using steady_turn_state [OF t, of 0 start] assms(2) by (metis prod.collapse snd_conv)
  then show "b \<Longrightarrow> steady_run env shape p1" using assms(1) by (simp add: steady_run.simps [of env shape p])
qed

lemma json_run_step:
  "json_step env shape start p = (its, b, p1) \<Longrightarrow>
     json_run env shape start p =
       (if b then (its @ fst (json_run env shape start p1), snd (json_run env shape start p1)) else (its, js_Offset p1))"
  by (simp add: json_run.simps [of env shape start p] case_prod_beta)

lemma json_run_offsets:
  "steady_run env shape p \<Longrightarrow> (Inr x, q) \<in> set (fst (json_run env shape start p)) \<Longrightarrow> js_Offset p \<le> q"
proof (induction env shape start p rule: json_run.induct)
  case (1 env shape start p)
  obtain its b p1 where st: "json_step env shape start p = (its, b, p1)" using prod_cases3 by blast
  note turn = steady_run_step [OF 1(2) st]
  show ?case
  proof (cases b)
    case True
    then have st': "json_step env shape start p = (its, True, p1)" using st by simp
    have "js_Offset p \<le> js_Offset p1" using json_step_offset [OF st'] by simp
    moreover have "(Inr x, q) \<in> set its \<Longrightarrow> q = js_Offset p1" using turn_items [OF st'] by auto
    moreover have "(Inr x, q) \<in> set (fst (json_run env shape start p1)) \<Longrightarrow> js_Offset p1 \<le> q"
      using 1(1) [OF st' [symmetric] refl refl] turn(2) True by simp
    ultimately show ?thesis using 1(3) json_run_step [OF st] True by auto
  next
    case False
    then show ?thesis using 1(3) json_run_step [OF st] last_turn_items st turn(1) by auto
  qed
qed

theorem json_run_resume:
  "steady_run env shape p \<Longrightarrow> json_run env shape start p = (xs @ (Inr x, q) # ys, fin) \<Longrightarrow>
     json_run env shape q p = (ys, fin)"
proof (induction env shape start p arbitrary: xs rule: json_run.induct)
  case (1 env shape start p)
  obtain its b p1 where st: "json_step env shape start p = (its, b, p1)" using prod_cases3 by blast
  note turn = steady_run_step [OF 1(2) st]
  obtain items fin1 where rest: "json_run env shape start p1 = (items, fin1)" by force
  have b: b
  proof (rule ccontr)
    assume "\<not> b"
    then have "(Inr x, q) \<in> set its" using 1(3) json_run_step [OF st] by auto
    with last_turn_items turn(1) st \<open>\<not> b\<close> show False by auto
  qed
  then have st: "json_step env shape start p = (its, True, p1)" using st by simp
  have all: "its @ items = xs @ (Inr x, q) # ys" "fin1 = fin" using 1(3) json_run_step [OF st] rest by auto
  have later: "js_Offset p1 \<le> q \<Longrightarrow> json_run env shape q p1 = (ys, fin) \<Longrightarrow> ?case"
    using json_run_step [OF steady_turn_behind [OF st turn(1)]] by simp
  show ?case
  proof (cases "its \<noteq> [] \<and> xs = []")
    case True
    with turn_items [OF st] all have q: "q = js_Offset p1" "ys = items" by auto
    have "start \<le> js_Offset p1" using turn_items [OF st] True by auto
    then have "json_run env shape q p1 = json_run env shape start p1" using q by (auto intro: json_run_start)
    with q later rest all show ?thesis by simp
  next
    case False
    then obtain xs' where xs: "items = xs' @ (Inr x, q) # ys"
      using turn_items [OF st] all by (cases xs) auto
    have "json_run env shape q p1 = (ys, fin)"
      using 1(1) [OF st [symmetric] refl refl] turn(2) b rest xs all by auto
    moreover have "js_Offset p1 \<le> q" using json_run_offsets [of env shape p1 x q start] turn(2) b rest xs by simp
    ultimately show ?thesis using later by simp
  qed
qed

lemma closed_steady: "closes shape \<Longrightarrow> steady_run env shape p"
proof (induction env shape p rule: steady_run.induct)
  case (1 env shape p)
  then show ?case by (auto simp: steady_run.simps [of env shape p] steady_turn_def split: prod.splits bool.splits)
qed

text \<open>The parser of an object, with what it stands in.\<close>

definition json_parse :: "json_env \<times> bufferedReader \<Rightarrow> int \<Rightarrow> (go_error + json_item list \<times> int) option" where
  "json_parse src start = Some (jsonParser_Parse (fst src) (snd src) start)"

definition json_steady :: "json_env \<times> bufferedReader \<Rightarrow> bool" where
  "json_steady src =
     (case classifyJSON (je_raw (fst src)) (snd src) of
        Inr ShapeValueSequence \<Rightarrow> steady_run (fst src) ShapeValueSequence (NewJSONParser (snd src))
      | _ \<Rightarrow> True)"

lemma json_parse_resume:
  assumes "json_steady src" and "json_parse src start = Some (Inr (xs @ (Inr x, q) # ys, fin))"
  shows "json_parse src q = Some (Inr (ys, fin))"
proof -
  obtain shape p where sh: "classifyJSON (je_raw (fst src)) (snd src) = Inr shape"
    and run: "json_run (fst src) shape start p = (xs @ (Inr x, q) # ys, fin)"
    and seq: "shape = ShapeValueSequence \<Longrightarrow> p = NewJSONParser (snd src)"
    and again: "json_parse src q = Some (Inr (json_run (fst src) shape q p))"
    using assms(2)
    by (auto simp: json_parse_def jsonParser_Parse_def split: sum.splits prod.splits option.splits if_splits)
  have "steady_run (fst src) shape p"
  proof (cases "closes shape")
    case False
    with assms(1) sh seq show ?thesis by (simp add: json_steady_def closes_def)
  qed (rule closed_steady)
  with json_run_resume run again show ?thesis by metis
qed

interpretation json: resumable json_parse json_steady
  by unfold_locales (rule json_parse_resume)

end
