(* ===== verification/JsonExact.thy ===== *)
theory JsonExact
  imports JsonResume
begin

text \<open>
  What the JSON parser makes of well-formed objects: a sequence of JSON objects, on lines of their own or
  one behind the other, and an array of objects give one record for each, in order, whatever the restarts.
  The last section has the contents that a restart reads differently.
\<close>

section \<open>A source that ends cleanly\<close>

definition clean_source :: "json_env \<Rightarrow> bool" where
  "clean_source env =
     (je_end env = ErrEOF \<and> raw_readErr (je_raw env) = None \<and> \<not> RawTruncated (je_raw env)
      \<and> (\<forall>off. \<not> je_tooLarge env off))"

lemma clean_source_end: "clean_source env \<Longrightarrow> stream_end env p = []"
  by (simp add: clean_source_def stream_end_def boundaryStreamErr_def)

text \<open>The records of a text, with the offsets behind them.\<close>

fun record_items :: "int \<Rightarrow> (bytes \<times> bytes) list \<Rightarrow> json_item list" where
  "record_items off [] = []"
| "record_items off ((s, r) # its) =
     (Inr (JsonRecord r), off + int (length s) + int (length r))
     # record_items (off + int (length s) + int (length r)) its"

section \<open>A sequence of objects\<close>

definition good_sequence :: "(bytes \<times> bytes) list \<Rightarrow> bool" where
  "good_sequence its = (\<forall>(s, r)\<in>set its. spaces s \<and> json_object r)"

definition within :: "json_env \<Rightarrow> (bytes \<times> bytes) list \<Rightarrow> bool" where
  "within env its = (\<forall>(s, r)\<in>set its. int (length s) + int (length r) \<le> je_recordSize env)"

abbreviation at_top :: "bytes \<Rightarrow> nat \<Rightarrow> json_parser" where
  "at_top s off \<equiv> \<lparr>js_base = 0, js_dec = in_array TokenTopValue s off []\<rparr>"

lemma Decode_top:
  assumes "json_object r"
  shows "Decode (in_array TokenTopValue (r @ t) off stk) = (Inr r, in_array TokenTopValue t (off + length r) stk)"
proof -
  have "dropWhile isSpace r = r" using json_object_hd [OF assms] by (cases r) simp_all
  with json_object_read [OF assms] show ?thesis
    by (simp add: Decode_def tokenPrepareForDecode_def tokenValueAllowed_def tokenValueEnd_def dec_skip_def)
qed

lemma cut_literal_clean: "clean_source env \<Longrightarrow> \<not> cut_literal (je_end env) raw d"
  by (simp add: clean_source_def cut_literal_def)

lemma More_spaces:
  assumes "spaces t"
  shows "js_More (at_top t off) = (False, at_top t off)"
proof -
  have "dropWhile isSpace t = []" using dropWhile_spaces [OF assms, of "[]"] by simp
  then show ?thesis by (simp add: js_More_def More_blank)
qed

lemma sequence_step:
  assumes "clean_source env" and "spaces s" and "json_object r" and "int (length r) \<le> je_recordSize env"
  shows "start \<le> int off \<Longrightarrow> json_step env ShapeValueSequence start (at_top (s @ r @ t) off) =
    ([(Inr (JsonRecord r), int off + int (length s) + int (length r))], True, at_top t (off + length s + length r))"
    and "steady_turn env ShapeValueSequence (at_top (s @ r @ t) off)"
proof -
  obtain cs where r: "r = CHR ''{'' # cs" using json_object_hd [OF assms(3)] by (cases r) auto
  have m: "js_More (at_top (s @ r @ t) off) = (True, at_top (r @ t) (off + length s))"
    using More_at [OF assms(2), of "CHR ''{''"] by (simp add: js_More_def r isSpace_def)
  have p: "tokenPrepareForDecode (in_array TokenTopValue (r @ t) (off + length s) []) =
      (None, in_array TokenTopValue (r @ t) (off + length s) [])"
    by (simp add: tokenPrepareForDecode_def)
  have d: "js_Decode env (at_top (r @ t) (off + length s)) = (Inr r, at_top t (off + length s + length r))"
    using Decode_top [OF assms(3)] cut_literal_clean [OF assms(1)] assms(1)
    by (simp add: js_Decode_def p clean_source_def)
  have o: "isJSONObject r" by (simp add: isJSONObject_def r)
  show "steady_turn env ShapeValueSequence (at_top (s @ r @ t) off)"
    by (simp add: steady_turn_def m d o)
  show "start \<le> int off \<Longrightarrow> json_step env ShapeValueSequence start (at_top (s @ r @ t) off) =
    ([(Inr (JsonRecord r), int off + int (length s) + int (length r))], True, at_top t (off + length s + length r))"
    using assms(4) by (simp add: json_step_def value_step_def m d o js_Offset_def Let_def)
qed

lemma sequence_end:
  assumes "clean_source env" and "spaces t"
  shows "json_step env ShapeValueSequence start (at_top t off) = ([], False, at_top t off)"
    and "steady_turn env ShapeValueSequence (at_top t off)"
proof -
  have m: "js_More (at_top t off) = (False, at_top t off)" by (rule More_spaces [OF assms(2)])
  show "json_step env ShapeValueSequence start (at_top t off) = ([], False, at_top t off)"
    using clean_source_end [OF assms(1)] by (simp add: json_step_def m end_of_values_def closes_def)
  show "steady_turn env ShapeValueSequence (at_top t off)" by (simp add: steady_turn_def m)
qed

lemma sequence_run:
  assumes "clean_source env" and "spaces t"
  shows "good_sequence its \<Longrightarrow> within env its \<Longrightarrow> start \<le> int off \<Longrightarrow>
    json_run env ShapeValueSequence start (at_top (items_text its @ t) off) =
      (record_items (int off) its, int off + int (length (items_text its)))
    \<and> steady_run env ShapeValueSequence (at_top (items_text its @ t) off)"
proof (induction its arbitrary: off)
  case Nil
  then show ?case
    using sequence_end(1) [OF assms, of start off] sequence_end(2) [OF assms, of off] sequence_end(1) [OF assms, of 0 off]
    by (simp add: json_run.simps [of _ _ _ "at_top t off"] steady_run.simps [of _ _ "at_top t off"] js_Offset_def)
next
  case (Cons x its)
  obtain s r where x: "x = (s, r)" by (cases x)
  have h: "spaces s" "json_object r" "int (length r) \<le> je_recordSize env"
    and its: "good_sequence its" "within env its"
    using Cons.prems x by (auto simp: good_sequence_def within_def)
  note step = sequence_step(1) [OF assms(1) h, of _ off "items_text its @ t"] sequence_step(2) [OF assms(1) h, of "items_text its @ t" off]
  have IH: "json_run env ShapeValueSequence start (at_top (items_text its @ t) (off + length s + length r)) =
      (record_items (int (off + length s + length r)) its, int (off + length s + length r) + int (length (items_text its)))
    \<and> steady_run env ShapeValueSequence (at_top (items_text its @ t) (off + length s + length r))"
    by (rule Cons.IH [OF its]) (use Cons.prems(3) in simp)
  have "json_run env ShapeValueSequence start (at_top (s @ r @ items_text its @ t) off) =
      (record_items (int off) (x # its), int off + int (length (items_text (x # its))))"
    using IH json_run_step [OF step(1) [OF Cons.prems(3)]] by (simp add: x add_ac)
  moreover have "steady_run env ShapeValueSequence (at_top (s @ r @ items_text its @ t) off)"
    using IH step(1) [of 0] step(2) by (simp add: steady_run.simps [of _ _ "at_top (s @ r @ items_text its @ t) off"])
  ultimately show ?case by (simp add: x)
qed

section \<open>Arrays of objects\<close>

abbreviation at_array :: "token_state list \<Rightarrow> token_state \<Rightarrow> bytes \<Rightarrow> nat \<Rightarrow> json_parser" where
  "at_array stk st s off \<equiv> \<lparr>js_base = 0, js_dec = in_array st s off stk\<rparr>"

lemma array_first:
  assumes "clean_source env" and "spaces s" and "json_object r" and "int (length r) \<le> je_recordSize env"
    and "start \<le> int off"
  shows "json_step env shape start (at_array stk TokenArrayStart (s @ r @ t) off) =
    ([(Inr (JsonRecord r), int off + int (length s) + int (length r))], True,
     at_array stk TokenArrayComma t (off + length s + length r))"
proof -
  obtain cs where r: "r = CHR ''{'' # cs" using json_object_hd [OF assms(3)] by (cases r) auto
  have m: "js_More (at_array stk TokenArrayStart (s @ r @ t) off) = (True, at_array stk TokenArrayStart (r @ t) (off + length s))"
    using More_at [OF assms(2), of "CHR ''{''"] by (simp add: js_More_def r isSpace_def)
  have p: "tokenPrepareForDecode (in_array TokenArrayStart (r @ t) (off + length s) stk) =
      (None, in_array TokenArrayStart (r @ t) (off + length s) stk)"
    by (simp add: tokenPrepareForDecode_def)
  have d: "js_Decode env (at_array stk TokenArrayStart (r @ t) (off + length s)) =
      (Inr r, at_array stk TokenArrayComma t (off + length s + length r))"
    using Decode_object [of "[]" r TokenArrayStart t "off + length s"] assms(3) cut_literal_clean [OF assms(1)] assms(1)
    by (simp add: js_Decode_def p clean_source_def spaces_def)
  have o: "isJSONObject r" by (simp add: isJSONObject_def r)
  show ?thesis
    using assms(4,5) by (simp add: json_step_def value_step_def m d o js_Offset_def Let_def)
qed

lemma array_next:
  assumes "clean_source env" and "spaces a" and "spaces b" and "json_object r"
    and "1 + int (length b) + int (length r) \<le> je_recordSize env" and "start \<le> int off"
  shows "json_step env shape start (at_array stk TokenArrayComma (a @ CHR '','' # b @ r @ t) off) =
    ([(Inr (JsonRecord r), int off + int (length a) + 1 + int (length b) + int (length r))], True,
     at_array stk TokenArrayComma t (off + length a + 1 + length b + length r))"
proof -
  let ?d = "in_array TokenArrayComma (CHR '','' # b @ r @ t) (off + length a) stk"
  let ?d1 = "in_array TokenArrayValue (b @ r @ t) (off + length a + 1) stk"
  have m: "js_More (at_array stk TokenArrayComma (a @ CHR '','' # b @ r @ t) off) =
      (True, at_array stk TokenArrayComma (CHR '','' # b @ r @ t) (off + length a))"
    using More_at [OF assms(2), of "CHR '',''"] by (simp add: js_More_def isSpace_def)
  have p: "tokenPrepareForDecode ?d = (None, ?d1)"
    by (simp add: tokenPrepareForDecode_def peek_def isSpace_def dec_skip_def)
  have p2: "tokenPrepareForDecode ?d1 = (None, ?d1)" by (simp add: tokenPrepareForDecode_def)
  have e: "Decode ?d = Decode ?d1" unfolding Decode_def p p2 by simp
  have d: "js_Decode env (at_array stk TokenArrayComma (CHR '','' # b @ r @ t) (off + length a)) =
      (Inr r, at_array stk TokenArrayComma t (off + length a + 1 + length b + length r))"
    using Decode_object [OF assms(3,4), of TokenArrayValue t "off + length a + 1"] cut_literal_clean [OF assms(1)] assms(1) e
    by (simp add: js_Decode_def p clean_source_def)
  have o: "isJSONObject r" using json_object_hd [OF assms(4)] by (cases r) (auto simp: isJSONObject_def)
  show ?thesis
    using assms(5,6) by (simp add: json_step_def value_step_def m d o js_Offset_def Let_def)
qed

text \<open>What ends the array and the object, and the offset behind it.\<close>

definition ends_with :: "json_env \<Rightarrow> jsonShape \<Rightarrow> token_state list \<Rightarrow> bytes \<Rightarrow> bool" where
  "ends_with env shape stk t =
     (\<forall>st off start. st = TokenArrayStart \<or> st = TokenArrayComma \<longrightarrow>
        (\<exists>p. json_step env shape start (at_array stk st t off) = ([], False, p)))"

lemma array_close:
  assumes "clean_source env" and "spaces a" and "spaces b"
  shows "ends_with env ShapeArray [TokenTopValue] (a @ CHR '']'' # b)"
  unfolding ends_with_def
proof (intro allI impI)
  fix st off start
  assume st: "st = TokenArrayStart \<or> st = TokenArrayComma"
  have m: "js_More (at_array [TokenTopValue] st (a @ CHR '']'' # b) off) =
      (False, at_array [TokenTopValue] st (CHR '']'' # b) (off + length a))"
    using More_at [OF assms(2), of "CHR '']''"] by (simp add: js_More_def isSpace_def)
  have t: "js_Token env (at_array [TokenTopValue] st (CHR '']'' # b) (off + length a)) =
      (Inr (TDelim CHR '']''), at_top b (off + length a + 1))"
    using st
    by (auto simp: js_Token_def src_Token_def Token.simps peek_def isSpace_def close_bracket_def tokenValueEnd_def dec_skip_def)
  have "js_More (at_top b (off + length a + 1)) = (False, at_top b (off + length a + 1))"
    using assms(3) by (rule More_spaces)
  with clean_source_end [OF assms(1)]
  show "\<exists>p. json_step env ShapeArray start (at_array [TokenTopValue] st (a @ CHR '']'' # b) off) = ([], False, p)"
    by (simp add: json_step_def m end_of_values_def closes_def t)
qed

abbreviation in_wrapper :: "token_state list" where
  "in_wrapper \<equiv> [TokenObjectValue, TokenTopValue]"

lemma wrapper_close:
  assumes "clean_source env" and "spaces a" and "spaces b" and "spaces c"
  shows "ends_with env ShapeRecordsWrapper in_wrapper (a @ CHR '']'' # b @ CHR ''}'' # c)"
  unfolding ends_with_def
proof (intro allI impI)
  fix st off start
  assume st: "st = TokenArrayStart \<or> st = TokenArrayComma"
  let ?t = "b @ CHR ''}'' # c"
  let ?o = "off + length a + 1"
  have m: "js_More (at_array in_wrapper st (a @ CHR '']'' # ?t) off) =
      (False, at_array in_wrapper st (CHR '']'' # ?t) (off + length a))"
    using More_at [OF assms(2), of "CHR '']''"] by (simp add: js_More_def isSpace_def)
  have t: "js_Token env (at_array in_wrapper st (CHR '']'' # ?t) (off + length a)) =
      (Inr (TDelim CHR '']''), at_array [TokenTopValue] TokenObjectComma ?t ?o)"
    using st
    by (auto simp: js_Token_def src_Token_def Token.simps peek_def isSpace_def close_bracket_def tokenValueEnd_def dec_skip_def)
  have m2: "js_More (at_array [TokenTopValue] TokenObjectComma ?t ?o) =
      (False, at_array [TokenTopValue] TokenObjectComma (CHR ''}'' # c) (?o + length b))"
    using More_at [OF assms(3), of "CHR ''}''"] by (simp add: js_More_def isSpace_def)
  have t2: "js_Token env (at_array [TokenTopValue] TokenObjectComma (CHR ''}'' # c) (?o + length b)) =
      (Inr (TDelim CHR ''}''), at_top c (?o + length b + 1))"
    by (simp add: js_Token_def src_Token_def Token.simps peek_def isSpace_def close_bracket_def tokenValueEnd_def dec_skip_def)
  have f: "finishObject env (at_array [TokenTopValue] TokenObjectComma ?t ?o) = (None, at_top c (?o + length b + 1))"
    by (simp add: finishObject_def finish_keys.simps m2 [simplified] t2 [simplified])
  have "js_More (at_top c (?o + length b + 1)) = (False, at_top c (?o + length b + 1))"
    using assms(4) by (rule More_spaces)
  with clean_source_end [OF assms(1)]
  show "\<exists>p. json_step env ShapeRecordsWrapper start (at_array in_wrapper st (a @ CHR '']'' # ?t) off) = ([], False, p)"
    by (simp add: json_step_def m end_of_values_def closes_def t f [simplified])
qed

lemma array_run_comma:
  assumes "clean_source env" and "ends_with env shape stk t"
  shows "good_items its \<Longrightarrow> within env its \<Longrightarrow> start \<le> int off \<Longrightarrow>
    fst (json_run env shape start (at_array stk TokenArrayComma (items_text its @ t) off)) = record_items (int off) its"
proof (induction its arbitrary: off)
  case Nil
  obtain p where "json_step env shape start (at_array stk TokenArrayComma t off) = ([], False, p)"
    using assms(2) unfolding ends_with_def by blast
  then show ?case by (simp add: json_run.simps [of _ _ _ "at_array stk TokenArrayComma t off"])
next
  case (Cons x its)
  obtain s r where x: "x = (s, r)" by (cases x)
  obtain u v where s: "s = u @ CHR '','' # v" "spaces u" "spaces v" and r: "json_object r"
    and its: "good_items its" "within env its" and w: "1 + int (length v) + int (length r) \<le> je_recordSize env"
    using Cons.prems(1,2) x by (auto simp: good_items_def next_sep_def within_def)
  note step = array_next [OF assms(1) s(2,3) r w Cons.prems(3), where t = "items_text its @ t"]
  note IH = Cons.IH [OF its, of "off + length u + 1 + length v + length r"]
  have "start \<le> int (off + length u + 1 + length v + length r)" using Cons.prems(3) by simp
  from json_run_step [OF step] IH [OF this] show ?case by (simp add: x s(1) add_ac)
qed

lemma array_run:
  assumes "clean_source env" and "ends_with env shape stk t" and "good_array its" and "within env its" and "start \<le> int off"
  shows "fst (json_run env shape start (at_array stk TokenArrayStart (items_text its @ t) off)) = record_items (int off) its"
proof (cases its)
  case Nil
  obtain p where "json_step env shape start (at_array stk TokenArrayStart t off) = ([], False, p)"
    using assms(2) unfolding ends_with_def by blast
  with Nil show ?thesis by (simp add: json_run.simps [of _ _ _ "at_array stk TokenArrayStart t off"])
next
  case (Cons x its')
  obtain s r where x: "x = (s, r)" by (cases x)
  have h: "spaces s" "json_object r" "int (length r) \<le> je_recordSize env" and its: "good_items its'" "within env its'"
    using assms(3,4) Cons x by (auto simp: good_array_def within_def)
  have "start \<le> int (off + length s + length r)" using assms(5) by simp
  from json_run_step [OF array_first [OF assms(1) h assms(5), where t = "items_text its' @ t"]]
    array_run_comma [OF assms(1,2) its this]
  show ?thesis by (simp add: Cons x add_ac)
qed

section \<open>Objects of one shape\<close>

lemma first_meaningful: "spaces a \<Longrightarrow> \<not> is_ws c \<Longrightarrow> firstMeaningfulByte (a @ c # s) = Some (c, s)"
  by (induction a) (auto simp: spaces_def isSpace_def is_ws_def)

lemma peeked:
  assumes "maxRecordsSearchBytes \<le> buf_len (br_bufSize reader)" and "br_end reader = ErrEOF"
  shows "\<exists>err. bufferedReader_Peek maxRecordsSearchBytes reader = (take maxRecordsSearchBytes (br_rest reader), err)
    \<and> (err = None \<or> err = Some ErrEOF)"
  using assms by (auto simp: bufferedReader_Peek_def)

lemma Decode_first:
  assumes "spaces s" and "json_object r"
  shows "firstValue (s @ r @ u) = Some r"
proof -
  have n: "readValue (s @ r @ u) = Inr (length s + length r)"
    using readValue_spaces(1) [OF assms(1) json_object_read [OF assms(2)]] .
  have "dropWhile isSpace (s @ r) = r"
    by (rule dropWhile_spaces [OF assms(1)]) (use json_object_hd [OF assms(2)] in \<open>simp add: isSpace_def\<close>)
  with n show ?thesis
    by (simp add: firstValue_def NewDecoder_def Decode_def tokenPrepareForDecode_def tokenValueAllowed_def)
qed

lemma classify_sequence:
  assumes "maxRecordsSearchBytes \<le> buf_len (br_bufSize reader)" and "br_end reader = ErrEOF"
    and "br_rest reader = s @ r @ u" and "spaces s" and "json_object r"
    and "length s + length r \<le> maxRecordsSearchBytes" and "\<not> opensRecordsArray r"
  shows "classifyJSON raw reader = Inr ShapeValueSequence"
proof -
  obtain err where p: "bufferedReader_Peek maxRecordsSearchBytes reader = (take maxRecordsSearchBytes (br_rest reader), err)"
    and e: "err = None \<or> err = Some ErrEOF"
    using peeked [OF assms(1,2)] by blast
  obtain cs where r: "r = CHR ''{'' # cs" using json_object_hd [OF assms(5)] by (cases r) auto
  have w: "take maxRecordsSearchBytes (br_rest reader) = s @ r @ take (maxRecordsSearchBytes - length s - length r) u"
    using assms(3,6) by simp
  have f: "firstMeaningfulByte (s @ r @ v) = Some (CHR ''{'', cs @ v)" for v
    using first_meaningful [OF assms(4), of "CHR ''{''"] by (simp add: r is_ws_def)
  show ?thesis
    using e assms(7) Decode_first [OF assms(4,5)] by (auto simp: classifyJSON_def p w f errors_Is_def)
qed

lemma classify_array:
  assumes "maxRecordsSearchBytes \<le> buf_len (br_bufSize reader)" and "br_end reader = ErrEOF"
    and "br_rest reader = s @ CHR ''['' # u" and "spaces s" and "length s < maxRecordsSearchBytes"
  shows "classifyJSON raw reader = Inr ShapeArray"
proof -
  obtain err where p: "bufferedReader_Peek maxRecordsSearchBytes reader = (take maxRecordsSearchBytes (br_rest reader), err)"
    and e: "err = None \<or> err = Some ErrEOF"
    using peeked [OF assms(1,2)] by blast
  have w: "take maxRecordsSearchBytes (br_rest reader) = s @ CHR ''['' # take (maxRecordsSearchBytes - length s - 1) u"
    using assms(3,5) by (simp add: take_Cons')
  have f: "firstMeaningfulByte (s @ CHR ''['' # v) = Some (CHR ''['', v)" for v
    by (rule first_meaningful [OF assms(4)]) (simp add: is_ws_def)
  show ?thesis using e by (auto simp: classifyJSON_def p w f errors_Is_def)
qed

lemma json_sequence_once:
  assumes "clean_source env" and "maxRecordsSearchBytes \<le> buf_len (br_bufSize reader)" and "br_end reader = ErrEOF"
    and "br_rest reader = items_text ((s, r) # its) @ t" and "good_sequence ((s, r) # its)" and "spaces t"
    and "within env ((s, r) # its)" and "length s + length r \<le> maxRecordsSearchBytes" and "\<not> opensRecordsArray r"
  shows "restarts json_parse (env, reader) 0 ns = Some (record_items 0 ((s, r) # its))"
proof -
  have c: "classifyJSON (je_raw env) reader = Inr ShapeValueSequence"
    by (rule classify_sequence [OF assms(2,3) _ _ _ assms(8,9), where u = "items_text its @ t"])
      (use assms(4,5) in \<open>auto simp: good_sequence_def\<close>)
  have p: "NewJSONParser reader = at_top (items_text ((s, r) # its) @ t) 0"
    by (simp add: NewJSONParser_def NewDecoder_def assms(4))
  note run = sequence_run [OF assms(1,6,5,7), of 0 0]
  have "json_steady (env, reader)" using run by (simp add: json_steady_def c p del: items_text_simps)
  moreover have "json_parse (env, reader) 0 =
      Some (Inr (record_items 0 ((s, r) # its), int (length (items_text ((s, r) # its)))))"
    using run by (simp add: json_parse_def jsonParser_Parse_def c p del: items_text_simps record_items.simps)
  ultimately show ?thesis by (rule json.restarts_exact)
qed

text \<open>The array stands alone, or is what the key \<open>Records\<close> of an object holds.\<close>

definition wrapper_head :: bytes where
  "wrapper_head = CHR ''{'' # CHR 0x22 # ''Records'' @ [CHR 0x22, CHR '':'', CHR ''['']"

lemma array_opened:
  assumes "spaces s"
  shows "js_Token env \<lparr>js_base = 0, js_dec = NewDecoder (s @ CHR ''['' # u)\<rparr> =
      (Inr (TDelim CHR ''[''), at_array [TokenTopValue] TokenArrayStart u (length s + 1))"
  using takeWhile_spaces [OF assms, of "CHR ''[''" u]
  by (simp add: js_Token_def src_Token_def NewDecoder_def Token.simps peek_def isSpace_def
      open_bracket_def tokenValueAllowed_def dec_skip_def)

abbreviation wrapper_key :: "bytes \<Rightarrow> bytes" where
  "wrapper_key u \<equiv> CHR 0x22 # ''Records'' @ CHR 0x22 # CHR '':'' # CHR ''['' # u"

lemma wrapper_tokens:
  "src_Token e (NewDecoder (wrapper_head @ u)) =
     (Inr (TDelim CHR ''{''), in_array TokenObjectStart (wrapper_key u) (Suc 0) [TokenTopValue])"
  "src_Token e (in_array TokenObjectStart (wrapper_key u) (Suc 0) [TokenTopValue]) =
     (Inr (TString ''Records''), in_array TokenObjectColon (CHR '':'' # CHR ''['' # u) 10 [TokenTopValue])"
  "src_Token e (in_array TokenObjectColon (CHR '':'' # CHR ''['' # u) 10 [TokenTopValue]) =
     (Inr (TDelim CHR ''[''), in_array TokenArrayStart u 12 in_wrapper)"
proof -
  have "readValue (wrapper_key u) = Inr 9" by (simp add: readValue_def scanner_defs)
  then show "src_Token e (in_array TokenObjectStart (wrapper_key u) (Suc 0) [TokenTopValue]) =
      (Inr (TString ''Records''), in_array TokenObjectColon (CHR '':'' # CHR ''['' # u) 10 [TokenTopValue])"
    by (simp add: src_Token_def Token.simps peek_def isSpace_def Decode_def
        tokenPrepareForDecode_def tokenValueAllowed_def dec_skip_def unquote.simps)
qed (simp_all add: src_Token_def NewDecoder_def Token.simps peek_def isSpace_def
    open_bracket_def tokenValueAllowed_def dec_skip_def wrapper_head_def)

lemma wrapper_opened:
  "seekRecordsArray env \<lparr>js_base = 0, js_dec = NewDecoder (wrapper_head @ u)\<rparr> =
     (None, at_array in_wrapper TokenArrayStart u (length wrapper_head))"
proof -
  have m: "js_More (at_array [TokenTopValue] TokenObjectStart (wrapper_key u) (Suc 0)) =
      (True, at_array [TokenTopValue] TokenObjectStart (wrapper_key u) (Suc 0))"
    by (simp add: js_More_def More_def peek_def isSpace_def dec_skip_def)
  have l: "length wrapper_head = 12" by (simp add: wrapper_head_def)
  note t = wrapper_tokens(1) wrapper_tokens(2,3) [simplified]
  show ?thesis by (simp add: seekRecordsArray_def js_Token_def t seek_key.simps m [simplified] l)
qed

lemma wrapper_opens: "opensRecordsArray (wrapper_head @ u)"
  using wrapper_tokens(1) wrapper_tokens(2,3) [simplified]
  by (simp add: opensRecordsArray_def opens_key.simps)

lemma wrapper_read: "readValue (wrapper_head @ v) = Inr n \<Longrightarrow> length wrapper_head \<le> n"
  by (auto simp: readValue_def wrapper_head_def scanner_defs dest!: read_loop_ge split: sum.splits json_err.splits)

lemma wrapper_first:
  assumes "firstValue (wrapper_head @ v) = Some w"
  obtains u where "w = wrapper_head @ u"
proof -
  obtain n where n: "readValue (wrapper_head @ v) = Inr n" and w: "w = dropWhile isSpace (take n (wrapper_head @ v))"
    using assms
    by (auto simp: firstValue_def NewDecoder_def Decode_def tokenPrepareForDecode_def tokenValueAllowed_def
        split: sum.splits prod.splits)
  have "take n (wrapper_head @ v) = wrapper_head @ take (n - length wrapper_head) v"
    using wrapper_read [OF n] by simp
  then have "w = wrapper_head @ take (n - length wrapper_head) v"
    using w by (simp add: wrapper_head_def isSpace_def)
  then show ?thesis by (rule that)
qed

lemma classify_wrapper:
  assumes "maxRecordsSearchBytes \<le> buf_len (br_bufSize reader)" and "br_end reader = ErrEOF"
    and "br_rest reader = wrapper_head @ u"
  shows "classifyJSON raw reader = Inr ShapeRecordsWrapper"
proof -
  obtain err where p: "bufferedReader_Peek maxRecordsSearchBytes reader = (take maxRecordsSearchBytes (br_rest reader), err)"
    and e: "err = None \<or> err = Some ErrEOF"
    using peeked [OF assms(1,2)] by blast
  let ?v = "take (maxRecordsSearchBytes - 12) u"
  have w: "take maxRecordsSearchBytes (br_rest reader) = wrapper_head @ ?v"
    using assms(3) by (simp add: wrapper_head_def maxRecordsSearchBytes_def)
  obtain v' where f: "firstMeaningfulByte (wrapper_head @ ?v) = Some (CHR ''{'', v')"
    by (simp add: wrapper_head_def is_ws_def)
  have "opensRecordsArray x" if "firstValue (wrapper_head @ ?v) = Some x" for x
    using wrapper_first [OF that] wrapper_opens by metis
  then show ?thesis using e wrapper_opens by (auto simp: classifyJSON_def p w f errors_Is_def split: option.splits)
qed

lemma json_array_once:
  assumes "clean_source env" and "maxRecordsSearchBytes \<le> buf_len (br_bufSize reader)" and "br_end reader = ErrEOF"
    and "br_rest reader = s @ CHR ''['' # items_text its @ a @ CHR '']'' # b" and "good_array its"
    and "spaces s" and "spaces a" and "spaces b" and "within env its" and "length s < maxRecordsSearchBytes"
  shows "restarts json_parse (env, reader) 0 ns = Some (record_items (int (length s) + 1) its)"
proof -
  have c: "classifyJSON (je_raw env) reader = Inr ShapeArray"
    by (rule classify_array [OF assms(2,3,4,6,10)])
  let ?p = "at_array [TokenTopValue] TokenArrayStart (items_text its @ a @ CHR '']'' # b) (length s + 1)"
  have t: "js_Token env (NewJSONParser reader) = (Inr (TDelim CHR ''[''), ?p)"
    using array_opened [OF assms(6)] by (simp add: NewJSONParser_def assms(4))
  have "json_steady (env, reader)" by (simp add: json_steady_def c)
  moreover have "json_parse (env, reader) 0 = Some (Inr (json_run env ShapeArray 0 ?p))"
    by (simp add: json_parse_def jsonParser_Parse_def c t)
  ultimately have "restarts json_parse (env, reader) 0 ns = Some (fst (json_run env ShapeArray 0 ?p))"
    using json.restarts_exact by (metis prod.collapse)
  then show ?thesis
    using array_run [OF assms(1) array_close [OF assms(1,7,8)] assms(5,9), of 0 "length s + 1"] by (simp add: add.commute)
qed

lemma json_wrapper_once:
  assumes "clean_source env" and "maxRecordsSearchBytes \<le> buf_len (br_bufSize reader)" and "br_end reader = ErrEOF"
    and "br_rest reader = wrapper_head @ items_text its @ a @ CHR '']'' # b @ CHR ''}'' # c" and "good_array its"
    and "spaces a" and "spaces b" and "spaces c" and "within env its"
  shows "restarts json_parse (env, reader) 0 ns = Some (record_items (int (length wrapper_head)) its)"
proof -
  have cl: "classifyJSON (je_raw env) reader = Inr ShapeRecordsWrapper"
    by (rule classify_wrapper [OF assms(2,3,4)])
  let ?p = "at_array in_wrapper TokenArrayStart (items_text its @ a @ CHR '']'' # b @ CHR ''}'' # c) (length wrapper_head)"
  have t: "seekRecordsArray env (NewJSONParser reader) = (None, ?p)"
    using wrapper_opened by (simp add: NewJSONParser_def assms(4))
  have "json_steady (env, reader)" by (simp add: json_steady_def cl)
  moreover have "json_parse (env, reader) 0 = Some (Inr (json_run env ShapeRecordsWrapper 0 ?p))"
    by (simp add: json_parse_def jsonParser_Parse_def cl t)
  ultimately have "restarts json_parse (env, reader) 0 ns = Some (fst (json_run env ShapeRecordsWrapper 0 ?p))"
    using json.restarts_exact by (metis prod.collapse)
  then show ?thesis
    using array_run [OF assms(1) wrapper_close [OF assms(1,6,7,8)] assms(5,9), of 0 "length wrapper_head"] by simp
qed

text \<open>The documents of the three shapes, with the offset in front of the first record.\<close>

definition json_document :: "jsonShape \<Rightarrow> (bytes \<times> bytes) list \<Rightarrow> int \<Rightarrow> bytes \<Rightarrow> bool" where
  "json_document shape its off content =
     (case shape of
        ShapeValueSequence \<Rightarrow>
          off = 0 \<and> good_sequence its \<and> (\<exists>t. spaces t \<and> content = items_text its @ t)
          \<and> (\<exists>s r rest. its = (s, r) # rest \<and> length s + length r \<le> maxRecordsSearchBytes \<and> \<not> opensRecordsArray r)
      | ShapeArray \<Rightarrow>
          good_array its
          \<and> (\<exists>s a b. spaces s \<and> spaces a \<and> spaces b \<and> length s < maxRecordsSearchBytes \<and> off = int (length s) + 1
               \<and> content = s @ CHR ''['' # items_text its @ a @ CHR '']'' # b)
      | ShapeRecordsWrapper \<Rightarrow>
          good_array its \<and> off = int (length wrapper_head)
          \<and> (\<exists>a b c. spaces a \<and> spaces b \<and> spaces c
               \<and> content = wrapper_head @ items_text its @ a @ CHR '']'' # b @ CHR ''}'' # c))"


text \<open>
  C14. A worker that is stopped and restarted any number of times, each time from the offset of the last record it
  handled, sees exactly the items of an uninterrupted parse: of an array and of wrapped records whatever the
  content, broken records and documents behind one another included, and of a sequence of values as long as
  no text line begins with a value or ends with the object.
\<close>

theorem json_restarts_exact:
  assumes "json_steady src" and "json_parse src start = Some (Inr (items, fin))"
  shows "restarts json_parse src start ns = Some items"
  using assms by (rule json.restarts_exact)

section \<open>Examples\<close>

definition sample_env :: json_env where
  "sample_env =
     \<lparr>je_raw = complete_raw, je_end = ErrEOF, je_recordSize = 4096, je_tooLarge = \<lambda>off. False,
      je_skipTooLarge = \<lambda>off. False, je_buffered = \<lambda>off. 512\<rparr>"

definition json_reader :: "bytes \<Rightarrow> bufferedReader" where
  "json_reader content = NewBufferedReader content ErrEOF False 4096"

lemma sample_source: "clean_source sample_env"
  by (simp add: clean_source_def sample_env_def complete_raw_def RawTruncated_def)

lemma json_reader_simps:
  "br_rest (json_reader s) = s" "br_end (json_reader s) = ErrEOF"
  "maxRecordsSearchBytes \<le> buf_len (br_bufSize (json_reader s))"
  by (simp_all add: json_reader_def NewBufferedReader_def maxRecordsSearchBytes_def buf_len_def)

lemma braces_object: "json_object ''{}''"
  by (simp add: json_object_def scanner_defs)

lemma sample_document:
  "json_document ShapeRecordsWrapper [([], ''{}''), ('','', ''{}'')] 12 (wrapper_head @ ''{},{}]}'')"
proof -
  have "next_sep '',''" by (auto simp: next_sep_def spaces_def intro!: exI [of _ "[]"])
  then have "good_array [([], ''{}''), ('','', ''{}'')]" by (simp add: good_array_def good_items_def spaces_def braces_object)
  moreover have "\<exists>a b c. spaces a \<and> spaces b \<and> spaces c \<and> '']}'' = a @ CHR '']'' # b @ CHR ''}'' # c"
    by (intro exI [of _ "[]"]) (simp add: spaces_def)
  ultimately show ?thesis by (simp add: json_document_def wrapper_head_def)
qed



theorem json_restarts_exact_witness:
  "restarts json_parse (sample_env, json_reader (''{}'' @ [LF] @ ''a'' @ [LF] @ ''{}'')) 0 [1, 0] =
     Some [(Inr (JsonRecord ''{}''), 2), (Inr (RawTextLine ''a''), 5), (Inr (JsonRecord ''{}''), 7)]"
  by (rule json_restarts_exact) code_simp+

text \<open>A restart behind a text line that begins with a value loses the line behind it, where the text opens an array or an
  object that later bytes close.\<close>

abbreviation after_lf :: "int \<Rightarrow> bytes \<Rightarrow> json_parser" where
  "after_lf off s \<equiv> \<lparr>js_base = off, js_dec = NewDecoder s\<rparr>"

lemma mixed_steps:
  "json_step sample_env ShapeValueSequence 0 (at_top (LF # ''4 ['' @ LF # ''2]'' @ [LF]) 2) =
     ([(Inr (RawTextLine ''4 [''), 7)], True, after_lf 7 (''2]'' @ [LF]))"
  "json_step sample_env ShapeValueSequence 0 (after_lf 7 (''2]'' @ [LF])) =
     ([(Inr (RawTextLine ''2]''), 10)], True, after_lf 10 [])"
  "json_step sample_env ShapeValueSequence 0 (after_lf 10 []) = ([], False, after_lf 10 [])"
  by code_simp+

lemma mixed_steps_again:
  "json_step sample_env ShapeValueSequence 7 (at_top (''{}'' @ LF # ''4 ['' @ LF # ''2]'' @ [LF]) 0) =
     ([], True, at_top (LF # ''4 ['' @ LF # ''2]'' @ [LF]) 2)"
  "json_step sample_env ShapeValueSequence 7 (at_top (LF # ''4 ['' @ LF # ''2]'' @ [LF]) 2) =
     ([], True, at_top ('' ['' @ LF # ''2]'' @ [LF]) 4)"
  "json_step sample_env ShapeValueSequence 7 (at_top ('' ['' @ LF # ''2]'' @ [LF]) 4) = ([], True, at_top [LF] 9)"
  "json_step sample_env ShapeValueSequence 7 (at_top [LF] 9) = ([], False, at_top [LF] 9)"
  by code_simp+

definition mixed_reader :: bufferedReader where
  "mixed_reader = json_reader (''{}'' @ LF # ''4 ['' @ LF # ''2]'' @ [LF])"

lemma mixed_parse:
  "json_parse (sample_env, mixed_reader) start =
     Some (Inr (json_run sample_env ShapeValueSequence start (at_top (''{}'' @ LF # ''4 ['' @ LF # ''2]'' @ [LF]) 0)))"
proof -
  have "classifyJSON (je_raw sample_env) mixed_reader = Inr ShapeValueSequence" by code_simp
  then show ?thesis
    by (simp add: json_parse_def jsonParser_Parse_def NewJSONParser_def NewDecoder_def mixed_reader_def json_reader_simps)
qed

lemma text_line_lost:
  "json_parse (sample_env, mixed_reader) 0 =
     Some (Inr ([(Inr (JsonRecord ''{}''), 2), (Inr (RawTextLine ''4 [''), 7), (Inr (RawTextLine ''2]''), 10)], 10))"
  "json_parse (sample_env, mixed_reader) 7 = Some (Inr ([], 9))"
proof -
  have "json_step sample_env ShapeValueSequence 0 (at_top (''{}'' @ LF # ''4 ['' @ LF # ''2]'' @ [LF]) 0) =
      ([(Inr (JsonRecord ''{}''), 2)], True, at_top (LF # ''4 ['' @ LF # ''2]'' @ [LF]) 2)"
    using sequence_step(1) [OF sample_source _ braces_object, of "[]" 0 0] by (simp add: spaces_def sample_env_def)
  note steps = json_run_step [OF this] json_run_step [OF mixed_steps(1)] json_run_step [OF mixed_steps(2)]
    json_run_step [OF mixed_steps(3), unfolded if_False]
  show "json_parse (sample_env, mixed_reader) 0 =
      Some (Inr ([(Inr (JsonRecord ''{}''), 2), (Inr (RawTextLine ''4 [''), 7), (Inr (RawTextLine ''2]''), 10)], 10))"
    unfolding mixed_parse steps by (simp add: js_Offset_def NewDecoder_def)
  note again = json_run_step [OF mixed_steps_again(1)] json_run_step [OF mixed_steps_again(2)]
    json_run_step [OF mixed_steps_again(3)] json_run_step [OF mixed_steps_again(4), unfolded if_False]
  show "json_parse (sample_env, mixed_reader) 7 = Some (Inr ([], 9))"
    unfolding mixed_parse again by (simp add: js_Offset_def)
qed

text \<open>A text line that ends with the object is yielded with the offset in front of it, so that a restart yields it again.\<close>

lemma last_text_line_again:
  "map_option (map_sum id fst) (json_parse (sample_env, json_reader (''{}'' @ [LF] @ ''abc'')) 0) =
     Some (Inr [(Inr (JsonRecord ''{}''), 2), (Inr (RawTextLine ''abc''), 3)])"
  "map_option (map_sum id fst) (json_parse (sample_env, json_reader (''{}'' @ [LF] @ ''abc'')) 3) =
     Some (Inr [(Inr (RawTextLine ''abc''), 3)])"
  by code_simp+

end
