(* ===== verification/Spec2Isabelle.thy ===== *)
theory Spec2Isabelle
  imports Prelude Counter GatewaySteps Archive RestPoll AzureFinal RemoveEmpty Chronicle ObjectLines GcsReceiver
    EventExtension OcsfProps MetricWindows SnapshotProps JsonExact
begin

text \<open>
  A verification development for the BindPlane OpenTelemetry Collector contributions: the Go
  modules under \<open>src/\<close> that a collector is built from (receivers, processors, exporters,
  extensions) and the packages they share.

  \<^bold>\<open>The program's parts.\<close> A receiver brings data into a collector pipeline; most of the code that
  decides something of its own lies in a few places, and these are modelled.

  \<^item> \<open>internal/blobstream\<close> turns the body of an object of a bucket into log records: it finds the
    compression and the format from the leading bytes, parses lines, JSON or Avro, goes through the
    members of archives, bounds what a hostile object can make it read, and gives every record
    the offset from which a worker that was stopped resumes.
  \<^item> \<open>receiver/awss3eventreceiver\<close> and \<open>receiver/gcspubsubeventreceiver\<close> take messages that name objects
    from a queue; their workers stream each object through \<open>internal/blobstream\<close>, deliver batches,
    save offsets, and retry, acknowledge or dead-letter the message by the error it ends with.
    \<open>extension/awss3eventextension\<close> downloads such objects into a directory; \<open>internal/aws\<close> is shared.
  \<^item> \<open>receiver/azureblobpollingreceiver\<close> polls an Azure container. Blobs that other programs append
    to are read from a stored offset whose blob a fingerprint identifies; \<open>internal/blobconsume\<close> cuts
    the new bytes at the last complete line or record. A blob that no longer changes is
    finished and, if so configured, deleted.
  \<^item> \<open>receiver/restapireceiver\<close> polls an HTTP API: a cycle requests page after page, moves a stored
    pagination state, hands the records on and saves the state.
  \<^item> \<open>extension/opampgateway\<close> stands between many agents and one OpAMP server: it accepts agent
    connections after asking the server, spreads them over a few upstream connections and
    routes messages both ways.
  \<^item> \<open>exporter/chronicleexporter\<close> finds log type, namespace and labels of each record, groups the records
    into requests, splits what is too large, and reports counters of what it sent.
  \<^item> \<open>processor/ocsfstandardizationprocessor\<close> maps log records into bodies of the OCSF schema: it checks a
    configuration against the schema, evaluates and coerces fields, builds a nested body and validates it.
    Its checks are generated for eight versions of the schema by \<open>ocsf/gen.go\<close>.
  \<^item> \<open>processor/metricstatsprocessor\<close> takes datapoints out of the stream and sends statistics of them at
    an interval. \<open>processor/removeemptyvaluesprocessor\<close> removes empty values from telemetry.
  \<^item> \<open>pkg/counter\<close> counts telemetry by resource and attributes for the counting processors.

  \<^bold>\<open>The theories.\<close> Each opens with what it holds; definitions keep the names of the code.

  \<^item> \<open>Prelude\<close>: the conventions for Go types, shared facts on lists, maps and decimal text.
  \<^item> \<open>BlobErrors\<close> (\<open>content_errors.go\<close>, \<open>stream_error.go\<close>, \<open>stream.go\<close>, \<open>archive.go\<close>): the error
    values, the predicates on their chains, and the classification of a failure.
  \<^item> \<open>BlobReaders\<close> (\<open>counting_reader.go\<close>, \<open>decompress_limit.go\<close>, \<open>archive.go\<close>,
    \<open>avro_ocf_parser.go\<close>): the reader wrappers; the locale \<open>bounded_reader\<close> is what the limits
    promise, interpreted four times.
  \<^item> \<open>LineParser\<close> (\<open>line_parser.go\<close>, \<open>buffered_reader.go\<close>): the parser of text; the locale
    \<open>resumable\<close> is the contract of a parser that can be stopped and restarted.
  \<^item> \<open>BlobDetect\<close> (\<open>codec.go\<close>, \<open>stream.go\<close>, \<open>parser.go\<close>, parts of \<open>json_parser.go\<close>): compression,
    layers of compression, the choice of the parser, the resynchronisation after a newline.
  \<^item> \<open>Archive\<close> (\<open>archive.go\<close>, \<open>offset.go\<close>): the loop over the members; the locale
    \<open>archive_members\<close> is what it needs of a member, interpreted on text members.
  \<^item> \<open>RestTime\<close>, \<open>Pagination\<close>, \<open>RestPoll\<close> (\<open>pagination.go\<close>, \<open>config.go\<close>, \<open>receiver.go\<close> of the REST API
    receiver): epoch times, the pagination state and its operations, whole poll cycles against
    an API.
  \<^item> \<open>JsonScan\<close>: the part of Go's \<open>encoding/json\<close> that the code leans on, written out: the scanner, the
    decoder with its tokens, raw values and offsets, string decoding; and UTF-8.
  \<^item> \<open>BlobTail\<close> (\<open>checkpoint.go\<close>, \<open>fingerprint.go\<close>, \<open>incremental.go\<close>, \<open>helpers.go\<close> of
    \<open>internal/blobconsume\<close>): the watermark, fingerprints, deltas of lines and records; \<open>BlobDelta\<close> holds
    the lemmas on what a delta is.
  \<^item> \<open>AzurePoll\<close> (\<open>receiver.go\<close>, \<open>checkpoint.go\<close> of the Azure blob polling receiver): its state and
    operations over the outside \<open>azure_outside\<close>. \<open>AzureTail\<close>: visits of a blob that grows; the locale
    \<open>growing\<close> is what a reader needs of a format, interpreted on lines and on records.
    \<open>AzureFinal\<close>: the end of a blob and its replacement.
  \<^item> \<open>ObjectWorker\<close>: what the S3 and Pub/Sub workers have in common, from the download to the last
    checkpoint, over the outside \<open>worker_outside\<close>. \<open>S3Worker\<close> and \<open>GcsWorker\<close> (\<open>worker.go\<close> of each): the
    messages, errors and deadlines of their own. \<open>ObjectOnce\<close>: deliveries of a message with faults;
    the locale \<open>resumable_object\<close> is what the workers need of a producer of records. \<open>ObjectLines\<close>:
    its interpretation on downloads of text.
  \<^item> \<open>GcsReceiver\<close> (\<open>receiver.go\<close> of the Pub/Sub receiver): deduplication. \<open>EventExtension\<close> (\<open>worker.go\<close>
    and \<open>extension.go\<close> of the S3 event extension, \<open>s3.go\<close>, \<open>fdr.go\<close> and \<open>backoff.go\<close> of \<open>internal/aws\<close>):
    events, paths, downloads, polls.
  \<^item> \<open>Registry\<close>, \<open>Gateway\<close>, \<open>WsCodec\<close>, \<open>GatewayRouting\<close>, \<open>GatewaySteps\<close> (\<open>connections.go\<close>, \<open>upstream.go\<close>,
    \<open>client.go\<close>, \<open>server.go\<close>, \<open>common.go\<close>, \<open>gateway.go\<close>): the registry with its locale
    \<open>conn_registry\<close>, the pool and the assignment of connections, the framing of messages, the
    callbacks, and the executions of all of them in any order as a step relation.
  \<^item> \<open>PData\<close>: the values and maps of the collector's data model. \<open>RemoveEmpty\<close> (\<open>processor.go\<close>,
    \<open>config.go\<close> of the processor that removes empty values): the removal, by recursion over values.
  \<^item> \<open>GoFloat\<close>: \<open>float64\<close> as its bits, with rounding, sum and quotient. \<open>OcsfCoerce\<close> (\<open>type_coerce.go\<close>),
    \<open>OcsfSchema\<close> and \<open>Ocsf\<close> (\<open>processor.go\<close>, \<open>config.go\<close>, \<open>ocsf/gen.go\<close>): values and coercions, the tables
    and functions that are generated from a schema, bodies on a heap of maps that can be shared, the
    validation of a body. \<open>OcsfTree\<close>, \<open>OcsfRecords\<close>, \<open>OcsfTypes\<close>, \<open>OcsfCoverage\<close>: bodies as trees, what
    the building of one keeps, types, and what the check of a configuration means for its bodies;
    \<open>OcsfProps\<close>: the properties and an example.
  \<^item> \<open>MetricStats\<close> (\<open>processor.go\<close>, \<open>metrics.go\<close>, \<open>internal/stats\<close> of the metric stats processor): the
    statistics, the taking of datapoints, the flush; \<open>MetricWindows\<close>: what a window holds.
  \<^item> \<open>Chronicle\<close> (\<open>marshal.go\<close>, \<open>log_grouper.go\<close>, \<open>metrics.go\<close>): records to requests over gRPC and HTTP; the
    locale \<open>halving\<close> is the splitting both share; the counters of the agent as a step relation.
  \<^item> \<open>Counter\<close> (\<open>counter.go\<close>): the counter and its exactness over any sequence of calls.

  \<^bold>\<open>What the lemmas show.\<close> Exactly-once behaviour of resumable reading: stopping a line parser
  or an archive behind any record and going on from its offset gives the items of an
  uninterrupted run; so does a blob that grows under the polling receiver, whichever reads and
  deliveries fail, and it is deleted only when all of it was delivered; and so does an object
  whose message is delivered again and again to a worker, with broken downloads and refusing
  consumers. Correct retry decisions: a download that broke is never dead-lettered, bad content
  is never retried for ever, a tripped limit always fails the object. Bounds: no reader hands
  out more than its limit, nested compression is peeled a bounded number of times, a message
  stays invisible exactly as long as the window allows. Pagination that neither skips nor repeats
  records and cycles that end. Load counts that equal the number of assigned connections and
  routes that lead only to live connections, in every reachable state of the gateway. Records
  that reach the Chronicle service once and under their own labels, as long as no name contains
  a separator of the grouping key. Removal of empty values and of nothing else. Bodies that have the
  types of the schema and lack no required field once the configuration was accepted, and that share no
  map with what they were made from. Statistics of exactly the datapoints of a series and a window, and
  no datapoint lost or doubled.

  \<^bold>\<open>Parameters.\<close> Third-party code is an argument of the definitions that use it: the content
  type library and the decompressors (\<open>codecs\<close>), the archive libraries (the list of members
  and how it ends), protobuf and UUIDs, \<open>json.Marshal\<close> of the counter's keys, layout-based times
  and float formatting (\<open>golib\<close>), the HTTP API, the consumer and the store of a poll cycle
  (\<open>outside\<close>), the Azure service, gzip, the consumer and the store of the polling receiver
  (\<open>azure_outside\<close>), the object store, the offset store, the consumer and the queue of a worker
  (\<open>worker_outside\<close>), expressions, log records and layout-based times of the OCSF processor (\<open>log_lib\<close>,
  \<open>coerce_lib\<close>), the schema itself, the hash of attributes (\<open>stats_config\<close>), the file system of the extension (\<open>ext_outside\<close>), the errors of the cloud
  libraries (\<open>aws_errors\<close>, \<open>gcs_errors\<close>), the text of a record and the size of a message (\<open>Chronicle\<close>), Unicode's
  folding of letter case (\<open>PData\<close>). Where a property needs something of them it is a hypothesis with a witness. The
  parts of the Go standard library the code leans on are written out: \<open>bufio\<close>, \<open>encoding/binary\<close>
  varints, \<open>errors.Is\<close> and \<open>errors.As\<close>, the wrap-around of \<open>int64\<close> and \<open>int32\<close> where values can
  reach it.

  \<^bold>\<open>Loops.\<close> Loops over a list are structural recursions. The line parser's loop and the poll
  loop may run for ever on some inputs, so they are partial functions into \<open>option\<close> and their
  ends are proved (\<open>line_parse_complete\<close>, \<open>page_limit_bounds_cycle\<close>, \<open>offset_cycle_exact\<close>). Waits between retries of a delivery are
  a list, of any length, of those the back-off grants. The validation of a body descends as deep as maps are
  nested, for ever in a map that contains itself; its model takes the depth it may go to, and
  \<open>accepted_config_complete\<close> proves a depth that is enough. Elsewhere there is no fuel but the nesting depth
  the code itself counts down.

  \<^bold>\<open>Not modelled.\<close> The JSON value sequence and the Avro parser, the clients of cloud services,
  the conversion of payloads into the collector's data types, logging and metrics of the
  receivers, the tables of generated schemas, and the components that only wrap libraries. The manifest
  lists every component with what is left out of it and why.
\<close>

end
